(* ===== verification/Prelude.thy ===== *)
theory Prelude
  imports "HOL-Library.Word"
begin

text \<open>
  Shared vocabulary of the development: bytes and Python strings, Python exceptions as
  values, the little- and big-endian integer conversions of \<open>int.to_bytes\<close> and
  \<open>int.from_bytes\<close>, the \<open>struct\<close> codes the program uses, reads from a
  \<open>BytesIO\<close>, and the generic list lemmas the components share.
\<close>

unbundle bit_operations_syntax

named_theorems bytes_simps \<open>conversions between integers and byte strings\<close>
named_theorems res_simps \<open>sequencing of computations that may raise\<close>
named_theorems eval_simps \<open>rules that evaluate the model on concrete inputs\<close>

section \<open>Bytes, strings and exceptions\<close>

text \<open>
  A byte string is a list of 8-bit words. A Python \<open>str\<close> whose code points matter is
  a list of code points (\<open>pystr\<close>); identifiers and other ASCII texts are HOL strings.
\<close>

type_synonym byte = "8 word"
type_synonym bytes = "byte list"
type_synonym pystr = "nat list"

text \<open>
  The exceptions of the language and its library that the modelled code can raise. A
  \<open>KeyError\<close> carries the missing key, which \<open>mtproto.unpack\<close> inspects.
\<close>

datatype py_error =
    OverflowError
  | StructError
  | ValueError
  | TypeError
  | IndexError
  | KeyError int
  | RuntimeError
  | NotImplementedError
  | AttributeError
  | ConnectionError
  | SecurityCheckMismatch
  | OSError
  | OperationalError
  | Exception
  | TimeoutError

type_synonym 'a res = "py_error + 'a"

text \<open>Sequencing: an exception skips the rest.\<close>

definition bind_res :: "'e + 'a \<Rightarrow> ('a \<Rightarrow> 'e + 'b) \<Rightarrow> 'e + 'b" where
  "bind_res m f = (case m of Inl e \<Rightarrow> Inl e | Inr x \<Rightarrow> f x)"

lemma bind_res_simps [simp]:
  "bind_res (Inl e) f = Inl e"
  "bind_res (Inr x) f = f x"
  by (simp_all add: bind_res_def)

lemma bind_res_cong [fundef_cong]:
  "m = m' \<Longrightarrow> (\<And>x. m' = Inr x \<Longrightarrow> f x = g x) \<Longrightarrow> bind_res m f = bind_res m' g"
  by (auto simp: bind_res_def split: sum.splits)

lemma bind_res_eq_Inr [res_simps]:
  "bind_res m f = Inr y \<longleftrightarrow> (\<exists>x. m = Inr x \<and> f x = Inr y)"
  by (auto simp: bind_res_def split: sum.splits)

lemma bind_res_eq_Inl [res_simps]:
  "bind_res m f = Inl e \<longleftrightarrow> m = Inl e \<or> (\<exists>x. m = Inr x \<and> f x = Inl e)"
  by (auto simp: bind_res_def split: sum.splits)

lemma bind_res_assoc: "bind_res (bind_res m f) g = bind_res m (\<lambda>x. bind_res (f x) g)"
  by (cases m) simp_all

text \<open>A list of computations run in order, as a comprehension does.\<close>

fun map_res :: "('a \<Rightarrow> 'e + 'b) \<Rightarrow> 'a list \<Rightarrow> 'e + 'b list" where
  "map_res f [] = Inr []"
| "map_res f (x # xs) =
     bind_res (f x) (\<lambda>y. bind_res (map_res f xs) (\<lambda>ys. Inr (y # ys)))"

lemma map_res_Inr_length: "map_res f xs = Inr ys \<Longrightarrow> length ys = length xs"
  by (induction xs arbitrary: ys) (auto simp: res_simps)

lemma map_res_all_Inr: "(\<And>x. x \<in> set xs \<Longrightarrow> f x = Inr (g x)) \<Longrightarrow> map_res f xs = Inr (map g xs)"
  by (induction xs) auto

text \<open>Python truthiness of an optional string: \<open>None\<close> and the empty string are false.\<close>

definition truthy :: "'a list option \<Rightarrow> bool" where
  "truthy s = (case s of None \<Rightarrow> False | Some x \<Rightarrow> x \<noteq> [])"

lemma truthy_simps [simp]: "truthy None = False" "truthy (Some x) = (x \<noteq> [])"
  by (simp_all add: truthy_def)


section \<open>Integers and byte strings\<close>

text \<open>
  \<open>le_bytes n v\<close> is the \<open>n\<close>-byte little-endian two's complement form of \<open>v\<close>
  (division rounds down, so a negative number comes out in two's complement), and
  \<open>le_int\<close> reads a byte string as an unsigned little-endian number.
\<close>

fun le_bytes :: "nat \<Rightarrow> int \<Rightarrow> bytes" where
  "le_bytes 0 v = []"
| "le_bytes (Suc n) v = of_int v # le_bytes n (v div 256)"

fun le_int :: "bytes \<Rightarrow> int" where
  "le_int [] = 0"
| "le_int (b # bs) = uint b + 256 * le_int bs"

definition be_bytes :: "nat \<Rightarrow> int \<Rightarrow> bytes" where
  "be_bytes n v = rev (le_bytes n v)"

definition be_int :: "bytes \<Rightarrow> int" where
  "be_int bs = le_int (rev bs)"

lemma le_bytes_numeral [simp]:
  "le_bytes (numeral k) v = of_int v # le_bytes (pred_numeral k) (v div 256)"
  by (simp add: numeral_eq_Suc)

lemma length_le_bytes [simp]: "length (le_bytes n v) = n"
  by (induction n arbitrary: v) auto

lemma length_be_bytes [simp]: "length (be_bytes n v) = n"
  by (simp add: be_bytes_def)

lemma le_int_nonneg [simp]: "0 \<le> le_int bs"
  by (induction bs) auto

lemma uint_byte_lt [simp]: "uint (b :: byte) < 256"
  using uint_lt2p [of b] by simp

lemma unat_byte_lt [simp]: "unat (b :: byte) < 256"
  using unsigned_less [of b] by simp

lemma unat_of_nat_byte: "n < 256 \<Longrightarrow> unat (of_nat n :: byte) = n"
  by (simp add: unat_of_nat)

lemma le_int_less: "le_int bs < 256 ^ length bs"
proof (induction bs)
  case (Cons b bs)
  have "uint b < 256" by simp
  with Cons have "uint b + 256 * le_int bs < 256 * 256 ^ length bs" by linarith
  then show ?case by simp
qed simp

lemma be_int_nonneg [simp]: "0 \<le> be_int bs"
  by (simp add: be_int_def)

lemma be_int_less: "be_int bs < 256 ^ length bs"
  using le_int_less [of "rev bs"] by (simp add: be_int_def)

lemma le_int_le_bytes [bytes_simps]: "le_int (le_bytes n v) = v mod 256 ^ n"
proof (induction n arbitrary: v)
  case (Suc n)
  have "uint (of_int v :: byte) = v mod 256"
    by (simp add: uint_word_of_int take_bit_eq_mod)
  moreover have "v mod (256 * 256 ^ n) = 256 * (v div 256 mod 256 ^ n) + v mod 256"
    by (rule zmod_zmult2_eq) simp
  ultimately show ?case by (simp add: Suc)
qed simp

lemma le_bytes_le_int [bytes_simps]: "le_bytes (length bs) (le_int bs) = bs"
proof (induction bs)
  case (Cons b bs)
  have d: "(uint b + 256 * le_int bs) div 256 = le_int bs"
    using uint_byte_lt [of b] by (simp add: div_pos_pos_trivial)
  have "(of_int (uint b + 256 * le_int bs) :: byte) = of_int (uint b)"
  proof -
    have z: "(256 :: byte) = 0" by simp
    show ?thesis by (simp add: z)
  qed
  then show ?case by (simp add: d Cons)
qed simp

lemma le_bytes_cong: "v mod 256 ^ n = w mod 256 ^ n \<Longrightarrow> le_bytes n v = le_bytes n w"
  by (metis le_bytes_le_int le_int_le_bytes length_le_bytes)

lemma be_int_be_bytes [bytes_simps]: "be_int (be_bytes n v) = v mod 256 ^ n"
  by (simp add: be_int_def be_bytes_def bytes_simps)

lemma be_bytes_be_int [bytes_simps]: "be_bytes (length bs) (be_int bs) = bs"
  using le_bytes_le_int [of "rev bs"] by (simp add: be_int_def be_bytes_def)

lemma be_int_Cons: "be_int (b # bs) = uint b * 256 ^ length bs + be_int bs"
proof -
  have "le_int (xs @ [b]) = le_int xs + uint b * 256 ^ length xs" for xs
    by (induction xs) (simp_all add: algebra_simps)
  from this [of "rev bs"] show ?thesis by (simp add: be_int_def)
qed

lemma be_int_Nil [simp]: "be_int [] = 0"
  by (simp add: be_int_def)

text \<open>
  \<open>v.to_bytes(n, "little", signed=s)\<close>, which raises \<open>OverflowError\<close> when the value
  does not fit (a negative value never fits an unsigned field), and
  \<open>int.from_bytes(b, "little", signed=s)\<close>, whose sign bit is the top bit of the bytes
  given, however few they are.
\<close>

definition fits :: "nat \<Rightarrow> bool \<Rightarrow> int \<Rightarrow> bool" where
  "fits n sg v =
     (if sg then - (256 ^ n) \<le> 2 * v \<and> 2 * v < 256 ^ n else 0 \<le> v \<and> v < 256 ^ n)"

definition to_bytes_le :: "nat \<Rightarrow> bool \<Rightarrow> int \<Rightarrow> bytes res" where
  "to_bytes_le n sg v = (if fits n sg v then Inr (le_bytes n v) else Inl OverflowError)"

definition to_bytes_be :: "nat \<Rightarrow> bool \<Rightarrow> int \<Rightarrow> bytes res" where
  "to_bytes_be n sg v = (if fits n sg v then Inr (be_bytes n v) else Inl OverflowError)"

definition from_bytes_le :: "bool \<Rightarrow> bytes \<Rightarrow> int" where
  "from_bytes_le sg bs =
     (let u = le_int bs in
      if sg \<and> 256 ^ length bs \<le> 2 * u then u - 256 ^ length bs else u)"

lemma from_bytes_le_le_bytes [bytes_simps]:
  assumes "fits n sg v"
  shows "from_bytes_le sg (le_bytes n v) = v"
proof (cases sg)
  case True
  with assms have "- (256 ^ n) \<le> 2 * v" "2 * v < 256 ^ n" by (auto simp: fits_def)
  then show ?thesis
  proof (cases "0 \<le> v")
    case False
    then have "0 \<le> v + 256 ^ n" "v + 256 ^ n < 256 ^ n"
      using \<open>- (256 ^ n) \<le> 2 * v\<close> by auto
    then have "v mod 256 ^ n = v + 256 ^ n"
      by (metis mod_add_self2 mod_pos_pos_trivial)
    with True False \<open>- (256 ^ n) \<le> 2 * v\<close> show ?thesis
      by (simp add: from_bytes_le_def bytes_simps)
  qed (use True in \<open>simp add: from_bytes_le_def bytes_simps\<close>)
qed (use assms in \<open>simp add: fits_def from_bytes_le_def bytes_simps\<close>)

lemma fits_from_bytes_le: "fits (length bs) sg (from_bytes_le sg bs)"
proof -
  have "- (256 ^ length bs) \<le> 2 * le_int bs"
    by (rule order_trans [of _ 0]) simp_all
  moreover have "le_int bs < 256 ^ length bs" by (rule le_int_less)
  ultimately show ?thesis
    by (cases "256 ^ length bs \<le> 2 * le_int bs"; cases sg)
      (simp_all add: fits_def from_bytes_le_def)
qed

lemma le_bytes_from_bytes_le [bytes_simps]: "le_bytes (length bs) (from_bytes_le sg bs) = bs"
proof -
  have "from_bytes_le sg bs mod 256 ^ length bs = le_int bs mod 256 ^ length bs"
    by (simp add: from_bytes_le_def Let_def minus_mod_self2)
  from le_bytes_cong [OF this] show ?thesis by (simp add: bytes_simps)
qed

lemma to_bytes_le_length: "to_bytes_le n s v = Inr bs \<Longrightarrow> length bs = n"
  by (auto simp: to_bytes_le_def split: if_splits)

lemma from_to_bytes_be: "to_bytes_be n False v = Inr bs \<Longrightarrow> be_int bs = v"
  by (auto simp: to_bytes_be_def fits_def bytes_simps split: if_splits)

lemma from_to_bytes_le: "to_bytes_le n s v = Inr bs \<Longrightarrow> from_bytes_le s bs = v"
  by (auto simp: to_bytes_le_def bytes_simps split: if_splits)

text \<open>\<open>data.read(n)\<close> on a \<open>BytesIO\<close>: a negative count reads to the end, a short
  stream yields fewer bytes and no error.\<close>

definition read_n :: "int \<Rightarrow> bytes \<Rightarrow> bytes \<times> bytes" where
  "read_n n bs = (if n < 0 then (bs, []) else (take (nat n) bs, drop (nat n) bs))"

lemma read_n_append [simp]: "n = int (length xs) \<Longrightarrow> read_n n (xs @ ys) = (xs, ys)"
  by (simp add: read_n_def)

lemma read_n_split: "read_n n bs = (x, y) \<Longrightarrow> x @ y = bs"
  by (auto simp: read_n_def split: if_splits)

lemma read_n_0 [simp]: "read_n 0 bs = ([], bs)"
  by (simp add: read_n_def)

text \<open>Python's modulus with a negative left operand, as the padding formulas use it.\<close>

definition pad_to :: "nat \<Rightarrow> nat \<Rightarrow> nat" where
  "pad_to m n = nat ((- int n) mod int m)"

lemma pad_to_less: "0 < m \<Longrightarrow> pad_to m n < m"
  by (simp add: pad_to_def nat_less_iff)

lemma pad_to_dvd: "0 < m \<Longrightarrow> m dvd n + pad_to m n"
proof -
  assume "0 < m"
  have "int m dvd int n + (- int n) mod int m"
    by (metis add.commute add.right_inverse dvd_eq_mod_eq_0 mod_0 mod_add_left_eq)
  moreover have "int (pad_to m n) = (- int n) mod int m"
    using \<open>0 < m\<close> by (simp add: pad_to_def)
  ultimately show ?thesis
    by (metis int_dvd_int_iff of_nat_add)
qed


section \<open>The struct module\<close>

text \<open>
  The codes of \<open>struct.pack\<close> and \<open>struct.unpack\<close> the program uses with the
  little-endian prefix. Packing \<open>None\<close> or a value out of range raises
  \<open>struct.error\<close>, and so does unpacking a buffer whose size is not the format's.
\<close>

datatype fmt = Fb | Fi | Fq | FI | FH

fun fmt_size :: "fmt \<Rightarrow> nat" where
  "fmt_size Fb = 1"
| "fmt_size Fi = 4"
| "fmt_size Fq = 8"
| "fmt_size FI = 4"
| "fmt_size FH = 2"

fun fmt_signed :: "fmt \<Rightarrow> bool" where
  "fmt_signed Fb = True"
| "fmt_signed Fi = True"
| "fmt_signed Fq = True"
| "fmt_signed FI = False"
| "fmt_signed FH = False"

abbreviation fmt_fits :: "fmt \<Rightarrow> int \<Rightarrow> bool" where
  "fmt_fits f v \<equiv> fits (fmt_size f) (fmt_signed f) v"

fun struct_pack :: "fmt list \<Rightarrow> int option list \<Rightarrow> bytes res" where
  "struct_pack [] [] = Inr []"
| "struct_pack (f # fs) (Some v # vs) =
     (if fmt_fits f v
      then bind_res (struct_pack fs vs) (\<lambda>bs. Inr (le_bytes (fmt_size f) v @ bs))
      else Inl StructError)"
| "struct_pack _ _ = Inl StructError"

fun struct_read :: "fmt list \<Rightarrow> bytes \<Rightarrow> int list" where
  "struct_read [] bs = []"
| "struct_read (f # fs) bs =
     from_bytes_le (fmt_signed f) (take (fmt_size f) bs) # struct_read fs (drop (fmt_size f) bs)"

definition fmts_size :: "fmt list \<Rightarrow> nat" where
  "fmts_size fs = sum_list (map fmt_size fs)"

definition struct_unpack :: "fmt list \<Rightarrow> bytes \<Rightarrow> int list res" where
  "struct_unpack fs bs =
     (if length bs = fmts_size fs then Inr (struct_read fs bs) else Inl StructError)"

lemma fmts_size_simps [simp]:
  "fmts_size [] = 0" "fmts_size (f # fs) = fmt_size f + fmts_size fs"
  by (simp_all add: fmts_size_def)

lemma struct_pack_length: "struct_pack fs vs = Inr bs \<Longrightarrow> length bs = fmts_size fs"
  by (induction fs vs arbitrary: bs rule: struct_pack.induct) (auto simp: res_simps split: if_splits)

lemma struct_read_pack: "struct_pack fs vs = Inr bs \<Longrightarrow> map Some (struct_read fs bs) = vs"
  by (induction fs vs arbitrary: bs rule: struct_pack.induct)
    (auto simp: res_simps bytes_simps split: if_splits)

lemma struct_unpack_pack:
  "struct_pack fs (map Some vs) = Inr bs \<Longrightarrow> struct_unpack fs bs = Inr vs"
  using struct_read_pack [of fs "map Some vs" bs]
  by (simp add: struct_unpack_def struct_pack_length inj_map_eq_map)

text \<open>\<open>struct.unpack(f, buffer.read(size))\<close>, with what is left of the buffer.\<close>

definition unpack_from :: "fmt list \<Rightarrow> bytes \<Rightarrow> (int list \<times> bytes) res" where
  "unpack_from fs bs =
     bind_res (struct_unpack fs (take (fmts_size fs) bs)) (\<lambda>vs. Inr (vs, drop (fmts_size fs) bs))"

lemma unpack_from_pack:
  "struct_pack fs (map Some vs) = Inr bs \<Longrightarrow> unpack_from fs (bs @ rest) = Inr (vs, rest)"
  by (simp add: unpack_from_def struct_pack_length struct_unpack_pack)


section \<open>Lists\<close>

text \<open>\<open>dict.fromkeys(xs)\<close> as a tuple: the first occurrence of each element, in order.\<close>

fun dedup :: "'a list \<Rightarrow> 'a list" where
  "dedup [] = []"
| "dedup (x # xs) = x # filter (\<lambda>y. y \<noteq> x) (dedup xs)"

lemma set_dedup [simp]: "set (dedup xs) = set xs"
  by (induction xs) auto

lemma distinct_dedup [simp]: "distinct (dedup xs)"
  by (induction xs) auto

lemma dedup_distinct: "distinct xs \<Longrightarrow> dedup xs = xs"
proof (induction xs)
  case (Cons x xs)
  then have "dedup xs = xs" "x \<notin> set xs" by simp_all
  then show ?case by (auto simp: filter_id_conv)
qed simp

lemma dedup_eq_Nil [simp]: "dedup xs = [] \<longleftrightarrow> xs = []"
  by (cases xs) simp_all

lemma hd_dedup [simp]: "xs \<noteq> [] \<Longrightarrow> hd (dedup xs) = hd xs"
  by (cases xs) simp_all

text \<open>Cutting a list into consecutive pieces of at most \<open>n\<close> elements, as
  \<open>[data[i:i+n] for i in range(0, len(data), n)]\<close> does.\<close>

function chunks_of :: "nat \<Rightarrow> 'a list \<Rightarrow> 'a list list" where
  "chunks_of n xs = (if n = 0 \<or> xs = [] then [] else take n xs # chunks_of n (drop n xs))"
  by pat_completeness auto
termination
  by (relation "measure (\<lambda>(n, xs). length xs)") auto

declare chunks_of.simps [simp del]

lemma chunks_of_Nil [simp]: "chunks_of n [] = []"
  by (simp add: chunks_of.simps)

lemma chunks_of_Cons: "0 < n \<Longrightarrow> xs \<noteq> [] \<Longrightarrow> chunks_of n xs = take n xs # chunks_of n (drop n xs)"
  by (subst chunks_of.simps) simp

lemma concat_chunks_of [simp]: "0 < n \<Longrightarrow> concat (chunks_of n xs) = xs"
proof (induction n xs rule: chunks_of.induct)
  case (1 n xs)
  then show ?case by (cases "xs = []") (simp_all add: chunks_of_Cons)
qed

lemma chunks_of_length_le: "c \<in> set (chunks_of n xs) \<Longrightarrow> length c \<le> n"
proof (induction n xs rule: chunks_of.induct)
  case (1 n xs)
  then show ?case
    by (cases "n = 0 \<or> xs = []") (auto simp: chunks_of.simps [of n xs])
qed

lemma chunks_of_length_eq: "n dvd length xs \<Longrightarrow> c \<in> set (chunks_of n xs) \<Longrightarrow> length c = n"
proof (induction n xs rule: chunks_of.induct)
  case (1 n xs)
  show ?case
  proof (cases "n = 0 \<or> xs = []")
    case False
    then have "n \<le> length xs" using 1 by (simp add: dvd_imp_le)
    moreover have "n dvd length (drop n xs)" using 1 \<open>n \<le> length xs\<close> by simp
    ultimately show ?thesis using 1 False by (auto simp: chunks_of.simps [of n xs])
  qed (use 1 in \<open>auto simp: chunks_of.simps [of n xs]\<close>)
qed

lemma chunks_of_concat:
  "0 < n \<Longrightarrow> (\<And>c. c \<in> set cs \<Longrightarrow> length c = n) \<Longrightarrow> chunks_of n (concat cs) = cs"
proof (induction cs)
  case (Cons c cs)
  then have "length c = n" "c \<noteq> []" by auto
  with Cons show ?case by (simp add: chunks_of_Cons)
qed simp


text \<open>A slice \<open>b[i : j]\<close> with bounds that are not negative, and \<open>b[n:]\<close> with any bound.\<close>

definition py_slice :: "nat \<Rightarrow> nat \<Rightarrow> 'a list \<Rightarrow> 'a list" where
  "py_slice i j b = drop i (take j b)"

definition slice_from :: "int \<Rightarrow> 'a list \<Rightarrow> 'a list" where
  "slice_from n b = (if n < 0 then drop (nat (int (length b) + n)) b else drop (nat n) b)"

lemma length_py_slice [simp]: "length (py_slice i j b) = min j (length b) - i"
  by (simp add: py_slice_def)

lemma slice_append_mid: "length a = i \<Longrightarrow> i + length m = j \<Longrightarrow> py_slice i j (a @ m @ c) = m"
  by (simp add: py_slice_def)

lemma slice_from_append [simp]: "n = int (length a) \<Longrightarrow> slice_from n (a @ b) = b"
  by (simp add: slice_from_def)


section \<open>Decimal numbers\<close>

text \<open>The decimal form of an integer, as a formatted string has it.\<close>

fun nat_dec :: "nat \<Rightarrow> string" where
  "nat_dec n = (if n < 10 then [char_of (48 + n)] else nat_dec (n div 10) @ [char_of (48 + n mod 10)])"

declare nat_dec.simps [simp del]

definition int_dec :: "int \<Rightarrow> string" where
  "int_dec i = (if i < 0 then CHR ''-'' # nat_dec (nat (- i)) else nat_dec (nat i))"

definition dec_val :: "string \<Rightarrow> nat" where
  "dec_val s = foldl (\<lambda>a c. a * 10 + (of_char c - 48)) 0 s"

lemma dec_val_nat_dec [simp]: "dec_val (nat_dec n) = n"
proof (induction n rule: nat_dec.induct)
  case (1 n)
  then show ?case
    by (subst nat_dec.simps) (auto simp: dec_val_def)
qed

lemma nat_dec_digits: "c \<in> set (nat_dec n) \<Longrightarrow> 48 \<le> (of_char c :: nat) \<and> of_char c \<le> (57 :: nat)"
proof (induction n rule: nat_dec.induct)
  case (1 n)
  show ?case
  proof (cases "n < 10")
    case True
    then show ?thesis
      using "1.prems" by (subst (asm) nat_dec.simps) auto
  next
    case False
    then have "c \<in> set (nat_dec (n div 10)) \<or> c = char_of (48 + n mod 10)"
      using "1.prems" by (subst (asm) nat_dec.simps) auto
    then show ?thesis
      using "1.IH" [OF False] by (auto simp: less_Suc_eq_le [symmetric])
  qed
qed

lemma nat_dec_not_Nil: "nat_dec k \<noteq> []"
  by (subst nat_dec.simps) simp

end
