(* ===== verification/Base64.thy ===== *)
theory Base64
  imports Prelude
begin

text \<open>
  The URL-safe Base64 of the standard library as \<open>pyrogram/file_id.py\<close> and
  \<open>pyrogram/storage/storage.py\<close> use it, the wrappers \<open>b64_encode\<close> and
  \<open>b64_decode\<close> that drop and restore the padding, and the zero-run-length coding of file
  ids (\<open>rle_encode\<close>, \<open>rle_decode\<close>).
\<close>

section \<open>The alphabet\<close>

definition b64_char :: "nat \<Rightarrow> char" where
  "b64_char v =
     (if v < 26 then char_of (v + 65)
      else if v < 52 then char_of (v + 71)
      else if v < 62 then char_of (v - 4)
      else if v = 62 then CHR ''-'' else CHR ''_'')"

text \<open>\<open>urlsafe_b64decode\<close> translates the two URL-safe characters and decodes with the
  standard alphabet, so both spellings are read.\<close>

definition b64_val :: "char \<Rightarrow> nat option" where
  "b64_val c =
     (let n = of_char c :: nat in
      if 65 \<le> n \<and> n \<le> 90 then Some (n - 65)
      else if 97 \<le> n \<and> n \<le> 122 then Some (n - 71)
      else if 48 \<le> n \<and> n \<le> 57 then Some (n + 4)
      else if n = 45 \<or> n = 43 then Some 62
      else if n = 95 \<or> n = 47 then Some 63
      else None)"

lemma b64_val_char: "v < 64 \<Longrightarrow> b64_val (b64_char v) = Some v"
  by (auto simp: b64_val_def b64_char_def Let_def)

lemma b64_char_not_pad: "v < 64 \<Longrightarrow> b64_char v \<noteq> CHR ''=''"
proof
  assume "v < 64" "b64_char v = CHR ''=''"
  then have "b64_val (CHR ''='') = Some v" by (metis b64_val_char)
  then show False by (simp add: b64_val_def)
qed

lemma b64_char_ascii: "v < 64 \<Longrightarrow> of_char (b64_char v) < (128 :: nat)"
  by (auto simp: b64_char_def)


section \<open>Encoding and decoding\<close>

fun b2a :: "nat list \<Rightarrow> string" where
  "b2a (a # b # c # r) =
     b64_char (a div 4) # b64_char (a mod 4 * 16 + b div 16) #
     b64_char (b mod 16 * 4 + c div 64) # b64_char (c mod 64) # b2a r"
| "b2a [a, b] =
     [b64_char (a div 4), b64_char (a mod 4 * 16 + b div 16), b64_char (b mod 16 * 4), CHR ''='']"
| "b2a [a] = [b64_char (a div 4), b64_char (a mod 4 * 16), CHR ''='', CHR ''='']"
| "b2a [] = []"

text \<open>
  \<open>binascii.a2b_base64\<close> in its lenient mode: the position in the group of four, the bits
  left over and the pads seen; characters outside the alphabet are skipped, the pads that
  complete a group end the input, and an incomplete group is an error.
\<close>

fun a2b :: "nat \<Rightarrow> nat \<Rightarrow> nat \<Rightarrow> string \<Rightarrow> nat list res" where
  "a2b q l p [] = (if q = 0 then Inr [] else Inl ValueError)"
| "a2b q l p (ch # cs) =
     (if ch = CHR ''='' then
        (if 2 \<le> q \<and> 4 \<le> q + (p + 1) then Inr [] else a2b q l (if 2 \<le> q then p + 1 else p) cs)
      else case b64_val ch of
        None \<Rightarrow> a2b q l p cs
      | Some v \<Rightarrow>
          (if q = 0 then a2b 1 v 0 cs
           else if q = 1 then bind_res (a2b 2 (v mod 16) 0 cs) (\<lambda>r. Inr ((l * 4 + v div 16) # r))
           else if q = 2 then bind_res (a2b 3 (v mod 4) 0 cs) (\<lambda>r. Inr ((l * 16 + v div 4) # r))
           else bind_res (a2b 0 0 0 cs) (\<lambda>r. Inr ((l * 64 + v) # r))))"

definition urlsafe_b64encode :: "bytes \<Rightarrow> string" where
  "urlsafe_b64encode s = b2a (map unat s)"

definition urlsafe_b64decode :: "string \<Rightarrow> bytes res" where
  "urlsafe_b64decode s =
     (if list_all (\<lambda>c. of_char c < (128 :: nat)) s
      then bind_res (a2b 0 0 0 s) (\<lambda>r. Inr (map of_nat r))
      else Inl ValueError)"

definition strip_pad :: "string \<Rightarrow> string" where
  "strip_pad s = rev (dropWhile (\<lambda>c. c = CHR ''='') (rev (dropWhile (\<lambda>c. c = CHR ''='') s)))"

definition b64_encode :: "bytes \<Rightarrow> string" where
  "b64_encode s = strip_pad (urlsafe_b64encode s)"

definition b64_decode :: "string \<Rightarrow> bytes res" where
  "b64_decode s = urlsafe_b64decode (s @ replicate (pad_to 4 (length s)) CHR ''='')"

lemma digit_arith:
  assumes "a < 256" "b < 256" "c < (256 :: nat)"
  shows "a div 4 < 64" "a mod 4 * 16 + b div 16 < 64" "b mod 16 * 4 + c div 64 < 64" "c mod 64 < 64"
    "a mod 4 * 16 < 64" "b mod 16 * 4 < 64"
    "a div 4 * 4 + (a mod 4 * 16 + b div 16) div 16 = a"
    "(a mod 4 * 16 + b div 16) mod 16 * 16 + (b mod 16 * 4 + c div 64) div 4 = b"
    "(b mod 16 * 4 + c div 64) mod 4 * 64 + c mod 64 = c"
    "(a mod 4 * 16) div 16 = a mod 4" "(b mod 16 * 4) div 4 = b mod 16"
proof -
  have d: "a div 4 < 64" "b div 16 < 16" "c div 64 < 4" "a mod 4 < 4" "b mod 16 < 16"
    using assms by (simp_all add: less_mult_imp_div_less)
  then show "a div 4 < 64" "a mod 4 * 16 + b div 16 < 64" "b mod 16 * 4 + c div 64 < 64" "c mod 64 < 64"
    "a mod 4 * 16 < 64" "b mod 16 * 4 < 64"
    "(a mod 4 * 16) div 16 = a mod 4" "(b mod 16 * 4) div 4 = b mod 16" by simp_all
  show "a div 4 * 4 + (a mod 4 * 16 + b div 16) div 16 = a" using d by simp
  show "(a mod 4 * 16 + b div 16) mod 16 * 16 + (b mod 16 * 4 + c div 64) div 4 = b" using d by simp
  show "(b mod 16 * 4 + c div 64) mod 4 * 64 + c mod 64 = c" using d by simp
qed

lemma a2b_group:
  assumes "a < 256" "b < 256" "c < 256"
  shows "a2b 0 l p (b64_char (a div 4) # b64_char (a mod 4 * 16 + b div 16) #
           b64_char (b mod 16 * 4 + c div 64) # b64_char (c mod 64) # r)
         = bind_res (a2b 0 0 0 r) (\<lambda>xs. Inr (a # b # c # xs))"
  using digit_arith [OF assms] by (simp add: bind_res_assoc b64_val_char b64_char_not_pad)

lemma a2b_two:
  assumes "a < 256" "b < 256"
  shows "a2b 0 l p [b64_char (a div 4), b64_char (a mod 4 * 16 + b div 16), b64_char (b mod 16 * 4), CHR ''='']
         = Inr [a, b]"
  using assms digit_arith [of a b 0] by (simp add: b64_val_char b64_char_not_pad)

lemma a2b_one:
  assumes "a < 256"
  shows "a2b 0 l p [b64_char (a div 4), b64_char (a mod 4 * 16), CHR ''='', CHR ''=''] = Inr [a]"
  using assms digit_arith [of a 0 0] by (simp add: b64_val_char b64_char_not_pad)

lemma a2b_b2a: "(\<And>n. n \<in> set xs \<Longrightarrow> n < 256) \<Longrightarrow> a2b 0 0 0 (b2a xs) = Inr xs"
  by (induction xs rule: b2a.induct) (simp_all add: a2b_group a2b_two a2b_one del: a2b.simps(2))

lemma length_b2a: "length (b2a xs) mod 4 = 0"
  by (induction xs rule: b2a.induct) (simp_all add: mod_Suc)

definition b64_digit :: "char \<Rightarrow> bool" where
  "b64_digit d \<longleftrightarrow> (\<exists>v < 64. d = b64_char v)"

lemma b64_digitI [simp]: "v < 64 \<Longrightarrow> b64_digit (b64_char v)"
  by (auto simp: b64_digit_def)

lemma b64_digit_ascii: "b64_digit d \<Longrightarrow> d \<noteq> CHR ''='' \<and> of_char d < (128 :: nat)"
  using b64_char_not_pad b64_char_ascii by (auto simp: b64_digit_def)

lemma b2a_pad_form:
  "(\<And>n. n \<in> set xs \<Longrightarrow> n < 256) \<Longrightarrow>
   \<exists>ds k. b2a xs = ds @ replicate k CHR ''='' \<and> k < 4 \<and> list_all b64_digit ds"
proof (induction xs rule: b2a.induct)
  case (1 a b c r)
  then obtain ds k where r: "b2a r = ds @ replicate k CHR ''=''" "k < 4"
      "list_all b64_digit ds" by auto
  let ?g = "[b64_char (a div 4), b64_char (a mod 4 * 16 + b div 16),
             b64_char (b mod 16 * 4 + c div 64), b64_char (c mod 64)]"
  have "list_all b64_digit (?g @ ds)"
    using r(3) "1.prems" digit_arith [of a b c] by simp
  then show ?case using r by (intro exI [of _ "?g @ ds"] exI [of _ k]) simp
next
  case (2 a b)
  let ?g = "[b64_char (a div 4), b64_char (a mod 4 * 16 + b div 16), b64_char (b mod 16 * 4)]"
  have "list_all b64_digit ?g" using 2 digit_arith [of a b 0] by simp
  then show ?case by (intro exI [of _ ?g] exI [of _ 1]) simp
next
  case (3 a)
  let ?g = "[b64_char (a div 4), b64_char (a mod 4 * 16)]"
  have "list_all b64_digit ?g" using 3 digit_arith [of a 0 0] by simp
  then show ?case by (intro exI [of _ ?g] exI [of _ 2]) (simp add: numeral_2_eq_2)
next
  case 4
  show ?case by (intro exI [of _ "[]"] exI [of _ 0]) simp
qed

lemma strip_pad_form:
  assumes "\<And>d. d \<in> set ds \<Longrightarrow> d \<noteq> CHR ''=''"
  shows "strip_pad (ds @ replicate k CHR ''='') = ds"
proof -
  have d: "dropWhile (\<lambda>c. c = CHR ''='') (replicate k CHR ''='' @ es) = es"
    if "\<And>e. e \<in> set es \<Longrightarrow> e \<noteq> CHR ''=''" for es
    using that by (induction k) (cases es; auto)+
  have "dropWhile (\<lambda>c. c = CHR ''='') (ds @ replicate k CHR ''='') = (if ds = [] then [] else ds @ replicate k CHR ''='')"
    using assms by (cases ds) auto
  then show ?thesis using assms d [of "rev ds"] by (simp add: strip_pad_def)
qed

lemma pad_to_unique: "m dvd n + k \<Longrightarrow> k < m \<Longrightarrow> pad_to m n = k"
proof -
  assume a: "m dvd n + k" "k < m"
  then have "int m dvd int k - (- int n)" by (metis add.commute diff_minus_eq_add int_dvd_int_iff of_nat_add)
  then have "(- int n) mod int m = int k mod int m"
    by (metis mod_eq_dvd_iff)
  with a(2) show ?thesis by (simp add: pad_to_def)
qed

text \<open>The padding dropped by the encoder is the padding the decoder restores.\<close>

lemma b64_repad:
  "b64_encode s @ replicate (pad_to 4 (length (b64_encode s))) CHR ''='' = urlsafe_b64encode s"
proof -
  have lt: "n \<in> set (map unat s) \<Longrightarrow> n < 256" for n :: nat
    by auto
  from b2a_pad_form [OF lt] obtain ds k where f: "b2a (map unat s) = ds @ replicate k CHR ''=''"
      "k < 4" "list_all b64_digit ds" by blast
  have "d \<in> set ds \<Longrightarrow> d \<noteq> CHR ''=''" for d using f(3) b64_digit_ascii by (auto simp: list_all_iff)
  then have e: "b64_encode s = ds" by (simp add: b64_encode_def urlsafe_b64encode_def f strip_pad_form)
  have "4 dvd length ds + k" using length_b2a [of "map unat s"] f(1) by (simp add: dvd_eq_mod_eq_0)
  then have "pad_to 4 (length ds) = k" using f(2) by (rule pad_to_unique)
  then show ?thesis by (simp add: e urlsafe_b64encode_def f)
qed

lemma b2a_ascii: "(\<And>n. n \<in> set xs \<Longrightarrow> n < 256) \<Longrightarrow> list_all (\<lambda>c. of_char c < (128 :: nat)) (b2a xs)"
proof -
  assume "\<And>n. n \<in> set xs \<Longrightarrow> n < 256"
  from b2a_pad_form [of xs, OF this] obtain ds k where f: "b2a xs = ds @ replicate k CHR ''=''"
      "list_all b64_digit ds" by auto
  have "d \<in> set ds \<Longrightarrow> of_char d < (128 :: nat)" for d
    using f(2) b64_digit_ascii by (auto simp: list_all_iff)
  then show ?thesis by (auto simp: list_all_iff f(1))
qed

lemma urlsafe_b64decode_encode: "urlsafe_b64decode (urlsafe_b64encode s) = Inr s"
proof -
  have lt: "n \<in> set (map unat s) \<Longrightarrow> n < 256" for n :: nat
    by auto
  have "list_all (\<lambda>c. of_char c < (128 :: nat)) (b2a (map unat s))" by (rule b2a_ascii [OF lt])
  moreover have "a2b 0 0 0 (b2a (map unat s)) = Inr (map unat s)" by (rule a2b_b2a [OF lt])
  ultimately show ?thesis
    by (simp add: urlsafe_b64decode_def urlsafe_b64encode_def o_def)
qed

lemma b64_decode_encode [simp]: "b64_decode (b64_encode s) = Inr s"
  by (simp add: b64_decode_def b64_repad urlsafe_b64decode_encode)


section \<open>Zero run-length coding\<close>

text \<open>
  \<open>rle_encode\<close> replaces a run of zero bytes by a zero and its length. The count is
  appended as it is, so that \<open>bytes(r)\<close> raises \<open>ValueError\<close> on a run of more than
  255 zeros.
\<close>

fun rle_enc_loop :: "nat \<Rightarrow> bytes \<Rightarrow> int list" where
  "rle_enc_loop n [] = (if n \<noteq> 0 then [0, int n] else [])"
| "rle_enc_loop n (b # s) =
     (if b = 0 then rle_enc_loop (n + 1) s
      else (if n \<noteq> 0 then [0, int n] else []) @ uint b # rle_enc_loop 0 s)"

definition py_bytes :: "int list \<Rightarrow> bytes res" where
  "py_bytes r = (if list_all (\<lambda>x. 0 \<le> x \<and> x < 256) r then Inr (map of_int r) else Inl ValueError)"

definition rle_encode :: "bytes \<Rightarrow> bytes res" where
  "rle_encode s = py_bytes (rle_enc_loop 0 s)"

fun rle_dec_loop :: "bool \<Rightarrow> bytes \<Rightarrow> bytes" where
  "rle_dec_loop z [] = []"
| "rle_dec_loop z (b # s) =
     (if b = 0 then rle_dec_loop True s
      else if z then replicate (unat b) 0 @ rle_dec_loop False s
      else b # rle_dec_loop False s)"

definition rle_decode :: "bytes \<Rightarrow> bytes" where
  "rle_decode s = rle_dec_loop False s"

lemma of_nat_byte_pos: "0 < n \<Longrightarrow> n < 256 \<Longrightarrow> (of_nat n :: byte) \<noteq> 0"
  using unat_of_nat_byte [of n] by auto

lemma rle_loop_roundtrip:
  "list_all (\<lambda>x. 0 \<le> x \<and> x < 256) (rle_enc_loop n s) \<Longrightarrow>
   rle_dec_loop False (map of_int (rle_enc_loop n s)) = replicate n 0 @ s"
proof (induction n s rule: rle_enc_loop.induct)
  case (1 n)
  then show ?case using unat_of_nat_byte [of n] of_nat_byte_pos [of n] by (cases "n = 0") auto
next
  case (2 n b s)
  show ?case
  proof (cases "b = 0")
    case True
    with 2 show ?thesis by (simp add: replicate_app_Cons_same)
  next
    case False
    with 2 show ?thesis using unat_of_nat_byte [of n] of_nat_byte_pos [of n] by (cases "n = 0") auto
  qed
qed

lemma rle_decode_encode: "rle_encode s = Inr e \<Longrightarrow> rle_decode e = s"
  using rle_loop_roundtrip [of 0 s]
  by (auto simp: rle_encode_def rle_decode_def py_bytes_def split: if_splits)

text \<open>The longest run of zeros, which decides whether the encoder succeeds.\<close>

fun zero_runs_ok :: "nat \<Rightarrow> bytes \<Rightarrow> bool" where
  "zero_runs_ok n [] = (n < 256)"
| "zero_runs_ok n (b # s) = (if b = 0 then zero_runs_ok (n + 1) s else n < 256 \<and> zero_runs_ok 0 s)"

lemma rle_enc_loop_ok: "list_all (\<lambda>x. 0 \<le> x \<and> x < 256) (rle_enc_loop n s) = zero_runs_ok n s"
  by (induction n s rule: rle_enc_loop.induct) auto

lemma rle_encode_defined: "(\<exists>e. rle_encode s = Inr e) = zero_runs_ok 0 s"
  by (auto simp: rle_encode_def py_bytes_def rle_enc_loop_ok)

lemma zero_runs_ok_short: "n + length s < 256 \<Longrightarrow> zero_runs_ok n s"
  by (induction n s rule: zero_runs_ok.induct) auto

lemma rle_encode_short: "length s < 256 \<Longrightarrow> \<exists>e. rle_encode s = Inr e"
  using rle_encode_defined zero_runs_ok_short [of 0 s] by simp

end
