(* ===== verification/Unicode.thy ===== *)
theory Unicode
  imports Prelude
begin

text \<open>
  Text encodings: \<open>str.encode("utf-8", errors="replace")\<close> and
  \<open>bytes.decode(errors="replace")\<close> as the TL \<open>String\<close> type uses them, and the
  surrogate handling of \<open>pyrogram/parser/utils.py\<close>, by which the parsers count entity
  offsets in UTF-16 code units.
\<close>

section \<open>Code points\<close>

definition surrogate :: "nat \<Rightarrow> bool" where
  "surrogate c \<longleftrightarrow> 0xD800 \<le> c \<and> c \<le> 0xDFFF"

definition high_surrogate :: "nat \<Rightarrow> bool" where
  "high_surrogate c \<longleftrightarrow> 0xD800 \<le> c \<and> c \<le> 0xDBFF"

definition low_surrogate :: "nat \<Rightarrow> bool" where
  "low_surrogate c \<longleftrightarrow> 0xDC00 \<le> c \<and> c \<le> 0xDFFF"

definition scalar :: "nat \<Rightarrow> bool" where
  "scalar c \<longleftrightarrow> c < 0x110000 \<and> \<not> surrogate c"

lemmas surrogate_defs = surrogate_def high_surrogate_def low_surrogate_def scalar_def


section \<open>UTF-8\<close>

text \<open>The bytes of one code point, as numbers; a lone surrogate becomes a question mark.\<close>

definition utf8_char :: "nat \<Rightarrow> nat list" where
  "utf8_char c =
     (if c < 0x80 then [c]
      else if c < 0x800 then [0xC0 + c div 64, 0x80 + c mod 64]
      else if surrogate c then [0x3F]
      else if c < 0x10000 then [0xE0 + c div 4096, 0x80 + c div 64 mod 64, 0x80 + c mod 64]
      else [0xF0 + c div 262144, 0x80 + c div 4096 mod 64, 0x80 + c div 64 mod 64, 0x80 + c mod 64])"

definition utf8_encode :: "pystr \<Rightarrow> bytes" where
  "utf8_encode s = map of_nat (concat (map utf8_char s))"

text \<open>
  The decoder replaces each maximal prefix of a sequence that cannot continue by one
  U+FFFD and goes on after it. The second byte of a three- or four-byte sequence has a
  range of its own, which excludes overlong forms, surrogates and values past U+10FFFF.
\<close>

definition cont :: "nat \<Rightarrow> bool" where
  "cont b \<longleftrightarrow> 0x80 \<le> b \<and> b \<le> 0xBF"

definition second3 :: "nat \<Rightarrow> nat \<Rightarrow> bool" where
  "second3 a b \<longleftrightarrow> (if a = 0xE0 then 0xA0 \<le> b \<and> b \<le> 0xBF
                    else if a = 0xED then 0x80 \<le> b \<and> b \<le> 0x9F else cont b)"

definition second4 :: "nat \<Rightarrow> nat \<Rightarrow> bool" where
  "second4 a b \<longleftrightarrow> (if a = 0xF0 then 0x90 \<le> b \<and> b \<le> 0xBF
                    else if a = 0xF4 then 0x80 \<le> b \<and> b \<le> 0x8F else cont b)"

abbreviation REPL :: nat where "REPL \<equiv> 0xFFFD"

fun utf8_dec :: "nat list \<Rightarrow> pystr" where
  "utf8_dec [] = []"
| "utf8_dec (a # bs) =
     (if a < 0x80 then a # utf8_dec bs
      else if 0xC2 \<le> a \<and> a \<le> 0xDF then
        (case bs of
           b # r \<Rightarrow> if cont b then ((a - 0xC0) * 64 + (b - 0x80)) # utf8_dec r
                     else REPL # utf8_dec bs
         | [] \<Rightarrow> [REPL])
      else if 0xE0 \<le> a \<and> a \<le> 0xEF then
        (case bs of
           b # r \<Rightarrow>
             if second3 a b then
               (case r of
                  c # r' \<Rightarrow> if cont c
                             then ((a - 0xE0) * 4096 + (b - 0x80) * 64 + (c - 0x80)) # utf8_dec r'
                             else REPL # utf8_dec r
                | [] \<Rightarrow> [REPL])
             else REPL # utf8_dec bs
         | [] \<Rightarrow> [REPL])
      else if 0xF0 \<le> a \<and> a \<le> 0xF4 then
        (case bs of
           b # r \<Rightarrow>
             if second4 a b then
               (case r of
                  c # r' \<Rightarrow>
                    if cont c then
                      (case r' of
                         d # r'' \<Rightarrow> if cont d
                           then ((a - 0xF0) * 262144 + (b - 0x80) * 4096 + (c - 0x80) * 64 + (d - 0x80))
                                # utf8_dec r''
                           else REPL # utf8_dec r'
                       | [] \<Rightarrow> [REPL])
                    else REPL # utf8_dec r
                | [] \<Rightarrow> [REPL])
             else REPL # utf8_dec bs
         | [] \<Rightarrow> [REPL])
      else REPL # utf8_dec bs)"

definition utf8_decode :: "bytes \<Rightarrow> pystr" where
  "utf8_decode bs = utf8_dec (map unat bs)"

lemma utf8_char_byte: "scalar c \<Longrightarrow> n \<in> set (utf8_char c) \<Longrightarrow> n < 256"
proof -
  assume c: "scalar c" and n: "n \<in> set (utf8_char c)"
  have "c div 262144 < 5" using c by (simp add: scalar_def less_mult_imp_div_less)
  moreover have "c < 0x10000 \<Longrightarrow> c div 4096 < 16" by (simp add: less_mult_imp_div_less)
  moreover have "c < 0x800 \<Longrightarrow> c div 64 < 32" by (simp add: less_mult_imp_div_less)
  moreover have "k mod 64 < 64" for k :: nat by simp
  ultimately show ?thesis using n c
    unfolding utf8_char_def scalar_def by (fastforce split: if_splits)
qed

lemma utf8_dec_char1: "c < 0x80 \<Longrightarrow> utf8_dec (utf8_char c @ rest) = c # utf8_dec rest"
  by (simp add: utf8_char_def)

lemma utf8_dec_char2:
  assumes "0x80 \<le> c" "c < 0x800"
  shows "utf8_dec (utf8_char c @ rest) = c # utf8_dec rest"
proof -
  have h: "2 \<le> c div 64" "c div 64 < 32" using assms by (auto simp: less_mult_imp_div_less)
  have "cont (128 + c mod 64)" using mod_less_divisor [of 64 c] by (simp add: cont_def)
  moreover have "c div 64 * 64 + c mod 64 = c" by simp
  ultimately show ?thesis using assms h by (simp add: utf8_char_def)
qed

text \<open>A number split into digits to the base 64.\<close>

lemma split_digits: "(c div m) div k * (k * m) + c div m mod k * m + c mod m = (c :: nat)"
proof -
  have "(c div m div k * k + c div m mod k) * m + c mod m = c"
    by (simp only: div_mult_mod_eq)
  then show ?thesis by (simp only: distrib_right mult.assoc)
qed

lemma utf8_dec_char3:
  assumes "0x800 \<le> c" "c < 0x10000" "\<not> surrogate c"
  shows "utf8_dec (utf8_char c @ rest) = c # utf8_dec rest"
proof -
  let ?h = "c div 4096" and ?m = "c div 64 mod 64" and ?l = "c mod 64"
  have h: "?h < 16" using assms by (simp add: less_mult_imp_div_less)
  have m: "?m < 64" "?l < 64" by simp_all
  have eq: "?h * 4096 + ?m * 64 + ?l = c"
    using split_digits [of c 64 64] div_mult2_eq [of c 64 64] by simp
  have s: "second3 (0xE0 + ?h) (0x80 + ?m)"
    using assms h m eq unfolding second3_def cont_def surrogate_def by (auto; linarith)
  have "cont (128 + ?l)" using m by (simp add: cont_def)
  with s show ?thesis using assms h eq by (simp add: utf8_char_def)
qed

lemma utf8_dec_char4:
  assumes "0x10000 \<le> c" "c < 0x110000"
  shows "utf8_dec (utf8_char c @ rest) = c # utf8_dec rest"
proof -
  let ?h = "c div 262144" and ?k = "c div 4096 mod 64" and ?m = "c div 64 mod 64" and ?l = "c mod 64"
  have h: "?h < 5" using assms by (simp add: less_mult_imp_div_less)
  have m: "?k < 64" "?m < 64" "?l < 64" by simp_all
  have "?h * 262144 + ?k * 4096 + c mod 4096 = c"
    using split_digits [of c 4096 64] div_mult2_eq [of c 4096 64] by simp
  moreover have "c mod 4096 = ?m * 64 + ?l"
    using mod_mult2_eq [of c 64 64] by (simp add: algebra_simps)
  ultimately have eq: "?h * 262144 + ?k * 4096 + ?m * 64 + ?l = c" by simp
  have s: "second4 (0xF0 + ?h) (0x80 + ?k)"
    using assms h m eq unfolding second4_def cont_def by (auto; linarith)
  have "cont (128 + ?m)" "cont (128 + ?l)" using m by (simp_all add: cont_def)
  moreover have "\<not> surrogate c" using assms by (simp add: surrogate_def)
  ultimately show ?thesis using assms s h eq by (simp add: utf8_char_def)
qed

lemma utf8_dec_char: "scalar c \<Longrightarrow> utf8_dec (utf8_char c @ rest) = c # utf8_dec rest"
  using utf8_dec_char1 utf8_dec_char2 utf8_dec_char3 utf8_dec_char4
  by (meson not_less scalar_def)

lemma utf8_dec_concat: "(\<And>c. c \<in> set s \<Longrightarrow> scalar c) \<Longrightarrow> utf8_dec (concat (map utf8_char s)) = s"
  by (induction s) (simp_all add: utf8_dec_char)

lemma utf8_decode_encode:
  assumes "\<forall>c \<in> set s. scalar c"
  shows "utf8_decode (utf8_encode s) = s"
proof -
  have "map (\<lambda>n. unat (of_nat n :: byte)) (concat (map utf8_char s)) = concat (map utf8_char s)"
    using assms by (intro map_idI) (auto simp: unat_of_nat dest!: utf8_char_byte)
  then show ?thesis
    using assms by (simp add: utf8_decode_def utf8_encode_def utf8_dec_concat o_def)
qed


section \<open>Surrogates: parser/utils.py\<close>

text \<open>\<open>add_surrogates\<close>: each code point past the basic plane becomes a surrogate pair.\<close>

definition surrogate_pair :: "nat \<Rightarrow> nat list" where
  "surrogate_pair c =
     (if 0x10000 \<le> c then [0xD800 + (c - 0x10000) div 1024, 0xDC00 + (c - 0x10000) mod 1024] else [c])"

definition add_surrogates :: "pystr \<Rightarrow> pystr" where
  "add_surrogates s = concat (map surrogate_pair s)"

text \<open>The strict UTF-16 decoder: a surrogate outside a pair is a \<open>UnicodeError\<close>.\<close>

definition join_surrogates :: "nat \<Rightarrow> nat \<Rightarrow> nat" where
  "join_surrogates h l = 0x10000 + (h - 0xD800) * 1024 + (l - 0xDC00)"

fun utf16_decode :: "nat list \<Rightarrow> pystr option" where
  "utf16_decode [] = Some []"
| "utf16_decode (u # us) =
     (if high_surrogate u then
        (case us of
           v # r \<Rightarrow> if low_surrogate v then map_option ((#) (join_surrogates u v)) (utf16_decode r) else None
         | [] \<Rightarrow> None)
      else if low_surrogate u then None
      else map_option ((#) u) (utf16_decode us))"

text \<open>The fallback loop, which joins the pairs it finds and drops every lone surrogate.\<close>

fun drop_lone_surrogates :: "pystr \<Rightarrow> pystr" where
  "drop_lone_surrogates [] = []"
| "drop_lone_surrogates (c # cs) =
     (if high_surrogate c then
        (case cs of
           d # r \<Rightarrow> if low_surrogate d then join_surrogates c d # drop_lone_surrogates r
                     else drop_lone_surrogates cs
         | [] \<Rightarrow> [])
      else if low_surrogate c then drop_lone_surrogates cs
      else c # drop_lone_surrogates cs)"

definition remove_surrogates :: "pystr \<Rightarrow> pystr" where
  "remove_surrogates s =
     (case utf16_decode (add_surrogates s) of
        Some r \<Rightarrow> r
      | None \<Rightarrow> drop_lone_surrogates s)"

lemma surrogate_pair_halves:
  assumes "0x10000 \<le> c" "c < 0x110000"
  shows "high_surrogate (0xD800 + (c - 0x10000) div 1024)"
    and "low_surrogate (0xDC00 + (c - 0x10000) mod 1024)"
    and "join_surrogates (0xD800 + (c - 0x10000) div 1024) (0xDC00 + (c - 0x10000) mod 1024) = c"
proof -
  have "(c - 0x10000) div 1024 < 1024" using assms by (simp add: less_mult_imp_div_less)
  then show "high_surrogate (0xD800 + (c - 0x10000) div 1024)" by (simp add: high_surrogate_def)
  have "(c - 0x10000) mod 1024 < 1024" by simp
  then show "low_surrogate (0xDC00 + (c - 0x10000) mod 1024)" by (simp add: low_surrogate_def)
  show "join_surrogates (0xD800 + (c - 0x10000) div 1024) (0xDC00 + (c - 0x10000) mod 1024) = c"
    using assms by (simp add: join_surrogates_def)
qed

lemma utf16_decode_pair:
  assumes "scalar c"
  shows "utf16_decode (surrogate_pair c @ rest) = map_option ((#) c) (utf16_decode rest)"
proof (cases "0x10000 \<le> c")
  case True
  with assms surrogate_pair_halves [of c] show ?thesis
    by (simp add: surrogate_pair_def scalar_def)
next
  case False
  with assms show ?thesis by (auto simp: surrogate_pair_def surrogate_defs)
qed

lemma utf16_decode_add_surrogates:
  "(\<And>c. c \<in> set s \<Longrightarrow> scalar c) \<Longrightarrow> utf16_decode (add_surrogates s) = Some s"
  by (induction s) (simp_all add: add_surrogates_def utf16_decode_pair)

lemma add_surrogates_bmp: "(\<And>c. c \<in> set s \<Longrightarrow> c < 0x10000) \<Longrightarrow> add_surrogates s = s"
proof (induction s)
  case (Cons a s)
  from Cons.prems [of a] have "\<not> 0x10000 \<le> a" by simp
  with Cons show ?case by (simp add: add_surrogates_def surrogate_pair_def)
qed (simp add: add_surrogates_def)

lemma surrogate_pair_bmp: "c < 0x110000 \<Longrightarrow> u \<in> set (surrogate_pair c) \<Longrightarrow> u < 0x10000"
  by (auto simp: surrogate_pair_def less_mult_imp_div_less split: if_splits)

lemma add_surrogates_code_units: "\<forall>c \<in> set s. c < 0x110000 \<Longrightarrow> u \<in> set (add_surrogates s) \<Longrightarrow> u < 0x10000"
  unfolding add_surrogates_def using surrogate_pair_bmp by fastforce

lemma remove_add_surrogates:
  assumes "\<forall>c \<in> set s. scalar c"
  shows "remove_surrogates (add_surrogates s) = s"
proof -
  have "add_surrogates (add_surrogates s) = add_surrogates s"
    using assms add_surrogates_code_units [of s] by (intro add_surrogates_bmp) (auto simp: scalar_def)
  then show ?thesis
    using assms by (simp add: remove_surrogates_def utf16_decode_add_surrogates)
qed

lemma join_surrogates_not_surrogate: "\<not> surrogate (join_surrogates h l)"
  by (simp add: join_surrogates_def surrogate_def)

lemma bmp_not_surrogate: "\<not> high_surrogate c \<Longrightarrow> \<not> low_surrogate c \<Longrightarrow> \<not> surrogate c"
  by (auto simp: surrogate_defs)

lemma utf16_decode_no_surrogates: "utf16_decode us = Some s \<Longrightarrow> \<forall>c \<in> set s. \<not> surrogate c"
proof (induction us arbitrary: s rule: utf16_decode.induct)
  case (2 u us)
  show ?case
  proof (cases "high_surrogate u")
    case True
    with "2.prems" obtain v r z where "us = v # r" "low_surrogate v"
        "utf16_decode r = Some z" "s = join_surrogates u v # z"
      by (auto split: list.splits if_splits)
    with "2.IH" (1) [OF True] show ?thesis by (simp add: join_surrogates_not_surrogate)
  next
    case False
    with "2.prems" obtain z where "\<not> low_surrogate u" "utf16_decode us = Some z" "s = u # z"
      by (auto split: if_splits)
    with "2.IH" (2) [OF False] False show ?thesis by (simp add: bmp_not_surrogate)
  qed
qed simp

lemma drop_lone_surrogates_no_surrogates: "\<forall>c \<in> set (drop_lone_surrogates s). \<not> surrogate c"
proof (induction s rule: drop_lone_surrogates.induct)
  case (2 a s)
  then show ?case
    by (cases s) (simp_all add: join_surrogates_not_surrogate bmp_not_surrogate)
qed simp

lemma remove_surrogates_clean: "c \<in> set (remove_surrogates s) \<Longrightarrow> \<not> surrogate c"
  unfolding remove_surrogates_def
  using drop_lone_surrogates_no_surrogates [of s]
  by (auto split: option.splits dest: utf16_decode_no_surrogates)

end
