(* ===== verification/TL_Core.thy ===== *)
theory TL_Core
  imports Unicode
begin

text \<open>
  The TL serialisation of \<open>pyrogram/raw/core\<close>: the primitive types (\<open>Int\<close> and its
  wider subclasses, \<open>Bool\<close>, \<open>Bytes\<close>, \<open>String\<close>, \<open>Vector\<close>), and the core
  objects \<open>Message\<close>, \<open>MsgContainer\<close>, \<open>FutureSalt\<close>, \<open>FutureSalts\<close> and
  \<open>GzipPacked\<close>. A reader takes what is left of the \<open>BytesIO\<close> and returns the value
  with what is left afterwards. The table \<open>raw.all.objects\<close>, which the API compiler
  generates, and the readers and writers of the generated classes are parameters.
\<close>

type_synonym 'a reader = "bytes \<Rightarrow> ('a \<times> bytes) res"
type_synonym 'a writer = "'a \<Rightarrow> bytes res"

section \<open>Primitives\<close>

subsection \<open>Integers: primitives/int.py\<close>

datatype int_class = TInt | TLong | TInt128 | TInt256

fun SIZE :: "int_class \<Rightarrow> nat" where
  "SIZE TInt = 4"
| "SIZE TLong = 8"
| "SIZE TInt128 = 16"
| "SIZE TInt256 = 32"

definition Int_read :: "int_class \<Rightarrow> bool \<Rightarrow> bytes \<Rightarrow> int \<times> bytes" where
  "Int_read cls sg data = (from_bytes_le sg (take (SIZE cls) data), drop (SIZE cls) data)"

definition Int_new :: "int_class \<Rightarrow> bool \<Rightarrow> int \<Rightarrow> bytes res" where
  "Int_new cls sg v = to_bytes_le (SIZE cls) sg v"

subsection \<open>Booleans: primitives/bool.py\<close>

definition BoolFalse_ID :: int where "BoolFalse_ID = 0xBC799737"
definition BoolTrue_ID :: int where "BoolTrue_ID = 0x997275B5"

definition Bool_read :: "bytes \<Rightarrow> bool \<times> bytes" where
  "Bool_read data = (le_int (take 4 data) = BoolTrue_ID, drop 4 data)"

definition Bool_new :: "bool \<Rightarrow> bytes" where
  "Bool_new v = le_bytes 4 (if v then BoolTrue_ID else BoolFalse_ID)"

subsection \<open>Byte strings: primitives/bytes.py\<close>

definition Bytes_read :: "bytes \<Rightarrow> bytes \<times> bytes" where
  "Bytes_read data =
     (let len = le_int (take 1 data); d1 = drop 1 data in
      if len \<le> 253 then
        (let (x, d2) = read_n len d1 in (x, snd (read_n ((- (len + 1)) mod 4) d2)))
      else
        (let len3 = le_int (take 3 d1); (x, d2) = read_n len3 (drop 3 d1)
         in (x, snd (read_n ((- len3) mod 4) d2))))"

definition Bytes_new :: "bytes \<Rightarrow> bytes res" where
  "Bytes_new v =
     (let len = length v in
      if len \<le> 253 then Inr (of_nat len # v @ replicate (pad_to 4 (len + 1)) 0)
      else bind_res (to_bytes_le 3 False (int len))
             (\<lambda>l. Inr (254 # l @ v @ replicate (pad_to 4 len) 0)))"

subsection \<open>Strings: primitives/string.py\<close>

definition String_read :: "bytes \<Rightarrow> pystr \<times> bytes" where
  "String_read data = (let (x, d) = Bytes_read data in (utf8_decode x, d))"

definition String_new :: "pystr \<Rightarrow> bytes res" where
  "String_new v = Bytes_new (utf8_encode v)"


section \<open>Objects and vectors\<close>

text \<open>
  \<open>TLObject.read\<close>: the constructor id selects the class in the generated table, and an
  id that is not there raises \<open>KeyError\<close> with the id.
\<close>

definition TLObject_read :: "(int \<Rightarrow> 'o reader option) \<Rightarrow> 'o reader" where
  "TLObject_read objects b =
     (let i = le_int (take 4 b) in
      case objects i of None \<Rightarrow> Inl (KeyError i) | Some rd \<Rightarrow> rd (drop 4 b))"

text \<open>A comprehension over \<open>range(count)\<close> that reads one element at a time.\<close>

fun repeat_read :: "nat \<Rightarrow> 'a reader \<Rightarrow> 'a list reader" where
  "repeat_read 0 rd b = Inr ([], b)"
| "repeat_read (Suc n) rd b =
     bind_res (rd b) (\<lambda>(x, b1). bind_res (repeat_read n rd b1) (\<lambda>(xs, b2). Inr (x # xs, b2)))"

definition Vector_ID :: int where "Vector_ID = 0x1CB5C415"

text \<open>What \<open>Vector.read_bare\<close> yields: the bytes per element decide the element's type.\<close>

datatype 'o bare = BareBool bool | BareInt int | BareLong int | BareObject 'o

definition read_bare :: "'o reader \<Rightarrow> int \<Rightarrow> int \<Rightarrow> 'o bare reader" where
  "read_bare tl_read left count b =
     (if left = 4 * count then
        (let e = le_int (take 4 b) in
         if e \<in> {BoolFalse_ID, BoolTrue_ID}
         then (let (v, b1) = Bool_read b in Inr (BareBool v, b1))
         else (let (v, b1) = Int_read TInt True b in Inr (BareInt v, b1)))
      else if left = 8 * count then (let (v, b1) = Int_read TLong True b in Inr (BareLong v, b1))
      else bind_res (tl_read b) (\<lambda>(ob, b1). Inr (BareObject ob, b1)))"

text \<open>\<open>Vector.read(data, t)\<close> with an element type, and without one.\<close>

definition Vector_read :: "'a reader \<Rightarrow> 'a list reader" where
  "Vector_read t b = (let (count, b1) = Int_read TInt True b in repeat_read (nat count) t b1)"

definition Vector_read_bare :: "'o reader \<Rightarrow> 'o bare list reader" where
  "Vector_read_bare tl_read b =
     (let (count, b1) = Int_read TInt True b
      in repeat_read (nat count) (read_bare tl_read (int (length b1)) count) b1)"

definition Vector_new :: "'a writer \<Rightarrow> 'a list writer" where
  "Vector_new t xs =
     bind_res (Int_new TInt False Vector_ID) (\<lambda>i.
     bind_res (Int_new TInt True (int (length xs))) (\<lambda>n.
     bind_res (map_res t xs) (\<lambda>es. Inr (i @ n @ concat es))))"

text \<open>
  \<open>TLObject.default\<close>, the JSON form of an object: absent attributes are dropped and the
  sensitive ones masked. \<open>TLObject.__eq__\<close> compares the left operand's slots only.
\<close>

definition attributes_to_mask :: "string set" where
  "attributes_to_mask = {''code'', ''phone'', ''token'', ''autologin_token'', ''logout_tokens''}"

datatype 'v shown = Stars | Shown 'v

definition TLObject_default :: "(string \<times> 'v option) list \<Rightarrow> (string \<times> 'v shown) list" where
  "TLObject_default slots =
     concat (map (\<lambda>(attr, value).
       case value of
         None \<Rightarrow> []
       | Some v \<Rightarrow> [(attr, if attr \<in> attributes_to_mask then Stars else Shown v)]) slots)"

definition TLObject_eq :: "(string \<times> 'v) list \<Rightarrow> (string \<rightharpoonup> 'v) \<Rightarrow> bool" where
  "TLObject_eq self_slots other = list_all (\<lambda>(attr, v). other attr = Some v) self_slots"


section \<open>Core objects\<close>

subsection \<open>Future salts: future\_salt.py, future\_salts.py\<close>

record future_salt =
  valid_since :: int
  valid_until :: int
  salt :: int

definition FutureSalt_read :: "future_salt reader" where
  "FutureSalt_read data =
     (let (s, d1) = Int_read TInt True data;
          (u, d2) = Int_read TInt True d1;
          (x, d3) = Int_read TLong True d2
      in Inr (\<lparr>valid_since = s, valid_until = u, salt = x\<rparr>, d3))"

definition FutureSalt_write :: "future_salt writer" where
  "FutureSalt_write f =
     bind_res (Int_new TInt True (valid_since f)) (\<lambda>a.
     bind_res (Int_new TInt True (valid_until f)) (\<lambda>b.
     bind_res (Int_new TLong True (salt f)) (\<lambda>c. Inr (a @ b @ c))))"

record future_salts =
  req_msg_id :: int
  now :: int
  salts :: "future_salt list"

definition FutureSalts_ID :: int where "FutureSalts_ID = 0xAE500895"

definition FutureSalts_read :: "future_salts reader" where
  "FutureSalts_read data =
     (let (r, d1) = Int_read TLong True data;
          (n, d2) = Int_read TInt True d1;
          (count, d3) = Int_read TInt True d2
      in bind_res (repeat_read (nat count) FutureSalt_read d3)
           (\<lambda>(ss, d4). Inr (\<lparr>req_msg_id = r, now = n, salts = ss\<rparr>, d4)))"

definition FutureSalts_write :: "future_salts writer" where
  "FutureSalts_write f =
     bind_res (Int_new TInt False FutureSalts_ID) (\<lambda>i.
     bind_res (Int_new TLong True (req_msg_id f)) (\<lambda>r.
     bind_res (Int_new TInt True (now f)) (\<lambda>n.
     bind_res (Int_new TInt True (int (length (salts f)))) (\<lambda>c.
     bind_res (map_res FutureSalt_write (salts f)) (\<lambda>ss. Inr (i @ r @ n @ c @ concat ss))))))"

subsection \<open>Messages and containers: message.py, msg\_container.py\<close>

record 'o message =
  msg_id :: int
  seq_no :: int
  mlength :: int
  body :: 'o

definition Message_read :: "'o reader \<Rightarrow> 'o message reader" where
  "Message_read tl_read data =
     (let (i, d1) = Int_read TLong True data;
          (s, d2) = Int_read TInt True d1;
          (l, d3) = Int_read TInt True d2;
          (bs, d4) = read_n l d3
      in bind_res (tl_read bs)
           (\<lambda>(ob, _). Inr (\<lparr>msg_id = i, seq_no = s, mlength = l, body = ob\<rparr>, d4)))"

definition Message_write :: "'o writer \<Rightarrow> 'o message writer" where
  "Message_write tl_write m =
     bind_res (Int_new TLong True (msg_id m)) (\<lambda>i.
     bind_res (Int_new TInt True (seq_no m)) (\<lambda>s.
     bind_res (Int_new TInt True (mlength m)) (\<lambda>l.
     bind_res (tl_write (body m)) (\<lambda>bs. Inr (i @ s @ l @ bs)))))"

definition MsgContainer_ID :: int where "MsgContainer_ID = 0x73F1F8DC"

definition MsgContainer_read :: "'o reader \<Rightarrow> 'o message list reader" where
  "MsgContainer_read tl_read data =
     (let (count, d1) = Int_read TInt True data in repeat_read (nat count) (Message_read tl_read) d1)"

definition MsgContainer_write :: "'o writer \<Rightarrow> 'o message list writer" where
  "MsgContainer_write tl_write ms =
     bind_res (Int_new TInt False MsgContainer_ID) (\<lambda>i.
     bind_res (Int_new TInt True (int (length ms))) (\<lambda>c.
     bind_res (map_res (Message_write tl_write) ms) (\<lambda>bs. Inr (i @ c @ concat bs))))"

subsection \<open>Compressed objects: gzip\_packed.py\<close>

definition GzipPacked_ID :: int where "GzipPacked_ID = 0x3072CFA1"

definition GzipPacked_read :: "(bytes \<Rightarrow> bytes res) \<Rightarrow> 'o reader \<Rightarrow> 'o reader" where
  "GzipPacked_read decompress tl_read data =
     (let (x, d1) = Bytes_read data in
      bind_res (decompress x) (\<lambda>y. bind_res (tl_read y) (\<lambda>(ob, _). Inr (ob, d1))))"

definition GzipPacked_write :: "(bytes \<Rightarrow> bytes) \<Rightarrow> 'o writer \<Rightarrow> 'o writer" where
  "GzipPacked_write compress tl_write ob =
     bind_res (Int_new TInt False GzipPacked_ID) (\<lambda>i.
     bind_res (tl_write ob) (\<lambda>bs.
     bind_res (Bytes_new (compress bs)) (\<lambda>z. Inr (i @ z))))"


section \<open>The interface of a codec\<close>

text \<open>
  What the composite types rely on in an element type: what was written, whatever follows
  it in the stream, is read back. \<open>ok\<close> is the invariant a value must satisfy. From that
  law alone come the laws of lists, of messages and of containers.
\<close>

locale tl_codec =
  fixes ok :: "'a \<Rightarrow> bool"
    and wr :: "'a \<Rightarrow> bytes res"
    and rd :: "bytes \<Rightarrow> ('a \<times> bytes) res"
  assumes rd_wr: "ok x \<Longrightarrow> wr x = Inr bs \<Longrightarrow> rd (bs @ rest) = Inr (x, rest)"
begin

lemma rd_wr_end: "ok x \<Longrightarrow> wr x = Inr bs \<Longrightarrow> rd bs = Inr (x, [])"
  using rd_wr [of x bs "[]"] by simp

lemma wr_inject: "ok x \<Longrightarrow> ok y \<Longrightarrow> wr x = Inr bs \<Longrightarrow> wr y = Inr bs \<Longrightarrow> x = y"
  by (metis Pair_inject rd_wr_end sum.inject(2))

lemma wr_prefix_free:
  "ok x \<Longrightarrow> ok y \<Longrightarrow> wr x = Inr bs \<Longrightarrow> wr y = Inr cs \<Longrightarrow> bs @ r = cs @ s \<Longrightarrow> x = y \<and> r = s"
  by (metis Pair_inject rd_wr sum.inject(2))

lemma list_rd_wr:
  "list_all ok xs \<Longrightarrow> map_res wr xs = Inr bss \<Longrightarrow>
   repeat_read (length xs) rd (concat bss @ rest) = Inr (xs, rest)"
  by (induction xs arbitrary: bss) (auto simp: res_simps rd_wr)

end

lemma Int_read_new [simp]:
  "Int_new cls sg v = Inr bs \<Longrightarrow> Int_read cls sg (bs @ rest) = (v, rest)"
  using to_bytes_le_length [of "SIZE cls" sg v bs] from_to_bytes_le [of "SIZE cls" sg v bs]
  by (simp add: Int_new_def Int_read_def)

lemma Int_new_length: "Int_new cls sg v = Inr bs \<Longrightarrow> length bs = SIZE cls"
  by (simp add: Int_new_def to_bytes_le_length)

lemma Int_new_le_int: "Int_new cls False v = Inr bs \<Longrightarrow> le_int bs = v"
  using from_to_bytes_le [of "SIZE cls" False v bs]
  by (simp add: Int_new_def from_bytes_le_def)

interpretation int_codec: tl_codec "\<lambda>_. True" "Int_new cls sg" "\<lambda>b. Inr (Int_read cls sg b)" for cls sg
  by unfold_locales simp

subsection \<open>Byte strings and strings\<close>

lemma replicate_read:
  "n = int k \<Longrightarrow> snd (read_n n (replicate k (0 :: byte) @ rest)) = rest"
  by (simp add: read_n_def)

lemma int_pad_to: "0 < m \<Longrightarrow> int (pad_to m n) = (- int n) mod int m"
  by (simp add: pad_to_def)

lemma Bytes_read_new:
  assumes "Bytes_new v = Inr bs"
  shows "Bytes_read (bs @ rest) = (v, rest)"
proof (cases "length v \<le> 253")
  case True
  then have "unat (of_nat (length v) :: byte) = length v" by (simp add: unat_of_nat)
  then have u: "uint (of_nat (length v) :: byte) = int (length v)" by (simp add: uint_nat)
  have bs: "bs = of_nat (length v) # v @ replicate (pad_to 4 (length v + 1)) 0"
    using assms True by (simp add: Bytes_new_def Let_def)
  have "(- (int (length v) + 1)) mod 4 = int (pad_to 4 (length v + 1))"
    using int_pad_to [of 4 "length v + 1"] by (simp add: algebra_simps)
  then show ?thesis
    using True by (simp add: bs Bytes_read_def u replicate_read)
next
  case False
  then obtain l where l: "to_bytes_le 3 False (int (length v)) = Inr l"
    and bs: "bs = 254 # l @ v @ replicate (pad_to 4 (length v)) 0"
    using assms by (auto simp: Bytes_new_def Let_def res_simps)
  have "length l = 3" "le_int l = int (length v)"
    using l to_bytes_le_length [OF l] from_to_bytes_le [OF l] by (auto simp: from_bytes_le_def)
  moreover have "(- int (length v)) mod 4 = int (pad_to 4 (length v))"
    using int_pad_to [of 4 "length v"] by simp
  ultimately show ?thesis
    by (simp add: bs Bytes_read_def replicate_read)
qed

lemma Bytes_new_aligned: "Bytes_new v = Inr bs \<Longrightarrow> 4 dvd length bs"
proof -
  assume a: "Bytes_new v = Inr bs"
  have "4 dvd length v + 1 + pad_to 4 (length v + 1)" "4 dvd length v + pad_to 4 (length v)"
    using pad_to_dvd [of 4 "length v + 1"] pad_to_dvd [of 4 "length v"] by simp_all
  with a show ?thesis
    by (auto simp: Bytes_new_def Let_def res_simps dest!: to_bytes_le_length split: if_splits)
qed

lemma Bytes_new_defined: "length v < 2 ^ 24 \<Longrightarrow> \<exists>bs. Bytes_new v = Inr bs"
  by (auto simp: Bytes_new_def to_bytes_le_def fits_def Let_def)

lemma Bytes_new_too_long: "2 ^ 24 \<le> length v \<Longrightarrow> Bytes_new v = Inl OverflowError"
  by (auto simp: Bytes_new_def to_bytes_le_def fits_def Let_def)

interpretation bytes_codec: tl_codec "\<lambda>_. True" Bytes_new "\<lambda>b. Inr (Bytes_read b)"
  by unfold_locales (simp add: Bytes_read_new)

interpretation string_codec:
  tl_codec "\<lambda>s. \<forall>c \<in> set s. scalar c" String_new "\<lambda>b. Inr (String_read b)"
  by unfold_locales (auto simp: String_new_def String_read_def Bytes_read_new utf8_decode_encode)

lemma Bool_codec_ids: "0 \<le> BoolFalse_ID" "BoolFalse_ID < 2 ^ 32" "0 \<le> BoolTrue_ID" "BoolTrue_ID < 2 ^ 32"
    "BoolFalse_ID \<noteq> BoolTrue_ID"
  by (simp_all add: BoolFalse_ID_def BoolTrue_ID_def)

interpretation bool_codec: tl_codec "\<lambda>_. True" "\<lambda>v. Inr (Bool_new v)" "\<lambda>b. Inr (Bool_read b)"
proof unfold_locales
  fix x :: bool and bs rest
  assume "Inr (Bool_new x) = (Inr bs :: bytes res)"
  then have bs: "bs = Bool_new x" by simp
  have "le_int (Bool_new x) = (if x then BoolTrue_ID else BoolFalse_ID)"
    unfolding Bool_new_def le_int_le_bytes by (simp add: BoolFalse_ID_def BoolTrue_ID_def)
  moreover have "length (Bool_new x) = 4" by (simp only: Bool_new_def length_le_bytes)
  ultimately show "Inr (Bool_read (bs @ rest)) = Inr (x, rest)"
    by (simp add: bs Bool_read_def Bool_codec_ids)
qed

subsection \<open>Future salts\<close>

lemma FutureSalt_read_write: "FutureSalt_write x = Inr bs \<Longrightarrow> FutureSalt_read (bs @ rest) = Inr (x, rest)"
  by (auto simp: FutureSalt_write_def FutureSalt_read_def res_simps)

interpretation future_salt_codec: tl_codec "\<lambda>_. True" FutureSalt_write FutureSalt_read
  by unfold_locales (simp add: FutureSalt_read_write)

lemma FutureSalts_read_write:
  assumes "FutureSalts_write x = Inr bs"
  shows "FutureSalts_read (drop 4 bs @ rest) = Inr (x, rest) \<and> le_int (take 4 bs) = FutureSalts_ID"
proof -
  from assms obtain i r n c ss where
      i: "Int_new TInt False FutureSalts_ID = Inr i" and r: "Int_new TLong True (req_msg_id x) = Inr r"
      and n: "Int_new TInt True (now x) = Inr n"
      and c: "Int_new TInt True (int (length (salts x))) = Inr c"
      and ss: "map_res FutureSalt_write (salts x) = Inr ss" and bs: "bs = i @ r @ n @ c @ concat ss"
    by (auto simp: FutureSalts_write_def res_simps)
  have "list_all (\<lambda>_. True) (salts x)" by (simp add: list_all_iff)
  from future_salt_codec.list_rd_wr [OF this ss] show ?thesis
    using Int_new_length [OF i] Int_new_le_int [OF i] r n c by (simp add: bs FutureSalts_read_def)
qed

subsection \<open>Vectors, messages, containers, compressed objects\<close>

context tl_codec
begin

lemma vector_read_new:
  assumes "list_all ok xs" "Vector_new wr xs = Inr bs"
  shows "Vector_read rd (drop 4 bs @ rest) = Inr (xs, rest) \<and> le_int (take 4 bs) = Vector_ID"
proof -
  from assms(2) obtain i n es where
      i: "Int_new TInt False Vector_ID = Inr i" and n: "Int_new TInt True (int (length xs)) = Inr n"
      and es: "map_res wr xs = Inr es" and bs: "bs = i @ n @ concat es"
    by (auto simp: Vector_new_def res_simps)
  from list_rd_wr [OF assms(1) es] show ?thesis
    using Int_new_length [OF i] Int_new_le_int [OF i] n by (simp add: bs Vector_read_def)
qed

lemma message_read_write:
  assumes "ok (body m)" "wr (body m) = Inr b" "mlength m = int (length b)"
    and "Message_write wr m = Inr bs"
  shows "Message_read rd (bs @ rest) = Inr (m, rest)"
proof -
  from assms(2,4) obtain i s l where
      "Int_new TLong True (msg_id m) = Inr i" "Int_new TInt True (seq_no m) = Inr s"
      "Int_new TInt True (mlength m) = Inr l" and bs: "bs = i @ s @ l @ b"
    by (auto simp: Message_write_def res_simps)
  with assms(3) rd_wr_end [OF assms(1,2)] show ?thesis
    by (simp add: Message_read_def)
qed

lemma message_codec:
  "tl_codec (\<lambda>m. ok (body m) \<and> (\<exists>b. wr (body m) = Inr b \<and> mlength m = int (length b)))
     (Message_write wr) (Message_read rd)"
  by unfold_locales (auto intro: message_read_write)

lemma gzip_read_write:
  assumes "ok x" "\<And>z. decompress (compress z) = Inr z"
    and "GzipPacked_write compress wr x = Inr bs"
  shows "GzipPacked_read decompress rd (drop 4 bs @ rest) = Inr (x, rest)"
proof -
  from assms(3) obtain i b z where
      "Int_new TInt False GzipPacked_ID = Inr i" and b: "wr x = Inr b"
      and z: "Bytes_new (compress b) = Inr z" and "bs = i @ z"
    by (auto simp: GzipPacked_write_def res_simps)
  then have "drop 4 bs = z" using Int_new_length [of TInt False GzipPacked_ID i] by simp
  then show ?thesis
    using rd_wr_end [OF assms(1) b] by (simp add: GzipPacked_read_def Bytes_read_new [OF z] assms(2))
qed

end

text \<open>A container read back through the law of its messages.\<close>

lemma container_read_write:
  assumes codec: "tl_codec mok (Message_write wr) (Message_read rd)"
    and "list_all mok ms" "MsgContainer_write wr ms = Inr bs"
  shows "MsgContainer_read rd (drop 4 bs @ rest) = Inr (ms, rest) \<and> le_int (take 4 bs) = MsgContainer_ID"
proof -
  from assms(3) obtain i c bss where
      i: "Int_new TInt False MsgContainer_ID = Inr i" and c: "Int_new TInt True (int (length ms)) = Inr c"
      and bss: "map_res (Message_write wr) ms = Inr bss" and bs: "bs = i @ c @ concat bss"
    by (auto simp: MsgContainer_write_def res_simps)
  from tl_codec.list_rd_wr [OF codec assms(2) bss] show ?thesis
    using Int_new_length [OF i] Int_new_le_int [OF i] c by (simp add: bs MsgContainer_read_def)
qed

text \<open>
  The codec of whole objects on the model's own definitions: the table that sends the id of
  \<open>FutureSalts\<close> to its reader, as the entry the API compiler writes for it does.
\<close>

definition salts_objects :: "int \<Rightarrow> future_salts reader option" where
  "salts_objects i = (if i = FutureSalts_ID then Some FutureSalts_read else None)"

interpretation salts_codec: tl_codec "\<lambda>_. True" FutureSalts_write "TLObject_read salts_objects"
proof unfold_locales
  fix x bs rest
  assume w: "FutureSalts_write x = Inr bs"
  then have "4 \<le> length bs"
    by (auto simp: FutureSalts_write_def res_simps dest!: Int_new_length)
  with FutureSalts_read_write [OF w] show "TLObject_read salts_objects (bs @ rest) = Inr (x, rest)"
    by (simp add: TLObject_read_def salts_objects_def)
qed

interpretation salts_message: tl_codec
  "\<lambda>m. True \<and> (\<exists>b. FutureSalts_write (body m) = Inr b \<and> mlength m = int (length b))"
  "Message_write FutureSalts_write" "Message_read (TLObject_read salts_objects)"
  by (rule salts_codec.message_codec)

end
