(* ===== verification/File_Id.thy ===== *)
theory File_Id
  imports Base64 TL_Core
begin

text \<open>
  \<open>pyrogram/file_id.py\<close>: the file identifiers of the Bot API format. A \<open>FileId\<close> is
  written as a versioned record, run-length coded and written in URL-safe Base64; the
  layout after the header depends on the file type, on the version and, for photos, on
  the source of the thumbnail. The two flags of the type word say whether a URL or a file
  reference follows.
\<close>

section \<open>File types and thumbnail sources\<close>

datatype FileType =
    FT_THUMBNAIL | FT_CHAT_PHOTO | FT_PHOTO | FT_VOICE | FT_VIDEO | FT_DOCUMENT | FT_ENCRYPTED
  | FT_TEMP | FT_STICKER | FT_AUDIO | FT_ANIMATION | FT_ENCRYPTED_THUMBNAIL | FT_WALLPAPER
  | FT_VIDEO_NOTE | FT_SECURE_RAW | FT_SECURE | FT_BACKGROUND | FT_DOCUMENT_AS_FILE

definition FileTypes :: "FileType list" where
  "FileTypes =
     [FT_THUMBNAIL, FT_CHAT_PHOTO, FT_PHOTO, FT_VOICE, FT_VIDEO, FT_DOCUMENT, FT_ENCRYPTED,
      FT_TEMP, FT_STICKER, FT_AUDIO, FT_ANIMATION, FT_ENCRYPTED_THUMBNAIL, FT_WALLPAPER,
      FT_VIDEO_NOTE, FT_SECURE_RAW, FT_SECURE, FT_BACKGROUND, FT_DOCUMENT_AS_FILE]"

fun FileType_value :: "FileType \<Rightarrow> int" where
  "FileType_value FT_THUMBNAIL = 0"
| "FileType_value FT_CHAT_PHOTO = 1"
| "FileType_value FT_PHOTO = 2"
| "FileType_value FT_VOICE = 3"
| "FileType_value FT_VIDEO = 4"
| "FileType_value FT_DOCUMENT = 5"
| "FileType_value FT_ENCRYPTED = 6"
| "FileType_value FT_TEMP = 7"
| "FileType_value FT_STICKER = 8"
| "FileType_value FT_AUDIO = 9"
| "FileType_value FT_ANIMATION = 10"
| "FileType_value FT_ENCRYPTED_THUMBNAIL = 11"
| "FileType_value FT_WALLPAPER = 12"
| "FileType_value FT_VIDEO_NOTE = 13"
| "FileType_value FT_SECURE_RAW = 14"
| "FileType_value FT_SECURE = 15"
| "FileType_value FT_BACKGROUND = 16"
| "FileType_value FT_DOCUMENT_AS_FILE = 17"

text \<open>An \<open>IntEnum\<close> called on a number: the member with that value, else \<open>ValueError\<close>.\<close>

definition enum_of :: "('e \<Rightarrow> int) \<Rightarrow> 'e list \<Rightarrow> int \<Rightarrow> 'e res" where
  "enum_of val members v =
     (case filter (\<lambda>e. val e = v) members of [] \<Rightarrow> Inl ValueError | e # _ \<Rightarrow> Inr e)"

datatype ThumbnailSource =
    TS_LEGACY | TS_THUMBNAIL | TS_CHAT_PHOTO_SMALL | TS_CHAT_PHOTO_BIG | TS_STICKER_SET_THUMBNAIL
  | TS_FULL_LEGACY | TS_CHAT_PHOTO_SMALL_LEGACY | TS_CHAT_PHOTO_BIG_LEGACY
  | TS_STICKER_SET_THUMBNAIL_LEGACY | TS_STICKER_SET_THUMBNAIL_VERSION

definition ThumbnailSources :: "ThumbnailSource list" where
  "ThumbnailSources =
     [TS_LEGACY, TS_THUMBNAIL, TS_CHAT_PHOTO_SMALL, TS_CHAT_PHOTO_BIG, TS_STICKER_SET_THUMBNAIL,
      TS_FULL_LEGACY, TS_CHAT_PHOTO_SMALL_LEGACY, TS_CHAT_PHOTO_BIG_LEGACY,
      TS_STICKER_SET_THUMBNAIL_LEGACY, TS_STICKER_SET_THUMBNAIL_VERSION]"

fun ThumbnailSource_value :: "ThumbnailSource \<Rightarrow> int" where
  "ThumbnailSource_value TS_LEGACY = 0"
| "ThumbnailSource_value TS_THUMBNAIL = 1"
| "ThumbnailSource_value TS_CHAT_PHOTO_SMALL = 2"
| "ThumbnailSource_value TS_CHAT_PHOTO_BIG = 3"
| "ThumbnailSource_value TS_STICKER_SET_THUMBNAIL = 4"
| "ThumbnailSource_value TS_FULL_LEGACY = 5"
| "ThumbnailSource_value TS_CHAT_PHOTO_SMALL_LEGACY = 6"
| "ThumbnailSource_value TS_CHAT_PHOTO_BIG_LEGACY = 7"
| "ThumbnailSource_value TS_STICKER_SET_THUMBNAIL_LEGACY = 8"
| "ThumbnailSource_value TS_STICKER_SET_THUMBNAIL_VERSION = 9"

definition NO_VOLUME_AND_LOCAL_ID_MINOR :: int where
  "NO_VOLUME_AND_LOCAL_ID_MINOR = 32"

definition PHOTO_TYPES :: "FileType set" where
  "PHOTO_TYPES = {FT_THUMBNAIL, FT_CHAT_PHOTO, FT_PHOTO, FT_WALLPAPER, FT_ENCRYPTED_THUMBNAIL}"

definition DOCUMENT_TYPES :: "FileType set" where
  "DOCUMENT_TYPES = set FileTypes - PHOTO_TYPES"

definition WEB_LOCATION_FLAG :: int where "WEB_LOCATION_FLAG = 0x1000000"
definition FILE_REFERENCE_FLAG :: int where "FILE_REFERENCE_FLAG = 0x2000000"

section \<open>The identifier and the tail of a photo\<close>

record photo_tail =
  pt_volume_id :: "int option"
  pt_local_id :: "int option"
  pt_secret :: "int option"
  pt_thumbnail_file_type :: "int option"
  pt_thumbnail_size :: pystr
  pt_chat_id :: "int option"
  pt_chat_access_hash :: "int option"
  pt_sticker_set_id :: "int option"
  pt_sticker_set_access_hash :: "int option"
  pt_sticker_set_version :: "int option"

definition PhotoTail :: photo_tail where
  "PhotoTail = \<lparr>pt_volume_id = None, pt_local_id = None, pt_secret = None,
     pt_thumbnail_file_type = None, pt_thumbnail_size = [], pt_chat_id = None,
     pt_chat_access_hash = None, pt_sticker_set_id = None, pt_sticker_set_access_hash = None,
     pt_sticker_set_version = None\<rparr>"

record file_id =
  major :: int
  minor :: int
  file_type :: FileType
  dc_id :: int
  file_reference :: bytes
  url :: "pystr option"
  media_id :: "int option"
  access_hash :: "int option"
  volume_id :: "int option"
  thumbnail_source :: "ThumbnailSource option"
  thumbnail_file_type :: "int option"
  thumbnail_size :: pystr
  secret :: "int option"
  local_id :: "int option"
  chat_id :: "int option"
  chat_access_hash :: "int option"
  sticker_set_id :: "int option"
  sticker_set_access_hash :: "int option"
  sticker_set_version :: "int option"

definition FileId :: "int \<Rightarrow> int \<Rightarrow> FileType \<Rightarrow> int \<Rightarrow> file_id" where
  "FileId ma mi t dc = \<lparr>major = ma, minor = mi, file_type = t, dc_id = dc, file_reference = [],
     url = None, media_id = None, access_hash = None, volume_id = None, thumbnail_source = None,
     thumbnail_file_type = None, thumbnail_size = [], secret = None, local_id = None,
     chat_id = None, chat_access_hash = None, sticker_set_id = None,
     sticker_set_access_hash = None, sticker_set_version = None\<rparr>"

text \<open>\<open>chr\<close> accepts the code points, \<open>ord\<close> strings of length one.\<close>

definition py_chr :: "int \<Rightarrow> pystr res" where
  "py_chr n = (if 0 \<le> n \<and> n < 0x110000 then Inr [nat n] else Inl ValueError)"

definition py_ord :: "pystr \<Rightarrow> int res" where
  "py_ord s = (case s of [c] \<Rightarrow> Inr (int c) | _ \<Rightarrow> Inl TypeError)"

fun read_photo_tail :: "ThumbnailSource \<Rightarrow> bytes \<Rightarrow> (photo_tail \<times> bytes) res" where
  "read_photo_tail TS_LEGACY b =
     bind_res (unpack_from [Fq] b) (\<lambda>(v, b1). Inr (PhotoTail\<lparr>pt_secret := Some (v ! 0)\<rparr>, b1))"
| "read_photo_tail TS_THUMBNAIL b =
     bind_res (unpack_from [Fi, Fi] b) (\<lambda>(v, b1).
     bind_res (py_chr (v ! 1)) (\<lambda>c.
       Inr (PhotoTail\<lparr>pt_thumbnail_file_type := Some (v ! 0), pt_thumbnail_size := c\<rparr>, b1)))"
| "read_photo_tail TS_STICKER_SET_THUMBNAIL b =
     bind_res (unpack_from [Fq, Fq] b) (\<lambda>(v, b1).
       Inr (PhotoTail\<lparr>pt_sticker_set_id := Some (v ! 0), pt_sticker_set_access_hash := Some (v ! 1)\<rparr>, b1))"
| "read_photo_tail TS_FULL_LEGACY b =
     bind_res (unpack_from [Fq, Fq, Fi] b) (\<lambda>(v, b1).
       Inr (PhotoTail\<lparr>pt_volume_id := Some (v ! 0), pt_secret := Some (v ! 1),
                       pt_local_id := Some (v ! 2)\<rparr>, b1))"
| "read_photo_tail TS_STICKER_SET_THUMBNAIL_LEGACY b =
     bind_res (unpack_from [Fq, Fq, Fq, Fi] b) (\<lambda>(v, b1).
       Inr (PhotoTail\<lparr>pt_sticker_set_id := Some (v ! 0), pt_sticker_set_access_hash := Some (v ! 1),
                       pt_volume_id := Some (v ! 2), pt_local_id := Some (v ! 3)\<rparr>, b1))"
| "read_photo_tail TS_STICKER_SET_THUMBNAIL_VERSION b =
     bind_res (unpack_from [Fq, Fq, Fi] b) (\<lambda>(v, b1).
       Inr (PhotoTail\<lparr>pt_sticker_set_id := Some (v ! 0), pt_sticker_set_access_hash := Some (v ! 1),
                       pt_sticker_set_version := Some (v ! 2)\<rparr>, b1))"
| "read_photo_tail src b =
     (if src \<in> {TS_CHAT_PHOTO_SMALL, TS_CHAT_PHOTO_BIG} then
        bind_res (unpack_from [Fq, Fq] b) (\<lambda>(v, b1).
          Inr (PhotoTail\<lparr>pt_chat_id := Some (v ! 0), pt_chat_access_hash := Some (v ! 1)\<rparr>, b1))
      else
        bind_res (unpack_from [Fq, Fq, Fq, Fi] b) (\<lambda>(v, b1).
          Inr (PhotoTail\<lparr>pt_chat_id := Some (v ! 0), pt_chat_access_hash := Some (v ! 1),
                          pt_volume_id := Some (v ! 2), pt_local_id := Some (v ! 3)\<rparr>, b1)))"

definition write_photo_tail :: "file_id \<Rightarrow> bytes res" where
  "write_photo_tail f =
     (case thumbnail_source f of
        None \<Rightarrow> Inl ValueError
      | Some TS_LEGACY \<Rightarrow> struct_pack [Fq] [secret f]
      | Some TS_THUMBNAIL \<Rightarrow>
          bind_res (py_ord (thumbnail_size f)) (\<lambda>c.
            struct_pack [Fi, Fi] [thumbnail_file_type f, Some c])
      | Some TS_CHAT_PHOTO_SMALL \<Rightarrow> struct_pack [Fq, Fq] [chat_id f, chat_access_hash f]
      | Some TS_CHAT_PHOTO_BIG \<Rightarrow> struct_pack [Fq, Fq] [chat_id f, chat_access_hash f]
      | Some TS_STICKER_SET_THUMBNAIL \<Rightarrow>
          struct_pack [Fq, Fq] [sticker_set_id f, sticker_set_access_hash f]
      | Some TS_FULL_LEGACY \<Rightarrow> struct_pack [Fq, Fq, Fi] [volume_id f, secret f, local_id f]
      | Some TS_CHAT_PHOTO_SMALL_LEGACY \<Rightarrow>
          struct_pack [Fq, Fq, Fq, Fi] [chat_id f, chat_access_hash f, volume_id f, local_id f]
      | Some TS_CHAT_PHOTO_BIG_LEGACY \<Rightarrow>
          struct_pack [Fq, Fq, Fq, Fi] [chat_id f, chat_access_hash f, volume_id f, local_id f]
      | Some TS_STICKER_SET_THUMBNAIL_LEGACY \<Rightarrow>
          struct_pack [Fq, Fq, Fq, Fi]
            [sticker_set_id f, sticker_set_access_hash f, volume_id f, local_id f]
      | Some TS_STICKER_SET_THUMBNAIL_VERSION \<Rightarrow>
          struct_pack [Fq, Fq, Fi]
            [sticker_set_id f, sticker_set_access_hash f, sticker_set_version f])"


section \<open>FileId.decode and FileId.encode\<close>

text \<open>The photo part of \<open>FileId.decode\<close>, from the volume identifier on.\<close>

definition decode_photo :: "file_id \<Rightarrow> bytes \<Rightarrow> file_id res" where
  "decode_photo f b =
     (let has_volume_and_local_id = minor f < NO_VOLUME_AND_LOCAL_ID_MINOR in
      bind_res (if has_volume_and_local_id
                then bind_res (unpack_from [Fq] b) (\<lambda>(v, b1). Inr (Some (v ! 0), b1))
                else Inr (None, b)) (\<lambda>(vol, b1).
      bind_res (if major f < 4 then Inr (0, b1)
                else bind_res (unpack_from [Fi] b1) (\<lambda>(v, b2). Inr (v ! 0, b2))) (\<lambda>(n, b2).
      bind_res (enum_of ThumbnailSource_value ThumbnailSources n) (\<lambda>src.
      bind_res (read_photo_tail src b2) (\<lambda>(tail, b3).
      bind_res (if has_volume_and_local_id
                then bind_res (unpack_from [Fi] b3) (\<lambda>(v, b4).
                       Inr (tail\<lparr>pt_volume_id := vol, pt_local_id := Some (v ! 0)\<rparr>))
                else Inr tail) (\<lambda>tail.
      Inr (f\<lparr>thumbnail_source := Some src,
             volume_id := pt_volume_id tail, local_id := pt_local_id tail,
             secret := pt_secret tail, thumbnail_file_type := pt_thumbnail_file_type tail,
             thumbnail_size := pt_thumbnail_size tail, chat_id := pt_chat_id tail,
             chat_access_hash := pt_chat_access_hash tail,
             sticker_set_id := pt_sticker_set_id tail,
             sticker_set_access_hash := pt_sticker_set_access_hash tail,
             sticker_set_version := pt_sticker_set_version tail\<rparr>)))))))"

definition decode_body :: "int \<Rightarrow> int \<Rightarrow> bytes \<Rightarrow> file_id res" where
  "decode_body ma mi buffer =
     bind_res (unpack_from [Fi, Fi] buffer) (\<lambda>(v, b).
     (let t = v ! 0;
          has_web_location = (t AND WEB_LOCATION_FLAG) \<noteq> 0;
          has_file_reference = (t AND FILE_REFERENCE_FLAG) \<noteq> 0;
          t = t AND (NOT WEB_LOCATION_FLAG);
          t = t AND (NOT FILE_REFERENCE_FLAG)
      in bind_res (enum_of FileType_value FileTypes t) (\<lambda>ft.
         if has_web_location then
           (let (u, b1) = String_read b in
            bind_res (unpack_from [Fq] b1) (\<lambda>(w, _).
              Inr ((FileId ma mi ft (v ! 1))\<lparr>url := Some u, access_hash := Some (w ! 0)\<rparr>)))
         else
           (let (ref, b1) = (if has_file_reference then Bytes_read b else ([], b)) in
            bind_res (unpack_from [Fq, Fq] b1) (\<lambda>(w, b2).
              (let f = (FileId ma mi ft (v ! 1))\<lparr>file_reference := ref, media_id := Some (w ! 0),
                         access_hash := Some (w ! 1)\<rparr>
               in if ft \<in> PHOTO_TYPES then decode_photo f b2 else Inr f))))))"

definition FileId_decode :: "string \<Rightarrow> file_id res" where
  "FileId_decode s =
     bind_res (b64_decode s) (\<lambda>r.
     (let decoded = rle_decode r in
      if decoded = [] then Inl IndexError
      else
        (let ma = uint (last decoded) in
         if ma < 4 then decode_body ma 0 (butlast decoded)
         else if length decoded < 2 then Inl IndexError
         else decode_body ma (uint (last (butlast decoded))) (butlast (butlast decoded)))))"

definition encode_photo :: "int \<Rightarrow> int \<Rightarrow> file_id \<Rightarrow> bytes res" where
  "encode_photo ma mi f =
     (let has_volume_and_local_id = mi < NO_VOLUME_AND_LOCAL_ID_MINOR in
      bind_res (if has_volume_and_local_id then struct_pack [Fq] [volume_id f] else Inr []) (\<lambda>vol.
      bind_res (if ma \<ge> 4
                then struct_pack [Fi] [map_option ThumbnailSource_value (thumbnail_source f)]
                else Inr []) (\<lambda>src.
      bind_res (write_photo_tail f) (\<lambda>tail.
      bind_res (if has_volume_and_local_id then struct_pack [Fi] [local_id f] else Inr []) (\<lambda>loc.
      Inr (vol @ src @ tail @ loc))))))"

text \<open>The body of \<open>FileId.encode\<close> up to the version, and the whole of it.\<close>

definition encode_body :: "int \<Rightarrow> int \<Rightarrow> file_id \<Rightarrow> bytes res" where
  "encode_body ma mi f =
     (let t = FileType_value (file_type f);
          t = (if truthy (url f) then t OR WEB_LOCATION_FLAG else t);
          t = (if file_reference f \<noteq> [] then t OR FILE_REFERENCE_FLAG else t)
      in bind_res (struct_pack [Fi, Fi] [Some t, Some (dc_id f)]) (\<lambda>hd.
         bind_res (if truthy (url f) then String_new (the (url f)) else Inr []) (\<lambda>u.
         bind_res (if file_reference f \<noteq> [] then Bytes_new (file_reference f) else Inr []) (\<lambda>ref.
         bind_res (struct_pack [Fq, Fq] [media_id f, access_hash f]) (\<lambda>ids.
         bind_res (if file_type f \<in> PHOTO_TYPES then encode_photo ma mi f
                   else if t \<in> FileType_value ` DOCUMENT_TYPES
                   then struct_pack [Fi, Fi] [Some mi, Some ma]
                   else Inr []) (\<lambda>tail.
         Inr (hd @ u @ ref @ ids @ tail)))))))"

definition FileId_encode :: "int option \<Rightarrow> int option \<Rightarrow> file_id \<Rightarrow> string res" where
  "FileId_encode ma_arg mi_arg f =
     (let ma = (case ma_arg of Some m \<Rightarrow> m | None \<Rightarrow> major f);
          mi = (case mi_arg of Some m \<Rightarrow> m | None \<Rightarrow> minor f)
      in bind_res (encode_body ma mi f) (\<lambda>body.
         bind_res (struct_pack [Fb, Fb] [Some mi, Some ma]) (\<lambda>v.
         bind_res (rle_encode (body @ v)) (\<lambda>r. Inr (b64_encode r)))))"

section \<open>FileUniqueId\<close>

datatype FileUniqueType = FU_WEB | FU_PHOTO | FU_DOCUMENT | FU_SECURE | FU_ENCRYPTED | FU_TEMP

definition FileUniqueTypes :: "FileUniqueType list" where
  "FileUniqueTypes = [FU_WEB, FU_PHOTO, FU_DOCUMENT, FU_SECURE, FU_ENCRYPTED, FU_TEMP]"

fun FileUniqueType_value :: "FileUniqueType \<Rightarrow> int" where
  "FileUniqueType_value FU_WEB = 0"
| "FileUniqueType_value FU_PHOTO = 1"
| "FileUniqueType_value FU_DOCUMENT = 2"
| "FileUniqueType_value FU_SECURE = 3"
| "FileUniqueType_value FU_ENCRYPTED = 4"
| "FileUniqueType_value FU_TEMP = 5"

record file_unique_id =
  file_unique_type :: FileUniqueType
  u_url :: "pystr option"
  u_media_id :: "int option"
  u_volume_id :: "int option"
  u_local_id :: "int option"

definition FileUniqueId :: "FileUniqueType \<Rightarrow> file_unique_id" where
  "FileUniqueId t = \<lparr>file_unique_type = t, u_url = None, u_media_id = None, u_volume_id = None,
     u_local_id = None\<rparr>"

definition FileUniqueId_decode :: "string \<Rightarrow> file_unique_id res" where
  "FileUniqueId_decode s =
     bind_res (b64_decode s) (\<lambda>r.
     bind_res (unpack_from [Fi] (rle_decode r)) (\<lambda>(v, b).
     bind_res (enum_of FileUniqueType_value FileUniqueTypes (v ! 0)) (\<lambda>t.
       case t of
         FU_WEB \<Rightarrow> (let (u, _) = String_read b in Inr ((FileUniqueId t)\<lparr>u_url := Some u\<rparr>))
       | FU_PHOTO \<Rightarrow>
           bind_res (struct_unpack [Fq, Fi] b) (\<lambda>w.
             Inr ((FileUniqueId t)\<lparr>u_volume_id := Some (w ! 0), u_local_id := Some (w ! 1)\<rparr>))
       | FU_DOCUMENT \<Rightarrow>
           bind_res (struct_unpack [Fq] b) (\<lambda>w.
             Inr ((FileUniqueId t)\<lparr>u_media_id := Some (w ! 0)\<rparr>))
       | _ \<Rightarrow> Inl ValueError)))"

text \<open>
  The format \<open>"<is"\<close> of the web case packs the first byte of the serialised string only
  (a zero byte for an empty one). \<open>String(None)\<close> raises \<open>AttributeError\<close>.
\<close>

definition FileUniqueId_encode :: "file_unique_id \<Rightarrow> string res" where
  "FileUniqueId_encode f =
     (let t = file_unique_type f; tv = Some (FileUniqueType_value t) in
      bind_res
        (case t of
           FU_WEB \<Rightarrow>
             (case u_url f of
                None \<Rightarrow> Inl AttributeError
              | Some u \<Rightarrow>
                  bind_res (String_new u) (\<lambda>b.
                  bind_res (struct_pack [Fi] [tv]) (\<lambda>h.
                    Inr (h @ take 1 b @ replicate (1 - length b) 0))))
         | FU_PHOTO \<Rightarrow> struct_pack [Fi, Fq, Fi] [tv, u_volume_id f, u_local_id f]
         | FU_DOCUMENT \<Rightarrow> struct_pack [Fi, Fq] [tv, u_media_id f]
         | _ \<Rightarrow> Inl ValueError) (\<lambda>x.
      bind_res (rle_encode x) (\<lambda>r. Inr (b64_encode r))))"


section \<open>Round trips\<close>

subsection \<open>Enumerations and flags\<close>

lemma FileType_of_value [simp]: "enum_of FileType_value FileTypes (FileType_value t) = Inr t"
  by (cases t) (simp_all add: enum_of_def FileTypes_def)

lemma ThumbnailSource_of_value [simp]:
  "enum_of ThumbnailSource_value ThumbnailSources (ThumbnailSource_value t) = Inr t"
  by (cases t) (simp_all add: enum_of_def ThumbnailSources_def)

lemma FileUniqueType_of_value [simp]:
  "enum_of FileUniqueType_value FileUniqueTypes (FileUniqueType_value t) = Inr t"
  by (cases t) (simp_all add: enum_of_def FileUniqueTypes_def)

lemma FileTypes_UNIV: "t \<in> set FileTypes"
  by (cases t) (simp_all add: FileTypes_def)

lemma flag_web_absent:
  "FileType_value t AND WEB_LOCATION_FLAG = 0"
  "(FileType_value t OR FILE_REFERENCE_FLAG) AND WEB_LOCATION_FLAG = 0"
  by (cases t; simp add: WEB_LOCATION_FLAG_def FILE_REFERENCE_FLAG_def)+

lemma flag_ref_cases:
  "FileType_value t AND FILE_REFERENCE_FLAG = 0"
  "(FileType_value t OR FILE_REFERENCE_FLAG) AND FILE_REFERENCE_FLAG \<noteq> 0"
  "(FileType_value t OR WEB_LOCATION_FLAG) AND WEB_LOCATION_FLAG \<noteq> 0"
  by (cases t; simp add: WEB_LOCATION_FLAG_def FILE_REFERENCE_FLAG_def)+

lemma flags_removed:
  "(FileType_value t AND NOT WEB_LOCATION_FLAG) AND NOT FILE_REFERENCE_FLAG = FileType_value t"
  "((FileType_value t OR FILE_REFERENCE_FLAG) AND NOT WEB_LOCATION_FLAG) AND NOT FILE_REFERENCE_FLAG
     = FileType_value t"
  "((FileType_value t OR WEB_LOCATION_FLAG) AND NOT WEB_LOCATION_FLAG) AND NOT FILE_REFERENCE_FLAG
     = FileType_value t"
  by (cases t; simp add: WEB_LOCATION_FLAG_def FILE_REFERENCE_FLAG_def)+

lemmas type_word = flag_web_absent flag_ref_cases flags_removed

subsection \<open>The tail of a photo\<close>

text \<open>What the layout of a source keeps of the fields of the identifier.\<close>

fun kept_tail :: "ThumbnailSource \<Rightarrow> file_id \<Rightarrow> photo_tail" where
  "kept_tail TS_LEGACY f = PhotoTail\<lparr>pt_secret := secret f\<rparr>"
| "kept_tail TS_THUMBNAIL f =
     PhotoTail\<lparr>pt_thumbnail_file_type := thumbnail_file_type f, pt_thumbnail_size := thumbnail_size f\<rparr>"
| "kept_tail TS_CHAT_PHOTO_SMALL f =
     PhotoTail\<lparr>pt_chat_id := chat_id f, pt_chat_access_hash := chat_access_hash f\<rparr>"
| "kept_tail TS_CHAT_PHOTO_BIG f =
     PhotoTail\<lparr>pt_chat_id := chat_id f, pt_chat_access_hash := chat_access_hash f\<rparr>"
| "kept_tail TS_STICKER_SET_THUMBNAIL f =
     PhotoTail\<lparr>pt_sticker_set_id := sticker_set_id f,
                pt_sticker_set_access_hash := sticker_set_access_hash f\<rparr>"
| "kept_tail TS_FULL_LEGACY f =
     PhotoTail\<lparr>pt_volume_id := volume_id f, pt_secret := secret f, pt_local_id := local_id f\<rparr>"
| "kept_tail TS_CHAT_PHOTO_SMALL_LEGACY f =
     PhotoTail\<lparr>pt_chat_id := chat_id f, pt_chat_access_hash := chat_access_hash f,
                pt_volume_id := volume_id f, pt_local_id := local_id f\<rparr>"
| "kept_tail TS_CHAT_PHOTO_BIG_LEGACY f =
     PhotoTail\<lparr>pt_chat_id := chat_id f, pt_chat_access_hash := chat_access_hash f,
                pt_volume_id := volume_id f, pt_local_id := local_id f\<rparr>"
| "kept_tail TS_STICKER_SET_THUMBNAIL_LEGACY f =
     PhotoTail\<lparr>pt_sticker_set_id := sticker_set_id f,
                pt_sticker_set_access_hash := sticker_set_access_hash f,
                pt_volume_id := volume_id f, pt_local_id := local_id f\<rparr>"
| "kept_tail TS_STICKER_SET_THUMBNAIL_VERSION f =
     PhotoTail\<lparr>pt_sticker_set_id := sticker_set_id f,
                pt_sticker_set_access_hash := sticker_set_access_hash f,
                pt_sticker_set_version := sticker_set_version f\<rparr>"

lemma struct_pack_Some: "struct_pack fs vs = Inr bs \<Longrightarrow> vs = map Some (map the vs)"
  by (metis comp_apply list.map_comp list.map_ident_strong option.sel struct_read_pack list.map_id map_map option.map_sel)

lemma unpack_pack_the:
  "struct_pack fs vs = Inr bs \<Longrightarrow> unpack_from fs (bs @ rest) = Inr (map the vs, rest)"
  using struct_pack_Some [of fs vs bs] unpack_from_pack [of fs "map the vs" bs rest] by simp

lemma struct_pack_given: "struct_pack fs vs = Inr bs \<Longrightarrow> v \<in> set vs \<Longrightarrow> \<exists>x. v = Some x"
  using struct_pack_Some [of fs vs bs] by (metis in_set_conv_nth length_map nth_map)

lemma read_write_photo_tail:
  assumes w: "write_photo_tail f = Inr bs" and s: "thumbnail_source f = Some src"
    and c: "\<forall>c \<in> set (thumbnail_size f). c < 0x110000"
  shows "read_photo_tail src (bs @ rest) = Inr (kept_tail src f, rest)"
proof (cases src)
  case TS_THUMBNAIL
  with w s obtain c where "thumbnail_size f = [c]"
      "struct_pack [Fi, Fi] [thumbnail_file_type f, Some (int c)] = Inr bs"
    by (auto simp: write_photo_tail_def res_simps py_ord_def split: list.splits)
  with assms(3) show ?thesis
    using struct_pack_given [of "[Fi, Fi]" "[thumbnail_file_type f, Some (int c)]" bs]
    by (auto simp: TS_THUMBNAIL unpack_pack_the py_chr_def simp del: struct_pack.simps)
qed (use w s in \<open>auto simp: write_photo_tail_def unpack_pack_the PhotoTail_def simp del: struct_pack.simps
       dest: struct_pack_given\<close>)

subsection \<open>The whole identifier\<close>

text \<open>
  The identifier that a round trip gives back: the version of the text, and of the
  attributes those that the layout of the type and of the source has.
\<close>

definition with_tail :: "ThumbnailSource \<Rightarrow> photo_tail \<Rightarrow> file_id \<Rightarrow> file_id" where
  "with_tail src tail g =
     g\<lparr>thumbnail_source := Some src, volume_id := pt_volume_id tail, local_id := pt_local_id tail,
       secret := pt_secret tail, thumbnail_file_type := pt_thumbnail_file_type tail,
       thumbnail_size := pt_thumbnail_size tail, chat_id := pt_chat_id tail,
       chat_access_hash := pt_chat_access_hash tail, sticker_set_id := pt_sticker_set_id tail,
       sticker_set_access_hash := pt_sticker_set_access_hash tail,
       sticker_set_version := pt_sticker_set_version tail\<rparr>"

definition stored :: "int \<Rightarrow> int \<Rightarrow> file_id \<Rightarrow> file_id" where
  "stored ma mi f =
     (let g = (FileId ma (if ma < 4 then 0 else mi) (file_type f) (dc_id f))
                \<lparr>file_reference := file_reference f, media_id := media_id f, access_hash := access_hash f\<rparr>;
          src = the (thumbnail_source f);
          tail = (if mi < NO_VOLUME_AND_LOCAL_ID_MINOR
                  then (kept_tail src f)\<lparr>pt_volume_id := volume_id f, pt_local_id := local_id f\<rparr>
                  else kept_tail src f)
      in if file_type f \<in> PHOTO_TYPES then with_tail src tail g else g)"

text \<open>
  A version that the text can carry and the decoder reads as it was meant: below major 4
  the text has neither a minor version nor a source, so that the layout has to be the
  oldest one.
\<close>

definition version_ok :: "int \<Rightarrow> int \<Rightarrow> file_id \<Rightarrow> bool" where
  "version_ok ma mi f \<longleftrightarrow> 0 \<le> ma \<and> 0 \<le> mi \<and>
     (4 \<le> ma \<or> mi < NO_VOLUME_AND_LOCAL_ID_MINOR \<and>
        (file_type f \<in> PHOTO_TYPES \<longrightarrow> thumbnail_source f = Some TS_LEGACY))"

lemma decode_encode_photo:
  assumes e: "encode_photo ma mi f = Inr bs" and v: "version_ok ma mi f" "file_type f \<in> PHOTO_TYPES"
    and c: "\<forall>c \<in> set (thumbnail_size f). c < 0x110000"
    and g: "major g = ma" "minor g = (if ma < 4 then 0 else mi)"
  shows "\<exists>src. thumbnail_source f = Some src \<and>
    decode_photo g (bs @ rest) =
      Inr (with_tail src
        (if mi < NO_VOLUME_AND_LOCAL_ID_MINOR
         then (kept_tail src f)\<lparr>pt_volume_id := volume_id f, pt_local_id := local_id f\<rparr>
         else kept_tail src f) g)"
proof -
  from e obtain vol sb tail loc where
      vol: "(if mi < NO_VOLUME_AND_LOCAL_ID_MINOR then struct_pack [Fq] [volume_id f] else Inr []) = Inr vol"
    and sb: "(if ma \<ge> 4 then struct_pack [Fi] [map_option ThumbnailSource_value (thumbnail_source f)]
              else Inr []) = Inr sb"
    and tail: "write_photo_tail f = Inr tail"
    and loc: "(if mi < NO_VOLUME_AND_LOCAL_ID_MINOR then struct_pack [Fi] [local_id f] else Inr []) = Inr loc"
    and bs: "bs = vol @ sb @ tail @ loc"
    by (auto simp: encode_photo_def Let_def res_simps simp del: struct_pack.simps)
  from tail obtain src where src: "thumbnail_source f = Some src"
    by (cases "thumbnail_source f") (auto simp: write_photo_tail_def)
  have hv: "(minor g < NO_VOLUME_AND_LOCAL_ID_MINOR) = (mi < NO_VOLUME_AND_LOCAL_ID_MINOR)"
    using v(1) g by (auto simp: version_ok_def NO_VOLUME_AND_LOCAL_ID_MINOR_def)
  have rt: "read_photo_tail src (tail @ r) = Inr (kept_tail src f, r)" for r
    by (rule read_write_photo_tail [OF tail src c])
  have tag: "(if major g < 4 then Inr (0, sb @ r)
      else bind_res (unpack_from [Fi] (sb @ r)) (\<lambda>(v, b2). Inr (v ! 0, b2)))
      = Inr (ThumbnailSource_value src, r)" for r
    using sb v src g by (auto simp: version_ok_def unpack_pack_the simp del: struct_pack.simps split: if_splits)
  show ?thesis
  proof (cases "mi < NO_VOLUME_AND_LOCAL_ID_MINOR")
    case True
    with vol loc have p: "struct_pack [Fq] [volume_id f] = Inr vol" "struct_pack [Fi] [local_id f] = Inr loc"
      by (simp_all del: struct_pack.simps)
    with struct_pack_given [OF p(1)] struct_pack_given [OF p(2)] True show ?thesis
      by (auto simp: decode_photo_def Let_def hv bs unpack_pack_the tag rt src with_tail_def
          simp del: struct_pack.simps)
  next
    case False
    with vol loc have "vol = []" "loc = []" by simp_all
    with False show ?thesis
      by (simp add: decode_photo_def Let_def hv bs tag rt src with_tail_def del: struct_pack.simps)
  qed
qed

lemma decode_encode_body:
  assumes e: "encode_body ma mi f = Inr bs" and v: "version_ok ma mi f" and u: "\<not> truthy (url f)"
    and c: "\<forall>c \<in> set (thumbnail_size f). c < 0x110000"
  shows "decode_body ma (if ma < 4 then 0 else mi) (bs @ rest) = Inr (stored ma mi f)"
proof -
  let ?t = "if file_reference f \<noteq> [] then FileType_value (file_type f) OR FILE_REFERENCE_FLAG
            else FileType_value (file_type f)"
  let ?g = "(FileId ma (if ma < 4 then 0 else mi) (file_type f) (dc_id f))
              \<lparr>file_reference := file_reference f, media_id := media_id f, access_hash := access_hash f\<rparr>"
  from e u obtain hd ref ids tail where
      hd: "struct_pack [Fi, Fi] [Some ?t, Some (dc_id f)] = Inr hd"
    and ref: "(if file_reference f \<noteq> [] then Bytes_new (file_reference f) else Inr []) = Inr ref"
    and ids: "struct_pack [Fq, Fq] [media_id f, access_hash f] = Inr ids"
    and tail: "file_type f \<in> PHOTO_TYPES \<Longrightarrow> encode_photo ma mi f = Inr tail"
    and bs: "bs = hd @ ref @ ids @ tail"
    by (auto simp: encode_body_def Let_def res_simps simp del: struct_pack.simps split: if_splits)
  have r: "(if ?t AND FILE_REFERENCE_FLAG \<noteq> 0 then Bytes_read (ref @ r) else ([], ref @ r))
      = (file_reference f, r)" for r
    using ref by (auto simp: type_word Bytes_read_new split: if_splits)
  have t: "?t AND WEB_LOCATION_FLAG = 0"
      "(?t AND NOT WEB_LOCATION_FLAG) AND NOT FILE_REFERENCE_FLAG = FileType_value (file_type f)"
    by (simp_all add: type_word)
  have i: "unpack_from [Fq, Fq] (ids @ r) = Inr ([the (media_id f), the (access_hash f)], r)" for r
    using unpack_pack_the [OF ids] by simp
  obtain m a where ma: "media_id f = Some m" "access_hash f = Some a"
    using struct_pack_given [OF ids] by fastforce
  have "decode_body ma (if ma < 4 then 0 else mi) (bs @ rest) =
      (if file_type f \<in> PHOTO_TYPES then decode_photo ?g (tail @ rest) else Inr ?g)"
    using unpack_pack_the [OF hd] r t
    by (simp add: decode_body_def bs Let_def i ma del: struct_pack.simps)
  then show ?thesis
    using decode_encode_photo [OF tail v _ c, of ?g rest]
    by (auto simp: stored_def Let_def FileId_def)
qed

lemma decode_versioned:
  assumes p: "struct_pack [Fb, Fb] [Some mi, Some ma] = Inr v" and "0 \<le> ma" "0 \<le> mi"
    and e: "rle_encode (bs @ v) = Inr r"
  shows "FileId_decode (b64_encode r) =
    (if ma < 4 then decode_body ma 0 (bs @ [of_int mi]) else decode_body ma mi bs)"
proof -
  from p have v: "v = [of_int mi, of_int ma]" and lt: "ma < 128" "mi < 128"
    by (auto simp: fits_def split: if_splits)
  have u: "uint (of_int n :: byte) = n" if "0 \<le> n" "n < 128" for n
    using that by (simp add: uint_word_of_int take_bit_eq_mod)
  show ?thesis using rle_decode_encode [OF e] assms(2,3)
    by (simp add: FileId_decode_def v u lt butlast_append)
qed

lemma decode_encode_stored:
  assumes e: "FileId_encode ma_arg mi_arg f = Inr s" and u: "\<not> truthy (url f)"
    and ma: "ma = (case ma_arg of Some m \<Rightarrow> m | None \<Rightarrow> major f)"
    and mi: "mi = (case mi_arg of Some m \<Rightarrow> m | None \<Rightarrow> minor f)"
    and v: "version_ok ma mi f" and c: "\<forall>c \<in> set (thumbnail_size f). c < 0x110000"
  shows "FileId_decode s = Inr (stored ma mi f)"
proof -
  from e ma mi obtain bs vb r where b: "encode_body ma mi f = Inr bs"
      and p: "struct_pack [Fb, Fb] [Some mi, Some ma] = Inr vb"
      and r: "rle_encode (bs @ vb) = Inr r" and s: "s = b64_encode r"
    by (auto simp: FileId_encode_def Let_def res_simps simp del: struct_pack.simps)
  have nn: "0 \<le> ma" "0 \<le> mi" using v by (simp_all add: version_ok_def)
  show ?thesis
    using decode_encode_body [OF b v u c, of "[of_int mi]"] decode_encode_body [OF b v u c, of "[]"]
    by (auto simp: s decode_versioned [OF p nn r])
qed

lemma rle_b64_roundtrip: "rle_encode x = Inr r \<Longrightarrow> bind_res (b64_decode (b64_encode r)) (\<lambda>r. f (rle_decode r)) = f x"
  by (simp add: rle_decode_encode)

lemma unique_roundtrip:
  assumes "FileUniqueId_encode f = Inr s" "file_unique_type f \<noteq> FU_WEB"
  shows "FileUniqueId_decode s =
    Inr (if file_unique_type f = FU_PHOTO
         then (FileUniqueId FU_PHOTO)\<lparr>u_volume_id := u_volume_id f, u_local_id := u_local_id f\<rparr>
         else (FileUniqueId FU_DOCUMENT)\<lparr>u_media_id := u_media_id f\<rparr>)"
proof (cases "file_unique_type f")
  case FU_PHOTO
  with assms obtain vb x r where
      p: "struct_pack [Fi] [Some (FileUniqueType_value FU_PHOTO)] = Inr vb"
         "struct_pack [Fq, Fi] [u_volume_id f, u_local_id f] = Inr x"
      and r: "rle_encode (vb @ x) = Inr r" "s = b64_encode r"
    by (cases "u_volume_id f"; cases "u_local_id f")
      (auto simp: FileUniqueId_encode_def Let_def res_simps simp del: le_bytes_numeral split: if_splits)
  have "struct_unpack [Fq, Fi] x = Inr [the (u_volume_id f), the (u_local_id f)]"
    using struct_unpack_pack struct_pack_Some [OF p(2)] p(2) by (metis list.simps(8) list.simps(9))
  moreover have "unpack_from [Fi] (vb @ x) = Inr ([FileUniqueType_value FU_PHOTO], x)"
    using unpack_pack_the [OF p(1)] by simp
  moreover have "enum_of FileUniqueType_value FileUniqueTypes 1 = Inr FU_PHOTO"
    using FileUniqueType_of_value [of FU_PHOTO] by simp
  moreover obtain a b where "u_volume_id f = Some a" "u_local_id f = Some b"
    using struct_pack_given [OF p(2)] by fastforce
  ultimately show ?thesis
    using FU_PHOTO by (simp add: r(2) FileUniqueId_decode_def rle_decode_encode [OF r(1)] Let_def)
next
  case FU_DOCUMENT
  with assms obtain vb x r where
      p: "struct_pack [Fi] [Some (FileUniqueType_value FU_DOCUMENT)] = Inr vb"
         "struct_pack [Fq] [u_media_id f] = Inr x"
      and r: "rle_encode (vb @ x) = Inr r" "s = b64_encode r"
    by (cases "u_media_id f")
      (auto simp: FileUniqueId_encode_def Let_def res_simps simp del: le_bytes_numeral split: if_splits)
  have "struct_unpack [Fq] x = Inr [the (u_media_id f)]"
    using struct_unpack_pack struct_pack_Some [OF p(2)] p(2) by (metis list.simps(8) list.simps(9))
  moreover have "unpack_from [Fi] (vb @ x) = Inr ([FileUniqueType_value FU_DOCUMENT], x)"
    using unpack_pack_the [OF p(1)] by simp
  moreover have "enum_of FileUniqueType_value FileUniqueTypes 2 = Inr FU_DOCUMENT"
    using FileUniqueType_of_value [of FU_DOCUMENT] by simp
  moreover obtain a where "u_media_id f = Some a" using struct_pack_given [OF p(2)] by fastforce
  ultimately show ?thesis
    using FU_DOCUMENT by (simp add: r(2) FileUniqueId_decode_def rle_decode_encode [OF r(1)] Let_def)
qed (use assms in \<open>auto simp: FileUniqueId_encode_def\<close>)

lemma unpack_short: "length bs < fmts_size fs \<Longrightarrow> unpack_from fs bs = Inl StructError"
  by (simp add: unpack_from_def struct_unpack_def)

lemma read_n_Nil: "read_n n [] = ([], [])"
  by (simp add: read_n_def)

lemma Bytes_read_header: "fst (Bytes_read [b]) = []"
  by (simp add: Bytes_read_def Let_def read_n_Nil)

lemma encode_web_body:
  assumes e: "encode_body ma mi f = Inr bs" and u: "url f = Some w" "w \<noteq> []" "\<forall>c \<in> set w. scalar c"
    and r: "file_reference f = []"
  shows "decode_body ma mi' (bs @ rest) =
    Inr ((FileId ma mi' (file_type f) (dc_id f))\<lparr>url := Some w, access_hash := media_id f\<rparr>)"
proof -
  let ?t = "FileType_value (file_type f) OR WEB_LOCATION_FLAG"
  from e u r obtain hd ub ids tail where
      hd: "struct_pack [Fi, Fi] [Some ?t, Some (dc_id f)] = Inr hd"
    and ub: "String_new w = Inr ub"
    and ids: "struct_pack [Fq, Fq] [media_id f, access_hash f] = Inr ids"
    and bs: "bs = hd @ ub @ ids @ tail"
    by (auto simp: encode_body_def Let_def res_simps simp del: struct_pack.simps)
  from ids obtain m where m: "media_id f = Some m" using struct_pack_given [OF ids] by fastforce
  obtain h where h: "access_hash f = Some h" using struct_pack_given [OF ids] by fastforce
  from ids m h obtain x y where i: "struct_pack [Fq] [Some m] = Inr x" "ids = x @ y"
    by (auto simp del: le_bytes_numeral fmt_size.simps split: if_splits)
  have s: "String_read (ub @ r) = (w, r)" for r using string_codec.rd_wr [OF u(3) ub] by simp
  show ?thesis
    using unpack_pack_the [OF hd] unpack_pack_the [OF i(1)]
    by (simp add: decode_body_def bs i(2) Let_def type_word s m del: struct_pack.simps)
qed


section \<open>Properties\<close>

text \<open>C32: Decoding an encoded file identifier gives back the identifier as its layout stores it.
  For every file type, thumbnail source and version the format can express, with or without
  version overrides, a successful \<open>FileId.encode\<close> of an identifier that is not a web
  location is read by \<open>FileId.decode\<close> to the version of the text, the type, the data centre,
  the file reference, the identifiers and exactly the attributes that the source's layout has.\<close>

theorem FileId_decode_encode:
  assumes "FileId_encode ma_arg mi_arg f = Inr s" "\<not> truthy (url f)"
    and "ma = (case ma_arg of Some m \<Rightarrow> m | None \<Rightarrow> major f)"
    and "mi = (case mi_arg of Some m \<Rightarrow> m | None \<Rightarrow> minor f)"
    and "version_ok ma mi f" "\<forall>c \<in> set (thumbnail_size f). c < 0x110000"
  shows "FileId_decode s = Inr (stored ma mi f)"
  using assms by (rule decode_encode_stored)

definition fid_photo :: file_id where
  "fid_photo = (FileId 4 30 FT_PHOTO 2)\<lparr>file_reference := [1, 0, 0, 7], media_id := Some 5,
     access_hash := Some (- 3), volume_id := Some 200, local_id := Some 9,
     thumbnail_source := Some TS_THUMBNAIL, thumbnail_file_type := Some 2, thumbnail_size := [109]\<rparr>"

lemmas fid_defs = fid_photo_def FileId_def PHOTO_TYPES_def NO_VOLUME_AND_LOCAL_ID_MINOR_def
  FILE_REFERENCE_FLAG_def WEB_LOCATION_FLAG_def

lemma fid_photo_encodes: "\<exists>s. FileId_encode None None fid_photo = Inr s"
proof -
  have "\<exists>bs. encode_body 4 30 fid_photo = Inr bs \<and> length bs < 200"
    by (simp add: fid_defs encode_body_def encode_photo_def write_photo_tail_def Let_def fits_def
        Bytes_new_def py_ord_def pad_to_def)
  then obtain bs where b: "encode_body 4 30 fid_photo = Inr bs" "length bs < 200" by auto
  then obtain r where "rle_encode (bs @ [30, 4]) = Inr r" using rle_encode_short [of "bs @ [30, 4]"] by auto
  with b show ?thesis by (simp add: FileId_encode_def fid_photo_def FileId_def Let_def fits_def)
qed

theorem FileId_decode_encode_witness:
  "\<exists>s. FileId_encode None None fid_photo = Inr s \<and> FileId_decode s = Inr (stored 4 30 fid_photo) \<and>
     stored 4 30 fid_photo = fid_photo"
proof -
  obtain s where s: "FileId_encode None None fid_photo = Inr s" using fid_photo_encodes by auto
  have "FileId_decode s = Inr (stored 4 30 fid_photo)"
    by (rule FileId_decode_encode [OF s]) (simp_all add: fid_photo_def FileId_def version_ok_def)
  moreover have "stored 4 30 fid_photo = fid_photo"
    by (simp add: stored_def fid_defs Let_def with_tail_def PhotoTail_def)
  ultimately show ?thesis using s by auto
qed

text \<open>A photo or document unique identifier survives encoding: whenever
  \<open>FileUniqueId.encode\<close> returns for a type other than \<open>WEB\<close>, \<open>FileUniqueId.decode\<close> gives
  back the type with its volume and local identifiers, or its media identifier.\<close>

theorem FileUniqueId_decode_encode:
  assumes "FileUniqueId_encode f = Inr s" "file_unique_type f \<noteq> FU_WEB"
  shows "FileUniqueId_decode s =
    Inr (if file_unique_type f = FU_PHOTO
         then (FileUniqueId FU_PHOTO)\<lparr>u_volume_id := u_volume_id f, u_local_id := u_local_id f\<rparr>
         else (FileUniqueId FU_DOCUMENT)\<lparr>u_media_id := u_media_id f\<rparr>)"
  using assms by (rule unique_roundtrip)

theorem FileUniqueId_decode_encode_witness:
  "\<exists>s. FileUniqueId_encode ((FileUniqueId FU_DOCUMENT)\<lparr>u_media_id := Some 77\<rparr>) = Inr s \<and>
     FileUniqueId_decode s = Inr ((FileUniqueId FU_DOCUMENT)\<lparr>u_media_id := Some 77\<rparr>)"
proof -
  let ?f = "(FileUniqueId FU_DOCUMENT)\<lparr>u_media_id := Some 77\<rparr>"
  have "\<exists>x. struct_pack [Fi, Fq] [Some 2, Some 77] = Inr x \<and> length x < 200"
    by (simp add: fits_def)
  then obtain x r where x: "struct_pack [Fi, Fq] [Some 2, Some 77] = Inr x" "rle_encode x = Inr r"
    using rle_encode_short by fastforce
  then have e: "FileUniqueId_encode ?f = Inr (b64_encode r)"
    by (simp add: FileUniqueId_encode_def FileUniqueId_def Let_def del: struct_pack.simps)
  show ?thesis using FileUniqueId_decode_encode [OF e] e by (simp add: FileUniqueId_def)
qed

text \<open>A web unique identifier does not carry its URL. The format \<open>"<is"\<close> packs one byte of
  the serialised string, so that whatever URL \<open>FileUniqueId.encode\<close> was given, the text it
  returns decodes to a web identifier with an empty URL.\<close>

theorem FileUniqueId_web_loses_url:
  assumes "FileUniqueId_encode f = Inr s" "file_unique_type f = FU_WEB"
  shows "FileUniqueId_decode s = Inr ((FileUniqueId FU_WEB)\<lparr>u_url := Some []\<rparr>)"
proof -
  from assms obtain b h r where p: "struct_pack [Fi] [Some 0] = Inr h"
      "rle_encode (h @ take 1 b @ replicate (1 - length b) 0) = Inr r" "s = b64_encode r"
    by (auto simp: FileUniqueId_encode_def Let_def res_simps simp del: struct_pack.simps split: option.splits)
  have "length (take 1 b @ replicate (1 - length b) 0) = 1" by (cases b) simp_all
  then obtain c where c: "take 1 b @ replicate (1 - length b) 0 = [c]" by (metis One_nat_def length_0_conv length_Suc_conv)
  have "fst (String_read [c]) = []"
    using Bytes_read_header [of c] by (auto simp: String_read_def utf8_decode_def split: prod.splits)
  moreover have "enum_of FileUniqueType_value FileUniqueTypes 0 = Inr FU_WEB"
    using FileUniqueType_of_value [of FU_WEB] by simp
  ultimately show ?thesis
    using unpack_pack_the [OF p(1), of "[c]"] rle_decode_encode [OF p(2)] unfolding c
    by (auto simp: p(3) FileUniqueId_decode_def split: prod.splits simp del: struct_pack.simps)
qed

theorem FileUniqueId_web_loses_url_witness:
  "\<exists>s. FileUniqueId_encode ((FileUniqueId FU_WEB)\<lparr>u_url := Some [104, 105]\<rparr>) = Inr s \<and>
     FileUniqueId_decode s = Inr ((FileUniqueId FU_WEB)\<lparr>u_url := Some []\<rparr>)"
proof -
  have "\<exists>s. FileUniqueId_encode ((FileUniqueId FU_WEB)\<lparr>u_url := Some [104, 105]\<rparr>) = Inr s"
    by (simp add: FileUniqueId_encode_def FileUniqueId_def Let_def String_new_def utf8_encode_def
        utf8_char_def Bytes_new_def fits_def rle_encode_def py_bytes_def)
  then show ?thesis using FileUniqueId_web_loses_url by (fastforce simp: FileUniqueId_def)
qed

text \<open>A web location comes back with its media identifier as its access hash.
  \<open>FileId.encode\<close> writes the media identifier and the access hash after the URL, and
  \<open>FileId.decode\<close> reads one number there: the URL survives, the access hash is replaced.\<close>

theorem FileId_web_access_hash:
  assumes "FileId_encode None None f = Inr s"
    and "url f = Some w" "w \<noteq> []" "\<forall>c \<in> set w. scalar c" "file_reference f = []"
    and "4 \<le> major f" "0 \<le> minor f"
  shows "FileId_decode s =
    Inr ((FileId (major f) (minor f) (file_type f) (dc_id f))\<lparr>url := Some w, access_hash := media_id f\<rparr>)"
proof -
  from assms(1) obtain bs vb r where b: "encode_body (major f) (minor f) f = Inr bs"
      and p: "struct_pack [Fb, Fb] [Some (minor f), Some (major f)] = Inr vb"
      and r: "rle_encode (bs @ vb) = Inr r" and s: "s = b64_encode r"
    by (auto simp: FileId_encode_def Let_def res_simps simp del: struct_pack.simps)
  have "0 \<le> major f" using assms(6) by simp
  from decode_versioned [OF p this assms(7) r] encode_web_body [OF b assms(2-5), of _ "[]"]
  show ?thesis using assms(6) by (simp add: s)
qed

definition fid_web :: file_id where
  "fid_web = (FileId 4 30 FT_DOCUMENT 2)\<lparr>url := Some [104], media_id := Some 5, access_hash := Some 6\<rparr>"

lemma fid_web_encodes: "\<exists>s. FileId_encode None None fid_web = Inr s"
proof -
  have "\<exists>bs. encode_body 4 30 fid_web = Inr bs \<and> length bs < 200"
    by (simp add: fid_defs fid_web_def encode_body_def Let_def fits_def String_new_def
        utf8_encode_def utf8_char_def Bytes_new_def pad_to_def DOCUMENT_TYPES_def FileTypes_def)
  then obtain bs where b: "encode_body 4 30 fid_web = Inr bs" "length bs < 200" by auto
  then obtain r where "rle_encode (bs @ [30, 4]) = Inr r" using rle_encode_short [of "bs @ [30, 4]"] by auto
  with b show ?thesis by (simp add: FileId_encode_def fid_web_def FileId_def Let_def fits_def)
qed

theorem FileId_web_access_hash_witness:
  "\<exists>s f. FileId_encode None None fid_web = Inr s \<and> FileId_decode s = Inr f \<and>
     access_hash f = Some 5 \<and> access_hash fid_web = Some 6"
proof -
  obtain s where s: "FileId_encode None None fid_web = Inr s" using fid_web_encodes by auto
  have "FileId_decode s = Inr ((FileId (major fid_web) (minor fid_web) (file_type fid_web) (dc_id fid_web))
      \<lparr>url := Some [104], access_hash := media_id fid_web\<rparr>)"
    by (rule FileId_web_access_hash [OF s]) (simp_all add: fid_web_def FileId_def scalar_def surrogate_def)
  with s show ?thesis by (simp add: fid_web_def FileId_def)
qed

end
