(* ===== verification/Ciphers.thy ===== *)
theory Ciphers
  imports Prelude
begin

text \<open>
  \<open>pyrogram/crypto/aes.py\<close>: the block chaining mode IGE and the counter mode CTR that
  the client falls back to when the native module is missing. The block cipher itself
  (\<open>pyaes.AES(key).encrypt\<close> and \<open>.decrypt\<close>, third-party code) is a pair of parameters
  \<open>E\<close> and \<open>D\<close> taking the key and a block of 16 bytes.
\<close>

section \<open>Exclusive or of byte strings\<close>

text \<open>\<open>xor\<close> goes through big-endian integers and back to \<open>len(a)\<close> bytes.\<close>

definition xor_bytes :: "bytes \<Rightarrow> bytes \<Rightarrow> bytes res" where
  "xor_bytes a b = to_bytes_be (length a) False (be_int a XOR be_int b)"

text \<open>The reference: byte by byte.\<close>

definition xor_each :: "bytes \<Rightarrow> bytes \<Rightarrow> bytes" where
  "xor_each a b = map2 (XOR) a b"

lemma length_xor_each [simp]: "length (xor_each a b) = min (length a) (length b)"
  by (simp add: xor_each_def)

lemma xor_each_cancel: "length a = length b \<Longrightarrow> xor_each (xor_each a b) b = a"
  by (induction a b rule: list_induct2) (simp_all add: xor_each_def xor.assoc)

lemma xor_each_commute: "xor_each a b = xor_each b a"
  by (induction a b rule: list_induct2') (simp_all add: xor_each_def xor.commute)

lemma le_int_Cons_concat_bit: "le_int (b # bs) = concat_bit 8 (uint b) (le_int bs)"
  using uint_byte_lt [of b]
  by (simp add: concat_bit_eq push_bit_eq_mult take_bit_eq_mod mod_pos_pos_trivial)

lemma concat_bit_xor:
  "concat_bit n a b XOR concat_bit n c d = concat_bit n (a XOR c) (b XOR d :: int)"
  by (rule bit_eqI) (auto simp: bit_xor_iff bit_concat_bit_iff)

lemma le_int_xor: "length a = length b \<Longrightarrow> le_int a XOR le_int b = le_int (xor_each a b)"
proof (induction a b rule: list_induct2)
  case (Cons x xs y ys)
  then show ?case
    by (simp add: le_int_Cons_concat_bit concat_bit_xor xor_each_def unsigned_xor_eq del: le_int.simps)
qed (simp add: xor_each_def)

lemma rev_xor_each: "length a = length b \<Longrightarrow> rev (xor_each a b) = xor_each (rev a) (rev b)"
  by (simp add: xor_each_def zip_rev rev_map)

lemma be_int_xor: "length a = length b \<Longrightarrow> be_int a XOR be_int b = be_int (xor_each a b)"
  by (simp add: be_int_def le_int_xor rev_xor_each)

lemma xor_bytes_each: "length a = length b \<Longrightarrow> xor_bytes a b = Inr (xor_each a b)"
  using be_int_less [of "xor_each a b"] be_bytes_be_int [of "xor_each a b"]
  by (simp add: xor_bytes_def to_bytes_be_def fits_def be_int_xor)


section \<open>IGE\<close>

text \<open>A block operation of \<open>pyaes\<close> refuses anything but 16 bytes.\<close>

definition aes_block :: "(bytes \<Rightarrow> bytes) \<Rightarrow> bytes \<Rightarrow> bytes res" where
  "aes_block f b = (if length b = 16 then Inr (f b) else Inl ValueError)"

fun ige_encrypt_loop :: "(bytes \<Rightarrow> bytes) \<Rightarrow> bytes \<Rightarrow> bytes \<Rightarrow> bytes list \<Rightarrow> bytes list res" where
  "ige_encrypt_loop e iv_1 iv_2 [] = Inr []"
| "ige_encrypt_loop e iv_1 iv_2 (chunk # data) =
     bind_res (xor_bytes chunk iv_1) (\<lambda>x.
     bind_res (aes_block e x) (\<lambda>y.
     bind_res (xor_bytes y iv_2) (\<lambda>c.
     bind_res (ige_encrypt_loop e c chunk data) (\<lambda>cs. Inr (c # cs)))))"

fun ige_decrypt_loop :: "(bytes \<Rightarrow> bytes) \<Rightarrow> bytes \<Rightarrow> bytes \<Rightarrow> bytes list \<Rightarrow> bytes list res" where
  "ige_decrypt_loop d iv_1 iv_2 [] = Inr []"
| "ige_decrypt_loop d iv_1 iv_2 (chunk # data) =
     bind_res (xor_bytes chunk iv_2) (\<lambda>x.
     bind_res (aes_block d x) (\<lambda>y.
     bind_res (xor_bytes y iv_1) (\<lambda>c.
     bind_res (ige_decrypt_loop d chunk c data) (\<lambda>cs. Inr (c # cs)))))"

definition ige256_encrypt :: "(bytes \<Rightarrow> bytes \<Rightarrow> bytes) \<Rightarrow> bytes \<Rightarrow> bytes \<Rightarrow> bytes \<Rightarrow> bytes res" where
  "ige256_encrypt E data key iv =
     bind_res (ige_encrypt_loop (E key) (take 16 iv) (drop 16 iv) (chunks_of 16 data))
       (\<lambda>cs. Inr (concat cs))"

definition ige256_decrypt :: "(bytes \<Rightarrow> bytes \<Rightarrow> bytes) \<Rightarrow> bytes \<Rightarrow> bytes \<Rightarrow> bytes \<Rightarrow> bytes res" where
  "ige256_decrypt D data key iv =
     bind_res (ige_decrypt_loop (D key) (take 16 iv) (drop 16 iv) (chunks_of 16 data))
       (\<lambda>cs. Inr (concat cs))"

text \<open>What the code relies on: decrypting a block undoes encrypting it, and blocks keep their size.\<close>

definition block_cipher :: "(bytes \<Rightarrow> bytes \<Rightarrow> bytes) \<Rightarrow> (bytes \<Rightarrow> bytes \<Rightarrow> bytes) \<Rightarrow> bool" where
  "block_cipher E D \<longleftrightarrow>
     (\<forall>k b. length b = 16 \<longrightarrow> length (E k b) = 16 \<and> length (D k b) = 16 \<and> D k (E k b) = b)"

lemma block_cipherD:
  assumes "block_cipher E D" "length b = 16"
  shows "length (E k b) = 16" "length (D k b) = 16" "D k (E k b) = b"
  using assms by (simp_all add: block_cipher_def)

lemma ige_loop_roundtrip:
  assumes c: "block_cipher E D"
  shows "length iv_1 = 16 \<Longrightarrow> length iv_2 = 16 \<Longrightarrow> list_all (\<lambda>b. length b = 16) data \<Longrightarrow>
    \<exists>cs. ige_encrypt_loop (E k) iv_1 iv_2 data = Inr cs \<and> length cs = length data \<and>
      list_all (\<lambda>b. length b = 16) cs \<and> ige_decrypt_loop (D k) iv_1 iv_2 cs = Inr data"
proof (induction data arbitrary: iv_1 iv_2)
  case (Cons chunk data)
  let ?y = "E k (xor_each chunk iv_1)"
  let ?c = "xor_each ?y iv_2"
  have y: "length ?y = 16" using Cons.prems block_cipherD(1) [OF c] by simp
  have xx: "D k (xor_each ?c iv_2) = xor_each chunk iv_1"
    using y Cons.prems block_cipherD(3) [OF c] by (simp add: xor_each_cancel)
  have "length ?c = 16" using y Cons.prems by simp
  moreover obtain cs where cs: "ige_encrypt_loop (E k) ?c chunk data = Inr cs" "length cs = length data"
      "list_all (\<lambda>b. length b = 16) cs" "ige_decrypt_loop (D k) ?c chunk cs = Inr data"
    using Cons.IH [of ?c chunk] Cons.prems y by auto
  ultimately show ?case
    using Cons.prems y xx by (simp add: xor_bytes_each aes_block_def xor_each_cancel)
qed simp

lemma concat_length_16: "list_all (\<lambda>b. length b = 16) cs \<Longrightarrow> length (concat cs) = 16 * length cs"
  by (induction cs) simp_all

lemma chunks_of_16:
  assumes "16 dvd length data"
  shows "list_all (\<lambda>b. length b = 16) (chunks_of 16 data)"
  using chunks_of_length_eq [OF assms] by (simp add: list_all_iff)

lemma ige_roundtrip:
  assumes c: "block_cipher E D" and l: "length iv = 32" "16 dvd length data"
  shows "\<exists>x. ige256_encrypt E data key iv = Inr x \<and> length x = length data \<and>
    ige256_decrypt D x key iv = Inr data"
proof -
  have iv: "length (take 16 iv) = 16" "length (drop 16 iv) = 16" using l by simp_all
  obtain cs where cs: "ige_encrypt_loop (E key) (take 16 iv) (drop 16 iv) (chunks_of 16 data) = Inr cs"
      "length cs = length (chunks_of 16 data)" "list_all (\<lambda>b. length b = 16) cs"
      "ige_decrypt_loop (D key) (take 16 iv) (drop 16 iv) cs = Inr (chunks_of 16 data)"
    using ige_loop_roundtrip [OF c iv chunks_of_16 [OF l(2)], where k = key] by auto
  have "length (concat cs) = length data"
    using concat_length_16 [OF cs(3)] concat_length_16 [OF chunks_of_16 [OF l(2)]] cs(2) by simp
  moreover have "chunks_of 16 (concat cs) = cs"
    using cs(3) by (intro chunks_of_concat) (simp_all add: list_all_iff)
  ultimately show ?thesis
    using cs(1,4) by (simp add: ige256_encrypt_def ige256_decrypt_def)
qed


section \<open>CTR\<close>

text \<open>
  The counter is the 16-byte \<open>iv\<close>, incremented in place from its last byte: a byte that
  overflows becomes zero and the carry goes on to the left. \<open>state\<close> (here \<open>ctr_pos\<close>) is the position in the
  current key-stream block. Both live in the caller's buffers, so that the next call goes on
  where the last one stopped.
\<close>

fun carry_increment :: "bytes \<Rightarrow> bytes" where
  "carry_increment [] = []"
| "carry_increment (b # bs) = (if b = 255 then 0 # carry_increment bs else (b + 1) # bs)"

definition increment_iv :: "bytes \<Rightarrow> bytes" where
  "increment_iv iv = rev (carry_increment (rev iv))"

record ctr_state =
  ctr_iv :: bytes
  ctr_pos :: nat

text \<open>One byte, then the loop over the data; \<open>e\<close> is the block cipher under the key.\<close>

definition ctr_advance :: "ctr_state \<Rightarrow> ctr_state" where
  "ctr_advance s =
     (let n = (if ctr_pos s + 1 \<ge> 16 then 0 else ctr_pos s + 1) in
      if n = 0 then s\<lparr>ctr_pos := n, ctr_iv := increment_iv (ctr_iv s)\<rparr> else s\<lparr>ctr_pos := n\<rparr>)"

fun ctr_loop :: "(bytes \<Rightarrow> bytes) \<Rightarrow> bytes \<Rightarrow> ctr_state \<Rightarrow> bytes \<Rightarrow> bytes \<times> ctr_state" where
  "ctr_loop e chunk s [] = ([], s)"
| "ctr_loop e chunk s (b # data) =
     (let s1 = ctr_advance s;
          chunk1 = (if ctr_pos s1 = 0 then e (ctr_iv s1) else chunk);
          (out, s2) = ctr_loop e chunk1 s1 data
      in ((b XOR chunk ! ctr_pos s) # out, s2))"

definition ctr256_encrypt :: "(bytes \<Rightarrow> bytes \<Rightarrow> bytes) \<Rightarrow> bytes \<Rightarrow> ctr_state \<Rightarrow> bytes \<Rightarrow> bytes \<times> ctr_state" where
  "ctr256_encrypt E key s data = ctr_loop (E key) (E key (ctr_iv s)) s data"

definition ctr256_decrypt :: "(bytes \<Rightarrow> bytes \<Rightarrow> bytes) \<Rightarrow> bytes \<Rightarrow> ctr_state \<Rightarrow> bytes \<Rightarrow> bytes \<times> ctr_state" where
  "ctr256_decrypt E key s data = ctr_loop (E key) (E key (ctr_iv s)) s data"

subsection \<open>The counter\<close>

lemma length_carry_increment [simp]: "length (carry_increment bs) = length bs"
  by (induction bs) auto

lemma length_increment_iv [simp]: "length (increment_iv v) = length v"
  by (simp add: increment_iv_def)

lemma uint_255_byte: "uint (255 :: byte) = 255"
  by (simp add: take_bit_eq_mod)

lemma uint_255: "(b :: byte) = 255 \<longleftrightarrow> uint b = 255"
  by (metis uint_255_byte word_uint_eqI)

lemma uint_byte_inc: "(b :: byte) \<noteq> 255 \<Longrightarrow> uint (b + 1) = uint b + 1"
proof -
  assume a: "b \<noteq> 255"
  have "uint b \<noteq> 255" using a by (simp add: uint_255)
  then have "uint b + 1 < 256" using uint_byte_lt [of b] by linarith
  then show ?thesis by (simp add: uint_word_ariths mod_pos_pos_trivial)
qed

lemma le_int_carry_increment: "le_int (carry_increment bs) = (le_int bs + 1) mod 256 ^ length bs"
proof (induction bs)
  case (Cons b bs)
  show ?case
  proof (cases "b = 255")
    case True
    then have u: "uint b = 255" by (simp add: uint_255)
    have "(uint b + 256 * le_int bs + 1) mod (256 * 256 ^ length bs)
        = 256 * ((le_int bs + 1) mod 256 ^ length bs)"
      by (simp add: u mult_mod_right algebra_simps)
    with True Cons show ?thesis by (simp del: uint_255_byte)
  next
    case False
    have "uint b \<noteq> 255" using False by (simp add: uint_255)
    then have "uint b + 1 < 256" using uint_byte_lt [of b] by linarith
    moreover have "le_int bs < 256 ^ length bs" by (rule le_int_less)
    ultimately have "uint b + 256 * le_int bs + 1 < 256 * 256 ^ length bs" by linarith
    then show ?thesis using False by (simp add: uint_byte_inc mod_pos_pos_trivial)
  qed
qed simp

lemma be_int_increment_iv: "be_int (increment_iv v) = (be_int v + 1) mod 256 ^ length v"
  using le_int_carry_increment [of "rev v"] by (simp add: be_int_def increment_iv_def)

subsection \<open>The key stream\<close>

text \<open>The reference: the bytes of the encrypted counters, one after the other.\<close>

definition ctr_byte :: "(bytes \<Rightarrow> bytes) \<Rightarrow> ctr_state \<Rightarrow> byte" where
  "ctr_byte e s = e (ctr_iv s) ! ctr_pos s"

fun key_stream :: "(bytes \<Rightarrow> bytes) \<Rightarrow> ctr_state \<Rightarrow> nat \<Rightarrow> bytes" where
  "key_stream e s 0 = []"
| "key_stream e s (Suc n) = ctr_byte e s # key_stream e (ctr_advance s) n"

lemma length_key_stream [simp]: "length (key_stream e s n) = n"
  by (induction n arbitrary: s) auto

lemma ctr_advance_bound: "ctr_pos s < 16 \<Longrightarrow> ctr_pos (ctr_advance s) < 16"
  by (simp add: ctr_advance_def Let_def)

lemma ctr_advance_block: "ctr_pos (ctr_advance s) \<noteq> 0 \<Longrightarrow> ctr_iv (ctr_advance s) = ctr_iv s"
  by (auto simp: ctr_advance_def Let_def split: if_splits)

lemma ctr_loop_key_stream:
  "ctr_loop e (e (ctr_iv s)) s data =
     (xor_each data (key_stream e s (length data)), (ctr_advance ^^ length data) s)"
proof (induction data arbitrary: s)
  case (Cons b data)
  have "(if ctr_pos (ctr_advance s) = 0 then e (ctr_iv (ctr_advance s)) else e (ctr_iv s))
      = e (ctr_iv (ctr_advance s))"
    by (simp add: ctr_advance_block)
  with Cons [of "ctr_advance s"] show ?case
    by (simp add: Let_def xor_each_def ctr_byte_def funpow_Suc_right del: funpow.simps)
qed (simp add: xor_each_def)

lemma key_stream_append:
  "key_stream e s (m + n) = key_stream e s m @ key_stream e ((ctr_advance ^^ m) s) n"
  by (induction m arbitrary: s) (simp_all add: funpow_Suc_right del: funpow.simps)

lemma xor_each_append:
  "length a = length c \<Longrightarrow> xor_each (a @ b) (c @ d) = xor_each a c @ xor_each b d"
  by (simp add: xor_each_def)

text \<open>A sender that ciphers packets one by one, and a receiver that deciphers its reads.\<close>

fun run_all :: "('s \<Rightarrow> bytes \<Rightarrow> bytes \<times> 's) \<Rightarrow> 's \<Rightarrow> bytes list \<Rightarrow> bytes list \<times> 's" where
  "run_all run s [] = ([], s)"
| "run_all run s (p # ps) =
     (let (c, s1) = run s p; (cs, s2) = run_all run s1 ps in (c # cs, s2))"

text \<open>
  The contract of a stateful stream cipher on which the obfuscated transports rest: what is
  ciphered in pieces is the cipher of the whole, and a second cipher started in the same
  state undoes it.
\<close>

locale stream_cipher =
  fixes run :: "'s \<Rightarrow> bytes \<Rightarrow> bytes \<times> 's"
  assumes run_Nil: "run s [] = ([], s)"
    and run_append:
      "run s (a @ b) = (fst (run s a) @ fst (run (snd (run s a)) b), snd (run (snd (run s a)) b))"
    and run_involution: "run s (fst (run s a)) = (a, snd (run s a))"
begin

lemma run_all_concat: "run s (concat ps) = (concat (fst (run_all run s ps)), snd (run_all run s ps))"
  by (induction ps arbitrary: s) (simp_all add: run_Nil run_append Let_def split_beta)

lemma recut:
  assumes "concat rs = concat (fst (run_all run s ps))"
  shows "concat (fst (run_all run s rs)) = concat ps"
proof -
  have "concat (fst (run_all run s rs)) = fst (run s (concat rs))"
    by (simp add: run_all_concat)
  also have "\<dots> = fst (run s (fst (run s (concat ps))))"
    using assms by (simp add: run_all_concat)
  finally show ?thesis by (simp add: run_involution)
qed

end

interpretation ctr: stream_cipher "ctr256_encrypt E key" for E key
proof unfold_locales
  fix s a b
  show "ctr256_encrypt E key s [] = ([], s)" by (simp add: ctr256_encrypt_def)
  show "ctr256_encrypt E key s (a @ b) =
    (fst (ctr256_encrypt E key s a) @ fst (ctr256_encrypt E key (snd (ctr256_encrypt E key s a)) b),
     snd (ctr256_encrypt E key (snd (ctr256_encrypt E key s a)) b))"
    unfolding ctr256_encrypt_def ctr_loop_key_stream length_append key_stream_append fst_conv snd_conv
    using funpow_add [of "length b" "length a" ctr_advance]
    by (simp add: xor_each_append add.commute)
  show "ctr256_encrypt E key s (fst (ctr256_encrypt E key s a)) = (a, snd (ctr256_encrypt E key s a))"
    by (simp add: ctr256_encrypt_def ctr_loop_key_stream xor_each_cancel)
qed



section \<open>Properties\<close>

text \<open>IGE decryption undoes IGE encryption. For every block cipher, a 32-byte initialisation
  vector and data of whole blocks, \<open>ige256_encrypt\<close> returns a text of the same length and
  \<open>ige256_decrypt\<close> of it returns the data.\<close>

theorem ige256_decrypt_encrypt:
  assumes "block_cipher E D" "length iv = 32" "16 dvd length data"
  shows "\<exists>x. ige256_encrypt E data key iv = Inr x \<and> length x = length data \<and>
    ige256_decrypt D x key iv = Inr data"
  using assms by (rule ige_roundtrip)

lemma rev_block_cipher: "block_cipher (\<lambda>k. rev) (\<lambda>k. rev)"
  by (simp add: block_cipher_def)

theorem ige256_decrypt_encrypt_witness:
  "\<exists>x. ige256_encrypt (\<lambda>k. rev) (replicate 32 7) [] (replicate 32 1) = Inr x \<and> length x = 32 \<and>
    ige256_decrypt (\<lambda>k. rev) x [] (replicate 32 1) = Inr (replicate 32 7)"
  using ige256_decrypt_encrypt [OF rev_block_cipher, of "replicate 32 1" "replicate 32 7" "[]"]
  by simp

text \<open>A CTR stream may be cut anywhere. A sender ciphers packets one after the other, each
  call going on from the counter and the position the last one left; a receiver that starts
  from the same state and deciphers the stream in pieces of its own gets the packets' bytes.\<close>

theorem ctr256_recut:
  assumes "concat reads = concat (fst (run_all (ctr256_encrypt E key) s packets))"
  shows "concat (fst (run_all (ctr256_decrypt E key) s reads)) = concat packets"
proof -
  have "ctr256_decrypt E key = ctr256_encrypt E key"
    by (intro ext) (simp add: ctr256_encrypt_def ctr256_decrypt_def)
  with ctr.recut [OF assms] show ?thesis by simp
qed

theorem ctr256_recut_witness:
  "concat (fst (run_all (ctr256_decrypt (\<lambda>k b. b) []) \<lparr>ctr_iv = [0,1,2,3,4,5,6,7,8,9,10,11,12,13,14,255], ctr_pos = 14\<rparr>
     [[15], [254, 2, 4]])) = concat [[1, 1, 2], [5]]"
  by (rule ctr256_recut)
    (simp add: ctr256_encrypt_def ctr_advance_def Let_def increment_iv_def)

text \<open>The counter of CTR is a 128-bit big-endian number: the in-place increment with carry
  adds one modulo two to the 128, keeps the length and, over a whole call, the position in the
  block stays below 16.\<close>

theorem ctr_counter:
  assumes "length (ctr_iv s) = 16" "ctr_pos s < 16"
  shows "length (ctr_iv (ctr_advance s)) = 16 \<and> ctr_pos (ctr_advance s) < 16 \<and>
    16 * be_int (ctr_iv (ctr_advance s)) + int (ctr_pos (ctr_advance s)) =
      (16 * be_int (ctr_iv s) + int (ctr_pos s) + 1) mod (16 * 2 ^ 128)"
proof -
  have b: "be_int (ctr_iv s) < 2 ^ 128" using be_int_less [of "ctr_iv s"] assms(1) by simp
  have nn: "0 \<le> be_int (ctr_iv s)" by simp
  show ?thesis
  proof (cases "ctr_pos s = 15")
    case True
    have "16 * ((be_int (ctr_iv s) + 1) mod 2 ^ 128) = (16 * (be_int (ctr_iv s) + 1)) mod (16 * 2 ^ 128)"
      by (rule mult_mod_right)
    with True assms show ?thesis by (simp add: ctr_advance_def be_int_increment_iv algebra_simps)
  next
    case False
    with assms(2) have "int (ctr_pos s) + 1 < 16" by simp
    then have "16 * be_int (ctr_iv s) + int (ctr_pos s) + 1 < 16 * 2 ^ 128" using b by linarith
    with False assms nn show ?thesis by (simp add: ctr_advance_def Let_def mod_pos_pos_trivial)
  qed
qed

theorem ctr_counter_witness:
  "16 * be_int (ctr_iv (ctr_advance \<lparr>ctr_iv = [255,255,255,255,255,255,255,255,255,255,255,255,255,255,255,255], ctr_pos = 15\<rparr>)) = 0"
  using ctr_counter [of "\<lparr>ctr_iv = [255,255,255,255,255,255,255,255,255,255,255,255,255,255,255,255], ctr_pos = 15\<rparr>"]
  by (simp add: ctr_advance_def be_int_def uint_255_byte increment_iv_def)

end
