(* ===== verification/Framing.thy ===== *)
theory Framing
  imports Ciphers
begin

text \<open>
  The byte streams and the packet framings of \<open>connection/transport/tcp\<close>: the reads from
  the socket (\<open>tcp.py\<close>), the records of the fake TLS layer (\<open>faketls_records.py\<close>), the
  ciphered streams, and the five framings (\<open>tcp_abridged.py\<close>, \<open>tcp_intermediate.py\<close>,
  \<open>tcp_intermediate_padded.py\<close>, \<open>tcp_full.py\<close> and the obfuscated variants). A read
  returns \<open>None\<close> when the connection is closed, times out or fails; an exception is an
  \<open>Inl\<close>.
\<close>

type_synonym 's recv = "int \<Rightarrow> 's \<Rightarrow> (bytes option \<times> 's) res"

section \<open>Reading from the socket\<close>

text \<open>
  What the stream reader will deliver, in order: pieces of any size, a wait that times out, a
  failed read; after the last one the connection is closed. \<open>_recv_from_socket\<close> asks for
  what is still missing, so that a longer piece stays in the reader.
\<close>

datatype arrival = Arrived bytes | TimedOut | Failed

type_synonym socket = "arrival list"

fun recv_loop :: "nat \<Rightarrow> bytes \<Rightarrow> socket \<Rightarrow> bytes option \<times> socket" where
  "recv_loop len data [] = (if length data < len then (None, []) else (Some data, []))"
| "recv_loop len data (a # s) =
     (if length data < len then
        (case a of
           Arrived chunk \<Rightarrow>
             (let k = len - length data in
              if length chunk \<le> k then recv_loop len (data @ chunk) s
              else (Some (data @ take k chunk), Arrived (drop k chunk) # s))
         | TimedOut \<Rightarrow> (None, s)
         | Failed \<Rightarrow> (None, s))
      else (Some data, a # s))"

definition recv_from_socket :: "socket recv" where
  "recv_from_socket len s = Inr (recv_loop (nat len) [] s)"

fun sock_bytes :: "socket \<Rightarrow> bytes" where
  "sock_bytes [] = []"
| "sock_bytes (Arrived c # s) = c @ sock_bytes s"
| "sock_bytes (TimedOut # s) = sock_bytes s"
| "sock_bytes (Failed # s) = sock_bytes s"

definition healthy :: "socket \<Rightarrow> bool" where
  "healthy s = list_all (\<lambda>a. case a of Arrived _ \<Rightarrow> True | _ \<Rightarrow> False) s"

lemma recv_loop_Some:
  "recv_loop len data s = (Some d, s') \<Longrightarrow> length data \<le> len \<Longrightarrow>
   length d = len \<and> data @ sock_bytes s = d @ sock_bytes s'"
  by (induction len data s rule: recv_loop.induct)
    (auto simp: Let_def split: if_splits arrival.splits)

lemma recv_loop_healthy:
  "healthy s \<Longrightarrow> length data \<le> len \<Longrightarrow> len \<le> length data + length (sock_bytes s) \<Longrightarrow>
   \<exists>d s'. recv_loop len data s = (Some d, s') \<and> healthy s'"
  by (induction len data s rule: recv_loop.induct)
    (auto simp: Let_def healthy_def split: if_splits arrival.splits)

lemma recv_from_socket_Some:
  "recv_from_socket len s = Inr (Some d, s') \<Longrightarrow>
   length d = nat len \<and> sock_bytes s = d @ sock_bytes s'"
  using recv_loop_Some [of "nat len" "[]" s d s'] by (simp add: recv_from_socket_def)


section \<open>The interface of a byte stream\<close>

text \<open>
  What a framing relies on: while bytes are left, a read of so many returns exactly the next
  ones and leaves the rest. \<open>inv\<close> is the state of a connection that works.
\<close>

locale byte_stream =
  fixes recv :: "'s recv"
    and inv :: "'s \<Rightarrow> bool"
    and stream :: "'s \<Rightarrow> bytes"
  assumes recv_take:
    "inv s \<Longrightarrow> stream s = d @ rest \<Longrightarrow> n = int (length d) \<Longrightarrow>
     \<exists>s'. recv n s = Inr (Some d, s') \<and> inv s' \<and> stream s' = rest"

interpretation socket_stream: byte_stream recv_from_socket healthy sock_bytes
proof unfold_locales
  fix s d rest and n :: int
  assume h: "healthy s" and b: "sock_bytes s = d @ rest" and n: "n = int (length d)"
  then obtain x s' where x: "recv_loop (nat n) [] s = (Some x, s')" "healthy s'"
    using recv_loop_healthy [of s "[]" "nat n"] by auto
  from recv_loop_Some [OF x(1)] have "length x = length d" "x @ sock_bytes s' = d @ rest"
    using n b by simp_all
  then have "x = d \<and> sock_bytes s' = rest" by simp
  with x show "\<exists>s'. recv_from_socket n s = Inr (Some d, s') \<and> healthy s' \<and> sock_bytes s' = rest"
    by (auto simp: recv_from_socket_def)
qed

section \<open>Fake TLS records: faketls\_records.py\<close>

definition APPLICATION_DATA_PREFIX :: bytes where "APPLICATION_DATA_PREFIX = [0x17, 0x03, 0x03]"
definition CHANGE_CIPHER_SPEC :: bytes where "CHANGE_CIPHER_SPEC = [0x14, 0x03, 0x03, 0x00, 0x01, 0x01]"
definition MAX_RECORD_PAYLOAD :: nat where "MAX_RECORD_PAYLOAD = 2878"

record tls_writer =
  prologue :: bytes
  sent_change_cipher_spec :: bool

definition tls_record :: "bytes \<Rightarrow> bytes" where
  "tls_record chunk = APPLICATION_DATA_PREFIX @ be_bytes 2 (int (length chunk)) @ chunk"

definition records_wrap :: "bytes \<Rightarrow> tls_writer \<Rightarrow> bytes \<times> tls_writer" where
  "records_wrap data w =
     (let payload = prologue w @ data;
          head = (if sent_change_cipher_spec w then [] else CHANGE_CIPHER_SPEC)
      in (head @ concat (map tls_record (chunks_of MAX_RECORD_PAYLOAD payload)),
          w\<lparr>prologue := [], sent_change_cipher_spec := True\<rparr>))"

definition read_record :: "socket \<Rightarrow> (bytes option \<times> socket) res" where
  "read_record s =
     bind_res (recv_from_socket 5 s) (\<lambda>(header, s1).
       case header of
         None \<Rightarrow> Inr (None, s1)
       | Some h \<Rightarrow>
           if take 3 h \<noteq> APPLICATION_DATA_PREFIX then Inl OSError
           else recv_from_socket (be_int (drop 3 h)) s1)"

lemma read_record_less:
  "read_record s = Inr (Some r, s') \<Longrightarrow> length (sock_bytes s') < length (sock_bytes s)"
  by (auto simp: read_record_def res_simps dest!: recv_from_socket_Some split: option.splits if_splits)

text \<open>Every record takes at least its header from the socket, so that the loop ends.\<close>

function records_recv_loop :: "nat \<Rightarrow> bytes \<times> socket \<Rightarrow> (bytes option \<times> bytes \<times> socket) res" where
  "records_recv_loop len (buffer, s) =
     (if length buffer < len then
        (case read_record s of
           Inl e \<Rightarrow> Inl e
         | Inr (None, s1) \<Rightarrow> Inr (None, buffer, s1)
         | Inr (Some r, s1) \<Rightarrow> records_recv_loop len (buffer @ r, s1))
      else Inr (Some (take len buffer), drop len buffer, s))"
  by pat_completeness auto
termination
  by (relation "measure (\<lambda>(len, buffer, s). length (sock_bytes s))") (auto dest: read_record_less)

declare records_recv_loop.simps [simp del]

text \<open>A negative length reads nothing, and its slices count from the end of the buffer.\<close>

definition records_recv :: "(bytes \<times> socket) recv" where
  "records_recv len st =
     (if len < 0 then
        (case st of (buffer, s) \<Rightarrow> let n = length buffer - nat (- len) in Inr (Some (take n buffer), drop n buffer, s))
      else records_recv_loop (nat len) st)"

text \<open>The payload of a sequence of whole records.\<close>

definition record_ok :: "bytes \<Rightarrow> bool" where
  "record_ok c \<longleftrightarrow> length c < 2 ^ 16"

definition records_inv :: "bytes \<times> socket \<Rightarrow> bool" where
  "records_inv st \<longleftrightarrow> healthy (snd st) \<and>
     (\<exists>cs. list_all record_ok cs \<and> sock_bytes (snd st) = concat (map tls_record cs))"

fun payload_of :: "nat \<Rightarrow> bytes \<Rightarrow> bytes" where
  "payload_of 0 b = []"
| "payload_of (Suc n) b =
     (if length b < 5 then []
      else (let k = nat (be_int (take 2 (drop 3 b))) in take k (drop 5 b) @ payload_of n (drop (5 + k) b)))"

definition records_stream :: "bytes \<times> socket \<Rightarrow> bytes" where
  "records_stream st = fst st @ payload_of (length (sock_bytes (snd st))) (sock_bytes (snd st))"

lemma length_APPLICATION_DATA_PREFIX [simp]: "length APPLICATION_DATA_PREFIX = 3"
  by (simp add: APPLICATION_DATA_PREFIX_def)

lemma length_tls_record [simp]: "length (tls_record c) = length c + 5"
  by (simp add: tls_record_def)

lemma be_int_2: "k < 2 ^ 16 \<Longrightarrow> be_int (be_bytes 2 (int k)) = int k"
  by (simp add: be_int_be_bytes)

lemma tls_record_parts:
  "take 3 (tls_record c @ r) = APPLICATION_DATA_PREFIX"
  "take 2 (drop 3 (tls_record c @ r)) = be_bytes 2 (int (length c))"
  "drop 5 (tls_record c @ r) = c @ r"
  by (simp_all add: tls_record_def)

lemma payload_of_records:
  "list_all record_ok cs \<Longrightarrow> length cs \<le> n \<Longrightarrow> payload_of n (concat (map tls_record cs)) = concat cs"
proof (induction cs arbitrary: n)
  case Nil
  then show ?case by (cases n) simp_all
next
  case (Cons c cs)
  then obtain m where n: "n = Suc m" "length cs \<le> m" by (cases n) auto
  have k: "nat (be_int (be_bytes 2 (int (length c)))) = length c"
    using Cons.prems by (simp add: record_ok_def be_int_2)
  have d: "drop (5 + length c) (tls_record c @ r) = r" for r
    using tls_record_parts(3) [of c r] by (metis add.commute append_eq_conv_conj drop_drop)
  let ?b = "tls_record c @ concat (map tls_record cs)"
  have "payload_of n ?b = take (length c) (drop 5 ?b) @ payload_of m (drop (5 + length c) ?b)"
    unfolding n(1) payload_of.simps Let_def tls_record_parts(2) k by simp
  also have "\<dots> = c @ concat cs"
    unfolding tls_record_parts(3) d using Cons.IH [of m] Cons.prems n(2) by simp
  finally show ?case by simp
qed

lemma length_concat_records: "length cs \<le> length (concat (map tls_record cs))"
  by (induction cs) auto

lemma records_stream_form:
  assumes "list_all record_ok cs" "sock_bytes s = concat (map tls_record cs)"
  shows "records_stream (buffer, s) = buffer @ concat cs"
  using payload_of_records [OF assms(1) length_concat_records] assms(2) by (simp add: records_stream_def)

lemma read_record_Cons:
  assumes h: "healthy s" and b: "sock_bytes s = tls_record c @ rest" and c: "record_ok c"
  shows "\<exists>s'. read_record s = Inr (Some c, s') \<and> healthy s' \<and> sock_bytes s' = rest"
proof -
  let ?h = "APPLICATION_DATA_PREFIX @ be_bytes 2 (int (length c))"
  have "sock_bytes s = ?h @ c @ rest" using b by (simp add: tls_record_def)
  then obtain s1 where s1: "recv_from_socket 5 s = Inr (Some ?h, s1)" "healthy s1" "sock_bytes s1 = c @ rest"
    using socket_stream.recv_take [OF h, of ?h] by auto
  have k: "be_int (be_bytes 2 (int (length c))) = int (length c)"
    using c by (simp add: record_ok_def be_int_2)
  obtain s2 where "recv_from_socket (int (length c)) s1 = Inr (Some c, s2)" "healthy s2" "sock_bytes s2 = rest"
    using socket_stream.recv_take [OF s1(2,3)] by auto
  with s1 show ?thesis by (simp add: read_record_def k)
qed

lemma records_recv_loop_take:
  assumes "healthy s" "list_all record_ok cs" "sock_bytes s = concat (map tls_record cs)"
    and "buffer @ concat cs = d @ rest"
  shows "\<exists>buffer' s'. records_recv_loop (length d) (buffer, s) = Inr (Some d, buffer', s') \<and>
    records_inv (buffer', s') \<and> records_stream (buffer', s') = rest"
  using assms
proof (induction cs arbitrary: buffer s)
  case Nil
  then have "\<not> length buffer < length d" by simp
  moreover have "take (length d) buffer = d" "drop (length d) buffer = rest"
    using Nil.prems by simp_all
  moreover have "records_inv (rest, s)" using Nil.prems by (auto simp: records_inv_def intro: exI [of _ "[]"])
  moreover have "records_stream (rest, s) = rest" using records_stream_form [of "[]" s rest] Nil.prems by simp
  ultimately show ?case by (simp add: records_recv_loop.simps [of _ buffer])
next
  case (Cons c cs)
  show ?case
  proof (cases "length buffer < length d")
    case True
    from Cons.prems obtain s1 where s1: "read_record s = Inr (Some c, s1)" "healthy s1"
        "sock_bytes s1 = concat (map tls_record cs)"
      using read_record_Cons [of s c "concat (map tls_record cs)"] by auto
    from Cons.IH [OF s1(2) _ s1(3), of "buffer @ c"] Cons.prems True show ?thesis
      by (simp add: records_recv_loop.simps [of _ buffer] s1(1))
  next
    case False
    then obtain b' where b': "buffer = d @ b'" "b' @ concat (c # cs) = rest"
      using Cons.prems(4) by (metis append_eq_append_conv_if append_take_drop_id not_less)
    have "records_inv (b', s)"
      using Cons.prems unfolding records_inv_def by (auto intro: exI [of _ "c # cs"])
    moreover have "records_stream (b', s) = rest"
      using records_stream_form [OF Cons.prems(2,3)] b'(2) by simp
    moreover have "records_recv_loop (length d) (buffer, s) = Inr (Some d, b', s)"
      using b'(1) by (subst records_recv_loop.simps) simp
    ultimately show ?thesis by blast
  qed
qed

interpretation tls_stream: byte_stream records_recv records_inv records_stream
proof unfold_locales
  fix st d rest and n :: int
  assume i: "records_inv st" and s: "records_stream st = d @ rest" and n: "n = int (length d)"
  obtain buffer s' where st: "st = (buffer, s')" by (cases st)
  from i obtain cs where cs: "healthy s'" "list_all record_ok cs" "sock_bytes s' = concat (map tls_record cs)"
    by (auto simp: st records_inv_def)
  have "buffer @ concat cs = d @ rest" using records_stream_form [OF cs(2,3)] s st by simp
  from records_recv_loop_take [OF cs this]
  show "\<exists>s'. records_recv n st = Inr (Some d, s') \<and> records_inv s' \<and> records_stream s' = rest"
    by (auto simp: records_recv_def st n)
qed


section \<open>Ciphered streams\<close>

text \<open>
  \<open>TCP.recv\<close> and \<open>TCP.send\<close> with the obfuscated2 cipher: the cipher arguments are the key and
  the counter state, which each call advances. The cipher is applied to what a read
  returned.
\<close>

type_synonym cipher_args = "bytes \<times> ctr_state"

definition ciphered_recv ::
  "(bytes \<Rightarrow> bytes \<Rightarrow> bytes) \<Rightarrow> 's recv \<Rightarrow> (cipher_args option \<times> 's) recv"
where
  "ciphered_recv E recv len st =
     bind_res (recv len (snd st)) (\<lambda>(data, s).
       case (data, fst st) of
         (Some d, Some (key, c)) \<Rightarrow>
           (let (x, c1) = ctr256_decrypt E key c d in Inr (Some x, Some (key, c1), s))
       | _ \<Rightarrow> Inr (data, fst st, s))"

definition ciphered_stream ::
  "(bytes \<Rightarrow> bytes \<Rightarrow> bytes) \<Rightarrow> ('s \<Rightarrow> bytes) \<Rightarrow> cipher_args option \<times> 's \<Rightarrow> bytes"
where
  "ciphered_stream E stream st =
     (case fst st of
        None \<Rightarrow> stream (snd st)
      | Some (key, c) \<Rightarrow> fst (ctr256_decrypt E key c (stream (snd st))))"

lemma ctr256_decrypt_eq: "ctr256_decrypt = ctr256_encrypt"
  by (intro ext) (simp add: ctr256_encrypt_def ctr256_decrypt_def)

lemma length_ctr256 [simp]: "length (fst (ctr256_encrypt E key c d)) = length d"
  by (simp add: ctr256_encrypt_def ctr_loop_key_stream)

context byte_stream
begin

lemma ciphered_recv_take:
  assumes i: "inv (snd st)" and s: "ciphered_stream E stream st = d @ rest" and n: "n = int (length d)"
  shows "\<exists>st'. ciphered_recv E recv n st = Inr (Some d, st') \<and> inv (snd st') \<and>
    ciphered_stream E stream st' = rest"
proof (cases "fst st")
  case None
  with s have "stream (snd st) = d @ rest" by (simp add: ciphered_stream_def)
  from recv_take [OF i this n] None show ?thesis
    by (auto simp: ciphered_recv_def ciphered_stream_def)
next
  case (Some kc)
  obtain key c where kc: "kc = (key, c)" by (cases kc)
  define a where "a = take (length d) (stream (snd st))"
  define b where "b = drop (length d) (stream (snd st))"
  have ab: "stream (snd st) = a @ b" by (simp add: a_def b_def)
  have x: "fst (ctr256_encrypt E key c (stream (snd st))) = d @ rest"
    using s Some kc by (simp add: ciphered_stream_def ctr256_decrypt_eq)
  then have "length (stream (snd st)) = length d + length rest"
    by (metis length_append length_ctr256)
  then have la: "length a = length d" by (simp add: a_def)
  have "fst (ctr256_encrypt E key c a) = d"
    "fst (ctr256_encrypt E key (snd (ctr256_encrypt E key c a)) b) = rest"
    using x la by (simp_all add: ab ctr.run_append [of E key c a b])
  moreover obtain s' where "recv n (snd st) = Inr (Some a, s')" "inv s'" "stream s' = b"
    using recv_take [OF i ab, of n] n la by auto
  ultimately show ?thesis
    using Some kc by (auto simp: ciphered_recv_def ciphered_stream_def ctr256_decrypt_eq split: prod.splits)
qed

lemma ciphered: "byte_stream (ciphered_recv E recv) (\<lambda>st. inv (snd st)) (ciphered_stream E stream)"
  by unfold_locales (rule ciphered_recv_take)

end

text \<open>
  The connection under a transport: \<open>TCP.recv\<close> reads from the fake TLS records where there
  are any and from the socket otherwise. (The third source, the WEB carrier, is not modelled.)
\<close>

datatype carrier = Plain socket | Tls bytes socket

fun carrier_recv :: "carrier recv" where
  "carrier_recv len (Plain s) = bind_res (recv_from_socket len s) (\<lambda>(d, s1). Inr (d, Plain s1))"
| "carrier_recv len (Tls b s) = bind_res (records_recv len (b, s)) (\<lambda>(d, b1, s1). Inr (d, Tls b1 s1))"

definition tcp_recv :: "(bytes \<Rightarrow> bytes \<Rightarrow> bytes) \<Rightarrow> (cipher_args option \<times> carrier) recv" where
  "tcp_recv E = ciphered_recv E carrier_recv"

fun carrier_inv :: "carrier \<Rightarrow> bool" where
  "carrier_inv (Plain s) = healthy s"
| "carrier_inv (Tls b s) = records_inv (b, s)"

fun carrier_stream :: "carrier \<Rightarrow> bytes" where
  "carrier_stream (Plain s) = sock_bytes s"
| "carrier_stream (Tls b s) = records_stream (b, s)"

interpretation carrier_bytes: byte_stream carrier_recv carrier_inv carrier_stream
proof unfold_locales
  fix s d rest and n :: int
  assume a: "carrier_inv s" "carrier_stream s = d @ rest" "n = int (length d)"
  show "\<exists>s'. carrier_recv n s = Inr (Some d, s') \<and> carrier_inv s' \<and> carrier_stream s' = rest"
  proof (cases s)
    case (Plain x)
    with a obtain x' where "recv_from_socket n x = Inr (Some d, x')" "healthy x'" "sock_bytes x' = rest"
      using socket_stream.recv_take [of x d rest n] by auto
    with Plain show ?thesis by (intro exI [of _ "Plain x'"]) simp
  next
    case (Tls b x)
    with a obtain b' x' where "records_recv n (b, x) = Inr (Some d, b', x')" "records_inv (b', x')"
        "records_stream (b', x') = rest"
      using tls_stream.recv_take [of "(b, x)" d rest n] by auto
    with Tls show ?thesis by (intro exI [of _ "Tls b' x'"]) simp
  qed
qed

interpretation tcp_bytes: byte_stream "tcp_recv E" "\<lambda>st. carrier_inv (snd st)"
    "ciphered_stream E carrier_stream" for E
  unfolding tcp_recv_def by (rule carrier_bytes.ciphered)

section \<open>Sending: TCP.send\<close>

text \<open>
  What \<open>send\<close> writes: nothing once the writer is gone, \<open>TimeoutError\<close> when the marker
  does not come, else the data ciphered and cut into records.
\<close>

record tcp_sender =
  writer_open :: bool
  marker_event :: bool
  encrypt_args :: "cipher_args option"
  tls_out :: "tls_writer option"

definition tcp_send :: "(bytes \<Rightarrow> bytes \<Rightarrow> bytes) \<Rightarrow> bytes \<Rightarrow> bool \<Rightarrow> tcp_sender \<Rightarrow> (bytes \<times> tcp_sender) res" where
  "tcp_send E data wait_for_marker t =
     (if \<not> writer_open t then Inr ([], t)
      else if wait_for_marker \<and> \<not> marker_event t then Inl TimeoutError
      else
        (let (data, t) = (case encrypt_args t of
               None \<Rightarrow> (data, t)
             | Some (key, c) \<Rightarrow>
                 (let (x, c1) = ctr256_encrypt E key c data in (x, t\<lparr>encrypt_args := Some (key, c1)\<rparr>)));
             (data, t) = (case tls_out t of
               None \<Rightarrow> (data, t)
             | Some w \<Rightarrow> (let (x, w1) = records_wrap data w in (x, t\<lparr>tls_out := Some w1\<rparr>)))
         in Inr (data, t)))"

fun tcp_send_all :: "(bytes \<Rightarrow> bytes \<Rightarrow> bytes) \<Rightarrow> bytes list \<Rightarrow> tcp_sender \<Rightarrow> (bytes \<times> tcp_sender) res" where
  "tcp_send_all E [] t = Inr ([], t)"
| "tcp_send_all E (p # ps) t =
     bind_res (tcp_send E p True t) (\<lambda>(w, t1).
     bind_res (tcp_send_all E ps t1) (\<lambda>(ws, t2). Inr (w @ ws, t2)))"

text \<open>The wire of a sender without records deciphers to the packets.\<close>

lemma tcp_send_all_plain:
  "writer_open t \<Longrightarrow> marker_event t \<Longrightarrow> tls_out t = None \<Longrightarrow>
   \<exists>w t'. tcp_send_all E ps t = Inr (w, t') \<and>
     (case encrypt_args t of None \<Rightarrow> w = concat ps
      | Some (key, c) \<Rightarrow> w = fst (ctr256_encrypt E key c (concat ps)))"
proof (induction ps arbitrary: t)
  case Nil
  then show ?case by (auto simp: ctr.run_Nil split: option.splits)
next
  case (Cons p ps)
  show ?case
  proof (cases "encrypt_args t")
    case None
    with Cons.prems have s: "tcp_send E p True t = Inr (p, t)" by (simp add: tcp_send_def)
    from Cons.IH [OF Cons.prems] None s show ?thesis by auto
  next
    case (Some kc)
    obtain key c where kc: "kc = (key, c)" by (cases kc)
    let ?t = "t\<lparr>encrypt_args := Some (key, snd (ctr256_encrypt E key c p))\<rparr>"
    have s: "tcp_send E p True t = Inr (fst (ctr256_encrypt E key c p), ?t)"
      using Cons.prems Some kc by (simp add: tcp_send_def Let_def split_beta)
    from Cons.IH [of ?t] Cons.prems obtain w t' where "tcp_send_all E ps ?t = Inr (w, t')"
        "w = fst (ctr256_encrypt E key (snd (ctr256_encrypt E key c p)) (concat ps))" by auto
    with s Some kc show ?thesis by (simp add: ctr.run_append [of E key c p "concat ps"])
  qed
qed

text \<open>The records of one call: after the change-cipher-spec of the first one, the chunks.\<close>

lemma records_wrap_form:
  "\<exists>cs. list_all record_ok cs \<and> concat cs = prologue w @ d \<and>
     fst (records_wrap d w) =
       (if sent_change_cipher_spec w then [] else CHANGE_CIPHER_SPEC) @ concat (map tls_record cs)"
proof -
  let ?cs = "chunks_of MAX_RECORD_PAYLOAD (prologue w @ d)"
  have "list_all record_ok ?cs"
    using chunks_of_length_le [of _ MAX_RECORD_PAYLOAD "prologue w @ d"]
    by (force simp: list_all_iff record_ok_def MAX_RECORD_PAYLOAD_def)
  then show ?thesis
    by (intro exI [of _ ?cs]) (simp add: records_wrap_def Let_def MAX_RECORD_PAYLOAD_def)
qed

end
