(* ===== verification/Transports.thy ===== *)
theory Transports
  imports Framing
begin

text \<open>
  The packet framings over a byte stream: abridged, intermediate, padded intermediate, full,
  and the variants that cipher the stream themselves. Each has a \<open>send\<close>, the bytes it
  hands to \<open>TCP.send\<close>, and a \<open>recv\<close> over any \<open>TCP.recv\<close>; the contract of a framing is
  a locale, interpreted on every one of them.
\<close>

section \<open>The framings\<close>

subsection \<open>tcp\_abridged.py\<close>

definition abridged_send :: "bytes \<Rightarrow> bytes res" where
  "abridged_send data =
     (let len = length data div 4 in
      if len \<le> 126 then Inr ([of_nat len] @ data)
      else bind_res (to_bytes_le 3 False (int len)) (\<lambda>l. Inr ([0x7f] @ l @ data)))"

definition abridged_recv :: "'s recv \<Rightarrow> 's \<Rightarrow> (bytes option \<times> 's) res" where
  "abridged_recv recv s =
     bind_res (recv 1 s) (\<lambda>(len, s1).
       case len of
         None \<Rightarrow> Inr (None, s1)
       | Some l \<Rightarrow>
           bind_res (if l = [0x7f] then recv 3 s1 else Inr (Some l, s1)) (\<lambda>(len, s2).
             case len of None \<Rightarrow> Inr (None, s2) | Some l \<Rightarrow> recv (le_int l * 4) s2))"

subsection \<open>tcp\_intermediate.py\<close>

definition intermediate_send :: "bytes \<Rightarrow> bytes res" where
  "intermediate_send data =
     bind_res (struct_pack [Fi] [Some (int (length data))]) (\<lambda>l. Inr (l @ data))"

definition intermediate_recv :: "'s recv \<Rightarrow> 's \<Rightarrow> (bytes option \<times> 's) res" where
  "intermediate_recv recv s =
     bind_res (recv 4 s) (\<lambda>(len, s1).
       case len of
         None \<Rightarrow> Inr (None, s1)
       | Some l \<Rightarrow> bind_res (struct_unpack [Fi] l) (\<lambda>v. recv (v ! 0) s1))"

subsection \<open>tcp\_intermediate\_padded.py\<close>

text \<open>The padding is the random bytes drawn for the packet, at most 15 of them.\<close>

definition padded_send :: "bytes \<Rightarrow> bytes \<Rightarrow> bytes res" where
  "padded_send padding data =
     bind_res (struct_pack [Fi] [Some (int (length data + length padding))]) (\<lambda>l.
       Inr (l @ data @ padding))"

definition padded_strip :: "int \<Rightarrow> bytes \<Rightarrow> bytes" where
  "padded_strip len data =
     (if len < 24 then
        (if len \<ge> 8 \<and> take 4 data = [0xff, 0xff, 0xff, 0xff] then take 8 data else take 4 data)
      else if take 8 data \<noteq> replicate 8 0 then
        (let strip = (len - 24) mod 16 in
         if strip \<noteq> 0 then take (length data - nat strip) data else data)
      else data)"

definition padded_recv :: "'s recv \<Rightarrow> 's \<Rightarrow> (bytes option \<times> 's) res" where
  "padded_recv recv s =
     bind_res (recv 4 s) (\<lambda>(len, s1).
       case len of
         None \<Rightarrow> Inr (None, s1)
       | Some l \<Rightarrow>
           bind_res (struct_unpack [Fi] l) (\<lambda>v.
           bind_res (recv (v ! 0) s1) (\<lambda>(data, s2).
             Inr (map_option (padded_strip (v ! 0)) data, s2))))"

subsection \<open>tcp\_full.py\<close>

text \<open>The checksum \<open>binascii.crc32\<close> is a parameter.\<close>

definition full_send :: "(bytes \<Rightarrow> int) \<Rightarrow> int \<Rightarrow> bytes \<Rightarrow> (bytes \<times> int) res" where
  "full_send crc32 seq data =
     bind_res (struct_pack [FI, FI] [Some (int (length data) + 12), Some seq]) (\<lambda>h.
     bind_res (struct_pack [FI] [Some (crc32 (h @ data))]) (\<lambda>c.
       Inr (h @ data @ c, seq + 1)))"

definition full_recv :: "(bytes \<Rightarrow> int) \<Rightarrow> 's recv \<Rightarrow> 's \<Rightarrow> (bytes option \<times> 's) res" where
  "full_recv crc32 recv s =
     bind_res (recv 4 s) (\<lambda>(len, s1).
       case len of
         None \<Rightarrow> Inr (None, s1)
       | Some l \<Rightarrow>
           bind_res (struct_unpack [FI] l) (\<lambda>v.
           bind_res (recv (v ! 0 - 4) s1) (\<lambda>(packet, s2).
             case packet of
               None \<Rightarrow> Inr (None, s2)
             | Some p \<Rightarrow>
                 (let packet = l @ p;
                      checksum = drop (length packet - 4) packet;
                      packet = take (length packet - 4) packet
                  in bind_res (struct_unpack [FI] checksum) (\<lambda>c.
                       if crc32 packet \<noteq> c ! 0 then Inr (None, s2)
                       else Inr (Some (drop 8 packet), s2))))))"

subsection \<open>tcp\_abridged\_o.py and tcp\_intermediate\_o.py\<close>

text \<open>
  These hold cipher arguments of their own, absent before \<open>connect\<close>, and decipher each piece
  they read.
\<close>

definition decipher :: "(bytes \<Rightarrow> bytes \<Rightarrow> bytes) \<Rightarrow> cipher_args \<Rightarrow> bytes \<Rightarrow> bytes \<times> cipher_args" where
  "decipher E d x = (let (y, c) = ctr256_decrypt E (fst d) (snd d) x in (y, fst d, c))"

definition abridged_o_send ::
  "(bytes \<Rightarrow> bytes \<Rightarrow> bytes) \<Rightarrow> cipher_args option \<Rightarrow> bytes \<Rightarrow> (bytes \<times> cipher_args option) res"
where
  "abridged_o_send E encrypt data =
     (case encrypt of
        None \<Rightarrow> Inl RuntimeError
      | Some (key, c) \<Rightarrow>
          bind_res (abridged_send data) (\<lambda>w.
            (let (x, c1) = ctr256_encrypt E key c w in Inr (x, Some (key, c1)))))"

definition abridged_o_recv ::
  "(bytes \<Rightarrow> bytes \<Rightarrow> bytes) \<Rightarrow> 's recv \<Rightarrow> cipher_args option \<times> 's \<Rightarrow>
   (bytes option \<times> cipher_args option \<times> 's) res"
where
  "abridged_o_recv E recv st =
     (case fst st of
        None \<Rightarrow> Inl RuntimeError
      | Some dec \<Rightarrow>
          bind_res (recv 1 (snd st)) (\<lambda>(len, s1).
            case len of
              None \<Rightarrow> Inr (None, Some dec, s1)
            | Some l0 \<Rightarrow>
                (let (l, dec1) = decipher E dec l0 in
                 bind_res
                   (if l = [0x7f] then
                      bind_res (recv 3 s1) (\<lambda>(len, s2).
                        case len of
                          None \<Rightarrow> Inr (None, dec1, s2)
                        | Some l1 \<Rightarrow> (let (l, dec2) = decipher E dec1 l1 in Inr (Some l, dec2, s2)))
                    else Inr (Some l, dec1, s1)) (\<lambda>(len, dec2, s2).
                 case len of
                   None \<Rightarrow> Inr (None, Some dec2, s2)
                 | Some l \<Rightarrow>
                     bind_res (recv (le_int l * 4) s2) (\<lambda>(data, s3).
                       case data of
                         None \<Rightarrow> Inr (None, Some dec2, s3)
                       | Some x \<Rightarrow> (let (y, dec3) = decipher E dec2 x in Inr (Some y, Some dec3, s3)))))))"

definition intermediate_o_send ::
  "(bytes \<Rightarrow> bytes \<Rightarrow> bytes) \<Rightarrow> cipher_args option \<Rightarrow> bytes \<Rightarrow> (bytes \<times> cipher_args option) res"
where
  "intermediate_o_send E encrypt data =
     (case encrypt of
        None \<Rightarrow> Inl RuntimeError
      | Some (key, c) \<Rightarrow>
          bind_res (intermediate_send data) (\<lambda>w.
            (let (x, c1) = ctr256_encrypt E key c w in Inr (x, Some (key, c1)))))"

definition intermediate_o_recv ::
  "(bytes \<Rightarrow> bytes \<Rightarrow> bytes) \<Rightarrow> 's recv \<Rightarrow> cipher_args option \<times> 's \<Rightarrow>
   (bytes option \<times> cipher_args option \<times> 's) res"
where
  "intermediate_o_recv E recv st =
     (case fst st of
        None \<Rightarrow> Inl RuntimeError
      | Some dec \<Rightarrow>
          bind_res (recv 4 (snd st)) (\<lambda>(len, s1).
            case len of
              None \<Rightarrow> Inr (None, Some dec, s1)
            | Some l0 \<Rightarrow>
                (let (l, dec1) = decipher E dec l0 in
                 bind_res (struct_unpack [Fi] l) (\<lambda>v.
                 bind_res (recv (v ! 0) s1) (\<lambda>(data, s2).
                   case data of
                     None \<Rightarrow> Inr (None, Some dec1, s2)
                   | Some x \<Rightarrow> (let (y, dec2) = decipher E dec1 x in Inr (Some y, Some dec2, s2)))))))"

lemma ciphered_recv_simps:
  "recv n s = Inl e \<Longrightarrow> ciphered_recv E recv n (Some dec, s) = Inl e"
  "recv n s = Inr (None, s1) \<Longrightarrow> ciphered_recv E recv n (Some dec, s) = Inr (None, Some dec, s1)"
  "recv n s = Inr (Some x, s1) \<Longrightarrow> decipher E dec x = (y, dec1) \<Longrightarrow>
   ciphered_recv E recv n (Some dec, s) = Inr (Some y, Some dec1, s1)"
  by (auto simp: ciphered_recv_def decipher_def split: prod.splits)

lemma ciphered_recv_cases:
  obtains (raised) e where "recv n s = Inl e" "ciphered_recv E recv n (Some dec, s) = Inl e"
  | (closed) s1 where "recv n s = Inr (None, s1)" "ciphered_recv E recv n (Some dec, s) = Inr (None, Some dec, s1)"
  | (read) x s1 y dec1 where "recv n s = Inr (Some x, s1)" "decipher E dec x = (y, dec1)"
      "ciphered_recv E recv n (Some dec, s) = Inr (Some y, Some dec1, s1)"
  using ciphered_recv_simps by (metis not_None_eq old.sum.exhaust surj_pair)

lemma abridged_o_payload:
  "bind_res (recv n s) (\<lambda>(data, s3).
     case data of
       None \<Rightarrow> Inr (None, Some dec, s3)
     | Some x \<Rightarrow> (let (y, dec3) = decipher E dec x in Inr (Some y, Some dec3, s3))) =
   ciphered_recv E recv n (Some dec, s)"
  by (rule ciphered_recv_cases [of recv n s E dec]) simp_all

lemma abridged_o_recv_eq:
  "abridged_o_recv E recv (Some dec, s) = abridged_recv (ciphered_recv E recv) (Some dec, s)"
proof (cases rule: ciphered_recv_cases [of recv 1 s E dec])
  case (read l0 s1 l dec1)
  then show ?thesis
    by (cases rule: ciphered_recv_cases [of recv 3 s1 E dec1])
      (simp_all add: abridged_o_recv_def abridged_recv_def abridged_o_payload)
qed (simp_all add: abridged_o_recv_def abridged_recv_def)

lemma intermediate_o_recv_eq:
  "intermediate_o_recv E recv (Some dec, s) = intermediate_recv (ciphered_recv E recv) (Some dec, s)"
  by (cases rule: ciphered_recv_cases [of recv 4 s E dec])
    (simp_all add: intermediate_o_recv_def intermediate_recv_def abridged_o_payload)

section \<open>The interface of a framing\<close>

text \<open>
  On a working stream that continues with a framed packet, \<open>recv\<close> returns the packet and
  leaves what follows. \<open>ok\<close> says which packets the framing carries unchanged.
\<close>

locale framing = byte_stream recv inv stream
  for recv :: "'s recv" and inv stream +
  fixes ok :: "bytes \<Rightarrow> bool"
    and frame :: "bytes \<Rightarrow> bytes \<Rightarrow> bool"
    and recv_packet :: "'s \<Rightarrow> (bytes option \<times> 's) res"
  assumes recv_frame:
    "ok d \<Longrightarrow> frame d w \<Longrightarrow> inv s \<Longrightarrow> stream s = w @ rest \<Longrightarrow>
     \<exists>s'. recv_packet s = Inr (Some d, s') \<and> inv s' \<and> stream s' = rest"

text \<open>A reader that calls \<open>recv\<close> so many times.\<close>

fun recv_packets :: "('s \<Rightarrow> (bytes option \<times> 's) res) \<Rightarrow> nat \<Rightarrow> 's \<Rightarrow> (bytes list \<times> 's) res" where
  "recv_packets rp 0 s = Inr ([], s)"
| "recv_packets rp (Suc n) s =
     bind_res (rp s) (\<lambda>(p, s1).
       case p of
         None \<Rightarrow> Inr ([], s1)
       | Some d \<Rightarrow> bind_res (recv_packets rp n s1) (\<lambda>(ds, s2). Inr (d # ds, s2)))"

context framing
begin

lemma recv_all:
  "list_all2 frame ds ws \<Longrightarrow> list_all ok ds \<Longrightarrow> inv s \<Longrightarrow> stream s = concat ws @ rest \<Longrightarrow>
   \<exists>s'. recv_packets recv_packet (length ds) s = Inr (ds, s') \<and> inv s' \<and> stream s' = rest"
proof (induction ds ws arbitrary: s rule: list_all2_induct)
  case (Cons d ds w ws)
  then obtain s1 where "recv_packet s = Inr (Some d, s1)" "inv s1" "stream s1 = concat ws @ rest"
    using recv_frame [of d w s "concat ws @ rest"] by auto
  with Cons.IH [of s1] Cons.prems show ?case by auto
qed simp

end

lemma int_div_4: "4 dvd n \<Longrightarrow> int (n div 4) * 4 = int n"
  by (metis dvd_div_mult_self of_nat_mult of_nat_numeral)

context byte_stream
begin

lemma abridged_frame:
  assumes "abridged_send d = Inr w" "4 dvd length d" "inv s" "stream s = w @ rest"
  shows "\<exists>s'. abridged_recv recv s = Inr (Some d, s') \<and> inv s' \<and> stream s' = rest"
proof (cases "length d div 4 \<le> 126")
  case True
  let ?l = "[of_nat (length d div 4) :: byte]"
  have u: "unat (of_nat (length d div 4) :: byte) = length d div 4" using True by (simp add: unat_of_nat_byte)
  then have "?l \<noteq> [0x7f]" using True by auto
  moreover have "le_int ?l * 4 = int (length d)"
    using u int_div_4 [OF assms(2)] by (simp add: uint_nat)
  moreover obtain s1 where "recv 1 s = Inr (Some ?l, s1)" "inv s1" "stream s1 = d @ rest"
    using recv_take [OF assms(3), of ?l "d @ rest" 1] assms(1,4) True by (auto simp: abridged_send_def Let_def)
  moreover obtain s2 where "recv (int (length d)) s1 = Inr (Some d, s2)" "inv s2" "stream s2 = rest"
    using recv_take calculation(4,5) by blast
  ultimately show ?thesis by (simp add: abridged_recv_def)
next
  case False
  then obtain l where l: "to_bytes_le 3 False (int (length d div 4)) = Inr l" and w: "w = 0x7f # l @ d"
    using assms(1) by (auto simp: abridged_send_def Let_def res_simps)
  have ll: "length l = 3" using to_bytes_le_length [OF l] .
  have "le_int l = int (length d div 4)" using from_to_bytes_le [OF l] by (simp add: from_bytes_le_def)
  then have "le_int l * 4 = int (length d)" using int_div_4 [OF assms(2)] by simp
  moreover obtain s1 where "recv 1 s = Inr (Some [0x7f], s1)" "inv s1" "stream s1 = l @ d @ rest"
    using recv_take [OF assms(3), of "[0x7f]" "l @ d @ rest" 1] assms(4) w by auto
  moreover obtain s2 where "recv 3 s1 = Inr (Some l, s2)" "inv s2" "stream s2 = d @ rest"
    using recv_take [OF calculation(3,4), of 3] ll by auto
  moreover obtain s3 where "recv (int (length d)) s2 = Inr (Some d, s3)" "inv s3" "stream s3 = rest"
    using recv_take calculation(6,7) by blast
  ultimately show ?thesis by (simp add: abridged_recv_def)
qed

lemma intermediate_frame:
  assumes "intermediate_send d = Inr w" "inv s" "stream s = w @ rest"
  shows "\<exists>s'. intermediate_recv recv s = Inr (Some d, s') \<and> inv s' \<and> stream s' = rest"
proof -
  from assms(1) obtain l where l: "struct_pack [Fi] [Some (int (length d))] = Inr l" "w = l @ d"
    by (auto simp: intermediate_send_def res_simps simp del: struct_pack.simps)
  have u: "struct_unpack [Fi] l = Inr [int (length d)]" using struct_unpack_pack [of "[Fi]" "[int (length d)]" l] l by simp
  have "length l = 4" using struct_pack_length [OF l(1)] by simp
  then obtain s1 where "recv 4 s = Inr (Some l, s1)" "inv s1" "stream s1 = d @ rest"
    using recv_take [OF assms(2), of l "d @ rest" 4] assms(3) l(2) by auto
  moreover then obtain s2 where "recv (int (length d)) s1 = Inr (Some d, s2)" "inv s2" "stream s2 = rest"
    using recv_take by blast
  ultimately show ?thesis by (simp add: intermediate_recv_def u)
qed

lemma length_prefixed:
  assumes "struct_pack [f] [Some (int (length x) + k)] = Inr l" "fmt_size f = 4" "inv s" "stream s = l @ x @ rest"
  shows "\<exists>s1. recv 4 s = Inr (Some l, s1) \<and> inv s1 \<and> stream s1 = x @ rest \<and>
    struct_unpack [f] l = Inr [int (length x) + k]"
proof -
  have "struct_unpack [f] l = Inr [int (length x) + k]"
    using struct_unpack_pack [of "[f]" "[int (length x) + k]" l] assms(1) by simp
  moreover have "length l = 4" using struct_pack_length [OF assms(1)] assms(2) by simp
  ultimately show ?thesis using recv_take [OF assms(3), of l "x @ rest" 4] assms(4) by auto
qed

lemma padded_frame:
  assumes "padded_send pad d = Inr w" "length pad < 16" "inv s" "stream s = w @ rest"
    and "padded_strip (int (length d + length pad)) (d @ pad) = d"
  shows "\<exists>s'. padded_recv recv s = Inr (Some d, s') \<and> inv s' \<and> stream s' = rest"
proof -
  from assms(1) obtain l where l: "struct_pack [Fi] [Some (int (length (d @ pad)) + 0)] = Inr l" "w = l @ d @ pad"
    by (auto simp: padded_send_def res_simps simp del: struct_pack.simps)
  have "stream s = l @ (d @ pad) @ rest" using assms(4) l(2) by simp
  from length_prefixed [OF l(1) _ assms(3) this] obtain s1 where
      s1: "recv 4 s = Inr (Some l, s1)" "inv s1" "stream s1 = (d @ pad) @ rest"
        "struct_unpack [Fi] l = Inr [int (length (d @ pad)) + 0]" by auto
  then obtain s2 where "recv (int (length (d @ pad))) s1 = Inr (Some (d @ pad), s2)" "inv s2" "stream s2 = rest"
    using recv_take by blast
  with s1 assms(5) show ?thesis by (simp add: padded_recv_def)
qed

lemma full_frame:
  assumes "full_send crc32 seq d = Inr (w, seq')" "inv s" "stream s = w @ rest"
  shows "\<exists>s'. full_recv crc32 recv s = Inr (Some d, s') \<and> inv s' \<and> stream s' = rest"
proof -
  from assms(1) obtain h c where h: "struct_pack [FI, FI] [Some (int (length d) + 12), Some seq] = Inr h"
      and c: "struct_pack [FI] [Some (crc32 (h @ d))] = Inr c" and w: "w = h @ d @ c"
    by (auto simp: full_send_def res_simps simp del: struct_pack.simps)
  from h obtain l q where l: "struct_pack [FI] [Some (int (length d) + 12)] = Inr l" "h = l @ q"
    by (auto simp: res_simps split: if_splits simp del: le_bytes_numeral fmt_size.simps)
  have ll: "length l = 4" "length h = 8" "length c = 4"
    using struct_pack_length [OF l(1)] struct_pack_length [OF h] struct_pack_length [OF c] by simp_all
  have cu: "struct_unpack [FI] c = Inr [crc32 (h @ d)]" using struct_unpack_pack [of "[FI]" "[crc32 (h @ d)]" c] c by simp
  have u: "struct_unpack [FI] l = Inr [int (length d) + 12]"
    using struct_unpack_pack [of "[FI]" "[int (length d) + 12]" l] l(1) by simp
  obtain s1 where s1: "recv 4 s = Inr (Some l, s1)" "inv s1" "stream s1 = (q @ d @ c) @ rest"
    using recv_take [OF assms(2), of l "(q @ d @ c) @ rest" 4] ll assms(3) w l(2) by auto
  have "int (length d) + 12 - 4 = int (length (q @ d @ c))" using ll l(2) by simp
  from recv_take [OF s1(2,3) this] obtain s2 where
      "recv (int (length d) + 12 - 4) s1 = Inr (Some (q @ d @ c), s2)" "inv s2" "stream s2 = rest" by blast
  moreover have e: "l @ q @ d @ c = (h @ d) @ c" "length ((h @ d) @ c) - 4 = length (h @ d)"
      "drop (length (h @ d)) ((h @ d) @ c) = c" "take (length (h @ d)) ((h @ d) @ c) = h @ d" "drop 8 (h @ d) = d"
    using l(2) ll by simp_all
  moreover have "full_recv crc32 recv s = Inr (Some d, s2)"
    using s1(1) calculation(1)
    by (simp only: full_recv_def u cu Let_def bind_res_simps prod.case option.case nth_Cons_0 e)
      (simp del: append_assoc)
  ultimately show ?thesis by blast
qed

end

text \<open>
  What the strip of the padded framing undoes: encrypted packets, whose length is 24 plus whole
  blocks and whose key identifier is not zero, and the four-byte error codes.
\<close>

definition encrypted_packet :: "bytes \<Rightarrow> bool" where
  "encrypted_packet d \<longleftrightarrow> 24 \<le> length d \<and> 16 dvd length d - 24 \<and> take 8 d \<noteq> replicate 8 0"

definition error_packet :: "bytes \<Rightarrow> bool" where
  "error_packet d \<longleftrightarrow> length d = 4 \<and> d \<noteq> [0xff, 0xff, 0xff, 0xff]"

lemma padded_strip_encrypted:
  assumes "encrypted_packet d" "length pad < 16"
  shows "padded_strip (int (length d + length pad)) (d @ pad) = d"
proof -
  from assms(1) obtain k where k: "length d = 24 + 16 * k"
    unfolding encrypted_packet_def dvd_def by (metis le_add_diff_inverse)
  have "(int (length d + length pad) - 24) mod 16 = int (length pad) mod 16"
    by (simp add: k algebra_simps)
  also have "\<dots> = int (length pad)" using assms(2) by simp
  finally have m: "(int (length d + length pad) - 24) mod 16 = int (length pad)" .
  have t: "take 8 (d @ pad) = take 8 d" "\<not> int (length d + length pad) < 24" using k by simp_all
  show ?thesis
    using assms(1) unfolding padded_strip_def m t(1) Let_def using t(2) by (simp add: encrypted_packet_def)
qed

lemma padded_strip_error:
  assumes "error_packet d" "length pad < 16"
  shows "padded_strip (int (length d + length pad)) (d @ pad) = d"
  using assms by (auto simp: padded_strip_def error_packet_def)

section \<open>The framings on the connection\<close>

abbreviation conn_inv :: "cipher_args option \<times> carrier \<Rightarrow> bool" where
  "conn_inv st \<equiv> carrier_inv (snd st)"

interpretation abridged: framing "tcp_recv E" conn_inv "ciphered_stream E carrier_stream"
  "\<lambda>d. 4 dvd length d" "\<lambda>d w. abridged_send d = Inr w" "abridged_recv (tcp_recv E)" for E
  by unfold_locales (rule tcp_bytes.abridged_frame)

interpretation intermediate: framing "tcp_recv E" conn_inv "ciphered_stream E carrier_stream"
  "\<lambda>d. True" "\<lambda>d w. intermediate_send d = Inr w" "intermediate_recv (tcp_recv E)" for E
  by unfold_locales (rule tcp_bytes.intermediate_frame)

interpretation padded: framing "tcp_recv E" conn_inv "ciphered_stream E carrier_stream"
  "\<lambda>d. encrypted_packet d \<or> error_packet d"
  "\<lambda>d w. \<exists>pad. length pad < 16 \<and> padded_send pad d = Inr w" "padded_recv (tcp_recv E)" for E
  by unfold_locales (metis tcp_bytes.padded_frame padded_strip_encrypted padded_strip_error)

interpretation full: framing "tcp_recv E" conn_inv "ciphered_stream E carrier_stream"
  "\<lambda>d. True" "\<lambda>d w. \<exists>seq seq'. full_send crc32 seq d = Inr (w, seq')" "full_recv crc32 (tcp_recv E)" for E crc32
  by unfold_locales (metis tcp_bytes.full_frame)

text \<open>The obfuscated framings read the plain connection and decipher it themselves.\<close>

abbreviation o_inv :: "cipher_args option \<times> carrier \<Rightarrow> bool" where
  "o_inv st \<equiv> carrier_inv (snd st) \<and> fst st \<noteq> None"

lemma ciphered_keeps_key:
  "ciphered_recv E recv n st = Inr (r, st') \<Longrightarrow> fst st \<noteq> None \<Longrightarrow> fst st' \<noteq> None"
  by (auto simp: ciphered_recv_def res_simps Let_def split_beta split: option.splits)

interpretation o_bytes: byte_stream "ciphered_recv E carrier_recv" o_inv
  "ciphered_stream E carrier_stream" for E
proof unfold_locales
  fix s d rest and n :: int
  assume a: "o_inv s" "ciphered_stream E carrier_stream s = d @ rest" "n = int (length d)"
  then show "\<exists>s'. ciphered_recv E carrier_recv n s = Inr (Some d, s') \<and> o_inv s' \<and>
      ciphered_stream E carrier_stream s' = rest"
    using carrier_bytes.ciphered_recv_take [of s E d rest n] ciphered_keeps_key
    by (metis (no_types, lifting))
qed

interpretation abridged_o: framing "ciphered_recv E carrier_recv" o_inv "ciphered_stream E carrier_stream"
  "\<lambda>d. 4 dvd length d" "\<lambda>d w. abridged_send d = Inr w" "abridged_o_recv E carrier_recv" for E
proof unfold_locales
  fix d w rest and s :: "cipher_args option \<times> carrier"
  assume a: "4 dvd length d" "abridged_send d = Inr w" "o_inv s" "ciphered_stream E carrier_stream s = w @ rest"
  then obtain dec c where "s = (Some dec, c)" by (cases s) auto
  then have "abridged_o_recv E carrier_recv s = abridged_recv (ciphered_recv E carrier_recv) s"
    by (simp add: abridged_o_recv_eq)
  with o_bytes.abridged_frame [OF a(2,1,3,4)]
  show "\<exists>s'. abridged_o_recv E carrier_recv s = Inr (Some d, s') \<and> o_inv s' \<and>
      ciphered_stream E carrier_stream s' = rest" by simp
qed

interpretation intermediate_o: framing "ciphered_recv E carrier_recv" o_inv "ciphered_stream E carrier_stream"
  "\<lambda>d. True" "\<lambda>d w. intermediate_send d = Inr w" "intermediate_o_recv E carrier_recv" for E
proof unfold_locales
  fix d w rest and s :: "cipher_args option \<times> carrier"
  assume a: "intermediate_send d = Inr w" "o_inv s" "ciphered_stream E carrier_stream s = w @ rest"
  then obtain dec c where "s = (Some dec, c)" by (cases s) auto
  then have "intermediate_o_recv E carrier_recv s = intermediate_recv (ciphered_recv E carrier_recv) s"
    by (simp add: intermediate_o_recv_eq)
  with o_bytes.intermediate_frame [OF a]
  show "\<exists>s'. intermediate_o_recv E carrier_recv s = Inr (Some d, s') \<and> o_inv s' \<and>
      ciphered_stream E carrier_stream s' = rest" by simp
qed


section \<open>Properties\<close>

lemma wire_stream:
  assumes "writer_open t" "marker_event t" "tls_out t = None" "tcp_send_all E ws t = Inr (wire, t')"
    and "sock_bytes sock = wire"
  shows "ciphered_stream E carrier_stream (encrypt_args t, Plain sock) = concat ws"
  using tcp_send_all_plain [OF assms(1-3), of E ws] assms(4,5)
  by (auto simp: ciphered_stream_def ctr256_decrypt_eq ctr.run_involution split: option.splits)

text \<open>C5: Abridged packets arrive as they were sent. Packets of whole words are framed, ciphered
  and written one after the other; however the network cuts the bytes, a receiver whose cipher
  starts in the sender's state reads back exactly these packets, in order.\<close>

theorem abridged_end_to_end:
  assumes "writer_open t" "marker_event t" "tls_out t = None"
    and "list_all2 (\<lambda>d w. abridged_send d = Inr w) ds ws" "list_all (\<lambda>d. 4 dvd length d) ds"
    and "tcp_send_all E ws t = Inr (wire, t')" "healthy sock" "sock_bytes sock = wire"
  shows "\<exists>st. recv_packets (abridged_recv (tcp_recv E)) (length ds) (encrypt_args t, Plain sock) = Inr (ds, st)"
proof -
  have "ciphered_stream E carrier_stream (encrypt_args t, Plain sock) = concat ws @ []"
    using wire_stream [OF assms(1-3,6,8)] by simp
  from abridged.recv_all [OF assms(4,5) _ this] assms(7) show ?thesis by auto
qed

definition sender0 :: tcp_sender where
  "sender0 = \<lparr>writer_open = True, marker_event = True,
     encrypt_args = Some ([7], \<lparr>ctr_iv = [1,2,3,4,5,6,7,8,9,10,11,12,13,14,15,16], ctr_pos = 13\<rparr>),
     tls_out = None\<rparr>"

theorem abridged_end_to_end_witness:
  "\<exists>wire t' st. tcp_send_all (\<lambda>k b. b) [[1, 1, 2, 3, 4], [0]] sender0 = Inr (wire, t') \<and>
     recv_packets (abridged_recv (tcp_recv (\<lambda>k b. b))) 2
       (encrypt_args sender0, Plain [Arrived (take 2 wire), Arrived [], Arrived (drop 2 wire)]) = Inr ([[1, 2, 3, 4], []], st)"
proof -
  obtain wire t' where w: "tcp_send_all (\<lambda>k b. b) [[1, 1, 2, 3, 4], [0]] sender0 = Inr (wire, t')"
    using tcp_send_all_plain [of sender0 "\<lambda>k b. b" "[[1, 1, 2, 3, 4], [0]]"] by (auto simp: sender0_def)
  have s: "writer_open sender0" "marker_event sender0" "tls_out sender0 = None" by (simp_all add: sender0_def)
  have d: "list_all (\<lambda>d. 4 dvd length d) [[1, 2, 3, 4], [] :: bytes]" by (simp add: eval_nat_numeral)
  have "\<exists>st. recv_packets (abridged_recv (tcp_recv (\<lambda>k b. b))) (length [[1, 2, 3, 4], [] :: bytes])
      (encrypt_args sender0, Plain [Arrived (take 2 wire), Arrived [], Arrived (drop 2 wire)]) = Inr ([[1, 2, 3, 4], []], st)"
    by (rule abridged_end_to_end [OF s _ d w]) (simp_all add: abridged_send_def Let_def healthy_def)
  moreover have "length [[1, 2, 3, 4], [] :: bytes] = 2" by simp
  ultimately show ?thesis using w by metis
qed

text \<open>The padded framing strips exactly the padding. Encrypted packets, of 24 bytes plus whole
  blocks and with a key identifier that is not zero, and four-byte error codes are sent with
  up to 15 random bytes each and read back unchanged, in order, through the cipher and
  whatever pieces the network delivers.\<close>

theorem padded_end_to_end:
  assumes "writer_open t" "marker_event t" "tls_out t = None"
    and "list_all2 (\<lambda>d w. \<exists>pad. length pad < 16 \<and> padded_send pad d = Inr w) ds ws"
    and "list_all (\<lambda>d. encrypted_packet d \<or> error_packet d) ds"
    and "tcp_send_all E ws t = Inr (wire, t')" "healthy sock" "sock_bytes sock = wire"
  shows "\<exists>st. recv_packets (padded_recv (tcp_recv E)) (length ds) (encrypt_args t, Plain sock) = Inr (ds, st)"
proof -
  have "ciphered_stream E carrier_stream (encrypt_args t, Plain sock) = concat ws @ []"
    using wire_stream [OF assms(1-3,6,8)] by simp
  from padded.recv_all [OF assms(4,5) _ this] assms(7) show ?thesis by auto
qed

theorem padded_end_to_end_witness:
  "\<exists>wire t' st. tcp_send_all (\<lambda>k b. b) [[7, 0, 0, 0, 9, 8, 7, 6, 1, 2, 3]] sender0 = Inr (wire, t') \<and>
     recv_packets (padded_recv (tcp_recv (\<lambda>k b. b))) 1 (encrypt_args sender0, Plain [Arrived wire]) = Inr ([[9, 8, 7, 6]], st)"
proof -
  obtain wire t' where w: "tcp_send_all (\<lambda>k b. b) [[7, 0, 0, 0, 9, 8, 7, 6, 1, 2, 3]] sender0 = Inr (wire, t')"
    using tcp_send_all_plain [of sender0 "\<lambda>k b. b" "[[7, 0, 0, 0, 9, 8, 7, 6, 1, 2, 3]]"] by (auto simp: sender0_def)
  have s: "writer_open sender0" "marker_event sender0" "tls_out sender0 = None" by (simp_all add: sender0_def)
  have p: "\<exists>pad. length pad < 16 \<and> padded_send pad [9, 8, 7, 6] = Inr [7, 0, 0, 0, 9, 8, 7, 6, 1, 2, 3]"
    by (rule exI [of _ "[1, 2, 3]"]) (simp add: padded_send_def fits_def)
  have "\<exists>st. recv_packets (padded_recv (tcp_recv (\<lambda>k b. b))) (length [[9, 8, 7, 6] :: bytes])
      (encrypt_args sender0, Plain [Arrived wire]) = Inr ([[9, 8, 7, 6]], st)"
    by (rule padded_end_to_end [OF s _ _ w]) (use p in \<open>simp_all add: healthy_def error_packet_def\<close>)
  moreover have "length [[9, 8, 7, 6] :: bytes] = 1" by simp
  ultimately show ?thesis using w by metis
qed

text \<open>The full framing checks what it returns. A packet framed by \<open>send\<close> is read back over any
  connection; a packet that \<open>recv\<close> returns is what lies between the length and sequence
  number and the last four bytes of the frame, and these are the checksum of all before them.\<close>

theorem full_recv_checked:
  "(full_send crc32 seq d = Inr (w, seq') \<and> carrier_inv c \<and>
      ciphered_stream E carrier_stream (dec, c) = w @ rest \<longrightarrow>
      (\<exists>st. full_recv crc32 (tcp_recv E) (dec, c) = Inr (Some d, st) \<and> seq' = seq + 1)) \<and>
   (full_recv crc32 recv s = Inr (Some p, s') \<longrightarrow>
      (\<exists>l s1 b v. recv 4 s = Inr (Some l, s1) \<and> struct_unpack [FI] l = Inr v \<and>
         recv (v ! 0 - 4) s1 = Inr (Some b, s') \<and> p = drop 8 (take (length (l @ b) - 4) (l @ b)) \<and>
         (\<exists>x. struct_unpack [FI] (drop (length (l @ b) - 4) (l @ b)) = Inr x \<and>
            x ! 0 = crc32 (take (length (l @ b) - 4) (l @ b)))))"
proof (intro conjI impI; (elim conjE)?)
  assume a: "full_send crc32 seq d = Inr (w, seq')" "carrier_inv c"
    "ciphered_stream E carrier_stream (dec, c) = w @ rest"
  then show "\<exists>st. full_recv crc32 (tcp_recv E) (dec, c) = Inr (Some d, st) \<and> seq' = seq + 1"
    using tcp_bytes.full_frame [of crc32 seq d w seq' "(dec, c)" E rest]
    by (auto simp: full_send_def res_simps simp del: struct_pack.simps)
next
  assume "full_recv crc32 recv s = Inr (Some p, s')"
  then show "\<exists>l s1 b v. recv 4 s = Inr (Some l, s1) \<and> struct_unpack [FI] l = Inr v \<and>
      recv (v ! 0 - 4) s1 = Inr (Some b, s') \<and> p = drop 8 (take (length (l @ b) - 4) (l @ b)) \<and>
      (\<exists>x. struct_unpack [FI] (drop (length (l @ b) - 4) (l @ b)) = Inr x \<and>
         x ! 0 = crc32 (take (length (l @ b) - 4) (l @ b)))"
    by (fastforce simp: full_recv_def res_simps Let_def split: option.splits if_splits)
qed

theorem full_recv_checked_witness:
  "\<exists>w st. full_send (\<lambda>x. int (length x)) 5 [1, 2, 3] = Inr (w, 6) \<and>
     full_recv (\<lambda>x. int (length x)) (tcp_recv (\<lambda>k b. b)) (None, Plain [Arrived w]) = Inr (Some [1, 2, 3], st)"
proof -
  obtain w where w: "full_send (\<lambda>x. int (length x)) 5 [1, 2, 3] = Inr (w, 6)"
    by (simp add: full_send_def fits_def)
  have "ciphered_stream (\<lambda>k b. b) carrier_stream (None, Plain [Arrived w]) = w @ []"
    by (simp add: ciphered_stream_def)
  with full_recv_checked [of "\<lambda>x. int (length x)" 5 "[1, 2, 3]" w 6 "Plain [Arrived w]"] w show ?thesis
    by (fastforce simp: healthy_def)
qed

text \<open>Fake TLS records are transparent. Whatever the size of the data, what \<open>wrap\<close> writes
  after the one change-cipher-spec is a sequence of records of at most 2878 bytes, from which
  \<open>recv\<close> returns the header that was waiting and the data, byte for byte, in reads of any
  size and whatever pieces the network delivers.\<close>

theorem records_transparent:
  assumes "healthy sock"
    and "fst (records_wrap d w) = (if sent_change_cipher_spec w then [] else CHANGE_CIPHER_SPEC) @ sock_bytes sock"
    and "prologue w @ d = a @ b @ c"
  shows "\<exists>st st'. records_recv (int (length a)) ([], sock) = Inr (Some a, st) \<and>
    records_recv (int (length b)) st = Inr (Some b, st')"
proof -
  obtain cs where cs: "list_all record_ok cs" "concat cs = prologue w @ d"
      "fst (records_wrap d w) = (if sent_change_cipher_spec w then [] else CHANGE_CIPHER_SPEC) @ concat (map tls_record cs)"
    using records_wrap_form [of w d] by auto
  with assms(2) have sb: "sock_bytes sock = concat (map tls_record cs)" by simp
  have i: "records_inv ([], sock)" using assms(1) cs(1) sb by (auto simp: records_inv_def)
  have "records_stream ([], sock) = a @ b @ c"
    using records_stream_form [OF cs(1) sb, of "[]"] cs(2) assms(3) by simp
  from tls_stream.recv_take [OF i this refl] obtain st where
      "records_recv (int (length a)) ([], sock) = Inr (Some a, st)" "records_inv st" "records_stream st = b @ c" by auto
  moreover from tls_stream.recv_take [OF this(2,3) refl] obtain st' where
      "records_recv (int (length b)) st = Inr (Some b, st')" by auto
  ultimately show ?thesis by blast
qed

theorem records_transparent_witness:
  "\<exists>st st'. records_recv 1 ([], [Arrived [0x17, 3, 3, 0], Arrived [3, 5, 6, 7]]) = Inr (Some [5], st) \<and>
     records_recv 2 st = Inr (Some [6, 7], st')"
proof -
  have c: "chunks_of MAX_RECORD_PAYLOAD [5, 6, 7] = [[5, 6, 7] :: bytes]"
    by (simp add: chunks_of.simps MAX_RECORD_PAYLOAD_def)
  have "\<exists>st st'. records_recv (int (length ([5] :: bytes))) ([], [Arrived [0x17, 3, 3, 0], Arrived [3, 5, 6, 7]]) = Inr (Some [5], st) \<and>
     records_recv (int (length ([6, 7] :: bytes))) st = Inr (Some [6, 7], st')"
    by (rule records_transparent [where w = "\<lparr>prologue = [5], sent_change_cipher_spec = False\<rparr>" and d = "[6, 7]" and c = "[]"])
      (simp_all add: healthy_def records_wrap_def c tls_record_def APPLICATION_DATA_PREFIX_def be_bytes_def Let_def)
  then show ?thesis by simp
qed

end
