(* ===== verification/Proxy_Config.thy ===== *)
theory Proxy_Config
  imports Base64
begin

text \<open>
  \<open>connection/proxy.py\<close>: the proxies a connection may go through, the decoding of MTProxy
  secrets and the dictionary form of a proxy. A text is a list of code points. The link and
  URL forms (\<open>_parse_proxy_link\<close>) are not modelled. The test for an IP literal and the IDNA
  codec enter as parameters of the hostname check.
\<close>

section \<open>Proxies\<close>

datatype ProxyScheme = SOCKS4 | SOCKS5 | HTTP | MTPROXY | WEB

record dialed_proxy =
  dp_hostname :: pystr
  dp_port :: int
  dp_username :: "pystr option"
  dp_password :: "pystr option"

record mt_proxy =
  mp_hostname :: pystr
  mp_port :: int
  mp_secret :: bytes
  mp_sni_hostname :: "pystr option"

record web_proxy =
  wp_hostname :: pystr
  wp_secret :: bytes

datatype Proxy =
    SOCKS4Proxy dialed_proxy
  | SOCKS5Proxy dialed_proxy
  | HTTPProxy dialed_proxy
  | MTProxy mt_proxy
  | WebProxy web_proxy

definition OBFUSCATED2_SECRET_SIZE :: nat where "OBFUSCATED2_SECRET_SIZE = 16"
definition MARKED_SECRET_SIZE :: nat where "MARKED_SECRET_SIZE = OBFUSCATED2_SECRET_SIZE + 1"
definition HTTPS_PORT :: int where "HTTPS_PORT = 443"

fun client_proxy_address :: "Proxy option \<Rightarrow> (pystr \<times> int) option" where
  "client_proxy_address (Some (MTProxy p)) = Some (mp_hostname p, mp_port p)"
| "client_proxy_address (Some (WebProxy p)) = Some (wp_hostname p, HTTPS_PORT)"
| "client_proxy_address _ = None"

fun uses_random_padding :: "Proxy option \<Rightarrow> bool" where
  "uses_random_padding (Some (MTProxy p)) =
     (mp_sni_hostname p \<noteq> None \<or> length (mp_secret p) = MARKED_SECRET_SIZE)"
| "uses_random_padding (Some (WebProxy p)) = (length (wp_secret p) = MARKED_SECRET_SIZE)"
| "uses_random_padding _ = False"

section \<open>Texts of secrets\<close>

text \<open>\<open>bytes.fromhex\<close>: pairs of hexadecimal digits, with ASCII white space between pairs.\<close>

definition hex_val :: "nat \<Rightarrow> nat option" where
  "hex_val c =
     (if 48 \<le> c \<and> c \<le> 57 then Some (c - 48)
      else if 97 \<le> c \<and> c \<le> 102 then Some (c - 87)
      else if 65 \<le> c \<and> c \<le> 70 then Some (c - 55)
      else None)"

definition ascii_space :: "nat \<Rightarrow> bool" where
  "ascii_space c \<longleftrightarrow> c = 32 \<or> 9 \<le> c \<and> c \<le> 13"

fun fromhex :: "pystr \<Rightarrow> bytes option" where
  "fromhex [] = Some []"
| "fromhex [c] = (if ascii_space c then Some [] else None)"
| "fromhex (c # d # s) =
     (if ascii_space c then fromhex (d # s)
      else case (hex_val c, hex_val d) of
        (Some a, Some b) \<Rightarrow> map_option (\<lambda>r. of_nat (16 * a + b) # r) (fromhex s)
      | _ \<Rightarrow> None)"

text \<open>
  \<open>base64.b64decode(s, altchars=b"-_", validate=True)\<close>: only the alphabet and the padding,
  which may not lead, may not be interrupted and ends the text. The state is the position in
  the group of four, the bits left over, the pads seen and whether padding has begun.
\<close>

definition b64_code :: "nat \<Rightarrow> nat option" where
  "b64_code c = (if c < 128 then b64_val (char_of c) else None)"

fun a2b_strict :: "nat \<Rightarrow> nat \<Rightarrow> nat \<Rightarrow> bool \<Rightarrow> pystr \<Rightarrow> nat list option" where
  "a2b_strict q l p started [] = (if q = 0 then Some [] else None)"
| "a2b_strict q l p started (c # cs) =
     (if c = 61 then
        (if 2 \<le> q \<and> 4 \<le> q + (p + 1) then (if cs = [] then Some [] else None)
         else a2b_strict q l (if 2 \<le> q then p + 1 else p) True cs)
      else case b64_code c of
        None \<Rightarrow> None
      | Some v \<Rightarrow>
          (if started then None
           else if q = 0 then a2b_strict 1 v 0 started cs
           else if q = 1 then map_option (\<lambda>r. (l * 4 + v div 16) # r) (a2b_strict 2 (v mod 16) 0 started cs)
           else if q = 2 then map_option (\<lambda>r. (l * 16 + v div 4) # r) (a2b_strict 3 (v mod 4) 0 started cs)
           else map_option (\<lambda>r. (l * 64 + v) # r) (a2b_strict 0 0 0 started cs)))"

definition base64_decoded :: "pystr \<Rightarrow> bytes option" where
  "base64_decoded encoded_secret =
     (let padded = encoded_secret @ replicate (pad_to 4 (length encoded_secret)) 61 in
      if padded \<noteq> [] \<and> hd padded = 61 then None
      else map_option (map of_nat) (a2b_strict 0 0 0 False padded))"

definition decode_proxy_secret :: "pystr \<Rightarrow> bytes res" where
  "decode_proxy_secret encoded_secret =
     (case fromhex encoded_secret of
        Some b \<Rightarrow> Inr b
      | None \<Rightarrow> (case base64_decoded encoded_secret of Some b \<Rightarrow> Inr b | None \<Rightarrow> Inl ValueError))"

definition PADDED_MARKER :: byte where "PADDED_MARKER = 0xDD"
definition FAKE_TLS_MARKER :: byte where "FAKE_TLS_MARKER = 0xEE"
definition MAX_SNI_DOMAIN_SIZE :: nat where "MAX_SNI_DOMAIN_SIZE = 182"

record decoded_secret =
  ds_secret :: bytes
  ds_sni_hostname :: "pystr option"

definition decode_fake_tls_secret :: "bytes \<Rightarrow> decoded_secret res" where
  "decode_fake_tls_secret full_secret =
     (let domain = drop MARKED_SECRET_SIZE full_secret in
      if length domain > MAX_SNI_DOMAIN_SIZE then Inl ValueError
      else if \<not> list_all (\<lambda>b. unat b < 128) domain then Inl ValueError
      else Inr \<lparr>ds_secret = drop 1 (take MARKED_SECRET_SIZE full_secret),
                ds_sni_hostname = Some (map unat domain)\<rparr>)"

definition decode_mtproxy_secret :: "pystr \<Rightarrow> ProxyScheme \<Rightarrow> decoded_secret res" where
  "decode_mtproxy_secret encoded_secret scheme =
     bind_res (decode_proxy_secret encoded_secret) (\<lambda>full_secret.
       if length full_secret = OBFUSCATED2_SECRET_SIZE then
         Inr \<lparr>ds_secret = full_secret, ds_sni_hostname = None\<rparr>
       else if length full_secret = MARKED_SECRET_SIZE \<and> full_secret ! 0 = PADDED_MARKER then
         Inr \<lparr>ds_secret = full_secret, ds_sni_hostname = None\<rparr>
       else if length full_secret > MARKED_SECRET_SIZE \<and> full_secret ! 0 = FAKE_TLS_MARKER then
         (if scheme = WEB then Inl ValueError else decode_fake_tls_secret full_secret)
       else Inl ValueError)"

section \<open>Building proxies\<close>

text \<open>
  \<open>str.strip\<close> and \<open>rstrip(".")\<close>; the white space is the one of \<open>str.isspace\<close>, a parameter.
\<close>

definition strip_both :: "('a \<Rightarrow> bool) \<Rightarrow> 'a list \<Rightarrow> 'a list" where
  "strip_both P s = rev (dropWhile P (rev (dropWhile P s)))"

definition rstrip :: "('a \<Rightarrow> bool) \<Rightarrow> 'a list \<Rightarrow> 'a list" where
  "rstrip P s = rev (dropWhile P (rev s))"

definition ascii_lower :: "nat \<Rightarrow> nat" where
  "ascii_lower c = (if 65 \<le> c \<and> c \<le> 90 then c + 32 else c)"

definition canonicalize_web_hostname ::
  "(nat \<Rightarrow> bool) \<Rightarrow> (pystr \<Rightarrow> bool) \<Rightarrow> (pystr \<Rightarrow> pystr option) \<Rightarrow> pystr \<Rightarrow> pystr res"
where
  "canonicalize_web_hostname isspace is_ip_literal idna hostname =
     (let hostname = rstrip (\<lambda>c. c = 46) (strip_both isspace hostname) in
      if hostname = [] then Inl ValueError
      else if is_ip_literal hostname then Inl ValueError
      else case idna hostname of
        None \<Rightarrow> Inl ValueError
      | Some a \<Rightarrow>
          (let canonical = map ascii_lower a in
           if 46 \<notin> set canonical then Inl ValueError else Inr canonical))"

definition build_web_proxy :: "(pystr \<Rightarrow> pystr res) \<Rightarrow> pystr \<Rightarrow> pystr \<Rightarrow> Proxy res" where
  "build_web_proxy canonicalize hostname encoded_secret =
     bind_res (decode_mtproxy_secret encoded_secret WEB) (\<lambda>decoded.
     bind_res (canonicalize hostname) (\<lambda>h.
       Inr (WebProxy \<lparr>wp_hostname = h, wp_secret = ds_secret decoded\<rparr>)))"

definition build_mtproxy :: "pystr \<Rightarrow> int \<Rightarrow> pystr \<Rightarrow> Proxy res" where
  "build_mtproxy hostname port encoded_secret =
     bind_res (decode_mtproxy_secret encoded_secret MTPROXY) (\<lambda>decoded.
       Inr (MTProxy \<lparr>mp_hostname = hostname, mp_port = port, mp_secret = ds_secret decoded,
                     mp_sni_hostname = ds_sni_hostname decoded\<rparr>))"

text \<open>\<open>_DIALED_PROXY_TYPES[scheme]\<close> has no entry for the two other schemes.\<close>

definition build_dialed_proxy ::
  "ProxyScheme \<Rightarrow> pystr \<Rightarrow> int \<Rightarrow> pystr option \<Rightarrow> pystr option \<Rightarrow> Proxy res"
where
  "build_dialed_proxy scheme hostname port username password =
     (let p = \<lparr>dp_hostname = hostname, dp_port = port, dp_username = username, dp_password = password\<rparr> in
      case scheme of
        SOCKS4 \<Rightarrow> Inr (SOCKS4Proxy p)
      | SOCKS5 \<Rightarrow> Inr (SOCKS5Proxy p)
      | HTTP \<Rightarrow> Inr (HTTPProxy p)
      | _ \<Rightarrow> Inl (KeyError 0))"

text \<open>
  The scheme is given as a member or as a text. Lower-casing maps to a letter of the scheme
  names exactly the ASCII capitals and the Kelvin sign.
\<close>

datatype scheme_arg = SchemeMember ProxyScheme | SchemeText pystr

definition ptext :: "string \<Rightarrow> pystr" where
  "ptext s = map of_char s"

fun scheme_value :: "ProxyScheme \<Rightarrow> pystr" where
  "scheme_value SOCKS4 = ptext ''socks4''"
| "scheme_value SOCKS5 = ptext ''socks5''"
| "scheme_value HTTP = ptext ''http''"
| "scheme_value MTPROXY = ptext ''mtproxy''"
| "scheme_value WEB = ptext ''web''"

definition lower :: "nat \<Rightarrow> nat" where
  "lower c = (if c = 0x212A then 0x6B else ascii_lower c)"

definition parse_scheme :: "scheme_arg option \<Rightarrow> ProxyScheme res" where
  "parse_scheme v =
     (case v of
        Some (SchemeMember m) \<Rightarrow> Inr m
      | None \<Rightarrow> Inl ValueError
      | Some (SchemeText s) \<Rightarrow>
          if s = [] then Inl ValueError
          else case filter (\<lambda>m. scheme_value m = map lower s) [SOCKS4, SOCKS5, HTTP, MTPROXY, WEB] of
            [] \<Rightarrow> Inl ValueError | m # _ \<Rightarrow> Inr m)"

record proxy_dict =
  pd_scheme :: "scheme_arg option"
  pd_hostname :: "pystr option"
  pd_port :: "int option"
  pd_secret :: "pystr option"
  pd_username :: "pystr option"
  pd_password :: "pystr option"

definition port_given :: "int option \<Rightarrow> bool" where
  "port_given p = (case p of None \<Rightarrow> False | Some n \<Rightarrow> n \<noteq> 0)"

definition parse_proxy_dict :: "(pystr \<Rightarrow> pystr res) \<Rightarrow> proxy_dict \<Rightarrow> Proxy res" where
  "parse_proxy_dict canonicalize d =
     bind_res (parse_scheme (pd_scheme d)) (\<lambda>scheme.
       if scheme = WEB then
         (if \<not> truthy (pd_hostname d) \<or> \<not> truthy (pd_secret d) then Inl ValueError
          else build_web_proxy canonicalize (the (pd_hostname d)) (the (pd_secret d)))
       else if scheme = MTPROXY then
         (if \<not> truthy (pd_hostname d) \<or> \<not> port_given (pd_port d) \<or> \<not> truthy (pd_secret d) then Inl ValueError
          else build_mtproxy (the (pd_hostname d)) (the (pd_port d)) (the (pd_secret d)))
       else if \<not> truthy (pd_hostname d) \<or> \<not> port_given (pd_port d) then Inl ValueError
       else build_dialed_proxy scheme (the (pd_hostname d)) (the (pd_port d)) (pd_username d) (pd_password d))"

section \<open>What a decoded secret looks like\<close>

definition secret_ok :: "bytes \<Rightarrow> bool" where
  "secret_ok s \<longleftrightarrow> length s = 16 \<or> length s = 17 \<and> s ! 0 = PADDED_MARKER"

definition sni_ok :: "pystr \<Rightarrow> bool" where
  "sni_ok d \<longleftrightarrow> d \<noteq> [] \<and> length d \<le> 182 \<and> (\<forall>c \<in> set d. c < 128)"

lemma decode_mtproxy_secret_ok:
  assumes "decode_mtproxy_secret e scheme = Inr ds"
  shows "secret_ok (ds_secret ds) \<and>
    (case ds_sni_hostname ds of None \<Rightarrow> True
     | Some d \<Rightarrow> scheme \<noteq> WEB \<and> sni_ok d \<and> length (ds_secret ds) = 16)"
  using assms
  by (auto simp: decode_mtproxy_secret_def decode_fake_tls_secret_def res_simps secret_ok_def sni_ok_def Let_def
      OBFUSCATED2_SECRET_SIZE_def MARKED_SECRET_SIZE_def MAX_SNI_DOMAIN_SIZE_def list_all_iff split: if_splits)

text \<open>The invariant of every proxy that comes out of the parser.\<close>

fun proxy_ok :: "Proxy \<Rightarrow> bool" where
  "proxy_ok (MTProxy p) =
     (secret_ok (mp_secret p) \<and>
      (case mp_sni_hostname p of None \<Rightarrow> True | Some d \<Rightarrow> sni_ok d \<and> length (mp_secret p) = 16))"
| "proxy_ok (WebProxy p) = secret_ok (wp_secret p)"
| "proxy_ok _ = True"

lemma parse_proxy_dict_ok: "parse_proxy_dict canon d = Inr p \<Longrightarrow> proxy_ok p"
  by (auto simp: parse_proxy_dict_def build_web_proxy_def build_mtproxy_def build_dialed_proxy_def res_simps Let_def
      dest!: decode_mtproxy_secret_ok split: if_splits ProxyScheme.splits option.splits)

text \<open>Hexadecimal texts are read back.\<close>

definition hex_digit :: "nat \<Rightarrow> nat" where
  "hex_digit v = (if v < 10 then v + 48 else v + 87)"

definition to_hex :: "bytes \<Rightarrow> pystr" where
  "to_hex b = concat (map (\<lambda>x. [hex_digit (unat x div 16), hex_digit (unat x mod 16)]) b)"

lemma hex_val_digit: "v < 16 \<Longrightarrow> hex_val (hex_digit v) = Some v \<and> \<not> ascii_space (hex_digit v)"
  by (auto simp: hex_val_def hex_digit_def ascii_space_def)

lemma fromhex_to_hex: "fromhex (to_hex b) = Some b"
proof (induction b)
  case (Cons x b)
  have d: "unat x div 16 < 16" "unat x mod 16 < 16"
    using unat_byte_lt [of x] by (simp_all add: less_mult_imp_div_less)
  have "16 * (unat x div 16) + unat x mod 16 = unat x" by simp
  with Cons hex_val_digit [OF d(1)] hex_val_digit [OF d(2)] show ?case
    by (simp add: to_hex_def)
qed (simp add: to_hex_def)


section \<open>Properties\<close>

lemma decode_hex: "decode_proxy_secret (to_hex s) = Inr s"
  by (simp add: decode_proxy_secret_def fromhex_to_hex)

text \<open>Each form of an MTProxy secret decodes to what it stands for. In hexadecimal, 16 bytes are
  a plain key whatever their first byte; a dd marker and 16 bytes are kept as they are; an ee
  marker, a 16-byte key and an ASCII domain of 1 to 182 bytes give the key and the domain, and
  are refused for the WEB scheme.\<close>

theorem mtproxy_secret_forms:
  assumes "length key = 16"
  shows "decode_mtproxy_secret (to_hex key) sch = Inr \<lparr>ds_secret = key, ds_sni_hostname = None\<rparr> \<and>
    decode_mtproxy_secret (to_hex (PADDED_MARKER # key)) sch =
      Inr \<lparr>ds_secret = PADDED_MARKER # key, ds_sni_hostname = None\<rparr> \<and>
    (domain \<noteq> [] \<longrightarrow> length domain \<le> 182 \<longrightarrow> list_all (\<lambda>b. unat b < 128) domain \<longrightarrow>
      decode_mtproxy_secret (to_hex (FAKE_TLS_MARKER # key @ domain)) sch =
        (if sch = WEB then Inl ValueError
         else Inr \<lparr>ds_secret = key, ds_sni_hostname = Some (map unat domain)\<rparr>))"
  using assms
  by (auto simp: decode_mtproxy_secret_def decode_hex decode_fake_tls_secret_def Let_def
      OBFUSCATED2_SECRET_SIZE_def MARKED_SECRET_SIZE_def MAX_SNI_DOMAIN_SIZE_def FAKE_TLS_MARKER_def PADDED_MARKER_def)

theorem mtproxy_secret_forms_witness:
  "decode_mtproxy_secret (to_hex (FAKE_TLS_MARKER # replicate 16 1 @ [97, 46, 98])) MTPROXY =
     Inr \<lparr>ds_secret = replicate 16 1, ds_sni_hostname = Some [97, 46, 98]\<rparr>"
  using mtproxy_secret_forms [of "replicate 16 1" MTPROXY "[97, 46, 98]"] by simp

end
