(* ===== verification/Obfuscation.thy ===== *)
theory Obfuscation
  imports Transports Proxy_Config
begin

text \<open>
  The obfuscated2 handshake of \<open>tcp.py\<close>, \<open>tcp_abridged_o.py\<close> and
  \<open>tcp_intermediate_o.py\<close>, and \<open>connection.py\<close>, which chooses the transport and dials it.
  The random draws and \<open>sha256\<close> are parameters.
\<close>

section \<open>The nonce\<close>

definition OBFUSCATED2_RESERVED_PREFIXES :: "bytes list" where
  "OBFUSCATED2_RESERVED_PREFIXES =
     [[0x48, 0x45, 0x41, 0x44], [0x50, 0x4F, 0x53, 0x54], [0x47, 0x45, 0x54, 0x20],
      [0x4F, 0x50, 0x54, 0x49], [0xdd, 0xdd, 0xdd, 0xdd], [0xee, 0xee, 0xee, 0xee],
      [0x16, 0x03, 0x01, 0x02]]"

definition RESERVED :: "bytes list" where
  "RESERVED =
     [[0x48, 0x45, 0x41, 0x44], [0x50, 0x4F, 0x53, 0x54], [0x47, 0x45, 0x54, 0x20],
      [0x4F, 0x50, 0x54, 0x49], [0xee, 0xee, 0xee, 0xee]]"

definition ABRIDGED_OBFUSCATE_TAG :: bytes where "ABRIDGED_OBFUSCATE_TAG = [0xef, 0xef, 0xef, 0xef]"
definition INTERMEDIATE_PADDED_OBFUSCATE_TAG :: bytes where
  "INTERMEDIATE_PADDED_OBFUSCATE_TAG = [0xdd, 0xdd, 0xdd, 0xdd]"

definition nonce_ok :: "bytes list \<Rightarrow> bytes \<Rightarrow> bool" where
  "nonce_ok reserved nonce \<longleftrightarrow>
     nonce ! 0 \<noteq> 0xEF \<and> take 4 nonce \<notin> set reserved \<and> py_slice 4 8 nonce \<noteq> [0, 0, 0, 0]"

text \<open>The loop draws until a nonce fits; it returns nothing while the draws given do not have one.\<close>

fun generate_obfuscated2_nonce :: "bytes list \<Rightarrow> bytes list \<Rightarrow> bytes option" where
  "generate_obfuscated2_nonce reserved [] = None"
| "generate_obfuscated2_nonce reserved (nonce # draws) =
     (if nonce_ok reserved nonce then Some nonce else generate_obfuscated2_nonce reserved draws)"

definition finalize_obfuscated2_tag ::
  "(bytes \<Rightarrow> bytes \<Rightarrow> bytes) \<Rightarrow> bytes \<Rightarrow> cipher_args \<Rightarrow> bytes \<times> cipher_args"
where
  "finalize_obfuscated2_tag E nonce encrypt =
     (let (x, c) = ctr256_encrypt E (fst encrypt) (snd encrypt) nonce in (py_slice 56 64 x, fst encrypt, c))"

text \<open>\<open>b[i : i + len(x)] = x\<close> on a buffer that is long enough.\<close>

definition put :: "nat \<Rightarrow> bytes \<Rightarrow> bytes \<Rightarrow> bytes" where
  "put i x b = take i b @ x @ drop (i + length x) b"

record obfuscated2_header =
  oh_header :: bytes
  oh_encrypt :: cipher_args
  oh_decrypt :: cipher_args

definition fresh_ctr :: "bytes \<Rightarrow> ctr_state" where
  "fresh_ctr v = \<lparr>ctr_iv = v, ctr_pos = 0\<rparr>"

text \<open>\<open>nonce[55:7:-1]\<close>\<close>

definition reversed_tail_of :: "bytes \<Rightarrow> bytes" where
  "reversed_tail_of nonce = rev (py_slice 8 56 nonce)"

definition build_obfuscated2_header ::
  "(bytes \<Rightarrow> bytes) \<Rightarrow> (bytes \<Rightarrow> bytes \<Rightarrow> bytes) \<Rightarrow> bytes list \<Rightarrow> bytes \<Rightarrow> int \<Rightarrow> bytes \<Rightarrow>
   obfuscated2_header option res"
where
  "build_obfuscated2_header sha256 E draws secret dc_id obfuscate_tag =
     (if length secret \<noteq> OBFUSCATED2_SECRET_SIZE then Inl ValueError
      else if length obfuscate_tag \<noteq> 4 then Inl ValueError
      else case generate_obfuscated2_nonce OBFUSCATED2_RESERVED_PREFIXES draws of
        None \<Rightarrow> Inr None
      | Some nonce \<Rightarrow>
          (let reversed_tail = reversed_tail_of nonce;
               encrypt_key = sha256 (py_slice 8 40 nonce @ secret);
               encrypt_iv = py_slice 40 56 nonce;
               decrypt_key = sha256 (take 32 reversed_tail @ secret);
               decrypt_iv = py_slice 32 48 reversed_tail;
               encrypt = (encrypt_key, fresh_ctr encrypt_iv);
               decrypt = (decrypt_key, fresh_ctr decrypt_iv);
               nonce = put 56 obfuscate_tag nonce
           in bind_res (to_bytes_le 2 True dc_id) (\<lambda>d.
                (let nonce = put 60 d nonce;
                     (tail, encrypt) = finalize_obfuscated2_tag E nonce encrypt;
                     nonce = put 56 tail nonce
                 in Inr (Some \<lparr>oh_header = nonce, oh_encrypt = encrypt, oh_decrypt = decrypt\<rparr>)))))"

text \<open>The handshakes of the two obfuscated transports, without a secret: what they send and keep.\<close>

definition o_handshake ::
  "(bytes \<Rightarrow> bytes \<Rightarrow> bytes) \<Rightarrow> bytes \<Rightarrow> bytes \<Rightarrow> obfuscated2_header"
where
  "o_handshake E tag nonce =
     (let nonce = put 56 tag nonce;
          temp = reversed_tail_of nonce;
          encrypt = (py_slice 8 40 nonce, fresh_ctr (py_slice 40 56 nonce));
          decrypt = (take 32 temp, fresh_ctr (py_slice 32 48 temp));
          (tail, encrypt) = finalize_obfuscated2_tag E nonce encrypt
      in \<lparr>oh_header = put 56 tail nonce, oh_encrypt = encrypt, oh_decrypt = decrypt\<rparr>)"

definition abridged_o_connect :: "(bytes \<Rightarrow> bytes \<Rightarrow> bytes) \<Rightarrow> bytes list \<Rightarrow> obfuscated2_header option" where
  "abridged_o_connect E draws =
     map_option (o_handshake E ABRIDGED_OBFUSCATE_TAG)
       (generate_obfuscated2_nonce OBFUSCATED2_RESERVED_PREFIXES draws)"

definition intermediate_o_connect :: "(bytes \<Rightarrow> bytes \<Rightarrow> bytes) \<Rightarrow> bytes list \<Rightarrow> obfuscated2_header option" where
  "intermediate_o_connect E draws =
     map_option (o_handshake E [0xEE, 0xEE, 0xEE, 0xEE]) (generate_obfuscated2_nonce RESERVED draws)"

section \<open>What the server reads\<close>

text \<open>
  The peer: it takes the key and the counter from the bytes in clear, deciphers the header and
  goes on with that state.
\<close>

definition server_key :: "(bytes \<Rightarrow> bytes) \<Rightarrow> bytes \<Rightarrow> bytes \<Rightarrow> bytes" where
  "server_key sha256 secret header = sha256 (py_slice 8 40 header @ secret)"

definition server_reads ::
  "(bytes \<Rightarrow> bytes \<Rightarrow> bytes) \<Rightarrow> bytes \<Rightarrow> bytes \<Rightarrow> bytes \<times> ctr_state"
where
  "server_reads E key header = ctr256_decrypt E key (fresh_ctr (py_slice 40 56 header)) header"

lemma py_slice_xor_each: "py_slice i j (xor_each a b) = xor_each (py_slice i j a) (py_slice i j b)"
  by (simp add: py_slice_def xor_each_def take_map drop_map take_zip drop_zip)

lemma length_put: "i + length x \<le> length b \<Longrightarrow> length (put i x b) = length b"
  by (simp add: put_def)

lemma py_slice_put_before: "j \<le> i \<Longrightarrow> i \<le> length b \<Longrightarrow> py_slice k j (put i x b) = py_slice k j b"
  by (simp add: py_slice_def put_def min_def)

lemma py_slice_put_at: "i + length x = j \<Longrightarrow> i \<le> length b \<Longrightarrow> py_slice i j (put i x b) = x"
  by (simp add: py_slice_def put_def)

lemma take_put_before: "j \<le> i \<Longrightarrow> i \<le> length b \<Longrightarrow> take j (put i x b) = take j b"
  by (simp add: put_def min_def)

lemma finalized_header:
  assumes n: "length nonce = 64" and f: "finalize_obfuscated2_tag E nonce (key, fresh_ctr v) = (tail, enc)"
  shows "fst enc = key" "snd (ctr256_decrypt E key (fresh_ctr v) (put 56 tail nonce)) = snd enc"
    "py_slice 56 64 (fst (ctr256_decrypt E key (fresh_ctr v) (put 56 tail nonce))) = py_slice 56 64 nonce"
    "length tail = 8" "length (put 56 tail nonce) = 64" "take 56 (put 56 tail nonce) = take 56 nonce"
proof -
  let ?ks = "key_stream (E key) (fresh_ctr v) 64"
  have c: "ctr256_encrypt E key (fresh_ctr v) x = (xor_each x ?ks, (ctr_advance ^^ 64) (fresh_ctr v))"
    if "length x = 64" for x
    using that by (simp add: ctr256_encrypt_def ctr_loop_key_stream del: key_stream.simps)
  have t: "tail = py_slice 56 64 (xor_each nonce ?ks)" and e: "enc = (key, (ctr_advance ^^ 64) (fresh_ctr v))"
    using f by (auto simp: finalize_obfuscated2_tag_def c [OF n] Let_def)
  show lt: "length tail = 8" using n by (simp add: t)
  show lp: "length (put 56 tail nonce) = 64" using lt n by (simp add: length_put)
  show "fst enc = key" by (simp add: e)
  show "snd (ctr256_decrypt E key (fresh_ctr v) (put 56 tail nonce)) = snd enc"
    by (simp add: ctr256_decrypt_eq c [OF lp] e)
  have "py_slice 56 64 (put 56 tail nonce) = tail" using lt n by (simp add: py_slice_put_at)
  moreover have "xor_each tail (py_slice 56 64 ?ks) = py_slice 56 64 nonce"
    unfolding t py_slice_xor_each using n by (intro xor_each_cancel) simp
  ultimately show "py_slice 56 64 (fst (ctr256_decrypt E key (fresh_ctr v) (put 56 tail nonce))) = py_slice 56 64 nonce"
    by (simp add: ctr256_decrypt_eq c [OF lp] py_slice_xor_each)
  show "take 56 (put 56 tail nonce) = take 56 nonce" using n by (simp add: take_put_before)
qed

lemma generate_nonce_ok:
  "generate_obfuscated2_nonce reserved draws = Some n \<Longrightarrow> n \<in> set draws \<and> nonce_ok reserved n"
  by (induction draws) (auto split: if_splits)

lemma generate_nonce_finds:
  "n \<in> set draws \<Longrightarrow> nonce_ok reserved n \<Longrightarrow> \<exists>m. generate_obfuscated2_nonce reserved draws = Some m"
  by (induction draws) auto

lemma py_slice_take: "j \<le> k \<Longrightarrow> py_slice i j b = py_slice i j (take k b)"
  by (simp add: py_slice_def min_def)

lemma py_slice_cong: "take k a = take k b \<Longrightarrow> j \<le> k \<Longrightarrow> py_slice i j a = py_slice i j b"
  by (metis py_slice_take)

lemma take_cong_le: "take k a = take k b \<Longrightarrow> j \<le> k \<Longrightarrow> take j a = take j b"
  by (metis min.absorb1 take_take)


lemma build_header_reads:
  assumes b: "build_obfuscated2_header sha256 E draws secret dc tag = Inr (Some h)"
    and d: "\<forall>n \<in> set draws. length n = 64"
  shows "\<exists>dcb. to_bytes_le 2 True dc = Inr dcb \<and> length (oh_header h) = 64 \<and>
    nonce_ok OBFUSCATED2_RESERVED_PREFIXES (oh_header h) \<and>
    oh_encrypt h = (server_key sha256 secret (oh_header h),
      snd (server_reads E (server_key sha256 secret (oh_header h)) (oh_header h))) \<and>
    py_slice 56 62 (fst (server_reads E (server_key sha256 secret (oh_header h)) (oh_header h))) = tag @ dcb \<and>
    oh_decrypt h = (sha256 (take 32 (reversed_tail_of (oh_header h)) @ secret),
      fresh_ctr (py_slice 32 48 (reversed_tail_of (oh_header h))))"
proof -
  from b have lt: "length tag = 4" by (auto simp: build_obfuscated2_header_def split: if_splits)
  from b obtain n where n: "generate_obfuscated2_nonce OBFUSCATED2_RESERVED_PREFIXES draws = Some n"
    by (auto simp: build_obfuscated2_header_def split: if_splits option.splits)
  from generate_nonce_ok [OF n] d have ln: "length n = 64" and ok: "nonce_ok OBFUSCATED2_RESERVED_PREFIXES n" by auto
  let ?key = "sha256 (py_slice 8 40 n @ secret)"
  from b n obtain dcb where dcb: "to_bytes_le 2 True dc = Inr dcb"
    by (cases "to_bytes_le 2 True dc") (auto simp: build_obfuscated2_header_def Let_def split: if_splits)
  have ld: "length dcb = 2" using to_bytes_le_length [OF dcb] .
  define m where "m = put 60 dcb (put 56 tag n)"
  obtain tail enc where f: "finalize_obfuscated2_tag E m (?key, fresh_ctr (py_slice 40 56 n)) = (tail, enc)"
    by (cases "finalize_obfuscated2_tag E m (?key, fresh_ctr (py_slice 40 56 n))")
  have lm: "length m = 64" using ln lt ld by (simp add: m_def length_put)
  have tm: "take 56 m = take 56 n" using ln lt by (simp add: m_def take_put_before length_put)
  have mt: "py_slice 56 62 m = tag @ dcb"
    using ln lt ld by (simp add: m_def put_def py_slice_def)
  from b n dcb have h: "h = \<lparr>oh_header = put 56 tail m, oh_encrypt = enc,
      oh_decrypt = (sha256 (take 32 (reversed_tail_of n) @ secret), fresh_ctr (py_slice 32 48 (reversed_tail_of n)))\<rparr>"
    using f by (auto simp: build_obfuscated2_header_def Let_def m_def split: if_splits)
  note fin = finalized_header [OF lm f]
  have th: "take 56 (put 56 tail m) = take 56 n" using fin(6) tm by simp
  note sl = py_slice_cong [OF th]
  have rt: "reversed_tail_of (put 56 tail m) = reversed_tail_of n"
    unfolding reversed_tail_of_def using sl [of 56 8] by simp
  have "put 56 tail m ! 0 = n ! 0" using th by (metis nth_take zero_less_numeral)
  then have "nonce_ok OBFUSCATED2_RESERVED_PREFIXES (put 56 tail m)"
    using ok take_cong_le [OF th, of 4] sl [of 8 4] by (simp add: nonce_ok_def)
  moreover have "server_key sha256 secret (put 56 tail m) = ?key" using sl [of 40 8] by (simp add: server_key_def)
  moreover have "server_reads E ?key (put 56 tail m) = ctr256_decrypt E ?key (fresh_ctr (py_slice 40 56 n)) (put 56 tail m)"
    using sl [of 56 40] by (simp add: server_reads_def)
  moreover have "py_slice 56 62 x = take 6 (py_slice 56 64 x)" for x :: bytes
    by (simp add: py_slice_def take_drop)
  moreover have "enc = (fst enc, snd enc)" by simp
  ultimately show ?thesis
    using fin mt rt dcb by (simp add: h)
qed

section \<open>connection.py\<close>

datatype transport = TCPAbridged | TCPIntermediatePadded | OtherTransport

definition transport_class_for :: "Proxy option \<Rightarrow> transport \<Rightarrow> transport" where
  "transport_class_for proxy dflt = (if uses_random_padding proxy then TCPIntermediatePadded else dflt)"

fun OBFUSCATE_TAG :: "transport \<Rightarrow> bytes option" where
  "OBFUSCATE_TAG TCPAbridged = Some ABRIDGED_OBFUSCATE_TAG"
| "OBFUSCATE_TAG TCPIntermediatePadded = Some INTERMEDIATE_PADDED_OBFUSCATE_TAG"
| "OBFUSCATE_TAG OtherTransport = None"

definition protocol_dc_id :: "int \<Rightarrow> bool \<Rightarrow> bool \<Rightarrow> int" where
  "protocol_dc_id dc test_mode media =
     (let p = dc + (if test_mode then 10000 else 0) in if media then - p else p)"

text \<open>\<open>TCP._obfuscated2_secret\<close>: the checks before a handshake, then the bare key.\<close>

definition obfuscated2_secret :: "transport \<Rightarrow> Proxy option \<Rightarrow> int option \<Rightarrow> bytes \<Rightarrow> bytes res" where
  "obfuscated2_secret cls proxy dc secret =
     (if dc = None then Inl ValueError
      else if \<not> truthy (OBFUSCATE_TAG cls) then Inl ValueError
      else if uses_random_padding proxy \<and> OBFUSCATE_TAG cls \<noteq> Some INTERMEDIATE_PADDED_OBFUSCATE_TAG
      then Inl ValueError
      else if length secret = MARKED_SECRET_SIZE then Inr (drop 1 secret)
      else Inr secret)"

text \<open>
  \<open>Connection.connect\<close>: the outcome of each attempt is a parameter. An \<open>OSError\<close> (and its
  subclasses \<open>ConnectionError\<close> and \<open>TimeoutError\<close>) closes the attempt and goes on to the
  next; three of them raise \<open>ConnectionError\<close>; any other exception is passed on. The log
  counts the attempts made and those closed.
\<close>

definition is_os_error :: "py_error \<Rightarrow> bool" where
  "is_os_error e \<longleftrightarrow> e \<in> {OSError, ConnectionError, TimeoutError}"

record attempts =
  tried :: nat
  closed :: nat

fun connect_attempts :: "nat \<Rightarrow> (nat \<Rightarrow> unit res) \<Rightarrow> attempts \<Rightarrow> unit res \<times> attempts" where
  "connect_attempts 0 outcome a = (Inl ConnectionError, a)"
| "connect_attempts (Suc n) outcome a =
     (case outcome (tried a) of
        Inr _ \<Rightarrow> (Inr (), a\<lparr>tried := tried a + 1\<rparr>)
      | Inl e \<Rightarrow>
          if is_os_error e
          then connect_attempts n outcome (a\<lparr>tried := tried a + 1, closed := closed a + 1\<rparr>)
          else (Inl e, a\<lparr>tried := tried a + 1\<rparr>))"

definition Connection_connect :: "(nat \<Rightarrow> unit res) \<Rightarrow> unit res \<times> attempts" where
  "Connection_connect outcome = connect_attempts 3 outcome \<lparr>tried = 0, closed = 0\<rparr>"

lemma transport_accepts_proxy:
  assumes "proxy_ok p" "case p of MTProxy m \<Rightarrow> s = mp_secret m | WebProxy w \<Rightarrow> s = wp_secret w | _ \<Rightarrow> False"
    and "dflt = TCPAbridged \<or> dflt = TCPIntermediatePadded"
  shows "\<exists>k. obfuscated2_secret (transport_class_for (Some p) dflt) (Some p) (Some dc) s = Inr k \<and> length k = 16"
  using assms
  by (cases p; cases "uses_random_padding (Some p)")
    (auto simp: obfuscated2_secret_def transport_class_for_def secret_ok_def ABRIDGED_OBFUSCATE_TAG_def
      INTERMEDIATE_PADDED_OBFUSCATE_TAG_def MARKED_SECRET_SIZE_def OBFUSCATED2_SECRET_SIZE_def)


section \<open>Properties\<close>

text \<open>The proxy can open an obfuscated2 stream. Of the header that is built, the 64 bytes do not
  begin like another protocol; the key and counter that a server derives from the bytes in clear
  and the secret decipher it to the framing tag and the data centre, and leave the server's
  cipher in the state in which the client's own goes on; the key of the other direction comes
  from the reversed header.\<close>

theorem obfuscated2_header_readable:
  assumes "build_obfuscated2_header sha256 E draws secret dc tag = Inr (Some h)"
    and "\<forall>n \<in> set draws. length n = 64"
  shows "\<exists>dcb. to_bytes_le 2 True dc = Inr dcb \<and> length (oh_header h) = 64 \<and>
    nonce_ok OBFUSCATED2_RESERVED_PREFIXES (oh_header h) \<and>
    oh_encrypt h = (server_key sha256 secret (oh_header h),
      snd (server_reads E (server_key sha256 secret (oh_header h)) (oh_header h))) \<and>
    py_slice 56 62 (fst (server_reads E (server_key sha256 secret (oh_header h)) (oh_header h))) = tag @ dcb \<and>
    oh_decrypt h = (sha256 (take 32 (reversed_tail_of (oh_header h)) @ secret),
      fresh_ctr (py_slice 32 48 (reversed_tail_of (oh_header h))))"
  using assms by (rule build_header_reads)

lemma header0_exists:
  "\<exists>h. build_obfuscated2_header (\<lambda>x. x) (\<lambda>k b. b) [replicate 64 0, replicate 64 1] (replicate 16 9) (- 2)
     ABRIDGED_OBFUSCATE_TAG = Inr (Some h)"
proof -
  have r: "replicate 4 x = [x, x, x, x]" for x :: byte by (simp add: numeral_eq_Suc)
  have n0: "\<not> nonce_ok OBFUSCATED2_RESERVED_PREFIXES (replicate 64 0)"
    by (simp add: nonce_ok_def py_slice_def r)
  have n1: "nonce_ok OBFUSCATED2_RESERVED_PREFIXES (replicate 64 1)"
    by (simp add: nonce_ok_def py_slice_def OBFUSCATED2_RESERVED_PREFIXES_def r)
  show ?thesis
    by (simp add: build_obfuscated2_header_def n0 n1 OBFUSCATED2_SECRET_SIZE_def ABRIDGED_OBFUSCATE_TAG_def
        to_bytes_le_def fits_def Let_def split_beta)
qed

theorem obfuscated2_header_readable_witness:
  "\<exists>h. build_obfuscated2_header (\<lambda>x. x) (\<lambda>k b. b) [replicate 64 0, replicate 64 1] (replicate 16 9) (- 2)
       ABRIDGED_OBFUSCATE_TAG = Inr (Some h) \<and> length (oh_header h) = 64"
proof -
  obtain h where h: "build_obfuscated2_header (\<lambda>x. x) (\<lambda>k b. b) [replicate 64 0, replicate 64 1]
      (replicate 16 9) (- 2) ABRIDGED_OBFUSCATE_TAG = Inr (Some h)"
    using header0_exists by blast
  have "\<forall>n \<in> set [replicate 64 0, replicate 64 (1 :: byte)]. length n = 64" by simp
  from obfuscated2_header_readable [OF h this] h show ?thesis by blast
qed

text \<open>A configured proxy always gets a usable handshake. Whatever dictionary
  \<open>_parse_proxy_dict\<close> accepts, if it is an MTProxy or a WEB proxy, the transport that
  \<open>transport_class_for\<close> picks passes every check of \<open>_obfuscated2_secret\<close> and yields the
  16-byte key that the header needs, for every data centre, test and media included.\<close>

theorem configured_proxy_handshakes:
  assumes "parse_proxy_dict canonicalize d = Inr p"
    and "case p of MTProxy m \<Rightarrow> s = mp_secret m | WebProxy w \<Rightarrow> s = wp_secret w | _ \<Rightarrow> False"
    and "0 < dc" "dc \<le> 1000"
  shows "\<exists>k tag dcb. obfuscated2_secret (transport_class_for (Some p) TCPAbridged) (Some p)
      (Some (protocol_dc_id dc test media)) s = Inr k \<and> length k = OBFUSCATED2_SECRET_SIZE \<and>
    OBFUSCATE_TAG (transport_class_for (Some p) TCPAbridged) = Some tag \<and> length tag = 4 \<and>
    to_bytes_le 2 True (protocol_dc_id dc test media) = Inr dcb"
proof -
  obtain k where k: "obfuscated2_secret (transport_class_for (Some p) TCPAbridged) (Some p)
      (Some (protocol_dc_id dc test media)) s = Inr k" "length k = 16"
    using transport_accepts_proxy [OF parse_proxy_dict_ok [OF assms(1)] assms(2), of TCPAbridged] by auto
  moreover have "to_bytes_le 2 True (protocol_dc_id dc test media) = Inr (le_bytes 2 (protocol_dc_id dc test media))"
    using assms(3,4) by (simp add: to_bytes_le_def fits_def protocol_dc_id_def Let_def)
  ultimately show ?thesis
    by (cases "uses_random_padding (Some p)")
      (auto simp: transport_class_for_def OBFUSCATED2_SECRET_SIZE_def ABRIDGED_OBFUSCATE_TAG_def
        INTERMEDIATE_PADDED_OBFUSCATE_TAG_def)
qed

definition dict0 :: proxy_dict where
  "dict0 = \<lparr>pd_scheme = Some (SchemeText (ptext ''MTProxy'')), pd_hostname = Some (ptext ''h''),
     pd_port = Some 443, pd_secret = Some (to_hex (PADDED_MARKER # replicate 16 1)),
     pd_username = None, pd_password = None\<rparr>"

lemma dict0_parses:
  "parse_proxy_dict Inr dict0 = Inr (MTProxy \<lparr>mp_hostname = ptext ''h'', mp_port = 443,
     mp_secret = PADDED_MARKER # replicate 16 1, mp_sni_hostname = None\<rparr>)"
proof -
  have "to_hex (PADDED_MARKER # replicate 16 1) \<noteq> []" by (simp add: to_hex_def)
  moreover have "parse_scheme (Some (SchemeText (ptext ''MTProxy''))) = Inr MTPROXY"
    by (simp add: parse_scheme_def ptext_def lower_def ascii_lower_def)
  ultimately show ?thesis
    by (simp add: parse_proxy_dict_def dict0_def port_given_def build_mtproxy_def ptext_def
        decode_mtproxy_secret_def decode_hex OBFUSCATED2_SECRET_SIZE_def MARKED_SECRET_SIZE_def)
qed

theorem configured_proxy_handshakes_witness:
  "\<exists>p k. parse_proxy_dict Inr dict0 = Inr p \<and>
     obfuscated2_secret (transport_class_for (Some p) TCPAbridged) (Some p) (Some (protocol_dc_id 2 True True))
       (PADDED_MARKER # replicate 16 1) = Inr k \<and> length k = 16"
  using configured_proxy_handshakes [OF dict0_parses, of "PADDED_MARKER # replicate 16 1" 2 True True] dict0_parses
  by (auto simp: OBFUSCATED2_SECRET_SIZE_def)

text \<open>A data centre is never confused with another on the wire: for identifiers from 1 to 9999
  the number that the header carries determines the data centre, the test mode and the media
  flag.\<close>

theorem protocol_dc_id_injective:
  assumes "0 < a" "a < 10000" "0 < b" "b < 10000"
    and "protocol_dc_id a t m = protocol_dc_id b t' m'"
  shows "a = b \<and> t = t' \<and> m = m'"
  using assms by (cases t; cases t'; cases m; cases m') (simp_all add: protocol_dc_id_def)

theorem protocol_dc_id_injective_witness:
  "protocol_dc_id 2 True True = - 10002 \<and> (2 :: int) = 2 \<and> True = True"
  using protocol_dc_id_injective [of 2 2 True True True True] by (simp add: protocol_dc_id_def)

lemma connect_attempts_all_fail:
  "(\<And>i. i < n \<Longrightarrow> \<exists>e. outcome (tried a + i) = Inl e \<and> is_os_error e) \<Longrightarrow>
   connect_attempts n outcome a = (Inl ConnectionError, a\<lparr>tried := tried a + n, closed := closed a + n\<rparr>)"
proof (induction n arbitrary: a)
  case (Suc n)
  from Suc.prems [of 0] obtain e where e: "outcome (tried a) = Inl e" "is_os_error e" by auto
  let ?a = "a\<lparr>tried := tried a + 1, closed := closed a + 1\<rparr>"
  have "connect_attempts n outcome ?a = (Inl ConnectionError, ?a\<lparr>tried := tried ?a + n, closed := closed ?a + n\<rparr>)"
  proof (rule Suc.IH)
    fix i assume "i < n"
    with Suc.prems [of "Suc i"] show "\<exists>e. outcome (tried ?a + i) = Inl e \<and> is_os_error e" by simp
  qed
  with e show ?case by simp
qed simp

lemma connect_attempts_stop:
  "k < n \<Longrightarrow> (\<And>i. i < k \<Longrightarrow> \<exists>e. outcome (tried a + i) = Inl e \<and> is_os_error e) \<Longrightarrow>
   (\<And>e. outcome (tried a + k) = Inl e \<Longrightarrow> \<not> is_os_error e) \<Longrightarrow>
   connect_attempts n outcome a = (outcome (tried a + k), a\<lparr>tried := tried a + k + 1, closed := closed a + k\<rparr>)"
proof (induction n arbitrary: a k)
  case (Suc n)
  note IH = Suc.IH and prems = Suc.prems
  show ?case
  proof (cases k)
    case 0
    show ?thesis
    proof (cases "outcome (tried a)")
      case (Inl e)
      with prems(3) [of e] 0 show ?thesis by simp
    qed (use 0 in simp)
  next
    case (Suc k')
    from prems(2) [of 0] Suc obtain e where e: "outcome (tried a) = Inl e" "is_os_error e" by auto
    let ?a = "a\<lparr>tried := tried a + 1, closed := closed a + 1\<rparr>"
    have "connect_attempts n outcome ?a =
        (outcome (tried ?a + k'), ?a\<lparr>tried := tried ?a + k' + 1, closed := closed ?a + k'\<rparr>)"
    proof (rule IH)
      show "k' < n" using prems(1) Suc by simp
      fix i assume "i < k'"
      with prems(2) [of "Suc i"] Suc show "\<exists>e. outcome (tried ?a + i) = Inl e \<and> is_os_error e" by simp
    next
      fix e assume "outcome (tried ?a + k') = Inl e"
      then have "outcome (tried a + k) = Inl e" using Suc by simp
      then show "\<not> is_os_error e" by (rule prems(3))
    qed
    with e Suc show ?thesis by simp
  qed
qed simp

text \<open>Connecting makes at most three attempts. The first attempt that does not fail with a
  network error decides the outcome, each failed one before it having been closed; three
  network errors raise \<open>ConnectionError\<close>.\<close>

theorem Connection_connect_attempts:
  "((\<forall>i < 3. \<exists>e. outcome i = Inl e \<and> is_os_error e) \<longrightarrow>
      Connection_connect outcome = (Inl ConnectionError, \<lparr>tried = 3, closed = 3\<rparr>)) \<and>
   (k < 3 \<and> (\<forall>i < k. \<exists>e. outcome i = Inl e \<and> is_os_error e) \<and>
      (\<forall>e. outcome k = Inl e \<longrightarrow> \<not> is_os_error e) \<longrightarrow>
      Connection_connect outcome = (outcome k, \<lparr>tried = k + 1, closed = k\<rparr>))"
  using connect_attempts_all_fail [of 3 outcome "\<lparr>tried = 0, closed = 0\<rparr>"]
    connect_attempts_stop [of k 3 outcome "\<lparr>tried = 0, closed = 0\<rparr>"]
  by (simp add: Connection_connect_def)

theorem Connection_connect_attempts_witness:
  "Connection_connect (\<lambda>i. if i = 2 then Inr () else Inl TimeoutError) = (Inr (), \<lparr>tried = 3, closed = 2\<rparr>)"
  using Connection_connect_attempts [of "\<lambda>i. if i = 2 then Inr () else Inl TimeoutError" 2]
  by (simp add: is_os_error_def)

end
