(* ===== verification/Mtproto.thy ===== *)
theory Mtproto
  imports Ciphers TL_Core
begin

text \<open>
  \<open>pyrogram/crypto/mtproto.py\<close>, the encryption of MTProto messages, and the numbering of
  messages in \<open>session/internals\<close>. The hash \<open>sha256\<close>, the random source \<open>urandom\<close> and
  the block cipher are parameters.
\<close>

section \<open>Key derivation, packing and unpacking\<close>

definition kdf :: "(bytes \<Rightarrow> bytes) \<Rightarrow> bytes \<Rightarrow> bytes \<Rightarrow> bool \<Rightarrow> bytes \<times> bytes" where
  "kdf sha256 auth_key msg_key outgoing =
     (let x = (if outgoing then 0 else 8);
          sha256_a = sha256 (msg_key @ py_slice x (x + 36) auth_key);
          sha256_b = sha256 (py_slice (x + 40) (x + 76) auth_key @ msg_key);
          aes_key = take 8 sha256_a @ py_slice 8 24 sha256_b @ py_slice 24 32 sha256_a;
          aes_iv = take 8 sha256_b @ py_slice 8 24 sha256_a @ py_slice 24 32 sha256_b
      in (aes_key, aes_iv))"

definition pack_padding :: "nat \<Rightarrow> nat" where
  "pack_padding n = pad_to 16 (n + 12) + 12"

definition pack ::
  "(bytes \<Rightarrow> bytes) \<Rightarrow> (nat \<Rightarrow> bytes) \<Rightarrow> (bytes \<Rightarrow> bytes \<Rightarrow> bytes) \<Rightarrow> 'o writer \<Rightarrow>
   'o message \<Rightarrow> int \<Rightarrow> bytes \<Rightarrow> bytes \<Rightarrow> bytes \<Rightarrow> bytes res"
where
  "pack sha256 urandom E tl_write msg slt session_id auth_key auth_key_id =
     bind_res (Int_new TLong True slt) (\<lambda>s.
     bind_res (Message_write tl_write msg) (\<lambda>m.
     (let data = s @ session_id @ m;
          padding = urandom (pack_padding (length data));
          msg_key = py_slice 8 24 (sha256 (py_slice 88 120 auth_key @ data @ padding));
          (aes_key, aes_iv) = kdf sha256 auth_key msg_key True
      in bind_res (ige256_encrypt E (data @ padding) aes_key aes_iv) (\<lambda>c.
           Inr (auth_key_id @ msg_key @ c)))))"

definition security_check :: "bool \<Rightarrow> unit res" where
  "security_check cond = (if cond then Inr () else Inl SecurityCheckMismatch)"

text \<open>The error that \<open>unpack\<close> makes of a \<open>KeyError\<close> raised while the message is read.\<close>

definition read_failure :: "py_error \<Rightarrow> py_error" where
  "read_failure e =
     (case e of KeyError k \<Rightarrow> (if k = 0 then ConnectionError else ValueError) | _ \<Rightarrow> e)"

definition read_message :: "'o reader \<Rightarrow> bytes \<Rightarrow> 'o message res" where
  "read_message tl_read data =
     (case Message_read tl_read data of Inl e \<Rightarrow> Inl (read_failure e) | Inr (m, _) \<Rightarrow> Inr m)"

definition unpack ::
  "(bytes \<Rightarrow> bytes) \<Rightarrow> (bytes \<Rightarrow> bytes \<Rightarrow> bytes) \<Rightarrow> 'o reader \<Rightarrow>
   bytes \<Rightarrow> bytes \<Rightarrow> bytes \<Rightarrow> bytes \<Rightarrow> 'o message res"
where
  "unpack sha256 D tl_read b session_id auth_key auth_key_id =
     bind_res (security_check (take 8 b = auth_key_id)) (\<lambda>_.
     (let msg_key = py_slice 8 24 b;
          (aes_key, aes_iv) = kdf sha256 auth_key msg_key False
      in bind_res (ige256_decrypt D (drop 24 b) aes_key aes_iv) (\<lambda>data.
         bind_res (security_check (py_slice 8 16 data = session_id)) (\<lambda>_.
         bind_res (read_message tl_read (drop 16 data)) (\<lambda>msg.
         bind_res (security_check (msg_key = py_slice 8 24 (sha256 (py_slice 96 128 auth_key @ data)))) (\<lambda>_.
         (let payload = drop 32 data; padding = slice_from (mlength msg) payload in
          bind_res (security_check (12 \<le> length padding \<and> length padding \<le> 1024)) (\<lambda>_.
          bind_res (security_check (length payload mod 4 = 0)) (\<lambda>_.
          bind_res (security_check (msg_id msg mod 2 \<noteq> 0)) (\<lambda>_.
          Inr msg)))))))))) "

text \<open>
  The peer's side of the protocol, by the same document the code cites: what a server sends
  is keyed with the other half of the authorisation key.
\<close>

definition server_pack ::
  "(bytes \<Rightarrow> bytes) \<Rightarrow> (bytes \<Rightarrow> bytes \<Rightarrow> bytes) \<Rightarrow> bytes \<Rightarrow> bytes \<Rightarrow> bytes \<Rightarrow> bytes \<Rightarrow> bytes res"
where
  "server_pack sha256 E auth_key auth_key_id data padding =
     (let msg_key = py_slice 8 24 (sha256 (py_slice 96 128 auth_key @ data @ padding));
          (aes_key, aes_iv) = kdf sha256 auth_key msg_key False
      in bind_res (ige256_encrypt E (data @ padding) aes_key aes_iv) (\<lambda>c.
           Inr (auth_key_id @ msg_key @ c)))"

definition server_unpack ::
  "(bytes \<Rightarrow> bytes) \<Rightarrow> (bytes \<Rightarrow> bytes \<Rightarrow> bytes) \<Rightarrow> bytes \<Rightarrow> bytes \<Rightarrow> bytes res"
where
  "server_unpack sha256 D auth_key b =
     (let msg_key = py_slice 8 24 b; (aes_key, aes_iv) = kdf sha256 auth_key msg_key True
      in bind_res (ige256_decrypt D (drop 24 b) aes_key aes_iv) (\<lambda>data.
           if msg_key = py_slice 8 24 (sha256 (py_slice 88 120 auth_key @ data)) then Inr data
           else Inl SecurityCheckMismatch))"

definition hash256 :: "(bytes \<Rightarrow> bytes) \<Rightarrow> bool" where
  "hash256 sha256 \<longleftrightarrow> (\<forall>x. length (sha256 x) = 32)"

section \<open>Lemmas\<close>

lemma length_kdf:
  assumes "hash256 sha256"
  shows "length (fst (kdf sha256 k m out)) = 32" "length (snd (kdf sha256 k m out)) = 32"
  using assms by (simp_all add: kdf_def Let_def hash256_def)

lemma pack_padding_bounds: "12 \<le> pack_padding n \<and> pack_padding n \<le> 27"
  using pad_to_less [of 16 "n + 12"] by (simp add: pack_padding_def)

lemma pack_padding_dvd: "16 dvd n + pack_padding n"
proof -
  have "16 dvd (n + 12) + pad_to 16 (n + 12)" by (rule pad_to_dvd) simp
  then show ?thesis unfolding pack_padding_def by (metis add.assoc add.commute)
qed

lemma security_check_simps [simp]:
  "security_check c = Inr u \<longleftrightarrow> c" "security_check True = Inr ()" "security_check False = Inl SecurityCheckMismatch"
  by (simp_all add: security_check_def)

lemma read_message_eq: "read_message rd data = Inr m \<longleftrightarrow> (\<exists>rest. Message_read rd data = Inr (m, rest))"
  by (auto simp: read_message_def split: sum.splits)

lemma pack_decrypts:
  assumes p: "pack sha256 urandom E wr msg slt sid key kid = Inr out"
    and h: "hash256 sha256" and c: "block_cipher E D" and r: "\<And>n. length (urandom n) = n"
    and k: "length kid = 8"
  shows "\<exists>s m pad x. Int_new TLong True slt = Inr s \<and> Message_write wr msg = Inr m \<and>
    12 \<le> length pad \<and> length pad \<le> 27 \<and> length x = length (s @ sid @ m @ pad) \<and> 16 dvd length x \<and>
    (\<exists>mk. length mk = 16 \<and> out = kid @ mk @ x) \<and> server_unpack sha256 D key out = Inr (s @ sid @ m @ pad)"
proof -
  from p obtain s m where s: "Int_new TLong True slt = Inr s" and m: "Message_write wr msg = Inr m"
    by (auto simp: pack_def res_simps)
  define d where "d = s @ sid @ m"
  define pad where "pad = urandom (pack_padding (length d))"
  define mk where "mk = py_slice 8 24 (sha256 (py_slice 88 120 key @ d @ pad))"
  define ak where "ak = fst (kdf sha256 key mk True)"
  define ai where "ai = snd (kdf sha256 key mk True)"
  have kd: "kdf sha256 key mk True = (ak, ai)" by (simp add: ak_def ai_def)
  have lp: "length pad = pack_padding (length d)" by (simp add: pad_def r)
  have lm: "length mk = 16" using h by (simp add: mk_def hash256_def)
  have dv: "16 dvd length (d @ pad)" using pack_padding_dvd [of "length d"] by (simp add: lp)
  have li: "length ai = 32" using length_kdf(2) [OF h] by (simp add: ai_def)
  obtain x where x: "ige256_encrypt E (d @ pad) ak ai = Inr x" "length x = length (d @ pad)"
      "ige256_decrypt D x ak ai = Inr (d @ pad)"
    using ige_roundtrip [OF c li dv] by auto
  have out: "out = kid @ mk @ x"
    using p s m x(1) kd
    by (simp add: pack_def Let_def d_def pad_def mk_def)
  have "py_slice 8 24 out = mk" unfolding out by (rule slice_append_mid) (simp_all add: k lm)
  moreover have "drop 24 out = x" by (simp add: out k lm)
  ultimately have "server_unpack sha256 D key out = Inr (d @ pad)"
    using x(3) kd by (simp add: server_unpack_def mk_def [symmetric])
  then show ?thesis
    using s m x(2) dv lm out pack_padding_bounds [of "length d"]
    by (intro exI [of _ s] exI [of _ m] exI [of _ pad] exI [of _ x]) (auto simp: lp d_def)
qed

lemma unpack_inv:
  assumes "unpack sha256 D rd b sid key kid = Inr msg"
  defines "mk \<equiv> py_slice 8 24 b"
  shows "\<exists>data rest. take 8 b = kid \<and>
    ige256_decrypt D (drop 24 b) (fst (kdf sha256 key mk False)) (snd (kdf sha256 key mk False)) = Inr data \<and>
    py_slice 8 16 data = sid \<and> Message_read rd (drop 16 data) = Inr (msg, rest) \<and>
    mk = py_slice 8 24 (sha256 (py_slice 96 128 key @ data)) \<and>
    12 \<le> length (slice_from (mlength msg) (drop 32 data)) \<and>
    length (slice_from (mlength msg) (drop 32 data)) \<le> 1024 \<and>
    length (drop 32 data) mod 4 = 0 \<and> odd (msg_id msg)"
  using assms(1)
  by (auto simp: unpack_def Let_def res_simps mk_def [symmetric] odd_iff_mod_2_eq_one read_message_eq split: prod.splits)

context tl_codec
begin

lemma unpack_server_pack:
  assumes h: "hash256 sha256" and c: "block_cipher E D"
    and l: "length kid = 8" "length sid = 8" "length s = 8"
    and b: "ok (body msg)" "wr (body msg) = Inr bb" "mlength msg = int (length bb)"
    and m: "Message_write wr msg = Inr m" and pad: "12 \<le> length pad" "length pad \<le> 1024"
    and d: "16 dvd length (s @ sid @ m @ pad)" and o: "odd (msg_id msg)"
  shows "\<exists>x. server_pack sha256 E key kid (s @ sid @ m) pad = Inr x \<and>
    unpack sha256 D rd x sid key kid = Inr msg"
proof -
  let ?data = "(s @ sid @ m) @ pad"
  define mk where "mk = py_slice 8 24 (sha256 (py_slice 96 128 key @ ?data))"
  define ak where "ak = fst (kdf sha256 key mk False)"
  define ai where "ai = snd (kdf sha256 key mk False)"
  have kd: "kdf sha256 key mk False = (ak, ai)" by (simp add: ak_def ai_def)
  have lm: "length mk = 16" using h by (simp add: mk_def hash256_def)
  have li: "length ai = 32" using length_kdf(2) [OF h] by (simp add: ai_def)
  obtain x where x: "ige256_encrypt E ?data ak ai = Inr x" "ige256_decrypt D x ak ai = Inr ?data"
    using ige_roundtrip [OF c li, of ?data ak] d by auto
  have sp: "server_pack sha256 E key kid (s @ sid @ m) pad = Inr (kid @ mk @ x)"
    using x(1) kd by (simp add: server_pack_def Let_def mk_def)
  from m b(2) obtain i q n where hd: "Int_new TLong True (msg_id msg) = Inr i"
      "Int_new TInt True (seq_no msg) = Inr q" "Int_new TInt True (mlength msg) = Inr n" "m = i @ q @ n @ bb"
    by (auto simp: Message_write_def res_simps)
  have lh: "length i = 8" "length q = 4" "length n = 4" using hd(1-3) [THEN Int_new_length] by simp_all
  have rm: "read_message rd (drop 16 ?data) = Inr msg"
    using message_read_write [OF b m, of pad] by (simp add: read_message_eq l)
  have pl: "drop 32 ?data = bb @ pad" by (simp add: hd(4) l lh)
  have ld: "length (s @ sid @ m @ pad) = 32 + length (bb @ pad)" by (simp add: hd(4) l lh)
  have "16 dvd 32 + length (bb @ pad)" using d unfolding ld .
  then have "length (bb @ pad) mod 4 = 0" by presburger
  moreover have sl: "py_slice 8 16 ?data = sid" unfolding append_assoc by (rule slice_append_mid) (simp_all add: l)
  moreover have "py_slice 8 24 (kid @ mk @ x) = mk" by (rule slice_append_mid) (simp_all add: l lm)
  moreover have "drop 24 (kid @ mk @ x) = x" "take 8 (kid @ mk @ x) = kid" by (simp_all add: l lm)
  ultimately have "unpack sha256 D rd (kid @ mk @ x) sid key kid = Inr msg"
    using x(2) kd rm pad o b(3)
    by (simp only: unpack_def Let_def prod.case bind_res_simps security_check_simps pl mk_def [symmetric]
        slice_from_append) (simp add: odd_iff_mod_2_eq_one)
  with sp show ?thesis by blast
qed

end

section \<open>Message identifiers and sequence numbers\<close>

text \<open>
  \<open>session/internals/msg_id.py\<close> and \<open>msg_factory.py\<close>. The reading of the clock enters as
  \<open>int(server_time * 2**32)\<close>. The two counters of the factory are under locks of their own,
  so that concurrent calls of \<open>create\<close> interleave between the two allocations: the runs
  below are arbitrary sequences of allocations.
\<close>

definition MsgId_new :: "int \<Rightarrow> int \<Rightarrow> int \<times> int" where
  "MsgId_new clock lst =
     (let base_msg_id = clock AND NOT 3;
          base_msg_id = (if base_msg_id \<le> lst then lst + 4 else base_msg_id)
      in (base_msg_id, base_msg_id))"

record msg_factory =
  last_msg_id :: int
  content_related_messages_sent :: int

definition MsgFactory_init :: msg_factory where
  "MsgFactory_init = \<lparr>last_msg_id = 0, content_related_messages_sent = 0\<rparr>"

definition allocate_message_identity :: "int \<Rightarrow> msg_factory \<Rightarrow> int \<times> msg_factory" where
  "allocate_message_identity clock f =
     (let base_msg_id = clock AND NOT 3;
          base_msg_id = (if base_msg_id \<le> last_msg_id f then last_msg_id f + 4 else base_msg_id)
      in (base_msg_id, f\<lparr>last_msg_id := base_msg_id\<rparr>))"

definition allocate_message_sequence :: "bool \<Rightarrow> msg_factory \<Rightarrow> int \<times> msg_factory" where
  "allocate_message_sequence is_content_related f =
     (content_related_messages_sent f * 2 + (if is_content_related then 1 else 0),
      if is_content_related
      then f\<lparr>content_related_messages_sent := content_related_messages_sent f + 1\<rparr> else f)"

text \<open>\<open>create\<close>; \<open>content_related\<close> is the test on the generated classes, and \<open>len(body)\<close>
  is the length of the serialised body.\<close>

definition create_message ::
  "('o \<Rightarrow> bool) \<Rightarrow> 'o writer \<Rightarrow> int \<Rightarrow> 'o \<Rightarrow> msg_factory \<Rightarrow> 'o message res \<times> msg_factory"
where
  "create_message content_related tl_write clock ob f =
     (let (i, f1) = allocate_message_identity clock f;
          (s, f2) = allocate_message_sequence (content_related ob) f1
      in (bind_res (tl_write ob) (\<lambda>b.
            Inr \<lparr>msg_id = i, seq_no = s, mlength = int (length b), body = ob\<rparr>), f2))"

datatype allocation = Identity int | Sequence bool

fun allocate :: "allocation \<Rightarrow> msg_factory \<Rightarrow> int \<times> msg_factory" where
  "allocate (Identity t) f = allocate_message_identity t f"
| "allocate (Sequence c) f = allocate_message_sequence c f"

fun run_allocations :: "allocation list \<Rightarrow> msg_factory \<Rightarrow> (allocation \<times> int) list \<times> msg_factory" where
  "run_allocations [] f = ([], f)"
| "run_allocations (a # as) f =
     (let (n, f1) = allocate a f; (ns, f2) = run_allocations as f1 in ((a, n) # ns, f2))"

definition identities :: "(allocation \<times> int) list \<Rightarrow> int list" where
  "identities log = [n. (Identity _, n) \<leftarrow> log]"

definition sequences :: "(allocation \<times> int) list \<Rightarrow> (bool \<times> int) list" where
  "sequences log = [(c, n). (Sequence c, n) \<leftarrow> log]"

lemma and_not_3: "(t :: int) AND NOT 3 = 4 * (t div 4)" "t AND - 4 = 4 * (t div 4)"
proof -
  have m: "(3 :: int) = mask 2" by (simp add: mask_eq_exp_minus_1)
  have "t AND NOT 3 = push_bit 2 (drop_bit 2 t)"
    unfolding m
  proof (rule bit_eqI)
    fix n
    show "bit (t AND NOT (mask 2)) n = bit (push_bit 2 (drop_bit 2 t)) n"
      using le_add_diff_inverse [of 2 n]
      by (cases "2 \<le> n") (simp_all add: bit_and_iff bit_not_iff bit_mask_iff bit_push_bit_iff bit_drop_bit_eq)
  qed
  then show "t AND NOT 3 = 4 * (t div 4)" "t AND - 4 = 4 * (t div 4)"
    by (simp_all add: push_bit_eq_mult drop_bit_eq_div)
qed

lemma identity_fresh:
  assumes "allocate_message_identity t f = (n, g)" "4 dvd last_msg_id f"
  shows "last_msg_id f < n" "4 dvd n" "last_msg_id g = n"
    "content_related_messages_sent g = content_related_messages_sent f"
    "n = 4 * (t div 4) \<or> n = last_msg_id f + 4"
  using assms by (auto simp: allocate_message_identity_def Let_def and_not_3 split: if_splits)

lemma sequence_fresh:
  assumes "allocate_message_sequence c f = (n, g)"
  shows "n = 2 * content_related_messages_sent f + of_bool c"
    "content_related_messages_sent g = content_related_messages_sent f + of_bool c"
    "last_msg_id g = last_msg_id f"
  using assms by (auto simp: allocate_message_sequence_def split: if_splits)

lemma identities_increase:
  assumes "run_allocations as f = (log, g)" "4 dvd last_msg_id f"
  shows "sorted_wrt (<) (last_msg_id f # identities log) \<and> (\<forall>n \<in> set (identities log). 4 dvd n)"
  using assms
proof (induction as arbitrary: f log)
  case (Cons a as)
  then obtain n f1 ns where a: "allocate a f = (n, f1)" and r: "run_allocations as f1 = (ns, g)"
      and l: "log = (a, n) # ns"
    by (auto simp: Let_def split: prod.splits)
  show ?case
  proof (cases a)
    case (Identity t)
    with a have at: "allocate_message_identity t f = (n, f1)" by simp
    note id = identity_fresh [OF at Cons.prems(2)]
    have "sorted_wrt (<) (last_msg_id f1 # identities ns) \<and> (\<forall>n \<in> set (identities ns). 4 dvd n)"
      using Cons.IH [OF r] id by simp
    with id Identity show ?thesis by (auto simp: l identities_def)
  next
    case (Sequence c)
    with a have "last_msg_id f1 = last_msg_id f" using sequence_fresh(3) by (metis allocate.simps(2))
    with Cons.IH [OF r] Cons.prems(2) Sequence show ?thesis by (auto simp: l identities_def)
  qed
qed (simp add: identities_def)

text \<open>What the protocol asks of sequence numbers: twice the number of content-related messages
  allocated before, plus one for a content-related one.\<close>

fun sequences_from :: "int \<Rightarrow> (bool \<times> int) list \<Rightarrow> bool" where
  "sequences_from k [] = True"
| "sequences_from k ((c, n) # ns) = (n = 2 * k + of_bool c \<and> sequences_from (k + of_bool c) ns)"

lemma sequences_follow:
  "run_allocations as f = (log, g) \<Longrightarrow> 4 dvd last_msg_id f \<Longrightarrow>
   sequences_from (content_related_messages_sent f) (sequences log)"
proof (induction as arbitrary: f log)
  case (Cons a as)
  then obtain n f1 ns where a: "allocate a f = (n, f1)" and r: "run_allocations as f1 = (ns, g)"
      and l: "log = (a, n) # ns"
    by (auto simp: Let_def split: prod.splits)
  show ?case
  proof (cases a)
    case (Identity t)
    with a have at: "allocate_message_identity t f = (n, f1)" by simp
    note id = identity_fresh [OF at Cons.prems(2)]
    from Cons.IH [OF r] id Identity show ?thesis by (simp add: l sequences_def)
  next
    case (Sequence c)
    with a have at: "allocate_message_sequence c f = (n, f1)" by simp
    from Cons.IH [OF r] sequence_fresh [OF at] Sequence Cons.prems(2) show ?thesis
      by (simp add: l sequences_def)
  qed
qed (simp add: sequences_def)

lemma sequences_from_index:
  "sequences_from k ns \<Longrightarrow> i < length ns \<Longrightarrow>
   snd (ns ! i) = 2 * (k + int (length (filter fst (take i ns)))) + of_bool (fst (ns ! i))"
proof (induction k ns arbitrary: i rule: sequences_from.induct)
  case (2 k c n ns)
  then show ?case by (cases i) (auto simp: of_bool_def)
qed simp


section \<open>Properties\<close>

text \<open>C40: The server can read what \<open>pack\<close> sends. Given a hash of 32 bytes, a block cipher with its inverse, a random source that
  returns as many bytes as asked for and a key identifier of 8 bytes: whenever \<open>pack\<close> returns a packet (it raises when the
  salt or the message cannot be serialised), the packet is the key identifier, a 16-byte message key and whole cipher blocks;
  decrypted with the outgoing half of the authorisation key it yields the salt, the session, the
  message and 12 to 27 bytes of padding, and the message key is the hash of that text.\<close>

theorem pack_readable:
  assumes "pack sha256 urandom E wr msg slt sid key kid = Inr out"
    and "hash256 sha256" "block_cipher E D" "\<And>n. length (urandom n) = n" "length kid = 8"
  shows "\<exists>s m pad x. Int_new TLong True slt = Inr s \<and> Message_write wr msg = Inr m \<and>
    12 \<le> length pad \<and> length pad \<le> 27 \<and> length x = length (s @ sid @ m @ pad) \<and> 16 dvd length x \<and>
    (\<exists>mk. length mk = 16 \<and> out = kid @ mk @ x) \<and> server_unpack sha256 D key out = Inr (s @ sid @ m @ pad)"
  using assms by (rule pack_decrypts)

definition salts_msg :: "future_salts message" where
  "salts_msg = \<lparr>msg_id = 5, seq_no = 1, mlength = 20, body = \<lparr>req_msg_id = 4, now = 9, salts = []\<rparr>\<rparr>"

lemma salts_body: "FutureSalts_write (body salts_msg) =
    Inr (le_bytes 4 FutureSalts_ID @ le_bytes 8 4 @ le_bytes 4 9 @ le_bytes 4 0)"
  by (simp add: salts_msg_def FutureSalts_write_def Int_new_def to_bytes_le_def fits_def FutureSalts_ID_def
      del: le_bytes_numeral)

lemma salts_msg_write: "\<exists>m. Message_write FutureSalts_write salts_msg = Inr m \<and> length m = 36"
  by (simp add: Message_write_def salts_body Int_new_def to_bytes_le_def fits_def del: le_bytes_numeral)
    (simp add: salts_msg_def)

definition zero_hash :: "bytes \<Rightarrow> bytes" where
  "zero_hash x = take 32 (x @ replicate 32 0)"

lemma hash256_zero_hash: "hash256 zero_hash"
  by (auto simp: hash256_def zero_hash_def min_def)

theorem pack_readable_witness:
  "\<exists>out d. pack zero_hash (\<lambda>n. replicate n 3) (\<lambda>k. rev) FutureSalts_write salts_msg 9 (replicate 8 1) [] (replicate 8 2)
     = Inr out \<and> server_unpack zero_hash (\<lambda>k. rev) [] out = Inr d"
proof -
  obtain m where m: "Message_write FutureSalts_write salts_msg = Inr m" "length m = 36"
    using salts_msg_write by blast
  let ?d = "le_bytes 8 9 @ replicate 8 1 @ m"
  have s: "Int_new TLong True 9 = Inr (le_bytes 8 9)" by (simp add: Int_new_def to_bytes_le_def fits_def)
  let ?p = "replicate (pack_padding (length ?d)) (3 :: byte)"
  have "16 dvd length (?d @ ?p)"
    unfolding length_append [of ?d ?p] length_replicate by (rule pack_padding_dvd)
  note dv = this
  let ?mk = "py_slice 8 24 (zero_hash (py_slice 88 120 [] @ ?d @ ?p))"
  obtain x where x: "ige256_encrypt (\<lambda>k. rev) (?d @ ?p) (fst (kdf zero_hash [] ?mk True))
      (snd (kdf zero_hash [] ?mk True)) = Inr x"
    using ige_roundtrip [OF rev_block_cipher length_kdf(2) [OF hash256_zero_hash] dv] by blast
  have out: "pack zero_hash (\<lambda>n. replicate n 3) (\<lambda>k. rev) FutureSalts_write salts_msg 9
      (replicate 8 1) [] (replicate 8 2) = Inr (replicate 8 2 @ ?mk @ x)"
    unfolding pack_def s m(1) Let_def bind_res_simps split_beta x ..
  from pack_readable [OF out hash256_zero_hash rev_block_cipher] out show ?thesis by auto
qed

text \<open>C2: \<open>unpack\<close> accepts what a conforming server sends. A message whose object the codec can
  read back, sent under the incoming half of the key with an odd identifier and 12 to 1024
  bytes of padding to whole blocks, passes every check and is returned as it was.\<close>

theorem unpack_accepts:
  assumes "tl_codec ok wr rd" "hash256 sha256" "block_cipher E D"
    and "length kid = 8" "length sid = 8" "length s = 8"
    and "ok (body msg)" "wr (body msg) = Inr bb" "mlength msg = int (length bb)"
    and "Message_write wr msg = Inr m" "12 \<le> length pad" "length pad \<le> 1024"
    and "16 dvd length (s @ sid @ m @ pad)" "odd (msg_id msg)"
  shows "\<exists>x. server_pack sha256 E key kid (s @ sid @ m) pad = Inr x \<and>
    unpack sha256 D rd x sid key kid = Inr msg"
  using assms by (rule tl_codec.unpack_server_pack)

theorem unpack_accepts_witness:
  "\<exists>m x. Message_write FutureSalts_write salts_msg = Inr m \<and>
     server_pack zero_hash (\<lambda>k. rev) [] (replicate 8 2) (replicate 8 0 @ replicate 8 1 @ m) (replicate 12 0) = Inr x \<and>
     unpack zero_hash (\<lambda>k. rev) (TLObject_read salts_objects) x (replicate 8 1) [] (replicate 8 2) = Inr salts_msg"
proof -
  obtain m where m: "Message_write FutureSalts_write salts_msg = Inr m" "length m = 36"
    using salts_msg_write by blast
  have "\<exists>x. server_pack zero_hash (\<lambda>k. rev) [] (replicate 8 2) (replicate 8 0 @ replicate 8 1 @ m) (replicate 12 0) = Inr x \<and>
     unpack zero_hash (\<lambda>k. rev) (TLObject_read salts_objects) x (replicate 8 1) [] (replicate 8 2) = Inr salts_msg"
    by (rule unpack_accepts [OF salts_codec.tl_codec_axioms hash256_zero_hash rev_block_cipher _ _ _ _ salts_body _ m(1)])
      (simp_all add: m(2) salts_msg_def del: le_bytes_numeral)
  with m(1) show ?thesis by blast
qed

text \<open>C31: Nothing gets through \<open>unpack\<close> unchecked. A returned message was read from a text whose
  key identifier and session are the expected ones, whose message key is the hash of the whole
  decrypted text under the incoming half of the key, with 12 to 1024 bytes of padding, a payload
  of whole words and an odd identifier.\<close>

theorem unpack_sound:
  assumes "unpack sha256 D rd b sid key kid = Inr msg"
  shows "\<exists>data rest. take 8 b = kid \<and>
    (case kdf sha256 key (py_slice 8 24 b) False of (ak, ai) \<Rightarrow> ige256_decrypt D (drop 24 b) ak ai = Inr data) \<and>
    py_slice 8 16 data = sid \<and> Message_read rd (drop 16 data) = Inr (msg, rest) \<and>
    py_slice 8 24 b = py_slice 8 24 (sha256 (py_slice 96 128 key @ data)) \<and>
    12 \<le> length (slice_from (mlength msg) (drop 32 data)) \<and>
    length (slice_from (mlength msg) (drop 32 data)) \<le> 1024 \<and>
    length (drop 32 data) mod 4 = 0 \<and> odd (msg_id msg)"
  using unpack_inv [OF assms] by (simp add: split_beta)

theorem unpack_sound_witness:
  "\<exists>b data. unpack zero_hash (\<lambda>k. rev) (TLObject_read salts_objects) b (replicate 8 1) [] (replicate 8 2) = Inr salts_msg \<and>
     take 8 b = replicate 8 2 \<and> py_slice 8 16 data = (replicate 8 1 :: bytes) \<and> odd (msg_id salts_msg)"
proof -
  obtain m where m: "Message_write FutureSalts_write salts_msg = Inr m" "length m = 36"
    using salts_msg_write by blast
  have "\<exists>x. server_pack zero_hash (\<lambda>k. rev) [] (replicate 8 2) (replicate 8 0 @ replicate 8 1 @ m) (replicate 12 0) = Inr x \<and>
     unpack zero_hash (\<lambda>k. rev) (TLObject_read salts_objects) x (replicate 8 1) [] (replicate 8 2) = Inr salts_msg"
    by (rule tl_codec.unpack_server_pack [OF salts_codec.tl_codec_axioms hash256_zero_hash rev_block_cipher _ _ _ _ salts_body _ m(1)])
      (simp_all add: m(2) salts_msg_def del: le_bytes_numeral)
  then obtain b where b: "unpack zero_hash (\<lambda>k. rev) (TLObject_read salts_objects) b (replicate 8 1) [] (replicate 8 2) = Inr salts_msg"
    by blast
  from unpack_sound [OF b] b show ?thesis by blast
qed

text \<open>Message identifiers are unique and ordered. However the allocations of concurrent calls
  interleave and whatever the clock reads, going backwards included, the identifiers that
  \<open>allocate_message_identity\<close> gives out increase strictly and are positive multiples of four.\<close>

theorem message_identities:
  assumes "run_allocations as MsgFactory_init = (log, g)"
  shows "sorted_wrt (<) (identities log) \<and> (\<forall>n \<in> set (identities log). 0 < n \<and> 4 dvd n)"
  using identities_increase [OF assms] by (simp add: MsgFactory_init_def)

theorem message_identities_witness:
  "\<exists>log g. run_allocations [Identity 103, Sequence True, Identity 50] MsgFactory_init = (log, g) \<and>
     identities log = [100, 104] \<and> sorted_wrt (<) (identities log)"
proof -
  obtain log g where r: "run_allocations [Identity 103, Sequence True, Identity 50] MsgFactory_init = (log, g)"
    by fastforce
  then have "identities log = [100, 104]"
    by (auto simp: identities_def allocate_message_identity_def allocate_message_sequence_def MsgFactory_init_def
        Let_def and_not_3)
  with r message_identities [OF r] show ?thesis by auto
qed

text \<open>Sequence numbers follow the protocol. In every interleaving, the number given to the
  \<open>i\<close>-th message is twice the number of content-related messages numbered before it, plus one
  when the message itself is content-related.\<close>

theorem message_sequences:
  assumes "run_allocations as MsgFactory_init = (log, g)" "i < length (sequences log)"
  shows "snd (sequences log ! i) =
    2 * int (length (filter fst (take i (sequences log)))) + of_bool (fst (sequences log ! i))"
  using sequences_from_index [OF sequences_follow [OF assms(1)] assms(2)]
  by (simp add: MsgFactory_init_def)

theorem message_sequences_witness:
  "\<exists>log g. run_allocations [Sequence True, Identity 50, Sequence False] MsgFactory_init = (log, g) \<and>
     snd (sequences log ! 1) = 2"
proof -
  obtain log g where r: "run_allocations [Sequence True, Identity 50, Sequence False] MsgFactory_init = (log, g)"
    by fastforce
  then have "sequences log = [(True, 1), (False, 2)]"
    by (auto simp: sequences_def allocate_message_identity_def allocate_message_sequence_def MsgFactory_init_def Let_def)
  with r message_sequences [OF r, of 1] show ?thesis by auto
qed

end
