(* ===== verification/Session_Packets.thy ===== *)
theory Session_Packets
  imports Complex_Main Mtproto
begin

text \<open>
  The receiving side of \<open>session/session.py\<close>: \<open>handle_packet\<close> with its replay and time
  checks, the acknowledgements, the matching of answers to waiting requests, and the server
  salts. The message bodies of generated classes that the handler tells apart are the
  constructors of \<open>sbody\<close>; the readings of the local clock are parameters, and times are exact
  rationals.
\<close>

section \<open>State\<close>

datatype ('u, 'r) sbody =
    MsgDetailedInfo int
  | MsgNewDetailedInfo int
  | NewSessionCreated
  | BadServerSalt int int
  | BadMsgNotificationBody int int
  | FutureSaltsBody future_salts
  | RpcResult int 'r
  | Pong int
  | UpdatesBody 'u

text \<open>\<open>getattr(msg.body, "result", msg.body)\<close>\<close>

datatype ('u, 'r) answer = BodyAnswer "('u, 'r) sbody" | ResultAnswer 'r

definition answer_of :: "('u, 'r) sbody \<Rightarrow> ('u, 'r) answer" where
  "answer_of b = (case b of RpcResult _ r \<Rightarrow> ResultAnswer r | _ \<Rightarrow> BodyAnswer b)"

record 'a waiter =
  w_value :: "'a option"
  w_event :: bool
  w_exception :: "py_error option"

definition Result :: "'a waiter" where
  "Result = \<lparr>w_value = None, w_event = False, w_exception = None\<rparr>"

record ('u, 'r) session =
  recent_msg_ids :: "int list"
  stored_msg_ids :: "int list"
  ignore_count :: nat
  pending_acks :: "int set"
  results :: "int \<rightharpoonup> ('u, 'r) answer waiter"
  session_salt :: int
  factory :: msg_factory
  server_time_offset :: rat
  handed_updates :: "'u list"
  restart_reasons :: "string list"

definition STORED_MSG_IDS_MAX_SIZE :: nat where "STORED_MSG_IDS_MAX_SIZE = 2000"
definition MAX_CONSECUTIVE_IGNORED :: nat where "MAX_CONSECUTIVE_IGNORED = 30"
definition ACKS_THRESHOLD :: nat where "ACKS_THRESHOLD = 10"

section \<open>One message\<close>

text \<open>\<open>Client._set_server_time\<close> and \<open>int(server_time * 2**32)\<close> at a reading of the clock.\<close>

definition set_server_time :: "int \<Rightarrow> rat \<Rightarrow> ('u, 'r) session \<Rightarrow> ('u, 'r) session" where
  "set_server_time mid t s = s\<lparr>server_time_offset := of_int mid / 2 ^ 32 - t\<rparr>"

definition py_int :: "rat \<Rightarrow> int" where
  "py_int r = (if 0 \<le> r then \<lfloor>r\<rfloor> else \<lceil>r\<rceil>)"

definition clock_of :: "rat \<Rightarrow> ('u, 'r) session \<Rightarrow> int" where
  "clock_of t s = py_int ((t + server_time_offset s) * 2 ^ 32)"

definition is_duplicate :: "int \<Rightarrow> ('u, 'r) session \<Rightarrow> bool" where
  "is_duplicate mid s \<longleftrightarrow> mid \<in> set (recent_msg_ids s) \<or> mid \<in> set (stored_msg_ids s)"

definition trim_stored :: "int list \<Rightarrow> int list" where
  "trim_stored ids =
     (if length ids > STORED_MSG_IDS_MAX_SIZE then drop (STORED_MSG_IDS_MAX_SIZE div 2) ids else ids)"

text \<open>
  The checks of the \<open>try\<close> block. The difference is compared with 30 and 300 seconds after a
  division by \<open>2**32\<close>; here the bounds are multiplied.
\<close>

definition check_message :: "rat \<Rightarrow> int \<Rightarrow> ('u, 'r) session \<Rightarrow> bool \<times> ('u, 'r) session" where
  "check_message t mid s =
     (let s = s\<lparr>stored_msg_ids := trim_stored (stored_msg_ids s)\<rparr> in
      if stored_msg_ids s = [] then (True, s)
      else if mid < hd (stored_msg_ids s) then (False, s)
      else
        (let (i, f) = allocate_message_identity (clock_of t s) (factory s);
             s = s\<lparr>factory := f\<rparr>;
             diff = mid - i
         in if diff > 30 * 2 ^ 32 then (False, s)
            else if diff < - (300 * 2 ^ 32) then (False, s)
            else (True, s)))"

text \<open>The identifier of the request that a body answers.\<close>

definition answered_id :: "('u, 'r) sbody \<Rightarrow> int option" where
  "answered_id b =
     (case b of
        BadServerSalt bad _ \<Rightarrow> Some bad
      | BadMsgNotificationBody bad _ \<Rightarrow> Some bad
      | FutureSaltsBody f \<Rightarrow> Some (req_msg_id f)
      | RpcResult req _ \<Rightarrow> Some req
      | Pong mid \<Rightarrow> Some mid
      | _ \<Rightarrow> None)"

definition deliver :: "int \<Rightarrow> ('u, 'r) answer \<Rightarrow> (int \<rightharpoonup> ('u, 'r) answer waiter) \<Rightarrow>
    int \<rightharpoonup> ('u, 'r) answer waiter" where
  "deliver mid v rs =
     (case rs mid of None \<Rightarrow> rs | Some w \<Rightarrow> rs(mid \<mapsto> w\<lparr>w_value := Some v, w_event := True\<rparr>))"

text \<open>What is done with the body of an accepted message.\<close>

definition process_body :: "('u, 'r) sbody \<Rightarrow> ('u, 'r) session \<Rightarrow> ('u, 'r) session" where
  "process_body b s =
     (case b of
        MsgDetailedInfo a \<Rightarrow> s\<lparr>pending_acks := insert a (pending_acks s)\<rparr>
      | MsgNewDetailedInfo a \<Rightarrow> s\<lparr>pending_acks := insert a (pending_acks s)\<rparr>
      | NewSessionCreated \<Rightarrow> s
      | _ \<Rightarrow>
          (let s = (case b of BadServerSalt _ new \<Rightarrow> s\<lparr>session_salt := new\<rparr> | _ \<Rightarrow> s);
               s = (case b of UpdatesBody u \<Rightarrow> s\<lparr>handed_updates := handed_updates s @ [u]\<rparr> | _ \<Rightarrow> s)
           in case answered_id b of
                None \<Rightarrow> s
              | Some mid \<Rightarrow> s\<lparr>results := deliver mid (answer_of b) (results s)\<rparr>))"

datatype verdict = Duplicate | Ignored | Restart | Accepted

record readings =
  t_sync :: rat
  t_alloc :: rat

definition ack_if_odd :: "('u, 'r) sbody message \<Rightarrow> ('u, 'r) session \<Rightarrow> ('u, 'r) session" where
  "ack_if_odd m s =
     (if seq_no m mod 2 \<noteq> 0 then s\<lparr>pending_acks := insert (msg_id m) (pending_acks s)\<rparr> else s)"

definition handle_message ::
  "readings \<Rightarrow> ('u, 'r) sbody message \<Rightarrow> ('u, 'r) session \<Rightarrow> verdict \<times> ('u, 'r) session"
where
  "handle_message t m s =
     (if is_duplicate (msg_id m) s then (Duplicate, ack_if_odd m s)
      else
        (let s = (if seq_no m = 0 then set_server_time (msg_id m) (t_sync t) s else s);
             (valid, s) = check_message (t_alloc t) (msg_id m) s
         in if \<not> valid then
              (let s = s\<lparr>ignore_count := ignore_count s + 1\<rparr> in
               if ignore_count s \<ge> MAX_CONSECUTIVE_IGNORED
               then (Restart, s\<lparr>restart_reasons := restart_reasons s @ [''validation'']\<rparr>)
               else (Ignored, s))
            else
              (let s = s\<lparr>stored_msg_ids := insort (msg_id m) (stored_msg_ids s), ignore_count := 0\<rparr>;
                   s = ack_if_odd m s
               in (Accepted, process_body (body m) s))))"

text \<open>
  The loop over a packet's messages. The validation restart leaves it, and with it the life of the session ends: what
  follows is received after \<open>restart\<close> has reset the identifiers. The loop runs as one step, although it may
  wait for the lock of the message factory.
\<close>

fun handle_messages ::
  "(readings \<times> ('u, 'r) sbody message) list \<Rightarrow> ('u, 'r) session \<Rightarrow> verdict list \<times> ('u, 'r) session"
where
  "handle_messages [] s = ([], s)"
| "handle_messages ((t, m) # ms) s =
     (let (v, s1) = handle_message t m s in
      if v = Restart then ([v], s1)
      else (let (vs, s2) = handle_messages ms s1 in (v # vs, s2)))"

text \<open>The acknowledgements at the end of a packet: \<open>meanwhile\<close> is what other packets add while the
  \<open>MsgsAck\<close> with the pending ones is being sent, \<open>sent\<close> whether it went out without an \<open>OSError\<close>.\<close>

definition send_acks :: "bool \<Rightarrow> int set \<Rightarrow> ('u, 'r) session \<Rightarrow> ('u, 'r) session" where
  "send_acks sent meanwhile s =
     (if card (pending_acks s) \<ge> ACKS_THRESHOLD
      then (let s = s\<lparr>pending_acks := pending_acks s \<union> meanwhile\<rparr> in if sent then s\<lparr>pending_acks := {}\<rparr> else s)
      else s)"

text \<open>What was added meanwhile is cleared with the rest, though the \<open>MsgsAck\<close> did not name it.\<close>

lemma acks_lost:
  "ACKS_THRESHOLD \<le> card (pending_acks s) \<Longrightarrow> pending_acks (send_acks True meanwhile s) = {}"
  by (simp add: send_acks_def)

text \<open>
  \<open>handle_packet\<close>: a \<open>ValueError\<close> of \<open>unpack\<close> schedules a restart, another exception leaves
  the handler. \<open>messages\<close> is what was unpacked: the content of a container or one message.
\<close>

definition handle_packet ::
  "bool \<Rightarrow> int set \<Rightarrow> (readings \<times> ('u, 'r) sbody message) list res \<Rightarrow> ('u, 'r) session \<Rightarrow>
   unit res \<times> ('u, 'r) session"
where
  "handle_packet sent meanwhile messages s =
     (case messages of
        Inl e \<Rightarrow>
          if e = ValueError then (Inr (), s\<lparr>restart_reasons := restart_reasons s @ [''unpack'']\<rparr>)
          else (Inl e, s)
      | Inr ms \<Rightarrow>
          (let (vs, s1) = handle_messages ms s in
           if Restart \<in> set vs then (Inr (), s1) else (Inr (), send_acks sent meanwhile s1)))"

section \<open>Server salts\<close>

record salt_state =
  s_salt :: int
  salt_valid_until :: int
  s_future_salts :: "future_salt list"
  future_salts_requested_at :: rat

function current_salt :: "rat \<Rightarrow> salt_state \<Rightarrow> int \<times> salt_state" where
  "current_salt t s =
     (case s_future_salts s of
        [] \<Rightarrow> (s_salt s, s)
      | f # fs \<Rightarrow>
          if of_int (valid_since f) \<le> t
          then current_salt t (s\<lparr>s_future_salts := fs, s_salt := salt f, salt_valid_until := valid_until f\<rparr>)
          else (s_salt s, s))"
  by pat_completeness auto
termination
  by (relation "measure (\<lambda>(t, s). length (s_future_salts s))") auto

declare current_salt.simps [simp del]

text \<open>
  \<open>_update_future_salts\<close>: what the server answers, if it does in time, is a parameter. The
  result says whether a request was made.
\<close>

definition update_future_salts :: "rat \<Rightarrow> future_salts option \<Rightarrow> salt_state \<Rightarrow> bool \<times> salt_state" where
  "update_future_salts server_time reply s =
     (if server_time - future_salts_requested_at s < 60 then (False, s)
      else
        (let s = snd (current_salt server_time s) in
         if s_future_salts s \<noteq> [] \<and> of_int (salt_valid_until s) - server_time > 60 then (False, s)
         else
           (let s = s\<lparr>future_salts_requested_at := server_time\<rparr> in
            case reply of
              None \<Rightarrow> (True, s)
            | Some r \<Rightarrow> (True, s\<lparr>s_future_salts := sort_key valid_since (salts r)\<rparr>))))"


section \<open>The invariant of the received identifiers\<close>

definition session_inv :: "('u, 'r) session \<Rightarrow> bool" where
  "session_inv s \<longleftrightarrow> sorted (stored_msg_ids s) \<and> distinct (stored_msg_ids s) \<and>
     length (stored_msg_ids s) \<le> STORED_MSG_IDS_MAX_SIZE + 1 \<and> ignore_count s < MAX_CONSECUTIVE_IGNORED \<and>
     finite (pending_acks s)"

text \<open>Every identifier of the set was either kept or lies below all that are kept.\<close>

definition seen_inv :: "int set \<Rightarrow> ('u, 'r) session \<Rightarrow> bool" where
  "seen_inv A s \<longleftrightarrow>
     (\<forall>a \<in> A. a \<in> set (stored_msg_ids s) \<or> stored_msg_ids s \<noteq> [] \<and> a < hd (stored_msg_ids s))"

lemma trim_stored_Nil [simp]: "trim_stored ids = [] \<longleftrightarrow> ids = []"
  by (auto simp: trim_stored_def STORED_MSG_IDS_MAX_SIZE_def)

lemma trim_stored_sorted: "sorted ids \<Longrightarrow> sorted (trim_stored ids)"
  by (simp add: trim_stored_def sorted_wrt_drop)

lemma trim_stored_distinct: "distinct ids \<Longrightarrow> distinct (trim_stored ids)"
  by (simp add: trim_stored_def)

lemma trim_stored_subset: "set (trim_stored ids) \<subseteq> set ids"
  by (auto simp: trim_stored_def dest: in_set_dropD)

lemma trim_stored_length: "length ids \<le> STORED_MSG_IDS_MAX_SIZE + 1 \<Longrightarrow> length (trim_stored ids) \<le> STORED_MSG_IDS_MAX_SIZE"
  by (auto simp: trim_stored_def STORED_MSG_IDS_MAX_SIZE_def)

lemma dropped_below:
  assumes "sorted ids" "distinct ids" "a \<in> set ids" "a \<notin> set (drop n ids)" "drop n ids \<noteq> []"
  shows "a < hd (drop n ids)"
proof -
  have "a \<in> set (take n ids)" using assms(3,4) by (metis UnE append_take_drop_id set_append)
  moreover have "sorted (take n ids @ drop n ids)" "distinct (take n ids @ drop n ids)"
    using assms by simp_all
  moreover have "hd (drop n ids) \<in> set (drop n ids)" using assms(5) by simp
  ultimately show ?thesis unfolding sorted_append distinct_append by (metis disjoint_iff order_le_less)
qed

lemma trim_stored_below:
  assumes "sorted ids" "distinct ids" "a \<in> set ids" "a \<notin> set (trim_stored ids)"
  shows "a < hd (trim_stored ids)"
  using dropped_below [OF assms(1-3), of "STORED_MSG_IDS_MAX_SIZE div 2"] assms(3,4)
  by (auto simp: trim_stored_def STORED_MSG_IDS_MAX_SIZE_def split: if_splits)

lemma hd_trim_stored: "sorted ids \<Longrightarrow> ids \<noteq> [] \<Longrightarrow> hd ids \<le> hd (trim_stored ids)"
proof -
  assume a: "sorted ids" "ids \<noteq> []"
  then have "hd (trim_stored ids) \<in> set ids" using trim_stored_subset [of ids] by force
  with a show ?thesis by (cases ids) auto
qed

lemma hd_insort: "xs \<noteq> [] \<Longrightarrow> hd xs \<le> x \<Longrightarrow> x \<notin> set xs \<Longrightarrow> hd (insort x xs) = hd (xs :: int list)"
  by (cases xs) auto

lemma check_message_stored:
  assumes "check_message t mid s = (valid, s')"
  shows "stored_msg_ids s' = trim_stored (stored_msg_ids s)"
    and "valid \<Longrightarrow> stored_msg_ids s \<noteq> [] \<Longrightarrow> hd (trim_stored (stored_msg_ids s)) \<le> mid"
    and "ignore_count s' = ignore_count s" "recent_msg_ids s' = recent_msg_ids s"
        "pending_acks s' = pending_acks s" "results s' = results s" "handed_updates s' = handed_updates s"
        "session_salt s' = session_salt s"
  using assms by (auto simp: check_message_def Let_def split: if_splits prod.splits)

lemma process_body_keeps [simp]:
  "stored_msg_ids (process_body b s) = stored_msg_ids s"
  "ignore_count (process_body b s) = ignore_count s"
  "recent_msg_ids (process_body b s) = recent_msg_ids s"
  by (cases b; simp add: process_body_def answered_id_def Let_def)+

lemma ack_if_odd_keeps [simp]:
  "stored_msg_ids (ack_if_odd m s) = stored_msg_ids s" "ignore_count (ack_if_odd m s) = ignore_count s"
  "recent_msg_ids (ack_if_odd m s) = recent_msg_ids s" "results (ack_if_odd m s) = results s"
  "handed_updates (ack_if_odd m s) = handed_updates s" "session_salt (ack_if_odd m s) = session_salt s"
  by (simp_all add: ack_if_odd_def)

lemma process_body_acks: "pending_acks s \<subseteq> pending_acks (process_body b s)"
  by (cases b) (auto simp: process_body_def answered_id_def Let_def)

lemma process_body_finite: "finite (pending_acks s) \<Longrightarrow> finite (pending_acks (process_body b s))"
  by (cases b) (auto simp: process_body_def answered_id_def Let_def)

lemma set_server_time_keeps [simp]:
  "stored_msg_ids (set_server_time i t s) = stored_msg_ids s" "ignore_count (set_server_time i t s) = ignore_count s"
  "recent_msg_ids (set_server_time i t s) = recent_msg_ids s" "pending_acks (set_server_time i t s) = pending_acks s"
  "results (set_server_time i t s) = results s" "handed_updates (set_server_time i t s) = handed_updates s"
  "session_salt (set_server_time i t s) = session_salt s"
  by (simp_all add: set_server_time_def)

text \<open>The cases of \<open>handle_message\<close>, with what each leaves of the identifiers.\<close>

lemma handle_message_cases:
  assumes "handle_message t m s = (v, s')"
  obtains (dup) "v = Duplicate" "is_duplicate (msg_id m) s" "s' = ack_if_odd m s"
  | (refused) "v = Ignored \<or> v = Restart" "\<not> is_duplicate (msg_id m) s"
      "stored_msg_ids s' = trim_stored (stored_msg_ids s)" "pending_acks s' = pending_acks s"
      "ignore_count s' = ignore_count s + 1" "v = Restart \<longleftrightarrow> ignore_count s + 1 \<ge> MAX_CONSECUTIVE_IGNORED"
      "results s' = results s" "handed_updates s' = handed_updates s" "recent_msg_ids s' = recent_msg_ids s"
  | (accepted) s1 where "v = Accepted" "\<not> is_duplicate (msg_id m) s"
      "stored_msg_ids s' = insort (msg_id m) (trim_stored (stored_msg_ids s))" "ignore_count s' = 0"
      "stored_msg_ids s \<noteq> [] \<Longrightarrow> hd (trim_stored (stored_msg_ids s)) \<le> msg_id m"
      "s' = process_body (body m) (ack_if_odd m s1)" "results s1 = results s" "pending_acks s1 = pending_acks s"
      "handed_updates s1 = handed_updates s" "recent_msg_ids s' = recent_msg_ids s"
proof (cases "is_duplicate (msg_id m) s")
  case True
  with assms show ?thesis by (intro dup) (auto simp: handle_message_def)
next
  case False
  define s0 where "s0 = (if seq_no m = 0 then set_server_time (msg_id m) (t_sync t) s else s)"
  have k: "stored_msg_ids s0 = stored_msg_ids s" "ignore_count s0 = ignore_count s" "pending_acks s0 = pending_acks s"
    "results s0 = results s" "handed_updates s0 = handed_updates s" "recent_msg_ids s0 = recent_msg_ids s"
    by (simp_all add: s0_def)
  obtain valid s1 where c: "check_message (t_alloc t) (msg_id m) s0 = (valid, s1)" by fastforce
  note cm = check_message_stored [OF c]
  have h: "handle_message t m s =
      (if \<not> valid then
         (let s = s1\<lparr>ignore_count := ignore_count s1 + 1\<rparr> in
          if ignore_count s \<ge> MAX_CONSECUTIVE_IGNORED
          then (Restart, s\<lparr>restart_reasons := restart_reasons s @ [''validation'']\<rparr>) else (Ignored, s))
       else (let s = s1\<lparr>stored_msg_ids := insort (msg_id m) (stored_msg_ids s1), ignore_count := 0\<rparr>;
                 s = ack_if_odd m s
             in (Accepted, process_body (body m) s)))"
    using False c by (simp add: handle_message_def s0_def [symmetric])
  show ?thesis
  proof (cases valid)
    case True
    with assms h cm k False show ?thesis
      by (intro accepted [of "s1\<lparr>stored_msg_ids := insort (msg_id m) (stored_msg_ids s1), ignore_count := 0\<rparr>"])
        (auto simp: Let_def)
  next
    case f: False
    with assms h cm k False show ?thesis by (intro refused) (auto simp: Let_def split: if_splits)
  qed
qed

lemma handle_message_inv:
  assumes "handle_message t m s = (v, s')" "session_inv s" "v \<noteq> Restart"
  shows "session_inv s'"
  using assms(1)
proof (cases rule: handle_message_cases)
  case dup
  with assms(2) show ?thesis by (auto simp: session_inv_def ack_if_odd_def)
next
  case refused
  with assms(2,3) trim_stored_length [of "stored_msg_ids s"] show ?thesis
    by (auto simp: session_inv_def trim_stored_sorted trim_stored_distinct)
next
  case (accepted s1)
  have "msg_id m \<notin> set (trim_stored (stored_msg_ids s))"
    using accepted(2) trim_stored_subset [of "stored_msg_ids s"] by (auto simp: is_duplicate_def)
  moreover have "finite (pending_acks s')"
    using accepted assms(2) by (auto simp: session_inv_def ack_if_odd_def intro!: process_body_finite)
  ultimately show ?thesis
    using accepted assms(2) trim_stored_length [of "stored_msg_ids s"]
    by (auto simp: session_inv_def MAX_CONSECUTIVE_IGNORED_def sorted_insort distinct_insort trim_stored_sorted
        trim_stored_distinct)
qed

lemma seen_trim:
  assumes "seen_inv A s" "sorted (stored_msg_ids s)" "distinct (stored_msg_ids s)" "a \<in> A"
  shows "a \<in> set (trim_stored (stored_msg_ids s)) \<or>
    stored_msg_ids s \<noteq> [] \<and> a < hd (trim_stored (stored_msg_ids s))"
proof -
  from assms(1,4) consider "a \<in> set (stored_msg_ids s)" | "stored_msg_ids s \<noteq> []" "a < hd (stored_msg_ids s)"
    by (auto simp: seen_inv_def)
  then show ?thesis
  proof cases
    case 1
    then show ?thesis using trim_stored_below [OF assms(2,3), of a] by fastforce
  next
    case 2
    then show ?thesis using hd_trim_stored [OF assms(2)] by auto
  qed
qed

lemma handle_message_seen:
  assumes h: "handle_message t m s = (v, s')" and i: "session_inv s" and a: "seen_inv A s"
  shows "(v = Accepted \<longrightarrow> msg_id m \<notin> A) \<and> seen_inv (if v = Accepted then insert (msg_id m) A else A) s'"
proof -
  have so: "sorted (stored_msg_ids s)" "distinct (stored_msg_ids s)" using i by (simp_all add: session_inv_def)
  note st = seen_trim [OF a so]
  from h show ?thesis
  proof (cases rule: handle_message_cases)
    case dup
    with a show ?thesis by (simp add: seen_inv_def)
  next
    case refused
    with st show ?thesis by (auto simp: seen_inv_def)
  next
    case (accepted s1)
    let ?T = "trim_stored (stored_msg_ids s)"
    have n: "msg_id m \<notin> set (stored_msg_ids s)" "msg_id m \<notin> set ?T"
      using accepted(2) trim_stored_subset [of "stored_msg_ids s"] by (auto simp: is_duplicate_def)
    have "msg_id m \<notin> A" using st n accepted(5) by fastforce
    moreover have hi: "stored_msg_ids s \<noteq> [] \<Longrightarrow> hd (insort (msg_id m) ?T) = hd ?T"
      using hd_insort [of ?T "msg_id m"] accepted(5) n by simp
    moreover have "a \<in> set (insort (msg_id m) ?T) \<or> insort (msg_id m) ?T \<noteq> [] \<and> a < hd (insort (msg_id m) ?T)"
      if "a \<in> insert (msg_id m) A" for a
      using that st [of a] hi by (cases "a = msg_id m") (auto simp: set_insort_key)
    ultimately show ?thesis using accepted(1,3) by (simp add: seen_inv_def)
  qed
qed


text \<open>The identifiers of the accepted messages, in order.\<close>

definition accepted_ids :: "(readings \<times> ('u, 'r) sbody message) list \<Rightarrow> verdict list \<Rightarrow> int list" where
  "accepted_ids ms vs = [msg_id m. ((t, m), v) \<leftarrow> zip ms vs, v = Accepted]"

lemma handle_messages_seen:
  "handle_messages ms s = (vs, s') \<Longrightarrow> session_inv s \<Longrightarrow> seen_inv A s \<Longrightarrow>
   distinct (accepted_ids ms vs) \<and> set (accepted_ids ms vs) \<inter> A = {} \<and>
   (Restart \<notin> set vs \<longrightarrow> session_inv s' \<and> seen_inv (A \<union> set (accepted_ids ms vs)) s')"
proof (induction ms s arbitrary: vs A rule: handle_messages.induct)
  case (2 t m ms s)
  obtain v s1 where h: "handle_message t m s = (v, s1)" by fastforce
  note seen = handle_message_seen [OF h "2.prems"(2,3)]
  show ?case
  proof (cases "v = Restart")
    case True
    with 2 h show ?thesis by (auto simp: accepted_ids_def)
  next
    case False
    obtain vs' where r: "handle_messages ms s1 = (vs', s')" and vs: "vs = v # vs'"
      using "2.prems"(1) h False by (cases "handle_messages ms s1") auto
    let ?A = "if v = Accepted then insert (msg_id m) A else A"
    have "session_inv s1" by (rule handle_message_inv [OF h "2.prems"(2) False])
    from "2.IH" [OF refl h [symmetric] False r this conjunct2 [OF seen]] seen False
    show ?thesis by (auto simp: vs accepted_ids_def split: if_splits)
  qed
qed (auto simp: accepted_ids_def)

lemma handle_messages_life:
  "handle_messages ms s = (vs, s') \<Longrightarrow>
   (Restart \<notin> set vs \<longrightarrow> length vs = length ms) \<and>
   (Restart \<in> set vs \<longrightarrow> last vs = Restart \<and> Restart \<notin> set (butlast vs) \<and>
     29 \<le> ignore_count s + length (filter (\<lambda>v. v = Ignored) vs))"
proof (induction ms s arbitrary: vs rule: handle_messages.induct)
  case (2 t m ms s)
  obtain v s1 where h: "handle_message t m s = (v, s1)" by fastforce
  show ?case
  proof (cases "v = Restart")
    case True
    from h have "MAX_CONSECUTIVE_IGNORED \<le> ignore_count s + 1"
      by (cases rule: handle_message_cases) (use True in simp_all)
    then show ?thesis
      using 2(2) h True by (auto simp: MAX_CONSECUTIVE_IGNORED_def)
  next
    case False
    obtain vs' where r: "handle_messages ms s1 = (vs', s')" and vs: "vs = v # vs'"
      using "2.prems"(1) h False by (cases "handle_messages ms s1") auto
    from h have "ignore_count s1 \<le> ignore_count s + (if v = Ignored then 1 else 0)"
      by (cases rule: handle_message_cases) (use False in \<open>auto\<close>)
    then show ?thesis
      using "2.IH" [OF refl h [symmetric] False r] False by (auto simp: vs)
  qed
qed auto

section \<open>Properties\<close>

definition new_session :: "('u, 'r) session" where
  "new_session = \<lparr>recent_msg_ids = [], stored_msg_ids = [], ignore_count = 0, pending_acks = {},
     results = Map.empty, session_salt = 0, factory = MsgFactory_init, server_time_offset = 0,
     handed_updates = [], restart_reasons = []\<rparr>"

lemma new_session_inv: "session_inv new_session" "seen_inv {} new_session"
  by (simp_all add: session_inv_def seen_inv_def new_session_def MAX_CONSECUTIVE_IGNORED_def)

text \<open>C1: No message is processed twice within one life of a session, which begins with no identifiers known and lasts until a
  restart is due. Over any sequence of received messages up to the first verdict \<open>Restart\<close>, however they are
  repeated or reordered, whatever the clock reads and although old identifiers are dropped once
  two thousand are stored, each identifier is accepted at most once; without such a verdict every message has got one, and the
  stored identifiers are sorted, distinct and at most 2001; a verdict \<open>Restart\<close> comes after twenty-nine refused messages
  in the life before it and is the last one. The restart then empties the stored identifiers and keeps thirty of them as recent: across it a
  message can be accepted again (lemma \<open>restart_forgets_newer\<close> of \<open>Session_Lifecycle\<close>).\<close>

theorem no_replay:
  assumes "handle_messages ms new_session = (vs, s')"
  shows "distinct (accepted_ids ms vs) \<and>
    (Restart \<notin> set vs \<longrightarrow> session_inv s' \<and> length vs = length ms) \<and>
    (Restart \<in> set vs \<longrightarrow> last vs = Restart \<and> Restart \<notin> set (butlast vs) \<and> 29 \<le> length (filter (\<lambda>v. v = Ignored) vs))"
  using handle_messages_seen [OF assms new_session_inv] handle_messages_life [OF assms]
  by (simp add: new_session_def)

definition msg0 :: "int \<Rightarrow> int \<Rightarrow> (nat, nat) sbody \<Rightarrow> (nat, nat) sbody message" where
  "msg0 i q b = \<lparr>msg_id = i, seq_no = q, mlength = 0, body = b\<rparr>"

definition clock0 :: readings where
  "clock0 = \<lparr>t_sync = 0, t_alloc = 0\<rparr>"

lemma clock0_check:
  "clock_of (t_alloc clock0) s = py_int (server_time_offset s * 2 ^ 32)"
  by (simp add: clock_of_def clock0_def)

theorem no_replay_witness:
  "\<exists>vs s'. handle_messages [(clock0, msg0 401 1 (UpdatesBody 7)), (clock0, msg0 401 1 (UpdatesBody 7))] new_session = (vs, s') \<and>
     vs = [Accepted, Duplicate] \<and> handed_updates s' = [7] \<and> pending_acks s' = {401} \<and>
     distinct (accepted_ids [(clock0, msg0 401 1 (UpdatesBody 7)), (clock0, msg0 401 1 (UpdatesBody 7))] vs)"
proof -
  let ?ms = "[(clock0, msg0 401 1 (UpdatesBody 7)), (clock0, msg0 401 1 (UpdatesBody 7))]"
  obtain vs s' where r: "handle_messages ?ms new_session = (vs, s')" by fastforce
  then have "vs = [Accepted, Duplicate] \<and> handed_updates s' = [7] \<and> pending_acks s' = {401}"
    by (auto simp: handle_message_def is_duplicate_def new_session_def msg0_def check_message_def trim_stored_def
        STORED_MSG_IDS_MAX_SIZE_def ack_if_odd_def process_body_def answered_id_def Let_def)
  with no_replay [OF r] r show ?thesis by auto
qed

text \<open>Every content-related message that is not refused gets acknowledged: after
  \<open>handle_message\<close> an odd-numbered message that was accepted, or that is a repetition, is among
  the pending acknowledgements; and a refused or repeated message changes neither the waiting
  requests nor the updates handed to the client.\<close>

theorem received_message_effects:
  assumes "handle_message t m s = (v, s')"
  shows "(odd (seq_no m) \<and> (v = Accepted \<or> v = Duplicate) \<longrightarrow> msg_id m \<in> pending_acks s') \<and>
    (v \<noteq> Accepted \<longrightarrow> results s' = results s \<and> handed_updates s' = handed_updates s) \<and>
    pending_acks s \<subseteq> pending_acks s'"
  using assms
proof (cases rule: handle_message_cases)
  case dup
  then show ?thesis by (auto simp: ack_if_odd_def odd_iff_mod_2_eq_one)
next
  case refused
  then show ?thesis by auto
next
  case (accepted s1)
  have "pending_acks (ack_if_odd m s1) \<subseteq> pending_acks s'"
    unfolding accepted(6) by (rule process_body_acks)
  with accepted show ?thesis by (auto simp: ack_if_odd_def odd_iff_mod_2_eq_one)
qed

theorem received_message_effects_witness:
  "\<exists>v s'. handle_message clock0 (msg0 401 1 (Pong 3)) new_session = (v, s') \<and> v = Accepted \<and> 401 \<in> pending_acks s'"
proof -
  obtain v s' where r: "handle_message clock0 (msg0 401 1 (Pong 3)) new_session = (v, s')" by fastforce
  then have "v = Accepted"
    by (auto simp: handle_message_def is_duplicate_def new_session_def msg0_def check_message_def trim_stored_def
        STORED_MSG_IDS_MAX_SIZE_def ack_if_odd_def process_body_def answered_id_def Let_def)
  with received_message_effects [OF r] r show ?thesis by (auto simp: msg0_def)
qed

text \<open>An answer reaches the request that asked. Accepting a message whose body answers a waiting
  request gives that request the result and wakes it, and leaves every other waiting request
  as it was; a body that answers nothing leaves all of them.\<close>

theorem answers_are_matched:
  assumes "handle_message t m s = (Accepted, s')"
  shows "(case answered_id (body m) of
      None \<Rightarrow> results s' = results s
    | Some i \<Rightarrow> (case results s i of
         None \<Rightarrow> results s' = results s
       | Some w \<Rightarrow> results s' = (results s)(i \<mapsto> w\<lparr>w_value := Some (answer_of (body m)), w_event := True\<rparr>)))"
  using assms
proof (cases rule: handle_message_cases)
  case (accepted s1)
  then have r: "results s' = results (process_body (body m) (ack_if_odd m s1))" "results s1 = results s"
    by simp_all
  show ?thesis unfolding r(1)
    by (cases "body m") (simp_all add: process_body_def answered_id_def deliver_def r(2) Let_def split: option.splits)
qed simp_all

theorem answers_are_matched_witness:
  "\<exists>s'. handle_message clock0 (msg0 401 0 (RpcResult 100 5)) (new_session\<lparr>results := [100 \<mapsto> Result, 104 \<mapsto> Result]\<rparr>) = (Accepted, s') \<and>
     results s' = [100 \<mapsto> Result\<lparr>w_value := Some (ResultAnswer 5), w_event := True\<rparr>, 104 \<mapsto> Result]"
proof -
  obtain v s' where r: "handle_message clock0 (msg0 401 0 (RpcResult 100 5)) (new_session\<lparr>results := [100 \<mapsto> Result, 104 \<mapsto> Result]\<rparr>) = (v, s')" by fastforce
  then have v: "v = Accepted"
    by (auto simp: handle_message_def is_duplicate_def new_session_def msg0_def check_message_def trim_stored_def
        STORED_MSG_IDS_MAX_SIZE_def ack_if_odd_def process_body_def answered_id_def Let_def set_server_time_def)
  from answers_are_matched [OF r [unfolded v]] have
    "results s' = [100 \<mapsto> Result\<lparr>w_value := Some (ResultAnswer 5), w_event := True\<rparr>, 104 \<mapsto> Result]"
    by (auto simp: msg0_def answered_id_def answer_of_def new_session_def fun_eq_iff)
  with r v show ?thesis by auto
qed


lemma current_salt_takeWhile:
  "current_salt t s =
     (let due = takeWhile (\<lambda>f. of_int (valid_since f) \<le> t) (s_future_salts s);
          s' = (if due = [] then s else s\<lparr>s_salt := salt (last due), salt_valid_until := valid_until (last due)\<rparr>)
      in (s_salt s', s'\<lparr>s_future_salts := dropWhile (\<lambda>f. of_int (valid_since f) \<le> t) (s_future_salts s)\<rparr>))"
proof (induction t s rule: current_salt.induct)
  case (1 t s)
  show ?case
  proof (cases "s_future_salts s")
    case Nil
    then show ?thesis by (simp add: current_salt.simps [of t s] Let_def)
  next
    case (Cons f fs)
    show ?thesis
    proof (cases "of_int (valid_since f) \<le> t")
      case True
      with 1 [OF Cons True] Cons show ?thesis by (simp add: current_salt.simps [of t s] Let_def)
    next
      case False
      with Cons show ?thesis by (simp add: current_salt.simps [of t s] Let_def)
    qed
  qed
qed

lemma sorted_takeWhile_filter:
  assumes "sorted (map valid_since fs)"
  shows "takeWhile (\<lambda>f. of_int (valid_since f) \<le> t) fs = filter (\<lambda>f. of_int (valid_since f) \<le> (t :: rat)) fs"
    and "dropWhile (\<lambda>f. of_int (valid_since f) \<le> t) fs = filter (\<lambda>f. \<not> of_int (valid_since f) \<le> (t :: rat)) fs"
proof -
  have "\<not> of_int (valid_since g) \<le> t"
    if "sorted (map valid_since (f # fs))" "\<not> of_int (valid_since f) \<le> t" "g \<in> set fs" for f g fs
    using that by (force simp: not_le intro: less_le_trans)
  then show "takeWhile (\<lambda>f. of_int (valid_since f) \<le> t) fs = filter (\<lambda>f. of_int (valid_since f) \<le> t) fs"
    "dropWhile (\<lambda>f. of_int (valid_since f) \<le> t) fs = filter (\<lambda>f. \<not> of_int (valid_since f) \<le> t) fs"
    using assms by (induction fs) (auto intro!: filter_False [symmetric] filter_True [symmetric])
qed

text \<open>A request goes out with the newest salt already valid. After \<open>_update_future_salts\<close> has
  stored a pool, \<open>_current_salt\<close> at any time returns the last of the salts whose validity has
  begun, or the salt in use when none has, and keeps exactly those still to come.\<close>

theorem current_salt_newest:
  assumes "update_future_salts t0 (Some r) s0 = (True, s)"
  shows "\<exists>s'. current_salt t s =
    (let due = filter (\<lambda>f. of_int (valid_since f) \<le> t) (sort_key valid_since (salts r))
     in if due = [] then s_salt s else salt (last due), s') \<and>
    s_future_salts s' = filter (\<lambda>f. t < of_int (valid_since f)) (sort_key valid_since (salts r))"
proof -
  from assms have f: "s_future_salts s = sort_key valid_since (salts r)"
    by (auto simp: update_future_salts_def Let_def split: if_splits)
  have "sorted (map valid_since (sort_key valid_since (salts r)))" by simp
  note tw = sorted_takeWhile_filter [OF this, of t]
  show ?thesis
    by (simp add: current_salt_takeWhile [of t s] f tw Let_def not_le)
qed

definition pool0 :: future_salts where
  "pool0 = \<lparr>req_msg_id = 1, now = 100, salts =
     [\<lparr>valid_since = 300, valid_until = 400, salt = 33\<rparr>, \<lparr>valid_since = 100, valid_until = 200, salt = 11\<rparr>,
      \<lparr>valid_since = 200, valid_until = 300, salt = 22\<rparr>]\<rparr>"

definition salts0 :: salt_state where
  "salts0 = \<lparr>s_salt = 5, salt_valid_until = 0, s_future_salts = [], future_salts_requested_at = 0\<rparr>"

theorem current_salt_newest_witness:
  "\<exists>s s'. update_future_salts 90 (Some pool0) salts0 = (True, s) \<and> current_salt 250 s = (22, s')"
proof -
  obtain b s where u: "update_future_salts 90 (Some pool0) salts0 = (b, s)" by fastforce
  then have b: "b = True"
    by (auto simp: update_future_salts_def salts0_def current_salt.simps split: if_splits)
  from current_salt_newest [OF u [unfolded b], of 250] u b show ?thesis
    by (auto simp: pool0_def)
qed

end
