(* ===== verification/Session_Lifecycle.thy ===== *)
theory Session_Lifecycle
  imports Session_Packets
begin

text \<open>
  The life of a session in \<open>session/session.py\<close>: starting over the endpoints of a data centre,
  stopping, restarting with a growing delay, the receiver, and the retries of \<open>invoke\<close>. What
  the network and the tasks do (connections, handshakes, answers, drained workers, a stop that
  arrives meanwhile) enters as parameters of the steps.
\<close>

section \<open>State\<close>

text \<open>\<open>transport_open\<close> is whether the connection of the session is open, \<open>receiving\<close> whether it has a
  \<open>recv_task\<close>.\<close>

datatype SessionState = STARTING | STARTED | STOPPING | STOPPED | STOP_FAILED

type_synonym endpoint = "pystr \<times> int"

record ('u, 'r) live =
  core :: "('u, 'r) session"
  lstate :: SessionState
  must_stay_stopped :: bool
  is_started :: bool
  restart_requested :: bool
  restart_active :: bool
  upload_fallback :: bool
  fallback_endpoints :: "endpoint list"
  transport_open :: bool
  receiving :: bool
  settled :: "int \<rightharpoonup> ('u, 'r) answer waiter"

text \<open>\<open>Session.__init__\<close>: the address given comes first, repetitions are dropped.\<close>

definition init_endpoints :: "endpoint \<Rightarrow> endpoint list \<Rightarrow> endpoint list" where
  "init_endpoints address fallback = dedup (address # fallback)"

section \<open>Stopping\<close>

text \<open>
  How the resources of a stop behave: whether the workers drain and the connection closes.
  A waiter that has no answer gets a \<open>TimeoutError\<close>; \<open>settled\<close> is the waiters as the stop
  leaves them in the hands of their senders, \<open>results\<close> itself being emptied.
\<close>

record stop_env =
  ping_drains :: bool
  close_works :: bool
  recv_drains :: bool
  pending_drains :: bool

definition fail_waiter :: "py_error \<Rightarrow> 'a waiter \<Rightarrow> 'a waiter" where
  "fail_waiter e w = (if w_event w then w else w\<lparr>w_exception := Some e, w_event := True\<rparr>)"

text \<open>The part of \<open>_stop_resources\<close> up to its first wait, and the rest. Between them the state is
  \<open>STOPPING\<close>.\<close>

definition begin_stop :: "('u, 'r) live \<Rightarrow> ('u, 'r) live" where
  "begin_stop l = l\<lparr>lstate := STOPPING, is_started := False,
     settled := (\<lambda>i. map_option (fail_waiter TimeoutError) (results (core l) i)),
     core := (core l)\<lparr>ignore_count := 0, stored_msg_ids := [], results := Map.empty\<rparr>\<rparr>"

definition finish_stop :: "stop_env \<Rightarrow> ('u, 'r) live \<Rightarrow> string list \<times> ('u, 'r) live" where
  "finish_stop e l =
     (let failures = (if ping_drains e then [] else [''ping'']) @
                     (if close_works e then [] else [''close'']) @
                     (if recv_drains e then [] else [''recv'']) @
                     (if pending_drains e then [] else [''pending''])
      in (failures, l\<lparr>must_stay_stopped := must_stay_stopped l \<or> \<not> close_works e,
            transport_open := (transport_open l \<and> \<not> close_works e), receiving := False,
            lstate := (if close_works e then STOPPED else STOP_FAILED)\<rparr>))"

definition stop_resources :: "stop_env \<Rightarrow> ('u, 'r) live \<Rightarrow> string list \<times> ('u, 'r) live" where
  "stop_resources e l = finish_stop e (begin_stop l)"

text \<open>\<open>_stop\<close>: a caller that finds another stop running waits for it and shares its failures (a worker
  that is being drained would return at once, but here the caller is none); a failed stop is reported again, a stopped
  session is left alone. The result is whether no \<open>SessionCleanupError\<close> is raised.\<close>

definition stop_internal :: "stop_env \<Rightarrow> ('u, 'r) live \<Rightarrow> bool \<times> ('u, 'r) live" where
  "stop_internal e l =
     (if lstate l = STOPPING then (let (failures, l) = finish_stop e l in (failures = [], l))
      else if lstate l = STOP_FAILED then (False, l)
      else if lstate l = STOPPED then (True, l)
      else (let (failures, l) = stop_resources e l in (failures = [], l)))"

definition stop :: "stop_env \<Rightarrow> ('u, 'r) live \<Rightarrow> bool \<times> ('u, 'r) live" where
  "stop e l = stop_internal e (l\<lparr>must_stay_stopped := True\<rparr>)"

text \<open>What the owner of the session may do while a start waits: nothing, call \<open>stop\<close> and get it done, or call it and
  have it still running when the start goes on.\<close>

datatype owner_stop = NoStop | StopCompletes stop_env | StopRunning

definition owner_stops :: "owner_stop \<Rightarrow> ('u, 'r) live \<Rightarrow> ('u, 'r) live" where
  "owner_stops w l =
     (case w of
        NoStop \<Rightarrow> l
      | StopCompletes e \<Rightarrow> snd (stop e l)
      | StopRunning \<Rightarrow> begin_stop (l\<lparr>must_stay_stopped := True\<rparr>))"

section \<open>Starting\<close>

text \<open>
  One endpoint: what the owner does and how it ends, for the connection and for the handshake; how closing a
  connection ends that came up too late; and, for an endpoint that failed, whether the owner calls \<open>stop\<close> during its
  cleanup, and the cleanup. The exceptions are the classes that \<open>_start\<close> tells apart.
\<close>

datatype start_error =
    AuthKeyDuplicated | Unauthorized | Flood | Forbidden | Permission
  | Network | OtherError

record attempt =
  connect_stop :: owner_stop
  connect_error :: "start_error option"
  late_close :: "start_error option"
  handshake_stop :: owner_stop
  handshake_error :: "start_error option"
  cleanup_stop :: bool
  cleanup :: stop_env

datatype start_result = StartReturned | StartRaised start_error | StartFailed | CleanupFailed

definition retried :: "start_error \<Rightarrow> bool" where
  "retried e \<longleftrightarrow> e \<in> {Flood, Forbidden, Permission, Network}"

definition refused_upload :: "start_error \<Rightarrow> bool" where
  "refused_upload e \<longleftrightarrow> e \<in> {Flood, Forbidden, Unauthorized, Permission}"

text \<open>
  The \<open>try\<close> block of the loop. An owner's stop that came while the connection was awaited makes it close the
  connection and leave \<open>_start\<close>. The same question is asked again after the receiver is created, but nothing is awaited
  in between.
\<close>

datatype tried = TriedOver | TriedFailed start_error | TriedConnected

definition try_endpoint :: "attempt \<Rightarrow> ('u, 'r) live \<Rightarrow> tried \<times> ('u, 'r) live" where
  "try_endpoint a l =
     (let l = owner_stops (connect_stop a) (l\<lparr>lstate := STARTING\<rparr>) in
      case connect_error a of
        Some e \<Rightarrow> (TriedFailed e, l)
      | None \<Rightarrow>
          (let l = l\<lparr>transport_open := True\<rparr> in
           if must_stay_stopped l then
             (case late_close a of
                Some e \<Rightarrow> (TriedFailed e, l)
              | None \<Rightarrow> (TriedOver, l\<lparr>transport_open := False\<rparr>))
           else
             (let l = owner_stops (handshake_stop a) (l\<lparr>receiving := True\<rparr>) in
              case handshake_error a of
                Some e \<Rightarrow> (TriedFailed e, l)
              | None \<Rightarrow> (TriedConnected, l))))"

text \<open>The loop over the endpoints: it leaves \<open>_start\<close>, ends with an endpoint that connected, finds none, or raises.\<close>

datatype loop_end = LeavesStart | LoopConnected endpoint | NoEndpoint | LoopRaises start_result

fun start_loop ::
  "(nat \<Rightarrow> attempt) \<Rightarrow> nat \<Rightarrow> endpoint list \<Rightarrow> ('u, 'r) live \<Rightarrow> loop_end \<times> ('u, 'r) live"
where
  "start_loop att i [] l = (NoEndpoint, l)"
| "start_loop att i (ep # eps) l =
     (if must_stay_stopped l then (LeavesStart, l)
      else
        (case try_endpoint (att i) l of
           (TriedOver, l) \<Rightarrow> (LeavesStart, l)
         | (TriedConnected, l) \<Rightarrow> (LoopConnected ep, l)
         | (TriedFailed e, l) \<Rightarrow>
             if \<not> retried e then (LoopRaises (StartRaised e), l)
             else if upload_fallback l \<and> refused_upload e then (LoopRaises (StartRaised e), l)
             else
               (let (clean, l) = stop_internal (cleanup (att i)) l;
                    l = (if cleanup_stop (att i) then l\<lparr>must_stay_stopped := True\<rparr> else l)
                in if \<not> clean then (LoopRaises (if upload_fallback l then CleanupFailed else StartRaised e), l)
                   else if must_stay_stopped l then (LeavesStart, l)
                   else if eps = [] then (LoopRaises StartFailed, l)
                   else start_loop att (i + 1) eps l)))"

text \<open>
  \<open>_start\<close>: \<open>ready_check\<close> is what \<open>_check_receiver\<close> finds of a receiver once the state is set,
  \<open>final_check\<close> what it finds after the connect callback, \<open>callback_stop\<close> what the owner does
  during the callback, and \<open>last_stop\<close> how a stop at the end goes, whose \<open>SessionCleanupError\<close> is raised.
\<close>

record start_env =
  ready_check :: "start_error option"
  callback_stop :: owner_stop
  final_check :: "start_error option"
  last_stop :: stop_env

definition stopped_start :: "stop_env \<Rightarrow> ('u, 'r) live \<Rightarrow> start_result \<times> ('u, 'r) live" where
  "stopped_start e l = (let (clean, l) = stop_internal e l in (if clean then StartReturned else CleanupFailed, l))"

definition finish_start :: "start_env \<Rightarrow> ('u, 'r) live \<Rightarrow> start_result \<times> ('u, 'r) live" where
  "finish_start E l =
     (if must_stay_stopped l then stopped_start (last_stop E) l
      else
        (let l = l\<lparr>lstate := STARTED\<rparr> in
         case (if receiving l then ready_check E else Some Network) of
           Some e \<Rightarrow> (StartRaised e, l)
         | None \<Rightarrow>
             (let l = owner_stops (callback_stop E) (l\<lparr>is_started := True\<rparr>) in
              if must_stay_stopped l then stopped_start (last_stop E) l
              else (case final_check E of Some e \<Rightarrow> (StartRaised e, l) | None \<Rightarrow> (StartReturned, l)))))"

definition start_internal ::
  "(nat \<Rightarrow> attempt) \<Rightarrow> start_env \<Rightarrow> ('u, 'r) live \<Rightarrow> start_result \<times> ('u, 'r) live"
where
  "start_internal att E l =
     (if lstate l \<in> {STARTED, STARTING} then (StartReturned, l)
      else if must_stay_stopped l then (StartReturned, l)
      else
        (case start_loop att 0 (fallback_endpoints l) l of
           (LoopRaises r, l) \<Rightarrow> (r, l)
         | (LeavesStart, l) \<Rightarrow> (StartReturned, l)
         | (NoEndpoint, l) \<Rightarrow> finish_start E l
         | (LoopConnected ep, l) \<Rightarrow> finish_start E (l\<lparr>fallback_endpoints := dedup (ep # fallback_endpoints l)\<rparr>)))"

text \<open>\<open>start\<close>: whatever \<open>_start\<close> raises, the session is stopped and the exception passed on.\<close>

definition start ::
  "bool \<Rightarrow> (nat \<Rightarrow> attempt) \<Rightarrow> start_env \<Rightarrow> ('u, 'r) live \<Rightarrow> start_result \<times> ('u, 'r) live"
where
  "start initial_owner att E l =
     (case start_internal att E l of
        (StartReturned, l) \<Rightarrow> (StartReturned, l)
      | (r, l) \<Rightarrow>
          (let l = (if initial_owner then l\<lparr>must_stay_stopped := True\<rparr> else l)
           in (r, snd (stop_internal (last_stop E) l))))"

section \<open>Restarting\<close>

definition schedule_restart :: "string \<Rightarrow> ('u, 'r) live \<Rightarrow> bool \<times> ('u, 'r) live" where
  "schedule_restart reason l =
     (if must_stay_stopped l then (False, l)
      else
        (let l = l\<lparr>restart_requested := True, is_started := False\<rparr> in
         if restart_active l then (False, l) else (True, l\<lparr>restart_active := True\<rparr>)))"

definition remember_recent :: "('u, 'r) live \<Rightarrow> ('u, 'r) live" where
  "remember_recent l =
     (if stored_msg_ids (core l) \<noteq> []
      then l\<lparr>core := (core l)\<lparr>recent_msg_ids := take 30 (stored_msg_ids (core l))\<rparr>\<rparr> else l)"

definition restart ::
  "(nat \<Rightarrow> attempt) \<Rightarrow> start_env \<Rightarrow> stop_env \<Rightarrow> ('u, 'r) live \<Rightarrow> start_result \<times> ('u, 'r) live"
where
  "restart att E e l =
     (let l = remember_recent l; (clean, l) = stop_internal e l in
      if \<not> clean then (CleanupFailed, l)
      else if must_stay_stopped l then (StartReturned, l)
      else
        (case start False att E l of
           (StartReturned, l) \<Rightarrow> if must_stay_stopped l then stopped_start e l else (StartReturned, l)
         | (r, l) \<Rightarrow> (r, l)))"

text \<open>
  \<open>_restart_until_started\<close>: the outcomes of the attempts are given; the result is the sequence
  of delays slept and whether the loop ended with a session that is ready, given up, or (when
  the outcomes run out) is still trying. An attempt that returns without readiness counts as
  failed.
\<close>

datatype reconnect = Reconnected | Aborted | StoppedMeanwhile | AttemptFailed

datatype reconnect_end = Ready | GaveUp | StillTrying

definition RESTART_RETRY_DELAY :: int where "RESTART_RETRY_DELAY = 1"
definition RESTART_RETRY_MAX_DELAY :: int where "RESTART_RETRY_MAX_DELAY = 30"

fun restart_loop :: "int \<Rightarrow> reconnect list \<Rightarrow> int list \<times> reconnect_end" where
  "restart_loop delay [] = ([], StillTrying)"
| "restart_loop delay (r # rs) =
     (case r of
        Reconnected \<Rightarrow> ([], Ready)
      | Aborted \<Rightarrow> ([], GaveUp)
      | StoppedMeanwhile \<Rightarrow> ([], GaveUp)
      | AttemptFailed \<Rightarrow>
          (let (ds, e) = restart_loop (min (delay * 2) RESTART_RETRY_MAX_DELAY) rs in (delay # ds, e)))"

definition restart_until_started :: "reconnect list \<Rightarrow> int list \<times> reconnect_end" where
  "restart_until_started rs = restart_loop RESTART_RETRY_DELAY rs"

section \<open>The receiver\<close>

text \<open>
  One round of \<open>recv_worker\<close>: a packet goes to \<open>handle_packet\<close>; none, or four bytes, ends the
  loop. Code 404 raises \<open>AuthKeyNotFound\<close>.
\<close>

datatype round = HandlePacket bytes | EndOfStream | TransportErrorCode int | RaisesAuthKeyNotFound

definition recv_round :: "bytes option \<Rightarrow> round" where
  "recv_round packet =
     (case packet of
        None \<Rightarrow> EndOfStream
      | Some p \<Rightarrow>
          if length p = 4 then
            (let error_code = - fst (Int_read TInt True p) in
             if error_code = 404 then RaisesAuthKeyNotFound else TransportErrorCode error_code)
          else HandlePacket p)"

text \<open>The \<open>finally\<close> block of the receiver that is the session's own.\<close>

definition receiver_ends :: "py_error \<Rightarrow> string \<Rightarrow> ('u, 'r) live \<Rightarrow> ('u, 'r) live" where
  "receiver_ends failure reason l =
     (if \<not> must_stay_stopped l \<and> lstate l \<in> {STARTING, STARTED} then
        (let l = l\<lparr>is_started := False,
                   core := (core l)\<lparr>results := (\<lambda>i. map_option (fail_waiter failure) (results (core l) i))\<rparr>\<rparr>
         in if lstate l = STARTED then snd (schedule_restart reason l) else l)
      else l)"

section \<open>Requests\<close>

text \<open>
  \<open>send\<close> after the wait: an exception put in the waiter, no answer in time, a server error, a
  salt that was refused (the request is sent again), or the result. The replies to the
  successive sendings are given.
\<close>

datatype ('e, 'v) sent = SentOk 'v | SentError 'e | SentRaised py_error | SaltRefused

fun send_until_answered :: "('e, 'v) sent list \<Rightarrow> ('e, 'v) sent option" where
  "send_until_answered [] = None"
| "send_until_answered (r # rs) = (case r of SaltRefused \<Rightarrow> send_until_answered rs | _ \<Rightarrow> Some r)"

text \<open>
  \<open>invoke\<close>: the errors of the attempts as its handlers tell them apart. \<open>scoped\<close> is the
  single-attempt album publication; \<open>exempt\<close> the queries for which a \<open>PermissionError\<close> is not
  retried. Of the result, the seconds slept and the attempts made are kept.
\<close>

datatype ('e, 'v) attempted =
    Answer 'v
  | FloodWaitFor "int option"
  | NetworkError bool
  | Raised 'e

datatype ('e, 'v) invoked = Returned 'v | RaisedFlood "int option" | RaisedNetwork | RaisedOther 'e | TimedOutAfterRetries

fun invoke_loop ::
  "nat \<Rightarrow> bool \<Rightarrow> bool \<Rightarrow> int \<Rightarrow> int \<Rightarrow> (nat \<Rightarrow> ('e, 'v) attempted) \<Rightarrow> nat \<Rightarrow>
   ('e, 'v) invoked \<times> nat \<times> int list"
where
  "invoke_loop 0 scoped exempt threshold retry_delay out i = (TimedOutAfterRetries, i, [])"
| "invoke_loop (Suc n) scoped exempt threshold retry_delay out i =
     (case out i of
        Answer v \<Rightarrow> (Returned v, i + 1, [])
      | Raised e \<Rightarrow> (RaisedOther e, i + 1, [])
      | FloodWaitFor amount \<Rightarrow>
          (case amount of
             None \<Rightarrow> (RaisedFlood amount, i + 1, [])
           | Some a \<Rightarrow>
               if scoped \<or> a > threshold \<and> threshold \<ge> 0 then (RaisedFlood amount, i + 1, [])
               else (let (r, k, ds) = invoke_loop n scoped exempt threshold retry_delay out (i + 1)
                     in (r, k, a # ds)))
      | NetworkError permission \<Rightarrow>
          if permission \<and> exempt \<or> scoped then (RaisedNetwork, i + 1, [])
          else (let (r, k, ds) = invoke_loop n scoped exempt threshold retry_delay out (i + 1)
                in (r, k, retry_delay # ds)))"

datatype ('e, 'v) invocation = NotReady | AlbumSessionChanged | Invoked "('e, 'v) invoked \<times> nat \<times> int list"

definition invoke ::
  "bool \<Rightarrow> bool \<Rightarrow> nat \<Rightarrow> bool \<Rightarrow> bool \<Rightarrow> int \<Rightarrow> int \<Rightarrow> (nat \<Rightarrow> ('e, 'v) attempted) \<Rightarrow> ('e, 'v) invocation"
where
  "invoke started same_session retries scoped exempt threshold retry_delay out =
     (if scoped \<and> \<not> same_session then AlbumSessionChanged
      else
        (let retries = (if scoped then 1 else retries) in
         if \<not> started then NotReady
         else Invoked (invoke_loop retries scoped exempt threshold retry_delay out 0)))"


section \<open>Invariants\<close>



lemma begin_stop_simps [simp]:
  "lstate (begin_stop l) = STOPPING" "is_started (begin_stop l) = False"
  "must_stay_stopped (begin_stop l) = must_stay_stopped l" "fallback_endpoints (begin_stop l) = fallback_endpoints l"
  by (simp_all add: begin_stop_def)





text \<open>A stop of the owner during a start.\<close>

lemma owner_stops_NoStop [simp]: "owner_stops NoStop l = l"
  by (simp add: owner_stops_def)







section \<open>Properties\<close>


definition env0 :: stop_env where
  "env0 = \<lparr>ping_drains = True, close_works = True, recv_drains = True, pending_drains = True\<rparr>"



definition live0 :: "(nat, nat) live" where
  "live0 = \<lparr>core = new_session, lstate = STOPPED, must_stay_stopped = False, is_started = False,
     restart_requested = False, restart_active = False, upload_fallback = False,
     fallback_endpoints = [([1], 443), ([2], 80)], transport_open = False, receiving = False, settled = Map.empty\<rparr>"



text \<open>Stopping leaves nobody waiting. Whatever fails to drain, after \<open>_stop_resources\<close> every
  request that was waiting has been woken, with its answer or with a \<open>TimeoutError\<close>; none is
  registered any more; the pending acknowledgements, the salt and the message counters are
  kept; and the session is stopped, or, when its connection could not be closed, marked failed
  and never started again.\<close>

theorem stop_wakes_everyone:
  "(\<forall>i w. results (core l) i = Some w \<longrightarrow>
      (\<exists>w'. settled (snd (stop_resources e l)) i = Some w' \<and> w_event w' \<and> w_value w' = w_value w \<and>
         (\<not> w_event w \<longrightarrow> w_exception w' = Some TimeoutError) \<and> (w_event w \<longrightarrow> w' = w))) \<and>
   results (core (snd (stop_resources e l))) = Map.empty \<and>
   pending_acks (core (snd (stop_resources e l))) = pending_acks (core l) \<and>
   session_salt (core (snd (stop_resources e l))) = session_salt (core l) \<and>
   factory (core (snd (stop_resources e l))) = factory (core l) \<and>
   (lstate (snd (stop_resources e l)) = STOPPED \<or>
    lstate (snd (stop_resources e l)) = STOP_FAILED \<and> must_stay_stopped (snd (stop_resources e l)))"
  by (simp add: stop_resources_def begin_stop_def finish_stop_def Let_def fail_waiter_def)

theorem stop_wakes_everyone_witness:
  "\<exists>w'. settled (snd (stop_resources env0 (live0\<lparr>core := new_session\<lparr>results := [4 \<mapsto> Result]\<rparr>\<rparr>))) 4 = Some w' \<and>
     w_event w' \<and> w_exception w' = Some TimeoutError"
  using stop_wakes_everyone [of "live0\<lparr>core := new_session\<lparr>results := [4 \<mapsto> Result]\<rparr>\<rparr>" env0,
      THEN conjunct1, THEN spec [of _ 4], THEN spec [of _ Result]]
  by (auto simp: Result_def)

lemma restart_loop_delays:
  "restart_loop (min (2 ^ k) 30) rs = (ds, e) \<Longrightarrow> i < length ds \<Longrightarrow> ds ! i = min (2 ^ (k + i)) 30"
proof (induction rs arbitrary: k ds i)
  case (Cons r rs)
  show ?case
  proof (cases r)
    case AttemptFailed
    obtain ds' where ds: "restart_loop (min (2 ^ Suc k) 30) rs = (ds', e)" "ds = min (2 ^ k) 30 # ds'"
    proof -
      have "min (min (2 ^ k) 30 * 2) 30 = (min (2 ^ Suc k) 30 :: int)" by (auto simp: min_def)
      then show ?thesis using Cons.prems(1) AttemptFailed that
        by (auto simp: RESTART_RETRY_MAX_DELAY_def split: prod.splits)
    qed
    with Cons.IH [OF ds(1)] Cons.prems(2) show ?thesis by (cases i) auto
  qed (use Cons.prems in auto)
qed simp

lemma restart_loop_length:
  "restart_loop d rs = (ds, e) \<Longrightarrow> length ds = length (takeWhile (\<lambda>r. r = AttemptFailed) rs) \<and>
   (e = Ready \<longleftrightarrow> (\<exists>ys. rs = replicate (length ds) AttemptFailed @ Reconnected # ys))"
proof (induction rs arbitrary: d ds)
  case (Cons r rs)
  then show ?case by (cases r) (auto simp: Cons_eq_append_conv split: prod.splits)
qed auto

text \<open>Reconnecting backs off and never gives up on network failures. The attempt after \<open>i\<close> failures
  waits \<open>min(2^i, 30)\<close> seconds; one delay is slept per failed attempt; and the loop ends ready
  exactly when an attempt succeeds after nothing but failures.\<close>

theorem reconnect_backoff:
  assumes "restart_until_started rs = (ds, e)"
  shows "(\<forall>i < length ds. ds ! i = min (2 ^ i) 30) \<and>
    length ds = length (takeWhile (\<lambda>r. r = AttemptFailed) rs) \<and>
    (e = Ready \<longleftrightarrow> (\<exists>ys. rs = replicate (length ds) AttemptFailed @ Reconnected # ys))"
  using restart_loop_delays [of 0 rs ds e] restart_loop_length [of 1 rs ds e] assms
  by (simp add: restart_until_started_def RESTART_RETRY_DELAY_def)

theorem reconnect_backoff_witness:
  "\<exists>ds. restart_until_started (replicate 6 AttemptFailed @ [Reconnected]) = (ds, Ready) \<and> ds = [1, 2, 4, 8, 16, 30]"
proof -
  have r: "restart_until_started (replicate 6 AttemptFailed @ [Reconnected]) = ([1, 2, 4, 8, 16, 30], Ready)"
    by (simp add: restart_until_started_def RESTART_RETRY_DELAY_def RESTART_RETRY_MAX_DELAY_def numeral_eq_Suc)
  from reconnect_backoff [OF r] r show ?thesis by blast
qed


lemma invoke_loop_spec:
  "invoke_loop n scoped exempt th rd out i = (r, k, ds) \<Longrightarrow>
   k \<le> i + n \<and> i \<le> k \<and> length ds \<le> n \<and>
   (\<forall>v. r = Returned v \<longrightarrow> i < k \<and> out (k - 1) = Answer v) \<and>
   (\<forall>j. i \<le> j \<and> j < k - 1 \<longrightarrow> (\<exists>a. out j = FloodWaitFor (Some a) \<and> \<not> (a > th \<and> th \<ge> 0)) \<or> (\<exists>p. out j = NetworkError p)) \<and>
   (r = TimedOutAfterRetries \<longrightarrow> k = i + n)"
proof (induction n arbitrary: i r k ds)
  case (Suc n)
  have step: "k \<le> i + Suc n \<and> i \<le> k \<and> length (d # ds') \<le> Suc n \<and>
      (\<forall>v. r = Returned v \<longrightarrow> i < k \<and> out (k - 1) = Answer v) \<and>
      (\<forall>j. i \<le> j \<and> j < k - 1 \<longrightarrow> (\<exists>a. out j = FloodWaitFor (Some a) \<and> \<not> (a > th \<and> th \<ge> 0)) \<or> (\<exists>p. out j = NetworkError p)) \<and>
      (r = TimedOutAfterRetries \<longrightarrow> k = i + Suc n)"
    if "invoke_loop n scoped exempt th rd out (i + 1) = (r, k, ds')"
      "(\<exists>a. out i = FloodWaitFor (Some a) \<and> \<not> (a > th \<and> th \<ge> 0)) \<or> (\<exists>p. out i = NetworkError p)" for d ds'
  proof -
    note ih = Suc.IH [OF that(1)]
    have "(\<exists>a. out j = FloodWaitFor (Some a) \<and> \<not> (a > th \<and> th \<ge> 0)) \<or> (\<exists>p. out j = NetworkError p)"
      if "i \<le> j" "j < k - 1" for j
      using ih \<open>_ \<or> (\<exists>p. out i = NetworkError p)\<close> that by (cases "j = i") auto
    with ih show ?thesis by auto
  qed
  show ?case
  proof (cases "out i")
    case (FloodWaitFor am)
    show ?thesis
    proof (cases am)
      case (Some a)
      show ?thesis
      proof (cases "scoped \<or> a > th \<and> th \<ge> 0")
        case False
        then obtain ds' where "invoke_loop n scoped exempt th rd out (i + 1) = (r, k, ds')" "ds = a # ds'"
          using Suc.prems FloodWaitFor Some by (auto split: prod.splits)
        with step [of ds' a] FloodWaitFor Some False show ?thesis by auto
      qed (use Suc.prems FloodWaitFor Some in auto)
    qed (use Suc.prems FloodWaitFor in auto)
  next
    case (NetworkError p)
    show ?thesis
    proof (cases "p \<and> exempt \<or> scoped")
      case False
      then obtain ds' where "invoke_loop n scoped exempt th rd out (i + 1) = (r, k, ds')" "ds = rd # ds'"
        using Suc.prems NetworkError by (auto split: prod.splits)
      with step [of ds' rd] NetworkError show ?thesis by auto
    qed (use Suc.prems NetworkError in auto)
  qed (use Suc.prems in auto)
qed auto

text \<open>\<open>invoke\<close> sends a query a bounded number of times. It makes at most \<open>retries\<close> attempts, one
  for an album publication under the single-attempt policy; a result is the answer to the last
  attempt; every attempt before the last failed with a network error or with a flood wait within
  the threshold; and it reports a timeout only when every attempt was used.\<close>

theorem invoke_attempts:
  assumes "invoke started same retries scoped exempt th rd out = Invoked (r, k, ds)"
  shows "k \<le> (if scoped then 1 else retries) \<and> length ds \<le> (if scoped then 1 else retries) \<and>
    (\<forall>v. r = Returned v \<longrightarrow> 0 < k \<and> out (k - 1) = Answer v) \<and>
    (\<forall>j < k - 1. (\<exists>a. out j = FloodWaitFor (Some a) \<and> \<not> (a > th \<and> th \<ge> 0)) \<or> (\<exists>p. out j = NetworkError p)) \<and>
    (r = TimedOutAfterRetries \<longrightarrow> k = (if scoped then 1 else retries))"
proof -
  from assms have "invoke_loop (if scoped then 1 else retries) scoped exempt th rd out 0 = (r, k, ds)"
    by (auto simp: invoke_def Let_def split: if_splits)
  from invoke_loop_spec [OF this] show ?thesis by simp
qed

theorem invoke_attempts_witness:
  "\<exists>k ds. invoke True True 10 False False 10 1
     (\<lambda>i. if i = 0 then NetworkError False else if i = 1 then FloodWaitFor (Some 4) else (Answer 9 :: (unit, int) attempted))
     = Invoked (Returned 9, k, ds) \<and> k = 3 \<and> ds = [1, 4]"
proof -
  let ?out = "\<lambda>i :: nat. if i = 0 then NetworkError False else if i = 1 then FloodWaitFor (Some 4) else (Answer 9 :: (unit, int) attempted)"
  have r: "invoke True True 10 False False 10 1 ?out = Invoked (Returned 9, 3, [1, 4])"
    by (simp add: invoke_def numeral_eq_Suc)
  from invoke_attempts [OF r] r show ?thesis by blast
qed

text \<open>After a restart a processed message can be processed again. \<open>restart\<close> keeps the first thirty
  of the stored identifiers, which are sorted, so the oldest; a message whose identifier was
  stored but is not among these is no longer known as a duplicate, and since the stop empties
  the stored identifiers its repetition is accepted as new.\<close>

theorem restart_forgets_newer:
  assumes "sorted (stored_msg_ids (core l))" "lstate l = STARTED" "mid \<in> set (drop 30 (stored_msg_ids (core l)))"
    and "mid \<notin> set (take 30 (stored_msg_ids (core l)))" "msg_id m = mid"
  shows "\<exists>clean l'. stop_internal e (remember_recent l) = (clean, l') \<and>
    is_duplicate mid (core l) \<and> \<not> is_duplicate mid (core l') \<and> fst (handle_message t m (core l')) = Accepted \<and>
    (\<forall>i \<in> set (recent_msg_ids (core l')). i \<le> mid)"
proof -
  let ?l = "remember_recent l"
  let ?l' = "snd (stop_internal e ?l)"
  have ne: "stored_msg_ids (core l) \<noteq> []" using assms(3) by auto
  have c: "stored_msg_ids (core ?l') = []" "recent_msg_ids (core ?l') = take 30 (stored_msg_ids (core l))"
    using assms(2) ne by (simp_all add: stop_internal_def remember_recent_def stop_resources_def begin_stop_def finish_stop_def Let_def)
  have "i \<le> mid" if "i \<in> set (take 30 (stored_msg_ids (core l)))" for i
    using assms(1,3) that sorted_append [of "take 30 (stored_msg_ids (core l))" "drop 30 (stored_msg_ids (core l))"] by simp
  moreover have "is_duplicate mid (core l)" using assms(3) by (auto simp: is_duplicate_def dest: in_set_dropD)
  moreover have "\<not> is_duplicate mid (core ?l')" using c assms(4) by (simp add: is_duplicate_def)
  moreover then have "fst (handle_message t m (core ?l')) = Accepted"
    using c assms(5) by (simp add: handle_message_def check_message_def trim_stored_def Let_def set_server_time_def)
  ultimately show ?thesis using c by (metis prod.collapse)
qed


theorem restart_forgets_newer_witness:
  "\<exists>clean l'. stop_internal env0 (remember_recent (live0\<lparr>lstate := STARTED, core := new_session\<lparr>stored_msg_ids := [1..31]\<rparr>\<rparr>)) = (clean, l') \<and>
     fst (handle_message clock0 (msg0 31 1 (UpdatesBody 7)) (core l')) = Accepted"
proof -
  let ?l = "live0\<lparr>lstate := STARTED, core := new_session\<lparr>stored_msg_ids := [1..31]\<rparr>\<rparr>"
  have u: "[1..31] = [1..30] @ [31 :: int]" by (simp add: upto_rec1)
  have len: "length [1..30 :: int] = 30" by simp
  have "take 30 [1..31 :: int] = [1..30]" "drop 30 [1..31 :: int] = [31]" unfolding u using len by simp_all
  then have "sorted (stored_msg_ids (core ?l))" "lstate ?l = STARTED" "31 \<in> set (drop 30 (stored_msg_ids (core ?l)))"
      "31 \<notin> set (take 30 (stored_msg_ids (core ?l)))" "msg_id (msg0 31 1 (UpdatesBody 7)) = 31"
    by (simp_all add: msg0_def)
  from restart_forgets_newer [OF this, of env0 clock0] show ?thesis by blast
qed

end
