(* ===== verification/Publication.thy ===== *)
theory Publication
  imports Prelude
begin

text \<open>
  The guarded publication of \<open>session/session.py\<close>: an explicit business publication is bound to
  one account, session and peer, sends one and the same query, commits its intent before the
  first native call, and reports success only with a receipt that accounts for every message.
  The hooks of the caller, the readiness of the session and the answers of the server are
  parameters of the loop.
\<close>

section \<open>Receipts\<close>

datatype input_peer =
    InputPeerSelf | InputPeerUser int | InputPeerChat int | InputPeerChannel int | InputPeerOther

datatype peer = PeerUser int | PeerChat int | PeerChannel int

record new_message =
  nm_id :: int
  nm_peer :: "peer option"
  nm_out :: bool

text \<open>The updates that the receipt reads: the mapping of a random identifier, a new message (of a
  chat, a channel or scheduled), and all others.\<close>

datatype update = UpdateMessageID int int | UpdateNew new_message | UpdateOther

datatype sent_result = ShortSent int bool | WithUpdates "update list"

datatype pub_error =
    IdentityChanged | InvalidManifest | ContractUnavailable
  | ForeignOrDuplicateMapping | ForeignOrConflictingMessage | ReceiptIncomplete
  | FreshQueryForbidden | ManifestMismatch | QueryMutated
  | OutcomeUnconfirmed | ReceiptUnconfirmed

fun same_peer :: "int \<Rightarrow> input_peer \<Rightarrow> peer option \<Rightarrow> bool" where
  "same_peer account (InputPeerChannel c) (Some (PeerChannel d)) = (c = d)"
| "same_peer account (InputPeerChat c) (Some (PeerChat d)) = (c = d)"
| "same_peer account (InputPeerUser c) (Some (PeerUser d)) = (c = d)"
| "same_peer account InputPeerSelf (Some (PeerUser d)) = (d = account)"
| "same_peer account _ _ = False"

fun self_peer :: "int \<Rightarrow> input_peer \<Rightarrow> bool" where
  "self_peer account InputPeerSelf = True"
| "self_peer account (InputPeerUser u) = (u = account)"
| "self_peer account _ = False"

fun result_updates :: "sent_result \<Rightarrow> update list" where
  "result_updates (ShortSent _ _) = []"
| "result_updates (WithUpdates us) = us"

text \<open>The loop over the updates: the mapping and the identifiers of the messages seen.\<close>

fun scan_updates ::
  "int \<Rightarrow> input_peer \<Rightarrow> int list \<Rightarrow> update list \<Rightarrow> (int \<rightharpoonup> int) \<Rightarrow> int set \<Rightarrow> pub_error + (int \<rightharpoonup> int) \<times> int set"
where
  "scan_updates account dest random_ids [] mapping messages = Inr (mapping, messages)"
| "scan_updates account dest random_ids (UpdateMessageID i r # us) mapping messages =
     (if r \<notin> set random_ids \<or> mapping r \<noteq> None then Inl ForeignOrDuplicateMapping
      else scan_updates account dest random_ids us (mapping(r \<mapsto> i)) messages)"
| "scan_updates account dest random_ids (UpdateNew m # us) mapping messages =
     (if nm_id m \<in> messages \<or> \<not> same_peer account dest (nm_peer m) \<or> \<not> (nm_out m \<or> self_peer account dest)
      then Inl ForeignOrConflictingMessage
      else scan_updates account dest random_ids us mapping (insert (nm_id m) messages))"
| "scan_updates account dest random_ids (UpdateOther # us) mapping messages =
     scan_updates account dest random_ids us mapping messages"

definition publication_receipt ::
  "input_peer \<Rightarrow> sent_result \<Rightarrow> int list \<Rightarrow> int \<Rightarrow> pub_error + int list"
where
  "publication_receipt dest result random_ids account =
     (case result of
        ShortSent i out \<Rightarrow>
          if length random_ids = 1 \<and> i > 0 \<and> (out \<or> self_peer account dest) then Inr [i]
          else if random_ids = [] then Inr [] else Inl ReceiptIncomplete
      | WithUpdates us \<Rightarrow>
          bind_res (scan_updates account dest random_ids us Map.empty {}) (\<lambda>(mapping, messages).
            (let target_ids = map (\<lambda>r. case mapping r of None \<Rightarrow> 0 | Some i \<Rightarrow> i) random_ids in
             if list_ex (\<lambda>t. t \<le> 0) target_ids \<or> card (set target_ids) \<noteq> length random_ids \<or>
                messages \<noteq> set target_ids
             then Inl ReceiptIncomplete else Inr target_ids)))"

section \<open>Identity and manifest\<close>

record identity =
  same_session :: bool
  actor_id :: "int option"
  actor_is_bot :: bool
  session_ids :: "bytes \<times> bytes"

text \<open>\<open>OrdinaryPublicationPolicy.check\<close>; the session compared is absent or the policy's own.\<close>

definition policy_check :: "int \<Rightarrow> (bytes \<times> bytes) option \<Rightarrow> identity option \<Rightarrow> bool" where
  "policy_check account session_identity ident =
     (case ident of
        None \<Rightarrow> False
      | Some s \<Rightarrow>
          same_session s \<and> actor_id s = Some account \<and> \<not> actor_is_bot s \<and>
          (case session_identity of None \<Rightarrow> True | Some i \<Rightarrow> session_ids s = i))"

definition manifest_ok :: "string \<Rightarrow> int list \<Rightarrow> int \<Rightarrow> bool" where
  "manifest_ok method source_ids max_retries \<longleftrightarrow>
     method \<in> {''SendMessage'', ''SendMedia'', ''SendMultiMedia''} \<and> source_ids \<noteq> [] \<and>
     distinct source_ids \<and> list_all (\<lambda>m. 0 < m) source_ids \<and> 0 \<le> max_retries \<and> max_retries \<le> 3"

definition ordinary_publication ::
  "string \<Rightarrow> int list \<Rightarrow> int \<Rightarrow> bool \<Rightarrow> int \<Rightarrow> identity option \<Rightarrow> pub_error + (bytes \<times> bytes)"
where
  "ordinary_publication method source_ids max_retries contract_1 account ident =
     (if \<not> manifest_ok method source_ids max_retries then Inl InvalidManifest
      else if \<not> contract_1 then Inl ContractUnavailable
      else if \<not> policy_check account None ident then Inl IdentityChanged
      else Inr (session_ids (the ident)))"

section \<open>The loop of attempts\<close>

record policy =
  attempted :: bool
  unknown :: bool
  succeeded :: bool
  query_bytes :: "bytes option"
  target_ids :: "int list option"
  native_calls :: nat

text \<open>What happens, in order: the commit of the intent, a native call with the bytes sent, a wait.\<close>

datatype event = Intent bytes "int list" | NativeCall bytes | WaitRetry

datatype 'e sending =
    GotResult sent_result
  | NetworkFailure
  | RandomIdDuplicate
  | ServerRefused 'e
  | GuardRaised pub_error
  | SendCancelled

text \<open>\<open>query_at\<close> is the serialised query at one attempt. The code compares it with the manifest and sends it after
  waiting for readiness; the model takes the bytes of the comparison for the bytes sent, so it has no task that changes
  the query between the two.\<close>

record 'e world =
  identity_at :: "nat \<Rightarrow> identity option"
  query_at :: "nat \<Rightarrow> bytes"
  ready_at :: "nat \<Rightarrow> bool"
  intent_commits :: bool
  sending_at :: "nat \<Rightarrow> 'e sending"
  result_observed :: bool
  receipt_commits :: bool
  wait_completes :: "nat \<Rightarrow> bool"

datatype 'e ended =
    PubReturned sent_result
  | PubUnconfirmed pub_error
  | PubNotReady
  | PubRefused 'e
  | PubCancelled
  | PubHookRaised

record job =
  j_account :: int
  j_identity :: "bytes \<times> bytes"
  j_query :: bytes
  j_dest :: input_peer
  j_ids :: "int list"
  j_max_retries :: nat

definition accept_result :: "job \<Rightarrow> 'e world \<Rightarrow> sent_result \<Rightarrow> policy \<Rightarrow> 'e ended \<times> policy" where
  "accept_result j w res p =
     (let p = p\<lparr>succeeded := True, unknown := True\<rparr> in
      if \<not> result_observed w then (PubUnconfirmed ReceiptUnconfirmed, p)
      else case publication_receipt (j_dest j) res (j_ids j) (j_account j) of
        Inl _ \<Rightarrow> (PubUnconfirmed ReceiptUnconfirmed, p)
      | Inr targets \<Rightarrow>
          if \<not> receipt_commits w then (PubUnconfirmed ReceiptUnconfirmed, p)
          else (PubReturned res, p\<lparr>target_ids := Some targets\<rparr>))"

fun publication_loop ::
  "job \<Rightarrow> 'e world \<Rightarrow> nat \<Rightarrow> nat \<Rightarrow> policy \<Rightarrow> 'e ended \<times> policy \<times> event list"
where
  "publication_loop j w 0 i p = (PubUnconfirmed OutcomeUnconfirmed, p, [])"
| "publication_loop j w (Suc n) i p =
     (if \<not> policy_check (j_account j) (Some (j_identity j)) (identity_at w i)
      then (PubUnconfirmed IdentityChanged, p, [])
      else if query_at w i \<noteq> j_query j then (PubUnconfirmed QueryMutated, p, [])
      else if \<not> ready_at w i then
        (if n = 0 then (if unknown p then PubUnconfirmed OutcomeUnconfirmed else PubNotReady, p, [])
         else if \<not> wait_completes w i then (PubHookRaised, p, [])
         else (let (r, p, es) = publication_loop j w n (i + 1) p in (r, p, WaitRetry # es)))
      else if \<not> attempted p \<and> \<not> intent_commits w then (PubHookRaised, p, [])
      else
        (let intent = (if attempted p then [] else [Intent (j_query j) (j_ids j)]);
             p = p\<lparr>attempted := True, native_calls := native_calls p + 1\<rparr>;
             es = intent @ [NativeCall (query_at w i)];
             retry = (\<lambda>p. if n = 0 then (PubUnconfirmed OutcomeUnconfirmed, p, es)
                          else if \<not> wait_completes w i then (PubHookRaised, p, es)
                          else (let (r, p, es') = publication_loop j w n (i + 1) p
                                in (r, p, es @ WaitRetry # es')))
         in case sending_at w i of
              SendCancelled \<Rightarrow> (PubCancelled, p\<lparr>unknown := True\<rparr>, es)
            | NetworkFailure \<Rightarrow> retry (p\<lparr>unknown := True\<rparr>)
            | RandomIdDuplicate \<Rightarrow> retry (p\<lparr>unknown := True\<rparr>)
            | ServerRefused e \<Rightarrow>
                (if unknown p then PubUnconfirmed OutcomeUnconfirmed else PubRefused e, p, es)
            | GuardRaised e \<Rightarrow> (PubUnconfirmed e, p, es)
            | GotResult res \<Rightarrow> (let (r, p) = accept_result j w res p in (r, p, es))))"

text \<open>\<open>_invoke_ordinary_publication\<close>: the query of a policy is fixed once, and checked against the
  manifest.\<close>

definition invoke_ordinary_publication ::
  "job \<Rightarrow> bytes \<Rightarrow> bytes \<Rightarrow> nat \<Rightarrow> 'e world \<Rightarrow> policy \<Rightarrow> 'e ended \<times> policy \<times> event list"
where
  "invoke_ordinary_publication j peer_written peer_bytes sources w p =
     (if query_bytes p \<noteq> None then (PubUnconfirmed FreshQueryForbidden, p, [])
      else if peer_written \<noteq> peer_bytes \<or> length (j_ids j) \<noteq> sources \<or> \<not> distinct (j_ids j) \<or> 0 \<in> set (j_ids j)
      then (PubUnconfirmed ManifestMismatch, p, [])
      else publication_loop j w (j_max_retries j + 1) 0 (p\<lparr>query_bytes := Some (j_query j)\<rparr>))"

section \<open>Receipts are complete\<close>

lemma scan_messages:
  "scan_updates account dest rs us mp ms = Inr (mp', ms') \<Longrightarrow>
   (\<forall>m. UpdateNew m \<in> set us \<longrightarrow> same_peer account dest (nm_peer m) \<and> (nm_out m \<or> self_peer account dest)) \<and>
   ms' = ms \<union> {nm_id m | m. UpdateNew m \<in> set us}"
proof (induction us arbitrary: mp ms)
  case (Cons u us)
  then show ?case by (cases u) (fastforce split: if_splits)+
qed simp

lemma scan_mapping_grows:
  "scan_updates account dest rs us mp ms = Inr (mp', ms') \<Longrightarrow> mp r = Some i \<Longrightarrow> mp' r = Some i"
proof (induction us arbitrary: mp ms)
  case (Cons u us)
  show ?case
  proof (cases u)
    case (UpdateMessageID k q)
    with Cons.prems have n: "mp q = None" and s: "scan_updates account dest rs us (mp(q \<mapsto> k)) ms = Inr (mp', ms')"
      by (auto split: if_splits)
    have "(mp(q \<mapsto> k)) r = Some i" using n Cons.prems(2) by (cases "r = q") auto
    with Cons.IH [OF s] show ?thesis by simp
  qed (use Cons in \<open>auto split: if_splits\<close>)
qed simp

lemma scan_mapping_from:
  "scan_updates account dest rs us mp ms = Inr (mp', ms') \<Longrightarrow> mp' r = Some i \<Longrightarrow>
   mp r = Some i \<or> UpdateMessageID i r \<in> set us"
proof (induction us arbitrary: mp ms)
  case (Cons u us)
  show ?case
  proof (cases u)
    case (UpdateMessageID k q)
    with Cons.prems have s: "scan_updates account dest rs us (mp(q \<mapsto> k)) ms = Inr (mp', ms')"
      by (auto split: if_splits)
    from Cons.IH [OF s Cons.prems(2)] UpdateMessageID show ?thesis by (cases "r = q") auto
  next
    case (UpdateNew m)
    with Cons.prems have s: "scan_updates account dest rs us mp (insert (nm_id m) ms) = Inr (mp', ms')"
      by (auto split: if_splits)
    from Cons.IH [OF s Cons.prems(2)] show ?thesis by auto
  next
    case UpdateOther
    with Cons.prems have s: "scan_updates account dest rs us mp ms = Inr (mp', ms')" by simp
    from Cons.IH [OF s Cons.prems(2)] show ?thesis by auto
  qed
qed simp

lemma receipt_of_updates:
  assumes "publication_receipt dest (WithUpdates us) rs account = Inr ts"
  shows "length ts = length rs" "distinct ts" "\<forall>t \<in> set ts. 0 < t"
    "\<forall>i < length rs. UpdateMessageID (ts ! i) (rs ! i) \<in> set us"
    "set ts = {nm_id m | m. UpdateNew m \<in> set us}"
    "\<forall>m. UpdateNew m \<in> set us \<longrightarrow> same_peer account dest (nm_peer m) \<and> (nm_out m \<or> self_peer account dest)"
proof -
  from assms obtain mp ms where s: "scan_updates account dest rs us Map.empty {} = Inr (mp, ms)"
      and t: "ts = map (\<lambda>r. case mp r of None \<Rightarrow> 0 | Some i \<Rightarrow> i) rs"
      and c: "\<not> list_ex (\<lambda>t. t \<le> 0) ts" "card (set ts) = length rs" "ms = set ts"
    by (auto simp: publication_receipt_def res_simps Let_def split: if_splits)
  show l: "length ts = length rs" by (simp add: t)
  show "distinct ts" using c(2) l by (simp add: card_distinct)
  show p: "\<forall>t \<in> set ts. 0 < t" using c(1) by (auto simp: list_ex_iff not_le)
  show "\<forall>i < length rs. UpdateMessageID (ts ! i) (rs ! i) \<in> set us"
  proof (intro allI impI)
    fix i assume i: "i < length rs"
    then have "0 < ts ! i" using p l by simp
    then have "mp (rs ! i) = Some (ts ! i)" using i by (auto simp: t split: option.splits)
    from scan_mapping_from [OF s this] show "UpdateMessageID (ts ! i) (rs ! i) \<in> set us" by simp
  qed
  show "set ts = {nm_id m | m. UpdateNew m \<in> set us}" using scan_messages [OF s] c(3) by auto
  show "\<forall>m. UpdateNew m \<in> set us \<longrightarrow> same_peer account dest (nm_peer m) \<and> (nm_out m \<or> self_peer account dest)"
    using scan_messages [OF s] by auto
qed

section \<open>The trace of a publication\<close>

text \<open>The intent comes once and before the first native call; every call sends the query.\<close>

fun trace_ok :: "job \<Rightarrow> bool \<Rightarrow> event list \<Rightarrow> bool" where
  "trace_ok j committed [] = True"
| "trace_ok j committed (Intent q ids # es) =
     (\<not> committed \<and> q = j_query j \<and> ids = j_ids j \<and> trace_ok j True es)"
| "trace_ok j committed (NativeCall q # es) = (committed \<and> q = j_query j \<and> trace_ok j committed es)"
| "trace_ok j committed (WaitRetry # es) = trace_ok j committed es"

definition calls :: "event list \<Rightarrow> nat" where
  "calls es = length (filter (\<lambda>e. case e of NativeCall _ \<Rightarrow> True | _ \<Rightarrow> False) es)"

lemma calls_simps [simp]:
  "calls [] = 0" "calls (Intent q ids # es) = calls es" "calls (NativeCall q # es) = Suc (calls es)"
  "calls (WaitRetry # es) = calls es" "calls (xs @ ys) = calls xs + calls ys"
  by (simp_all add: calls_def)

definition loop_post :: "job \<Rightarrow> nat \<Rightarrow> policy \<Rightarrow> 'e ended \<times> policy \<times> event list \<Rightarrow> bool" where
  "loop_post j n p out =
     (case out of (r, p', es) \<Rightarrow>
        trace_ok j (attempted p) es \<and> calls es \<le> n \<and> native_calls p' = native_calls p + calls es \<and>
        (unknown p \<longrightarrow> unknown p') \<and>
        ((\<exists>e. r = PubRefused e) \<or> r = PubNotReady \<longrightarrow> \<not> unknown p') \<and>
        (r = PubNotReady \<longrightarrow> calls es = 0) \<and>
        (\<forall>res. r = PubReturned res \<longrightarrow>
           succeeded p' \<and> (\<exists>ts. target_ids p' = Some ts \<and> publication_receipt (j_dest j) res (j_ids j) (j_account j) = Inr ts)))"

lemma accept_result_post:
  assumes "accept_result j w res p = (r, p')"
  shows "unknown p' \<and> native_calls p' = native_calls p \<and> (\<forall>e. r \<noteq> PubRefused e) \<and> r \<noteq> PubNotReady \<and>
    (\<forall>res. r = PubReturned res \<longrightarrow> succeeded p' \<and>
       (\<exists>ts. target_ids p' = Some ts \<and> publication_receipt (j_dest j) res (j_ids j) (j_account j) = Inr ts))"
  using assms by (auto simp: accept_result_def Let_def split: if_splits sum.splits)

text \<open>What one native call adds to the trace of the attempts after it.\<close>

lemma loop_post_call:
  assumes "loop_post j n p1 (r, p', es')" "attempted p1" "unknown p1" "native_calls p1 = native_calls p + 1"
    and "intent = (if attempted p then [] else [Intent (j_query j) (j_ids j)])"
  shows "loop_post j (Suc n) p (r, p', (intent @ [NativeCall (j_query j)]) @ WaitRetry # es')"
  using assms by (auto simp: loop_post_def)

lemma publication_loop_post: "loop_post j n p (publication_loop j w n i p)"
proof (induction n arbitrary: i p)
  case 0
  then show ?case by (simp add: loop_post_def)
next
  case (Suc n)
  define intent where "intent = (if attempted p then [] else [Intent (j_query j) (j_ids j)])"
  define p1 where "p1 = p\<lparr>attempted := True, native_calls := native_calls p + 1\<rparr>"
  define p2 where "p2 = p1\<lparr>unknown := True\<rparr>"
  consider "\<not> policy_check (j_account j) (Some (j_identity j)) (identity_at w i) \<or> query_at w i \<noteq> j_query j"
    | (wait) "policy_check (j_account j) (Some (j_identity j)) (identity_at w i)" "query_at w i = j_query j" "\<not> ready_at w i"
    | (hook) "policy_check (j_account j) (Some (j_identity j)) (identity_at w i)" "query_at w i = j_query j" "ready_at w i"
        "\<not> attempted p \<and> \<not> intent_commits w"
    | (call) "policy_check (j_account j) (Some (j_identity j)) (identity_at w i)" "query_at w i = j_query j" "ready_at w i"
        "\<not> (\<not> attempted p \<and> \<not> intent_commits w)" by blast
  then show ?case
  proof cases
    case 1
    then show ?thesis by (auto simp: loop_post_def)
  next
    case wait
    obtain r p' es where l: "publication_loop j w n (i + 1) p = (r, p', es)" by (metis prod_cases3)
    with Suc.IH [of p "i + 1"] wait show ?thesis by (auto simp: loop_post_def)
  next
    case hook
    then show ?thesis by (simp add: loop_post_def)
  next
    case call
    let ?es = "intent @ [NativeCall (j_query j)]"
    obtain r p' es where l: "publication_loop j w n (i + 1) p2 = (r, p', es)" by (metis prod_cases3)
    have ih: "loop_post j n p2 (r, p', es)" using Suc.IH [of p2 "i + 1"] l by simp
    have again: "loop_post j (Suc n) p (r, p', ?es @ WaitRetry # es)"
      by (rule loop_post_call [OF ih]) (simp_all add: p1_def p2_def intent_def)
    have once: "loop_post j (Suc n) p (q, x, ?es)"
      if "native_calls x = native_calls p + 1" "unknown p \<longrightarrow> unknown x" "(\<exists>e. q = PubRefused e) \<longrightarrow> \<not> unknown x"
        "q \<noteq> PubNotReady" "\<forall>res. q = PubReturned res \<longrightarrow> succeeded x \<and>
          (\<exists>ts. target_ids x = Some ts \<and> publication_receipt (j_dest j) res (j_ids j) (j_account j) = Inr ts)"
      for q x
      using that by (auto simp: loop_post_def intent_def)
    have eq: "publication_loop j w (Suc n) i p =
        (let retry = (if n = 0 then (PubUnconfirmed OutcomeUnconfirmed, p2, ?es)
                      else if \<not> wait_completes w i then (PubHookRaised, p2, ?es)
                      else (r, p', ?es @ WaitRetry # es))
         in case sending_at w i of
              SendCancelled \<Rightarrow> (PubCancelled, p2, ?es)
            | NetworkFailure \<Rightarrow> retry
            | RandomIdDuplicate \<Rightarrow> retry
            | ServerRefused e \<Rightarrow> (if unknown p then PubUnconfirmed OutcomeUnconfirmed else PubRefused e, p1, ?es)
            | GuardRaised e \<Rightarrow> (PubUnconfirmed e, p1, ?es)
            | GotResult res \<Rightarrow> (let (r, p) = accept_result j w res p1 in (r, p, ?es)))"
      using call l unfolding p2_def p1_def intent_def
      by (cases "sending_at w i") (simp_all add: Let_def split_beta, blast, blast)
    have retry: "loop_post j (Suc n) p (if n = 0 then (PubUnconfirmed OutcomeUnconfirmed, p2, ?es)
        else if \<not> wait_completes w i then (PubHookRaised, p2, ?es) else (r, p', ?es @ WaitRetry # es))"
    proof -
      have "loop_post j (Suc n) p (PubUnconfirmed OutcomeUnconfirmed, p2, ?es)"
        by (rule once) (simp_all add: p1_def p2_def)
      moreover have "loop_post j (Suc n) p (PubHookRaised, p2, ?es)"
        by (rule once) (simp_all add: p1_def p2_def)
      ultimately show ?thesis using again by (cases "n = 0"; cases "wait_completes w i") simp_all
    qed
    show ?thesis
    proof (cases "sending_at w i")
      case (GotResult res)
      obtain q x where ar: "accept_result j w res p1 = (q, x)" by fastforce
      from accept_result_post [OF ar] show ?thesis
        unfolding eq GotResult Let_def sending.case ar prod.case by (intro once) (simp_all add: p1_def)
    next
      case NetworkFailure
      show ?thesis unfolding eq NetworkFailure Let_def sending.case by (rule retry)
    next
      case RandomIdDuplicate
      show ?thesis unfolding eq RandomIdDuplicate Let_def sending.case by (rule retry)
    next
      case (ServerRefused e)
      show ?thesis unfolding eq ServerRefused Let_def sending.case by (rule once) (auto simp: p1_def)
    next
      case (GuardRaised e)
      show ?thesis unfolding eq GuardRaised Let_def sending.case by (rule once) (simp_all add: p1_def)
    next
      case SendCancelled
      show ?thesis unfolding eq SendCancelled Let_def sending.case by (rule once) (simp_all add: p1_def p2_def)
    qed
  qed
qed

section \<open>Properties\<close>

text \<open>A receipt accounts for every message. When \<open>_publication_receipt\<close> accepts the updates of a
  publication, it returns one positive, distinct identifier per random identifier, each mapped
  by an update of the server; the new messages of the updates are exactly these, and every one
  of them is outgoing, or to oneself, and in the chat that was addressed.\<close>

theorem receipt_complete:
  assumes "publication_receipt dest (WithUpdates us) rs account = Inr ts"
  shows "length ts = length rs \<and> distinct ts \<and> (\<forall>t \<in> set ts. 0 < t) \<and>
    (\<forall>i < length rs. UpdateMessageID (ts ! i) (rs ! i) \<in> set us) \<and>
    set ts = {nm_id m | m. UpdateNew m \<in> set us} \<and>
    (\<forall>m. UpdateNew m \<in> set us \<longrightarrow> same_peer account dest (nm_peer m) \<and> (nm_out m \<or> self_peer account dest))"
  using receipt_of_updates [OF assms] by blast

definition updates0 :: "update list" where
  "updates0 = [UpdateMessageID 8 55, UpdateOther, UpdateNew \<lparr>nm_id = 8, nm_peer = Some (PeerChat 3), nm_out = True\<rparr>]"

theorem receipt_complete_witness:
  "\<exists>ts. publication_receipt (InputPeerChat 3) (WithUpdates updates0) [55] 1 = Inr ts \<and> ts = [8] \<and>
     UpdateMessageID (ts ! 0) 55 \<in> set updates0"
proof -
  have r: "publication_receipt (InputPeerChat 3) (WithUpdates updates0) [55] 1 = Inr [8]"
    by (simp add: publication_receipt_def updates0_def)
  from receipt_complete [OF r] r show ?thesis by auto
qed

text \<open>C6: A publication is attempted safely. Whatever the session, the server and the hooks do, the
  intent is committed once and before the first native call, every native call sends the bytes
  of the intent, and there are at most \<open>max_retries + 1\<close> of them. A result is returned only with
  a receipt; a refusal or \<open>SessionNotReady\<close> is reported only when no earlier call had an
  unknown outcome, the latter only when none was made.\<close>

theorem publication_safe:
  assumes "invoke_ordinary_publication j pw pb n w p = (r, p', es)" "\<not> attempted p" "\<not> unknown p" "native_calls p = 0"
  shows "trace_ok j False es \<and> calls es \<le> j_max_retries j + 1 \<and> native_calls p' = calls es \<and>
    ((\<exists>e. r = PubRefused e) \<or> r = PubNotReady \<longrightarrow> \<not> unknown p') \<and> (r = PubNotReady \<longrightarrow> calls es = 0) \<and>
    (\<forall>res. r = PubReturned res \<longrightarrow>
       (\<exists>ts. target_ids p' = Some ts \<and> publication_receipt (j_dest j) res (j_ids j) (j_account j) = Inr ts))"
proof -
  let ?l = "publication_loop j w (j_max_retries j + 1) 0 (p\<lparr>query_bytes := Some (j_query j)\<rparr>)"
  have eq: "invoke_ordinary_publication j pw pb n w p =
      (if query_bytes p \<noteq> None then (PubUnconfirmed FreshQueryForbidden, p, [])
       else if pw \<noteq> pb \<or> length (j_ids j) \<noteq> n \<or> \<not> distinct (j_ids j) \<or> 0 \<in> set (j_ids j)
       then (PubUnconfirmed ManifestMismatch, p, []) else ?l)"
    by (simp only: invoke_ordinary_publication_def)
  show ?thesis
  proof (cases "invoke_ordinary_publication j pw pb n w p = ?l")
    case True
    with assms(1) have "?l = (r, p', es)" by simp
    with publication_loop_post [of j "j_max_retries j + 1" "p\<lparr>query_bytes := Some (j_query j)\<rparr>" w 0] assms(2-4)
    show ?thesis by (simp add: loop_post_def del: publication_loop.simps)
  next
    case False
    then have "p' = p \<and> es = [] \<and> (r = PubUnconfirmed FreshQueryForbidden \<or> r = PubUnconfirmed ManifestMismatch)"
      using assms(1) unfolding eq by (metis Pair_inject)
    with assms(2-4) show ?thesis by auto
  qed
qed

definition job0 :: job where
  "job0 = \<lparr>j_account = 1, j_identity = ([], []), j_query = [9], j_dest = InputPeerChat 3, j_ids = [55], j_max_retries = 1\<rparr>"

definition world0 :: "unit world" where
  "world0 = \<lparr>identity_at = (\<lambda>i. Some \<lparr>same_session = True, actor_id = Some 1, actor_is_bot = False, session_ids = ([], [])\<rparr>),
     query_at = (\<lambda>i. [9]), ready_at = (\<lambda>i. True), intent_commits = True,
     sending_at = (\<lambda>i. if i = 0 then NetworkFailure else GotResult (WithUpdates updates0)),
     result_observed = True, receipt_commits = True, wait_completes = (\<lambda>i. True)\<rparr>"

definition policy0 :: policy where
  "policy0 = \<lparr>attempted = False, unknown = False, succeeded = False, query_bytes = None, target_ids = None, native_calls = 0\<rparr>"

theorem publication_safe_witness:
  "\<exists>r p' es. invoke_ordinary_publication job0 [7] [7] 1 world0 policy0 = (r, p', es) \<and>
     r = PubReturned (WithUpdates updates0) \<and> es = [Intent [9] [55], NativeCall [9], WaitRetry, NativeCall [9]] \<and>
     trace_ok job0 False es \<and> target_ids p' = Some [8]"
proof -
  have two: "j_max_retries job0 + 1 = Suc (Suc 0)" by (simp add: job0_def)
  have c: "policy_check 1 (Some ([], [])) (identity_at world0 k)" "query_at world0 k = [9]" "ready_at world0 k"
      "wait_completes world0 k" "intent_commits world0" for k
    by (simp_all add: world0_def policy_check_def)
  have r: "publication_receipt (InputPeerChat 3) (WithUpdates updates0) [55] 1 = Inr [8]"
    by (simp add: publication_receipt_def updates0_def)
  have s: "sending_at world0 0 = NetworkFailure" "sending_at world0 (Suc 0) = GotResult (WithUpdates updates0)"
      "result_observed world0" "receipt_commits world0"
    by (simp_all add: world0_def)
  have i: "invoke_ordinary_publication job0 [7] [7] 1 world0 policy0 =
      (PubReturned (WithUpdates updates0),
       \<lparr>attempted = True, unknown = True, succeeded = True, query_bytes = Some [9], target_ids = Some [8], native_calls = 2\<rparr>,
       [Intent [9] [55], NativeCall [9], WaitRetry, NativeCall [9]])"
    unfolding invoke_ordinary_publication_def two
    by (simp add: job0_def policy0_def c s r accept_result_def)
  have "trace_ok job0 False [Intent [9] [55], NativeCall [9], WaitRetry, NativeCall [9]]"
    using publication_safe [OF i] by (simp add: policy0_def)
  with i show ?thesis by auto
qed

end
