(* ===== verification/Dc_Options.thy ===== *)
theory Dc_Options
  imports Prelude Complex_Main "HOL-Library.Product_Lexorder" "HOL-Library.Multiset"
begin

text \<open>
  The choice of a data centre's address (dc\_options.py): the built-in tables, the key of the
  endpoint cache, the reordering by a cached endpoint, and the choice by TCP probes. A probe is
  I/O and appears as the function \<open>probe\<close>, which gives for the position of a candidate
  whether it answered and after how long. The files of the cache are in Endpoint\_Cache.
\<close>

type_synonym endpoint = "string \<times> int"

section \<open>Tables\<close>

definition TEST_table :: "(int \<times> string) list" where
  "TEST_table = [(1, ''149.154.175.10''), (2, ''149.154.167.40''), (3, ''149.154.175.117'')]"

definition PROD_table :: "(int \<times> string) list" where
  "PROD_table = [(1, ''149.154.175.53''), (2, ''149.154.167.51''), (3, ''149.154.175.100''),
     (4, ''149.154.167.91''), (5, ''91.108.56.130''), (203, ''91.105.192.100'')]"

definition PROD_FALLBACKS :: "(int \<times> string list) list" where
  "PROD_FALLBACKS = [(1, [''149.154.175.50'']), (2, [''95.161.76.100'']), (5, [''149.154.171.5''])]"

definition get_dc_endpoint :: "int \<Rightarrow> bool \<Rightarrow> endpoint res" where
  "get_dc_endpoint dc test_mode =
    (if test_mode then (case map_of TEST_table dc of None \<Rightarrow> Inl (KeyError dc) | Some a \<Rightarrow> Inr (a, 80))
     else (case map_of PROD_table dc of None \<Rightarrow> Inl (KeyError dc) | Some a \<Rightarrow> Inr (a, 443)))"

definition get_dc_endpoints :: "int \<Rightarrow> bool \<Rightarrow> endpoint list res" where
  "get_dc_endpoints dc test_mode =
    bind_res (get_dc_endpoint dc test_mode) (\<lambda>ep.
      Inr (if test_mode then [ep]
        else fold (\<lambda>address eps. let fallback = (address, snd ep) in
               if fallback \<in> set eps then eps else eps @ [fallback])
             (case map_of PROD_FALLBACKS dc of None \<Rightarrow> [] | Some fs \<Rightarrow> fs) [ep]))"

lemma get_dc_endpoint_error:
  "get_dc_endpoint dc test_mode = Inl e \<Longrightarrow> e = KeyError dc"
  by (auto simp: get_dc_endpoint_def split: if_splits option.splits)

lemma fold_append_new:
  "distinct eps \<Longrightarrow> distinct (fold (\<lambda>x eps. if g x \<in> set eps then eps else eps @ [g x]) xs eps)"
  by (induction xs arbitrary: eps) auto

lemma fold_append_new_prefix:
  "\<exists>r. fold (\<lambda>x eps. if g x \<in> set eps then eps else eps @ [g x]) xs eps = eps @ r"
proof (induction xs arbitrary: eps)
  case (Cons x xs)
  show ?case
    using Cons.IH [of eps] Cons.IH [of "eps @ [g x]"] by auto
qed simp

lemma get_dc_endpoints_first:
  assumes "get_dc_endpoints dc test_mode = Inr eps"
  shows "distinct eps \<and> eps \<noteq> [] \<and> get_dc_endpoint dc test_mode = Inr (hd eps)"
proof -
  obtain ep where ep: "get_dc_endpoint dc test_mode = Inr ep"
    and eps: "eps = (if test_mode then [ep] else
        fold (\<lambda>address eps. let fallback = (address, snd ep) in
               if fallback \<in> set eps then eps else eps @ [fallback])
             (case map_of PROD_FALLBACKS dc of None \<Rightarrow> [] | Some fs \<Rightarrow> fs) [ep])"
    using assms by (auto simp: get_dc_endpoints_def res_simps)
  have "distinct eps"
    using fold_append_new [of "[ep]" "\<lambda>a. (a, snd ep)"] by (simp add: eps Let_def)
  moreover obtain r where "eps = ep # r"
    using fold_append_new_prefix [of "\<lambda>a. (a, snd ep)" _ "[ep]"] by (cases test_mode) (auto simp: eps Let_def)
  ultimately show ?thesis
    using ep by simp
qed


section \<open>The key of the endpoint cache\<close>

definition endpoint_cache_key :: "int \<Rightarrow> bool \<Rightarrow> bool \<Rightarrow> bool \<Rightarrow> bool \<Rightarrow> string" where
  "endpoint_cache_key dc test_mode ipv6 is_media is_cdn =
    (let mode = (if test_mode then ''test'' else ''prod'');
         family = (if ipv6 then ''v6'' else ''v4'');
         kind = (if is_cdn then ''cdn'' else if is_media then ''media'' else ''api'')
     in mode @ '':'' @ family @ '':dc'' @ int_dec dc @ '':'' @ kind)"

lemma nat_dec_not_dash: "CHR ''-'' \<notin> set (nat_dec n)" "CHR '':'' \<notin> set (nat_dec n)"
  using nat_dec_digits [of "CHR ''-''" n] nat_dec_digits [of "CHR '':''" n] by auto

lemma int_dec_inj: "int_dec i = int_dec j \<Longrightarrow> i = j"
proof -
  assume eq: "int_dec i = int_dec j"
  have ne: "CHR ''-'' # xs \<noteq> nat_dec n" for xs n
    using nat_dec_not_dash(1) [of n] by (metis list.set_intros(1))
  have inj: "nat_dec m = nat_dec n \<Longrightarrow> m = n" for m n
    by (metis dec_val_nat_dec)
  show "i = j"
    using eq ne ne [symmetric] inj [of "nat (- i)" "nat (- j)"] inj [of "nat i" "nat j"]
    by (auto simp: int_dec_def split: if_splits)
qed

lemma int_dec_no_colon: "CHR '':'' \<notin> set (int_dec i)"
  using nat_dec_not_dash(2) by (auto simp: int_dec_def)

lemma split_at_colon:
  assumes "c \<notin> set a" "c \<notin> set b" "a @ c # r = b @ c # s"
  shows "a = b \<and> r = s"
proof -
  have "takeWhile (\<lambda>x. x \<noteq> c) (a @ c # r) = a" "takeWhile (\<lambda>x. x \<noteq> c) (b @ c # s) = b"
    using assms(1,2) by (auto simp: takeWhile_append takeWhile_eq_all_conv)
  then have "a = b"
    using assms(3) by simp
  then show ?thesis
    using assms(3) by simp
qed

lemma endpoint_cache_key_inj:
  assumes "endpoint_cache_key dc t v m c = endpoint_cache_key dc' t' v' m' c'"
  shows "dc = dc' \<and> t = t' \<and> v = v' \<and> c = c' \<and> (c \<or> m = m')"
proof -
  let ?k = "\<lambda>m c. if c then ''cdn'' else if m then ''media'' else ''api''"
  have "t = t'" "v = v'" and "int_dec dc @ CHR '':'' # ?k m c = int_dec dc' @ CHR '':'' # ?k m' c'"
    using assms by (auto simp: endpoint_cache_key_def Let_def split: if_splits)
  then have "int_dec dc = int_dec dc'" "?k m c = ?k m' c'"
    using split_at_colon [OF int_dec_no_colon int_dec_no_colon] by blast+
  with \<open>t = t'\<close> \<open>v = v'\<close> show ?thesis
    using int_dec_inj by (auto split: if_splits)
qed


section \<open>Options and probes\<close>

record dc_option =
  opt_id :: int
  opt_ip_address :: string
  opt_port :: int
  opt_ipv6 :: bool
  opt_media_only :: bool
  opt_cdn :: bool
  opt_static :: bool
  opt_tcpo_only :: bool
  opt_this_port_only :: bool

definition dc_option_endpoint :: "dc_option \<Rightarrow> endpoint" where
  "dc_option_endpoint opt = (opt_ip_address opt, opt_port opt)"

fun dedupe_loop :: "endpoint set \<Rightarrow> dc_option list \<Rightarrow> dc_option list" where
  "dedupe_loop seen [] = []"
| "dedupe_loop seen (opt # options) =
    (if dc_option_endpoint opt \<in> seen then dedupe_loop seen options
     else opt # dedupe_loop (insert (dc_option_endpoint opt) seen) options)"

definition dedupe_dc_options :: "dc_option list \<Rightarrow> dc_option list" where
  "dedupe_dc_options options = dedupe_loop {} options"

definition static_option :: "int \<Rightarrow> endpoint \<Rightarrow> dc_option" where
  "static_option dc = (\<lambda>(server_address, port). \<lparr>opt_id = dc, opt_ip_address = server_address,
     opt_port = port, opt_ipv6 = False, opt_media_only = False, opt_cdn = False, opt_static = True,
     opt_tcpo_only = False, opt_this_port_only = False\<rparr>)"

lemma endpoint_static_option [simp]: "dc_option_endpoint (static_option dc ep) = ep"
  by (simp add: static_option_def dc_option_endpoint_def split_beta)

definition static_dc_options :: "int \<Rightarrow> dc_option list res" where
  "static_dc_options dc =
    (case get_dc_endpoints dc False of
       Inl (KeyError _) \<Rightarrow> Inr []
     | Inl e \<Rightarrow> Inl e
     | Inr eps \<Rightarrow> Inr (map (static_option dc) eps))"

text \<open>
  The reachable candidates with the key they are sorted by: time, then whether they are the
  preferred endpoint, then position. \<open>run_probe\<close> turns every exception into a failed
  probe, so a probe always gives a verdict.
\<close>

type_synonym probe = "nat \<Rightarrow> endpoint \<Rightarrow> bool \<times> rat"

definition probe_key :: "probe \<Rightarrow> endpoint option \<Rightarrow> nat \<times> endpoint \<Rightarrow> rat \<times> nat \<times> nat" where
  "probe_key probe pref = (\<lambda>(i, ep). (snd (probe i ep), if Some ep = pref then 0 else 1, i))"

definition select_dc_option ::
  "probe \<Rightarrow> dc_option list \<Rightarrow> bool \<Rightarrow> endpoint option \<Rightarrow> dc_option res" where
  "select_dc_option probe options proxy preferred_endpoint =
    (if options = [] then Inl ValueError
     else let preferred_option = find (\<lambda>opt. Some (dc_option_endpoint opt) = preferred_endpoint) options in
       if proxy then Inr (case preferred_option of Some opt \<Rightarrow> opt | None \<Rightarrow> options ! 0)
       else if length options = 1 then Inr (options ! 0)
       else let reachable = filter (\<lambda>(i, opt). fst (probe i (dc_option_endpoint opt)))
                  (enumerate 0 options) in
         if reachable \<noteq> [] then
           (case find (\<lambda>(i, opt). Some (dc_option_endpoint opt) = preferred_endpoint) reachable of
              Some (_, opt) \<Rightarrow> Inr opt
            | None \<Rightarrow> Inr (snd (sort_key (\<lambda>(i, opt). probe_key probe preferred_endpoint (i, dc_option_endpoint opt)) reachable ! 0)))
         else (case preferred_option of Some opt \<Rightarrow> Inr opt | None \<Rightarrow> Inr (options ! 0)))"

text \<open>
  The cache as it comes out of its JSON file. A number of the file is an \<open>int\<close> or a
  \<open>float\<close>, and \<open>isinstance(port, int)\<close> accepts the booleans too, which count
  as 0 and 1. Objects are association lists with the last binding of a key first.
\<close>

datatype json = JNull | JBool bool | JInt int | JFloat rat | JStr string | JList "json list"
  | JObj "(string \<times> json) list"

fun json_get :: "(string \<times> json) list \<Rightarrow> string \<Rightarrow> json" where
  "json_get kvs k = (case map_of kvs k of None \<Rightarrow> JNull | Some v \<Rightarrow> v)"

fun as_int :: "json \<Rightarrow> int option" where
  "as_int (JInt i) = Some i"
| "as_int (JBool b) = Some (if b then 1 else 0)"
| "as_int _ = None"

fun as_str :: "json \<Rightarrow> string option" where
  "as_str (JStr s) = Some s"
| "as_str _ = None"

text \<open>\<open>load_endpoint_cache().get("endpoints", {}).get(cache_key)\<close>, and the endpoint an
  entry of the right shape holds.\<close>

fun get_key :: "json \<Rightarrow> string \<Rightarrow> json res" where
  "get_key (JObj kvs) k = Inr (json_get kvs k)"
| "get_key _ k = Inl AttributeError"

definition cached_value :: "(string \<times> json) list \<Rightarrow> string \<Rightarrow> json res" where
  "cached_value data k = get_key (case map_of data ''endpoints'' of None \<Rightarrow> JObj [] | Some v \<Rightarrow> v) k"

fun entry_endpoint :: "json \<Rightarrow> endpoint option" where
  "entry_endpoint (JObj cached) =
    (case (as_str (json_get cached ''server_address''), as_int (json_get cached ''port'')) of
       (Some server_address, Some port) \<Rightarrow> Some (server_address, port)
     | _ \<Rightarrow> None)"
| "entry_endpoint _ = None"

definition cached_dc_endpoint ::
  "(string \<times> json) list res \<Rightarrow> string option \<Rightarrow> endpoint list \<Rightarrow> endpoint option res" where
  "cached_dc_endpoint load cache_key endpoints =
    (if \<not> truthy cache_key then Inr None
     else bind_res load (\<lambda>data.
       bind_res (cached_value data (the cache_key)) (\<lambda>cached.
         Inr (case entry_endpoint cached of
           None \<Rightarrow> None
         | Some ep \<Rightarrow> if ep \<in> set endpoints then Some ep else None))))"

definition reorder_with_cached_endpoint ::
  "(string \<times> json) list res \<Rightarrow> string option \<Rightarrow> endpoint list \<Rightarrow> endpoint list res" where
  "reorder_with_cached_endpoint load cache_key endpoints =
    (let endpoints = dedup endpoints in
     bind_res (cached_dc_endpoint load cache_key endpoints) (\<lambda>cached_endpoint.
       case cached_endpoint of None \<Rightarrow> Inr endpoints | Some c \<Rightarrow> Inr (dedup (c # endpoints))))"

definition order_dc_endpoints ::
  "(string \<times> json) list res \<Rightarrow> probe \<Rightarrow> endpoint list \<Rightarrow> bool \<Rightarrow> endpoint option \<Rightarrow>
    string option \<Rightarrow> endpoint list res" where
  "order_dc_endpoints load probe endpoints proxy preferred_endpoint cache_key =
    (let endpoints = dedup endpoints in
     if proxy \<or> length endpoints \<le> 1 then Inr endpoints
     else bind_res (cached_dc_endpoint load cache_key endpoints) (\<lambda>cached_endpoint.
       case cached_endpoint of
         Some c \<Rightarrow> Inr (dedup (c # endpoints))
       | None \<Rightarrow>
          let reachable = filter (\<lambda>(i, ep). fst (probe i ep)) (enumerate 0 endpoints);
              failed = map snd (filter (\<lambda>(i, ep). \<not> fst (probe i ep)) (enumerate 0 endpoints)) in
          if reachable = [] then Inr endpoints
          else Inr (map snd (sort_key (probe_key probe preferred_endpoint) reachable) @ failed)))"


section \<open>What the choices guarantee\<close>

lemma dedupe_loop_props:
  "set (dedupe_loop seen options) \<subseteq> set options \<and>
   dc_option_endpoint ` set (dedupe_loop seen options) = dc_option_endpoint ` set options - seen \<and>
   distinct (map dc_option_endpoint (dedupe_loop seen options))"
  by (induction seen options rule: dedupe_loop.induct) auto

lemma dedup_front: "c \<in> set eps \<Longrightarrow> distinct eps \<Longrightarrow> mset (dedup (c # eps)) = mset eps"
  using set_eq_iff_mset_eq_distinct [of "dedup (c # eps)" eps] by (auto simp del: dedup.simps)

lemma cached_dc_endpoint_member:
  "cached_dc_endpoint load cache_key endpoints = Inr (Some c) \<Longrightarrow> c \<in> set endpoints"
  by (auto simp: cached_dc_endpoint_def res_simps split: if_splits option.splits)

lemma partition_mset:
  "mset (map snd (sort_key k (filter P xs)) @ map snd (filter (\<lambda>x. \<not> P x) xs)) = mset (map snd xs)"
  by (induction xs) (simp_all add: mset_map [symmetric] del: mset_map, simp_all)

lemma map_snd_enumerate [simp]: "map snd (enumerate n xs) = xs"
  by (simp add: enumerate_eq_zip)

text \<open>The shape of the result when the candidates are probed.\<close>

definition answered :: "probe \<Rightarrow> nat \<times> endpoint \<Rightarrow> bool" where
  "answered probe = (\<lambda>(i, ep). fst (probe i ep))"

definition probe_order :: "probe \<Rightarrow> endpoint option \<Rightarrow> endpoint list \<Rightarrow> endpoint list" where
  "probe_order probe pref eps =
    map snd (sort_key (probe_key probe pref) (filter (answered probe) (enumerate 0 eps))) @
    map snd (filter (\<lambda>x. \<not> answered probe x) (enumerate 0 eps))"

lemma order_probed:
  "order_dc_endpoints load probe endpoints proxy pref key =
    (let eps = dedup endpoints in
     if proxy \<or> length eps \<le> 1 then Inr eps
     else bind_res (cached_dc_endpoint load key eps) (\<lambda>cached. Inr (case cached of
         Some c \<Rightarrow> dedup (c # eps)
       | None \<Rightarrow> if filter (answered probe) (enumerate 0 eps) = [] then eps else probe_order probe pref eps)))"
proof -
  have "answered probe = (\<lambda>(i, ep). fst (probe i ep))" "(\<lambda>x. \<not> answered probe x) = (\<lambda>(i, ep). \<not> fst (probe i ep))"
    by (auto simp: answered_def)
  then show ?thesis
    unfolding order_dc_endpoints_def probe_order_def Let_def
    by (intro if_cong refl arg_cong [where f = "bind_res _"] ext) (simp split: option.split)
qed

lemma order_cases:
  assumes "order_dc_endpoints load probe endpoints proxy pref key = Inr ordered"
  shows "ordered = dedup endpoints \<or>
    (\<exists>c \<in> set endpoints. ordered = dedup (c # dedup endpoints)) \<or>
    ordered = probe_order probe pref (dedup endpoints)"
proof (cases "proxy \<or> length (dedup endpoints) \<le> 1")
  case False
  then obtain cached where "cached_dc_endpoint load key (dedup endpoints) = Inr cached"
    and "ordered = (case cached of Some c \<Rightarrow> dedup (c # dedup endpoints)
      | None \<Rightarrow> if filter (answered probe) (enumerate 0 (dedup endpoints)) = [] then dedup endpoints
        else probe_order probe pref (dedup endpoints))"
    using assms unfolding order_probed Let_def by (auto simp: res_simps simp del: dedup.simps)
  then show ?thesis
    using cached_dc_endpoint_member [of load key "dedup endpoints"]
    by (cases cached) (auto simp del: dedup.simps)
qed (use assms in \<open>simp add: order_probed Let_def\<close>)

lemma order_permutes:
  assumes "order_dc_endpoints load probe endpoints proxy pref key = Inr ordered"
  shows "mset ordered = mset (dedup endpoints)"
  using order_cases [OF assms] dedup_front [of _ "dedup endpoints"] partition_mset [of "probe_key probe pref" "answered probe" "enumerate 0 (dedup endpoints)"]
  by (auto simp del: dedup.simps simp: probe_order_def)

lemma mem_enumerate0: "(i, x) \<in> set (enumerate 0 xs) \<longleftrightarrow> i < length xs \<and> xs ! i = x"
  by (auto simp: in_set_enumerate_eq)

lemma sorted_fst_key:
  assumes "sorted (map k xs)"
  shows "sorted (map (\<lambda>x. fst (k x)) xs)"
  using assms by (induction xs) (auto simp: less_eq_prod_def intro: order_less_imp_le)

lemma fst_probe_key [simp]: "fst (probe_key probe pref x) = snd (probe (fst x) (snd x))"
  by (simp add: probe_key_def split_beta)

text \<open>The candidates of a data centre come out in the order in which they are to be tried,
  none lost and none repeated: the result is a permutation of the distinct candidates. A cached
  endpoint comes first. With no proxy and nothing in the cache, and when a probe answers, the
  candidates that answered come before those that did not, fastest first.\<close>

theorem order_dc_endpoints_order:
  assumes "order_dc_endpoints load probe endpoints proxy pref key = Inr ordered"
  shows "mset ordered = mset (dedup endpoints) \<and>
    (\<not> proxy \<and> 1 < length (dedup endpoints) \<longrightarrow>
      (\<forall>c. cached_dc_endpoint load key (dedup endpoints) = Inr (Some c) \<longrightarrow> hd ordered = c) \<and>
      (cached_dc_endpoint load key (dedup endpoints) = Inr None \<and>
       (\<exists>i < length (dedup endpoints). fst (probe i (dedup endpoints ! i))) \<longrightarrow>
        (\<exists>fast slow. ordered = map snd fast @ map snd slow \<and>
          set fast = {(i, ep). i < length (dedup endpoints) \<and> dedup endpoints ! i = ep \<and> fst (probe i ep)} \<and>
          sorted (map (\<lambda>(i, ep). snd (probe i ep)) fast) \<and>
          (\<forall>(i, ep) \<in> set slow. \<not> fst (probe i ep)))))"
proof -
  let ?eps = "dedup endpoints"
  let ?fast = "sort_key (probe_key probe pref) (filter (answered probe) (enumerate 0 ?eps))"
  let ?slow = "filter (\<lambda>x. \<not> answered probe x) (enumerate 0 ?eps)"
  have "\<exists>fast slow. ordered = map snd fast @ map snd slow \<and>
      set fast = {(i, ep). i < length ?eps \<and> ?eps ! i = ep \<and> fst (probe i ep)} \<and>
      sorted (map (\<lambda>(i, ep). snd (probe i ep)) fast) \<and> (\<forall>(i, ep) \<in> set slow. \<not> fst (probe i ep))"
    if np: "\<not> proxy" "1 < length ?eps" "cached_dc_endpoint load key ?eps = Inr None"
      and "i < length ?eps" "fst (probe i (?eps ! i))" for i
  proof (intro exI conjI)
    have "filter (answered probe) (enumerate 0 ?eps) \<noteq> []"
      using that mem_enumerate0 [of i "?eps ! i" ?eps] by (force simp: filter_empty_conv answered_def)
    then show "ordered = map snd ?fast @ map snd ?slow"
      using assms np by (simp add: order_probed Let_def probe_order_def del: dedup.simps)
    show "set ?fast = {(i, ep). i < length ?eps \<and> ?eps ! i = ep \<and> fst (probe i ep)}"
      by (auto simp: answered_def mem_enumerate0)
    show "sorted (map (\<lambda>(i, ep). snd (probe i ep)) ?fast)"
      using sorted_fst_key [OF sorted_sort_key, of "probe_key probe pref" "filter (answered probe) (enumerate 0 ?eps)"]
      by (simp add: case_prod_beta' del: filter_sort)
    show "\<forall>(i, ep) \<in> set ?slow. \<not> fst (probe i ep)"
      by (auto simp: answered_def)
  qed
  moreover have "hd ordered = c"
    if "\<not> proxy" "1 < length ?eps" "cached_dc_endpoint load key ?eps = Inr (Some c)" for c
    using assms that by (auto simp: order_probed Let_def)
  ultimately show ?thesis
    using order_permutes [OF assms] by blast
qed

theorem order_dc_endpoints_order_witness:
  "order_dc_endpoints (Inr []) (\<lambda>i ep. (i \<noteq> 0, 3 - of_nat i)) [(''a'', 1), (''b'', 2), (''a'', 1), (''c'', 3)] False None None =
     Inr [(''c'', 3), (''b'', 2), (''a'', 1)] \<and>
   mset [(''c'', 3 :: int), (''b'', 2), (''a'', 1)] = mset (dedup [(''a'', 1), (''b'', 2), (''a'', 1), (''c'', 3)])"
proof (rule conjI)
  show ev: "order_dc_endpoints (Inr []) (\<lambda>i ep. (i \<noteq> 0, 3 - of_nat i)) [(''a'', 1), (''b'', 2), (''a'', 1), (''c'', 3)] False None None =
     Inr [(''c'', 3), (''b'', 2), (''a'', 1)]"
    by (simp add: order_dc_endpoints_def cached_dc_endpoint_def probe_key_def)
  show "mset [(''c'', 3 :: int), (''b'', 2), (''a'', 1)] = mset (dedup [(''a'', 1), (''b'', 2), (''a'', 1), (''c'', 3)])"
    using order_dc_endpoints_order [OF ev] by blast
qed

lemma find_reachable:
  assumes "find P xs = Some x"
  shows "x \<in> set xs \<and> P x"
  using assms by (auto simp: find_Some_iff)

lemma sort_key_first:
  assumes "xs \<noteq> []"
  shows "sort_key k xs ! 0 \<in> set xs \<and> (\<forall>y \<in> set xs. k (sort_key k xs ! 0) \<le> k y)"
proof -
  obtain a as where as: "sort_key k xs = a # as"
    using assms by (cases "sort_key k xs") (auto dest: arg_cong [where f = length])
  then have "set xs = insert a (set as)"
    by (metis list.simps(15) set_sort)
  moreover have "sorted (map k (a # as))"
    by (metis as sorted_sort_key)
  ultimately show ?thesis
    using as by auto
qed

text \<open>When a client picks the address of a data centre, it fails only on an empty list and
  otherwise returns one of the options. Without a proxy, and when one of several options answers
  its probe, the option returned answered too, and it is the preferred endpoint if that one
  answered and otherwise one of the fastest.\<close>

theorem select_dc_option_choice:
  assumes "options \<noteq> []"
  shows "\<exists>opt. select_dc_option probe options proxy pref = Inr opt \<and> opt \<in> set options \<and>
    (\<not> proxy \<longrightarrow> 1 < length options \<longrightarrow>
      (\<forall>j < length options. fst (probe j (dc_option_endpoint (options ! j))) \<longrightarrow>
        (\<exists>i < length options. opt = options ! i \<and> fst (probe i (dc_option_endpoint opt)) \<and>
          (Some (dc_option_endpoint opt) = pref \<or>
           Some (dc_option_endpoint (options ! j)) \<noteq> pref \<and>
           snd (probe i (dc_option_endpoint opt)) \<le> snd (probe j (dc_option_endpoint (options ! j)))))))"
proof -
  let ?ok = "\<lambda>(i, opt). fst (probe i (dc_option_endpoint opt))"
  let ?r = "filter ?ok (enumerate 0 options)"
  let ?k = "\<lambda>(i, opt). probe_key probe pref (i, dc_option_endpoint opt)"
  let ?pref = "\<lambda>(i :: nat, opt). Some (dc_option_endpoint opt) = pref"
  have mem: "(i, opt) \<in> set ?r \<longleftrightarrow> i < length options \<and> options ! i = opt \<and> fst (probe i (dc_option_endpoint opt))" for i opt
    by (auto simp: mem_enumerate0)
  consider (static) "proxy \<or> length options = 1 \<or> ?r = []"
    | (preferred) "\<not> proxy" "length options \<noteq> 1" "?r \<noteq> []" "find ?pref ?r \<noteq> None"
    | (fastest) "\<not> proxy" "length options \<noteq> 1" "?r \<noteq> []" "find ?pref ?r = None"
    by blast
  then show ?thesis
  proof cases
    case static
    then have "\<exists>opt \<in> set options. select_dc_option probe options proxy pref = Inr opt"
      using assms by (auto simp: select_dc_option_def Let_def split: option.splits dest: find_reachable)
    moreover have "\<not> fst (probe j (dc_option_endpoint (options ! j)))" if "?r = []" "j < length options" for j
      using that mem [of j "options ! j"] by simp
    ultimately show ?thesis
      using static by force
  next
    case preferred
    then obtain i opt where f: "find ?pref ?r = Some (i, opt)"
      by auto
    then have sel: "select_dc_option probe options proxy pref = Inr opt"
      using preferred assms by (simp add: select_dc_option_def)
    then show ?thesis
      using find_reachable [OF f] mem [of i opt] by (intro exI [of _ opt]) auto
  next
    case fastest
    obtain i opt where f: "sort_key ?k ?r ! 0 = (i, opt)"
      by (cases "sort_key ?k ?r ! 0")
    then have "(i, opt) \<in> set ?r" and le: "\<And>y. y \<in> set ?r \<Longrightarrow> ?k (i, opt) \<le> ?k y"
      using sort_key_first [OF fastest(3), of ?k] by metis+
    then have io: "i < length options" "options ! i = opt" "fst (probe i (dc_option_endpoint opt))"
      unfolding mem by blast+
    have sel: "select_dc_option probe options proxy pref = Inr opt"
      using fastest assms f by (simp add: select_dc_option_def)
    have "Some (dc_option_endpoint (options ! j)) \<noteq> pref \<and>
        snd (probe i (dc_option_endpoint opt)) \<le> snd (probe j (dc_option_endpoint (options ! j)))"
      if "j < length options" "fst (probe j (dc_option_endpoint (options ! j)))" for j
      using le [of "(j, options ! j)"] fastest(4) that mem [of j "options ! j"]
      by (auto simp: find_None_iff probe_key_def less_eq_prod_def)
    then show ?thesis
      using sel io by (intro exI [of _ opt]) auto
  qed
qed

theorem select_dc_option_choice_witness:
  "\<exists>opt. select_dc_option (\<lambda>i ep. (i \<noteq> 0, 3 - of_nat i))
      (map (static_option 2) [(''a'', 1), (''b'', 1)]) False (Some (''a'', 1)) = Inr opt \<and>
    opt = static_option 2 (''b'', 1)"
proof -
  let ?probe = "\<lambda>i (ep :: endpoint). (i \<noteq> 0, 3 - of_nat i :: rat)"
  let ?opts = "map (static_option 2) [(''a'', 1), (''b'', 1)]"
  obtain opt where opt: "select_dc_option ?probe ?opts False (Some (''a'', 1)) = Inr opt"
    and fast: "\<forall>j < length ?opts. fst (?probe j (dc_option_endpoint (?opts ! j))) \<longrightarrow>
        (\<exists>i < length ?opts. opt = ?opts ! i \<and> fst (?probe i (dc_option_endpoint opt)))"
    using select_dc_option_choice [of ?opts ?probe False "Some (''a'', 1)"] by fastforce
  have "\<exists>i < length ?opts. opt = ?opts ! i \<and> i \<noteq> 0"
    using fast [THEN spec, of 1] by simp
  then have "opt = static_option 2 (''b'', 1)"
    by (auto simp: less_Suc_eq)
  with opt show ?thesis
    by blast
qed

end
