(* ===== verification/Endpoint_Cache.thy ===== *)
theory Endpoint_Cache
  imports Dc_Options "HOL-Library.AList"
begin

text \<open>
  The files of the endpoint cache (dc\_options.py): the walk to its directory with the checks of
  every ancestor, the opening of a file, reading, and the update through a temporary file. The
  operating system is a parameter: records of the outcomes of its calls, one per call site and,
  in the walk, per component of the path, so that other processes may change the files between
  two calls. The operations return what they open and close, and the files they leave. Closing a
  descriptor is taken to succeed.
\<close>

section \<open>What the system reports of a file\<close>

datatype file_kind = Directory | Regular | OtherKind

record file_stat =
  st_kind :: file_kind
  st_perms :: "12 word"
  st_uid :: int
  st_nlink :: nat

text \<open>Outcomes of opening: the errors the code tells apart, and the others of
  \<open>ENDPOINT_CACHE_OPERATION_ERRORS\<close>.\<close>

datatype open_outcome = Opened | NotFound | AlreadyExists | OpenFailed

datatype fd_event = FdOpen nat | FdClose nat

text \<open>The modes are 0o700, 0o600, 0o1000 and 0o022 of the source.\<close>

definition ENDPOINT_CACHE_VERSION :: int where "ENDPOINT_CACHE_VERSION = 1"
definition ENDPOINT_CACHE_DIR_MODE :: "12 word" where "ENDPOINT_CACHE_DIR_MODE = 0x1C0"
definition ENDPOINT_CACHE_FILE_MODE :: "12 word" where "ENDPOINT_CACHE_FILE_MODE = 0x180"
definition S_ISVTX :: "12 word" where "S_ISVTX = 0x200"
definition GROUP_OTHER_WRITE :: "12 word" where "GROUP_OTHER_WRITE = 0x12"

text \<open>\<open>user\<close> is the result of \<open>_current_user_id\<close>, \<open>None\<close> where the
  system has no \<open>getuid\<close>.\<close>

definition is_owned_by_current_user :: "int option \<Rightarrow> file_stat \<Rightarrow> bool" where
  "is_owned_by_current_user user st = (user = None \<or> Some (st_uid st) = user)"

definition is_safe_endpoint_cache_file :: "int option \<Rightarrow> file_stat \<Rightarrow> bool" where
  "is_safe_endpoint_cache_file user st =
    (st_kind st = Regular \<and> st_nlink st = 1 \<and> is_owned_by_current_user user st)"


section \<open>The walk to the directory\<close>

record dir_os =
  dir_capable :: bool
  current_user :: "int option"
  open_root :: bool
  open_child :: "nat \<Rightarrow> open_outcome"
  mkdir_child :: "nat \<Rightarrow> open_outcome"
  reopen_child :: "nat \<Rightarrow> open_outcome"
  dir_fstat :: "nat \<Rightarrow> file_stat option"
  dir_fchmod :: bool
  dir_fstat_after :: "file_stat option"

text \<open>One component is opened, and made first where it is missing: a directory that another
  process makes meanwhile is as good.\<close>

definition open_part :: "dir_os \<Rightarrow> nat \<Rightarrow> bool" where
  "open_part os i = (case open_child os i of
     Opened \<Rightarrow> True
   | NotFound \<Rightarrow> mkdir_child os i \<in> {Opened, AlreadyExists} \<and> reopen_child os i = Opened
   | _ \<Rightarrow> False)"

text \<open>The checks of an ancestor and of the directory itself. \<open>None\<close> is the
  \<open>OSError\<close>; \<open>Some sticky\<close> is the new value of \<open>shared_sticky_ancestor\<close>.\<close>

definition check_ancestor :: "int option \<Rightarrow> file_stat \<Rightarrow> bool \<Rightarrow> bool option" where
  "check_ancestor user st sticky =
    (let owned_by_current_or_root = is_owned_by_current_user user st \<or> st_uid st = 0 in
     if sticky \<and> \<not> owned_by_current_or_root then None
     else if st_perms st AND GROUP_OTHER_WRITE \<noteq> 0 then
       (if st_uid st \<noteq> 0 \<or> st_perms st AND S_ISVTX = 0 then None else Some True)
     else if \<not> owned_by_current_or_root then None
     else Some sticky)"

definition check_directory :: "dir_os \<Rightarrow> file_stat \<Rightarrow> bool" where
  "check_directory os st =
    (is_owned_by_current_user (current_user os) st \<and> dir_fchmod os \<and>
     (case dir_fstat_after os of None \<Rightarrow> False | Some after \<Rightarrow> st_perms after = ENDPOINT_CACHE_DIR_MODE))"

text \<open>The walk below descriptor \<open>i\<close> with \<open>k\<close> components to go; descriptor 0 is
  the root, descriptor \<open>i + 1\<close> the component \<open>i\<close>.\<close>

fun walk_parts :: "dir_os \<Rightarrow> nat \<Rightarrow> nat \<Rightarrow> bool \<Rightarrow> fd_event list \<times> nat option" where
  "walk_parts os i 0 sticky = ([], Some i)"
| "walk_parts os i (Suc k) sticky =
    (if \<not> open_part os i then ([FdClose i], None)
     else let opened = [FdOpen (i + 1), FdClose i]; failed = (opened @ [FdClose (i + 1)], None) in
       (case dir_fstat os i of
          None \<Rightarrow> failed
        | Some st \<Rightarrow>
            if st_kind st \<noteq> Directory then failed
            else if 0 < k then
              (case check_ancestor (current_user os) st sticky of
                 None \<Rightarrow> failed
               | Some sticky' \<Rightarrow> let (evs, r) = walk_parts os (i + 1) k sticky' in (opened @ evs, r))
            else if check_directory os st then (opened, Some (i + 1)) else failed))"

definition open_endpoint_cache_dir :: "dir_os \<Rightarrow> string list \<Rightarrow> fd_event list \<times> nat option" where
  "open_endpoint_cache_dir os path_parts =
    (if \<not> dir_capable os then ([], None)
     else if list_ex (\<lambda>part. part \<in> {'''', ''.'', ''..''}) path_parts then ([], None)
     else if \<not> open_root os then ([], None)
     else let (evs, r) = walk_parts os 0 (length path_parts) False in (FdOpen 0 # evs, r))"

definition ensure_endpoint_cache_dir :: "dir_os \<Rightarrow> string list \<Rightarrow> fd_event list \<times> bool" where
  "ensure_endpoint_cache_dir os path_parts =
    (case open_endpoint_cache_dir os path_parts of
       (evs, None) \<Rightarrow> (evs, False)
     | (evs, Some fd) \<Rightarrow> (evs @ [FdClose fd], True))"

text \<open>The descriptors open after a sequence of events.\<close>

fun fd_step :: "nat set \<Rightarrow> fd_event \<Rightarrow> nat set" where
  "fd_step fds (FdOpen n) = insert n fds"
| "fd_step fds (FdClose n) = fds - {n}"

definition fds_after :: "nat set \<Rightarrow> fd_event list \<Rightarrow> nat set" where
  "fds_after fds evs = foldl fd_step fds evs"

lemma fds_after_simps [simp]:
  "fds_after fds [] = fds"
  "fds_after fds (ev # evs) = fds_after (fd_step fds ev) evs"
  "fds_after fds (evs @ evs') = fds_after (fds_after fds evs) evs'"
  by (simp_all add: fds_after_def)

lemma walk_parts_fds:
  "walk_parts os i k sticky = (evs, r) \<Longrightarrow>
    fds_after {i} evs = (case r of None \<Rightarrow> {} | Some fd \<Rightarrow> {fd}) \<and> (\<forall>fd. r = Some fd \<longrightarrow> fd = i + k)"
proof (induction os i k sticky arbitrary: evs r rule: walk_parts.induct)
  case (2 os i k sticky)
  then show ?case
    by (fastforce simp: Let_def insert_Diff_if split: if_splits option.splits prod.splits)
qed simp

definition trusted_ancestor :: "int option \<Rightarrow> file_stat \<Rightarrow> bool" where
  "trusted_ancestor user st =
    (st_kind st = Directory \<and> (is_owned_by_current_user user st \<or> st_uid st = 0) \<and>
     (st_perms st AND GROUP_OTHER_WRITE \<noteq> 0 \<longrightarrow> st_uid st = 0 \<and> st_perms st AND S_ISVTX \<noteq> 0))"

lemma check_ancestor_trusted:
  "check_ancestor user st sticky \<noteq> None \<Longrightarrow> st_kind st = Directory \<Longrightarrow> trusted_ancestor user st"
  by (auto simp: check_ancestor_def trusted_ancestor_def Let_def split: if_splits)

lemma walk_parts_trusted:
  "walk_parts os i k sticky = (evs, Some fd) \<Longrightarrow> 0 < k \<Longrightarrow>
    (\<forall>j. i \<le> j \<and> j + 1 < i + k \<longrightarrow> (\<exists>st. dir_fstat os j = Some st \<and> trusted_ancestor (current_user os) st)) \<and>
    (\<exists>st. dir_fstat os (i + k - 1) = Some st \<and> st_kind st = Directory \<and> check_directory os st)"
proof (induction k arbitrary: i sticky evs)
  case (Suc k)
  obtain st where st: "dir_fstat os i = Some st" "st_kind st = Directory"
    using Suc.prems by (auto simp: Let_def split: if_splits option.splits)
  show ?case
  proof (cases k)
    case 0
    then show ?thesis
      using Suc.prems st by (auto simp: Let_def split: if_splits)
  next
    case (Suc k')
    then obtain sticky' evs' where c: "check_ancestor (current_user os) st sticky = Some sticky'"
      and w: "walk_parts os (i + 1) k sticky' = (evs', Some fd)"
      using Suc.prems st by (auto simp: Let_def simp del: walk_parts.simps(2) split: if_splits option.splits prod.splits) (auto simp: Let_def split: if_splits option.splits prod.splits)
    have "trusted_ancestor (current_user os) st"
      using check_ancestor_trusted [of "current_user os" st sticky] c st by simp
    moreover have rest: "\<exists>st. dir_fstat os j = Some st \<and> trusted_ancestor (current_user os) st"
      if "i + 1 \<le> j" "j + 1 < i + Suc k" for j
      using Suc.IH [OF w] that \<open>k = Suc k'\<close> by auto
    moreover have "\<exists>st. dir_fstat os (i + Suc k - 1) = Some st \<and> st_kind st = Directory \<and> check_directory os st"
      using Suc.IH [OF w] \<open>k = Suc k'\<close> by simp
    moreover have "i \<le> j \<Longrightarrow> j = i \<or> i + 1 \<le> j" for j
      by auto
    ultimately show ?thesis
      using st by metis
  qed
qed simp

text \<open>C37: The directory of the endpoint cache is only used when it is safe. When the walk yields
  a descriptor, it is that of the last component and the only one left open; the directory has
  the mode 0700 and belongs to the user; every ancestor below the root is a directory of the user or of root, and
  one that others may write is a sticky directory of root. Otherwise no descriptor stays open.\<close>

theorem endpoint_cache_dir_safe:
  assumes "open_endpoint_cache_dir os path_parts = (evs, r)" and "path_parts \<noteq> []"
  shows "fds_after {} evs = (case r of None \<Rightarrow> {} | Some fd \<Rightarrow> {fd}) \<and>
    (\<forall>fd. r = Some fd \<longrightarrow> fd = length path_parts \<and>
      (\<forall>part \<in> set path_parts. part \<notin> {'''', ''.'', ''..''}) \<and>
      (\<forall>j. j + 1 < length path_parts \<longrightarrow>
        (\<exists>st. dir_fstat os j = Some st \<and> trusted_ancestor (current_user os) st)) \<and>
      (\<exists>st after. dir_fstat os (length path_parts - 1) = Some st \<and> st_kind st = Directory \<and>
        is_owned_by_current_user (current_user os) st \<and>
        dir_fstat_after os = Some after \<and> st_perms after = ENDPOINT_CACHE_DIR_MODE))"
proof (cases "dir_capable os \<and> open_root os \<and> \<not> list_ex (\<lambda>part. part \<in> {'''', ''.'', ''..''}) path_parts")
  case True
  then obtain evs' where w: "walk_parts os 0 (length path_parts) False = (evs', r)" and evs: "evs = FdOpen 0 # evs'"
    using assms by (auto simp: open_endpoint_cache_dir_def split: prod.splits)
  have "fds_after {} evs = (case r of None \<Rightarrow> {} | Some fd \<Rightarrow> {fd}) \<and> (\<forall>fd. r = Some fd \<longrightarrow> fd = length path_parts)"
    using walk_parts_fds [OF w] by (simp add: evs)
  moreover have "\<forall>part \<in> set path_parts. part \<notin> {'''', ''.'', ''..''}"
    using True by (simp add: list_ex_iff)
  ultimately show ?thesis
    using walk_parts_trusted [of os 0 "length path_parts" False evs'] w assms(2)
    by (auto simp: check_directory_def split: option.splits)
next
  case False
  then show ?thesis
    using assms by (auto simp: open_endpoint_cache_dir_def split: if_splits)
qed

definition home_os :: "dir_os" where
  "home_os = \<lparr>dir_capable = True, current_user = Some 1000, open_root = True,
     open_child = (\<lambda>i. if i = 2 then NotFound else Opened), mkdir_child = (\<lambda>_. Opened), reopen_child = (\<lambda>_. Opened),
     dir_fstat = (\<lambda>i. Some \<lparr>st_kind = Directory, st_perms = 0x1ED, st_uid = (if i = 0 then 0 else 1000), st_nlink = 1\<rparr>),
     dir_fchmod = True,
     dir_fstat_after = Some \<lparr>st_kind = Directory, st_perms = 0x1C0, st_uid = 1000, st_nlink = 1\<rparr>\<rparr>"

lemma home_walk:
  "open_endpoint_cache_dir home_os [''home'', ''user'', ''.cache''] =
    ([FdOpen 0, FdOpen 1, FdClose 0, FdOpen 2, FdClose 1, FdOpen 3, FdClose 2], Some 3)"
  by (simp add: open_endpoint_cache_dir_def home_os_def open_part_def check_ancestor_def
      check_directory_def is_owned_by_current_user_def ENDPOINT_CACHE_DIR_MODE_def GROUP_OTHER_WRITE_def)

theorem endpoint_cache_dir_safe_witness:
  "open_endpoint_cache_dir home_os [''home'', ''user'', ''.cache''] =
    ([FdOpen 0, FdOpen 1, FdClose 0, FdOpen 2, FdClose 1, FdOpen 3, FdClose 2], Some 3) \<and>
   (\<exists>st. dir_fstat home_os 0 = Some st \<and> trusted_ancestor (Some 1000) st) \<and>
   (\<exists>st. dir_fstat home_os 1 = Some st \<and> trusted_ancestor (Some 1000) st)"
proof (rule conjI [OF home_walk])
  have "\<exists>st. dir_fstat home_os j = Some st \<and> trusted_ancestor (Some 1000) st" if "j + 1 < 3" for j
    using endpoint_cache_dir_safe [OF home_walk] that by (simp add: home_os_def)
  from this [of 0] this [of 1] show "(\<exists>st. dir_fstat home_os 0 = Some st \<and> trusted_ancestor (Some 1000) st) \<and>
     (\<exists>st. dir_fstat home_os 1 = Some st \<and> trusted_ancestor (Some 1000) st)"
    by simp
qed


section \<open>Opening and reading a file of the cache\<close>

text \<open>The three attempts to open a file, and what is seen of the file once it is open.\<close>

record open_os =
  file_capable :: bool
  first_open :: open_outcome
  exclusive_open :: open_outcome
  second_open :: open_outcome
  file_fstat :: "file_stat option"
  file_fchmod :: bool
  file_fstat_after :: "file_stat option"

definition opens :: "open_os \<Rightarrow> bool \<Rightarrow> bool" where
  "opens os create = (case first_open os of
     Opened \<Rightarrow> True
   | NotFound \<Rightarrow> create \<and> (case exclusive_open os of
        Opened \<Rightarrow> True
      | AlreadyExists \<Rightarrow> second_open os = Opened
      | _ \<Rightarrow> False)
   | _ \<Rightarrow> False)"

definition secured :: "int option \<Rightarrow> open_os \<Rightarrow> bool" where
  "secured user os =
    ((case file_fstat os of None \<Rightarrow> False | Some st \<Rightarrow> is_safe_endpoint_cache_file user st) \<and> file_fchmod os \<and>
     (case file_fstat_after os of None \<Rightarrow> False | Some st \<Rightarrow> st_perms st = ENDPOINT_CACHE_FILE_MODE))"

definition open_endpoint_cache_file :: "int option \<Rightarrow> open_os \<Rightarrow> bool \<Rightarrow> nat \<Rightarrow> fd_event list \<times> bool" where
  "open_endpoint_cache_file user os create fd =
    (if \<not> file_capable os then ([], False)
     else if \<not> opens os create then ([], False)
     else if secured user os then ([FdOpen fd], True)
     else ([FdOpen fd, FdClose fd], False))"

definition calm_open :: open_os where
  "calm_open = \<lparr>file_capable = True, first_open = Opened, exclusive_open = OpenFailed, second_open = OpenFailed,
     file_fstat = Some \<lparr>st_kind = Regular, st_perms = 0x180, st_uid = 1000, st_nlink = 1\<rparr>, file_fchmod = True,
     file_fstat_after = Some \<lparr>st_kind = Regular, st_perms = 0x180, st_uid = 1000, st_nlink = 1\<rparr>\<rparr>"

lemma calm_open_secured:
  "file_capable calm_open" "opens calm_open create" "secured (Some 1000) calm_open"
  by (simp_all add: calm_open_def opens_def secured_def is_safe_endpoint_cache_file_def
      is_owned_by_current_user_def ENDPOINT_CACHE_FILE_MODE_def)

lemma home_user [simp]: "current_user home_os = Some 1000"
  by (simp add: home_os_def)

text \<open>The name of a file in the directory, \<open>None\<close> where the path has none.\<close>

definition cache_file_name :: "string \<Rightarrow> string option" where
  "cache_file_name name = (if name = [] \<or> name \<in> {''.'', ''..''} then None else Some name)"

text \<open>\<open>os.stat\<close> of a name, without following a link: the file, a missing file or an
  error.\<close>

datatype lstat = Stat file_stat | Missing | StatError

definition cache_file_is_safe_or_missing :: "int option \<Rightarrow> lstat \<Rightarrow> bool" where
  "cache_file_is_safe_or_missing user s =
    (case s of Missing \<Rightarrow> True | StatError \<Rightarrow> False | Stat st \<Rightarrow> is_safe_endpoint_cache_file user st)"

text \<open>
  The text of the file: JSON, text that is not JSON, text that is not UTF-8, or an
  error on reading. \<open>json.load\<close> on bytes that are not UTF-8 raises
  \<open>UnicodeDecodeError\<close>, which is a \<open>ValueError\<close> but neither an
  \<open>OSError\<close> nor a \<open>JSONDecodeError\<close>, so that the handler lets it through.
\<close>

datatype file_text = Json json | NotJson | NotUtf8 | ReadError

type_synonym cache = "(string \<times> json) list"

definition empty_endpoint_cache :: cache where
  "empty_endpoint_cache = [(''version'', JInt ENDPOINT_CACHE_VERSION), (''endpoints'', JObj [])]"

text \<open>\<open>data.get("version") != ENDPOINT_CACHE_VERSION\<close>: the numbers 1, 1.0 and the
  boolean true are equal in Python.\<close>

fun is_version :: "json \<Rightarrow> bool" where
  "is_version (JInt i) = (i = ENDPOINT_CACHE_VERSION)"
| "is_version (JBool b) = ((if b then 1 else 0) = ENDPOINT_CACHE_VERSION)"
| "is_version (JFloat r) = (r = of_int ENDPOINT_CACHE_VERSION)"
| "is_version _ = False"

fun is_obj :: "json \<Rightarrow> bool" where
  "is_obj (JObj _) = True"
| "is_obj _ = False"

fun accept_cache :: "json \<Rightarrow> cache" where
  "accept_cache (JObj data) =
    (if \<not> is_version (json_get data ''version'') then empty_endpoint_cache
     else if is_obj (json_get data ''endpoints'') then data
     else AList.update ''endpoints'' (JObj []) data)"
| "accept_cache _ = empty_endpoint_cache"

record read_os =
  read_name :: string
  read_open :: open_os
  stat_first :: lstat
  stat_second :: lstat
  text_of :: file_text

definition read_endpoint_cache :: "int option \<Rightarrow> read_os \<Rightarrow> (cache \<times> bool) res" where
  "read_endpoint_cache user os =
    (if cache_file_name (read_name os) = None then Inr (empty_endpoint_cache, False)
     else if \<not> snd (open_endpoint_cache_file user (read_open os) False 0) then
       Inr (empty_endpoint_cache,
         cache_file_is_safe_or_missing user (stat_first os) \<and> stat_second os = Missing)
     else (case text_of os of
       NotUtf8 \<Rightarrow> Inl ValueError
     | Json data \<Rightarrow> Inr (accept_cache data, True)
     | _ \<Rightarrow> Inr (empty_endpoint_cache, True)))"

definition load_endpoint_cache ::
  "dir_os \<Rightarrow> string list \<Rightarrow> read_os \<Rightarrow> cache res" where
  "load_endpoint_cache dos path_parts os =
    (if \<not> dir_capable dos then Inr empty_endpoint_cache
     else (case snd (open_endpoint_cache_dir dos path_parts) of
       None \<Rightarrow> Inr empty_endpoint_cache
     | Some _ \<Rightarrow> bind_res (read_endpoint_cache (current_user dos) os)
         (\<lambda>(data, safe). Inr (if safe then data else empty_endpoint_cache))))"

section \<open>The lock\<close>

record lock_os =
  lock_dir :: dir_os
  lock_parts :: "string list"
  lock_path_name :: string
  lock_open :: open_os
  flock_ok :: bool

text \<open>Taking the lock: what is opened and closed, and whether the block runs with the
  directory's descriptor. The lock file's descriptor is numbered after those of the walk.\<close>

definition endpoint_cache_write_lock :: "lock_os \<Rightarrow> fd_event list \<times> nat option" where
  "endpoint_cache_write_lock os =
    (let (evs, dir) = open_endpoint_cache_dir (lock_dir os) (lock_parts os);
         lock_name = cache_file_name (lock_path_name os @ ''.lock'');
         lock_fd = length (lock_parts os) + 1 in
     if dir = None \<or> lock_name = None then (evs, None)
     else let (evs', locked) = open_endpoint_cache_file (current_user (lock_dir os)) (lock_open os) True lock_fd in
       if \<not> locked then (evs @ evs' @ [FdClose (the dir)], None)
       else if \<not> flock_ok os then (evs @ evs' @ [FdClose lock_fd, FdClose (the dir)], None)
       else (evs @ evs', dir))"

definition release_endpoint_cache_lock :: "lock_os \<Rightarrow> nat \<Rightarrow> fd_event list" where
  "release_endpoint_cache_lock os dir = [FdClose (length (lock_parts os) + 1), FdClose dir]"

lemma open_file_fds:
  "open_endpoint_cache_file user os create fd = (evs, r) \<Longrightarrow> fd \<notin> fds \<Longrightarrow>
    fds_after fds evs = (if r then insert fd fds else fds)"
  by (auto simp: open_endpoint_cache_file_def split: if_splits)

lemma open_dir_fds:
  "open_endpoint_cache_dir os path_parts = (evs, r) \<Longrightarrow>
    fds_after {} evs = (case r of None \<Rightarrow> {} | Some fd \<Rightarrow> {fd}) \<and> (\<forall>fd. r = Some fd \<longrightarrow> fd = length path_parts)"
  by (auto simp: open_endpoint_cache_dir_def split: if_splits prod.splits dest: walk_parts_fds)

lemma lock_name_usable: "cache_file_name (name @ ''.lock'') \<noteq> None"
  by (cases name rule: rev_cases) (auto simp: cache_file_name_def)

text \<open>The lock of the endpoint cache leaks no descriptor. While it is held exactly the
  directory and the lock file are open, and releasing it closes both; when it is not obtained
  nothing stays open.\<close>

theorem endpoint_cache_lock_fds:
  assumes "endpoint_cache_write_lock os = (evs, r)"
  shows "(r = None \<longrightarrow> fds_after {} evs = {}) \<and>
    (\<forall>dir. r = Some dir \<longrightarrow> card (fds_after {} evs) = 2 \<and> dir \<in> fds_after {} evs \<and>
      fds_after {} (evs @ release_endpoint_cache_lock os dir) = {})"
proof -
  let ?lock = "length (lock_parts os) + 1"
  obtain devs dir where d: "open_endpoint_cache_dir (lock_dir os) (lock_parts os) = (devs, dir)"
    by fastforce
  obtain fevs locked where f: "open_endpoint_cache_file (current_user (lock_dir os)) (lock_open os) True ?lock = (fevs, locked)"
    by fastforce
  show ?thesis
  proof (cases dir)
    case None
    then show ?thesis
      using assms d open_dir_fds [OF d] by (simp add: endpoint_cache_write_lock_def)
  next
    case (Some fd)
    then have fd: "fds_after {} devs = {fd}" "fd = length (lock_parts os)"
      using open_dir_fds [OF d] by simp_all
    then have "fds_after {fd} fevs = (if locked then {?lock, fd} else {fd})"
      using open_file_fds [OF f, of "{fd}"] by simp
    then show ?thesis
      using assms d f Some fd lock_name_usable [of "lock_path_name os"]
      by (auto simp: endpoint_cache_write_lock_def release_endpoint_cache_lock_def split: if_splits)
  qed
qed

theorem endpoint_cache_lock_fds_witness:
  "\<exists>evs. endpoint_cache_write_lock \<lparr>lock_dir = home_os, lock_parts = [''home'', ''user'', ''.cache''],
      lock_path_name = ''dc.json'', lock_open = calm_open, flock_ok = True\<rparr> = (evs, Some 3) \<and>
    fds_after {} evs = {3, 4}"
proof -
  let ?os = "\<lparr>lock_dir = home_os, lock_parts = [''home'', ''user'', ''.cache''],
      lock_path_name = ''dc.json'', lock_open = calm_open, flock_ok = True\<rparr>"
  let ?evs = "[FdOpen 0, FdOpen 1, FdClose 0, FdOpen 2, FdClose 1, FdOpen 3, FdClose 2, FdOpen 4]"
  have run: "endpoint_cache_write_lock ?os = (?evs, Some 3)"
    using home_walk lock_name_usable [of "''dc.json''"] calm_open_secured
    by (simp add: endpoint_cache_write_lock_def open_endpoint_cache_file_def home_user)
  have "card (fds_after {} ?evs) = 2"
    using endpoint_cache_lock_fds [OF run] by blast
  then show ?thesis
    using run by (auto simp: insert_Diff_if)
qed


section \<open>Updating the cache\<close>

text \<open>
  What the directory holds of the cache: the text of the cache file (\<open>None\<close> when there is
  none) and whether a temporary file is left behind.
\<close>

record cache_files =
  cache_file :: "json option"
  temp_left :: bool

text \<open>
  The outcomes of the calls of one update: the lock, the two checks of the name, the attempts
  of making the temporary file, writing it, putting it in place, and removing it. A failing
  \<open>os.replace\<close> leaves both names as they were.
\<close>

datatype temp_outcome = TempExists | TempFailed | TempUnsafe | TempMade

record update_os =
  write_capable :: bool
  lock_side :: lock_os
  read_side :: read_os
  name_before :: lstat
  temp_attempt :: "nat \<Rightarrow> temp_outcome"
  temp_unlink :: bool
  write_ok :: bool
  name_again :: lstat
  replace_ok :: bool
  final_unlink :: bool

definition lock_held :: "update_os \<Rightarrow> bool" where
  "lock_held os = (snd (endpoint_cache_write_lock (lock_side os)) \<noteq> None)"

text \<open>Ten attempts at a fresh name; an unsafe file is removed again. The result says whether
  the file was made, and whether one is left although it was not.\<close>

fun create_temp_loop :: "update_os \<Rightarrow> nat \<Rightarrow> nat \<Rightarrow> bool \<times> bool" where
  "create_temp_loop os i 0 = (False, False)"
| "create_temp_loop os i (Suc k) = (case temp_attempt os i of
     TempExists \<Rightarrow> create_temp_loop os (i + 1) k
   | TempFailed \<Rightarrow> (False, False)
   | TempUnsafe \<Rightarrow> (False, \<not> temp_unlink os)
   | TempMade \<Rightarrow> (True, False))"

definition create_endpoint_cache_temp :: "update_os \<Rightarrow> bool \<times> bool" where
  "create_endpoint_cache_temp os = create_temp_loop os 0 10"

definition endpoints_of :: "cache \<Rightarrow> (string \<times> json) list" where
  "endpoints_of data = (case map_of data ''endpoints'' of Some (JObj eps) \<Rightarrow> eps | _ \<Rightarrow> [])"

definition cache_entry :: "endpoint \<Rightarrow> rat \<Rightarrow> json" where
  "cache_entry ep now = JObj [(''server_address'', JStr (fst ep)), (''port'', JInt (snd ep)), (''updated_at'', JFloat now)]"

definition put_endpoint :: "cache \<Rightarrow> string \<Rightarrow> endpoint \<Rightarrow> rat \<Rightarrow> cache" where
  "put_endpoint data key ep now =
    AList.update ''endpoints'' (JObj (AList.update key (cache_entry ep now) (endpoints_of data))) data"

definition update_endpoint_cache ::
  "int option \<Rightarrow> update_os \<Rightarrow> string option \<Rightarrow> endpoint \<Rightarrow> rat \<Rightarrow> cache_files \<Rightarrow> cache_files res" where
  "update_endpoint_cache user os cache_key ep now fs =
    (if \<not> truthy cache_key \<or> \<not> write_capable os then Inr fs
     else if \<not> lock_held os then Inr fs
     else bind_res (read_endpoint_cache user (read_side os)) (\<lambda>(data, safe).
       if \<not> safe then Inr fs
       else let data = put_endpoint data (the cache_key) ep now in
         if \<not> cache_file_is_safe_or_missing user (name_before os) then Inr fs
         else (case create_endpoint_cache_temp os of
           (False, left) \<Rightarrow> Inr (fs\<lparr>temp_left := temp_left fs \<or> left\<rparr>)
         | (True, _) \<Rightarrow>
             if write_ok os \<and> cache_file_is_safe_or_missing user (name_again os) \<and> replace_ok os
             then Inr (fs\<lparr>cache_file := Some (JObj data)\<rparr>)
             else Inr (fs\<lparr>temp_left := temp_left fs \<or> \<not> final_unlink os\<rparr>))))"

lemma endpoints_of_put [simp]:
  "map_of (endpoints_of (put_endpoint data key ep now)) =
    (map_of (endpoints_of data))(key \<mapsto> cache_entry ep now)"
  unfolding put_endpoint_def endpoints_of_def [of "AList.update _ _ _"] by (simp add: update_conv')

lemma put_endpoint_other:
  "k \<noteq> ''endpoints'' \<Longrightarrow> map_of (put_endpoint data key ep now) k = map_of data k"
  by (simp add: put_endpoint_def update_conv')

lemma accept_put:
  assumes "accept_cache j = data"
  shows "accept_cache (JObj (put_endpoint data key ep now)) = put_endpoint data key ep now"
proof -
  have "is_version (json_get data ''version'')"
    using assms by (cases j)
      (auto simp: empty_endpoint_cache_def ENDPOINT_CACHE_VERSION_def update_conv' split: if_splits)
  moreover have "json_get (put_endpoint data key ep now) ''version'' = json_get data ''version''"
    by (simp add: put_endpoint_other)
  ultimately show ?thesis
    by (simp add: put_endpoint_def update_conv')
qed

lemma accept_empty [simp]: "accept_cache (JObj empty_endpoint_cache) = empty_endpoint_cache"
  by (simp add: empty_endpoint_cache_def ENDPOINT_CACHE_VERSION_def)

lemma accept_accept: "accept_cache (JObj (accept_cache j)) = accept_cache j"
  by (cases j) (auto simp: update_conv' empty_endpoint_cache_def ENDPOINT_CACHE_VERSION_def)

declare accept_cache.simps [simp del]

lemma create_temp_left:
  "create_temp_loop os i k = (made, left) \<Longrightarrow> temp_unlink os \<Longrightarrow> \<not> left"
  by (induction os i k rule: create_temp_loop.induct) (auto split: temp_outcome.splits)

lemma read_endpoint_cache_accepted:
  "read_endpoint_cache user os = Inr (data, safe) \<Longrightarrow> accept_cache (JObj data) = data"
  by (auto simp: read_endpoint_cache_def accept_accept split: if_splits file_text.splits)

lemma create_temp_loop_made:
  "fst (create_temp_loop os i k) \<longleftrightarrow>
    (\<exists>n < k. temp_attempt os (i + n) = TempMade \<and> (\<forall>j < n. temp_attempt os (i + j) = TempExists))"
proof (induction os i k rule: create_temp_loop.induct)
  case (2 os i k)
  have first: "(\<exists>n < Suc k. P n) \<longleftrightarrow> P 0 \<or> (\<exists>n < k. P (Suc n))" for P
    using less_Suc_eq_0_disj by auto
  have every: "(\<forall>j < Suc n. Q j) \<longleftrightarrow> Q 0 \<and> (\<forall>j < n. Q (Suc j))" for Q and n
    using less_Suc_eq_0_disj by auto
  show ?case
    unfolding first every using 2 by (cases "temp_attempt os i") simp_all
qed simp

text \<open>What has to go well for an update to reach the file: the conditions of the code, in the order in which it
  asks for them.\<close>

definition installs :: "int option \<Rightarrow> update_os \<Rightarrow> string \<Rightarrow> bool" where
  "installs user os key \<longleftrightarrow> key \<noteq> '''' \<and> write_capable os \<and> lock_held os \<and>
    (\<exists>old. read_endpoint_cache user (read_side os) = Inr (old, True)) \<and>
    cache_file_is_safe_or_missing user (name_before os) \<and>
    (\<exists>n < 10. temp_attempt os n = TempMade \<and> (\<forall>j < n. temp_attempt os j = TempExists)) \<and>
    write_ok os \<and> cache_file_is_safe_or_missing user (name_again os) \<and> replace_ok os"

text \<open>C39: An update of the endpoint cache is all or nothing. It changes the cache file exactly when there is a key,
  the lock is held, the old cache was read safely, the name of the file is safe both before and after the new text is written,
  one of ten attempts makes a temporary file, all before it having met an existing name, and the text is written and put in place. Then the
  file holds the data that was read with the one entry replaced and every other entry as it
  was; that text reads back, and a client that looks up the key then gets the endpoint, if it is
  among its candidates. Otherwise the file keeps its text. Without the lock nothing changes at all, and no temporary file stays behind
  when removing it works.\<close>

theorem update_endpoint_cache_atomic:
  assumes "update_endpoint_cache user os (Some key) ep now fs = Inr fs'"
  shows "(installs user os key \<longrightarrow>
      (\<exists>old data. read_endpoint_cache user (read_side os) = Inr (old, True) \<and>
        cache_file fs' = Some (JObj data) \<and> accept_cache (JObj data) = data \<and>
        (\<forall>k. k \<noteq> key \<longrightarrow> map_of (endpoints_of data) k = map_of (endpoints_of old) k) \<and>
        (\<forall>eps. ep \<in> set eps \<longrightarrow> cached_dc_endpoint (Inr data) (Some key) eps = Inr (Some ep)))) \<and>
    (\<not> installs user os key \<longrightarrow> cache_file fs' = cache_file fs) \<and>
    (\<not> lock_held os \<longrightarrow> fs' = fs) \<and>
    (temp_unlink os \<and> final_unlink os \<longrightarrow> temp_left fs' = temp_left fs)"
proof (cases "truthy (Some key) \<and> write_capable os \<and> lock_held os")
  case True
  then obtain old safe where rd: "read_endpoint_cache user (read_side os) = Inr (old, safe)"
    using assms by (auto simp: update_endpoint_cache_def res_simps)
  let ?data = "put_endpoint old key ep now"
  have acc: "accept_cache (JObj ?data) = ?data"
    using accept_put [OF read_endpoint_cache_accepted [OF rd]] .
  have hit: "cached_dc_endpoint (Inr ?data) (Some key) eps = Inr (Some ep)" if "ep \<in> set eps" for eps
    using True that endpoints_of_put [of old key ep now]
    by (simp add: cached_dc_endpoint_def cached_value_def put_endpoint_def update_conv' cache_entry_def)
  obtain made left where tmp: "create_temp_loop os 0 10 = (made, left)"
    by (cases "create_temp_loop os 0 10")
  have inst: "installs user os key \<longleftrightarrow> safe \<and> cache_file_is_safe_or_missing user (name_before os) \<and> made \<and>
      write_ok os \<and> cache_file_is_safe_or_missing user (name_again os) \<and> replace_ok os"
    using True rd tmp create_temp_loop_made [of os 0 10] by (simp add: installs_def)
  show ?thesis
    unfolding inst using assms True rd acc hit tmp create_temp_left [OF tmp]
    by (auto simp: update_endpoint_cache_def create_endpoint_cache_temp_def Let_def split: if_splits bool.splits)
next
  case False
  then have "fs' = fs"
    using assms unfolding update_endpoint_cache_def by (simp split: if_splits)
  then show ?thesis
    using False by (auto simp: installs_def)
qed

definition calm_update :: "file_text \<Rightarrow> update_os" where
  "calm_update txt = \<lparr>write_capable = True, 
     lock_side = \<lparr>lock_dir = home_os, lock_parts = [''home'', ''user'', ''.cache''], lock_path_name = ''dc.json'',
       lock_open = calm_open, flock_ok = True\<rparr>,
     read_side = \<lparr>read_name = ''dc.json'', read_open = calm_open, stat_first = Missing, stat_second = Missing, text_of = txt\<rparr>,
     name_before = Missing, temp_attempt = (\<lambda>i. if i < 2 then TempExists else TempMade), temp_unlink = True,
     write_ok = True, name_again = Missing, replace_ok = True, final_unlink = True\<rparr>"

lemma calm_lock [simp]: "lock_held (calm_update txt)"
  using home_walk lock_name_usable [of "''dc.json''"] calm_open_secured
  by (simp add: lock_held_def calm_update_def endpoint_cache_write_lock_def open_endpoint_cache_file_def)

lemma calm_reads [simp]:
  "read_endpoint_cache (Some 1000) (read_side (calm_update txt)) =
    (case txt of NotUtf8 \<Rightarrow> Inl ValueError | Json data \<Rightarrow> Inr (accept_cache data, True) | _ \<Rightarrow> Inr (empty_endpoint_cache, True))"
  by (simp add: read_endpoint_cache_def calm_update_def calm_open_secured open_endpoint_cache_file_def
      cache_file_name_def split: file_text.splits)

theorem update_endpoint_cache_atomic_witness:
  "\<exists>fs' data. update_endpoint_cache (Some 1000) (calm_update NotJson) (Some ''k'') (''a'', 443) 7 \<lparr>cache_file = None, temp_left = False\<rparr> = Inr fs' \<and>
     cache_file fs' = Some (JObj data) \<and> cached_dc_endpoint (Inr data) (Some ''k'') [(''b'', 443), (''a'', 443)] = Inr (Some (''a'', 443))"
proof -
  let ?fs = "\<lparr>cache_file = None, temp_left = False\<rparr>"
  let ?data = "put_endpoint empty_endpoint_cache ''k'' (''a'', 443) 7"
  have "create_endpoint_cache_temp (calm_update NotJson) = (True, False)"
    by (simp add: create_endpoint_cache_temp_def calm_update_def eval_nat_numeral)
  then have run: "update_endpoint_cache (Some 1000) (calm_update NotJson) (Some ''k'') (''a'', 443) 7 ?fs = Inr (?fs\<lparr>cache_file := Some (JObj ?data)\<rparr>)"
    by (simp add: update_endpoint_cache_def cache_file_is_safe_or_missing_def) (simp add: calm_update_def)
  show ?thesis
    using update_endpoint_cache_atomic [OF run] run by fastforce
qed

text \<open>A cache file whose bytes are not UTF-8 is not treated as an unreadable cache: the
  decoding error leaves the reader, so that ordering the endpoints of a data centre and updating
  the cache both raise. Every other text gives a cache.\<close>

theorem endpoint_cache_not_utf8:
  "read_endpoint_cache (Some 1000) (read_side (calm_update NotUtf8)) = Inl ValueError \<and>
   update_endpoint_cache (Some 1000) (calm_update NotUtf8) (Some ''k'') ep now fs = Inl ValueError \<and>
   order_dc_endpoints (load_endpoint_cache home_os [''home'', ''user'', ''.cache''] (read_side (calm_update NotUtf8))) probe
     [(''a'', 443), (''b'', 443)] False pref (Some ''k'') = Inl ValueError"
proof (intro conjI)
  show rd: "read_endpoint_cache (Some 1000) (read_side (calm_update NotUtf8)) = Inl ValueError"
    by simp
  show "update_endpoint_cache (Some 1000) (calm_update NotUtf8) (Some ''k'') ep now fs = Inl ValueError"
    using rd by (simp add: update_endpoint_cache_def) (simp add: calm_update_def)
  have "load_endpoint_cache home_os [''home'', ''user'', ''.cache''] (read_side (calm_update NotUtf8)) = Inl ValueError"
    using rd unfolding load_endpoint_cache_def home_walk by (simp add: home_os_def)
  then show "order_dc_endpoints (load_endpoint_cache home_os [''home'', ''user'', ''.cache''] (read_side (calm_update NotUtf8))) probe
     [(''a'', 443), (''b'', 443)] False pref (Some ''k'') = Inl ValueError"
    by (simp add: order_dc_endpoints_def cached_dc_endpoint_def)
qed

end
