(* ===== verification/Peers.thy ===== *)
theory Peers
  imports Prelude
begin

text \<open>
  Peer identifiers (utils/peers.py): the ranges in which the one integer by which the client
  knows a peer encodes a user, a basic group, a channel, a secret chat or a monoforum, and the
  conversions between that integer and the identifiers of the schema's peer objects.
\<close>

section \<open>Ranges\<close>

definition ZERO_SECRET_CHAT_ID :: int where "ZERO_SECRET_CHAT_ID = -2000000000000"
definition ZERO_CHANNEL_ID :: int where "ZERO_CHANNEL_ID = -1000000000000"
definition MAX_CHANNEL_ID :: int where "MAX_CHANNEL_ID = 1000000000000 - 2 ^ 31"
definition MIN_MONOFORUM_CHANNEL_ID :: int where "MIN_MONOFORUM_CHANNEL_ID = 1000000000000 + 2 ^ 31 + 1"
definition MAX_MONOFORUM_CHANNEL_ID :: int where "MAX_MONOFORUM_CHANNEL_ID = 3000000000000"
definition MAX_USER_ID :: int where "MAX_USER_ID = 2 ^ 40 - 1"
definition MAX_CHAT_ID :: int where "MAX_CHAT_ID = 999999999999"

lemmas peer_limits = ZERO_SECRET_CHAT_ID_def ZERO_CHANNEL_ID_def MAX_CHANNEL_ID_def
  MIN_MONOFORUM_CHANNEL_ID_def MAX_MONOFORUM_CHANNEL_ID_def MAX_USER_ID_def MAX_CHAT_ID_def


section \<open>Peer objects\<close>

text \<open>The constructors of the schema that carry an identifier, and the rest
  (\<open>InputPeerEmpty\<close>, \<open>InputPeerSelf\<close>), which carry none.\<close>

datatype peer =
    PeerUser int
  | InputPeerUser int int
  | InputPeerUserFromMessage int
  | RequestedPeerUser int
  | PeerChat int
  | InputPeerChat int
  | RequestedPeerChat int
  | PeerChannel int
  | InputPeerChannel int int
  | InputPeerChannelFromMessage int
  | RequestedPeerChannel int
  | PeerWithoutId

fun user_id_of :: "peer \<Rightarrow> int option" where
  "user_id_of (PeerUser i) = Some i"
| "user_id_of (InputPeerUser i _) = Some i"
| "user_id_of (InputPeerUserFromMessage i) = Some i"
| "user_id_of (RequestedPeerUser i) = Some i"
| "user_id_of _ = None"

fun chat_id_of :: "peer \<Rightarrow> int option" where
  "chat_id_of (PeerChat i) = Some i"
| "chat_id_of (InputPeerChat i) = Some i"
| "chat_id_of (RequestedPeerChat i) = Some i"
| "chat_id_of _ = None"

fun channel_id_of :: "peer \<Rightarrow> int option" where
  "channel_id_of (PeerChannel i) = Some i"
| "channel_id_of (InputPeerChannel i _) = Some i"
| "channel_id_of (InputPeerChannelFromMessage i) = Some i"
| "channel_id_of (RequestedPeerChannel i) = Some i"
| "channel_id_of _ = None"


section \<open>Conversions\<close>

text \<open>\<open>get_raw_peer_id\<close> takes an integer or an object.\<close>

fun get_raw_peer_id :: "int + peer \<Rightarrow> int option" where
  "get_raw_peer_id (Inl peer) =
    (if peer < 0 then
       (if - MAX_CHAT_ID \<le> peer then Some (- peer)
        else if ZERO_CHANNEL_ID - MAX_CHANNEL_ID \<le> peer \<and> peer \<noteq> ZERO_CHANNEL_ID then Some (ZERO_CHANNEL_ID - peer)
        else if ZERO_CHANNEL_ID - MAX_MONOFORUM_CHANNEL_ID \<le> peer then Some (ZERO_CHANNEL_ID - peer)
        else None)
     else if 0 < peer \<and> peer \<le> MAX_USER_ID then Some peer
     else None)"
| "get_raw_peer_id (Inr peer) =
    (case user_id_of peer of Some i \<Rightarrow> Some i | None \<Rightarrow>
       (case chat_id_of peer of Some i \<Rightarrow> Some i | None \<Rightarrow> channel_id_of peer))"

definition get_peer_id :: "peer \<Rightarrow> int res" where
  "get_peer_id peer =
    (case user_id_of peer of Some i \<Rightarrow> Inr i | None \<Rightarrow>
       (case chat_id_of peer of Some i \<Rightarrow> Inr (- i) | None \<Rightarrow>
          (case channel_id_of peer of Some i \<Rightarrow> Inr (ZERO_CHANNEL_ID - i) | None \<Rightarrow> Inl ValueError)))"

definition get_peer_type :: "int \<Rightarrow> string res" where
  "get_peer_type peer_id =
    (if peer_id < 0 then
       (if - MAX_CHAT_ID \<le> peer_id then Inr ''chat''
        else if ZERO_CHANNEL_ID - MAX_CHANNEL_ID \<le> peer_id \<and> peer_id \<noteq> ZERO_CHANNEL_ID then Inr ''channel''
        else if ZERO_SECRET_CHAT_ID + (- (2 ^ 31)) \<le> peer_id \<and> peer_id \<noteq> ZERO_SECRET_CHAT_ID then Inr ''secret_chat''
        else if ZERO_CHANNEL_ID - MAX_MONOFORUM_CHANNEL_ID \<le> peer_id then Inr ''monoforum''
        else Inl ValueError)
     else if 0 < peer_id \<and> peer_id \<le> MAX_USER_ID then Inr ''user''
     else Inl ValueError)"

definition get_channel_id :: "int \<Rightarrow> int" where
  "get_channel_id peer_id = ZERO_CHANNEL_ID - peer_id"


section \<open>The encoding is faithful\<close>

text \<open>Whether a peer carries an identifier the server can give it, and the kind it has.\<close>

definition peer_kind :: "peer \<Rightarrow> string option" where
  "peer_kind p =
    (case user_id_of p of Some i \<Rightarrow> if 0 < i \<and> i \<le> MAX_USER_ID then Some ''user'' else None
     | None \<Rightarrow> (case chat_id_of p of Some i \<Rightarrow> if 0 < i \<and> i \<le> MAX_CHAT_ID then Some ''chat'' else None
     | None \<Rightarrow> (case channel_id_of p of
         Some i \<Rightarrow> if 0 < i \<and> i \<le> MAX_CHANNEL_ID then Some ''channel''
           else if MIN_MONOFORUM_CHANNEL_ID \<le> i \<and> i \<le> MAX_MONOFORUM_CHANNEL_ID then Some ''monoforum''
           else None
       | None \<Rightarrow> None)))"

definition peer_number :: "peer \<Rightarrow> int option" where
  "peer_number p = get_raw_peer_id (Inr p)"

lemma peer_kind_cases:
  assumes "peer_kind p = Some k"
  obtains (user) i where "peer_number p = Some i" "k = ''user''" "get_peer_id p = Inr i" "0 < i" "i \<le> MAX_USER_ID"
    | (chat) i where "peer_number p = Some i" "k = ''chat''" "get_peer_id p = Inr (- i)" "0 < i" "i \<le> MAX_CHAT_ID"
    | (channel) i where "peer_number p = Some i" "k = ''channel''" "get_peer_id p = Inr (ZERO_CHANNEL_ID - i)"
        "0 < i" "i \<le> MAX_CHANNEL_ID"
    | (monoforum) i where "peer_number p = Some i" "k = ''monoforum''" "get_peer_id p = Inr (ZERO_CHANNEL_ID - i)"
        "MIN_MONOFORUM_CHANNEL_ID \<le> i" "i \<le> MAX_MONOFORUM_CHANNEL_ID"
  using assms
  by (cases p) (auto simp: peer_kind_def peer_number_def get_peer_id_def split: if_splits)

text \<open>The integer of a peer determines it: for a peer whose identifier is in the range of its
  kind, the integer names that kind and gives back the identifier, and two such peers with the
  same integer have the same kind and identifier.\<close>

theorem peer_id_faithful:
  assumes "peer_kind p = Some k" and "get_peer_id p = Inr i"
  shows "get_peer_type i = Inr k \<and> get_raw_peer_id (Inl i) = peer_number p \<and>
    (\<forall>q. peer_kind q \<noteq> None \<and> get_peer_id q = Inr i \<longrightarrow>
      peer_kind q = Some k \<and> peer_number q = peer_number p)"
proof -
  have enc: "get_peer_type j = Inr l \<and> get_raw_peer_id (Inl j) = peer_number r"
    if "peer_kind r = Some l" "get_peer_id r = Inr j" for r l j
    using that(1) that(2) by (cases rule: peer_kind_cases) (auto simp: get_peer_type_def peer_limits)
  show ?thesis
    using enc [OF assms] enc by (metis Inr_inject option.exhaust)
qed

theorem peer_id_faithful_witness:
  "get_peer_id (PeerChannel 1234567890) = Inr (- 1001234567890) \<and>
   get_peer_type (- 1001234567890) = Inr ''channel'' \<and> get_raw_peer_id (Inl (- 1001234567890)) = Some 1234567890"
  using peer_id_faithful [of "PeerChannel 1234567890" "''channel''" "- 1001234567890"]
  by (simp add: peer_kind_def get_peer_id_def peer_number_def peer_limits)

text \<open>The two bounds that no peer has are refused by neither function: the zero of the channels
  is called a secret chat and has the identifier 0.\<close>

lemma zero_channel_accepted:
  "get_peer_type ZERO_CHANNEL_ID = Inr ''secret_chat'' \<and> get_raw_peer_id (Inl ZERO_CHANNEL_ID) = Some 0"
  by (simp add: get_peer_type_def peer_limits)

end
