(* ===== verification/Storage.thy ===== *)
theory Storage
  imports Peers Base64 Dc_Options "HOL-Library.Option_ord"
begin

text \<open>
  The session storage (storage/storage.py, storage/sqlite\_storage.py): the session row and the
  session string, the peers and their user names, and the update states with the adapter between
  the two forms of their interface. A table is the list of its rows; an order of rows that SQL
  leaves open is the order of the list, about which no statement assumes anything. The clock is
  an argument.
\<close>

section \<open>The session row\<close>

text \<open>SQLite keeps a boolean as 0 or 1 and reads back the integer, hence \<open>int option\<close>.\<close>

record session_row =
  ses_dc_id :: "int option"
  ses_server_address :: "string option"
  ses_port :: "int option"
  ses_api_id :: "int option"
  ses_test_mode :: "int option"
  ses_auth_key :: "bytes option"
  ses_date :: int
  ses_user_id :: "int option"
  ses_is_bot :: "int option"

definition VERSION :: int where "VERSION = 7"
definition SESSION_STRING_SIZE :: nat where "SESSION_STRING_SIZE = 351"
definition SESSION_STRING_SIZE_64 :: nat where "SESSION_STRING_SIZE_64 = 356"

definition created_row :: session_row where
  "created_row = \<lparr>ses_dc_id = Some 2, ses_server_address = Some ''149.154.167.51'', ses_port = Some 443,
     ses_api_id = None, ses_test_mode = None, ses_auth_key = None, ses_date = 0,
     ses_user_id = None, ses_is_bot = None\<rparr>"

text \<open>The big-endian items of \<open>struct\<close>: an unsigned integer of \<open>n\<close> bytes, which
  must be there and fit; a \<open>bool\<close>, any value by its truth; and a string cut or padded with zeros to
  \<open>n\<close> bytes.\<close>

definition pack_uint :: "nat \<Rightarrow> int option \<Rightarrow> bytes res" where
  "pack_uint n v = (case v of
     None \<Rightarrow> Inl StructError
   | Some i \<Rightarrow> if 0 \<le> i \<and> i < 256 ^ n then Inr (be_bytes n i) else Inl StructError)"

definition pack_bool :: "int option \<Rightarrow> bytes" where
  "pack_bool v = [if v = None \<or> v = Some 0 then 0 else 1]"

definition pack_str :: "nat \<Rightarrow> bytes option \<Rightarrow> bytes res" where
  "pack_str n v = (case v of None \<Rightarrow> Inl StructError | Some s \<Rightarrow> Inr (take n s @ replicate (n - length s) 0))"

definition unpack_bool :: "bytes \<Rightarrow> int" where
  "unpack_bool bs = (if bs = [0] then 0 else 1)"

definition rstrip_pad :: "string \<Rightarrow> string" where
  "rstrip_pad s = rev (dropWhile (\<lambda>c. c = CHR ''='') (rev s))"

text \<open>\<open>SESSION_STRING_FORMAT = ">BI?256sQ?"\<close>\<close>

definition export_session_string :: "session_row \<Rightarrow> string res" where
  "export_session_string r =
    bind_res (pack_uint 1 (ses_dc_id r)) (\<lambda>dc.
    bind_res (pack_uint 4 (ses_api_id r)) (\<lambda>api.
    bind_res (pack_str 256 (ses_auth_key r)) (\<lambda>key.
    bind_res (pack_uint 8 (ses_user_id r)) (\<lambda>user.
      Inr (rstrip_pad (urlsafe_b64encode
        (dc @ api @ pack_bool (ses_test_mode r) @ key @ user @ pack_bool (ses_is_bot r))))))))"

text \<open>The fields of the three formats, cut out of the bytes when their number is right.\<close>

definition unpack_new :: "bytes \<Rightarrow> (int \<times> int \<times> int \<times> bytes \<times> int \<times> int) res" where
  "unpack_new bs =
    (if length bs \<noteq> 271 then Inl StructError
     else Inr (be_int (py_slice 0 1 bs), be_int (py_slice 1 5 bs), unpack_bool (py_slice 5 6 bs),
       py_slice 6 262 bs, be_int (py_slice 262 270 bs), unpack_bool (py_slice 270 271 bs)))"

definition unpack_old :: "nat \<Rightarrow> bytes \<Rightarrow> (int \<times> int \<times> bytes \<times> int \<times> int) res" where
  "unpack_old n bs =
    (if length bs \<noteq> 259 + n then Inl StructError
     else Inr (be_int (py_slice 0 1 bs), unpack_bool (py_slice 1 2 bs), py_slice 2 258 bs,
       be_int (py_slice 258 (258 + n) bs), unpack_bool (py_slice (258 + n) (259 + n) bs)))"

definition session_string_bytes :: "string \<Rightarrow> bytes res" where
  "session_string_bytes s = urlsafe_b64decode (s @ replicate (pad_to 4 (length s)) CHR ''='')"

text \<open>Opening a storage in memory, which fills the row from a session string.\<close>

definition open_in_memory :: "string option \<Rightarrow> session_row res" where
  "open_in_memory session_string =
    (if \<not> truthy session_string then Inr created_row
     else let s = the session_string in
       if length s \<in> {SESSION_STRING_SIZE, SESSION_STRING_SIZE_64} then
         bind_res (session_string_bytes s) (\<lambda>bs.
         bind_res (unpack_old (if length s = SESSION_STRING_SIZE then 4 else 8) bs)
           (\<lambda>(dc, test_mode, key, user, is_bot).
         bind_res (get_dc_endpoint dc (test_mode \<noteq> 0)) (\<lambda>(address, port).
           Inr (created_row\<lparr>ses_dc_id := Some dc, ses_server_address := Some address, ses_port := Some port,
             ses_test_mode := Some test_mode, ses_auth_key := Some key, ses_user_id := Some user,
             ses_is_bot := Some is_bot, ses_date := 0\<rparr>))))
       else
         bind_res (session_string_bytes s) (\<lambda>bs.
         bind_res (unpack_new bs) (\<lambda>(dc, api, test_mode, key, user, is_bot).
         bind_res (get_dc_endpoint dc (test_mode \<noteq> 0)) (\<lambda>(address, port).
           Inr (created_row\<lparr>ses_dc_id := Some dc, ses_server_address := Some address, ses_port := Some port,
             ses_api_id := Some api, ses_test_mode := Some test_mode, ses_auth_key := Some key,
             ses_user_id := Some user, ses_is_bot := Some is_bot, ses_date := 0\<rparr>)))))"

lemma length_b2a_eq: "length (b2a xs) = 4 * ((length xs + 2) div 3)"
proof (induction xs rule: b2a.induct)
  case (1 a b c r)
  have "(5 + length r) div 3 = Suc (Suc (Suc (length r)) div 3)"
    by simp
  with 1 show ?case by simp
qed simp_all

lemma rstrip_pad_b64 [simp]: "rstrip_pad (urlsafe_b64encode s) = b64_encode s"
proof -
  have lt: "n \<in> set (map unat s) \<Longrightarrow> n < 256" for n :: nat
    by auto
  from b2a_pad_form [OF lt] obtain ds k where f: "b2a (map unat s) = ds @ replicate k CHR ''=''"
      "list_all b64_digit ds" by blast
  have nd: "d \<in> set ds \<Longrightarrow> d \<noteq> CHR ''=''" for d using f(2) b64_digit_ascii by (auto simp: list_all_iff)
  then have "rstrip_pad (urlsafe_b64encode s) = ds"
    using nd by (cases ds rule: rev_cases) (auto simp: rstrip_pad_def urlsafe_b64encode_def f dropWhile_append)
  then show ?thesis
    using nd by (simp add: b64_encode_def urlsafe_b64encode_def f strip_pad_form)
qed

lemma session_string_length:
  assumes "length bs = 271"
  shows "length (b64_encode bs) \<notin> {SESSION_STRING_SIZE, SESSION_STRING_SIZE_64} \<and> b64_encode bs \<noteq> []"
proof -
  have "length (b64_encode bs) + pad_to 4 (length (b64_encode bs)) = 364"
    using arg_cong [OF b64_repad [of bs], of length] assms by (simp add: urlsafe_b64encode_def length_b2a_eq)
  moreover have "pad_to 4 (length (b64_encode bs)) < 4"
    by (rule pad_to_less) simp
  ultimately show ?thesis
    by (auto simp: SESSION_STRING_SIZE_def SESSION_STRING_SIZE_64_def)
qed

text \<open>What a session must be for its string to open again: numbers in the range of their fields,
  a key of 256 bytes and a data centre of the table. The address and port are those of the table:
  the string does not carry them.\<close>

definition exportable :: "session_row \<Rightarrow> int \<Rightarrow> int \<Rightarrow> bytes \<Rightarrow> int \<Rightarrow> bool" where
  "exportable r dc api key user =
    (ses_dc_id r = Some dc \<and> ses_api_id r = Some api \<and> ses_auth_key r = Some key \<and> ses_user_id r = Some user \<and>
     0 \<le> dc \<and> dc < 256 \<and> 0 \<le> api \<and> api < 256 ^ 4 \<and> length key = 256 \<and> 0 \<le> user \<and> user < 256 ^ 8)"

definition as_bool :: "int option \<Rightarrow> int" where
  "as_bool v = (if v = None \<or> v = Some 0 then 0 else 1)"

lemma unpack_bool_pack [simp]: "unpack_bool (pack_bool v) = as_bool v"
  by (simp add: unpack_bool_def pack_bool_def as_bool_def)

lemma length_pack_bool [simp]: "length (pack_bool v) = 1"
  by (simp add: pack_bool_def)

lemma py_slice_skip: "length a \<le> i \<Longrightarrow> i \<le> j \<Longrightarrow> py_slice i j (a @ b) = py_slice (i - length a) (j - length a) b"
  by (simp add: py_slice_def)

lemma py_slice_whole: "length a = j \<Longrightarrow> py_slice 0 j (a @ b) = a"
  by (simp add: py_slice_def)

lemma unpack_new_pack:
  assumes "length dc = 1" "length api = 4" "length key = 256" "length user = 8"
  shows "unpack_new (dc @ api @ pack_bool t @ key @ user @ pack_bool b) =
    Inr (be_int dc, be_int api, as_bool t, key, be_int user, as_bool b)"
proof -
  have "py_slice 270 271 (dc @ api @ pack_bool t @ key @ user @ pack_bool b) = pack_bool b"
    using assms by (simp add: py_slice_skip) (simp add: py_slice_def)
  then show ?thesis
    using assms by (simp add: unpack_new_def py_slice_skip py_slice_whole)
qed

text \<open>C13: A session string opens as the session it was exported from: data centre,
  application, user, key and the two flags come back, the address and the port are those
  of the built-in table, and the string is never taken for one of the old formats.\<close>

theorem session_string_roundtrip:
  assumes "exportable r dc api key user"
    and "get_dc_endpoint dc (as_bool (ses_test_mode r) \<noteq> 0) = Inr (address, port)"
  shows "\<exists>s. export_session_string r = Inr s \<and>
    open_in_memory (Some s) = Inr \<lparr>ses_dc_id = Some dc, ses_server_address = Some address, ses_port = Some port,
      ses_api_id = Some api, ses_test_mode = Some (as_bool (ses_test_mode r)), ses_auth_key = Some key,
      ses_date = 0, ses_user_id = Some user, ses_is_bot = Some (as_bool (ses_is_bot r))\<rparr>"
proof -
  let ?bs = "be_bytes 1 dc @ be_bytes 4 api @ pack_bool (ses_test_mode r) @ key @ be_bytes 8 user @ pack_bool (ses_is_bot r)"
  have ex: "export_session_string r = Inr (b64_encode ?bs)"
    using assms(1) by (simp add: export_session_string_def exportable_def pack_uint_def pack_str_def)
  have len: "length ?bs = 271"
    using assms(1) by (simp add: exportable_def)
  have "session_string_bytes (b64_encode ?bs) = Inr ?bs"
    unfolding session_string_bytes_def b64_repad by (rule urlsafe_b64decode_encode)
  moreover have "unpack_new ?bs = Inr (dc, api, as_bool (ses_test_mode r), key, user, as_bool (ses_is_bot r))"
    using assms(1) unpack_new_pack [of "be_bytes 1 dc" "be_bytes 4 api" key "be_bytes 8 user"]
    by (simp add: exportable_def be_int_be_bytes)
  ultimately have "open_in_memory (Some (b64_encode ?bs)) = Inr \<lparr>ses_dc_id = Some dc, ses_server_address = Some address,
      ses_port = Some port, ses_api_id = Some api, ses_test_mode = Some (as_bool (ses_test_mode r)), ses_auth_key = Some key,
      ses_date = 0, ses_user_id = Some user, ses_is_bot = Some (as_bool (ses_is_bot r))\<rparr>"
    using session_string_length [OF len] assms(2) by (simp add: open_in_memory_def Let_def created_row_def)
  with ex show ?thesis
    by blast
qed

definition sample_row :: session_row where
  "sample_row = created_row\<lparr>ses_api_id := Some 12345, ses_test_mode := Some 0, ses_auth_key := Some (replicate 256 7),
     ses_user_id := Some 777000, ses_is_bot := Some 1\<rparr>"

theorem session_string_roundtrip_witness:
  "\<exists>s r. export_session_string sample_row = Inr s \<and> open_in_memory (Some s) = Inr r \<and> ses_user_id r = Some 777000"
  using session_string_roundtrip [of sample_row 2 12345 "replicate 256 7" 777000 "''149.154.167.51''" 443]
  by (fastforce simp: exportable_def sample_row_def created_row_def as_bool_def get_dc_endpoint_def PROD_table_def)


section \<open>Peers\<close>

definition get_input_peer :: "int \<Rightarrow> int \<Rightarrow> string \<Rightarrow> peer res" where
  "get_input_peer peer_id access_hash peer_type =
    (if peer_type \<in> {''user'', ''bot''} then Inr (InputPeerUser peer_id access_hash)
     else if peer_type = ''group'' then Inr (InputPeerChat (- peer_id))
     else if peer_type \<in> {''direct'', ''channel'', ''forum'', ''supergroup'', ''community''}
       then Inr (InputPeerChannel (get_channel_id peer_id) access_hash)
     else Inl ValueError)"

record peer_row =
  p_id :: int
  p_access_hash :: int
  p_type :: string
  p_phone_number :: "string option"
  p_last_update_on :: int

type_synonym peer_tuple = "int \<times> int \<times> string \<times> string option"

definition replace_peer :: "int \<Rightarrow> peer_tuple \<Rightarrow> peer_row list \<Rightarrow> peer_row list" where
  "replace_peer now t rows = (case t of (i, h, ty, ph) \<Rightarrow>
     filter (\<lambda>r. p_id r \<noteq> i) rows @
     [\<lparr>p_id = i, p_access_hash = h, p_type = ty, p_phone_number = ph, p_last_update_on = now\<rparr>])"

definition update_peers :: "int \<Rightarrow> peer_tuple list \<Rightarrow> peer_row list \<Rightarrow> peer_row list" where
  "update_peers now peers rows = fold (replace_peer now) peers rows"

text \<open>The key of the \<open>KeyError\<close> is a text that names what was looked for; the model keeps
  the identifier, and 0 for a user name or a telephone number.\<close>

definition get_peer_by_id :: "int \<Rightarrow> peer_row list \<Rightarrow> peer res" where
  "get_peer_by_id peer_id rows =
    (case find (\<lambda>r. p_id r = peer_id) rows of
       None \<Rightarrow> Inl (KeyError peer_id)
     | Some r \<Rightarrow> get_input_peer (p_id r) (p_access_hash r) (p_type r))"

definition get_peer_by_phone_number :: "string \<Rightarrow> peer_row list \<Rightarrow> peer res" where
  "get_peer_by_phone_number phone rows =
    (case find (\<lambda>r. p_phone_number r = Some phone) rows of
       None \<Rightarrow> Inl (KeyError 0)
     | Some r \<Rightarrow> get_input_peer (p_id r) (p_access_hash r) (p_type r))"

definition USERNAME_TTL :: int where "USERNAME_TTL = 8 * 60 * 60"

definition update_usernames :: "(int \<times> string option list) list \<Rightarrow> (int \<times> string) list \<Rightarrow> (int \<times> string) list" where
  "update_usernames usernames rows =
    (if usernames = [] then rows
     else filter (\<lambda>(i, _). i \<notin> fst ` set usernames) rows @
       concat (map (\<lambda>(i, names). map (\<lambda>n. (i, the n)) (filter (\<lambda>n. n \<noteq> None) names)) usernames))"

text \<open>\<open>SELECT ... JOIN usernames u ON p.id = u.id WHERE u.username = ? ORDER BY
  p.last_update_on DESC\<close>, of which the first row is taken. \<open>now\<close> is the clock in seconds.\<close>

definition username_rows :: "string \<Rightarrow> peer_row list \<Rightarrow> (int \<times> string) list \<Rightarrow> peer_row list" where
  "username_rows username peers names =
    rev (sort_key p_last_update_on (concat (map (\<lambda>p. map (\<lambda>_. p) (filter (\<lambda>u. u = (p_id p, username)) names)) peers)))"

definition get_peer_by_username :: "rat \<Rightarrow> string \<Rightarrow> peer_row list \<Rightarrow> (int \<times> string) list \<Rightarrow> peer res" where
  "get_peer_by_username now username peers names =
    (case username_rows username peers names of
       [] \<Rightarrow> Inl (KeyError 0)
     | r # _ \<Rightarrow>
         if \<bar>now - of_int (p_last_update_on r)\<bar> > of_int USERNAME_TTL then Inl (KeyError 0)
         else get_input_peer (p_id r) (p_access_hash r) (p_type r))"

definition peer_table :: "peer_row list \<Rightarrow> bool" where
  "peer_table rows = distinct (map p_id rows)"

definition peer_of :: "peer_row list \<Rightarrow> int \<Rightarrow> peer_row option" where
  "peer_of rows i = find (\<lambda>r. p_id r = i) rows"

lemma find_append: "find P (xs @ ys) = (case find P xs of None \<Rightarrow> find P ys | Some x \<Rightarrow> Some x)"
  by (induction xs) auto

lemma find_filter_imp: "(\<And>x. P x \<Longrightarrow> Q x) \<Longrightarrow> find P (filter Q xs) = find P xs"
  by (induction xs) auto

lemma peer_of_replace:
  "peer_of (replace_peer now (i, h, ty, ph) rows) = (peer_of rows)
     (i \<mapsto> \<lparr>p_id = i, p_access_hash = h, p_type = ty, p_phone_number = ph, p_last_update_on = now\<rparr>)"
proof (rule ext)
  fix j
  have "find (\<lambda>r. p_id r = i) (filter (\<lambda>r. p_id r \<noteq> i) rows) = None"
    by (simp add: find_None_iff)
  moreover have "j \<noteq> i \<Longrightarrow> find (\<lambda>r. p_id r = j) (filter (\<lambda>r. p_id r \<noteq> i) rows) = find (\<lambda>r. p_id r = j) rows"
    by (rule find_filter_imp) simp
  ultimately show "peer_of (replace_peer now (i, h, ty, ph) rows) j = ((peer_of rows)
     (i \<mapsto> \<lparr>p_id = i, p_access_hash = h, p_type = ty, p_phone_number = ph, p_last_update_on = now\<rparr>)) j"
    by (auto simp: peer_of_def replace_peer_def find_append split: option.split)
qed

lemma peer_table_replace: "peer_table rows \<Longrightarrow> peer_table (replace_peer now t rows)"
  by (auto simp: peer_table_def replace_peer_def distinct_map_filter split: prod.splits)

definition row_of :: "int \<Rightarrow> peer_tuple \<Rightarrow> peer_row" where
  "row_of now = (\<lambda>(i, h, ty, ph). \<lparr>p_id = i, p_access_hash = h, p_type = ty, p_phone_number = ph, p_last_update_on = now\<rparr>)"

lemma peer_of_update:
  "peer_of (update_peers now peers rows) = peer_of rows ++ map_of (rev (map (\<lambda>t. (fst t, row_of now t)) peers))"
proof (induction peers arbitrary: rows)
  case (Cons t peers)
  obtain i h ty ph where t: "t = (i, h, ty, ph)"
    by (cases t)
  show ?case
    using Cons.IH [of "replace_peer now t rows"]
    by (simp add: update_peers_def t peer_of_replace row_of_def map_add_def fun_eq_iff split: option.splits)
qed (simp add: update_peers_def)

lemma peer_table_update: "peer_table rows \<Longrightarrow> peer_table (update_peers now peers rows)"
  unfolding update_peers_def by (induction peers arbitrary: rows) (auto simp: peer_table_replace)

text \<open>The peers table is a map from identifiers to the last tuple stored for them. Storing
  keeps one row per identifier; looking up an identifier of the stored tuples gives the input
  peer of its last tuple, and the rows of all others are as before.\<close>

theorem peers_last_write_wins:
  assumes "peer_table rows"
  shows "peer_table (update_peers now peers rows) \<and>
    (\<forall>i h ty ph. map_of (rev peers) i = Some (h, ty, ph) \<longrightarrow>
      get_peer_by_id i (update_peers now peers rows) = get_input_peer i h ty) \<and>
    (\<forall>i. i \<notin> fst ` set peers \<longrightarrow> get_peer_by_id i (update_peers now peers rows) = get_peer_by_id i rows)"
proof (intro conjI allI impI)
  show "peer_table (update_peers now peers rows)"
    by (rule peer_table_update [OF assms])
  have get: "get_peer_by_id i rs = (case peer_of rs i of None \<Rightarrow> Inl (KeyError i)
      | Some r \<Rightarrow> get_input_peer (p_id r) (p_access_hash r) (p_type r))" for i rs
    by (simp add: get_peer_by_id_def peer_of_def)
  have mo: "map_of (map (\<lambda>t. (fst t, row_of now t)) ps) i = map_option (\<lambda>v. row_of now (i, v)) (map_of ps i)" for ps i
    by (induction ps) auto
  show "get_peer_by_id i (update_peers now peers rows) = get_input_peer i h ty"
    if "map_of (rev peers) i = Some (h, ty, ph)" for i h ty ph
    using mo [of "rev peers" i] that by (simp add: get peer_of_update rev_map row_of_def)
  show "get_peer_by_id i (update_peers now peers rows) = get_peer_by_id i rows" if "i \<notin> fst ` set peers" for i
  proof -
    have "map_of (rev peers) i = None"
      using that by (simp add: map_of_eq_None_iff)
    then show ?thesis
      using mo [of "rev peers" i] by (simp add: get peer_of_update rev_map map_add_def)
  qed
qed

theorem peers_last_write_wins_witness:
  "get_peer_by_id 7 (update_peers 0 [(7, 1, ''user'', None), (-5, 0, ''group'', None), (7, 2, ''bot'', None)] []) =
     Inr (InputPeerUser 7 2)"
  using peers_last_write_wins [of "[]" 0 "[(7, 1, ''user'', None), (-5, 0, ''group'', None), (7, 2, ''bot'', None)]"]
  by (simp add: peer_table_def get_input_peer_def)

lemma set_username_rows:
  "set (username_rows username peers names) = {p \<in> set peers. (p_id p, username) \<in> set names}"
  by (auto simp: username_rows_def)

lemma hd_username_rows:
  assumes "username_rows username peers names = r # rest" and "q \<in> set (username_rows username peers names)"
  shows "p_last_update_on q \<le> p_last_update_on r"
proof -
  let ?xs = "concat (map (\<lambda>p. map (\<lambda>_. p) (filter (\<lambda>u. u = (p_id p, username)) names)) peers)"
  have s: "sort_key p_last_update_on ?xs = rev rest @ [r]"
    using assms(1) by (simp add: username_rows_def rev_eq_append_conv)
  have "sorted (map p_last_update_on (rev rest @ [r]))"
    using sorted_sort_key [of p_last_update_on ?xs] by (simp only: s)
  moreover have "q \<in> set (rev rest @ [r])"
    using assms(2) by (simp add: assms(1))
  ultimately show ?thesis
    by (auto simp: sorted_append)
qed

text \<open>Looking up a user name never yields a peer that does not hold it or whose row is older
  than eight hours: an input peer comes from a row of that name which was updated no earlier than any
  other row of the name and within the time limit. A name none of the rows hold is an error.\<close>

theorem username_lookup:
  "(\<forall>p. get_peer_by_username now username peers names = Inr p \<longrightarrow>
     (\<exists>r \<in> set peers. (p_id r, username) \<in> set names \<and>
        get_input_peer (p_id r) (p_access_hash r) (p_type r) = Inr p \<and>
        \<bar>now - of_int (p_last_update_on r)\<bar> \<le> of_int USERNAME_TTL \<and>
        (\<forall>q \<in> set peers. (p_id q, username) \<in> set names \<longrightarrow> p_last_update_on q \<le> p_last_update_on r))) \<and>
   ((\<forall>r \<in> set peers. (p_id r, username) \<notin> set names) \<longrightarrow>
     get_peer_by_username now username peers names = Inl (KeyError 0))"
proof (cases "username_rows username peers names")
  case Nil
  then show ?thesis
    using set_username_rows [of username peers names] by (simp add: get_peer_by_username_def)
next
  case (Cons r rest)
  then have "r \<in> set peers" "(p_id r, username) \<in> set names"
    using set_username_rows [of username peers names] by auto
  moreover have "\<forall>q \<in> set peers. (p_id q, username) \<in> set names \<longrightarrow> p_last_update_on q \<le> p_last_update_on r"
    using hd_username_rows [OF Cons] set_username_rows [of username peers names] by blast
  ultimately show ?thesis
    using Cons by (auto simp: get_peer_by_username_def not_less split: if_splits)
qed

theorem username_lookup_witness:
  "\<exists>r \<in> set [\<lparr>p_id = 7, p_access_hash = 1, p_type = ''user'', p_phone_number = None, p_last_update_on = 10\<rparr>,
      \<lparr>p_id = 8, p_access_hash = 2, p_type = ''user'', p_phone_number = None, p_last_update_on = 20\<rparr>].
    get_input_peer (p_id r) (p_access_hash r) (p_type r) = Inr (InputPeerUser 8 2)"
proof -
  let ?peers = "[\<lparr>p_id = 7, p_access_hash = 1, p_type = ''user'', p_phone_number = None, p_last_update_on = 10\<rparr>,
      \<lparr>p_id = 8, p_access_hash = 2, p_type = ''user'', p_phone_number = None, p_last_update_on = 20\<rparr>]"
  have "get_peer_by_username 30 ''n'' ?peers [(7, ''n''), (8, ''n'')] = Inr (InputPeerUser 8 2)"
    by (simp add: get_peer_by_username_def username_rows_def get_input_peer_def USERNAME_TTL_def)
  then show ?thesis
    using username_lookup [of 30 "''n''" ?peers "[(7, ''n''), (8, ''n'')]"] by blast
qed

lemma username_update_owner:
  "(i, n) \<in> set (update_usernames usernames rows) \<longleftrightarrow>
    (if i \<in> fst ` set usernames then (\<exists>names. (i, names) \<in> set usernames \<and> Some n \<in> set names)
     else (i, n) \<in> set rows)"
proof (cases "usernames = []")
  case False
  have "(i, n) \<in> set (concat (map (\<lambda>(i, names). map (\<lambda>n. (i, the n)) (filter (\<lambda>n. n \<noteq> None) names)) usernames)) \<longleftrightarrow>
      (\<exists>names. (i, names) \<in> set usernames \<and> Some n \<in> set names)"
    by (fastforce simp: image_iff)
  then show ?thesis
    unfolding update_usernames_def if_not_P [OF False] set_append Un_iff
    by (cases "i \<in> fst ` set usernames") (simp_all del: set_concat, metis fst_conv imageI)
qed (simp add: update_usernames_def)


section \<open>Update states\<close>

record update_state =
  us_id :: int
  us_pts :: "int option"
  us_qts :: "int option"
  us_date :: "int option"
  us_seq :: "int option"

text \<open>\<open>COALESCE\<close>, and the merge of a stored state with an update that fills in what it
  leaves open (\<open>_merge_update_state\<close>).\<close>

definition coalesce :: "'a option \<Rightarrow> 'a option \<Rightarrow> 'a option" where
  "coalesce new old = (if new \<noteq> None then new else old)"

definition merge_update_state :: "update_state \<Rightarrow> update_state \<Rightarrow> update_state" where
  "merge_update_state current update = \<lparr>us_id = us_id update,
     us_pts = coalesce (us_pts update) (us_pts current),
     us_qts = coalesce (us_qts update) (us_qts current),
     us_date = coalesce (us_date update) (us_date current),
     us_seq = coalesce (us_seq update) (us_seq current)\<rparr>"

text \<open>The statements of the SQLite storage: the rows of the identifiers asked for
  (\<open>None\<close>: all) by date, the upsert of one state and of several, and the deletion.\<close>

definition sqlite_get_update_states :: "int list option \<Rightarrow> update_state list \<Rightarrow> update_state list" where
  "sqlite_get_update_states ids table =
    (case ids of
       None \<Rightarrow> sort_key us_date table
     | Some state_ids \<Rightarrow> if state_ids = [] then [] else sort_key us_date (filter (\<lambda>s. us_id s \<in> set state_ids) table))"

definition upsert :: "update_state \<Rightarrow> update_state list \<Rightarrow> update_state list" where
  "upsert update table =
    (if us_id update \<in> us_id ` set table
     then map (\<lambda>s. if us_id s = us_id update
       then s\<lparr>us_pts := coalesce (us_pts update) (us_pts s), us_qts := coalesce (us_qts update) (us_qts s),
              us_date := coalesce (us_date update) (us_date s), us_seq := coalesce (us_seq update) (us_seq s)\<rparr>
       else s) table
     else table @ [update])"

definition sqlite_set_update_state :: "update_state list \<Rightarrow> update_state list \<Rightarrow> update_state list" where
  "sqlite_set_update_state states table = fold upsert states table"

definition sqlite_delete_update_state :: "int list \<Rightarrow> update_state list \<Rightarrow> update_state list" where
  "sqlite_delete_update_state state_ids table =
    (if state_ids = [] then table else filter (\<lambda>s. us_id s \<notin> set state_ids) table)"

text \<open>
  \<open>update_state\<close>, the older form of the interface: called with nothing it lists the
  states, with an integer it deletes one, with a tuple it stores one.
\<close>

datatype legacy_call = AllStates | DeleteState int | StoreState update_state

type_synonym 's legacy = "legacy_call \<Rightarrow> 's \<Rightarrow> update_state list \<times> 's"

text \<open>The split interface over the older one (the methods of the abstract \<open>Storage\<close>).\<close>

definition bridge_get_update_states :: "'s legacy \<Rightarrow> int list option \<Rightarrow> 's \<Rightarrow> update_state list" where
  "bridge_get_update_states legacy ids s =
    (case ids of
       None \<Rightarrow> fst (legacy AllStates s)
     | Some state_ids \<Rightarrow> if state_ids = [] then [] else filter (\<lambda>u. us_id u \<in> set state_ids) (fst (legacy AllStates s)))"

definition bridge_set_one :: "'s legacy \<Rightarrow> update_state \<Rightarrow> 's \<Rightarrow> 's" where
  "bridge_set_one legacy update s =
    (let current = bridge_get_update_states legacy (Some [us_id update]) s;
         state_to_store = (case current of [] \<Rightarrow> update | c # _ \<Rightarrow> merge_update_state c update) in
     snd (legacy (StoreState state_to_store) s))"

definition bridge_set_update_state :: "'s legacy \<Rightarrow> update_state list \<Rightarrow> 's \<Rightarrow> 's" where
  "bridge_set_update_state legacy states s = fold (bridge_set_one legacy) states s"

definition bridge_delete_update_state :: "'s legacy \<Rightarrow> int list \<Rightarrow> 's \<Rightarrow> 's" where
  "bridge_delete_update_state legacy state_ids s = fold (\<lambda>i s. snd (legacy (DeleteState i) s)) state_ids s"

text \<open>The older interface over the split one (\<open>Storage.update_state\<close>), as the SQLite
  storage inherits it.\<close>

fun sqlite_update_state :: "update_state list legacy" where
  "sqlite_update_state AllStates table = (sqlite_get_update_states None table, table)"
| "sqlite_update_state (DeleteState i) table = ([], sqlite_delete_update_state [i] table)"
| "sqlite_update_state (StoreState u) table = ([], sqlite_set_update_state [u] table)"

text \<open>What both promise: a map from identifiers to states in which an update replaces what it
  names and keeps the rest.\<close>

definition state_of :: "update_state list \<Rightarrow> int \<Rightarrow> update_state option" where
  "state_of table i = find (\<lambda>s. us_id s = i) table"

definition spec_set :: "update_state \<Rightarrow> (int \<Rightarrow> update_state option) \<Rightarrow> int \<Rightarrow> update_state option" where
  "spec_set u m = m(us_id u \<mapsto> (case m (us_id u) of None \<Rightarrow> u | Some c \<Rightarrow> merge_update_state c u))"

text \<open>All the adapter needs of storing is that a tuple which forgets nothing of the state it
  replaces is what is found afterwards.\<close>

definition keeps :: "update_state option \<Rightarrow> update_state \<Rightarrow> bool" where
  "keeps old new = (case old of None \<Rightarrow> True | Some s \<Rightarrow> merge_update_state s new = new)"

lemma merge_idem [simp]: "merge_update_state s (merge_update_state s u) = merge_update_state s u"
  by (simp add: merge_update_state_def coalesce_def)

lemma us_id_merge [simp]: "us_id (merge_update_state s u) = us_id u"
  by (simp add: merge_update_state_def)

locale legacy_storage =
  fixes legacy :: "'s legacy"
    and lookup :: "'s \<Rightarrow> int \<Rightarrow> update_state option"
    and ok :: "'s \<Rightarrow> bool"
  assumes states_lookup: "ok s \<Longrightarrow> filter (\<lambda>u. us_id u = i) (fst (legacy AllStates s)) =
      (case lookup s i of None \<Rightarrow> [] | Some u \<Rightarrow> [u])"
    and lookup_store: "ok s \<Longrightarrow> keeps (lookup s (us_id u)) u \<Longrightarrow>
      lookup (snd (legacy (StoreState u) s)) = (lookup s)(us_id u \<mapsto> u)"
    and lookup_delete: "ok s \<Longrightarrow> lookup (snd (legacy (DeleteState i) s)) = (lookup s)(i := None)"
    and ok_store: "ok s \<Longrightarrow> ok (snd (legacy (StoreState u) s))"
    and ok_delete: "ok s \<Longrightarrow> ok (snd (legacy (DeleteState i) s))"
begin

lemma get_one: "ok s \<Longrightarrow> bridge_get_update_states legacy (Some [i]) s = (case lookup s i of None \<Rightarrow> [] | Some u \<Rightarrow> [u])"
  using states_lookup [of s i] by (simp add: bridge_get_update_states_def)

lemma set_one:
  assumes "ok s"
  shows "lookup (bridge_set_one legacy u s) = spec_set u (lookup s) \<and> ok (bridge_set_one legacy u s)"
  using assms lookup_store [of s "case lookup s (us_id u) of None \<Rightarrow> u | Some c \<Rightarrow> merge_update_state c u"]
  by (auto simp: bridge_set_one_def get_one spec_set_def keeps_def ok_store split: option.splits)

lemma set_all:
  "ok s \<Longrightarrow> lookup (bridge_set_update_state legacy us s) = fold spec_set us (lookup s) \<and>
    ok (bridge_set_update_state legacy us s)"
  unfolding bridge_set_update_state_def
  by (induction us arbitrary: s) (simp_all add: set_one)

lemma delete_all:
  "ok s \<Longrightarrow> lookup (bridge_delete_update_state legacy is s) = (\<lambda>i. if i \<in> set is then None else lookup s i) \<and>
    ok (bridge_delete_update_state legacy is s)"
  unfolding bridge_delete_update_state_def
  by (induction "is" arbitrary: s) (auto simp: lookup_delete ok_delete fun_eq_iff)

end

definition state_table :: "update_state list \<Rightarrow> bool" where
  "state_table table = distinct (map us_id table)"

lemma state_of_None: "state_of table i = None \<longleftrightarrow> i \<notin> us_id ` set table"
  by (auto simp: state_of_def find_None_iff)

lemma state_of_upsert: "state_of (upsert u table) = spec_set u (state_of table)"
proof (cases "us_id u \<in> us_id ` set table")
  case True
  then have "\<exists>c. state_of table (us_id u) = Some c"
    using state_of_None [of table "us_id u"] by (cases "state_of table (us_id u)") auto
  moreover have "state_of (upsert u table) i =
      (if i = us_id u then map_option (\<lambda>c. merge_update_state c u) (state_of table i) else state_of table i)" for i
    unfolding upsert_def state_of_def if_P [OF True]
    by (induction table) (auto simp: merge_update_state_def)
  ultimately show ?thesis
    by (auto simp: spec_set_def fun_eq_iff)
next
  case False
  then have "state_of table (us_id u) = None"
    by (simp add: state_of_None)
  then show ?thesis
    using False by (auto simp: upsert_def spec_set_def fun_eq_iff state_of_def find_append split: option.splits)
qed

lemma state_table_upsert: "state_table table \<Longrightarrow> state_table (upsert u table)"
proof -
  have "map us_id (map (\<lambda>s. if us_id s = us_id u then s\<lparr>us_pts := a s, us_qts := b s, us_date := c s, us_seq := d s\<rparr> else s) table) =
      map us_id table" for a b c d
    by (induction table) auto
  then show "state_table table \<Longrightarrow> state_table (upsert u table)"
    unfolding state_table_def upsert_def by (auto simp del: map_map)
qed

lemma state_of_delete: "state_of (sqlite_delete_update_state is table) = (\<lambda>i. if i \<in> set is then None else state_of table i)"
proof (rule ext)
  fix i
  show "state_of (sqlite_delete_update_state is table) i = (if i \<in> set is then None else state_of table i)"
    by (induction table) (auto simp: state_of_def sqlite_delete_update_state_def find_None_iff)
qed

lemma filter_id_state_of:
  "state_table table \<Longrightarrow> filter (\<lambda>u. us_id u = i) table = (case state_of table i of None \<Rightarrow> [] | Some u \<Rightarrow> [u])"
proof (induction table)
  case (Cons x table)
  show ?case
  proof (cases "us_id x = i")
    case True
    then have "filter (\<lambda>u. us_id u = i) table = []"
      using Cons.prems by (simp add: filter_empty_conv state_table_def) (metis imageI)
    with True show ?thesis
      by (simp add: state_of_def)
  next
    case False
    then show ?thesis
      using Cons by (simp add: state_of_def state_table_def)
  qed
qed (simp add: state_of_def)

interpretation sqlite: legacy_storage sqlite_update_state state_of state_table
proof unfold_locales
  fix s :: "update_state list" and u i
  assume ok: "state_table s"
  show "filter (\<lambda>u. us_id u = i) (fst (sqlite_update_state AllStates s)) =
      (case state_of s i of None \<Rightarrow> [] | Some u \<Rightarrow> [u])"
    using filter_id_state_of [OF ok, of i]
    by (simp add: sqlite_get_update_states_def filter_sort split: option.split)
  show "state_of (snd (sqlite_update_state (DeleteState i) s)) = (state_of s)(i := None)"
    by (auto simp: state_of_delete)
  show "state_table (snd (sqlite_update_state (StoreState u) s))"
    by (simp add: sqlite_set_update_state_def state_table_upsert ok)
  show "state_table (snd (sqlite_update_state (DeleteState i) s))"
    using ok by (simp add: sqlite_delete_update_state_def state_table_def distinct_map_filter)
  show "state_of (snd (sqlite_update_state (StoreState u) s)) = (state_of s)(us_id u \<mapsto> u)"
    if "keeps (state_of s (us_id u)) u"
    using that by (auto simp: sqlite_set_update_state_def state_of_upsert spec_set_def keeps_def split: option.splits)
qed

text \<open>A storage of the older interface that knows nothing of merging: it lists its rows in some order,
  and a tuple takes the place of the row with its identifier, open fields included. The storage of the tests of the
  adapter is one.\<close>

definition replaces :: "update_state list legacy \<Rightarrow> bool" where
  "replaces legacy \<longleftrightarrow> (\<forall>table. mset (fst (legacy AllStates table)) = mset table) \<and>
    (\<forall>u table. snd (legacy (StoreState u) table) = filter (\<lambda>s. us_id s \<noteq> us_id u) table @ [u]) \<and>
    (\<forall>i table. snd (legacy (DeleteState i) table) = filter (\<lambda>s. us_id s \<noteq> i) table)"

fun replacing_update_state :: "update_state list legacy" where
  "replacing_update_state AllStates table = (sort_key us_date table, table)"
| "replacing_update_state (DeleteState i) table = ([], filter (\<lambda>s. us_id s \<noteq> i) table)"
| "replacing_update_state (StoreState u) table = ([], filter (\<lambda>s. us_id s \<noteq> us_id u) table @ [u])"

lemma replacing_replaces: "replaces replacing_update_state"
  by (simp add: replaces_def)

lemma state_of_filter: "state_of (filter (\<lambda>s. us_id s \<noteq> k) table) = (state_of table)(k := None)"
  by (induction table) (auto simp: state_of_def fun_eq_iff)

lemma state_of_snoc: "state_of (table @ [u]) i = (case state_of table i of None \<Rightarrow> if us_id u = i then Some u else None | Some s \<Rightarrow> Some s)"
  by (simp add: state_of_def find_append split: option.split)

lemma mset_single_filter: "mset xs = mset ys \<Longrightarrow> filter P ys = (case r of None \<Rightarrow> [] | Some u \<Rightarrow> [u]) \<Longrightarrow>
    filter P xs = (case r of None \<Rightarrow> [] | Some u \<Rightarrow> [u])"
proof (cases r)
  fix u
  assume "mset xs = mset ys" "filter P ys = (case r of None \<Rightarrow> [] | Some u \<Rightarrow> [u])" "r = Some u"
  then have "mset (filter P xs) = {#u#}"
    by (metis mset_filter mset_single_iff option.simps(5))
  with \<open>r = Some u\<close> show ?thesis
    by (simp only: mset_single_iff option.case)
qed (metis mset_filter mset_zero_iff option.simps(4))

lemma replaces_legacy_storage:
  assumes "replaces legacy"
  shows "legacy_storage legacy state_of state_table"
proof unfold_locales
  fix s :: "update_state list" and u i
  assume ok: "state_table s"
  show "filter (\<lambda>u. us_id u = i) (fst (legacy AllStates s)) = (case state_of s i of None \<Rightarrow> [] | Some u \<Rightarrow> [u])"
  proof (rule mset_single_filter [OF _ filter_id_state_of [OF ok]])
    show "mset (fst (legacy AllStates s)) = mset s"
      using assms unfolding replaces_def by blast
  qed
  show "state_of (snd (legacy (StoreState u) s)) = (state_of s)(us_id u \<mapsto> u)"
  proof (rule ext)
    fix k
    have "snd (legacy (StoreState u) s) = filter (\<lambda>s. us_id s \<noteq> us_id u) s @ [u]"
      using assms unfolding replaces_def by blast
    then show "state_of (snd (legacy (StoreState u) s)) k = ((state_of s)(us_id u \<mapsto> u)) k"
      by (simp only: state_of_snoc state_of_filter) (simp split: option.split)
  qed
  show "state_of (snd (legacy (DeleteState i) s)) = (state_of s)(i := None)"
  proof -
    have "snd (legacy (DeleteState i) s) = filter (\<lambda>s. us_id s \<noteq> i) s"
      using assms unfolding replaces_def by blast
    then show ?thesis
      by (simp only: state_of_filter)
  qed
  show "state_table (snd (legacy (StoreState u) s))"
  proof -
    have "snd (legacy (StoreState u) s) = filter (\<lambda>s. us_id s \<noteq> us_id u) s @ [u]"
      using assms unfolding replaces_def by blast
    then show ?thesis
      using ok by (simp only: state_table_def) (auto simp: distinct_map_filter)
  qed
  show "state_table (snd (legacy (DeleteState i) s))"
  proof -
    have "snd (legacy (DeleteState i) s) = filter (\<lambda>s. us_id s \<noteq> i) s"
      using assms unfolding replaces_def by blast
    then show ?thesis
      using ok by (simp only: state_table_def) (simp add: distinct_map_filter)
  qed
qed

interpretation replacing: legacy_storage replacing_update_state state_of state_table
  by (rule replaces_legacy_storage [OF replacing_replaces])

text \<open>C9: The ways of storing update states agree. The split interface over any storage of the older one that
  replaces whole rows, and over the SQLite storage seen through the older interface, leaves the same map, one state at a
  time, as the upserts of the SQLite storage: all fill in what an update leaves open from the stored state, so
  over a storage that only replaces it is the adapter that has to merge; and deleting through
  any of them removes exactly the identifiers given.\<close>

theorem update_states_agree:
  assumes "state_table table" and "replaces legacy"
  shows "state_of (bridge_set_update_state legacy states table) = fold spec_set states (state_of table) \<and>
    state_of (bridge_set_update_state sqlite_update_state states table) = fold spec_set states (state_of table) \<and>
    state_of (sqlite_set_update_state states table) = fold spec_set states (state_of table) \<and>
    state_table (sqlite_set_update_state states table) \<and>
    state_of (bridge_delete_update_state legacy is table) = (\<lambda>i. if i \<in> set is then None else state_of table i) \<and>
    state_of (bridge_delete_update_state sqlite_update_state is table) = (\<lambda>i. if i \<in> set is then None else state_of table i) \<and>
    state_of (sqlite_delete_update_state is table) = (\<lambda>i. if i \<in> set is then None else state_of table i)"
proof -
  note other = replaces_legacy_storage [OF assms(2)]
  have "state_of (fold upsert states t) = fold spec_set states (state_of t) \<and> (state_table t \<longrightarrow> state_table (fold upsert states t))" for t
    by (induction states arbitrary: t) (auto simp: state_of_upsert state_table_upsert)
  then show ?thesis
    using sqlite.set_all [OF assms(1)] sqlite.delete_all [OF assms(1)] assms(1)
      legacy_storage.set_all [OF other assms(1)] legacy_storage.delete_all [OF other assms(1)]
    by (simp add: sqlite_set_update_state_def state_of_delete)
qed

theorem update_states_agree_witness:
  "state_of (bridge_set_update_state replacing_update_state
      [\<lparr>us_id = 0, us_pts = Some 5, us_qts = None, us_date = None, us_seq = None\<rparr>]
      [\<lparr>us_id = 0, us_pts = Some 1, us_qts = Some 2, us_date = Some 3, us_seq = None\<rparr>]) 0 =
    Some \<lparr>us_id = 0, us_pts = Some 5, us_qts = Some 2, us_date = Some 3, us_seq = None\<rparr>"
  using update_states_agree [OF _ replacing_replaces, of "[\<lparr>us_id = 0, us_pts = Some 1, us_qts = Some 2, us_date = Some 3, us_seq = None\<rparr>]"
      "[\<lparr>us_id = 0, us_pts = Some 5, us_qts = None, us_date = None, us_seq = None\<rparr>]" "[]"]
  by (simp add: state_table_def spec_set_def state_of_def merge_update_state_def coalesce_def)


section \<open>Creating and migrating the database\<close>

text \<open>
  The objects of a database that a migration can add: its tables, indexes and trigger, and the
  columns of \<open>sessions\<close>. Making an object that is there raises
  \<open>sqlite3.OperationalError\<close>; each statement of a migration is committed before the next,
  so a failing migration leaves what it did.
\<close>

record database =
  db_version :: int
  db_objects :: "string list"
  db_peers :: "peer_row list"
  db_session :: session_row

definition SCHEMA :: "string list" where
  "SCHEMA = [''sessions'', ''sessions.dc_id'', ''sessions.server_address'', ''sessions.port'', ''sessions.api_id'',
     ''sessions.test_mode'', ''sessions.auth_key'', ''sessions.date'', ''sessions.user_id'', ''sessions.is_bot'',
     ''peers'', ''usernames'', ''update_state'', ''version'', ''idx_peers_id'', ''idx_peers_phone_number'',
     ''idx_usernames_id'', ''idx_usernames_username'', ''trg_peers_last_update_on'']"

definition USERNAMES_SCHEMA :: "string list" where
  "USERNAMES_SCHEMA = [''usernames'', ''idx_usernames_username'']"

definition UPDATE_STATE_SCHEMA :: "string list" where
  "UPDATE_STATE_SCHEMA = [''update_state'']"

fun add_objects :: "string list \<Rightarrow> database \<Rightarrow> database \<times> py_error option" where
  "add_objects [] db = (db, None)"
| "add_objects (x # xs) db =
    (if x \<in> set (db_objects db) then (db, Some OperationalError)
     else add_objects xs (db\<lparr>db_objects := db_objects db @ [x]\<rparr>))"

definition create_database :: database where
  "create_database = \<lparr>db_version = VERSION, db_objects = SCHEMA, db_peers = [], db_session = created_row\<rparr>"

definition migrate_6 :: "database \<Rightarrow> database \<times> py_error option" where
  "migrate_6 db =
    (case get_dc_endpoint (case ses_dc_id (db_session db) of None \<Rightarrow> 0 | Some d \<Rightarrow> d)
        (as_bool (ses_test_mode (db_session db)) \<noteq> 0) of
       Inl e \<Rightarrow> (db, Some e)
     | Inr (address, port) \<Rightarrow>
         (case add_objects [''sessions.server_address'', ''sessions.port''] db of
            (db, Some e) \<Rightarrow> (db, Some e)
          | (db, None) \<Rightarrow> (db\<lparr>db_session := (db_session db)\<lparr>ses_server_address := Some address, ses_port := Some port\<rparr>\<rparr>, None)))"

definition migrate :: "int \<Rightarrow> database \<Rightarrow> database \<times> py_error option" where
  "migrate v db =
    (if v = 1 then (db\<lparr>db_peers := []\<rparr>, None)
     else if v = 2 then add_objects [''sessions.api_id''] db
     else if v = 3 then add_objects USERNAMES_SCHEMA db
     else if v = 4 then add_objects UPDATE_STATE_SCHEMA db
     else if v = 5 then add_objects [''idx_usernames_id''] db
     else migrate_6 db)"

text \<open>\<open>SQLiteStorage.update\<close>: the version is written once, after all the steps.\<close>

fun update_loop :: "int list \<Rightarrow> int \<Rightarrow> database \<Rightarrow> database \<times> py_error option" where
  "update_loop [] version db = (db\<lparr>db_version := version\<rparr>, None)"
| "update_loop (k # ks) version db =
    (if version = k then
       (case migrate k db of
          (db, Some e) \<Rightarrow> (db, Some e)
        | (db, None) \<Rightarrow> update_loop ks (version + 1) db)
     else update_loop ks version db)"

definition update_database :: "database \<Rightarrow> database \<times> py_error option" where
  "update_database db = update_loop [1, 2, 3, 4, 5, 6] (db_version db) db"

text \<open>The objects that the steps from version \<open>v\<close> on are to add: what the versions after it introduced.\<close>

definition added_from :: "int \<Rightarrow> string list" where
  "added_from v =
    (if v \<le> 2 then [''sessions.api_id''] else []) @ (if v \<le> 3 then [''usernames'', ''idx_usernames_username''] else []) @
    (if v \<le> 4 then [''update_state''] else []) @ (if v \<le> 5 then [''idx_usernames_id''] else []) @
    (if v \<le> 6 then [''sessions.server_address'', ''sessions.port''] else [])"

text \<open>A file of version \<open>v\<close>, whatever else is in it: it has nothing yet of what the later versions add.\<close>

definition of_version :: "int \<Rightarrow> database \<Rightarrow> bool" where
  "of_version v db \<longleftrightarrow> db_version db = v \<and> 1 \<le> v \<and> v \<le> VERSION \<and> set (db_objects db) \<inter> set (added_from v) = {}"

definition endpoint_of_row :: "session_row \<Rightarrow> (string \<times> int) res" where
  "endpoint_of_row row = get_dc_endpoint (case ses_dc_id row of None \<Rightarrow> 0 | Some d \<Rightarrow> d) (as_bool (ses_test_mode row) \<noteq> 0)"

lemma add_objects_fresh:
  "distinct xs \<Longrightarrow> set xs \<inter> set (db_objects db) = {} \<Longrightarrow>
    add_objects xs db = (db\<lparr>db_objects := db_objects db @ xs\<rparr>, None)"
  by (induction xs arbitrary: db) auto

text \<open>What the step of version \<open>v\<close> adds; the steps add different objects, all of the schema.\<close>

definition added_by :: "int \<Rightarrow> string list" where
  "added_by v = (if v = 2 then [''sessions.api_id''] else if v = 3 then USERNAMES_SCHEMA
    else if v = 4 then UPDATE_STATE_SCHEMA else if v = 5 then [''idx_usernames_id'']
    else if v = 6 then [''sessions.server_address'', ''sessions.port''] else [])"

lemma added_from_step: "1 \<le> v \<Longrightarrow> v \<le> 6 \<Longrightarrow> added_from v = added_by v @ added_from (v + 1)"
proof -
  assume "1 \<le> v" "v \<le> 6"
  then have "v \<in> {1, 2, 3, 4, 5, 6}"
    by auto
  then show ?thesis
    by (elim insertE emptyE) (simp_all add: added_from_def added_by_def USERNAMES_SCHEMA_def UPDATE_STATE_SCHEMA_def)
qed

lemma added_from_distinct: "distinct (added_from v)"
  by (auto simp: added_from_def)

lemma migrate_adds:
  "v \<in> {2, 3, 4, 5} \<Longrightarrow> migrate v db = add_objects (added_by v) db"
  "migrate 6 db = migrate_6 db"
  "migrate 1 db = (db\<lparr>db_peers := []\<rparr>, None)" "added_by 1 = []"
  by (auto simp: migrate_def added_by_def)

lemma add_step_objects:
  assumes "of_version v db" and "v < VERSION"
  shows "add_objects (added_by v) db = (db\<lparr>db_objects := db_objects db @ added_by v\<rparr>, None)"
    and "of_version (v + 1) (db\<lparr>db_objects := db_objects db @ added_by v, db_version := v + 1\<rparr>)"
proof -
  have v: "1 \<le> v" "v \<le> 6" and fresh: "set (db_objects db) \<inter> set (added_from v) = {}"
    using assms by (auto simp: of_version_def VERSION_def)
  note from_v = added_from_step [OF v] added_from_distinct [of v]
  have "set (added_by v) \<inter> set (db_objects db) = {}" "distinct (added_by v)"
    using from_v fresh by auto
  then show "add_objects (added_by v) db = (db\<lparr>db_objects := db_objects db @ added_by v\<rparr>, None)"
    by (simp add: add_objects_fresh)
  show "of_version (v + 1) (db\<lparr>db_objects := db_objects db @ added_by v, db_version := v + 1\<rparr>)"
    using v from_v fresh by (auto simp: of_version_def VERSION_def)
qed

text \<open>One step, with what it leaves of the peers and of the row.\<close>

definition stepped :: "int \<Rightarrow> (string \<times> int) \<Rightarrow> database \<Rightarrow> database" where
  "stepped v ep db = db\<lparr>db_objects := db_objects db @ added_by v, db_peers := (if v = 1 then [] else db_peers db),
     db_session := (if v = 6 then (db_session db)\<lparr>ses_server_address := Some (fst ep), ses_port := Some (snd ep)\<rparr> else db_session db)\<rparr>"

lemma migrate_step:
  assumes "of_version v db" and "v < VERSION" and "v = 6 \<longrightarrow> endpoint_of_row (db_session db) = Inr ep"
  shows "migrate v db = (stepped v ep db, None)"
proof -
  note add = add_step_objects(1) [OF assms(1,2)]
  have "v = 1 \<or> v \<in> {2, 3, 4, 5} \<or> v = 6"
    using assms by (auto simp: of_version_def VERSION_def)
  then show ?thesis
  proof (elim disjE)
    assume "v = 1"
    with add show ?thesis
      by (simp add: migrate_adds stepped_def)
  next
    assume "v \<in> {2, 3, 4, 5}"
    with add show ?thesis
      by (auto simp: migrate_adds(1) stepped_def)
  next
    assume "v = 6"
    with add assms(3) show ?thesis
      by (simp add: migrate_adds(2) migrate_6_def added_by_def stepped_def endpoint_of_row_def split: prod.splits)
  qed
qed

lemma stepped_version:
  "of_version v db \<Longrightarrow> v < VERSION \<Longrightarrow> of_version (v + 1) ((stepped v ep db)\<lparr>db_version := v + 1\<rparr>)"
  using add_step_objects(2) [of v db] by (simp add: stepped_def of_version_def)

lemma update_loop_skip: "version \<notin> set ks \<Longrightarrow> update_loop ks version db = (db\<lparr>db_version := version\<rparr>, None)"
  by (induction ks) auto

lemma migrate_version:
  "migrate v (db\<lparr>db_version := w\<rparr>) = (case migrate v db of (db', e) \<Rightarrow> (db'\<lparr>db_version := w\<rparr>, e))"
proof -
  have add: "add_objects xs (db\<lparr>db_version := w\<rparr>) = (case add_objects xs db of (db', e) \<Rightarrow> (db'\<lparr>db_version := w\<rparr>, e))" for xs db
  proof (induction xs arbitrary: db)
    case (Cons x xs)
    have comm: "db\<lparr>db_version := w, db_objects := y\<rparr> = db\<lparr>db_objects := y, db_version := w\<rparr>" for y
      by simp
    show ?case
      using Cons.IH [of "db\<lparr>db_objects := db_objects db @ [x]\<rparr>"] by (simp add: comm)
  qed simp
  show ?thesis
    by (auto simp: migrate_def migrate_6_def add split: sum.splits prod.splits option.splits)
qed

lemma update_loop_version: "update_loop ks v (db\<lparr>db_version := w\<rparr>) =
    (case update_loop ks v db of (db', None) \<Rightarrow> (db', None) | (db', Some e) \<Rightarrow> (db'\<lparr>db_version := w\<rparr>, Some e))"
proof (induction ks v db rule: update_loop.induct)
  case (2 k ks v db)
  show ?case
  proof (cases "v = k")
    case True
    obtain db' e where m: "migrate k db = (db', e)"
      by fastforce
    then show ?thesis
      using True 2(1) by (cases e) (auto simp: migrate_version)
  qed (use 2(2) in simp)
qed simp

lemma update_loop_from:
  assumes "of_version v db" and "endpoint_of_row (db_session db) = Inr ep"
    and "ks = map (\<lambda>i. v + int i) [0..<nat (VERSION - v)]"
  shows "\<exists>db'. update_loop ks v db = (db', None) \<and> db_version db' = VERSION \<and>
    db_objects db' = db_objects db @ added_from v \<and>
    db_session db' = (if v < VERSION then (db_session db)\<lparr>ses_server_address := Some (fst ep), ses_port := Some (snd ep)\<rparr>
      else db_session db) \<and> db_peers db' = (if v = 1 then [] else db_peers db)"
  using assms
proof (induction ks arbitrary: v db)
  case Nil
  then have "v = VERSION"
    by (auto simp: of_version_def)
  with Nil.prems show ?case
    by (auto simp: of_version_def added_from_def VERSION_def)
next
  case (Cons k ks)
  then have lt: "v < VERSION"
    by (cases "v < VERSION") auto
  have "nat (VERSION - v) = Suc (nat (VERSION - (v + 1)))"
    using lt by simp
  then have k: "k = v" and ks: "ks = map (\<lambda>i. (v + 1) + int i) [0..<nat (VERSION - (v + 1))]"
    using Cons.prems(3) by (simp_all add: upt_conv_Cons map_Suc_upt [symmetric] o_def del: upt_Suc map_Suc_upt)
  have v: "1 \<le> v" "v \<le> 6"
    using Cons.prems(1) lt by (simp_all add: of_version_def VERSION_def)
  let ?db = "(stepped v ep db)\<lparr>db_version := v + 1\<rparr>"
  note m = migrate_step [OF Cons.prems(1) lt, of ep] and next_version = stepped_version [OF Cons.prems(1) lt, of ep]
  have row: "endpoint_of_row (db_session ?db) = Inr ep"
    using Cons.prems(2) by (simp add: stepped_def endpoint_of_row_def)
  obtain db' where IH: "update_loop ks (v + 1) ?db = (db', None)" "db_version db' = VERSION"
      "db_objects db' = db_objects ?db @ added_from (v + 1)"
      "db_session db' = (if v + 1 < VERSION then (db_session ?db)\<lparr>ses_server_address := Some (fst ep), ses_port := Some (snd ep)\<rparr>
        else db_session ?db)" "db_peers db' = (if v + 1 = 1 then [] else db_peers ?db)"
    using Cons.IH [OF next_version row ks] by blast
  have "update_loop ks (v + 1) (stepped v ep db) = (db', None)"
    using IH(1) update_loop_version [where ks = ks and v = "v + 1" and db = "stepped v ep db" and w = "v + 1"]
    by (auto split: prod.splits option.splits)
  then have "update_loop (k # ks) v db = (db', None)"
    using m Cons.prems(2) k by simp
  moreover have "db_objects db' = db_objects db @ added_from v"
    using IH(3) added_from_step [OF v] by (simp add: stepped_def)
  moreover have "db_session db' = (db_session db)\<lparr>ses_server_address := Some (fst ep), ses_port := Some (snd ep)\<rparr>"
    using IH(4) v by (auto simp: stepped_def VERSION_def)
  moreover have "db_peers db' = (if v = 1 then [] else db_peers db)"
    using IH(5) v by (simp add: stepped_def)
  ultimately show ?case
    using IH(2) lt by simp
qed

text \<open>Without a data centre in the table the last step fails, after the steps before it.\<close>

lemma update_loop_stuck:
  assumes "of_version v db" and "endpoint_of_row (db_session db) = Inl e" and "v \<le> 6"
    and "ks = map (\<lambda>i. v + int i) [0..<nat (VERSION - v)]"
  shows "\<exists>db'. update_loop ks v db = (db', Some e) \<and> db_version db' = db_version db \<and>
    db_objects db' @ [''sessions.server_address'', ''sessions.port''] = db_objects db @ added_from v \<and>
    db_session db' = db_session db \<and> db_peers db' = (if v = 1 then [] else db_peers db)"
  using assms
proof (induction ks arbitrary: v db)
  case Nil
  then show ?case
    by (simp add: VERSION_def)
next
  case (Cons k ks)
  have lt: "v < VERSION" and v: "1 \<le> v" "v \<le> 6" and version: "db_version db = v"
    using Cons.prems(1,3) by (simp_all add: of_version_def VERSION_def)
  have "nat (VERSION - v) = Suc (nat (VERSION - (v + 1)))"
    using lt by simp
  then have k: "k = v" and ks: "ks = map (\<lambda>i. (v + 1) + int i) [0..<nat (VERSION - (v + 1))]"
    using Cons.prems(4) by (simp_all add: upt_conv_Cons map_Suc_upt [symmetric] o_def del: upt_Suc map_Suc_upt)
  show ?case
  proof (cases "v = 6")
    case True
    then have "update_loop (k # ks) v db = (db, Some e)"
      using k Cons.prems(2) by (simp add: migrate_adds migrate_6_def endpoint_of_row_def)
    then show ?thesis
      using True by (simp add: added_from_def)
  next
    case False
    let ?ep = "undefined :: string \<times> int"
    let ?db = "(stepped v ?ep db)\<lparr>db_version := v + 1\<rparr>"
    have m: "migrate v db = (stepped v ?ep db, None)"
      using migrate_step [OF Cons.prems(1) lt] False by simp
    have row: "endpoint_of_row (db_session ?db) = Inl e"
      using Cons.prems(2) False by (simp add: stepped_def)
    have "v + 1 \<le> 6"
      using v False by simp
    obtain db' where IH: "update_loop ks (v + 1) ?db = (db', Some e)"
        "db_objects db' @ [''sessions.server_address'', ''sessions.port''] = db_objects ?db @ added_from (v + 1)"
        "db_session db' = db_session ?db" "db_peers db' = (if v + 1 = 1 then [] else db_peers ?db)"
      using Cons.IH [OF stepped_version [OF Cons.prems(1) lt] row \<open>v + 1 \<le> 6\<close> ks] by blast
    obtain db'' e' where go: "update_loop ks (v + 1) (stepped v ?ep db) = (db'', e')"
      by fastforce
    have "(stepped v ?ep db)\<lparr>db_version := db_version db\<rparr> = stepped v ?ep db"
      by (simp add: stepped_def)
    then have same: "db_version db'' = db_version db \<or> e' = None"
      using update_loop_version [where ks = ks and v = "v + 1" and db = "stepped v ?ep db" and w = "db_version db"] go
      by (cases e') (auto dest: arg_cong [of _ _ db_version])
    have "e' = Some e" "db' = db''\<lparr>db_version := v + 1\<rparr>"
      using IH(1) update_loop_version [where ks = ks and v = "v + 1" and db = "stepped v ?ep db" and w = "v + 1"] go
      by (auto split: option.splits)
    moreover from this have "update_loop (k # ks) v db = (db'', Some e)"
      using m k go by simp
    ultimately show ?thesis
      using IH(2-4) same v False added_from_step [OF v] by (intro exI [of _ db'']) (simp add: stepped_def)
  qed
qed

lemma add_objects_known: "x \<in> set (db_objects db) \<Longrightarrow> add_objects (x # xs) db = (db, Some OperationalError)"
  by simp

text \<open>C11: Opening a session file of an earlier version adds exactly what the later versions introduced, or breaks the file.
  When the data centre of the row is in the built-in table, every step runs once from the file's version
  on: the tables, columns and indexes of the later versions are added to those of the file, the version is the current
  one, the row is kept with the address of its data centre filled in, and the peers are kept from version 2 on. When it
  is not, the error of the table is raised with all but the last step done and the old version still written; and if a
  step has made something, that is, up to version 5, every later attempt to open the file raises
  \<open>OperationalError\<close> and changes nothing, whatever the row has become meanwhile.\<close>

theorem migration_completes_or_breaks:
  assumes "of_version v db"
  shows "(\<forall>address port. endpoint_of_row (db_session db) = Inr (address, port) \<longrightarrow>
      (\<exists>db'. update_database db = (db', None) \<and> db_version db' = 7 \<and> db_objects db' = db_objects db @ added_from v \<and>
        db_session db' = (if v < 7 then (db_session db)\<lparr>ses_server_address := Some address, ses_port := Some port\<rparr> else db_session db) \<and>
        db_peers db' = (if v = 1 then [] else db_peers db))) \<and>
    (\<forall>e. endpoint_of_row (db_session db) = Inl e \<and> v < 7 \<longrightarrow>
      (\<exists>db'. update_database db = (db', Some e) \<and> db_version db' = v \<and> db_session db' = db_session db \<and>
        db_objects db' @ [''sessions.server_address'', ''sessions.port''] = db_objects db @ added_from v \<and>
        (v < 6 \<longrightarrow> (\<forall>row. update_database (db'\<lparr>db_session := row\<rparr>) = (db'\<lparr>db_session := row\<rparr>, Some OperationalError)))))"
proof -
  have v: "v \<in> {1, 2, 3, 4, 5, 6, 7}" "db_version db = v"
    using assms by (auto simp: of_version_def VERSION_def)
  let ?ks = "map (\<lambda>i. v + int i) [0..<nat (VERSION - v)]"
  have run: "update_database d = update_loop ?ks v d" if "db_version d = v" for d
    using v that by (elim insertE emptyE) (simp_all add: update_database_def VERSION_def upt_conv_Cons)
  have "\<exists>db'. update_database db = (db', None) \<and> db_version db' = 7 \<and> db_objects db' = db_objects db @ added_from v \<and>
        db_session db' = (if v < 7 then (db_session db)\<lparr>ses_server_address := Some address, ses_port := Some port\<rparr> else db_session db) \<and>
        db_peers db' = (if v = 1 then [] else db_peers db)"
    if ep: "endpoint_of_row (db_session db) = Inr (address, port)" for address port
  proof -
    obtain db' where db': "update_loop ?ks v db = (db', None)" "db_version db' = VERSION" "db_objects db' = db_objects db @ added_from v"
        "db_session db' = (if v < VERSION then (db_session db)\<lparr>ses_server_address := Some (fst (address, port)),
          ses_port := Some (snd (address, port))\<rparr> else db_session db)" "db_peers db' = (if v = 1 then [] else db_peers db)"
      using update_loop_from [OF assms ep refl] by (elim exE conjE)
    have "update_database db = (db', None)"
      using run [OF v(2)] db'(1) by (simp only:)
    then show ?thesis
      using db'(2-5) by (intro exI [of _ db']) (simp only: VERSION_def fst_conv snd_conv simp_thms)
  qed
  moreover have "\<exists>db'. update_database db = (db', Some e) \<and> db_version db' = v \<and> db_session db' = db_session db \<and>
        db_objects db' @ [''sessions.server_address'', ''sessions.port''] = db_objects db @ added_from v \<and>
        (v < 6 \<longrightarrow> (\<forall>row. update_database (db'\<lparr>db_session := row\<rparr>) = (db'\<lparr>db_session := row\<rparr>, Some OperationalError)))"
    if stuck: "endpoint_of_row (db_session db) = Inl e" "v < 7" for e
  proof -
    have "v \<le> 6"
      using stuck(2) by simp
    then obtain db' where db': "update_loop ?ks v db = (db', Some e)" "db_version db' = v"
        "db_objects db' @ [''sessions.server_address'', ''sessions.port''] = db_objects db @ added_from v"
        "db_session db' = db_session db" "db_peers db' = (if v = 1 then [] else db_peers db)"
      using update_loop_stuck [OF assms stuck(1) _ refl] v(2) by blast
    have "update_database (db'\<lparr>db_session := row\<rparr>) = (db'\<lparr>db_session := row\<rparr>, Some OperationalError)" if "v < 6" for row
      using v(1) that db'(2,3,5)
      by (elim insertE emptyE) (auto simp: update_database_def migrate_def added_from_def USERNAMES_SCHEMA_def
          UPDATE_STATE_SCHEMA_def)
    then show ?thesis
      using db' run [OF v(2)] by auto
  qed
  ultimately show ?thesis
    by blast
qed

text \<open>A file of version 5 with the tables of that time.\<close>

definition version_5 :: "int \<Rightarrow> int \<Rightarrow> database" where
  "version_5 dc test_mode = \<lparr>db_version = 5,
     db_objects = [''sessions'', ''sessions.dc_id'', ''sessions.api_id'', ''sessions.test_mode'', ''peers'', ''usernames'',
       ''idx_usernames_username'', ''update_state'', ''version''], db_peers = [],
     db_session = created_row\<lparr>ses_dc_id := Some dc, ses_test_mode := Some test_mode, ses_server_address := None, ses_port := None\<rparr>\<rparr>"

lemma version_5: "of_version 5 (version_5 dc t)"
  by (simp add: of_version_def version_5_def VERSION_def added_from_def)

theorem migration_completes_or_breaks_witness:
  "(\<exists>db'. update_database (version_5 4 0) = (db', None) \<and> ses_server_address (db_session db') = Some ''149.154.167.91'' \<and>
      ''idx_usernames_id'' \<in> set (db_objects db')) \<and>
   (\<exists>db'. update_database (version_5 4 1) = (db', Some (KeyError 4)) \<and> db_version db' = 5 \<and>
      update_database (db'\<lparr>db_session := (db_session db')\<lparr>ses_dc_id := Some 2\<rparr>\<rparr>) =
        (db'\<lparr>db_session := (db_session db')\<lparr>ses_dc_id := Some 2\<rparr>\<rparr>, Some OperationalError))"
proof (intro conjI)
  have known: "endpoint_of_row (db_session (version_5 4 0)) = Inr (''149.154.167.91'', 443)"
    by (simp add: endpoint_of_row_def version_5_def as_bool_def get_dc_endpoint_def PROD_table_def)
  show "\<exists>db'. update_database (version_5 4 0) = (db', None) \<and> ses_server_address (db_session db') = Some ''149.154.167.91'' \<and>
      ''idx_usernames_id'' \<in> set (db_objects db')"
    using migration_completes_or_breaks [OF version_5, THEN conjunct1, rule_format, OF known] by (auto simp: added_from_def)
  have "endpoint_of_row (db_session (version_5 4 1)) = Inl (KeyError 4)"
    by (simp add: endpoint_of_row_def version_5_def as_bool_def get_dc_endpoint_def TEST_table_def)
  then show "\<exists>db'. update_database (version_5 4 1) = (db', Some (KeyError 4)) \<and> db_version db' = 5 \<and>
      update_database (db'\<lparr>db_session := (db_session db')\<lparr>ses_dc_id := Some 2\<rparr>\<rparr>) =
        (db'\<lparr>db_session := (db_session db')\<lparr>ses_dc_id := Some 2\<rparr>\<rparr>, Some OperationalError)"
    using migration_completes_or_breaks [OF version_5, THEN conjunct2, rule_format, of 4 1 "KeyError 4"] by auto
qed

end
