(* ===== verification/Rpc_Errors.thy ===== *)
theory Rpc_Errors
  imports Prelude
begin

text \<open>
  Errors of the server (errors/rpc\_error.py): how the text of an error is split into the
  identifier of a table row and a parameter, and which exception is raised. The tables and the
  exception classes are generated and appear as the parameter \<open>exceptions\<close>, which gives for
  a code the map from identifiers to class names. The description in the text of the exception,
  and the log of unknown errors, are not modelled. A text is a list of characters below 256.
\<close>

section \<open>Splitting a message\<close>

definition STRING_PARAMETER_PREFIXES :: "string list" where
  "STRING_PARAMETER_PREFIXES = [''APNS_VERIFY_CHECK_'', ''INTEGRITY_CHECK_CLASSIC_'', ''RECAPTCHA_CHECK_'']"

definition CATEGORY :: string where "CATEGORY = ''_''"

definition is_digit :: "char \<Rightarrow> bool" where
  "is_digit c = (48 \<le> (of_char c :: nat) \<and> of_char c \<le> (57 :: nat))"

definition starts_parameter :: "char \<Rightarrow> string \<Rightarrow> bool" where
  "starts_parameter c cs = (c = CHR ''_'' \<and> takeWhile is_digit cs \<noteq> [])"

text \<open>The group of the first match of \<open>_(\d+)\<close>, and the text with every match replaced by
  \<open>_X\<close>.\<close>

fun search_parameter :: "string \<Rightarrow> string option" where
  "search_parameter [] = None"
| "search_parameter (c # cs) = (if starts_parameter c cs then Some (takeWhile is_digit cs) else search_parameter cs)"

function sub_parameter :: "string \<Rightarrow> string" where
  "sub_parameter [] = []"
| "sub_parameter (c # cs) =
    (if starts_parameter c cs then CHR ''_'' # CHR ''X'' # sub_parameter (dropWhile is_digit cs)
     else c # sub_parameter cs)"
  by pat_completeness auto
termination
  by (relation "measure length") (auto simp: length_dropWhile_le less_Suc_eq_le)

definition starts_with :: "string \<Rightarrow> string \<Rightarrow> bool" where
  "starts_with prefix s = (take (length prefix) s = prefix)"

definition split_error_message :: "string \<Rightarrow> string \<times> string option" where
  "split_error_message error_message =
    (case find (\<lambda>prefix. starts_with prefix error_message) STRING_PARAMETER_PREFIXES of
       Some prefix \<Rightarrow> (prefix @ ''X'', Some (drop (length prefix) error_message))
     | None \<Rightarrow>
         (case search_parameter error_message of
            None \<Rightarrow> (error_message, None)
          | Some v \<Rightarrow> (sub_parameter error_message, Some v)))"


section \<open>The exception\<close>

record rpc_error =
  error_code :: int
  error_message :: string

datatype parameter = NumberParameter nat | TextParameter string

record rpc_exception =
  exc_class :: string
  exc_parameter :: "parameter option"
  exc_raw :: rpc_error
  exc_is_unknown :: bool
  exc_is_signed :: bool
  exc_caused_by :: string

definition wire_text :: "rpc_error \<Rightarrow> string" where
  "wire_text e = ''['' @ int_dec \<bar>error_code e\<bar> @ '' '' @ error_message e @ '']''"

text \<open>The constructor's reading of the value: a text of digits is a number, and an unknown error
  has no parameter.\<close>

definition parameter_of :: "string option \<Rightarrow> bool \<Rightarrow> parameter option" where
  "parameter_of value is_unknown =
    (if is_unknown then None
     else (case value of
       None \<Rightarrow> None
     | Some s \<Rightarrow> Some (if s \<noteq> [] \<and> list_all is_digit s then NumberParameter (dec_val s) else TextParameter s)))"

definition rpc_error_init ::
  "string \<Rightarrow> string option \<Rightarrow> string \<Rightarrow> bool \<Rightarrow> bool \<Rightarrow> rpc_error \<Rightarrow> rpc_exception" where
  "rpc_error_init cls value rpc_name is_unknown is_signed raw_error =
    \<lparr>exc_class = cls, exc_parameter = parameter_of value is_unknown, exc_raw = raw_error,
     exc_is_unknown = is_unknown, exc_is_signed = is_signed, exc_caused_by = rpc_name\<rparr>"

text \<open>\<open>value\<close>: the parameter of a known error, the text off the wire of an unknown one.\<close>

definition exc_value :: "rpc_exception \<Rightarrow> parameter option" where
  "exc_value e = (if exc_is_unknown e then Some (TextParameter (wire_text (exc_raw e))) else exc_parameter e)"

definition rpc_name_of :: "string \<Rightarrow> string" where
  "rpc_name_of qualname = tl (dropWhile (\<lambda>c. c \<noteq> CHR ''.'') qualname)"

text \<open>\<open>raise_it\<close>, whose result is the exception it raises. A row without its category is
  a \<open>KeyError\<close>; its key is a text, for which the model keeps the code.\<close>

definition raise_it :: "(int \<Rightarrow> (string \<Rightarrow> string option) option) \<Rightarrow> rpc_error \<Rightarrow> string \<Rightarrow> rpc_exception res" where
  "raise_it exceptions e qualname =
    (let is_signed = error_code e < 0;
         code = (if is_signed then - error_code e else error_code e);
         rpc_name = rpc_name_of qualname;
         raw_text = wire_text e in
     case exceptions code of
       None \<Rightarrow> Inr (rpc_error_init ''UnknownError'' (Some raw_text) rpc_name True is_signed e)
     | Some table \<Rightarrow>
         let (error_id, value) = split_error_message (error_message e) in
         (case table error_id of
            None \<Rightarrow>
              (case table CATEGORY of
                 None \<Rightarrow> Inl (KeyError code)
               | Some cls \<Rightarrow> Inr (rpc_error_init cls (Some raw_text) rpc_name True is_signed e))
          | Some cls \<Rightarrow> Inr (rpc_error_init cls value rpc_name False is_signed e)))"


section \<open>What is raised\<close>

definition plain :: "string \<Rightarrow> bool" where
  "plain s = (search_parameter s = None)"

lemma sub_parameter_plain: "plain s \<Longrightarrow> sub_parameter s = s"
  by (induction s rule: sub_parameter.induct) (auto simp: plain_def split: if_splits)

lemma is_digit_simps [simp]: "\<not> is_digit CHR ''_''"
  by (simp add: is_digit_def)

lemma nat_dec_is_digit: "list_all is_digit (nat_dec n)"
  using nat_dec_digits by (auto simp: list_all_iff is_digit_def)

lemma nat_dec_nonempty [simp]: "nat_dec n \<noteq> []"
  by (subst nat_dec.simps) auto

lemma takeWhile_digits: "list_all is_digit ds \<Longrightarrow> takeWhile is_digit ds = ds \<and> dropWhile is_digit ds = []"
  by (simp add: list_all_iff takeWhile_eq_all_conv)

lemma starts_append:
  "starts_parameter c (cs @ CHR ''_'' # ds) = starts_parameter c cs"
  by (cases cs) (auto simp: starts_parameter_def)

lemma split_with_number:
  assumes "plain p" and "list_all is_digit ds" and "ds \<noteq> []"
  shows "search_parameter (p @ CHR ''_'' # ds) = Some ds \<and> sub_parameter (p @ CHR ''_'' # ds) = p @ ''_X''"
  using assms
proof (induction p)
  case Nil
  then show ?case
    by (simp add: starts_parameter_def takeWhile_digits)
next
  case (Cons c p)
  then have "\<not> starts_parameter c p" "plain p"
    by (auto simp: plain_def split: if_splits)
  then show ?case
    using Cons.IH Cons.prems by (simp add: starts_append)
qed

definition text_prefixed :: "string \<Rightarrow> bool" where
  "text_prefixed m = (\<exists>prefix \<in> set STRING_PARAMETER_PREFIXES. starts_with prefix m)"

lemma find_prefix: "find (\<lambda>prefix. starts_with prefix m) STRING_PARAMETER_PREFIXES = None \<longleftrightarrow> \<not> text_prefixed m"
  by (auto simp: find_None_iff text_prefixed_def)

lemma dec_val_digits: "parameter_of (Some (nat_dec n)) False = Some (NumberParameter n)"
  by (simp add: parameter_of_def nat_dec_is_digit)

lemma raise_it_abs:
  "raise_it exceptions e qualname =
    (case exceptions \<bar>error_code e\<bar> of
       None \<Rightarrow> Inr (rpc_error_init ''UnknownError'' (Some (wire_text e)) (rpc_name_of qualname) True (error_code e < 0) e)
     | Some table \<Rightarrow>
         (case table (fst (split_error_message (error_message e))) of
            None \<Rightarrow>
              (case table CATEGORY of
                 None \<Rightarrow> Inl (KeyError \<bar>error_code e\<bar>)
               | Some cls \<Rightarrow> Inr (rpc_error_init cls (Some (wire_text e)) (rpc_name_of qualname) True (error_code e < 0) e))
          | Some cls \<Rightarrow> Inr (rpc_error_init cls (snd (split_error_message (error_message e))) (rpc_name_of qualname) False (error_code e < 0) e)))"
  unfolding raise_it_def Let_def abs_if [symmetric] by (cases "split_error_message (error_message e)") (simp split: option.split)

text \<open>An error with a number in its text is raised as the class of its table row, with the
  number as its parameter, whatever the sign of its code; the error off the wire is kept and the
  value read from the exception is that number.\<close>

theorem known_error_with_number:
  assumes "plain p" and "\<not> text_prefixed (p @ ''_'' @ nat_dec n)"
    and "exceptions \<bar>code\<bar> = Some table" and "table (p @ ''_X'') = Some cls"
  shows "\<exists>exc. raise_it exceptions \<lparr>error_code = code, error_message = p @ ''_'' @ nat_dec n\<rparr> qualname = Inr exc \<and>
    exc_class exc = cls \<and> exc_value exc = Some (NumberParameter n) \<and> exc_is_signed exc = (code < 0) \<and>
    exc_raw exc = \<lparr>error_code = code, error_message = p @ ''_'' @ nat_dec n\<rparr>"
proof -
  have "split_error_message (p @ ''_'' @ nat_dec n) = (p @ ''_X'', Some (nat_dec n))"
    using assms(2) split_with_number [OF assms(1) nat_dec_is_digit [of n]]
    by (simp add: split_error_message_def find_prefix [THEN iffD2])
  then show ?thesis
    using assms(3,4) by (simp add: raise_it_abs rpc_error_init_def exc_value_def dec_val_digits)
qed

definition flood_table :: "int \<Rightarrow> (string \<Rightarrow> string option) option" where
  "flood_table code = (if code = 420 then Some (map_of [(''_'', ''Flood''), (''FLOOD_WAIT_X'', ''FloodWait'')]) else None)"

theorem known_error_with_number_witness:
  "\<exists>exc. raise_it flood_table \<lparr>error_code = 420, error_message = ''FLOOD_WAIT_42''\<rparr> ''functions.auth.SendCode'' = Inr exc \<and>
     exc_class exc = ''FloodWait'' \<and> exc_value exc = Some (NumberParameter 42)"
proof -
  have n: "nat_dec 42 = ''42''"
    by (simp add: nat_dec.simps)
      (simp add: char_of_eq_iff)
  have "\<not> text_prefixed (''FLOOD_WAIT'' @ ''_'' @ nat_dec 42)"
    by (simp add: n text_prefixed_def STRING_PARAMETER_PREFIXES_def starts_with_def)
  moreover have "plain ''FLOOD_WAIT''"
    by (simp add: plain_def starts_parameter_def is_digit_def)
  ultimately show ?thesis
    using known_error_with_number [of "''FLOOD_WAIT''" 42 flood_table 420 "the (flood_table 420)" "''FloodWait''" "''functions.auth.SendCode''"]
    by (force simp: flood_table_def n)
qed

text \<open>Every error of the server is raised as some exception, as long as each code of the
  tables has a category: a class of its code's table when the code is in the tables, unknown
  exactly when the code or the identifier is not, and an unknown error shows the text off the
  wire.\<close>

theorem raise_it_total:
  assumes "\<forall>code table. exceptions code = Some table \<longrightarrow> table CATEGORY \<noteq> None"
  shows "\<exists>exc. raise_it exceptions e qualname = Inr exc \<and> exc_raw exc = e \<and>
    (exc_is_unknown exc \<longleftrightarrow> (\<forall>table. exceptions \<bar>error_code e\<bar> = Some table \<longrightarrow>
        table (fst (split_error_message (error_message e))) = None)) \<and>
    (\<forall>table. exceptions \<bar>error_code e\<bar> = Some table \<longrightarrow> (\<exists>i. table i = Some (exc_class exc))) \<and>
    (exc_is_unknown exc \<longrightarrow> exc_value exc = Some (TextParameter (wire_text e)))"
proof (cases "exceptions \<bar>error_code e\<bar>")
  case None
  then show ?thesis
    by (simp add: raise_it_abs rpc_error_init_def exc_value_def)
next
  case (Some table)
  then obtain category where "table CATEGORY = Some category"
    using assms by blast
  then show ?thesis
    using Some by (auto simp: raise_it_abs rpc_error_init_def exc_value_def split: option.split)
qed

theorem raise_it_total_witness:
  "\<exists>exc. raise_it flood_table \<lparr>error_code = -420, error_message = ''NEW''\<rparr> ''functions.help.GetConfig'' = Inr exc \<and>
     exc_is_unknown exc \<and> exc_value exc = Some (TextParameter (wire_text \<lparr>error_code = -420, error_message = ''NEW''\<rparr>))"
proof -
  have s: "split_error_message ''NEW'' = (''NEW'', None)"
    by (simp add: split_error_message_def STRING_PARAMETER_PREFIXES_def starts_with_def starts_parameter_def)
  let ?e = "\<lparr>error_code = -420, error_message = ''NEW''\<rparr>"
  have row: "\<forall>code table. flood_table code = Some table \<longrightarrow> table CATEGORY \<noteq> None"
    by (simp add: flood_table_def CATEGORY_def)
  obtain exc where exc: "raise_it flood_table ?e ''functions.help.GetConfig'' = Inr exc"
      "exc_is_unknown exc \<longrightarrow> exc_value exc = Some (TextParameter (wire_text ?e))"
      "exc_is_unknown exc \<longleftrightarrow> (\<forall>table. flood_table \<bar>error_code ?e\<bar> = Some table \<longrightarrow>
        table (fst (split_error_message (error_message ?e))) = None)"
    using raise_it_total [OF row, of ?e "''functions.help.GetConfig''"] by blast
  then have "exc_is_unknown exc"
    using s by (simp add: flood_table_def)
  with exc show ?thesis
    by blast
qed

end
