(* ===== verification/Prime.thy ===== *)
theory Prime
  imports Prelude Complex_Main
begin

text \<open>
  Arithmetic of the key exchange: \<open>pow\<close> with three arguments and the factorisation of the
  server's \<open>pq\<close> (crypto/prime.py). The three numbers \<open>randint\<close> draws are arguments. Each
  loop of the factorisation is a partial function, whose value \<open>None\<close> means that it runs for
  ever; that it does not is proved.
\<close>

section \<open>Modular powers\<close>

fun powmod_nat :: "int \<Rightarrow> nat \<Rightarrow> int \<Rightarrow> int" where
  "powmod_nat b e n =
    (if e = 0 then 1 mod n
     else let h = powmod_nat (b * b mod n) (e div 2) n in if even e then h else b * h mod n)"

declare powmod_nat.simps [simp del]

lemma powmod_nat: "powmod_nat b e n = b ^ e mod n"
proof (induction b e n rule: powmod_nat.induct)
  case (1 b e n)
  show ?case
  proof (cases "e = 0")
    case True
    then show ?thesis
      by (simp add: powmod_nat.simps)
  next
    case False
    have h: "powmod_nat (b * b mod n) (e div 2) n = (b * b) ^ (e div 2) mod n"
      using 1 False by (simp add: power_mod)
    show ?thesis
    proof (cases "even e")
      case True
      then have "(b * b) ^ (e div 2) = b ^ e"
        by (simp add: power2_eq_square [symmetric] power_mult [symmetric])
      then show ?thesis
        using False True h by (simp add: powmod_nat.simps [of b e])
    next
      case odd: False
      then have "b * (b * b) ^ (e div 2) = b ^ e"
        by (simp add: power2_eq_square [symmetric] power_mult [symmetric] odd_two_times_div_two_nat flip: power_Suc)
      then show ?thesis
        using False odd h by (simp add: powmod_nat.simps [of b e] mod_mult_right_eq)
    qed
  qed
qed

text \<open>\<open>pow(b, e, n)\<close> for an exponent that is not negative and a modulus that is positive.\<close>

definition powmod :: "int \<Rightarrow> int \<Rightarrow> int \<Rightarrow> int" where
  "powmod b e n = powmod_nat b (nat e) n"

lemma powmod: "powmod b e n = b ^ nat e mod n"
  by (simp add: powmod_def powmod_nat)

lemma powmod_bounds: "0 < n \<Longrightarrow> 0 \<le> powmod b e n \<and> powmod b e n < n"
  by (simp add: powmod)

lemma powmod_powmod: "0 \<le> d \<Longrightarrow> 0 \<le> e \<Longrightarrow> powmod (powmod b d n) e n = powmod b (d * e) n"
  by (simp add: powmod power_mod nat_mult_distrib flip: power_mult)

definition CURRENT_DH_PRIME :: int where
  "CURRENT_DH_PRIME = 0xC71CAEB9C6B1C9048E6C522F70F13F73980D40238E3E21C14934D037563D930F48198A0AA7C14058229493D22530F4DBFA336F6E0AC925139543AED44CCE7C3720FD51F69458705AC68CD4FE6B6B13ABDC9746512969328454F18FAF8C595F642477FE96BB2A941D5BCD1D4AC8CC49880708FA9B378E3C4F3A9060BEE67CF9A4A4A695811051907E162753B56B0F6B410DBA74D8A84B2A14B3144E0EF1284754FD17ED950D5965B4B9DD46582DB1178D169C6BC465B0D6FF9CA3928FEF5B9AE4E418FC15E83EBEA0F87FA9FF5EED70050DED2849F47BF959D956850CE929851F0D8115F635B105EE2E4E15D04B2454BF6F4FADF034B10403119CD8E3B92FCC5B"


section \<open>Pollard's rho after Brent\<close>

definition rho_step :: "int \<Rightarrow> int \<Rightarrow> int \<Rightarrow> int" where
  "rho_step pq c y = (powmod y 2 pq + c) mod pq"

text \<open>The loop \<open>for _ in range(min(m, r - k))\<close>, on \<open>y\<close> and \<open>q\<close>.\<close>

fun rho_chunk :: "int \<Rightarrow> int \<Rightarrow> int \<Rightarrow> nat \<Rightarrow> int \<Rightarrow> int \<Rightarrow> int \<times> int" where
  "rho_chunk pq c x 0 y q = (y, q)"
| "rho_chunk pq c x (Suc n) y q =
    (let y = rho_step pq c y in rho_chunk pq c x n y (q * \<bar>x - y\<bar> mod pq))"

text \<open>The loop \<open>while k < r and g == 1\<close>.\<close>

partial_function (option) rho_inner ::
  "int \<Rightarrow> int \<Rightarrow> nat \<Rightarrow> int \<Rightarrow> nat \<Rightarrow> nat \<Rightarrow> int \<Rightarrow> int \<Rightarrow> int \<Rightarrow> int \<Rightarrow> (int \<times> int \<times> int \<times> int) option" where
  "rho_inner pq c m x r k y ys q g =
    (if k < r \<and> g = 1
     then (let yq = rho_chunk pq c x (min m (r - k)) y q in
       rho_inner pq c m x r (k + m) (fst yq) y (snd yq) (gcd (snd yq) pq))
     else Some (y, ys, q, g))"

text \<open>The loop \<open>while g == 1\<close>, which is entered with \<open>g = 1\<close>.\<close>

partial_function (option) rho_outer ::
  "int \<Rightarrow> int \<Rightarrow> nat \<Rightarrow> nat \<Rightarrow> int \<Rightarrow> int \<Rightarrow> int \<Rightarrow> (int \<times> int \<times> int) option" where
  "rho_outer pq c m r y ys q =
    Option.bind (rho_inner pq c m y r 0 ((rho_step pq c ^^ r) y) ys q 1) (\<lambda>res.
      case res of (y', ys', q', g) \<Rightarrow>
        if g = 1 then rho_outer pq c m (r * 2) y' ys' q' else Some (y, ys', g))"

text \<open>The loop \<open>while True\<close> that goes back over the last chunk step by step.\<close>

partial_function (option) rho_back :: "int \<Rightarrow> int \<Rightarrow> int \<Rightarrow> int \<Rightarrow> int option" where
  "rho_back pq c x ys =
    (let ys = rho_step pq c ys; g = gcd \<bar>x - ys\<bar> pq in if g > 1 then Some g else rho_back pq c x ys)"

definition decompose :: "int \<Rightarrow> int \<Rightarrow> int \<Rightarrow> nat \<Rightarrow> int option" where
  "decompose pq y c m =
    (if pq mod 2 = 0 then Some 2
     else Option.bind (rho_outer pq c m 1 y 0 1) (\<lambda>(x, ys, g).
       if g = pq then rho_back pq c x ys else Some g))"


section \<open>The factorisation ends with a divisor\<close>

abbreviation rho_iter :: "int \<Rightarrow> int \<Rightarrow> nat \<Rightarrow> int \<Rightarrow> int" where
  "rho_iter pq c n \<equiv> rho_step pq c ^^ n"

lemma rho_chunk:
  "pq \<noteq> 0 \<Longrightarrow> rho_chunk pq c x n y q = (y', q') \<Longrightarrow>
    y' = rho_iter pq c n y \<and>
    (coprime q' pq \<longleftrightarrow> coprime q pq \<and> (\<forall>i. 1 \<le> i \<and> i \<le> n \<longrightarrow> coprime \<bar>x - rho_iter pq c i y\<bar> pq))"
proof (induction n arbitrary: y q)
  case (Suc n)
  let ?y = "rho_step pq c y"
  have IH: "y' = rho_iter pq c n ?y"
    "coprime q' pq \<longleftrightarrow> coprime (q * \<bar>x - ?y\<bar> mod pq) pq \<and> (\<forall>i. 1 \<le> i \<and> i \<le> n \<longrightarrow> coprime \<bar>x - rho_iter pq c i ?y\<bar> pq)"
    using Suc.IH [of ?y "q * \<bar>x - ?y\<bar> mod pq"] Suc.prems by (simp_all add: Let_def)
  have "(\<forall>i. 1 \<le> i \<and> i \<le> Suc n \<longrightarrow> coprime \<bar>x - rho_iter pq c i y\<bar> pq) \<longleftrightarrow>
      coprime \<bar>x - ?y\<bar> pq \<and> (\<forall>i. 1 \<le> i \<and> i \<le> n \<longrightarrow> coprime \<bar>x - rho_iter pq c i ?y\<bar> pq)"
    (is "?L \<longleftrightarrow> ?R")
  proof
    assume ?L
    show ?R
    proof (intro conjI allI impI)
      show "coprime \<bar>x - ?y\<bar> pq"
        using \<open>?L\<close> [rule_format, of 1] by simp
      show "coprime \<bar>x - rho_iter pq c i ?y\<bar> pq" if "1 \<le> i \<and> i \<le> n" for i
        using \<open>?L\<close> [rule_format, of "Suc i"] that by (simp add: funpow_swap1)
    qed
  next
    assume R: ?R
    show ?L
    proof (intro allI impI)
      fix i :: nat
      assume "1 \<le> i \<and> i \<le> Suc n"
      then obtain j where "i = Suc j" "j \<le> n"
        by (cases i) auto
      then show "coprime \<bar>x - rho_iter pq c i y\<bar> pq"
        using R by (cases j) (auto simp: funpow_swap1)
    qed
  qed
  moreover have "coprime (q * \<bar>x - ?y\<bar> mod pq) pq \<longleftrightarrow> coprime q pq \<and> coprime \<bar>x - ?y\<bar> pq"
    using Suc.prems(1) by simp
  ultimately show ?case
    using IH by (auto simp: funpow_swap1)
qed simp

text \<open>One round ends, whatever it finds. If nothing is found, all the differences of the round are
  coprime to \<open>pq\<close>; if something is found, walking on from \<open>ys\<close> finds it again.\<close>

lemma rho_inner_ends:
  assumes "0 < m" and "1 < pq" and "y = rho_iter pq c k y0" and "g = 1 \<longrightarrow> coprime q pq"
    and "g = 1 \<longrightarrow> (\<forall>i. 1 \<le> i \<and> i \<le> k \<longrightarrow> coprime \<bar>x - rho_iter pq c i y0\<bar> pq)"
    and "g \<noteq> 1 \<longrightarrow> g = gcd q pq \<and> (\<exists>s. 1 \<le> s \<and> \<not> coprime \<bar>x - rho_iter pq c s ys\<bar> pq)"
    and "k \<le> r"
  shows "\<exists>y' ys' q' g'. rho_inner pq c m x r k y ys q g = Some (y', ys', q', g') \<and>
    (g' = 1 \<longrightarrow> y' = rho_iter pq c r y0 \<and> coprime q' pq \<and>
       (\<forall>i. 1 \<le> i \<and> i \<le> r \<longrightarrow> coprime \<bar>x - rho_iter pq c i y0\<bar> pq)) \<and>
    (g' \<noteq> 1 \<longrightarrow> g' = gcd q' pq \<and> (\<exists>s. 1 \<le> s \<and> \<not> coprime \<bar>x - rho_iter pq c s ys'\<bar> pq))"
  using assms(3-)
proof (induction "r - k" arbitrary: k y ys q g rule: less_induct)
  case less
  show ?case
  proof (cases "k < r \<and> g = 1")
    case False
    then have "g = 1 \<longrightarrow> k = r"
      using less.prems(5) by auto
    then show ?thesis
      using False less.prems by (subst rho_inner.simps) auto
  next
    case True
    define n where "n = min m (r - k)"
    obtain y1 q1 where ch: "rho_chunk pq c x n y q = (y1, q1)"
      by fastforce
    have n: "0 < n" "k + n \<le> r"
      using True \<open>0 < m\<close> by (auto simp: n_def)
    have "y1 = rho_iter pq c (n + k) y0"
      and q1: "coprime q1 pq \<longleftrightarrow> (\<forall>i. 1 \<le> i \<and> i \<le> n \<longrightarrow> coprime \<bar>x - rho_iter pq c i y\<bar> pq)"
      using rho_chunk [OF _ ch] less.prems(1,2) True \<open>1 < pq\<close> by (simp_all add: funpow_add)
    then have y1: "y1 = rho_iter pq c (k + n) y0"
      by (simp add: add.commute)
    have eq: "rho_inner pq c m x r k y ys q g = rho_inner pq c m x r (k + m) y1 y q1 (gcd q1 pq)"
      using True ch by (subst rho_inner.simps) (simp add: n_def)
    have found: "gcd q1 pq \<noteq> 1 \<longrightarrow> (\<exists>s. 1 \<le> s \<and> \<not> coprime \<bar>x - rho_iter pq c s y\<bar> pq)"
      using q1 by (auto simp: coprime_iff_gcd_eq_1)
    have fresh: "coprime \<bar>x - rho_iter pq c i y0\<bar> pq" if "gcd q1 pq = 1" "1 \<le> i" "i \<le> k + n" for i
    proof (cases "i \<le> k")
      case True
      then show ?thesis
        using less.prems(3) \<open>k < r \<and> g = 1\<close> that by blast
    next
      case False
      then have "rho_iter pq c i y0 = rho_iter pq c ((i - k) + k) y0"
        by simp
      also have "\<dots> = rho_iter pq c (i - k) y"
        by (simp only: funpow_add o_apply less.prems(1))
      finally have "rho_iter pq c i y0 = rho_iter pq c (i - k) y" .
      moreover have "1 \<le> i - k \<and> i - k \<le> n" "coprime q1 pq"
        using that False by (linarith, simp only: coprime_iff_gcd_eq_1)
      ultimately show ?thesis
        using q1 by metis
    qed
    show ?thesis
    proof (cases "k + m < r")
      case True
      then have "n = m"
        by (simp add: n_def)
      show ?thesis
        unfolding eq
      proof (rule less.hyps)
        show "r - (k + m) < r - k"
          using True \<open>0 < m\<close> by simp
        show "y1 = rho_iter pq c (k + m) y0"
          using y1 \<open>n = m\<close> by simp
        show "gcd q1 pq = 1 \<longrightarrow> coprime q1 pq"
          by (simp add: coprime_iff_gcd_eq_1)
        show "gcd q1 pq = 1 \<longrightarrow> (\<forall>i. 1 \<le> i \<and> i \<le> k + m \<longrightarrow> coprime \<bar>x - rho_iter pq c i y0\<bar> pq)"
          using fresh \<open>n = m\<close> by auto
        show "gcd q1 pq \<noteq> 1 \<longrightarrow> gcd q1 pq = gcd q1 pq \<and> (\<exists>s. 1 \<le> s \<and> \<not> coprime \<bar>x - rho_iter pq c s y\<bar> pq)"
          using found by blast
        show "k + m \<le> r"
          using True by simp
      qed
    next
      case False
      then have kn: "k + n = r"
        using \<open>k < r \<and> g = 1\<close> by (auto simp: n_def)
      have eq2: "rho_inner pq c m x r (k + m) y1 y q1 (gcd q1 pq) = Some (y1, y, q1, gcd q1 pq)"
        using False by (subst rho_inner.simps) simp
      have r: "gcd q1 pq = 1 \<longrightarrow> (\<forall>i. 1 \<le> i \<and> i \<le> r \<longrightarrow> coprime \<bar>x - rho_iter pq c i y0\<bar> pq)"
          "y1 = rho_iter pq c r y0"
        using fresh y1 kn by auto
      show ?thesis
        unfolding eq eq2
        by (rule exI, rule exI, rule exI, rule exI, rule conjI [OF refl])
          (use found r coprime_iff_gcd_eq_1 [of q1 pq] in blast)
    qed
  qed
qed

text \<open>Among the first \<open>pq + 1\<close> values two are equal, so from there on the values repeat
  with a period of at most \<open>pq\<close>.\<close>

lemma rho_step_bounds: "0 < pq \<Longrightarrow> 0 \<le> rho_step pq c y \<and> rho_step pq c y < pq"
  by (simp add: rho_step_def)

lemma rho_iter_bounds: "0 < pq \<Longrightarrow> 0 \<le> y \<Longrightarrow> y < pq \<Longrightarrow> 0 \<le> rho_iter pq c n y \<and> rho_iter pq c n y < pq"
  by (cases n) (auto simp: rho_step_bounds)

lemma rho_periodic:
  assumes "0 < pq" and "0 \<le> y" and "y < pq" and "nat pq \<le> n" and "nat pq \<le> r"
  shows "\<exists>i. r < i \<and> i \<le> 2 * r \<and> rho_iter pq c i (rho_iter pq c n y) = rho_iter pq c n y"
proof -
  let ?f = "\<lambda>i. rho_iter pq c i y"
  have "?f ` {0..nat pq} \<subseteq> {0..<pq}"
    using rho_iter_bounds [OF assms(1-3)] by auto
  then have "card (?f ` {0..nat pq}) \<le> card {0..<pq}"
    by (intro card_mono) auto
  then have "\<not> inj_on ?f {0..nat pq}"
    by (intro pigeonhole) simp
  then obtain a b where ab: "a < b" "b \<le> nat pq" "?f a = ?f b"
    by (auto simp: inj_on_def) (metis nat_neq_iff)
  define l where "l = b - a"
  have l: "0 < l" "l \<le> nat pq"
    using ab by (simp_all add: l_def)
  have period: "rho_iter pq c l (?f j) = ?f j" if "a \<le> j" for j
  proof -
    have "?f (l + j) = rho_iter pq c (j - a) (?f b)"
      using that ab(1) by (simp add: l_def add.commute flip: funpow_add [THEN fun_cong, unfolded o_apply])
    also have "\<dots> = rho_iter pq c (j - a) (?f a)"
      by (simp add: ab(3))
    also have "\<dots> = ?f j"
      using that by (simp flip: funpow_add [THEN fun_cong, unfolded o_apply])
    finally show ?thesis
      by (simp add: funpow_add)
  qed
  let ?x = "?f n"
  have "a \<le> n"
    using ab assms(4) by simp
  have multiple: "rho_iter pq c (t * l) ?x = ?x" for t
    by (induction t) (simp_all add: funpow_add period [OF \<open>a \<le> n\<close>])
  let ?t = "r div l + 1"
  have "r < ?t * l" "?t * l \<le> r + l"
    using l(1) by (simp_all add: dividend_less_div_times)
  moreover have "l \<le> r"
    using l(2) assms(5) by simp
  ultimately have "r < ?t * l" "?t * l \<le> 2 * r"
    by linarith+
  then show ?thesis
    using multiple [of ?t] by blast
qed

lemma rho_outer_ends:
  assumes "0 < m" and "1 < pq" and "0 \<le> y0" and "y0 < pq" and "1 \<le> r"
    and "y = rho_iter pq c n y0" and "2 * r \<le> n + 2" and "coprime q pq"
  shows "\<exists>x ys g. rho_outer pq c m r y ys0 q = Some (x, ys, g) \<and> g dvd pq \<and> 1 < g \<and>
    (\<exists>s. 1 \<le> s \<and> \<not> coprime \<bar>x - rho_iter pq c s ys\<bar> pq)"
  using assms(5-)
proof (induction "2 * nat pq - r" arbitrary: r y n q ys0 rule: less_induct)
  case less
  let ?y = "rho_iter pq c r y"
  have "\<exists>y' ys' q' g'. rho_inner pq c m y r 0 ?y ys0 q 1 = Some (y', ys', q', g') \<and>
    (g' = 1 \<longrightarrow> y' = rho_iter pq c r ?y \<and> coprime q' pq \<and>
       (\<forall>i. 1 \<le> i \<and> i \<le> r \<longrightarrow> coprime \<bar>y - rho_iter pq c i ?y\<bar> pq)) \<and>
    (g' \<noteq> 1 \<longrightarrow> g' = gcd q' pq \<and> (\<exists>s. 1 \<le> s \<and> \<not> coprime \<bar>y - rho_iter pq c s ys'\<bar> pq))"
    by (rule rho_inner_ends [OF assms(1,2)]) (use less.prems(4) in auto)
  then obtain y' ys' q' g' where inner: "rho_inner pq c m y r 0 ?y ys0 q 1 = Some (y', ys', q', g')"
    and none: "g' = 1 \<longrightarrow> y' = rho_iter pq c r ?y \<and> coprime q' pq \<and>
       (\<forall>i. 1 \<le> i \<and> i \<le> r \<longrightarrow> coprime \<bar>y - rho_iter pq c i ?y\<bar> pq)"
    and some: "g' \<noteq> 1 \<longrightarrow> g' = gcd q' pq \<and> (\<exists>s. 1 \<le> s \<and> \<not> coprime \<bar>y - rho_iter pq c s ys'\<bar> pq)"
    by blast
  show ?case
  proof (cases "g' = 1")
    case False
    have "0 \<le> gcd q' pq" "gcd q' pq \<noteq> 0"
      using assms(2) by simp_all
    then have "g' dvd pq" "1 < g'"
      using some False by (simp_all only: gcd_dvd2 not_False_eq_True simp_thms)
    then show ?thesis
      using inner some False by (subst rho_outer.simps) simp
  next
    case True
    have "r < nat pq"
    proof (rule ccontr)
      assume "\<not> r < nat pq"
      then have "nat pq \<le> r" "nat pq \<le> n"
        using less.prems(3) assms(2) by auto
      then obtain i where i: "r < i" "i \<le> 2 * r" "rho_iter pq c i y = y"
        using rho_periodic [of pq y0 n r c] assms(2-4) less.prems(2) by auto
      then have "rho_iter pq c (i - r) ?y = y"
        by (simp flip: funpow_add [THEN fun_cong, unfolded o_apply])
      moreover have "1 \<le> i - r \<and> i - r \<le> r"
        using i by linarith
      then have "coprime \<bar>y - rho_iter pq c (i - r) ?y\<bar> pq"
        using none True by blast
      ultimately show False
        using assms(2) by (simp only: diff_self abs_zero coprime_0_left_iff) simp
    qed
    then have lt: "2 * nat pq - r * 2 < 2 * nat pq - r"
      using less.prems(1) by auto
    have "y' = rho_iter pq c (r + (r + n)) y0"
      using none True by (simp add: less.prems(2) funpow_add)
    then show ?thesis
      using less.hyps [OF lt, of y' "r + (r + n)" q' ys'] less.prems none True inner
      by (subst rho_outer.simps) (auto simp: mult.commute)
  qed
qed

lemma rho_back_ends:
  assumes "1 < pq" and "1 \<le> s" and "\<not> coprime \<bar>x - rho_iter pq c s ys\<bar> pq"
  shows "\<exists>g. rho_back pq c x ys = Some g \<and> g dvd pq \<and> 1 < g"
  using assms(2,3)
proof (induction s arbitrary: ys)
  case (Suc s)
  let ?ys = "rho_step pq c ys" and ?g = "gcd \<bar>x - rho_step pq c ys\<bar> pq"
  show ?case
  proof (cases "?g > 1")
    case True
    then show ?thesis
      by (subst rho_back.simps) (simp add: Let_def)
  next
    case False
    moreover have "0 \<le> ?g" "?g \<noteq> 0"
      using assms(1) by simp_all
    ultimately have one: "?g = 1"
      by linarith
    have "s \<noteq> 0"
      using Suc.prems(2) one unfolding coprime_iff_gcd_eq_1 by (cases s) auto
    then have "\<exists>g. rho_back pq c x ?ys = Some g \<and> g dvd pq \<and> 1 < g"
      using Suc.IH [of ?ys] Suc.prems(2) by (simp only: funpow_Suc_right o_apply) simp
    then show ?thesis
      using False by (subst rho_back.simps) (simp add: Let_def)
  qed
qed simp

lemma decompose_total:
  assumes "1 < pq" and "1 \<le> y" and "y \<le> pq - 1" and "0 < m"
  shows "\<exists>g. decompose pq y c m = Some g \<and> g dvd pq \<and> 1 < g"
proof (cases "pq mod 2 = 0")
  case True
  then show ?thesis
    by (auto simp: decompose_def)
next
  case False
  obtain x ys g s where outer: "rho_outer pq c m 1 y 0 1 = Some (x, ys, g)" "g dvd pq" "1 < g"
      "1 \<le> s" "\<not> coprime \<bar>x - rho_iter pq c s ys\<bar> pq"
    using rho_outer_ends [OF assms(4,1), where y0 = y and r = 1 and y = y and c = c and n = 0 and q = 1 and ?ys0.0 = 0] assms by auto
  show ?thesis
  proof (cases "g = pq")
    case True
    then show ?thesis
      using rho_back_ends [OF assms(1) outer(4,5)] outer(1) False by (simp add: decompose_def)
  next
    case False
    then show ?thesis
      using outer \<open>pq mod 2 \<noteq> 0\<close> by (simp add: decompose_def)
  qed
qed

text \<open>C19: The factorisation of \<open>pq\<close> always ends, for every choice of its three random numbers
  that \<open>randint\<close> can make, and gives a divisor of \<open>pq\<close> greater than 1. (It is
  \<open>pq\<close> itself when \<open>pq\<close> is prime.)\<close>

theorem decompose_terminates:
  assumes "1 < pq" and "1 \<le> y" and "y \<le> pq - 1" and "0 < m"
  shows "\<exists>g. decompose pq y c m = Some g \<and> g dvd pq \<and> 1 < g"
  using assms by (rule decompose_total)

theorem decompose_terminates_witness:
  "\<exists>g. decompose 8051 2 1 3 = Some g \<and> g dvd 8051 \<and> 1 < g"
  using decompose_terminates [of 8051 2 3 1] by simp

end
