(* ===== verification/Srp.thy ===== *)
theory Srp
  imports Prime Ciphers
begin

text \<open>
  The check of the two-step password (utils/crypto.py), the client's side of SRP. The hash
  functions are parameters, a password is its UTF-8 bytes, and the random numbers are a sequence
  of byte strings, one for each turn of the loop that draws them.
\<close>

definition btoi :: "bytes \<Rightarrow> int" where "btoi b = be_int b"
definition itob :: "int \<Rightarrow> bytes res" where "itob i = to_bytes_be 256 False i"

text \<open>\<open>zip(a, b, strict=True)\<close> raises on different lengths.\<close>

definition xor_strict :: "bytes \<Rightarrow> bytes \<Rightarrow> bytes res" where
  "xor_strict a b = (if length a \<noteq> length b then Inl ValueError else Inr (map2 (XOR) a b))"

record password_algo =
  algo_p :: bytes
  algo_g :: int
  algo_salt1 :: bytes
  algo_salt2 :: bytes

record account_password =
  current_algo :: password_algo
  srp_B :: "bytes option"
  srp_id :: "int option"

record check_password_srp =
  check_srp_id :: "int option"
  check_A :: bytes
  check_M1 :: bytes

definition compute_password_hash ::
  "(bytes \<Rightarrow> bytes) \<Rightarrow> (bytes \<Rightarrow> bytes \<Rightarrow> bytes) \<Rightarrow> password_algo \<Rightarrow> bytes \<Rightarrow> bytes" where
  "compute_password_hash sha256 pbkdf2 algo password =
    (let hash1 = sha256 (algo_salt1 algo @ password @ algo_salt1 algo);
         hash2 = sha256 (algo_salt2 algo @ hash1 @ algo_salt2 algo);
         hash3 = pbkdf2 hash2 (algo_salt1 algo)
     in sha256 (algo_salt2 algo @ hash3 @ algo_salt2 algo))"

text \<open>The loop that draws \<open>a\<close> until the scrambler \<open>u\<close> is not zero. \<open>None\<close> is a
  loop that does not end.\<close>

partial_function (option) srp_draw ::
  "(bytes \<Rightarrow> bytes) \<Rightarrow> int \<Rightarrow> int \<Rightarrow> bytes \<Rightarrow> (nat \<Rightarrow> bytes) \<Rightarrow> nat \<Rightarrow> (int \<times> bytes \<times> int) res option" where
  "srp_draw sha256 g p B_bytes rnd i =
    (let a = btoi (rnd i) in
     case itob (powmod g a p) of
       Inl e \<Rightarrow> Some (Inl e)
     | Inr A_bytes \<Rightarrow>
         (let u = btoi (sha256 (A_bytes @ B_bytes)) in
          if u > 0 then Some (Inr (a, A_bytes, u)) else srp_draw sha256 g p B_bytes rnd (i + 1)))"

definition compute_password_check ::
  "(bytes \<Rightarrow> bytes) \<Rightarrow> (bytes \<Rightarrow> bytes \<Rightarrow> bytes) \<Rightarrow> (nat \<Rightarrow> bytes) \<Rightarrow> account_password \<Rightarrow> bytes \<Rightarrow>
    check_password_srp res option" where
  "compute_password_check sha256 pbkdf2 rnd r password =
    (let algo = current_algo r; p_bytes = algo_p algo; p = btoi p_bytes; g = algo_g algo in
     case itob g of Inl e \<Rightarrow> Some (Inl e) | Inr g_bytes \<Rightarrow>
     (case srp_B r of None \<Rightarrow> Some (Inl RuntimeError) | Some B_bytes \<Rightarrow>
      if p = 0 then Some (Inl ValueError)
      else let B = btoi B_bytes;
               x = btoi (compute_password_hash sha256 pbkdf2 algo password);
               g_x = powmod g x p;
               k = btoi (sha256 (p_bytes @ g_bytes));
               kg_x = (k * g_x) mod p in
        (case srp_draw sha256 g p B_bytes rnd 0 of
           None \<Rightarrow> None
         | Some (Inl e) \<Rightarrow> Some (Inl e)
         | Some (Inr (a, A_bytes, u)) \<Rightarrow>
             Some (let g_b = (B - kg_x) mod p; ux = u * x; a_ux = a + ux; S = powmod g_b a_ux p in
               bind_res (itob S) (\<lambda>S_bytes. let K_bytes = sha256 S_bytes in
               bind_res (xor_strict (sha256 p_bytes) (sha256 g_bytes)) (\<lambda>pg.
               let M1_bytes = sha256 (pg @ sha256 (algo_salt1 algo) @ sha256 (algo_salt2 algo) @ A_bytes @ B_bytes @ K_bytes) in
               Inr \<lparr>check_srp_id = srp_id r, check_A = A_bytes, check_M1 = M1_bytes\<rparr>))))))"


section \<open>Agreement with the server\<close>

lemma itob_ok: "0 \<le> i \<Longrightarrow> i < 256 ^ 256 \<Longrightarrow> itob i = Inr (be_bytes 256 i)"
  unfolding itob_def to_bytes_be_def fits_def by (simp only: if_False if_True simp_thms)

lemma btoi_be_bytes: "0 \<le> i \<Longrightarrow> i < 256 ^ 256 \<Longrightarrow> btoi (be_bytes 256 i) = i"
  unfolding btoi_def by (simp only: be_int_be_bytes mod_pos_pos_trivial)

lemma btoi_nonneg [simp]: "0 \<le> btoi b"
  by (simp add: btoi_def)

text \<open>What the server does: its value \<open>B\<close> hides \<open>g\<close> to the power \<open>b\<close> behind the
  verifier, and it raises the client's value times the verifier to the power \<open>u\<close> to the power \<open>b\<close>.\<close>

definition server_B :: "int \<Rightarrow> int \<Rightarrow> int \<Rightarrow> int \<Rightarrow> int \<Rightarrow> int" where
  "server_B p g k v b = (k * v + powmod g b p) mod p"

definition server_S :: "int \<Rightarrow> int \<Rightarrow> int \<Rightarrow> int \<Rightarrow> int \<Rightarrow> int" where
  "server_S p A v u b = powmod (A * powmod v u p) b p"

lemma srp_secret:
  assumes "0 \<le> a" "0 \<le> x" "0 \<le> u" "0 \<le> b" "v = powmod g x p"
  shows "powmod ((server_B p g k v b - (k * v) mod p) mod p) (a + u * x) p = server_S p (powmod g a p) v u b"
proof -
  have "(server_B p g k v b - (k * v) mod p) mod p = g ^ nat b mod p"
    by (simp add: server_B_def powmod mod_diff_eq mod_simps)
  then have "powmod ((server_B p g k v b - (k * v) mod p) mod p) (a + u * x) p = (g ^ nat b) ^ nat (a + u * x) mod p"
    by (simp add: powmod power_mod)
  also have "\<dots> = (g ^ nat a * (g ^ nat x) ^ nat u) ^ nat b mod p"
    using assms by (simp add: nat_add_distrib nat_mult_distrib power_add power_mult_distrib mult.commute flip: power_mult)
  also have "\<dots> = ((g ^ nat a mod p) * ((g ^ nat x mod p) ^ nat u mod p)) ^ nat b mod p"
    by (metis (no_types) mod_mult_eq power_mod)
  finally show ?thesis
    by (simp add: server_S_def powmod assms(5))
qed

lemma srp_draw_first:
  assumes "itob (powmod g (btoi (rnd i)) p) = Inr A" and "0 < btoi (sha256 (A @ B_bytes))"
  shows "srp_draw sha256 g p B_bytes rnd i = Some (Inr (btoi (rnd i), A, btoi (sha256 (A @ B_bytes))))"
  using assms by (subst srp_draw.simps) simp

text \<open>C29: The client's proof is the one the server computes. For a prime of at most 2048 bits and
  a server whose value was made from the verifier of the same password, the check carries the client's
  value and the hash over the shared number that the server gets from it; the numbers always
  fit their 256 bytes.\<close>

theorem srp_agreement:
  fixes sha256 pbkdf2 rnd algo password
  defines "p \<equiv> btoi (algo_p algo)" and "x \<equiv> btoi (compute_password_hash sha256 pbkdf2 algo password)"
  defines "g \<equiv> algo_g algo"
  defines "v \<equiv> powmod g x p" and "k \<equiv> btoi (sha256 (algo_p algo @ be_bytes 256 g))"
  defines "A \<equiv> powmod g (btoi (rnd 0)) p"
  assumes "0 < p" and "p < 256 ^ 256" and "0 \<le> g" and "g < 256 ^ 256" and "0 \<le> b"
    and "\<forall>m. length (sha256 m) = 32"
    and "B_bytes = be_bytes 256 (server_B p g k v b)"
    and "0 < btoi (sha256 (be_bytes 256 A @ B_bytes))"
  shows "compute_password_check sha256 pbkdf2 rnd \<lparr>current_algo = algo, srp_B = Some B_bytes, srp_id = i\<rparr> password =
    Some (Inr \<lparr>check_srp_id = i, check_A = be_bytes 256 A,
      check_M1 = sha256 (map2 (XOR) (sha256 (algo_p algo)) (sha256 (be_bytes 256 g)) @ sha256 (algo_salt1 algo) @
        sha256 (algo_salt2 algo) @ be_bytes 256 A @ B_bytes @
        sha256 (be_bytes 256 (server_S p A v (btoi (sha256 (be_bytes 256 A @ B_bytes))) b)))\<rparr>)"
proof -
  let ?u = "btoi (sha256 (be_bytes 256 A @ B_bytes))"
  have bounds: "0 \<le> powmod c d p \<and> powmod c d p < 256 ^ 256" for c d
    using powmod_bounds [OF \<open>0 < p\<close>, of c d] \<open>p < 256 ^ 256\<close> by linarith
  have B: "btoi B_bytes = server_B p g k v b"
  proof -
    have "0 \<le> server_B p g k v b" "server_B p g k v b < p"
      using \<open>0 < p\<close> by (simp_all add: server_B_def)
    then show ?thesis
      using btoi_be_bytes assms(8,13) by (metis order_less_trans)
  qed
  have draw: "srp_draw sha256 g p B_bytes rnd 0 = Some (Inr (btoi (rnd 0), be_bytes 256 A, ?u))"
    using srp_draw_first [of g rnd 0 p "be_bytes 256 A" sha256 B_bytes] itob_ok bounds assms(14) by (simp only: A_def)
  have S: "powmod ((btoi B_bytes - (k * v) mod p) mod p) (btoi (rnd 0) + ?u * x) p = server_S p A v ?u b"
    unfolding B A_def using srp_secret [of "btoi (rnd 0)" x ?u b v g p k] \<open>0 \<le> b\<close>
    by (simp add: x_def v_def A_def)
  have S_bytes: "itob (server_S p A v ?u b) = Inr (be_bytes 256 (server_S p A v ?u b))"
    using bounds by (intro itob_ok) (simp_all only: server_S_def)
  have xor: "xor_strict (sha256 (algo_p algo)) (sha256 (be_bytes 256 g)) = Inr (map2 (XOR) (sha256 (algo_p algo)) (sha256 (be_bytes 256 g)))"
    using assms(12) by (simp add: xor_strict_def)
  have "p \<noteq> 0"
    using \<open>0 < p\<close> by simp
  show ?thesis
    using draw S S_bytes xor itob_ok [OF assms(9,10)] \<open>p \<noteq> 0\<close>
    unfolding compute_password_check_def Let_def
    by (simp add: p_def [symmetric] g_def [symmetric] x_def [symmetric] k_def [symmetric] v_def [symmetric])
qed

definition small_algo :: password_algo where
  "small_algo = \<lparr>algo_p = [23], algo_g = 5, algo_salt1 = [1], algo_salt2 = [2]\<rparr>"

theorem srp_agreement_witness:
  "\<exists>B_bytes res. compute_password_check (\<lambda>_. replicate 32 1) (\<lambda>m s. m) (\<lambda>_. [6])
     \<lparr>current_algo = small_algo, srp_B = Some B_bytes, srp_id = Some 9\<rparr> [97] = Some (Inr res) \<and> check_srp_id res = Some 9"
proof -
  let ?h = "\<lambda>_ :: bytes. replicate 32 1 :: bytes"
  have pos: "0 < btoi (replicate 32 1)"
  proof -
    have "0 < le_int (replicate (Suc n) 1)" for n
      using le_int_nonneg [of "replicate n 1"] by (simp add: add_pos_nonneg)
    from this [of 31] show ?thesis
      by (simp add: btoi_def be_int_def)
  qed
  have p: "btoi (algo_p small_algo) = 23" "algo_g small_algo = 5"
    by (simp_all add: btoi_def small_algo_def be_int_def)
  show ?thesis
    using srp_agreement [of small_algo 3 ?h "be_bytes 256 (server_B 23 5 (btoi (replicate 32 1))
          (powmod 5 (btoi (compute_password_hash ?h (\<lambda>m s. m) small_algo [97])) 23) 3)"
        "\<lambda>m s. m" "[97]" "\<lambda>_. [6]" "Some 9"] pos
    unfolding p by fastforce
qed

end
