(* ===== verification/Auth.thy ===== *)
theory Auth
  imports Rsa Mtproto
begin

text \<open>
  The creation of an authorisation key (session/auth.py): one attempt of the exchange, with every
  check, and the loop over attempts and endpoints. The objects of the exchange are written and
  read by generated code, which appears as the record \<open>auth_schema\<close> together with the hash
  and the block cipher; what one attempt meets (the replies, the random bytes, the outcome of
  connecting) is the record \<open>auth_env\<close>. The replies are arbitrary: they may come from anyone.
\<close>

section \<open>Messages\<close>

text \<open>What the code can tell of a reply: the objects of the exchange, each with its
  \<open>nonce\<close> and \<open>server_nonce\<close>, and anything else.\<close>

datatype dh_gen = DhGenOk | DhGenRetry | DhGenFail

datatype auth_reply =
    ResPQ (reply_nonce: int) (reply_server_nonce: int) bytes "int list"
  | ServerDHParamsOk (reply_nonce: int) (reply_server_nonce: int) bytes
  | ServerDHParamsFail (reply_nonce: int) (reply_server_nonce: int)
  | DhGen dh_gen (reply_nonce: int) (reply_server_nonce: int)
  | OtherReply

datatype auth_request =
    ReqPqMulti int
  | ReqDHParams int int bytes bytes int bytes
  | SetClientDHParams int int bytes

record dh_inner =
  di_g :: int
  di_dh_prime :: bytes
  di_g_a :: bytes
  di_server_time :: int

record auth_schema =
  sha1 :: "bytes \<Rightarrow> bytes"
  aes_encrypt :: "bytes \<Rightarrow> bytes \<Rightarrow> bytes"
  aes_decrypt :: "bytes \<Rightarrow> bytes \<Rightarrow> bytes"
  write_pq_inner :: "bytes \<Rightarrow> bytes \<Rightarrow> bytes \<Rightarrow> int \<Rightarrow> int \<Rightarrow> int \<Rightarrow> bytes"
  read_dh_inner :: "bytes \<Rightarrow> dh_inner res"
  write_dh_inner :: "dh_inner \<Rightarrow> bytes"
  write_client_dh :: "int \<Rightarrow> int \<Rightarrow> int \<Rightarrow> bytes \<Rightarrow> bytes"

record auth_env =
  at_connect :: "unit res"
  at_nonce :: bytes
  at_reply1 :: "auth_reply res"
  at_rho :: "int \<Rightarrow> int \<times> int \<times> nat"
  at_new_nonce :: bytes
  at_padding1 :: "nat \<Rightarrow> bytes"
  at_reply2 :: "auth_reply res"
  at_b :: bytes
  at_padding2 :: "nat \<Rightarrow> bytes"
  at_reply3 :: "auth_reply res"

text \<open>The envelope of the unencrypted messages: eight zero bytes, an identifier made from the time,
  the length and the data; what arrives is read behind its first 20 bytes.\<close>

definition Auth_pack :: "rat \<Rightarrow> bytes \<Rightarrow> bytes res" where
  "Auth_pack server_time data =
    bind_res (Int_new TLong True (\<lfloor>server_time * 2 ^ 32\<rfloor> - \<lfloor>server_time * 2 ^ 32\<rfloor> mod 4)) (\<lambda>msg_id.
    bind_res (Int_new TInt True (int (length data))) (\<lambda>len.
      Inr (replicate 8 0 @ msg_id @ len @ data)))"

definition Auth_unpack :: "(bytes \<Rightarrow> 'a res) \<Rightarrow> bytes \<Rightarrow> 'a res" where
  "Auth_unpack tl_read b = tl_read (drop 20 b)"


section \<open>One attempt\<close>

definition choose_fingerprint :: "int list \<Rightarrow> int option" where
  "choose_fingerprint fps = find (\<lambda>i. map_of server_public_keys i \<noteq> None) fps"

text \<open>\<open>g = prime.decompose(pq); p, q = sorted((g, pq // g))\<close>. \<open>randint(1, 0)\<close>, for
  \<open>pq = 1\<close>, is a \<open>ValueError\<close>; \<open>None\<close> is a factorisation that does not end.\<close>

definition factor_pq :: "(int \<Rightarrow> int \<times> int \<times> nat) \<Rightarrow> int \<Rightarrow> (int \<times> int) res option" where
  "factor_pq rho pq =
    (if odd pq \<and> pq \<le> 1 then Some (Inl ValueError)
     else (case rho pq of (y, c, m) \<Rightarrow>
       map_option (\<lambda>g. Inr (min g (pq div g), max g (pq div g))) (decompose pq y c m)))"

text \<open>\<open>sha + data + padding\<close>, padded to a multiple of \<open>n\<close>.\<close>

definition data_with_hash :: "(bytes \<Rightarrow> bytes) \<Rightarrow> (nat \<Rightarrow> bytes) \<Rightarrow> nat \<Rightarrow> bytes \<Rightarrow> bytes" where
  "data_with_hash h urandom n data = h data @ data @ urandom (pad_to n (length data + length (h data)))"

definition tmp_aes_key :: "(bytes \<Rightarrow> bytes) \<Rightarrow> bytes \<Rightarrow> bytes \<Rightarrow> bytes" where
  "tmp_aes_key h new_nonce server_nonce = h (new_nonce @ server_nonce) @ take 12 (h (server_nonce @ new_nonce))"

definition tmp_aes_iv :: "(bytes \<Rightarrow> bytes) \<Rightarrow> bytes \<Rightarrow> bytes \<Rightarrow> bytes" where
  "tmp_aes_iv h new_nonce server_nonce =
    drop 12 (h (server_nonce @ new_nonce)) @ h (new_nonce @ new_nonce) @ take 4 new_nonce"

text \<open>Steps 3 and 4: the factors and the encrypted proof of them.\<close>

definition prove_pq ::
  "auth_schema \<Rightarrow> auth_env \<Rightarrow> int \<Rightarrow> int \<Rightarrow> bytes \<Rightarrow> int \<Rightarrow> int \<Rightarrow> int \<Rightarrow> (bytes \<times> bytes \<times> bytes) res" where
  "prove_pq S env nonce server_nonce pq_bytes fingerprint p q =
    bind_res (to_bytes_be 4 False p) (\<lambda>p_bytes.
    bind_res (to_bytes_be 4 False q) (\<lambda>q_bytes.
    let data = write_pq_inner S pq_bytes p_bytes q_bytes nonce server_nonce (from_bytes_le True (at_new_nonce env)) in
    bind_res (rsa_encrypt (data_with_hash (sha1 S) (at_padding1 env) 255 data) fingerprint) (\<lambda>encrypted_data.
      Inr (p_bytes, q_bytes, encrypted_data))))"

text \<open>What the attempt keeps of the answer to \<open>ReqDHParams\<close>.\<close>

record dh_state =
  dh_sn_bytes :: bytes
  dh_key :: bytes
  dh_iv :: bytes
  dh_answer_with_hash :: bytes
  dh_data :: dh_inner
  dh_p :: int

definition read_dh_answer :: "auth_schema \<Rightarrow> auth_env \<Rightarrow> int \<Rightarrow> auth_reply \<Rightarrow> dh_state res" where
  "read_dh_answer S env server_nonce reply =
    (case reply of
       ServerDHParamsOk _ _ encrypted_answer \<Rightarrow>
         bind_res (to_bytes_le 16 True server_nonce) (\<lambda>sn.
         let key = tmp_aes_key (sha1 S) (at_new_nonce env) sn; iv = tmp_aes_iv (sha1 S) (at_new_nonce env) sn in
         bind_res (ige256_decrypt (aes_decrypt S) encrypted_answer key iv) (\<lambda>answer_with_hash.
         bind_res (read_dh_inner S (drop 20 answer_with_hash)) (\<lambda>inner.
           Inr \<lparr>dh_sn_bytes = sn, dh_key = key, dh_iv = iv, dh_answer_with_hash = answer_with_hash,
             dh_data = inner, dh_p = be_int (di_dh_prime inner)\<rparr>)))
     | _ \<Rightarrow> Inl AttributeError)"

text \<open>\<open>pow\<close> with a modulus that may be 0.\<close>

definition py_pow :: "int \<Rightarrow> int \<Rightarrow> int \<Rightarrow> int res" where
  "py_pow b e n = (if n = 0 then Inl ValueError else Inr (powmod b e n))"

text \<open>Step 6: the client's half, and its encryption.\<close>

definition client_half :: "auth_schema \<Rightarrow> auth_env \<Rightarrow> int \<Rightarrow> int \<Rightarrow> dh_state \<Rightarrow> (bytes \<times> bytes) res" where
  "client_half S env nonce server_nonce dh =
    bind_res (py_pow (di_g (dh_data dh)) (be_int (at_b env)) (dh_p dh)) (\<lambda>v.
    bind_res (to_bytes_be 256 False v) (\<lambda>g_b.
    bind_res (ige256_encrypt (aes_encrypt S)
        (data_with_hash (sha1 S) (at_padding2 env) 16 (write_client_dh S nonce server_nonce 0 g_b)) (dh_key dh) (dh_iv dh))
      (\<lambda>encrypted_data. Inr (g_b, encrypted_data))))"

text \<open>Steps 7 and 8: the key and the security checks, in their order. An object without the two
  nonces is an \<open>AttributeError\<close>.\<close>

definition dh_checks :: "int \<Rightarrow> int \<Rightarrow> int \<Rightarrow> int \<Rightarrow> unit res" where
  "dh_checks p g g_a g_b =
    bind_res (security_check (p = CURRENT_DH_PRIME)) (\<lambda>_.
    bind_res (security_check (1 < g \<and> g < p - 1)) (\<lambda>_.
    bind_res (security_check (1 < g_a \<and> g_a < p - 1)) (\<lambda>_.
    bind_res (security_check (1 < g_b \<and> g_b < p - 1)) (\<lambda>_.
    bind_res (security_check (2 ^ (2048 - 64) < g_a \<and> g_a < p - 2 ^ (2048 - 64))) (\<lambda>_.
      security_check (2 ^ (2048 - 64) < g_b \<and> g_b < p - 2 ^ (2048 - 64)))))))"

definition nonce_checks :: "int \<Rightarrow> int \<Rightarrow> auth_reply \<Rightarrow> auth_reply \<Rightarrow> auth_reply \<Rightarrow> unit res" where
  "nonce_checks nonce server_nonce r1 r2 r3 =
    bind_res (security_check (nonce = reply_nonce r1)) (\<lambda>_.
    bind_res (security_check (nonce = reply_nonce r2)) (\<lambda>_.
    bind_res (security_check (server_nonce = reply_server_nonce r2)) (\<lambda>_.
    bind_res (if r3 = OtherReply then Inl AttributeError else security_check (nonce = reply_nonce r3)) (\<lambda>_.
      security_check (server_nonce = reply_server_nonce r3)))))"

definition finish_exchange ::
  "auth_schema \<Rightarrow> auth_env \<Rightarrow> int \<Rightarrow> int \<Rightarrow> dh_state \<Rightarrow> bytes \<Rightarrow> auth_reply \<Rightarrow> auth_reply \<Rightarrow> auth_reply \<Rightarrow> bytes res" where
  "finish_exchange S env nonce server_nonce dh g_b r1 r2 r3 =
    (let g_a = be_int (di_g_a (dh_data dh)) in
     bind_res (py_pow g_a (be_int (at_b env)) (dh_p dh)) (\<lambda>v.
     bind_res (to_bytes_be 256 False v) (\<lambda>auth_key.
     bind_res (dh_checks (dh_p dh) (di_g (dh_data dh)) g_a (be_int g_b)) (\<lambda>_.
     bind_res (security_check (take 20 (dh_answer_with_hash dh) = sha1 S (write_dh_inner S (dh_data dh)))) (\<lambda>_.
     bind_res (nonce_checks nonce server_nonce r1 r2 r3) (\<lambda>_. Inr auth_key))))))"

text \<open>The attempt: the requests that were sent, and the key or the error. The value
  \<open>None\<close> is a factorisation that does not end.\<close>

definition attempt :: "auth_schema \<Rightarrow> auth_env \<Rightarrow> (auth_request list \<times> bytes res) option" where
  "attempt S env =
    (case at_connect env of Inl e \<Rightarrow> Some ([], Inl e) | Inr _ \<Rightarrow>
     let nonce = from_bytes_le True (at_nonce env); req1 = ReqPqMulti nonce in
     case at_reply1 env of Inl e \<Rightarrow> Some ([req1], Inl e) | Inr r1 \<Rightarrow>
     (case r1 of ResPQ _ server_nonce pq_bytes fps \<Rightarrow>
       (case choose_fingerprint fps of None \<Rightarrow> Some ([req1], Inl Exception) | Some fp \<Rightarrow>
       (case factor_pq (at_rho env) (be_int pq_bytes) of
          None \<Rightarrow> None
        | Some (Inl e) \<Rightarrow> Some ([req1], Inl e)
        | Some (Inr (p, q)) \<Rightarrow>
       (case prove_pq S env nonce server_nonce pq_bytes fp p q of
          Inl e \<Rightarrow> Some ([req1], Inl e)
        | Inr (p_bytes, q_bytes, encrypted_data) \<Rightarrow>
       let req2 = ReqDHParams nonce server_nonce p_bytes q_bytes fp encrypted_data in
       (case bind_res (at_reply2 env) (\<lambda>r2. bind_res (read_dh_answer S env server_nonce r2) (\<lambda>dh.
              bind_res (client_half S env nonce server_nonce dh) (\<lambda>h. Inr (r2, dh, h)))) of
          Inl e \<Rightarrow> Some ([req1, req2], Inl e)
        | Inr (r2, dh, g_b, encrypted_half) \<Rightarrow>
       Some ([req1, req2, SetClientDHParams nonce server_nonce encrypted_half],
         bind_res (at_reply3 env) (\<lambda>r3. finish_exchange S env nonce server_nonce dh g_b r1 r2 r3))))))
     | _ \<Rightarrow> Some ([req1], Inl AttributeError)))"

section \<open>The loop over attempts and endpoints\<close>

definition MAX_RETRIES :: nat where "MAX_RETRIES = 5"

text \<open>
  \<open>Auth.create\<close> from attempt \<open>i\<close> on, at endpoint \<open>k\<close> of the list: the number of
  the last attempt plus one, the key or the error, and the new list of endpoints. A
  \<open>ConnectionError\<close> goes on to the next endpoint with a fresh count of retries, any other
  exception retries here; the connection is closed after every attempt.
\<close>

function create_loop ::
  "auth_schema \<Rightarrow> (nat \<Rightarrow> auth_env) \<Rightarrow> 'e list \<Rightarrow> nat \<Rightarrow> nat \<Rightarrow> nat \<Rightarrow> (nat \<times> bytes res \<times> 'e list) option" where
  "create_loop S env endpoints k retries_left i =
    (case attempt S (env i) of
       None \<Rightarrow> None
     | Some (_, Inr auth_key) \<Rightarrow> Some (i + 1, Inr auth_key, dedup ((endpoints ! k) # endpoints))
     | Some (_, Inl e) \<Rightarrow>
         if e = ConnectionError then
           (if k + 1 < length endpoints then create_loop S env endpoints (k + 1) MAX_RETRIES (i + 1)
            else Some (i + 1, Inl e, endpoints))
         else if retries_left > 0 then create_loop S env endpoints k (retries_left - 1) (i + 1)
         else Some (i + 1, Inl e, endpoints))"
  by pat_completeness auto
termination
  by (relation "measures [\<lambda>(S, env, endpoints, k, r, i). length endpoints - k, \<lambda>(S, env, endpoints, k, r, i). r]") auto

declare create_loop.simps [simp del]

definition Auth_create :: "auth_schema \<Rightarrow> (nat \<Rightarrow> auth_env) \<Rightarrow> 'e \<Rightarrow> 'e list \<Rightarrow> (nat \<times> bytes res \<times> 'e list) option" where
  "Auth_create S env endpoint fallback_endpoints =
    create_loop S env (dedup (endpoint # fallback_endpoints)) 0 MAX_RETRIES 0"


section \<open>What a created key is worth\<close>

lemma factor_pq_total:
  assumes "\<forall>y c m. 1 < pq \<and> rho pq = (y, c, m) \<longrightarrow> 1 \<le> y \<and> y \<le> pq - 1 \<and> 0 < m" and "0 \<le> pq"
  shows "factor_pq rho pq \<noteq> None"
proof (cases "even pq")
  case True
  then show ?thesis
    by (auto simp: factor_pq_def decompose_def even_iff_mod_2_eq_zero split: prod.splits)
next
  case False
  then show ?thesis
  proof (cases "1 < pq")
    case True
    obtain y c m where r: "rho pq = (y, c, m)"
      by (cases "rho pq")
    then have "\<exists>g. decompose pq y c m = Some g"
      using decompose_total [of pq y m c] assms(1) True by blast
    then show ?thesis
      using r by (auto simp: factor_pq_def)
  qed (use False in \<open>simp add: factor_pq_def\<close>)
qed

text \<open>An attempt of the key exchange ends: with the random numbers in the range that
  \<open>randint\<close> draws from, whatever the server answers, the attempt gives a key or an error,
  and it sends at most three requests, which carry its own nonce.\<close>

theorem attempt_ends:
  assumes "\<forall>pq y c m. 1 < pq \<and> at_rho env pq = (y, c, m) \<longrightarrow> 1 \<le> y \<and> y \<le> pq - 1 \<and> 0 < m"
  shows "\<exists>reqs r. attempt S env = Some (reqs, r) \<and> length reqs \<le> 3 \<and>
    (\<forall>req \<in> set reqs. case req of ReqPqMulti n \<Rightarrow> n = from_bytes_le True (at_nonce env)
      | ReqDHParams n _ _ _ _ _ \<Rightarrow> n = from_bytes_le True (at_nonce env)
      | SetClientDHParams n _ _ \<Rightarrow> n = from_bytes_le True (at_nonce env))"
proof -
  have total: "factor_pq (at_rho env) (be_int pq_bytes) \<noteq> None" for pq_bytes
    using assms by (intro factor_pq_total) auto
  show ?thesis
    by (auto simp: total attempt_def Let_def split: sum.splits option.splits auth_reply.splits prod.splits)
qed

text \<open>What an attempt that succeeded has gone through.\<close>

lemma attempt_Inr:
  assumes "attempt S env = Some (reqs, Inr key)"
  obtains n1 server_nonce pq_bytes fps r2 dh g_b enc r3 where
    "at_reply1 env = Inr (ResPQ n1 server_nonce pq_bytes fps)" "at_reply2 env = Inr r2" "at_reply3 env = Inr r3"
    "read_dh_answer S env server_nonce r2 = Inr dh"
    "client_half S env (from_bytes_le True (at_nonce env)) server_nonce dh = Inr (g_b, enc)"
    "finish_exchange S env (from_bytes_le True (at_nonce env)) server_nonce dh g_b (ResPQ n1 server_nonce pq_bytes fps) r2 r3 = Inr key"
    "SetClientDHParams (from_bytes_le True (at_nonce env)) server_nonce enc \<in> set reqs"
  using assms
  by (auto simp: attempt_def Let_def res_simps split: sum.splits option.splits auth_reply.splits prod.splits)

lemma dh_checks_Inr: "dh_checks p g g_a g_b = Inr u \<longleftrightarrow>
    p = CURRENT_DH_PRIME \<and> 1 < g \<and> g < p - 1 \<and> 1 < g_a \<and> g_a < p - 1 \<and> 1 < g_b \<and> g_b < p - 1 \<and>
    2 ^ 1984 < g_a \<and> g_a < p - 2 ^ 1984 \<and> 2 ^ 1984 < g_b \<and> g_b < p - 2 ^ 1984"
  unfolding dh_checks_def by (simp only: res_simps security_check_simps) simp

lemma nonce_checks_Inr: "nonce_checks n sn r1 r2 r3 = Inr u \<longleftrightarrow>
    n = reply_nonce r1 \<and> n = reply_nonce r2 \<and> sn = reply_server_nonce r2 \<and> r3 \<noteq> OtherReply \<and>
    n = reply_nonce r3 \<and> sn = reply_server_nonce r3"
  by (auto simp: nonce_checks_def res_simps)

text \<open>C3: A created key is the outcome of a sound exchange. When an attempt gives a key, the prime
  is the known one, the generator and both halves are in the safe range, the answer of the server
  carries its hash, the nonces of all three of its replies are the attempt's and the server nonces of
  the later two that of the first, and the key is 256 bytes of
  the server's half to the power of the client's secret. A server whose half is a power of the
  generator has the same key: the client's half, which the attempt sent, to the power of the
  server's secret.\<close>

theorem created_key_sound:
  assumes "attempt S env = Some (reqs, Inr key)"
  shows "\<exists>n1 sn pq_bytes fps dh g_b enc r2 r3. read_dh_answer S env sn r2 = Inr dh \<and>
    client_half S env (from_bytes_le True (at_nonce env)) sn dh = Inr (g_b, enc) \<and>
    SetClientDHParams (from_bytes_le True (at_nonce env)) sn enc \<in> set reqs \<and>
    at_reply1 env = Inr (ResPQ n1 sn pq_bytes fps) \<and> at_reply2 env = Inr r2 \<and> at_reply3 env = Inr r3 \<and>
    n1 = from_bytes_le True (at_nonce env) \<and>
    reply_nonce r2 = from_bytes_le True (at_nonce env) \<and> reply_nonce r3 = from_bytes_le True (at_nonce env) \<and>
    reply_server_nonce r2 = sn \<and> reply_server_nonce r3 = sn \<and>
    dh_p dh = CURRENT_DH_PRIME \<and> 1 < di_g (dh_data dh) \<and> di_g (dh_data dh) < CURRENT_DH_PRIME - 1 \<and>
    (\<forall>h \<in> {be_int (di_g_a (dh_data dh)), be_int g_b}. 2 ^ 1984 < h \<and> h < CURRENT_DH_PRIME - 2 ^ 1984) \<and>
    take 20 (dh_answer_with_hash dh) = sha1 S (write_dh_inner S (dh_data dh)) \<and>
    length key = 256 \<and>
    key = be_bytes 256 (powmod (be_int (di_g_a (dh_data dh))) (be_int (at_b env)) CURRENT_DH_PRIME) \<and>
    (\<forall>a. 0 \<le> a \<and> be_int (di_g_a (dh_data dh)) = powmod (di_g (dh_data dh)) a CURRENT_DH_PRIME \<longrightarrow>
      key = be_bytes 256 (powmod (be_int g_b) a CURRENT_DH_PRIME))"
proof -
  let ?n = "from_bytes_le True (at_nonce env)"
  obtain n1 sn pq_bytes fps r2 dh g_b enc r3 where
    reps: "at_reply1 env = Inr (ResPQ n1 sn pq_bytes fps)" "at_reply2 env = Inr r2" "at_reply3 env = Inr r3"
    and dh: "read_dh_answer S env sn r2 = Inr dh"
    and half: "client_half S env ?n sn dh = Inr (g_b, enc)"
    and fin: "finish_exchange S env ?n sn dh g_b (ResPQ n1 sn pq_bytes fps) r2 r3 = Inr key"
    and sent: "SetClientDHParams ?n sn enc \<in> set reqs"
    using attempt_Inr [OF assms] by metis
  let ?g_a = "be_int (di_g_a (dh_data dh))" and ?b = "be_int (at_b env)" and ?g = "di_g (dh_data dh)"
  have checks: "dh_checks (dh_p dh) ?g ?g_a (be_int g_b) = Inr ()"
    and hash: "take 20 (dh_answer_with_hash dh) = sha1 S (write_dh_inner S (dh_data dh))"
    and nonces: "nonce_checks ?n sn (ResPQ n1 sn pq_bytes fps) r2 r3 = Inr ()"
    and key: "to_bytes_be 256 False (powmod ?g_a ?b (dh_p dh)) = Inr key"
    using fin by (auto simp: finish_exchange_def Let_def res_simps py_pow_def split: if_splits)
  have dhp: "dh_p dh = CURRENT_DH_PRIME"
    using checks unfolding dh_checks_Inr by blast
  note p = checks [unfolded dh_checks_Inr dhp]
  have key_eq: "key = be_bytes 256 (powmod ?g_a ?b CURRENT_DH_PRIME)"
    using key dhp by (auto simp: to_bytes_be_def split: if_splits)
  have "to_bytes_be 256 False (powmod ?g ?b CURRENT_DH_PRIME) = Inr g_b"
    using half dhp by (auto simp: client_half_def py_pow_def res_simps split: if_splits)
  then have "be_int g_b = powmod ?g ?b CURRENT_DH_PRIME"
    by (rule from_to_bytes_be)
  then have agree: "powmod (be_int g_b) a CURRENT_DH_PRIME = powmod ?g_a ?b CURRENT_DH_PRIME"
    if "0 \<le> a" "?g_a = powmod ?g a CURRENT_DH_PRIME" for a
    using that powmod_powmod [of ?b a ?g] powmod_powmod [of a ?b ?g] by (simp add: mult.commute)
  have nc: "n1 = ?n" "reply_nonce r2 = ?n" "reply_nonce r3 = ?n" "reply_server_nonce r2 = sn" "reply_server_nonce r3 = sn"
    using nonces unfolding nonce_checks_Inr by simp_all
  have rng: "\<forall>h \<in> {?g_a, be_int g_b}. 2 ^ 1984 < h \<and> h < CURRENT_DH_PRIME - 2 ^ 1984"
    using p by blast
  have g: "dh_p dh = CURRENT_DH_PRIME" "1 < ?g" "?g < CURRENT_DH_PRIME - 1"
    using p dhp by (simp_all only:)
  have agree_key: "\<forall>a. 0 \<le> a \<and> ?g_a = powmod ?g a CURRENT_DH_PRIME \<longrightarrow>
      key = be_bytes 256 (powmod (be_int g_b) a CURRENT_DH_PRIME)"
    unfolding key_eq using agree by metis
  have len: "length key = 256"
    by (simp add: key_eq)
  show ?thesis
    by (intro exI [of _ n1] exI [of _ sn] exI [of _ pq_bytes] exI [of _ fps] exI [of _ dh] exI [of _ g_b] exI [of _ enc] exI [of _ r2] exI [of _ r3] conjI)
      (fact dh half sent reps nc g rng hash len key_eq agree_key)+
qed

text \<open>A run against a server of fixed replies, over a toy hash and cipher.\<close>

definition toy_schema :: auth_schema where
  "toy_schema = \<lparr>sha1 = (\<lambda>_. []), aes_encrypt = (\<lambda>k x. x), aes_decrypt = (\<lambda>k x. x),
     write_pq_inner = (\<lambda>pq p q n sn nn. pq @ p @ q),
     read_dh_inner = (\<lambda>_. Inr \<lparr>di_g = 2, di_dh_prime = be_bytes 256 CURRENT_DH_PRIME,
       di_g_a = be_bytes 256 (2 ^ 2000), di_server_time = 0\<rparr>),
     write_dh_inner = (\<lambda>_. []), write_client_dh = (\<lambda>n sn r g_b. [])\<rparr>"

definition toy_env :: auth_env where
  "toy_env = \<lparr>at_connect = Inr (), at_nonce = replicate 16 0,
     at_reply1 = Inr (ResPQ 0 5 [6] [-4344800451088585951]), at_rho = (\<lambda>_. (1, 1, 1)), at_new_nonce = replicate 32 0,
     at_padding1 = (\<lambda>n. replicate n 0), at_reply2 = Inr (ServerDHParamsOk 0 5 []), at_b = [7, 208],
     at_padding2 = (\<lambda>n. []), at_reply3 = Inr (DhGen DhGenOk 0 5)\<rparr>"

lemma dh_prime_fits: "0 \<le> CURRENT_DH_PRIME \<and> CURRENT_DH_PRIME < 256 ^ 256"
  by (simp add: CURRENT_DH_PRIME_def)

lemma dh_prime_bytes: "be_int (be_bytes 256 CURRENT_DH_PRIME) = CURRENT_DH_PRIME"
  using dh_prime_fits by (simp only: be_int_be_bytes mod_pos_pos_trivial)

lemma power_fits: "2 ^ 1984 < (2 :: int) ^ 2000 \<and> 2 ^ 2000 < CURRENT_DH_PRIME - 2 ^ 1984"
  by (simp add: CURRENT_DH_PRIME_def)

lemma power_bytes: "be_int (be_bytes 256 (2 ^ 2000)) = 2 ^ 2000"
  unfolding be_int_be_bytes by (rule mod_pos_pos_trivial) simp_all

lemma power_powmod: "powmod 2 2000 CURRENT_DH_PRIME = 2 ^ 2000"
  unfolding powmod using power_fits by (simp only: nat_numeral mod_pos_pos_trivial) (simp add: CURRENT_DH_PRIME_def)

lemma toy_env_replies:
  "at_connect toy_env = Inr ()" "at_nonce toy_env = replicate 16 0" "at_rho toy_env = (\<lambda>_. (1, 1, 1))"
  "at_reply1 toy_env = Inr (ResPQ 0 5 [6] [-4344800451088585951])" "at_reply2 toy_env = Inr (ServerDHParamsOk 0 5 [])"
  "at_reply3 toy_env = Inr (DhGen DhGenOk 0 5)"
  by (simp_all add: toy_env_def)

lemma toy_dh:
  "read_dh_answer toy_schema toy_env 5 (ServerDHParamsOk 0 5 []) =
    Inr \<lparr>dh_sn_bytes = le_bytes 16 5, dh_key = [], dh_iv = take 4 (replicate 32 0), dh_answer_with_hash = [],
      dh_data = \<lparr>di_g = 2, di_dh_prime = be_bytes 256 CURRENT_DH_PRIME, di_g_a = be_bytes 256 (2 ^ 2000), di_server_time = 0\<rparr>,
      dh_p = CURRENT_DH_PRIME\<rparr>"
  by (simp add: read_dh_answer_def toy_schema_def toy_env_def to_bytes_le_def fits_def tmp_aes_key_def tmp_aes_iv_def
      ige256_decrypt_def dh_prime_bytes Let_def del: le_bytes_numeral)

lemma toy_half:
  "\<exists>enc. client_half toy_schema toy_env 0 5 \<lparr>dh_sn_bytes = le_bytes 16 5, dh_key = [], dh_iv = take 4 (replicate 32 0),
      dh_answer_with_hash = [], dh_data = \<lparr>di_g = 2, di_dh_prime = be_bytes 256 CURRENT_DH_PRIME,
      di_g_a = be_bytes 256 (2 ^ 2000), di_server_time = 0\<rparr>, dh_p = CURRENT_DH_PRIME\<rparr> = Inr (be_bytes 256 (2 ^ 2000), enc)"
proof -
  have b: "be_int [7, 208] = 2000"
    by (simp add: be_int_def)
  have nz: "CURRENT_DH_PRIME \<noteq> 0"
    by (simp add: CURRENT_DH_PRIME_def)
  have fit: "to_bytes_be 256 False (2 ^ 2000) = Inr (be_bytes 256 (2 ^ 2000))"
    by (simp add: to_bytes_be_def fits_def)
  show ?thesis
    using nz fit by (simp add: client_half_def toy_schema_def toy_env_def py_pow_def b power_powmod data_with_hash_def
        ige256_encrypt_def del: le_bytes_numeral power_numeral)
qed

theorem created_key_sound_witness:
  "\<exists>reqs key. attempt toy_schema toy_env = Some (reqs, Inr key) \<and> length key = 256"
proof -
  let ?dh = "\<lparr>dh_sn_bytes = le_bytes 16 5, dh_key = [], dh_iv = take 4 (replicate 32 0), dh_answer_with_hash = [],
      dh_data = \<lparr>di_g = 2, di_dh_prime = be_bytes 256 CURRENT_DH_PRIME, di_g_a = be_bytes 256 (2 ^ 2000), di_server_time = 0\<rparr>,
      dh_p = CURRENT_DH_PRIME\<rparr>"
  let ?r1 = "ResPQ 0 5 [6] [-4344800451088585951]" and ?r2 = "ServerDHParamsOk 0 5 []" and ?r3 = "DhGen DhGenOk 0 5"
  obtain enc where half: "client_half toy_schema toy_env 0 5 ?dh = Inr (be_bytes 256 (2 ^ 2000), enc)"
    using toy_half by blast
  have key: "\<exists>k. to_bytes_be 256 False (powmod (2 ^ 2000) (be_int [7, 208]) CURRENT_DH_PRIME) = Inr k"
  proof -
    have "0 < CURRENT_DH_PRIME" "CURRENT_DH_PRIME < 256 ^ 256"
      by (simp_all add: CURRENT_DH_PRIME_def)
    then show ?thesis
      using powmod_bounds [of CURRENT_DH_PRIME "2 ^ 2000" "be_int [7, 208]"]
      by (auto simp: to_bytes_be_def fits_def simp del: power_numeral)
  qed
  have checks: "dh_checks CURRENT_DH_PRIME 2 (2 ^ 2000) (2 ^ 2000) = Inr ()"
    unfolding dh_checks_Inr by (simp add: CURRENT_DH_PRIME_def)
  have nz: "CURRENT_DH_PRIME \<noteq> 0"
    by (simp add: CURRENT_DH_PRIME_def)
  have fin: "\<exists>k. finish_exchange toy_schema toy_env 0 5 ?dh (be_bytes 256 (2 ^ 2000)) ?r1 ?r2 ?r3 = Inr k"
    using key checks nz power_bytes
    by (auto simp: finish_exchange_def py_pow_def nonce_checks_def toy_schema_def toy_env_def simp del: power_numeral le_bytes_numeral)
  have n0: "from_bytes_le True (replicate 16 0) = 0"
  proof -
    have "le_int (replicate n 0) = 0" for n
      by (induction n) auto
    then show ?thesis
      by (simp add: from_bytes_le_def)
  qed
  have fps: "choose_fingerprint [-4344800451088585951] = Some (-4344800451088585951)"
    by (simp add: choose_fingerprint_def server_public_keys_def)
  have fac: "factor_pq (\<lambda>_. (1, 1, 1)) (be_int [6]) = Some (Inr (2, 3))"
    by (simp add: factor_pq_def be_int_def decompose_def)
  obtain c where "rsa_encrypt (data_with_hash (sha1 toy_schema) (at_padding1 toy_env) 255 ([6] @ be_bytes 4 2 @ be_bytes 4 3)) (-4344800451088585951) = Inr c"
    using rsa_known [of "-4344800451088585951"] by (auto simp: server_public_keys_def)
  then have prove: "prove_pq toy_schema toy_env 0 5 [6] (-4344800451088585951) 2 3 = Inr (be_bytes 4 2, be_bytes 4 3, c)"
    by (simp add: prove_pq_def to_bytes_be_def fits_def) (simp add: toy_schema_def)
  obtain k where k: "finish_exchange toy_schema toy_env 0 5 ?dh (be_bytes 256 (2 ^ 2000)) ?r1 ?r2 ?r3 = Inr k"
    using fin by blast
  have "attempt toy_schema toy_env = Some ([ReqPqMulti 0, ReqDHParams 0 5 (be_bytes 4 2) (be_bytes 4 3) (-4344800451088585951) c,
      SetClientDHParams 0 5 enc], Inr k)"
    using n0 fps fac prove half k toy_dh unfolding attempt_def
    by (simp add: Let_def toy_env_replies del: le_bytes_numeral power_numeral)
  then show ?thesis
    using created_key_sound by blast
qed

lemma create_loop_bound:
  assumes "\<forall>j. attempt S (env j) \<noteq> None" and "k < length endpoints" and "r \<le> MAX_RETRIES"
  shows "\<exists>n res eps reqs. create_loop S env endpoints k r i = Some (n, res, eps) \<and> i < n \<and>
    n \<le> i + (length endpoints - k - 1) * (MAX_RETRIES + 1) + r + 1 \<and>
    attempt S (env (n - 1)) = Some (reqs, res) \<and> set eps = set endpoints"
  using assms
proof (induction S env endpoints k r i rule: create_loop.induct)
  case (1 S env endpoints k r i)
  obtain reqs res where a: "attempt S (env i) = Some (reqs, res)"
    using "1.prems"(1) by (metis not_None_eq surj_pair)
  consider (key) auth_key where "res = Inr auth_key"
    | (next_endpoint) "res = Inl ConnectionError" "k + 1 < length endpoints"
    | (retry) e where "res = Inl e" "e \<noteq> ConnectionError" "0 < r"
    | (stop) e where "res = Inl e" "e = ConnectionError \<and> \<not> k + 1 < length endpoints \<or> e \<noteq> ConnectionError \<and> r = 0"
    by (cases res) auto
  then show ?case
  proof cases
    case key
    then show ?thesis
      using a "1.prems"(2) by (subst create_loop.simps) (auto simp: insert_absorb)
  next
    case next_endpoint
    then have eq: "create_loop S env endpoints k r i = create_loop S env endpoints (k + 1) MAX_RETRIES (i + 1)"
      using a by (subst create_loop.simps) simp
    have "\<exists>n res' eps reqs'. create_loop S env endpoints (k + 1) MAX_RETRIES (i + 1) = Some (n, res', eps) \<and>
      i + 1 < n \<and>
      n \<le> i + 1 + (length endpoints - (k + 1) - 1) * (MAX_RETRIES + 1) + MAX_RETRIES + 1 \<and>
      attempt S (env (n - 1)) = Some (reqs', res') \<and>
      set eps = set endpoints"
      by (rule "1.IH"(1) [OF a refl]) (use next_endpoint "1.prems" in auto)
    then obtain n res' eps reqs' where IH: "create_loop S env endpoints (k + 1) MAX_RETRIES (i + 1) = Some (n, res', eps)"
        "i + 1 < n" "n \<le> i + 1 + (length endpoints - (k + 1) - 1) * (MAX_RETRIES + 1) + MAX_RETRIES + 1"
        "attempt S (env (n - 1)) = Some (reqs', res')" "set eps = set endpoints"
      by blast
    have "length endpoints - k - 1 = Suc (length endpoints - (k + 1) - 1)"
      using next_endpoint by simp
    then have "n \<le> i + (length endpoints - k - 1) * (MAX_RETRIES + 1) + r + 1"
      using IH(3) by simp
    then show ?thesis
      using IH eq by auto
  next
    case retry
    then have eq: "create_loop S env endpoints k r i = create_loop S env endpoints k (r - 1) (i + 1)"
      using a by (subst create_loop.simps) simp
    have "\<exists>n res' eps reqs'. create_loop S env endpoints k (r - 1) (i + 1) = Some (n, res', eps) \<and>
      i + 1 < n \<and>
      n \<le> i + 1 + (length endpoints - k - 1) * (MAX_RETRIES + 1) + (r - 1) + 1 \<and>
      attempt S (env (n - 1)) = Some (reqs', res') \<and>
      set eps = set endpoints"
      by (rule "1.IH"(2) [OF a refl]) (use retry "1.prems" in auto)
    then obtain n res' eps reqs' where IH: "create_loop S env endpoints k (r - 1) (i + 1) = Some (n, res', eps)"
        "i + 1 < n" "n \<le> i + 1 + (length endpoints - k - 1) * (MAX_RETRIES + 1) + (r - 1) + 1"
        "attempt S (env (n - 1)) = Some (reqs', res')" "set eps = set endpoints"
      by blast
    then have "n \<le> i + (length endpoints - k - 1) * (MAX_RETRIES + 1) + r + 1"
      using retry by simp
    then show ?thesis
      using IH eq by auto
  next
    case stop
    then show ?thesis
      using a by (subst create_loop.simps) auto
  qed
qed

text \<open>Creating a key ends after at most six attempts for each distinct endpoint, whatever the
  network does, as long as each attempt ends: with the outcome of the last attempt, a key or its
  exception, and with the same endpoints to fall back on.\<close>

theorem Auth_create_bounded:
  assumes "\<forall>j. attempt S (env j) \<noteq> None"
  shows "\<exists>n res eps reqs. Auth_create S env endpoint fallbacks = Some (n, res, eps) \<and>
    1 \<le> n \<and> n \<le> 6 * card (insert endpoint (set fallbacks)) \<and>
    attempt S (env (n - 1)) = Some (reqs, res) \<and> set eps = insert endpoint (set fallbacks)"
proof -
  let ?eps = "dedup (endpoint # fallbacks)"
  have card: "length ?eps = card (insert endpoint (set fallbacks))"
    using distinct_card [OF distinct_dedup, of "endpoint # fallbacks"] by (simp del: dedup.simps)
  obtain n res eps reqs where b: "create_loop S env ?eps 0 MAX_RETRIES 0 = Some (n, res, eps)" "0 < n"
      "n \<le> 0 + (length ?eps - 0 - 1) * (MAX_RETRIES + 1) + MAX_RETRIES + 1"
      "attempt S (env (n - 1)) = Some (reqs, res)" "set eps = set ?eps"
    using create_loop_bound [OF assms, of 0 ?eps MAX_RETRIES 0] by auto
  obtain l where "length ?eps = Suc l"
    by (cases "length ?eps") auto
  then have "n \<le> 6 * length ?eps"
    using b(3) by (simp add: MAX_RETRIES_def del: dedup.simps)
  then show ?thesis
    using b card by (auto simp: Auth_create_def simp del: dedup.simps)
qed

lemma offline_attempt: "attempt S (toy_env\<lparr>at_connect := Inl ConnectionError\<rparr>) = Some ([], Inl ConnectionError)"
  by (simp add: attempt_def)

theorem Auth_create_bounded_witness:
  "\<exists>n res eps. Auth_create toy_schema (\<lambda>_. toy_env\<lparr>at_connect := Inl ConnectionError\<rparr>) ''a'' [''b'', ''a''] = Some (n, res, eps) \<and>
     n \<le> 12 \<and> set eps = {''a'', ''b''}"
proof -
  let ?env = "\<lambda>_ :: nat. toy_env\<lparr>at_connect := Inl ConnectionError\<rparr>"
  have "\<forall>j. attempt toy_schema (?env j) \<noteq> None"
    by (simp add: offline_attempt)
  from Auth_create_bounded [OF this, of "''a''" "[''b'', ''a'']"] obtain n res eps where
    run: "Auth_create toy_schema ?env ''a'' [''b'', ''a''] = Some (n, res, eps)"
    and n: "n \<le> 6 * card (insert ''a'' (set [''b'', ''a'']))" and eps: "set eps = insert ''a'' (set [''b'', ''a''])"
    by (elim exE conjE) (rule that)
  have "insert ''a'' (set [''b'', ''a'']) = {''a'', ''b''}"
    by auto
  then have "n \<le> 12 \<and> set eps = {''a'', ''b''}"
    using n eps by simp
  with run show ?thesis
    by (elim conjE) (intro exI conjI)
qed

theorem attempt_ends_witness:
  "\<exists>reqs r. attempt toy_schema toy_env = Some (reqs, r) \<and> length reqs \<le> 3"
proof -
  have "\<forall>pq y c m. 1 < pq \<and> at_rho toy_env pq = (y, c, m) \<longrightarrow> 1 \<le> y \<and> y \<le> pq - 1 \<and> 0 < m"
    by (simp add: toy_env_replies)
  from attempt_ends [OF this, of toy_schema] show ?thesis
    by (elim exE conjE) (intro exI conjI)
qed

text \<open>The kind of the last reply is not looked at: a server that refuses the key, or asks for
  another half, gets the same key as one that accepts it.\<close>

lemma refusal_is_ignored:
  "attempt S (env\<lparr>at_reply3 := Inr (DhGen k n sn)\<rparr>) = attempt S (env\<lparr>at_reply3 := Inr (DhGen DhGenOk n sn)\<rparr>)"
proof -
  have env: "prove_pq S (env\<lparr>at_reply3 := x\<rparr>) = prove_pq S env"
      "read_dh_answer S (env\<lparr>at_reply3 := x\<rparr>) = read_dh_answer S env"
      "client_half S (env\<lparr>at_reply3 := x\<rparr>) = client_half S env" for x
    by (auto simp: fun_eq_iff prove_pq_def read_dh_answer_def client_half_def split: auth_reply.split)
  have fin: "finish_exchange S (env\<lparr>at_reply3 := x\<rparr>) m t dh g_b r1 r2 (DhGen l n sn) =
      finish_exchange S env m t dh g_b r1 r2 (DhGen DhGenOk n sn)" for x l m t dh g_b r1 r2
    by (simp add: finish_exchange_def nonce_checks_def)
  show ?thesis
    unfolding attempt_def Let_def env
    by (simp add: fin cong: sum.case_cong option.case_cong auth_reply.case_cong prod.case_cong)
qed

end
