(* ===== verification/Downloads.thy ===== *)
theory Downloads
  imports File_Id Ciphers Peers
begin

text \<open>
  Downloads: \<open>Client.get_file\<close> and \<open>Client.handle_download\<close> of \<open>client.py\<close>. A
  download is the list of the chunks it yields and the progress it reports, and the exception that
  ends it. The data centre, the content network, the hash and the block cipher are parameters. The lemmas show that the
  chunks make up the file, and that a chunk from the content network is the right part of the
  file and agrees with the hashes asked for.
\<close>


section \<open>The location of a file\<close>

datatype photo_peer = UserPeer int "int option" | ChatPeer int | ChannelPeer int "int option"

datatype file_location =
    PeerPhotoLocation photo_peer "int option" bool
  | PhotoLocation "int option" "int option" bytes pystr
  | DocumentLocation "int option" "int option" bytes pystr

definition file_location_of :: "file_id \<Rightarrow> file_location res" where
  "file_location_of f =
    (if file_type f = FT_CHAT_PHOTO then
       (case chat_id f of
          None \<Rightarrow> Inl RuntimeError
        | Some chat \<Rightarrow>
            let peer = (if 0 < chat then UserPeer chat (chat_access_hash f)
                        else if chat_access_hash f = Some 0 then ChatPeer (- chat)
                        else ChannelPeer (get_channel_id chat) (chat_access_hash f))
            in Inr (PeerPhotoLocation peer (media_id f)
                 (thumbnail_source f \<in> {Some TS_CHAT_PHOTO_BIG, Some TS_CHAT_PHOTO_BIG_LEGACY})))
     else if file_type f = FT_PHOTO then
       Inr (PhotoLocation (media_id f) (access_hash f) (file_reference f) (thumbnail_size f))
     else Inr (DocumentLocation (media_id f) (access_hash f) (file_reference f) (thumbnail_size f)))"


section \<open>From the data centre\<close>

text \<open>The exceptions that end a download, and what it does until then. \<open>StopTransmission\<close> is how the
  callback for the progress stops it.\<close>

datatype download_error = StopTransmission | CdnHashMismatch | Failure py_error

datatype download_event = Chunk bytes | Progress nat nat

fun chunk_bytes :: "download_event \<Rightarrow> bytes" where
  "chunk_bytes (Chunk b) = b"
| "chunk_bytes (Progress _ _) = []"

definition downloaded :: "download_event list \<Rightarrow> bytes" where
  "downloaded evs = concat (map chunk_bytes evs)"

lemma downloaded_simps [simp]:
  "downloaded [] = []" "downloaded (ev # evs) = chunk_bytes ev @ downloaded evs"
  "downloaded (xs @ ys) = downloaded xs @ downloaded ys"
  by (simp_all add: downloaded_def)

definition chunk_size :: nat where "chunk_size = 1024 * 1024"

lemma chunk_size_pos [simp]: "0 < chunk_size"
  by (simp add: chunk_size_def)

text \<open>\<open>UploadFile\<close> is \<open>upload.File\<close>, \<open>FileCdnRedirect\<close> has the key and the initialisation
  vector of the file on the content network.\<close>

datatype file_reply = UploadFile bytes | FileCdnRedirect bytes bytes

type_synonym file_server = "nat \<Rightarrow> py_error + file_reply"

text \<open>The callback, where one is given; what it raises ends the download.\<close>

type_synonym progress = "(nat \<Rightarrow> nat \<Rightarrow> download_error option) option"

definition report :: "progress \<Rightarrow> nat \<Rightarrow> nat \<Rightarrow> download_event list \<times> download_error option" where
  "report progress offset_bytes file_size =
    (case progress of
       None \<Rightarrow> ([], None)
     | Some f \<Rightarrow> let current = (if file_size \<noteq> 0 then min offset_bytes file_size else offset_bytes) in
         ([Progress current file_size], f current file_size))"

text \<open>The loop \<open>while True\<close> over the chunks of the data centre. It ends, because \<open>current\<close> stays
  below \<open>total\<close>.\<close>

function file_loop :: "file_server \<Rightarrow> progress \<Rightarrow> nat \<Rightarrow> nat \<Rightarrow> bytes \<Rightarrow> nat \<Rightarrow> nat \<Rightarrow>
    download_event list \<times> download_error option" where
  "file_loop server progress file_size tot chunk current offset_bytes =
    (let current' = current + 1; offset' = offset_bytes + chunk_size;
         (reported, e) = report progress offset' file_size; evs = Chunk chunk # reported in
     if e \<noteq> None then (evs, e)
     else if length chunk < chunk_size \<or> tot \<le> current' then (evs, None)
     else (case server offset' of
       Inl err \<Rightarrow> (evs, Some (Failure err))
     | Inr (FileCdnRedirect _ _) \<Rightarrow> (evs, Some (Failure AttributeError))
     | Inr (UploadFile chunk') \<Rightarrow>
         let (evs', e') = file_loop server progress file_size tot chunk' current' offset' in (evs @ evs', e')))"
  by pat_completeness auto
termination
  by (relation "measure (\<lambda>(_, _, _, tot, _, current, _). tot - current)") auto

declare file_loop.simps [simp del]


section \<open>From the content network\<close>

text \<open>The counter of the block at an offset: the last four bytes of the initialisation vector.\<close>

definition cdn_iv :: "bytes \<Rightarrow> nat \<Rightarrow> bytes res" where
  "cdn_iv iv offset_bytes = bind_res (to_bytes_be 4 False (int (offset_bytes div 16))) (\<lambda>c. Inr (take (length iv - 4) iv @ c))"

text \<open>\<open>_check_all_hashes\<close>: the hash number \<open>i\<close> is compared with the part \<open>i\<close> of the chunk.\<close>

type_synonym file_hash = "nat \<times> bytes"

fun check_hashes :: "(bytes \<Rightarrow> bytes) \<Rightarrow> bytes \<Rightarrow> nat \<Rightarrow> file_hash list \<Rightarrow> bool" where
  "check_hashes sha256 chunk i [] = True"
| "check_hashes sha256 chunk i ((lim, h) # hs) =
    (h = sha256 (py_slice (lim * i) (lim * (i + 1)) chunk) \<and> check_hashes sha256 chunk (i + 1) hs)"

text \<open>The answers of the content network and of the data centre to one round; \<open>k\<close> numbers the
  rounds. \<open>Reupload\<close> is \<open>CdnFileReuploadNeeded\<close> with the outcome of \<open>ReuploadCdnFile\<close>.\<close>

datatype reupload = Reuploaded | VolumeLocNotFound | ReuploadFails py_error

datatype cdn_reply = CdnFails py_error | CdnFile bytes | Reupload reupload

record cdn =
  cdn_file :: "nat \<Rightarrow> nat \<Rightarrow> cdn_reply"
  cdn_hashes :: "nat \<Rightarrow> nat \<Rightarrow> py_error + file_hash list"
  cdn_key :: bytes
  cdn_iv0 :: bytes
  cdn_cipher :: "bytes \<Rightarrow> bytes \<Rightarrow> bytes"
  cdn_sha256 :: "bytes \<Rightarrow> bytes"

text \<open>One round: what is yielded, and either the end or the next position.\<close>

definition cdn_round :: "cdn \<Rightarrow> progress \<Rightarrow> nat \<Rightarrow> nat \<Rightarrow> nat \<Rightarrow> nat \<Rightarrow> nat \<Rightarrow>
    download_event list \<times> (download_error option + nat \<times> nat)" where
  "cdn_round C progress file_size tot k current offset_bytes =
    (case cdn_file C k offset_bytes of
       CdnFails e \<Rightarrow> ([], Inl (Some (Failure e)))
     | Reupload Reuploaded \<Rightarrow> ([], Inr (current, offset_bytes))
     | Reupload VolumeLocNotFound \<Rightarrow> ([], Inl None)
     | Reupload (ReuploadFails e) \<Rightarrow> ([], Inl (Some (Failure e)))
     | CdnFile chunk \<Rightarrow>
         (case cdn_iv (cdn_iv0 C) offset_bytes of
            Inl e \<Rightarrow> ([], Inl (Some (Failure e)))
          | Inr iv \<Rightarrow>
              let decrypted = fst (ctr256_decrypt (cdn_cipher C) (cdn_key C) \<lparr>ctr_iv = iv, ctr_pos = 0\<rparr> chunk) in
              (case cdn_hashes C k offset_bytes of
                 Inl e \<Rightarrow> ([], Inl (Some (Failure e)))
               | Inr hashes \<Rightarrow>
                   if \<not> check_hashes (cdn_sha256 C) decrypted 0 hashes then ([], Inl (Some CdnHashMismatch))
                   else let (reported, e) = report progress (offset_bytes + chunk_size) file_size in
                     (Chunk decrypted # reported,
                      if e \<noteq> None then Inl e
                      else if length chunk < chunk_size \<or> tot \<le> current + 1 then Inl None
                      else Inr (current + 1, offset_bytes + chunk_size)))))"

partial_function (option) cdn_loop :: "cdn \<Rightarrow> progress \<Rightarrow> nat \<Rightarrow> nat \<Rightarrow> nat \<Rightarrow> nat \<Rightarrow> nat \<Rightarrow>
    (download_event list \<times> download_error option) option" where
  "cdn_loop C progress file_size tot k current offset_bytes =
    (let R = cdn_round C progress file_size tot k current offset_bytes in
     case snd R of
       Inl e \<Rightarrow> Some (fst R, e)
     | Inr p \<Rightarrow> Option.bind (cdn_loop C progress file_size tot (k + 1) (fst p) (snd p))
         (\<lambda>r. Some (fst R @ fst r, snd r)))"

text \<open>\<open>get_file\<close> from the location on. \<open>None\<close> is a download that never ends.\<close>

definition total_chunks :: "int \<Rightarrow> nat" where
  "total_chunks limit = (if limit = 0 then 2 ^ 31 - 1 else nat \<bar>limit\<bar>)"

definition get_file :: "file_server \<Rightarrow> (bytes \<Rightarrow> bytes \<Rightarrow> cdn) \<Rightarrow> progress \<Rightarrow> file_id \<Rightarrow> nat \<Rightarrow> int \<Rightarrow> int \<Rightarrow>
    (download_event list \<times> download_error option) option" where
  "get_file server cdn_of progress f file_size limit offset =
    (case file_location_of f of
       Inl e \<Rightarrow> Some ([], Some (Failure e))
     | Inr _ \<Rightarrow>
         let tot = total_chunks limit; offset_bytes = nat \<bar>offset\<bar> * chunk_size in
         (case server offset_bytes of
            Inl e \<Rightarrow> Some ([], Some (Failure e))
          | Inr (UploadFile chunk) \<Rightarrow> Some (file_loop server progress file_size tot chunk 0 offset_bytes)
          | Inr (FileCdnRedirect key iv) \<Rightarrow> cdn_loop (cdn_of key iv) progress file_size tot 0 0 offset_bytes))"


section \<open>The chunks make up the file\<close>

text \<open>A data centre that has the file, and a callback that never stops the download.\<close>

definition serves :: "file_server \<Rightarrow> bytes \<Rightarrow> bool" where
  "serves server content \<longleftrightarrow> (\<forall>n. server n = Inr (UploadFile (take chunk_size (drop n content))))"

definition quiet :: "progress \<Rightarrow> bool" where
  "quiet progress \<longleftrightarrow> (\<forall>f. progress = Some f \<longrightarrow> (\<forall>i j. f i j = None))"

lemma report_quiet: "quiet progress \<Longrightarrow> snd (report progress n file_size) = None \<and> downloaded (fst (report progress n file_size)) = []"
  by (auto simp: report_def quiet_def Let_def split: option.split)

lemma take_drop_split: "take (n + m) (drop i xs) = take n (drop i xs) @ take m (drop (i + n) xs)"
  by (subst take_add) (simp add: add.commute)

lemma last_chunk:
  assumes "chunk = take chunk_size (drop offset_bytes content)" "length chunk < chunk_size \<or> tot \<le> current + 1" "current < tot"
  shows "take ((tot - current) * chunk_size) (drop offset_bytes content) = chunk"
proof (cases "length chunk < chunk_size")
  case True
  then have "chunk = drop offset_bytes content"
    using assms(1) by (simp add: not_le [symmetric] del: not_le)
  moreover have "length chunk \<le> (tot - current) * chunk_size"
    using True assms(3) by (cases "tot - current") auto
  ultimately show ?thesis
    by simp
next
  case False
  then have "tot - current = 1"
    using assms(2,3) by simp
  then show ?thesis
    using assms(1) by simp
qed

lemma file_loop_content:
  assumes "serves server content" "quiet progress"
  shows "current < tot \<Longrightarrow> chunk = take chunk_size (drop offset_bytes content) \<Longrightarrow>
    \<exists>evs. file_loop server progress file_size tot chunk current offset_bytes = (evs, None) \<and>
      downloaded evs = take ((tot - current) * chunk_size) (drop offset_bytes content)"
proof (induction "tot - current" arbitrary: current chunk offset_bytes)
  case (Suc n)
  obtain reported where rep: "report progress (offset_bytes + chunk_size) file_size = (reported, None)" "downloaded reported = []"
    using report_quiet [OF assms(2), of "offset_bytes + chunk_size" file_size] by (metis prod.collapse)
  show ?case
  proof (cases "length chunk < chunk_size \<or> tot \<le> current + 1")
    case True
    then show ?thesis
      using True rep last_chunk [OF Suc.prems(2) True Suc.prems(1)] by (simp add: file_loop.simps [of server] Let_def)
  next
    case False
    let ?off = "offset_bytes + chunk_size"
    have served: "server ?off = Inr (UploadFile (take chunk_size (drop ?off content)))"
      using assms(1) by (simp add: serves_def)
    have "n = tot - (current + 1)"
      using Suc.hyps(2) by simp
    from Suc.hyps(1) [OF this _ refl, of ?off] False obtain evs where
        evs: "file_loop server progress file_size tot (take chunk_size (drop ?off content)) (current + 1) ?off = (evs, None)"
        "downloaded evs = take ((tot - (current + 1)) * chunk_size) (drop ?off content)"
      by auto
    have "file_loop server progress file_size tot chunk current offset_bytes = (Chunk chunk # reported @ evs, None)"
      using False rep served evs(1) by (simp add: file_loop.simps [of server progress file_size tot chunk] Let_def)
    moreover have "(tot - current) * chunk_size = chunk_size + (tot - (current + 1)) * chunk_size"
      using Suc.prems(1) by (cases "tot - current") auto
    ultimately show ?thesis
      using rep evs(2) Suc.prems(2) take_drop_split [of chunk_size "(tot - (current + 1)) * chunk_size" offset_bytes content]
      by simp
  qed
qed simp



section \<open>The counter of the content network\<close>

lemma be_int_append: "be_int (a @ b) = be_int a * 256 ^ length b + be_int b"
  by (induction a) (simp_all add: be_int_Cons power_add algebra_simps)

lemma be_int_inject: "length a = length b \<Longrightarrow> be_int a = be_int b \<Longrightarrow> a = b"
  by (metis be_bytes_be_int)

definition ctr_value :: "ctr_state \<Rightarrow> int" where
  "ctr_value s = 16 * be_int (ctr_iv s) + int (ctr_pos s)"

lemma ctr_advance_value:
  assumes "length (ctr_iv s) = 16" "ctr_pos s < 16" "ctr_value s + int n < 16 * 2 ^ 128"
  shows "length (ctr_iv ((ctr_advance ^^ n) s)) = 16 \<and> ctr_pos ((ctr_advance ^^ n) s) < 16 \<and>
    ctr_value ((ctr_advance ^^ n) s) = ctr_value s + int n"
  using assms(3)
proof (induction n)
  case (Suc n)
  then have IH: "length (ctr_iv ((ctr_advance ^^ n) s)) = 16" "ctr_pos ((ctr_advance ^^ n) s) < 16"
      "ctr_value ((ctr_advance ^^ n) s) = ctr_value s + int n"
    by simp_all
  have "0 \<le> ctr_value s + int n + 1" "ctr_value s + int n + 1 < 16 * 2 ^ 128"
    using Suc.prems by (simp_all add: ctr_value_def)
  then show ?case
    using ctr_counter [OF IH(1,2)] IH(3) by (simp add: ctr_value_def mod_pos_pos_trivial)
qed (use assms(1,2) in simp)

definition first_counter :: "bytes \<Rightarrow> ctr_state" where
  "first_counter iv = \<lparr>ctr_iv = take 12 iv @ [0, 0, 0, 0], ctr_pos = 0\<rparr>"

lemma block_position: "16 * (a :: int) + int p = 16 * b \<Longrightarrow> p < 16 \<Longrightarrow> p = 0 \<and> a = b"
  by presburger

lemma cdn_iv_advances:
  assumes "length iv = 16" "offset_bytes = 16 * m" "m < 2 ^ 32"
  shows "\<exists>iv'. cdn_iv iv offset_bytes = Inr iv' \<and> (ctr_advance ^^ offset_bytes) (first_counter iv) = \<lparr>ctr_iv = iv', ctr_pos = 0\<rparr>"
proof -
  let ?iv = "take 12 iv @ be_bytes 4 (int m)"
  let ?s = "(ctr_advance ^^ offset_bytes) (first_counter iv)"
  have small: "int m < 2 ^ 32"
    using assms(3) by (metis of_nat_less_iff of_nat_numeral of_nat_power)
  have "cdn_iv iv offset_bytes = Inr ?iv"
    using small assms(1,2) by (simp add: cdn_iv_def to_bytes_be_def fits_def)
  moreover have high: "be_int (take 12 iv) < 2 ^ 96"
    using be_int_less [of "take 12 iv"] assms(1) by simp
  have value0: "ctr_value (first_counter iv) = 16 * (be_int (take 12 iv) * 2 ^ 32)"
    by (simp add: ctr_value_def first_counter_def be_int_append be_int_Cons)
  have "ctr_value (first_counter iv) + int offset_bytes < 16 * 2 ^ 128"
    using high small by (simp add: value0 assms(2))
  then have s: "length (ctr_iv ?s) = 16" "ctr_pos ?s < 16" "ctr_value ?s = ctr_value (first_counter iv) + int offset_bytes"
    using ctr_advance_value [of "first_counter iv"] assms(1) by (simp_all add: first_counter_def)
  have v: "16 * be_int (ctr_iv ?s) + int (ctr_pos ?s) = 16 * (be_int (take 12 iv) * 2 ^ 32 + int m)"
    using s(3) by (simp add: value0 assms(2)) (simp add: ctr_value_def)
  have "ctr_pos ?s = 0" "be_int (ctr_iv ?s) = be_int (take 12 iv) * 2 ^ 32 + int m"
    using block_position [OF v s(2)] by simp_all
  moreover have "be_int ?iv = be_int (take 12 iv) * 2 ^ 32 + int m"
    using small by (simp add: be_int_append be_int_be_bytes mod_pos_pos_trivial)
  ultimately show ?thesis
    using be_int_inject [of "ctr_iv ?s" ?iv] s(1) assms(1) by (cases ?s) simp
qed

lemma take_key_stream: "take n (key_stream e s l) = key_stream e s (min n l)"
proof (induction l arbitrary: n s)
  case (Suc l)
  then show ?case
    by (cases n) simp_all
qed simp

lemma drop_key_stream: "drop n (key_stream e s l) = key_stream e ((ctr_advance ^^ n) s) (l - n)"
proof (induction n arbitrary: s l)
  case (Suc n)
  show ?case
    by (cases l) (simp_all add: Suc funpow_Suc_right del: funpow.simps)
qed simp

lemma take_xor_each: "take n (xor_each a b) = xor_each (take n a) (take n b)"
  and drop_xor_each: "drop n (xor_each a b) = xor_each (drop n a) (drop n b)"
  by (simp_all add: xor_each_def take_map take_zip drop_map drop_zip)

lemma ctr_part:
  "fst (ctr256_decrypt E key ((ctr_advance ^^ n) s) (take m (drop n (fst (ctr256_encrypt E key s data))))) = take m (drop n data)"
  by (simp add: ctr256_decrypt_def ctr256_encrypt_def ctr_loop_key_stream take_xor_each drop_xor_each
      take_key_stream drop_key_stream xor_each_cancel min.commute)


section \<open>Saving a download\<close>

text \<open>The temporary file and the file it becomes; the stream given in memory is the result itself.
  \<open>Inr None\<close> is a download that the callback stopped.\<close>

record download_files =
  temp_file :: "bytes option"
  final_file :: "bytes option"

definition handle_download :: "bool \<Rightarrow> download_event list \<times> download_error option \<Rightarrow> download_files \<Rightarrow>
    download_files \<times> (download_error + bytes option)" where
  "handle_download in_memory run fs =
    (let fs1 = (if in_memory then fs else fs\<lparr>temp_file := Some (downloaded (fst run))\<rparr>) in
     case snd run of
       Some e \<Rightarrow> (if in_memory then fs1 else fs1\<lparr>temp_file := None\<rparr>, if e = StopTransmission then Inr None else Inl e)
     | None \<Rightarrow> (if in_memory then fs1 else fs1\<lparr>temp_file := None, final_file := temp_file fs1\<rparr>, Inr (Some (downloaded (fst run)))))"


section \<open>Properties\<close>

text \<open>C18: A download from the data centre yields the file. When the data centre answers each request with the bytes of the
  file at its offset, \<open>get_file\<close> ends without an exception and its chunks make up the part of the
  file that limit and offset name, whatever the number of requests; and saving it leaves exactly these bytes
  under the final name and no temporary file.\<close>

theorem download_complete:
  assumes "serves server content" and "quiet progress" and "file_location_of f = Inr loc"
  shows "\<exists>evs. get_file server cdn_of progress f file_size limit offset = Some (evs, None) \<and>
    downloaded evs = take (total_chunks limit * chunk_size) (drop (nat \<bar>offset\<bar> * chunk_size) content) \<and>
    handle_download False (evs, None) fs =
      (\<lparr>temp_file = None, final_file = Some (downloaded evs)\<rparr>, Inr (Some (downloaded evs)))"
proof -
  let ?off = "nat \<bar>offset\<bar> * chunk_size"
  have "0 < total_chunks limit"
    by (simp add: total_chunks_def)
  from file_loop_content [OF assms(1,2) this refl, of file_size ?off] obtain evs where
      "file_loop server progress file_size (total_chunks limit) (take chunk_size (drop ?off content)) 0 ?off = (evs, None)"
      "downloaded evs = take (total_chunks limit * chunk_size) (drop ?off content)"
    by auto
  then show ?thesis
    using assms(1,3) by (intro exI [of _ evs]) (simp add: get_file_def serves_def handle_download_def)
qed

definition sample_document :: file_id where
  "sample_document = FileId 4 0 FT_DOCUMENT 2"

lemma sample_location: "file_location_of sample_document = Inr (DocumentLocation None None [] [])"
  by (simp add: sample_document_def file_location_of_def FileId_def)

theorem download_complete_witness:
  "\<exists>evs. get_file (\<lambda>n. Inr (UploadFile (take chunk_size (drop n [1, 2, 3])))) (\<lambda>_ _. undefined)
      (Some (\<lambda>_ _. None)) sample_document 3 0 0 = Some (evs, None) \<and> downloaded evs = take ((2 ^ 31 - 1) * chunk_size) [1, 2, 3]"
proof -
  have "serves (\<lambda>n. Inr (UploadFile (take chunk_size (drop n [1, 2, 3])))) [1, 2, 3]"
    by (simp add: serves_def)
  then show ?thesis
    using download_complete [of _ "[1, 2, 3]" "Some (\<lambda>_ _. None)" sample_document _ "\<lambda>_ _. undefined" 3 0 0] sample_location
    by (fastforce simp: quiet_def total_chunks_def)
qed

text \<open>The content network has the file, ciphered from counter 0 under the key of the redirection, and asks to
  wait for it to be uploaded again at most in the first rounds; the hashes are those of the file.\<close>

definition serves_cdn :: "cdn \<Rightarrow> bytes \<Rightarrow> nat \<Rightarrow> bool" where
  "serves_cdn C content N \<longleftrightarrow> length (cdn_iv0 C) = 16 \<and>
    (\<forall>k n. cdn_file C k n = CdnFile (take chunk_size (drop n
        (fst (ctr256_encrypt (cdn_cipher C) (cdn_key C) (first_counter (cdn_iv0 C)) content)))) \<or>
      k < N \<and> cdn_file C k n = Reupload Reuploaded) \<and>
    (\<forall>k n. \<exists>hs. cdn_hashes C k n = Inr hs \<and> check_hashes (cdn_sha256 C) (take chunk_size (drop n content)) 0 hs)"

lemma length_ctr256_fst [simp]: "length (fst (ctr256_encrypt E key s data)) = length data"
  by (simp add: ctr256_encrypt_def ctr_loop_key_stream)

lemma cdn_loop_content:
  assumes "serves_cdn C content N" "quiet progress" "length content < 2 ^ 36"
  shows "current < tot \<Longrightarrow> chunk_size dvd offset_bytes \<Longrightarrow> offset_bytes \<le> length content \<Longrightarrow>
    \<exists>evs. cdn_loop C progress file_size tot k current offset_bytes = Some (evs, None) \<and>
      downloaded evs = take ((tot - current) * chunk_size) (drop offset_bytes content)"
proof (induction "(tot - current) + (N - k)" arbitrary: current offset_bytes k rule: less_induct)
  case less
  let ?cipher = "fst (ctr256_encrypt (cdn_cipher C) (cdn_key C) (first_counter (cdn_iv0 C)) content)"
  let ?off = "offset_bytes + chunk_size"
  show ?case
  proof (cases "cdn_file C k offset_bytes = Reupload Reuploaded")
    case True
    then have "k < N"
      using assms(1) unfolding serves_cdn_def by (metis cdn_reply.distinct(5))
    then have "\<exists>evs. cdn_loop C progress file_size tot (k + 1) current offset_bytes = Some (evs, None) \<and>
        downloaded evs = take ((tot - current) * chunk_size) (drop offset_bytes content)"
      using less.prems by (intro less.hyps) auto
    then show ?thesis
      using True by (subst cdn_loop.simps) (auto simp: cdn_round_def)
  next
    case False
    then have on_cdn: "cdn_file C k offset_bytes = CdnFile (take chunk_size (drop offset_bytes ?cipher))"
      using assms(1) by (auto simp: serves_cdn_def)
    obtain j where j: "offset_bytes = chunk_size * j"
      using less.prems(2) by (elim dvdE)
    have "length (cdn_iv0 C) = 16" "offset_bytes = 16 * (65536 * j)"
      using assms(1) j by (simp_all add: serves_cdn_def chunk_size_def)
    then obtain iv where iv: "cdn_iv (cdn_iv0 C) offset_bytes = Inr iv"
        "(ctr_advance ^^ offset_bytes) (first_counter (cdn_iv0 C)) = \<lparr>ctr_iv = iv, ctr_pos = 0\<rparr>"
      using cdn_iv_advances less.prems(3) assms(3) by fastforce
    let ?chunk = "take chunk_size (drop offset_bytes content)"
    have chunk: "fst (ctr256_decrypt (cdn_cipher C) (cdn_key C) \<lparr>ctr_iv = iv, ctr_pos = 0\<rparr>
        (take chunk_size (drop offset_bytes ?cipher))) = ?chunk"
      unfolding iv(2) [symmetric] by (rule ctr_part)
    obtain hs where hs: "cdn_hashes C k offset_bytes = Inr hs" "check_hashes (cdn_sha256 C) ?chunk 0 hs"
      using assms(1) unfolding serves_cdn_def by blast
    obtain reported where rep: "report progress ?off file_size = (reported, None)" "downloaded reported = []"
      using report_quiet [OF assms(2), of ?off file_size] by (metis prod.collapse)
    have round: "cdn_round C progress file_size tot k current offset_bytes = (Chunk ?chunk # reported,
        if length ?chunk < chunk_size \<or> tot \<le> current + 1 then Inl None else Inr (current + 1, ?off))"
      by (simp add: cdn_round_def on_cdn iv(1) chunk hs rep)
    show ?thesis
    proof (cases "length ?chunk < chunk_size \<or> tot \<le> current + 1")
      case True
      then show ?thesis
        using round rep last_chunk [OF refl True less.prems(1)] by (subst cdn_loop.simps) (simp add: Let_def)
    next
      case False
      then have inside: "?off \<le> length content"
        using less.prems(3) by (simp add: not_less le_diff_conv2 add.commute)
      have "(tot - (current + 1)) + (N - (k + 1)) < (tot - current) + (N - k)"
        using less.prems(1) by arith
      from less.hyps [OF this _ _ inside] obtain evs where
          "cdn_loop C progress file_size tot (k + 1) (current + 1) ?off = Some (evs, None)"
          "downloaded evs = take ((tot - (current + 1)) * chunk_size) (drop ?off content)"
        using less.prems(2) False by auto
      moreover have "(tot - current) * chunk_size = chunk_size + (tot - (current + 1)) * chunk_size"
        using less.prems(1) by (cases "tot - current") auto
      ultimately show ?thesis
        using False round rep take_drop_split [of chunk_size "(tot - (current + 1)) * chunk_size" offset_bytes content]
        by (subst cdn_loop.simps) (simp add: Let_def)
    qed
  qed
qed

text \<open>C8: A download from the content network yields the file. The initialisation vector made for each
  offset continues the counter of the cipher, so deciphering the chunks one by one, each from a counter of its own, gives the
  file: for every block cipher, any number of requests to wait, and any file of less than 64
  gigabytes, the download ends and its chunks make up the part named by limit and offset.\<close>

theorem cdn_download_complete:
  assumes "serves_cdn (cdn_of key iv) content N" and "quiet progress" and "length content < 2 ^ 36"
    and "file_location_of f = Inr loc" and "server (nat \<bar>offset\<bar> * chunk_size) = Inr (FileCdnRedirect key iv)"
    and "nat \<bar>offset\<bar> * chunk_size \<le> length content"
  shows "\<exists>evs. get_file server cdn_of progress f file_size limit offset = Some (evs, None) \<and>
    downloaded evs = take (total_chunks limit * chunk_size) (drop (nat \<bar>offset\<bar> * chunk_size) content)"
proof -
  have "0 < total_chunks limit"
    by (simp add: total_chunks_def)
  from cdn_loop_content [OF assms(1-3) this _ assms(6), of file_size 0] show ?thesis
    using assms(4,5) by (simp add: get_file_def)
qed

definition sample_cdn :: "bytes \<Rightarrow> bytes \<Rightarrow> cdn" where
  "sample_cdn key iv = \<lparr>cdn_file = (\<lambda>k n. if k < 1 then Reupload Reuploaded
       else CdnFile (take chunk_size (drop n (fst (ctr256_encrypt (\<lambda>k b. rev b) key (first_counter iv) [1, 2, 3]))))),
     cdn_hashes = (\<lambda>k n. Inr [(chunk_size, take chunk_size (drop n [1, 2, 3]))]), cdn_key = key, cdn_iv0 = iv,
     cdn_cipher = (\<lambda>k b. rev b), cdn_sha256 = (\<lambda>b. b)\<rparr>"

lemma sample_cdn_serves: "serves_cdn (sample_cdn [] (replicate 16 7)) [1, 2, 3] 1"
  by (auto simp: serves_cdn_def sample_cdn_def py_slice_def)

lemma sample_cdn_download:
  "\<exists>evs. get_file (\<lambda>_. Inr (FileCdnRedirect [] (replicate 16 7))) sample_cdn None sample_document 0 2 0 = Some (evs, None) \<and>
    downloaded evs = take (2 * chunk_size) [1, 2, 3]"
  using cdn_loop_content [OF sample_cdn_serves, of None 0 2 0 0 0] sample_location
  by (simp add: get_file_def quiet_def total_chunks_def)

theorem cdn_download_complete_witness:
  "\<exists>evs. get_file (\<lambda>_. Inr (FileCdnRedirect [] (replicate 16 7))) sample_cdn None sample_document 0 2 0 = Some (evs, None) \<and>
    downloaded evs = take (2 * chunk_size) [1, 2, 3]"
  using cdn_download_complete [of sample_cdn "[]" "replicate 16 7" "[1, 2, 3]" 1 None sample_document _
      "\<lambda>_. Inr (FileCdnRedirect [] (replicate 16 7))" 0 0 2] sample_cdn_serves sample_location by (fastforce simp: quiet_def total_chunks_def)

lemma check_hashes_iff: "check_hashes h chunk i hs \<longleftrightarrow>
    (\<forall>j < length hs. snd (hs ! j) = h (py_slice (fst (hs ! j) * (i + j)) (fst (hs ! j) * (i + j + 1)) chunk))"
proof (induction hs arbitrary: i)
  case (Cons x hs)
  show ?case
    by (cases x) (simp add: Cons All_less_Suc2)
qed simp

text \<open>What a chunk at an offset has to be: the deciphered answer to the request for that offset, which agrees with every hash
  of the answer to the request for the hashes of the same offset, in the same round.\<close>

definition verified :: "cdn \<Rightarrow> nat \<Rightarrow> bytes \<Rightarrow> bool" where
  "verified C offset_bytes chunk \<longleftrightarrow> (\<exists>k cipher iv hs. cdn_file C k offset_bytes = CdnFile cipher \<and>
    cdn_iv (cdn_iv0 C) offset_bytes = Inr iv \<and>
    chunk = fst (ctr256_decrypt (cdn_cipher C) (cdn_key C) \<lparr>ctr_iv = iv, ctr_pos = 0\<rparr> cipher) \<and>
    cdn_hashes C k offset_bytes = Inr hs \<and>
    (\<forall>j < length hs. snd (hs ! j) = cdn_sha256 C (py_slice (fst (hs ! j) * j) (fst (hs ! j) * (j + 1)) chunk)))"

text \<open>The chunks handed on, in order.\<close>

fun chunks_of :: "download_event list \<Rightarrow> bytes list" where
  "chunks_of [] = []"
| "chunks_of (Chunk c # evs) = c # chunks_of evs"
| "chunks_of (Progress _ _ # evs) = chunks_of evs"

lemma chunks_of_append [simp]: "chunks_of (xs @ ys) = chunks_of xs @ chunks_of ys"
  by (induction xs rule: chunks_of.induct) auto

lemma chunks_of_report: "report progress n file_size = (reported, e) \<Longrightarrow> chunks_of reported = []"
  by (auto simp: report_def Let_def split: option.splits)

text \<open>The chunks from an offset on, each one after the chunk before it.\<close>

definition all_verified :: "cdn \<Rightarrow> nat \<Rightarrow> bytes list \<Rightarrow> bool" where
  "all_verified C offset_bytes cs \<longleftrightarrow> (\<forall>i < length cs. verified C (offset_bytes + i * chunk_size) (cs ! i))"

lemma all_verified_simps [simp]:
  "all_verified C n []"
  "all_verified C n (c # cs) \<longleftrightarrow> verified C n c \<and> all_verified C (n + chunk_size) cs"
  by (auto simp: all_verified_def All_less_Suc2 algebra_simps)

lemma cdn_round_verified:
  assumes "cdn_round C progress file_size tot k current n = (evs, r)"
  shows "all_verified C n (chunks_of evs) \<and>
    (\<forall>p. r = Inr p \<longrightarrow> snd p = n + length (chunks_of evs) * chunk_size)"
proof (cases "cdn_file C k n")
  case (CdnFile cipher)
  show ?thesis
  proof (cases "cdn_iv (cdn_iv0 C) n")
    case (Inr iv)
    let ?plain = "fst (ctr256_decrypt (cdn_cipher C) (cdn_key C) \<lparr>ctr_iv = iv, ctr_pos = 0\<rparr> cipher)"
    show ?thesis
    proof (cases "cdn_hashes C k n")
      case (Inl e)
      then show ?thesis
        using assms CdnFile Inr by (auto simp: cdn_round_def)
    next
      case hashes: (Inr hs)
      show ?thesis
      proof (cases "check_hashes (cdn_sha256 C) ?plain 0 hs")
        case True
        then have "verified C n ?plain"
          unfolding verified_def check_hashes_iff using CdnFile Inr hashes by auto
        moreover obtain reported e where rep: "report progress (n + chunk_size) file_size = (reported, e)"
          by fastforce
        ultimately show ?thesis
          using assms CdnFile Inr hashes True chunks_of_report [OF rep]
          by (auto simp: cdn_round_def split: if_splits)
      next
        case False
        then show ?thesis
          using assms CdnFile Inr hashes by (auto simp: cdn_round_def)
      qed
    qed
  next
    case (Inl e)
    then show ?thesis
      using assms CdnFile by (auto simp: cdn_round_def)
  qed
next
  case (CdnFails e)
  then show ?thesis
    using assms by (auto simp: cdn_round_def)
next
  case (Reupload u)
  then show ?thesis
    using assms by (cases u) (auto simp: cdn_round_def)
qed

lemma all_verified_append:
  "all_verified C n (xs @ ys) \<longleftrightarrow> all_verified C n xs \<and> all_verified C (n + length xs * chunk_size) ys"
  by (induction xs arbitrary: n) (auto simp: algebra_simps)

lemmas cdn_loop_induct = cdn_loop.raw_induct [rotated, consumes 1, case_names round]

lemma cdn_loop_verified:
  assumes "cdn_loop C progress file_size tot k current n = Some res"
  shows "all_verified C n (chunks_of (fst res))"
  using assms
proof (induction rule: cdn_loop_induct)
  case (round rec C progress file_size tot k current n res)
  obtain evs r where R: "cdn_round C progress file_size tot k current n = (evs, r)"
    by fastforce
  note v = cdn_round_verified [OF R]
  show ?case
  proof (cases r)
    case (Inl e)
    then show ?thesis
      using round(2) R v by auto
  next
    case (Inr p)
    then obtain q where q: "rec C progress file_size tot (k + 1) (fst p) (snd p) = Some q" "res = (evs @ fst q, snd q)"
      using round(2) R by (auto simp: Option.bind_eq_Some_conv)
    then show ?thesis
      using round(1) [OF q(1)] v Inr by (simp add: all_verified_append)
  qed
qed

text \<open>C28: Nothing from the content network is handed on unchecked. However such a download ends, the chunk number \<open>i\<close>
  that it yields is the deciphered answer to the request for the offset \<open>i\<close> chunks after the first, and it agrees with
  every hash that the data centre gave when it was asked, in the same round, for the hashes of that very offset: a chunk that differs
  from one of its hashes is not yielded.\<close>

theorem cdn_chunks_verified:
  assumes "get_file server cdn_of progress f file_size limit offset = Some (evs, e)"
    and "server (nat \<bar>offset\<bar> * chunk_size) = Inr (FileCdnRedirect key iv)"
  shows "\<forall>i < length (chunks_of evs).
    verified (cdn_of key iv) (nat \<bar>offset\<bar> * chunk_size + i * chunk_size) (chunks_of evs ! i)"
  using assms cdn_loop_verified [of "cdn_of key iv"]
  by (fastforce simp: get_file_def Let_def all_verified_def split: sum.splits)

theorem cdn_chunks_verified_witness:
  "\<exists>evs. get_file (\<lambda>_. Inr (FileCdnRedirect [] (replicate 16 7))) sample_cdn None sample_document 0 2 0 = Some (evs, None) \<and>
    chunks_of evs \<noteq> [] \<and> verified (sample_cdn [] (replicate 16 7)) 0 (chunks_of evs ! 0)"
proof -
  obtain evs where run: "get_file (\<lambda>_. Inr (FileCdnRedirect [] (replicate 16 7))) sample_cdn None sample_document 0 2 0 = Some (evs, None)"
      "downloaded evs = take (2 * chunk_size) [1, 2, 3]"
    using sample_cdn_download by blast
  have "downloaded evs = concat (chunks_of evs)"
    by (induction evs rule: chunks_of.induct) auto
  then have ne: "chunks_of evs \<noteq> []"
    using run(2) by (auto simp: chunk_size_def)
  then show ?thesis
    using run(1) cdn_chunks_verified [OF run(1), of "[]" "replicate 16 7", THEN spec [of _ 0]] by auto
qed

end
