(* ===== verification/Uploads.thy ===== *)
theory Uploads
  imports Prelude Complex_Main "HOL-Library.Multiset"
begin

text \<open>
  Uploads: \<open>save_file\<close> of \<open>methods/advanced/save_file.py\<close>. The producer, the workers, the
  watchdog and the owner of an upload are tasks that interleave between their awaits; an event is
  one stretch of one task, with what its await brought (the answer to a part, a fallback session,
  the return of the progress callback), and an upload is run by a list of events in any order.
  The lemmas show that a finished upload had every part acknowledged, that the tasks never wait for
  each other in vain, and that the number of steps is bounded. A file returns all that is asked of
  it; times are exact rationals.
\<close>

section \<open>The parts of a file\<close>

definition part_size :: nat where "part_size = 512 * 1024"

definition UPLOAD_STALL_TIMEOUT :: rat where "UPLOAD_STALL_TIMEOUT = 60"

datatype part_rpc =
    SaveBigFilePart (rpc_file_id: int) (rpc_file_part: nat) (rpc_total_parts: nat) (rpc_bytes: bytes)
  | SaveFilePart (rpc_file_id: int) (rpc_file_part: nat) (rpc_bytes: bytes)

record upload_plan =
  up_content :: bytes
  up_file_id :: int
  up_first :: nat
  up_total_parts :: nat
  up_is_big :: bool
  up_missing :: bool
  up_workers_count :: nat

text \<open>What is decided before the first task starts. The file identifier of a whole upload is drawn
  at random, and \<open>file_id or rnd_id()\<close> draws one for 0, too.\<close>

definition plan_upload :: "bool \<Rightarrow> int \<Rightarrow> bytes \<Rightarrow> int option \<Rightarrow> nat \<Rightarrow> upload_plan res" where
  "plan_upload premium rnd content fid first =
    (let file_size = length content;
         file_size_limit_mib = (if premium then 4000 else 2000);
         is_big = file_size > 10 * 1024 * 1024
     in if file_size = 0 then Inl ValueError
        else if file_size > file_size_limit_mib * 1024 * 1024 then Inl ValueError
        else Inr \<lparr>up_content = content,
          up_file_id = (case fid of None \<Rightarrow> rnd | Some i \<Rightarrow> if i = 0 then rnd else i),
          up_first = first,
          up_total_parts = (file_size + part_size - 1) div part_size,
          up_is_big = is_big,
          up_missing = (fid \<noteq> None),
          up_workers_count = (if is_big then 4 else 1)\<rparr>)"

definition make_part :: "upload_plan \<Rightarrow> nat \<Rightarrow> bytes \<Rightarrow> part_rpc" where
  "make_part p k chunk =
    (if up_is_big p then SaveBigFilePart (up_file_id p) k (up_total_parts p) chunk
     else SaveFilePart (up_file_id p) k chunk)"


section \<open>The tasks\<close>

datatype upload_error = FloodWait "int option" | ConnectionLost | RequestTimeout | OtherError

datatype producer =
    Reading
  | Putting part_rpc bytes
  | InCallback
  | PuttingNone nat
  | Produced
  | ProducerFailed

text \<open>A worker waits at the queue; enters the lock with a part; waits for the answer to it (from the
  fallback session or not); sleeps; waits for the lock after a lost connection; waits for the
  fallback session, holding the lock.\<close>

datatype upload_worker =
    Getting
  | Entering part_rpc
  | Invoking part_rpc bool
  | Sleeping part_rpc bool rat
  | Locking part_rpc upload_error
  | GettingFallback part_rpc upload_error
  | Returned
  | WorkerFailed

record upload =
  up_pos :: nat
  up_part :: nat
  up_md5 :: "bytes option"
  up_checksum :: string
  up_producer :: producer
  up_queue :: "part_rpc option list"
  up_workers :: "upload_worker list"
  up_fallback :: bool
  up_fallback_attempted :: bool
  up_last_progress :: rat
  up_flood_until :: rat
  up_now :: rat
  up_acked :: "part_rpc list"
  up_reports :: "nat list"
  up_failure :: "upload_error option"
  up_stalled :: bool
  up_outcome :: "(upload_error + unit) option"

definition upload_start :: "upload_plan \<Rightarrow> rat \<Rightarrow> upload" where
  "upload_start p t = \<lparr>up_pos = part_size * up_first p, up_part = up_first p,
     up_md5 = (if \<not> up_is_big p \<and> \<not> up_missing p then Some [] else None), up_checksum = '''',
     up_producer = Reading, up_queue = [], up_workers = replicate (up_workers_count p) Getting,
     up_fallback = False, up_fallback_attempted = False, up_last_progress = t, up_flood_until = t,
     up_now = t, up_acked = [], up_reports = [], up_failure = None, up_stalled = False, up_outcome = None\<rparr>"

text \<open>The group of tasks keeps the first exception.\<close>

definition task_fails :: "upload_error \<Rightarrow> upload \<Rightarrow> upload" where
  "task_fails e u = u\<lparr>up_failure := (case up_failure u of None \<Rightarrow> Some e | Some e' \<Rightarrow> Some e')\<rparr>"

subsection \<open>The producer\<close>

definition hex_digit :: "nat \<Rightarrow> char" where
  "hex_digit n = (if n < 10 then char_of (48 + n) else char_of (87 + n))"

definition hex_text :: "bytes \<Rightarrow> string" where
  "hex_text bs = concat (map (\<lambda>b. [hex_digit (unat b div 16), hex_digit (unat b mod 16)]) bs)"

definition read_chunk :: "(bytes \<Rightarrow> bytes) \<Rightarrow> upload_plan \<Rightarrow> upload \<Rightarrow> upload" where
  "read_chunk md5 p u =
    (let chunk = take part_size (drop (up_pos u) (up_content p)) in
     if chunk = [] then
       u\<lparr>up_checksum := (case up_md5 u of None \<Rightarrow> up_checksum u | Some bs \<Rightarrow> hex_text (md5 bs)),
         up_producer := PuttingNone (up_workers_count p)\<rparr>
     else u\<lparr>up_pos := up_pos u + length chunk, up_producer := Putting (make_part p (up_part u) chunk) chunk\<rparr>)"

text \<open>A part is put when the queue, of size 1, has room.\<close>

definition put_part :: "bool \<Rightarrow> upload_plan \<Rightarrow> part_rpc \<Rightarrow> bytes \<Rightarrow> upload \<Rightarrow> upload" where
  "put_part has_progress p rpc chunk u =
    (let u1 = u\<lparr>up_queue := up_queue u @ [Some rpc]\<rparr> in
     if up_missing p then u1\<lparr>up_producer := PuttingNone (up_workers_count p)\<rparr>
     else let u2 = u1\<lparr>up_md5 := map_option (\<lambda>bs. bs @ chunk) (up_md5 u), up_part := up_part u + 1\<rparr> in
       if has_progress then
         u2\<lparr>up_producer := InCallback,
           up_reports := up_reports u @ [min (up_part u2 * part_size) (length (up_content p))]\<rparr>
       else u2\<lparr>up_producer := Reading\<rparr>)"

definition put_none :: "nat \<Rightarrow> upload \<Rightarrow> upload" where
  "put_none k u = u\<lparr>up_queue := up_queue u @ [None],
     up_producer := (if k \<le> 1 then Produced else PuttingNone (k - 1))\<rparr>"

definition produce :: "(bytes \<Rightarrow> bytes) \<Rightarrow> bool \<Rightarrow> upload_plan \<Rightarrow> upload \<Rightarrow> upload option" where
  "produce md5 has_progress p u =
    (case up_producer u of
       Reading \<Rightarrow> Some (read_chunk md5 p u)
     | Putting rpc chunk \<Rightarrow> if up_queue u = [] then Some (put_part has_progress p rpc chunk u) else None
     | PuttingNone k \<Rightarrow> if up_queue u = [] then Some (put_none k u) else None
     | _ \<Rightarrow> None)"

definition callback_returns :: "upload_error option \<Rightarrow> upload \<Rightarrow> upload option" where
  "callback_returns r u =
    (if up_producer u \<noteq> InCallback then None
     else case r of None \<Rightarrow> Some (u\<lparr>up_producer := Reading\<rparr>)
       | Some e \<Rightarrow> Some (task_fails e (u\<lparr>up_producer := ProducerFailed\<rparr>)))"

subsection \<open>The workers\<close>

definition set_worker :: "nat \<Rightarrow> upload_worker \<Rightarrow> upload \<Rightarrow> upload" where
  "set_worker i w u = u\<lparr>up_workers := (up_workers u)[i := w]\<rparr>"

definition worker_raises :: "nat \<Rightarrow> upload_error \<Rightarrow> upload \<Rightarrow> upload" where
  "worker_raises i e u = task_fails e (set_worker i WorkerFailed u)"

definition take_part :: "nat \<Rightarrow> upload \<Rightarrow> upload option" where
  "take_part i u =
    (case (up_workers u ! i, up_queue u) of
       (Getting, None # q) \<Rightarrow> Some (set_worker i Returned (u\<lparr>up_queue := q\<rparr>))
     | (Getting, Some rpc # q) \<Rightarrow> Some (set_worker i (Entering rpc) (u\<lparr>up_queue := q\<rparr>))
     | _ \<Rightarrow> None)"

fun holds_lock :: "upload_worker \<Rightarrow> bool" where
  "holds_lock (GettingFallback _ _) = True"
| "holds_lock _ = False"

definition lock_free :: "upload \<Rightarrow> bool" where
  "lock_free u = (\<not> list_ex holds_lock (up_workers u))"

text \<open>Both places where a worker takes the lock: before the first attempt at a part, and after a
  lost connection.\<close>

definition enter_lock :: "nat \<Rightarrow> upload \<Rightarrow> upload option" where
  "enter_lock i u =
    (if \<not> lock_free u then None
     else case up_workers u ! i of
       Entering rpc \<Rightarrow> Some (set_worker i (Invoking rpc (up_fallback u)) u)
     | Locking rpc e \<Rightarrow>
         if \<not> up_fallback_attempted u then
           Some (set_worker i (GettingFallback rpc e) (u\<lparr>up_fallback_attempted := True\<rparr>))
         else if \<not> up_fallback u then Some (worker_raises i e u)
         else Some (set_worker i (Invoking rpc True) u)
     | _ \<Rightarrow> None)"

definition fallback_ready :: "nat \<Rightarrow> upload_error + bool \<Rightarrow> upload \<Rightarrow> upload option" where
  "fallback_ready i r u =
    (case up_workers u ! i of
       GettingFallback rpc e \<Rightarrow>
         (case r of Inl e' \<Rightarrow> Some (worker_raises i e' u)
          | Inr False \<Rightarrow> Some (worker_raises i e u)
          | Inr True \<Rightarrow> Some (set_worker i (Invoking rpc True) (u\<lparr>up_fallback := True\<rparr>)))
     | _ \<Rightarrow> None)"

definition answer_part :: "nat \<Rightarrow> upload_error option \<Rightarrow> upload \<Rightarrow> upload option" where
  "answer_part i r u =
    (case up_workers u ! i of
       Invoking rpc fb \<Rightarrow>
         (case r of
            None \<Rightarrow> Some (set_worker i Getting (u\<lparr>up_acked := up_acked u @ [rpc], up_last_progress := up_now u\<rparr>))
          | Some (FloodWait None) \<Rightarrow> Some (worker_raises i (FloodWait None) u)
          | Some (FloodWait (Some s)) \<Rightarrow>
              Some (set_worker i (Sleeping rpc fb (up_now u + of_int s))
                (u\<lparr>up_flood_until := max (up_flood_until u) (up_now u + of_int s)\<rparr>))
          | Some OtherError \<Rightarrow> Some (worker_raises i OtherError u)
          | Some e \<Rightarrow> if fb then Some (worker_raises i e u) else Some (set_worker i (Locking rpc e) u))
     | _ \<Rightarrow> None)"

definition awake :: "nat \<Rightarrow> upload \<Rightarrow> upload option" where
  "awake i u =
    (case up_workers u ! i of
       Sleeping rpc fb t \<Rightarrow> if t \<le> up_now u then Some (set_worker i (Invoking rpc fb) u) else None
     | _ \<Rightarrow> None)"

subsection \<open>The watchdog and the owner\<close>

definition remaining :: "upload \<Rightarrow> rat" where
  "remaining u = max (up_last_progress u) (up_flood_until u) + UPLOAD_STALL_TIMEOUT - up_now u"

definition watch_progress :: "upload \<Rightarrow> upload option" where
  "watch_progress u = (if \<not> up_stalled u \<and> remaining u \<le> 0 then Some (u\<lparr>up_stalled := True\<rparr>) else None)"

definition all_returned :: "upload \<Rightarrow> bool" where
  "all_returned u = (up_producer u = Produced \<and> list_all (\<lambda>w. w = Returned) (up_workers u))"

text \<open>The owner wakes when the group is done, by its first exception or because all tasks have
  returned, or when the watchdog raised; the group goes first. It then cancels what still runs, so
  that nothing happens afterwards.\<close>

definition settle :: "upload \<Rightarrow> upload option" where
  "settle u =
    (case up_failure u of
       Some e \<Rightarrow> Some (u\<lparr>up_outcome := Some (Inl e)\<rparr>)
     | None \<Rightarrow>
         if all_returned u then Some (u\<lparr>up_outcome := Some (Inr ())\<rparr>)
         else if up_stalled u then Some (u\<lparr>up_outcome := Some (Inl RequestTimeout)\<rparr>)
         else None)"

subsection \<open>Running an upload\<close>

datatype upload_event =
    Produce
  | CallbackReturns "upload_error option"
  | TakePart nat
  | EnterLock nat
  | FallbackReady nat "upload_error + bool"
  | AnswerPart nat "upload_error option"
  | Awake nat
  | Tick rat
  | WatchProgress
  | Settle

definition worker_event :: "nat \<Rightarrow> (upload \<Rightarrow> upload option) \<Rightarrow> upload \<Rightarrow> upload option" where
  "worker_event i f u = (if i < length (up_workers u) then f u else None)"

fun perform :: "(bytes \<Rightarrow> bytes) \<Rightarrow> bool \<Rightarrow> upload_plan \<Rightarrow> upload_event \<Rightarrow> upload \<Rightarrow> upload option" where
  "perform md5 has_progress p Produce u = produce md5 has_progress p u"
| "perform md5 has_progress p (CallbackReturns r) u = callback_returns r u"
| "perform md5 has_progress p (TakePart i) u = worker_event i (take_part i) u"
| "perform md5 has_progress p (EnterLock i) u = worker_event i (enter_lock i) u"
| "perform md5 has_progress p (FallbackReady i r) u = worker_event i (fallback_ready i r) u"
| "perform md5 has_progress p (AnswerPart i r) u = worker_event i (answer_part i r) u"
| "perform md5 has_progress p (Awake i) u = worker_event i (awake i) u"
| "perform md5 has_progress p (Tick d) u = (if 0 \<le> d then Some (u\<lparr>up_now := up_now u + d\<rparr>) else None)"
| "perform md5 has_progress p WatchProgress u = watch_progress u"
| "perform md5 has_progress p Settle u = settle u"

fun run_upload :: "(bytes \<Rightarrow> bytes) \<Rightarrow> bool \<Rightarrow> upload_plan \<Rightarrow> upload_event list \<Rightarrow> upload \<Rightarrow> upload option" where
  "run_upload md5 has_progress p [] u = Some u"
| "run_upload md5 has_progress p (ev # evs) u =
    (if up_outcome u \<noteq> None then None
     else case perform md5 has_progress p ev u of None \<Rightarrow> None
       | Some u' \<Rightarrow> run_upload md5 has_progress p evs u')"

datatype upload_result =
    NoFile
  | InputFileBig int nat string
  | InputFile int nat string string

text \<open>What \<open>save_file\<close> returns or raises once the upload has settled, where \<open>cleanup\<close> is the
  exception of the cleanup, if any. \<open>None\<close> while it has not settled.\<close>

definition save_file :: "upload_plan \<Rightarrow> string \<Rightarrow> upload_error option \<Rightarrow> upload \<Rightarrow> (upload_error + upload_result) option" where
  "save_file p name cleanup u =
    (case up_outcome u of
       None \<Rightarrow> None
     | Some r \<Rightarrow>
         Some (case cleanup of Some e \<Rightarrow> Inl e
           | None \<Rightarrow> (case r of Inl e \<Rightarrow> Inl e
             | Inr _ \<Rightarrow> Inr (
                 if up_missing p then NoFile
                 else if up_is_big p then InputFileBig (up_file_id p) (up_total_parts p) name
                 else InputFile (up_file_id p) (up_total_parts p) name (up_checksum u)))))"


section \<open>The invariant of an upload\<close>

lemma sum_list_replace:
  fixes f :: "'b \<Rightarrow> 'c :: comm_monoid_add"
  shows "i < length ws \<Longrightarrow> sum_list (map f (ws[i := w])) + f (ws ! i) = sum_list (map f ws) + f w"
proof (induction ws arbitrary: i)
  case (Cons a ws)
  then show ?case
    by (cases i) (auto simp: ac_simps)
qed simp

lemma sum_list_const_0 [simp]: "sum_list (replicate n 0) = (0 :: 'c :: comm_monoid_add)"
  by (induction n) simp_all

definition chunk_at :: "upload_plan \<Rightarrow> nat \<Rightarrow> bytes" where
  "chunk_at p k = take part_size (drop (part_size * k) (up_content p))"

text \<open>The parts an upload is meant to send: all from the first one on, or the missing one only.\<close>

definition expected_parts :: "upload_plan \<Rightarrow> part_rpc list" where
  "expected_parts p =
    (let ps = map (\<lambda>k. make_part p k (chunk_at p k)) [up_first p..<up_total_parts p]
     in if up_missing p then take 1 ps else ps)"

definition to_put :: "upload_plan \<Rightarrow> upload \<Rightarrow> part_rpc list" where
  "to_put p u = (case up_producer u of
     Reading \<Rightarrow> drop (up_part u - up_first p) (expected_parts p)
   | Putting _ _ \<Rightarrow> drop (up_part u - up_first p) (expected_parts p)
   | InCallback \<Rightarrow> drop (up_part u - up_first p) (expected_parts p)
   | _ \<Rightarrow> [])"

fun held :: "upload_worker \<Rightarrow> part_rpc multiset" where
  "held (Entering rpc) = {#rpc#}"
| "held (Invoking rpc _) = {#rpc#}"
| "held (Sleeping rpc _ _) = {#rpc#}"
| "held (Locking rpc _) = {#rpc#}"
| "held (GettingFallback rpc _) = {#rpc#}"
| "held _ = {#}"

fun returned :: "upload_worker \<Rightarrow> nat" where
  "returned Returned = 1"
| "returned _ = 0"

fun queued :: "part_rpc option \<Rightarrow> part_rpc multiset" where
  "queued None = {#}"
| "queued (Some rpc) = {#rpc#}"

fun sentinel :: "part_rpc option \<Rightarrow> nat" where
  "sentinel None = 1"
| "sentinel (Some _) = 0"

definition nones_left :: "upload_plan \<Rightarrow> producer \<Rightarrow> nat" where
  "nones_left p pr = (case pr of PuttingNone k \<Rightarrow> k | Produced \<Rightarrow> 0 | _ \<Rightarrow> up_workers_count p)"

definition parts_kept :: "upload_plan \<Rightarrow> upload \<Rightarrow> bool" where
  "parts_kept p u =
    (mset (up_acked u) + sum_list (map held (up_workers u)) + sum_list (map queued (up_queue u)) +
       mset (to_put p u) = mset (expected_parts p))"

definition nones_kept :: "upload_plan \<Rightarrow> upload \<Rightarrow> bool" where
  "nones_kept p u =
    (sum_list (map sentinel (up_queue u)) + nones_left p (up_producer u) +
       sum_list (map returned (up_workers u)) = up_workers_count p)"

definition checksum_right :: "(bytes \<Rightarrow> bytes) \<Rightarrow> upload_plan \<Rightarrow> upload \<Rightarrow> bool" where
  "checksum_right md5 p u =
    (\<not> up_is_big p \<and> \<not> up_missing p \<longrightarrow>
       up_checksum u = hex_text (md5 (drop (part_size * up_first p) (up_content p))))"

definition reading_right :: "upload_plan \<Rightarrow> upload \<Rightarrow> bool" where
  "reading_right p u =
    (up_md5 u = (if \<not> up_is_big p \<and> \<not> up_missing p
        then Some (take (part_size * (up_part u - up_first p)) (drop (part_size * up_first p) (up_content p))) else None) \<and>
     (up_missing p \<longrightarrow> up_part u = up_first p))"

definition position_right :: "upload_plan \<Rightarrow> upload \<Rightarrow> bool" where
  "position_right p u =
    (up_pos u = part_size * up_part u \<or>
     length (up_content p) \<le> up_pos u \<and> length (up_content p) \<le> part_size * up_part u)"

definition producer_right :: "(bytes \<Rightarrow> bytes) \<Rightarrow> upload_plan \<Rightarrow> upload \<Rightarrow> bool" where
  "producer_right md5 p u =
    (case up_producer u of
       Reading \<Rightarrow> reading_right p u \<and> position_right p u
     | Putting rpc chunk \<Rightarrow> reading_right p u \<and> chunk = chunk_at p (up_part u) \<and> chunk \<noteq> [] \<and>
         rpc = make_part p (up_part u) chunk \<and> up_pos u = part_size * up_part u + length chunk
     | InCallback \<Rightarrow> reading_right p u \<and> position_right p u
     | PuttingNone k \<Rightarrow> 1 \<le> k \<and> (k < up_workers_count p \<longrightarrow> None \<in> set (up_queue u) \<or> up_queue u = []) \<and>
         checksum_right md5 p u \<and> (\<not> up_missing p \<longrightarrow> up_total_parts p \<le> up_part u)
     | Produced \<Rightarrow> (None \<in> set (up_queue u) \<or> up_queue u = []) \<and> checksum_right md5 p u \<and>
         (\<not> up_missing p \<longrightarrow> up_total_parts p \<le> up_part u)
     | ProducerFailed \<Rightarrow> up_failure u \<noteq> None)"

definition reports_right :: "bool \<Rightarrow> upload_plan \<Rightarrow> upload \<Rightarrow> bool" where
  "reports_right has_progress p u =
    (up_reports u = (if has_progress
       then map (\<lambda>k. min (k * part_size) (length (up_content p))) [up_first p + 1..<up_part u + 1] else []) \<and>
     up_first p \<le> up_part u \<and> up_part u \<le> max (up_first p) (up_total_parts p) \<and>
     (up_missing p \<longrightarrow> up_part u = up_first p))"

definition plan_right :: "upload_plan \<Rightarrow> bool" where
  "plan_right p = (0 < up_workers_count p \<and>
     up_total_parts p = (length (up_content p) + part_size - 1) div part_size)"

definition upload_inv :: "(bytes \<Rightarrow> bytes) \<Rightarrow> bool \<Rightarrow> upload_plan \<Rightarrow> upload \<Rightarrow> bool" where
  "upload_inv md5 has_progress p u =
    (length (up_queue u) \<le> 1 \<and> length (up_workers u) = up_workers_count p \<and>
     (WorkerFailed \<in> set (up_workers u) \<longrightarrow> up_failure u \<noteq> None) \<and>
     (up_failure u = None \<longrightarrow> parts_kept p u \<and> nones_kept p u) \<and>
     producer_right md5 p u \<and> reports_right has_progress p u \<and>
     (up_outcome u = Some (Inr ()) \<longrightarrow> up_failure u = None \<and> all_returned u))"

lemma part_size_pos [simp]: "0 < part_size" "part_size \<noteq> 0"
  by (simp_all add: part_size_def)

lemma part_exists: "plan_right p \<Longrightarrow> k < up_total_parts p \<longleftrightarrow> part_size * k < length (up_content p)"
proof -
  assume "plan_right p"
  then have "k < up_total_parts p \<longleftrightarrow> k + 1 \<le> (length (up_content p) + part_size - 1) div part_size"
    by (auto simp: plan_right_def)
  also have "\<dots> \<longleftrightarrow> (k + 1) * part_size \<le> length (up_content p) + part_size - 1"
    by (rule less_eq_div_iff_mult_less_eq) simp
  finally have "k < up_total_parts p \<longleftrightarrow> (k + 1) * part_size \<le> length (up_content p) + part_size - 1" .
  then show ?thesis
    by (simp add: part_size_def) presburger
qed

lemma chunk_at_empty: "plan_right p \<Longrightarrow> chunk_at p k = [] \<longleftrightarrow> up_total_parts p \<le> k"
  using part_exists [of p k] by (auto simp: chunk_at_def not_less [symmetric])

lemma expected_parts_drop:
  assumes "plan_right p" and "k < up_total_parts p" and "up_first p \<le> k" and "up_missing p \<Longrightarrow> k = up_first p"
  shows "drop (k - up_first p) (expected_parts p) =
    make_part p k (chunk_at p k) # drop (Suc k - up_first p) (expected_parts p)"
proof -
  have 1: "k - up_first p < length (expected_parts p)"
    using assms by (auto simp: expected_parts_def Let_def)
  have 2: "expected_parts p ! (k - up_first p) = make_part p k (chunk_at p k)"
    using assms by (auto simp: expected_parts_def Let_def)
  show ?thesis
    using Cons_nth_drop_Suc [OF 1] 2 assms(3) by (simp add: Suc_diff_le)
qed

lemma expected_parts_end: "up_total_parts p \<le> k \<Longrightarrow> drop (k - up_first p) (expected_parts p) = []"
  by (auto simp: expected_parts_def Let_def)

lemma expected_parts_missing: "up_missing p \<Longrightarrow> drop (Suc k) (expected_parts p) = []"
  by (auto simp: expected_parts_def Let_def)

subsection \<open>Every event keeps it\<close>

lemma upload_start_inv: "plan_right p \<Longrightarrow> upload_inv md5 h p (upload_start p t)"
  by (auto simp: upload_inv_def upload_start_def parts_kept_def nones_kept_def producer_right_def
      reading_right_def position_right_def reports_right_def to_put_def nones_left_def map_replicate sum_list_const_0)

lemma task_fails_fields [simp]:
  "up_queue (task_fails e u) = up_queue u" "up_workers (task_fails e u) = up_workers u"
  "up_producer (task_fails e u) = up_producer u" "up_reports (task_fails e u) = up_reports u"
  "up_part (task_fails e u) = up_part u" "up_outcome (task_fails e u) = up_outcome u"
  "up_md5 (task_fails e u) = up_md5 u" "up_pos (task_fails e u) = up_pos u"
  "up_checksum (task_fails e u) = up_checksum u" "up_acked (task_fails e u) = up_acked u"
  "up_stalled (task_fails e u) = up_stalled u" "up_failure (task_fails e u) \<noteq> None"
  "\<exists>e'. up_failure (task_fails e u) = Some e'"
  by (auto simp: task_fails_def split: option.splits)

lemma set_worker_fields [simp]:
  "up_queue (set_worker i w u) = up_queue u" "up_workers (set_worker i w u) = (up_workers u)[i := w]"
  "up_producer (set_worker i w u) = up_producer u" "up_reports (set_worker i w u) = up_reports u"
  "up_part (set_worker i w u) = up_part u" "up_outcome (set_worker i w u) = up_outcome u"
  "up_md5 (set_worker i w u) = up_md5 u" "up_pos (set_worker i w u) = up_pos u"
  "up_checksum (set_worker i w u) = up_checksum u" "up_acked (set_worker i w u) = up_acked u"
  "up_stalled (set_worker i w u) = up_stalled u" "up_failure (set_worker i w u) = up_failure u"
  by (simp_all add: set_worker_def)

text \<open>The parts of the invariant that only look at the producer.\<close>

lemmas producer_side = producer_right_def reading_right_def position_right_def checksum_right_def
  reports_right_def to_put_def nones_left_def

lemma upload_invD:
  assumes "upload_inv md5 h p u"
  shows "length (up_queue u) \<le> 1" "length (up_workers u) = up_workers_count p"
    "WorkerFailed \<in> set (up_workers u) \<Longrightarrow> up_failure u \<noteq> None"
    "up_failure u = None \<Longrightarrow> parts_kept p u" "up_failure u = None \<Longrightarrow> nones_kept p u"
    "producer_right md5 p u" "reports_right h p u"
    "up_outcome u = Some (Inr ()) \<Longrightarrow> up_failure u = None \<and> all_returned u"
  using assms by (auto simp: upload_inv_def)

lemma read_chunk_inv:
  assumes "plan_right p" "upload_inv md5 h p u" "up_producer u = Reading" "up_outcome u = None"
  shows "upload_inv md5 h p (read_chunk md5 p u)"
proof -
  let ?chunk = "take part_size (drop (up_pos u) (up_content p))"
  let ?u = "read_chunk md5 p u"
  note inv = upload_invD [OF assms(2)]
  have pos: "position_right p u" and rd: "reading_right p u" and fp: "up_first p \<le> up_part u"
    using inv(6,7) assms(3) by (simp_all add: producer_right_def reports_right_def)
  have chunk: "?chunk = chunk_at p (up_part u)"
    using pos by (auto simp: position_right_def chunk_at_def)
  have same: "up_queue ?u = up_queue u" "up_workers ?u = up_workers u" "up_failure ?u = up_failure u"
      "up_acked ?u = up_acked u" "up_reports ?u = up_reports u" "up_part ?u = up_part u" "up_outcome ?u = None"
      "up_md5 ?u = up_md5 u"
    using assms(4) by (simp_all add: read_chunk_def Let_def)
  have kept: "to_put p ?u = to_put p u \<and> nones_left p (up_producer ?u) = nones_left p (up_producer u) \<and>
      producer_right md5 p ?u"
  proof (cases "?chunk = []")
    case True
    then have end_of: "up_total_parts p \<le> up_part u"
      using chunk_at_empty [OF assms(1)] chunk by auto
    then have "\<not> part_size * up_part u < length (up_content p)"
      using part_exists [OF assms(1), of "up_part u"] by simp
    then have all: "up_md5 u = (if \<not> up_is_big p \<and> \<not> up_missing p then Some (drop (part_size * up_first p) (up_content p)) else None)"
      using rd fp by (simp add: reading_right_def diff_mult_distrib2)
    have new: "up_producer ?u = PuttingNone (up_workers_count p)"
      "up_checksum ?u = (case up_md5 u of None \<Rightarrow> up_checksum u | Some bs \<Rightarrow> hex_text (md5 bs))"
      using True by (simp_all add: read_chunk_def)
    have "to_put p u = []"
      using expected_parts_end [OF end_of] assms(3) by (simp add: to_put_def)
    moreover have "to_put p ?u = []"
      by (simp add: to_put_def new)
    moreover have "checksum_right md5 p ?u"
      by (simp add: checksum_right_def new all)
    moreover have "0 < up_workers_count p"
      using assms(1) by (simp add: plan_right_def)
    ultimately show ?thesis
      using assms(3) end_of by (simp add: producer_right_def new same nones_left_def)
  next
    case False
    then have "up_total_parts p > up_part u"
      using chunk_at_empty [OF assms(1)] chunk by auto
    then have at: "up_pos u = part_size * up_part u"
      using pos part_exists [OF assms(1), of "up_part u"] by (auto simp: position_right_def)
    have new: "up_producer ?u = Putting (make_part p (up_part u) (chunk_at p (up_part u))) (chunk_at p (up_part u))"
      "up_pos ?u = up_pos u + length (chunk_at p (up_part u))"
      using False unfolding chunk [symmetric] by (simp_all add: read_chunk_def Let_def)
    have "reading_right p ?u"
      using rd unfolding reading_right_def same by simp
    then show ?thesis
      using False assms(3) unfolding chunk by (simp add: producer_right_def to_put_def nones_left_def new same at)
  qed
  then have "parts_kept p ?u = parts_kept p u" "nones_kept p ?u = nones_kept p u" "reports_right h p ?u = reports_right h p u"
    by (simp_all only: parts_kept_def nones_kept_def reports_right_def same)
  then show ?thesis
    using inv kept by (simp add: upload_inv_def same)
qed


lemma put_part_inv:
  assumes "plan_right p" "upload_inv md5 h p u" "up_producer u = Putting rpc chunk" "up_queue u = []"
    "up_outcome u = None"
  shows "upload_inv md5 h p (put_part h p rpc chunk u)"
proof -
  let ?k = "up_part u" and ?u = "put_part h p rpc chunk u"
  note inv = upload_invD [OF assms(2)]
  have rd: "reading_right p u" and chunk: "chunk = chunk_at p ?k" "chunk \<noteq> []" "rpc = make_part p ?k chunk"
      "up_pos u = part_size * ?k + length chunk" and fp: "up_first p \<le> ?k"
    using inv(6,7) assms(3) by (auto simp: producer_right_def reports_right_def)
  have less: "?k < up_total_parts p"
    using chunk chunk_at_empty [OF assms(1)] by (metis not_less)
  have missing: "up_missing p \<Longrightarrow> ?k = up_first p"
    using rd by (simp add: reading_right_def)
  have split: "to_put p u = rpc # drop (Suc ?k - up_first p) (expected_parts p)"
    using expected_parts_drop [OF assms(1) less fp missing] chunk assms(3) by (simp add: to_put_def)
  have same: "up_queue ?u = [Some rpc]" "up_workers ?u = up_workers u" "up_failure ?u = up_failure u"
      "up_acked ?u = up_acked u" "up_outcome ?u = None" "up_pos ?u = up_pos u"
    using assms(4,5) by (simp_all add: put_part_def Let_def)
  have left: "nones_left p (up_producer ?u) = up_workers_count p"
    by (simp add: put_part_def Let_def nones_left_def)
  have kept: "mset (to_put p u) = add_mset rpc (mset (to_put p ?u)) \<and> producer_right md5 p ?u \<and> reports_right h p ?u"
  proof (cases "up_missing p")
    case True
    then show ?thesis
      using expected_parts_missing [OF True] missing inv(7) assms(1) unfolding split
      by (simp add: put_part_def Let_def to_put_def producer_right_def checksum_right_def plan_right_def reports_right_def)
  next
    case False
    have md5: "up_md5 ?u = map_option (\<lambda>bs. bs @ chunk) (up_md5 u)" and part: "up_part ?u = Suc ?k"
      using False by (simp_all add: put_part_def Let_def)
    have "reading_right p ?u"
    proof -
      have "take (part_size * (Suc ?k - up_first p)) (drop (part_size * up_first p) (up_content p)) =
        take (part_size * (?k - up_first p)) (drop (part_size * up_first p) (up_content p)) @ chunk"
      proof -
        have "part_size * (Suc ?k - up_first p) = part_size * (?k - up_first p) + part_size"
          using fp by (simp add: Suc_diff_le)
        moreover have "part_size * (?k - up_first p) + part_size * up_first p = part_size * ?k"
          using fp by (simp add: distrib_left [symmetric])
        ultimately show ?thesis
          by (simp add: take_add chunk(1) chunk_at_def)
      qed
      then show ?thesis
        using rd False by (simp add: reading_right_def md5 part)
    qed
    moreover have "position_right p ?u"
    proof -
      have "length chunk = min (length (up_content p) - part_size * ?k) part_size"
        by (simp add: chunk(1) chunk_at_def)
      then have "up_pos u = part_size * Suc ?k \<or>
          length (up_content p) \<le> up_pos u \<and> length (up_content p) \<le> part_size * Suc ?k"
        using chunk(4) unfolding mult_Suc_right by linarith
      then show ?thesis
        by (simp only: position_right_def same part)
    qed
    moreover have "up_producer ?u = InCallback \<or> up_producer ?u = Reading"
      using False by (simp add: put_part_def Let_def)
    moreover have "reports_right h p ?u"
      using inv(7) False less by (auto simp: reports_right_def put_part_def Let_def)
    ultimately show ?thesis
      unfolding split by (auto simp: producer_right_def to_put_def part)
  qed
  have "up_failure u = None \<Longrightarrow> parts_kept p ?u \<and> nones_kept p ?u"
    using inv(4,5) kept assms(4) left unfolding parts_kept_def nones_kept_def same
    by (simp add: nones_left_def assms(3))
  then show ?thesis
    using inv(2,3,8) assms(5) kept by (simp add: upload_inv_def same)
qed

lemma put_none_inv:
  assumes "upload_inv md5 h p u" "up_producer u = PuttingNone k" "up_queue u = []" "up_outcome u = None"
  shows "upload_inv md5 h p (put_none k u)"
proof -
  note inv = upload_invD [OF assms(1)]
  have "producer_right md5 p (put_none k u)" "1 \<le> k" "reports_right h p (put_none k u)"
    using inv(6,7) assms(2) by (auto simp: put_none_def producer_right_def checksum_right_def reports_right_def)
  then show ?thesis
    using inv assms(2,3,4)
    by (auto simp: upload_inv_def put_none_def parts_kept_def nones_kept_def to_put_def nones_left_def)
qed

lemma callback_inv:
  assumes "upload_inv md5 h p u" "callback_returns r u = Some u'" "up_outcome u = None"
  shows "upload_inv md5 h p u'"
proof -
  note inv = upload_invD [OF assms(1)]
  have "producer_right md5 p u'"
    using inv(6) assms(2)
    by (auto simp: callback_returns_def producer_side split: if_splits option.splits)
  moreover have "up_failure u' = None \<Longrightarrow> parts_kept p u' \<and> nones_kept p u' \<and> up_failure u = None"
    using inv(4,5) assms(2)
    by (auto simp: callback_returns_def parts_kept_def nones_kept_def to_put_def nones_left_def
        split: if_splits option.splits)
  ultimately show ?thesis
    using inv assms(2,3)
    by (auto simp: upload_inv_def callback_returns_def reports_right_def split: if_splits option.splits)
qed

text \<open>A step of a worker: what it drops, it hands over.\<close>

definition producer_view :: "upload \<Rightarrow> nat \<times> nat \<times> bytes option \<times> string \<times> producer \<times> nat list \<times> (upload_error + unit) option" where
  "producer_view u = (up_pos u, up_part u, up_md5 u, up_checksum u, up_producer u, up_reports u, up_outcome u)"

lemma worker_step_inv:
  assumes "upload_inv md5 h p u" "up_outcome u = None" "i < length (up_workers u)"
    and view: "producer_view u' = producer_view u" and ws: "up_workers u' = (up_workers u)[i := w]"
    and q: "length (up_queue u') \<le> 1"
      "None \<in> set (up_queue u) \<or> up_queue u = [] \<Longrightarrow> None \<in> set (up_queue u') \<or> up_queue u' = []"
    and f: "w = WorkerFailed \<Longrightarrow> up_failure u' \<noteq> None" "up_failure u \<noteq> None \<Longrightarrow> up_failure u' \<noteq> None"
    and parts: "up_failure u' = None \<Longrightarrow> mset (up_acked u') + held w + sum_list (map queued (up_queue u')) =
      mset (up_acked u) + held (up_workers u ! i) + sum_list (map queued (up_queue u))"
    and nones: "up_failure u' = None \<Longrightarrow> sum_list (map sentinel (up_queue u')) + returned w =
      sum_list (map sentinel (up_queue u)) + returned (up_workers u ! i)"
  shows "upload_inv md5 h p u'"
proof -
  note inv = upload_invD [OF assms(1)]
  have v: "up_pos u' = up_pos u" "up_part u' = up_part u" "up_md5 u' = up_md5 u" "up_checksum u' = up_checksum u"
      "up_producer u' = up_producer u" "up_reports u' = up_reports u" "up_outcome u' = None"
    using view assms(2) by (simp_all add: producer_view_def)
  have to_put: "to_put p u' = to_put p u"
    by (simp only: to_put_def v)
  have "producer_right md5 p u'"
    using inv(6) q(2) f(2) by (auto simp: producer_side v split: producer.splits)
  moreover have "reports_right h p u'"
    using inv(7) by (simp add: reports_right_def v)
  moreover have "WorkerFailed \<in> set (up_workers u') \<longrightarrow> up_failure u' \<noteq> None"
    using inv(3) f set_update_subset_insert [of "up_workers u" i w] unfolding ws by blast
  moreover have "parts_kept p u' \<and> nones_kept p u'" if ok: "up_failure u' = None"
  proof -
    have "up_failure u = None"
      using f(2) ok by blast
    then have k: "parts_kept p u" "nones_kept p u"
      using inv(4,5) by auto
    have "mset (up_acked u') + sum_list (map held (up_workers u')) + sum_list (map queued (up_queue u')) =
        mset (up_acked u) + sum_list (map held (up_workers u)) + sum_list (map queued (up_queue u))"
    proof -
      have "(mset (up_acked u') + sum_list (map held (up_workers u')) + sum_list (map queued (up_queue u'))) +
          held (up_workers u ! i) =
          (mset (up_acked u') + held w + sum_list (map queued (up_queue u'))) + sum_list (map held (up_workers u))"
        using sum_list_replace [OF assms(3), of held w] by (simp add: ws ac_simps)
      then show ?thesis
        unfolding parts [OF ok] by (simp add: ac_simps)
    qed
    moreover have "sum_list (map sentinel (up_queue u')) + sum_list (map returned (up_workers u')) =
        sum_list (map sentinel (up_queue u)) + sum_list (map returned (up_workers u))"
      using sum_list_replace [OF assms(3), of returned w] nones [OF ok] by (simp add: ws)
    ultimately show ?thesis
      using k to_put by (simp add: parts_kept_def nones_kept_def v(5))
  qed
  ultimately show ?thesis
    using inv(2) q(1) by (simp add: upload_inv_def v ws)
qed

lemma worker_raises_inv:
  assumes "upload_inv md5 h p u" "up_outcome u = None" "i < length (up_workers u)"
  shows "upload_inv md5 h p (worker_raises i e u)"
  by (rule worker_step_inv [OF assms, where w = WorkerFailed])
    (use upload_invD(1) [OF assms(1)] in \<open>simp_all add: worker_raises_def producer_view_def\<close>)

lemma replace_worker_inv:
  assumes "upload_inv md5 h p u" "up_outcome u = None" "i < length (up_workers u)"
    "held w = held (up_workers u ! i)" "returned w = returned (up_workers u ! i)" "w \<noteq> WorkerFailed"
  shows "upload_inv md5 h p (set_worker i w u)"
  by (rule worker_step_inv [OF assms(1-3), where w = w])
    (use upload_invD(1) [OF assms(1)] assms(4-6) in \<open>simp_all add: producer_view_def\<close>)

lemma clock_inv [simp]:
  "upload_inv md5 h p (u\<lparr>up_now := t\<rparr>) = upload_inv md5 h p u"
  "upload_inv md5 h p (u\<lparr>up_flood_until := t\<rparr>) = upload_inv md5 h p u"
  "upload_inv md5 h p (u\<lparr>up_stalled := b\<rparr>) = upload_inv md5 h p u"
  "upload_inv md5 h p (u\<lparr>up_fallback := b\<rparr>) = upload_inv md5 h p u"
  "upload_inv md5 h p (u\<lparr>up_fallback_attempted := b\<rparr>) = upload_inv md5 h p u"
  by (simp_all add: upload_inv_def parts_kept_def nones_kept_def producer_side all_returned_def cong: producer.case_cong)

lemma take_part_inv:
  assumes "upload_inv md5 h p u" "up_outcome u = None" "i < length (up_workers u)" "take_part i u = Some u'"
  shows "upload_inv md5 h p u'"
proof -
  note inv = upload_invD [OF assms(1)]
  obtain x where q: "up_queue u = [x]" and g: "up_workers u ! i = Getting"
    using assms(4) inv(1) by (cases "up_queue u"; cases "up_workers u ! i") (auto simp: take_part_def split: option.splits)
  show ?thesis
  proof (cases x)
    case None
    then have "u' = set_worker i Returned (u\<lparr>up_queue := []\<rparr>)"
      using assms(4) q g by (simp add: take_part_def)
    then show ?thesis
      using q g None by (intro worker_step_inv [OF assms(1-3), where w = Returned]) (simp_all add: producer_view_def)
  next
    case (Some rpc)
    then have "u' = set_worker i (Entering rpc) (u\<lparr>up_queue := []\<rparr>)"
      using assms(4) q g by (simp add: take_part_def)
    then show ?thesis
      using q g Some by (intro worker_step_inv [OF assms(1-3), where w = "Entering rpc"]) (simp_all add: producer_view_def)
  qed
qed

lemma enter_lock_inv:
  assumes "upload_inv md5 h p u" "up_outcome u = None" "i < length (up_workers u)" "enter_lock i u = Some u'"
  shows "upload_inv md5 h p u'"
  using assms
  by (auto simp: enter_lock_def split: if_splits upload_worker.splits intro!: replace_worker_inv worker_raises_inv)

lemma fallback_ready_inv:
  assumes "upload_inv md5 h p u" "up_outcome u = None" "i < length (up_workers u)" "fallback_ready i r u = Some u'"
  shows "upload_inv md5 h p u'"
  using assms
  by (auto simp: fallback_ready_def split: sum.splits bool.splits upload_worker.splits
      intro!: replace_worker_inv worker_raises_inv)

lemma awake_inv:
  assumes "upload_inv md5 h p u" "up_outcome u = None" "i < length (up_workers u)" "awake i u = Some u'"
  shows "upload_inv md5 h p u'"
  using assms by (auto simp: awake_def split: if_splits upload_worker.splits intro!: replace_worker_inv)

lemma answer_part_inv:
  assumes "upload_inv md5 h p u" "up_outcome u = None" "i < length (up_workers u)" "answer_part i r u = Some u'"
  shows "upload_inv md5 h p u'"
proof -
  obtain rpc fb where w: "up_workers u ! i = Invoking rpc fb"
    using assms(4) by (auto simp: answer_part_def split: upload_worker.splits)
  show ?thesis
  proof (cases r)
    case None
    then have "u' = set_worker i Getting (u\<lparr>up_acked := up_acked u @ [rpc], up_last_progress := up_now u\<rparr>)"
      using assms(4) w by (simp add: answer_part_def)
    then show ?thesis
      using w upload_invD(1) [OF assms(1)]
      by (intro worker_step_inv [OF assms(1-3), where w = Getting]) (simp_all add: producer_view_def)
  next
    case (Some e)
    then show ?thesis
      using assms w
      by (auto simp: answer_part_def split: if_splits upload_error.splits option.splits
          intro!: replace_worker_inv worker_raises_inv)
  qed
qed

lemma settle_inv:
  assumes "upload_inv md5 h p u" "settle u = Some u'"
  shows "upload_inv md5 h p u'"
proof -
  have "\<exists>r. u' = u\<lparr>up_outcome := Some r\<rparr> \<and> (r = Inr () \<longrightarrow> up_failure u = None \<and> all_returned u)"
    using assms(2) by (auto simp: settle_def split: option.splits if_splits)
  then obtain r where u': "u' = u\<lparr>up_outcome := Some r\<rparr>" and r: "r = Inr () \<longrightarrow> up_failure u = None \<and> all_returned u"
    by blast
  have "parts_kept p u' = parts_kept p u" "nones_kept p u' = nones_kept p u" "reports_right h p u' = reports_right h p u"
      "producer_right md5 p u' = producer_right md5 p u" "all_returned u' = all_returned u"
    unfolding u' by (simp_all add: parts_kept_def nones_kept_def producer_side all_returned_def cong: producer.case_cong)
  then show ?thesis
    using assms(1) r by (auto simp: upload_inv_def u')
qed

lemma perform_inv:
  assumes "plan_right p" "upload_inv md5 h p u" "up_outcome u = None" "perform md5 h p ev u = Some u'"
  shows "upload_inv md5 h p u'"
proof (cases ev)
  case Produce
  then have e: "produce md5 h p u = Some u'"
    using assms(4) by simp
  show ?thesis
  proof (cases "up_producer u")
    case Reading
    then show ?thesis
      using e read_chunk_inv [OF assms(1,2) Reading assms(3)] by (simp add: produce_def)
  next
    case (Putting rpc chunk)
    then show ?thesis
      using e put_part_inv [OF assms(1,2) Putting _ assms(3)] by (simp add: produce_def split: if_splits)
  next
    case (PuttingNone k)
    then show ?thesis
      using e put_none_inv [OF assms(2) PuttingNone _ assms(3)] by (simp add: produce_def split: if_splits)
  qed (use e in \<open>simp_all add: produce_def\<close>)
next
  case (CallbackReturns r)
  then show ?thesis
    using callback_inv [OF assms(2) _ assms(3)] assms(4) by simp
next
  case Settle
  then show ?thesis
    using assms(4) settle_inv [OF assms(2)] by simp
next
  case (Tick d)
  then show ?thesis
    using assms(2,4) by (simp split: if_splits) (metis clock_inv(1))
next
  case WatchProgress
  then show ?thesis
    using assms(2,4) by (simp add: watch_progress_def split: if_splits) (metis clock_inv(3))
next
  case (TakePart i)
  then show ?thesis
    using assms(4) take_part_inv [OF assms(2,3)] by (simp add: worker_event_def split: if_splits)
next
  case (EnterLock i)
  then show ?thesis
    using assms(4) enter_lock_inv [OF assms(2,3)] by (simp add: worker_event_def split: if_splits)
next
  case (FallbackReady i r)
  then show ?thesis
    using assms(4) fallback_ready_inv [OF assms(2,3)] by (simp add: worker_event_def split: if_splits)
next
  case (AnswerPart i r)
  then show ?thesis
    using assms(4) answer_part_inv [OF assms(2,3)] by (simp add: worker_event_def split: if_splits)
next
  case (Awake i)
  then show ?thesis
    using assms(4) awake_inv [OF assms(2,3)] by (simp add: worker_event_def split: if_splits)
qed

lemma run_upload_inv:
  "plan_right p \<Longrightarrow> upload_inv md5 h p u \<Longrightarrow> run_upload md5 h p evs u = Some u' \<Longrightarrow> upload_inv md5 h p u'"
  by (induction evs arbitrary: u) (auto split: if_splits option.splits intro: perform_inv)


section \<open>The steps of an upload are bounded\<close>

fun worker_weight :: "upload_worker \<Rightarrow> nat" where
  "worker_weight (Entering _) = 5"
| "worker_weight (Invoking _ fb) = (if fb then 1 else 4)"
| "worker_weight (Sleeping _ fb _) = (if fb then 2 else 5)"
| "worker_weight (Locking _ _) = 3"
| "worker_weight (GettingFallback _ _) = 2"
| "worker_weight _ = 0"

fun queue_weight :: "part_rpc option \<Rightarrow> nat" where
  "queue_weight None = 1"
| "queue_weight (Some _) = 6"

definition producer_weight :: "upload_plan \<Rightarrow> upload \<Rightarrow> nat" where
  "producer_weight p u =
    (case up_producer u of
       Reading \<Rightarrow> 9 * length (to_put p u) + 2 * up_workers_count p + 1
     | Putting _ _ \<Rightarrow> 9 * length (to_put p u) + 2 * up_workers_count p
     | InCallback \<Rightarrow> 9 * length (to_put p u) + 2 * up_workers_count p + 2
     | PuttingNone k \<Rightarrow> 2 * k
     | _ \<Rightarrow> 0)"

definition upload_weight :: "upload_plan \<Rightarrow> upload \<Rightarrow> nat" where
  "upload_weight p u = sum_list (map worker_weight (up_workers u)) + sum_list (map queue_weight (up_queue u)) +
     producer_weight p u + (if up_stalled u then 0 else 1) + (if up_outcome u = None then 1 else 0)"

fun is_tick :: "upload_event \<Rightarrow> bool" where
  "is_tick (Tick _) = True" | "is_tick _ = False"

fun is_flood :: "upload_event \<Rightarrow> bool" where
  "is_flood (AnswerPart _ (Some (FloodWait (Some _)))) = True" | "is_flood _ = False"

lemma producer_weight_same:
  "up_producer u' = up_producer u \<Longrightarrow> up_part u' = up_part u \<Longrightarrow> producer_weight p u' = producer_weight p u"
  by (simp only: producer_weight_def to_put_def)

lemma producer_weight_fields [simp]:
  "producer_weight p (u\<lparr>up_outcome := o1\<rparr>) = producer_weight p u"
  "producer_weight p (u\<lparr>up_now := t\<rparr>) = producer_weight p u"
  "producer_weight p (u\<lparr>up_stalled := b\<rparr>) = producer_weight p u"
  by (rule producer_weight_same; simp)+

lemma worker_weight_step:
  assumes "producer_view u' = producer_view u" "up_workers u' = (up_workers u)[i := w]" "i < length (up_workers u)"
    "up_stalled u' = up_stalled u"
  shows "upload_weight p u' + worker_weight (up_workers u ! i) + sum_list (map queue_weight (up_queue u)) =
    upload_weight p u + worker_weight w + sum_list (map queue_weight (up_queue u'))"
proof -
  have "producer_weight p u' = producer_weight p u" "up_outcome u' = up_outcome u"
    using assms(1) by (auto simp: producer_view_def intro: producer_weight_same)
  then show ?thesis
    using sum_list_replace [OF assms(3), of worker_weight w] assms(2,4) by (simp add: upload_weight_def)
qed

lemma queue_kept_weight:
  assumes "producer_view u' = producer_view u" "up_workers u' = (up_workers u)[i := w]" "i < length (up_workers u)"
    "up_stalled u' = up_stalled u" "up_queue u' = up_queue u"
  shows "Suc (worker_weight w) \<le> worker_weight (up_workers u ! i) \<Longrightarrow> Suc (upload_weight p u') \<le> upload_weight p u"
    and "worker_weight w \<le> Suc (worker_weight (up_workers u ! i)) \<Longrightarrow> upload_weight p u' \<le> Suc (upload_weight p u)"
  using worker_weight_step [OF assms(1-4), of p] assms(5) by simp_all

lemma set_worker_view [simp]: "producer_view (set_worker i w u) = producer_view u"
  by (simp add: producer_view_def)

lemma worker_raises_view [simp]: "producer_view (worker_raises i e u) = producer_view u"
  "up_workers (worker_raises i e u) = (up_workers u)[i := WorkerFailed]" "up_queue (worker_raises i e u) = up_queue u"
  "up_stalled (worker_raises i e u) = up_stalled u"
  by (simp_all add: worker_raises_def producer_view_def)

lemma other_fields_view [simp]:
  "producer_view (u\<lparr>up_fallback := b\<rparr>) = producer_view u" "producer_view (u\<lparr>up_fallback_attempted := b\<rparr>) = producer_view u"
  "producer_view (u\<lparr>up_flood_until := t\<rparr>) = producer_view u" "producer_view (u\<lparr>up_queue := q\<rparr>) = producer_view u"
  "producer_view (u\<lparr>up_acked := a, up_last_progress := t\<rparr>) = producer_view u"
  by (simp_all add: producer_view_def)

lemma worker_event_weight:
  assumes "i < length (up_workers u)"
  shows "enter_lock i u = Some u' \<Longrightarrow> upload_weight p u' + 1 \<le> upload_weight p u + 0"
    and "fallback_ready i r u = Some u' \<Longrightarrow> upload_weight p u' + 1 \<le> upload_weight p u + 0"
    and "awake i u = Some u' \<Longrightarrow> upload_weight p u' + 1 \<le> upload_weight p u + 0"
    and "answer_part i r' u = Some u' \<Longrightarrow>
      upload_weight p u' + 1 \<le> upload_weight p u + (if is_flood (AnswerPart i r') then 2 else 0)"
  using assms
  by (auto simp: enter_lock_def fallback_ready_def awake_def answer_part_def
      split: if_splits upload_worker.splits sum.splits bool.splits option.splits upload_error.splits
      intro!: queue_kept_weight [where i = i])

lemma take_part_weight:
  assumes "i < length (up_workers u)" "take_part i u = Some u'"
  shows "upload_weight p u' + 1 \<le> upload_weight p u"
proof -
  obtain x q where q: "up_queue u = x # q" and g: "up_workers u ! i = Getting"
    using assms(2) by (cases "up_queue u"; cases "up_workers u ! i") (auto simp: take_part_def split: option.splits)
  define w where "w = (case x of None \<Rightarrow> Returned | Some rpc \<Rightarrow> Entering rpc)"
  have u': "u' = set_worker i w (u\<lparr>up_queue := q\<rparr>)"
    using assms(2) q g by (cases x) (simp_all add: take_part_def w_def)
  have "worker_weight w + 1 = queue_weight x"
    by (cases x) (simp_all add: w_def)
  then show ?thesis
    using worker_weight_step [of u' u i w p] assms(1) q g by (simp add: u')
qed

lemma produce_weight:
  assumes "plan_right p" "upload_inv md5 h p u" "produce md5 h p u = Some u'"
  shows "upload_weight p u' + 1 \<le> upload_weight p u"
proof -
  note inv = upload_invD [OF assms(2)]
  show ?thesis
  proof (cases "up_producer u")
    case Reading
    then show ?thesis
      using assms(3)
      by (cases "take part_size (drop (up_pos u) (up_content p)) = []")
        (auto simp: produce_def read_chunk_def Let_def upload_weight_def producer_weight_def to_put_def)
  next
    case (Putting rpc chunk)
    then have q: "up_queue u = []" and u': "u' = put_part h p rpc chunk u"
      using assms(3) by (auto simp: produce_def split: if_splits)
    have rd: "reading_right p u" and chunk: "chunk = chunk_at p (up_part u)" "chunk \<noteq> []" and fp: "up_first p \<le> up_part u"
      using inv(6,7) Putting by (auto simp: producer_right_def reports_right_def)
    have "up_part u < up_total_parts p"
      using chunk chunk_at_empty [OF assms(1)] by (metis not_less)
    from expected_parts_drop [OF assms(1) this fp]
    have "length (to_put p u) = Suc (length (drop (Suc (up_part u) - up_first p) (expected_parts p)))"
      using rd Putting by (simp add: reading_right_def to_put_def)
    moreover have "to_put p u' = (if up_missing p then [] else drop (Suc (up_part u) - up_first p) (expected_parts p))"
      unfolding u' by (simp add: put_part_def Let_def to_put_def)
    moreover have "up_producer u' = (if up_missing p then PuttingNone (up_workers_count p) else if h then InCallback else Reading)"
      "up_workers u' = up_workers u" "up_queue u' = [Some rpc]" "up_stalled u' = up_stalled u" "up_outcome u' = up_outcome u"
      unfolding u' by (simp_all add: put_part_def Let_def q)
    ultimately show ?thesis
      using Putting q by (simp add: upload_weight_def producer_weight_def)
  next
    case (PuttingNone k)
    then have "1 \<le> k"
      using inv(6) by (simp add: producer_right_def)
    then show ?thesis
      using assms(3) PuttingNone
      by (auto simp: produce_def put_none_def upload_weight_def producer_weight_def split: if_splits)
  qed (use assms(3) in \<open>simp_all add: produce_def\<close>)
qed

lemma perform_weight:
  assumes "plan_right p" "upload_inv md5 h p u" "up_outcome u = None" "perform md5 h p ev u = Some u'"
  shows "upload_weight p u' + (if is_tick ev then 0 else 1) \<le> upload_weight p u + (if is_flood ev then 2 else 0)"
proof (cases ev)
  case Produce
  then show ?thesis
    using assms produce_weight [OF assms(1,2)] by simp
next
  case (CallbackReturns r)
  then show ?thesis
    using assms(4)
    by (auto simp: callback_returns_def upload_weight_def producer_weight_def to_put_def split: if_splits option.splits)
next
  case Settle
  then show ?thesis
    using assms(3,4)
    by (auto simp: settle_def upload_weight_def split: if_splits option.splits)
next
  case (Tick d)
  then show ?thesis
    using assms(4) by (auto simp: upload_weight_def split: if_splits)
next
  case WatchProgress
  then show ?thesis
    using assms(4) by (auto simp: watch_progress_def upload_weight_def split: if_splits)
next
  case (TakePart i)
  then show ?thesis
    using assms(4) take_part_weight by (auto simp: worker_event_def split: if_splits)
next
  case (EnterLock i)
  then show ?thesis
    using assms(4) worker_event_weight(1) [of i u u' p] by (simp add: worker_event_def split: if_splits)
next
  case (FallbackReady i r)
  then show ?thesis
    using assms(4) worker_event_weight(2) [of i u r u' p] by (simp add: worker_event_def split: if_splits)
next
  case (AnswerPart i r)
  then show ?thesis
    using assms(4) worker_event_weight(4) [of i u r u' p] by (simp add: worker_event_def split: if_splits)
next
  case (Awake i)
  then show ?thesis
    using assms(4) worker_event_weight(3) [of i u u' p] by (simp add: worker_event_def split: if_splits)
qed

lemma run_upload_weight:
  assumes "plan_right p" "upload_inv md5 h p u" "run_upload md5 h p evs u = Some u'"
  shows "upload_weight p u' + length (filter (Not \<circ> is_tick) evs) \<le>
    upload_weight p u + 2 * length (filter is_flood evs)"
  using assms(2,3)
proof (induction evs arbitrary: u)
  case (Cons ev evs)
  then obtain u1 where o: "up_outcome u = None" and p1: "perform md5 h p ev u = Some u1"
    and rest: "run_upload md5 h p evs u1 = Some u'"
    by (auto split: if_splits option.splits)
  have "upload_inv md5 h p u1"
    by (rule perform_inv [OF assms(1) Cons.prems(1) o p1])
  from Cons.IH [OF this rest] perform_weight [OF assms(1) Cons.prems(1) o p1]
  show ?case
    by (auto split: if_splits)
qed simp


section \<open>The fallback session is asked for once\<close>

fun is_fallback :: "upload_event \<Rightarrow> bool" where
  "is_fallback (FallbackReady _ _) = True" | "is_fallback _ = False"

definition lock_weight :: "upload_worker \<Rightarrow> nat" where
  "lock_weight w = (if holds_lock w then 1 else 0)"

definition fallback_weight :: "upload \<Rightarrow> nat" where
  "fallback_weight u = sum_list (map lock_weight (up_workers u)) + (if up_fallback_attempted u then 0 else 1)"

lemma fallback_weight_step:
  assumes "i < length (up_workers u)" "up_workers u' = (up_workers u)[i := w]"
  shows "fallback_weight u' + lock_weight (up_workers u ! i) + (if up_fallback_attempted u then 0 else 1) =
    fallback_weight u + lock_weight w + (if up_fallback_attempted u' then 0 else 1)"
  using sum_list_replace [OF assms(1), of lock_weight w] by (simp add: fallback_weight_def assms(2))

lemma fallback_kept:
  assumes "i < length (up_workers u)" "up_workers u' = (up_workers u)[i := w]"
  shows "lock_weight w + (if up_fallback_attempted u' then 0 else 1) \<le>
      lock_weight (up_workers u ! i) + (if up_fallback_attempted u then 0 else 1) \<Longrightarrow> fallback_weight u' \<le> fallback_weight u"
    and "lock_weight w + (if up_fallback_attempted u' then 0 else 1) <
      lock_weight (up_workers u ! i) + (if up_fallback_attempted u then 0 else 1) \<Longrightarrow> Suc (fallback_weight u') \<le> fallback_weight u"
  using fallback_weight_step [OF assms] by simp_all

lemma attempted_fields [simp]:
  "up_fallback_attempted (set_worker i w u) = up_fallback_attempted u"
  "up_fallback_attempted (task_fails e u) = up_fallback_attempted u"
  "up_fallback_attempted (worker_raises i e u) = up_fallback_attempted u"
  by (simp_all add: set_worker_def task_fails_def worker_raises_def)

lemma perform_fallback:
  assumes "perform md5 h p ev u = Some u'"
  shows "fallback_weight u' + (if is_fallback ev then 1 else 0) \<le> fallback_weight u"
proof (cases ev)
  case Produce
  then show ?thesis
    using assms
    by (auto simp: produce_def read_chunk_def put_part_def put_none_def Let_def fallback_weight_def
        split: producer.splits if_splits)
next
  case (EnterLock i)
  then show ?thesis
    using assms
    by (auto simp: worker_event_def enter_lock_def lock_weight_def split: if_splits upload_worker.splits
        intro!: fallback_kept(1) [where i = i])
next
  case (FallbackReady i r)
  then show ?thesis
    using assms
    by (auto simp: worker_event_def fallback_ready_def lock_weight_def
        split: if_splits upload_worker.splits sum.splits bool.splits intro!: fallback_kept(2) [where i = i])
next
  case (AnswerPart i r)
  then show ?thesis
    using assms
    by (auto simp: worker_event_def answer_part_def lock_weight_def
        split: if_splits upload_worker.splits option.splits upload_error.splits intro!: fallback_kept(1) [where i = i])
next
  case (Awake i)
  then show ?thesis
    using assms
    by (auto simp: worker_event_def awake_def lock_weight_def split: if_splits upload_worker.splits
        intro!: fallback_kept(1) [where i = i])
next
  case (TakePart i)
  then show ?thesis
    using assms
    by (auto simp: worker_event_def take_part_def lock_weight_def split: if_splits upload_worker.splits list.splits option.splits
        intro!: fallback_kept(1) [where i = i])
qed (use assms in \<open>auto simp: callback_returns_def watch_progress_def settle_def fallback_weight_def
    split: if_splits option.splits\<close>)

lemma run_upload_fallback:
  "run_upload md5 h p evs u = Some u' \<Longrightarrow> fallback_weight u' + length (filter is_fallback evs) \<le> fallback_weight u"
proof (induction evs arbitrary: u)
  case (Cons ev evs)
  then obtain u1 where p1: "perform md5 h p ev u = Some u1" and rest: "run_upload md5 h p evs u1 = Some u'"
    by (auto split: if_splits option.splits)
  from Cons.IH [OF rest] perform_fallback [OF p1] show ?case
    by (auto split: if_splits)
qed simp


section \<open>The tasks do not wait for each other in vain\<close>

fun waits_inside :: "upload_worker \<Rightarrow> bool" where
  "waits_inside Getting = True" | "waits_inside Returned = True" | "waits_inside WorkerFailed = True"
| "waits_inside _ = False"

definition enabled :: "upload_plan \<Rightarrow> upload \<Rightarrow> bool" where
  "enabled p u = (\<exists>ev. \<not> is_tick ev \<and> ev \<noteq> WatchProgress \<and> (\<forall>md5 h. \<exists>u'. perform md5 h p ev u = Some u'))"

lemma enabledI: "\<not> is_tick ev \<Longrightarrow> ev \<noteq> WatchProgress \<Longrightarrow> (\<And>md5 h. \<exists>u'. perform md5 h p ev u = Some u') \<Longrightarrow> enabled p u"
  unfolding enabled_def by blast

lemma busy_worker_enabled:
  assumes i: "i < length (up_workers u)" and w: "\<not> waits_inside (up_workers u ! i)"
    and awake: "\<And>rpc fb t. Sleeping rpc fb t \<in> set (up_workers u) \<Longrightarrow> t \<le> up_now u"
  shows "enabled p u"
proof (cases "lock_free u")
  case False
  then obtain j rpc e where "j < length (up_workers u)" "up_workers u ! j = GettingFallback rpc e"
    by (auto simp: lock_free_def list_ex_length elim!: holds_lock.elims)
  then show ?thesis
    by (intro enabledI [of "FallbackReady j (Inr True)"]) (auto simp: worker_event_def fallback_ready_def)
next
  case True
  show ?thesis
  proof (cases "up_workers u ! i")
    case (Entering rpc)
    then show ?thesis
      using i True by (intro enabledI [of "EnterLock i"]) (auto simp: worker_event_def enter_lock_def)
  next
    case (Locking rpc e)
    then show ?thesis
      using i True by (intro enabledI [of "EnterLock i"]) (auto simp: worker_event_def enter_lock_def)
  next
    case (Invoking rpc fb)
    then show ?thesis
      using i by (intro enabledI [of "AnswerPart i None"]) (auto simp: worker_event_def answer_part_def)
  next
    case (Sleeping rpc fb t)
    then have "t \<le> up_now u"
      using i awake nth_mem by metis
    then show ?thesis
      using i Sleeping by (intro enabledI [of "Awake i"]) (auto simp: worker_event_def awake_def)
  next
    case (GettingFallback rpc e)
    then show ?thesis
      using i by (intro enabledI [of "FallbackReady i (Inr True)"]) (auto simp: worker_event_def fallback_ready_def)
  qed (use w in simp_all)
qed

lemma all_returned_count:
  "sum_list (map returned ws) = length ws \<longleftrightarrow> list_all (\<lambda>w. w = Returned) ws"
proof -
  have le: "returned w \<le> 1" and one: "returned w = 1 \<longleftrightarrow> w = Returned" for w
    by (cases w; simp)+
  have bound: "sum_list (map returned ws) \<le> length ws" for ws
    using sum_list_mono [of ws returned "\<lambda>_. 1"] le by (simp add: sum_list_triv)
  show ?thesis
  proof (induction ws)
    case (Cons w ws)
    then show ?case
      using le [of w] one [of w] bound [of ws] by auto
  qed simp
qed

lemma never_stuck:
  assumes "plan_right p" "upload_inv md5 h p u" "up_outcome u = None"
    and awake: "\<And>rpc fb t. Sleeping rpc fb t \<in> set (up_workers u) \<Longrightarrow> t \<le> up_now u"
  shows "enabled p u"
proof (rule ccontr)
  assume stuck: "\<not> enabled p u"
  note inv = upload_invD [OF assms(2)]
  have settle: "settle u = None"
    using stuck enabledI [of Settle p u] by (cases "settle u") auto
  then have ok: "up_failure u = None" and running: "\<not> all_returned u"
    by (auto simp: settle_def split: option.splits if_splits)
  have nones: "sum_list (map sentinel (up_queue u)) + nones_left p (up_producer u) +
      sum_list (map returned (up_workers u)) = up_workers_count p"
    using inv(5) ok by (simp add: nones_kept_def)
  have idle: "waits_inside (up_workers u ! i)" if "i < length (up_workers u)" for i
    using busy_worker_enabled [OF that] awake stuck by blast
  have "up_producer u \<noteq> Reading" "up_producer u \<noteq> InCallback"
    using stuck enabledI [of Produce] enabledI [of "CallbackReturns None"]
    by (auto simp: produce_def callback_returns_def)
  moreover have "up_producer u \<noteq> ProducerFailed"
    using inv(6) ok by (auto simp: producer_right_def)
  ultimately have waiting: "up_queue u \<noteq> [] \<or> up_producer u = Produced"
    using stuck enabledI [of Produce p u] by (cases "up_producer u") (auto simp: produce_def)
  have only: "w = Getting \<or> w = Returned" if "w \<in> set (up_workers u)" for w
    using idle that inv(3) ok by (auto simp: in_set_conv_nth elim!: waits_inside.elims)
  have "\<exists>i < length (up_workers u). up_workers u ! i = Getting"
  proof (rule ccontr)
    assume none: "\<not> ?thesis"
    have "up_workers u ! i = Returned" if "i < length (up_workers u)" for i
      using only [OF nth_mem [OF that]] none that by blast
    then have all: "list_all (\<lambda>w. w = Returned) (up_workers u)"
      by (simp add: list_all_length)
    then have "sum_list (map returned (up_workers u)) = up_workers_count p"
      using all_returned_count [of "up_workers u"] inv(2) by simp
    then have "nones_left p (up_producer u) = 0" "sum_list (map sentinel (up_queue u)) = 0"
      using nones by auto
    moreover have "0 < up_workers_count p"
      using assms(1) by (simp add: plan_right_def)
    ultimately have "up_producer u = Produced"
      using inv(6) by (auto simp: nones_left_def producer_right_def split: producer.splits)
    then show False
      using running all by (simp add: all_returned_def)
  qed
  then obtain i where i: "i < length (up_workers u)" "up_workers u ! i = Getting"
    by blast
  show False
  proof (cases "up_queue u")
    case (Cons x q)
    then have "enabled p u"
      using i by (intro enabledI [of "TakePart i"]) (cases x; auto simp: worker_event_def take_part_def)+
    then show False
      using stuck by simp
  next
    case Nil
    then have "up_producer u = Produced"
      using waiting by simp
    then have "sum_list (map returned (up_workers u)) = length (up_workers u)"
      using nones Nil inv(2) by (simp add: nones_left_def)
    then have "up_workers u ! i = Returned"
      using all_returned_count i(1) by (simp add: list_all_length)
    then show False
      using i(2) by simp
  qed
qed


section \<open>Properties\<close>

lemma plan_upload_right:
  assumes "plan_upload premium rnd content fid first = Inr p"
  shows "plan_right p" "up_content p = content" "up_missing p = (fid \<noteq> None)" "up_first p = first"
    "up_workers_count p \<le> 4" "up_total_parts p \<le> (if premium then 8000 else 4000)"
proof -
  have "length content \<le> (if premium then 4000 else 2000) * 1024 * 1024"
    using assms by (auto simp: plan_upload_def Let_def split: if_splits)
  then have "(length content + part_size - 1) div part_size \<le> (if premium then 8000 else 4000)"
    by (auto simp: part_size_def split: if_splits)
  then show "plan_right p" "up_content p = content" "up_missing p = (fid \<noteq> None)" "up_first p = first"
      "up_workers_count p \<le> 4" "up_total_parts p \<le> (if premium then 8000 else 4000)"
    using assms by (auto simp: plan_upload_def plan_right_def Let_def split: if_splits)
qed

lemma run_from_start:
  assumes "plan_upload premium rnd content fid first = Inr p"
    and "run_upload md5 h p evs (upload_start p t) = Some u"
  shows "upload_inv md5 h p u"
  using run_upload_inv [OF plan_upload_right(1) upload_start_inv] plan_upload_right(1) assms by blast

lemma concat_chunks_from:
  assumes "plan_right p"
  shows "concat (map (chunk_at p) [k..<up_total_parts p]) = drop (part_size * k) (up_content p)"
proof (induction "up_total_parts p - k" arbitrary: k)
  case 0
  then have "\<not> k < up_total_parts p"
    by simp
  then show ?case
    using part_exists [OF assms, of k] by simp
next
  case (Suc n)
  then have less: "k < up_total_parts p"
    by simp
  have "concat (map (chunk_at p) [k..<up_total_parts p]) =
      chunk_at p k @ concat (map (chunk_at p) [Suc k..<up_total_parts p])"
    using less by (simp add: upt_conv_Cons)
  also have "\<dots> = chunk_at p k @ drop (part_size * Suc k) (up_content p)"
    using Suc(1) [of "Suc k"] Suc(2) by simp
  also have "\<dots> = drop (part_size * k) (up_content p)"
    using append_take_drop_id [of part_size "drop (part_size * k) (up_content p)"]
    by (simp add: chunk_at_def add.commute)
  finally show ?case .
qed

lemma make_part_fields [simp]: "rpc_file_part (make_part p k c) = k" "rpc_bytes (make_part p k c) = c"
  by (simp_all add: make_part_def)

lemma expected_parts_whole:
  assumes "plan_right p" "\<not> up_missing p"
  shows "map rpc_file_part (expected_parts p) = [up_first p..<up_total_parts p]"
    and "concat (map rpc_bytes (expected_parts p)) = drop (part_size * up_first p) (up_content p)"
proof -
  show "map rpc_file_part (expected_parts p) = [up_first p..<up_total_parts p]"
    using assms(2) by (simp add: expected_parts_def o_def)
  have "map rpc_bytes (expected_parts p) = map (chunk_at p) [up_first p..<up_total_parts p]"
    using assms(2) by (simp add: expected_parts_def o_def)
  then show "concat (map rpc_bytes (expected_parts p)) = drop (part_size * up_first p) (up_content p)"
    using concat_chunks_from [OF assms(1)] by simp
qed

lemma success_acked:
  assumes "upload_inv md5 h p u" "up_outcome u = Some (Inr ())"
  shows "mset (up_acked u) = mset (expected_parts p) \<and> checksum_right md5 p u"
proof -
  note inv = upload_invD [OF assms(1)]
  have ok: "up_failure u = None" and pr: "up_producer u = Produced" and ws: "list_all (\<lambda>w. w = Returned) (up_workers u)"
    using inv(8) assms(2) by (auto simp: all_returned_def)
  have held: "sum_list (map held ws) = {#}" if "list_all (\<lambda>w. w = Returned) ws" for ws
    using that by (induction ws) auto
  have "sum_list (map sentinel (up_queue u)) = 0"
    using inv(2,5) ok ws all_returned_count [of "up_workers u"] by (simp add: nones_kept_def)
  then have "None \<notin> set (up_queue u)"
    by auto
  then have "up_queue u = []" "checksum_right md5 p u"
    using inv(6) pr by (auto simp: producer_right_def)
  then show ?thesis
    using inv(4) ok pr held [OF ws] by (simp add: parts_kept_def to_put_def)
qed

text \<open>C27: A file that `save_file` returns was uploaded whole. However the tasks interleave, whatever
  parts had to wait, were refused or went through the fallback session, when an upload ends with a
  result the parts acknowledged are, each once, exactly the expected ones: for a whole upload the
  numbers run from the first part to the total and the bytes in that order are the rest of the
  content, whose MD5 the result carries when the file is small; a missing part sent again is that
  part alone. No part is longer than half a mebibyte, and there are at most 4000 of them, 8000
  for premium accounts.\<close>

theorem upload_complete:
  assumes "plan_upload premium rnd content fid first = Inr p"
    and "run_upload md5 h p evs (upload_start p t) = Some u"
    and "save_file p name cleanup u = Some (Inr result)"
  shows "mset (up_acked u) = mset (expected_parts p) \<and>
    (if fid = None
     then map rpc_file_part (expected_parts p) = [first..<up_total_parts p] \<and>
       concat (map rpc_bytes (expected_parts p)) = drop (part_size * first) content \<and>
       result = (if up_is_big p then InputFileBig (up_file_id p) (up_total_parts p) name
         else InputFile (up_file_id p) (up_total_parts p) name (hex_text (md5 (drop (part_size * first) content))))
     else result = NoFile \<and>
       expected_parts p = (if first < up_total_parts p
         then [make_part p first (take part_size (drop (part_size * first) content))] else [])) \<and>
    list_all (\<lambda>rpc. length (rpc_bytes rpc) \<le> part_size) (up_acked u) \<and>
    up_total_parts p \<le> (if premium then 8000 else 4000)"
proof -
  note plan = plan_upload_right [OF assms(1)]
  have inv: "upload_inv md5 h p u"
    by (rule run_from_start [OF assms(1,2)])
  have "up_outcome u = Some (Inr ())"
    using assms(3) by (auto simp: save_file_def split: option.splits sum.splits)
  then have acked: "mset (up_acked u) = mset (expected_parts p)" and sum: "checksum_right md5 p u"
    using success_acked [OF inv] by auto
  have result: "result = (if up_missing p then NoFile
      else if up_is_big p then InputFileBig (up_file_id p) (up_total_parts p) name
      else InputFile (up_file_id p) (up_total_parts p) name (up_checksum u))"
    using assms(3) by (auto simp: save_file_def split: option.splits sum.splits)
  have "length (rpc_bytes rpc) \<le> part_size" if "rpc \<in> set (up_acked u)" for rpc
  proof -
    have "rpc \<in> set (expected_parts p)"
      using that mset_eq_setD [OF acked] by simp
    then show ?thesis
      by (auto simp: expected_parts_def chunk_at_def Let_def dest!: in_set_takeD split: if_splits)
  qed
  moreover have "expected_parts p = (if first < up_total_parts p
      then [make_part p first (take part_size (drop (part_size * first) content))] else [])" if "fid \<noteq> None"
    using that plan(2-4) by (auto simp: expected_parts_def Let_def chunk_at_def upt_conv_Cons)
  ultimately show ?thesis
    using acked result sum plan expected_parts_whole [OF plan(1)] by (auto simp: checksum_right_def list_all_iff)
qed

text \<open>An upload never hangs by itself. The tasks take a bounded number of steps, whatever they
  meet: nine for each part and at most eleven more, apart from two for each time the server
  asks to wait. While it has not ended, some task can go on, with an answer of the server or the
  callback, unless a worker still has to sleep: no worker waits for a part or a lock that never
  comes, so the watchdog is only needed against a server that does not answer. And at most one
  fallback session is ever asked for.\<close>

theorem upload_ends:
  assumes "plan_upload premium rnd content fid first = Inr p"
    and "run_upload md5 h p evs (upload_start p t) = Some u"
  shows "length (filter (Not \<circ> is_tick) evs) \<le>
      9 * length (expected_parts p) + 11 + 2 * length (filter is_flood evs) \<and>
    (up_outcome u = None \<longrightarrow> enabled p u \<or> (\<exists>rpc fb t'. Sleeping rpc fb t' \<in> set (up_workers u) \<and> up_now u < t')) \<and>
    length (filter is_fallback evs) \<le> 1"
proof (intro conjI impI)
  note plan = plan_upload_right [OF assms(1)]
  have "upload_weight p (upload_start p t) = 9 * length (expected_parts p) + 2 * up_workers_count p + 3"
    by (simp add: upload_weight_def upload_start_def producer_weight_def to_put_def)
  then show "length (filter (Not \<circ> is_tick) evs) \<le> 9 * length (expected_parts p) + 11 + 2 * length (filter is_flood evs)"
    using run_upload_weight [OF plan(1) upload_start_inv [OF plan(1)] assms(2)] plan(5) by simp
  show "enabled p u \<or> (\<exists>rpc fb t'. Sleeping rpc fb t' \<in> set (up_workers u) \<and> up_now u < t')" if "up_outcome u = None"
    using never_stuck [OF plan(1) run_from_start [OF assms] that] by (meson not_less)
  have "fallback_weight (upload_start p t) = 1"
    by (simp add: fallback_weight_def upload_start_def lock_weight_def)
  then show "length (filter is_fallback evs) \<le> 1"
    using run_upload_fallback [OF assms(2)] by simp
qed


text \<open>A file of three bytes, whose only part goes through the fallback session.\<close>

definition small_plan :: upload_plan where
  "small_plan = \<lparr>up_content = [1, 2, 3], up_file_id = 7, up_first = 0, up_total_parts = 1, up_is_big = False,
    up_missing = False, up_workers_count = 1\<rparr>"

definition small_run :: "upload_event list" where
  "small_run = [Produce, Produce, TakePart 0, EnterLock 0, AnswerPart 0 (Some ConnectionLost), EnterLock 0,
       FallbackReady 0 (Inr True), Produce, AnswerPart 0 None, Produce, TakePart 0, Settle]"

lemma small_plan: "plan_upload False 7 [1, 2, 3] None 0 = Inr small_plan"
  by (simp add: plan_upload_def part_size_def small_plan_def)

lemmas upload_eval = upload_start_def produce_def read_chunk_def put_part_def put_none_def make_part_def part_size_def
  worker_event_def take_part_def enter_lock_def lock_free_def set_worker_def answer_part_def fallback_ready_def
  settle_def all_returned_def save_file_def Let_def hex_text_def hex_digit_def char_of_def bit_0 small_plan_def small_run_def

lemma small_run:
  "\<exists>u. run_upload (take 1) False small_plan small_run (upload_start small_plan 0) = Some u \<and>
    save_file small_plan ''a'' None u = Some (Inr (InputFile 7 1 ''a'' ''01'')) \<and> up_acked u = [SaveFilePart 7 0 [1, 2, 3]]"
  by (simp add: upload_eval)

theorem upload_complete_witness:
  "\<exists>u. save_file small_plan ''a'' None u = Some (Inr (InputFile 7 1 ''a'' ''01'')) \<and>
    up_acked u = [SaveFilePart 7 0 [1, 2, 3]] \<and> concat (map rpc_bytes (expected_parts small_plan)) = [1, 2, 3]"
proof -
  obtain u where u: "run_upload (take 1) False small_plan small_run (upload_start small_plan 0) = Some u"
    "save_file small_plan ''a'' None u = Some (Inr (InputFile 7 1 ''a'' ''01''))" "up_acked u = [SaveFilePart 7 0 [1, 2, 3]]"
    using small_run by blast
  then have "concat (map rpc_bytes (expected_parts small_plan)) = [1, 2, 3]"
    using upload_complete [OF small_plan u(1,2)] by (simp add: part_size_def)
  then show ?thesis
    using u by blast
qed

theorem upload_ends_witness:
  "\<exists>u. run_upload (take 1) False small_plan small_run (upload_start small_plan 0) = Some u \<and>
    length (filter (Not \<circ> is_tick) small_run) \<le> 9 * length (expected_parts small_plan) + 11"
proof -
  obtain u where u: "run_upload (take 1) False small_plan small_run (upload_start small_plan 0) = Some u"
    using small_run by blast
  have "filter is_flood small_run = []"
    by (simp add: small_run_def)
  then show ?thesis
    using u upload_ends [OF small_plan u] by auto
qed

lemma size_held: "size (sum_list (map held ws)) \<le> length ws"
proof (induction ws)
  case (Cons w ws)
  have "size (held w) \<le> 1"
    by (cases w) simp_all
  with Cons show ?case
    by simp
qed simp

lemma size_queued: "size (sum_list (map queued q)) \<le> length q"
proof (induction q)
  case (Cons x q)
  have "size (queued x) \<le> 1"
    by (cases x) simp_all
  with Cons show ?case
    by simp
qed simp

text \<open>C38: The progress reported is what was handed over, not what the server has. The reports are
  the ends of the parts in order, up to the size of the file, which a successful upload reports last;
  each is made when the part is put into the queue, and they are ahead of the parts
  acknowledged by at most one part for each worker and the one in the queue.\<close>

theorem upload_progress:
  assumes "plan_upload premium rnd content fid first = Inr p"
    and "run_upload md5 h p evs (upload_start p t) = Some u"
  shows "up_reports u = (if h then map (\<lambda>k. min (k * part_size) (length content)) [first + 1..<up_part u + 1] else []) \<and>
    (up_failure u = None \<longrightarrow> up_part u - first \<le> length (up_acked u) + up_workers_count p + 1) \<and>
    (h \<and> fid = None \<and> first < up_total_parts p \<and> up_outcome u = Some (Inr ()) \<longrightarrow>
      last (up_reports u) = length content)"
proof (intro conjI impI)
  note plan = plan_upload_right [OF assms(1)]
  note inv = upload_invD [OF run_from_start [OF assms]]
  show reports: "up_reports u = (if h then map (\<lambda>k. min (k * part_size) (length content)) [first + 1..<up_part u + 1] else [])"
    using inv(7) plan(2,4) by (simp add: reports_right_def)
  have part: "first \<le> up_part u" "up_part u \<le> max first (up_total_parts p)"
    using inv(7) plan(4) by (auto simp: reports_right_def)
  show "up_part u - first \<le> length (up_acked u) + up_workers_count p + 1" if ok: "up_failure u = None"
  proof -
    have "length (expected_parts p) \<le> length (up_acked u) + up_workers_count p + 1 + length (to_put p u)"
      using arg_cong [OF inv(4) [OF ok, unfolded parts_kept_def], of size] inv(1,2) size_held [of "up_workers u"]
        size_queued [of "up_queue u"] by simp
    moreover have "up_part u - first + length (to_put p u) \<le> length (expected_parts p)"
      using part inv(7) plan(4)
      by (auto simp: to_put_def reports_right_def expected_parts_def Let_def split: producer.splits)
    ultimately show ?thesis
      by simp
  qed
  show "last (up_reports u) = length content"
    if "h \<and> fid = None \<and> first < up_total_parts p \<and> up_outcome u = Some (Inr ())"
  proof -
    have "up_total_parts p \<le> up_part u"
      using that inv(6,8) plan(3) by (auto simp: all_returned_def producer_right_def)
    then have "first < up_part u" "length content \<le> part_size * up_part u"
      using that part_exists [OF plan(1), of "up_part u"] plan(2) by auto
    then show ?thesis
      using that reports by (simp add: last_map mult.commute)
  qed
qed

theorem upload_progress_witness:
  "\<exists>u. run_upload (take 1) True small_plan [Produce, Produce] (upload_start small_plan 0) = Some u \<and>
    up_reports u = [3] \<and> up_acked u = [] \<and> up_part u - 0 \<le> length (up_acked u) + up_workers_count small_plan + 1"
proof -
  obtain u where u: "run_upload (take 1) True small_plan [Produce, Produce] (upload_start small_plan 0) = Some u"
      "up_reports u = [3]" "up_acked u = []" "up_failure u = None"
    by (simp add: upload_eval)
  then show ?thesis
    using upload_progress [OF small_plan u(1)] by blast
qed

end
