(* ===== verification/Dispatcher.thy ===== *)
theory Dispatcher
  imports Prelude
begin

text \<open>
  The dispatcher (dispatcher.py): the groups of handlers and their registration, the dispatch of
  one update with the propagation rules, the error handlers, and the queue with its workers from
  start to stop. The parsers of the updates build objects of pyrogram.types and are a parameter;
  which handler class an update goes to is modelled. A callback may register and remove handlers
  while it runs, so it maps the groups to an outcome and new groups.
\<close>

section \<open>Which handlers an update goes to\<close>

definition NEW_MESSAGE_UPDATES :: "string list" where
  "NEW_MESSAGE_UPDATES = [''UpdateNewMessage'', ''UpdateNewChannelMessage'', ''UpdateNewScheduledMessage'',
     ''UpdateNewEphemeralMessage'']"

definition EDIT_MESSAGE_UPDATES :: "string list" where
  "EDIT_MESSAGE_UPDATES = [''UpdateEditMessage'', ''UpdateEditChannelMessage'', ''UpdateEditEphemeralMessage'']"

definition DELETE_MESSAGES_UPDATES :: "string list" where
  "DELETE_MESSAGES_UPDATES = [''UpdateDeleteMessages'', ''UpdateDeleteChannelMessages'', ''UpdateDeleteEphemeralMessages'']"

definition CALLBACK_QUERY_UPDATES :: "string list" where
  "CALLBACK_QUERY_UPDATES = [''UpdateBotCallbackQuery'', ''UpdateInlineBotCallbackQuery'',
     ''UpdateBusinessBotCallbackQuery'', ''UpdateEphemeralBotCallbackQuery'']"

definition USER_TYPING_UPDATES :: "string list" where
  "USER_TYPING_UPDATES = [''UpdateUserTyping'', ''UpdateChatUserTyping'', ''UpdateChannelUserTyping'']"

text \<open>The table \<open>update_parsers\<close> before it is flattened: the classes of updates and the
  handler class their parser names.\<close>

definition parser_table :: "(string list \<times> string) list" where
  "parser_table = [
     (NEW_MESSAGE_UPDATES, ''MessageHandler''),
     (EDIT_MESSAGE_UPDATES, ''EditedMessageHandler''),
     (DELETE_MESSAGES_UPDATES, ''DeletedMessagesHandler''),
     (CALLBACK_QUERY_UPDATES, ''CallbackQueryHandler''),
     ([''UpdateUserStatus''], ''UserStatusHandler''),
     ([''UpdateBotInlineQuery''], ''InlineQueryHandler''),
     ([''UpdateMessagePoll'', ''UpdateMessagePollVote''], ''PollHandler''),
     ([''UpdateBotInlineSend''], ''ChosenInlineResultHandler''),
     ([''UpdateChatParticipant'', ''UpdateChannelParticipant''], ''ChatMemberUpdatedHandler''),
     ([''UpdateBotChatInviteRequester''], ''ChatJoinRequestHandler''),
     ([''UpdateStory''], ''StoryHandler''),
     ([''UpdateBotPrecheckoutQuery''], ''PreCheckoutQueryHandler''),
     ([''UpdateBotShippingQuery''], ''ShippingQueryHandler''),
     ([''UpdateBotMessageReaction''], ''MessageReactionHandler''),
     ([''UpdateBotMessageReactions''], ''MessageReactionCountHandler''),
     ([''UpdateBotChatBoost''], ''ChatBoostHandler''),
     ([''UpdateBotPurchasedPaidMedia''], ''PurchasedPaidMediaHandler''),
     ([''UpdateBotBusinessConnect''], ''BusinessConnectionHandler''),
     ([''UpdateBotNewBusinessMessage''], ''BusinessMessageHandler''),
     ([''UpdateBotEditBusinessMessage''], ''EditedBusinessMessageHandler''),
     ([''UpdateBotDeleteBusinessMessage''], ''DeletedBusinessMessagesHandler''),
     ([''UpdateManagedBot''], ''ManagedBotUpdatedHandler''),
     ([''UpdateBotGuestChatQuery''], ''GuestMessageHandler''),
     (USER_TYPING_UPDATES, ''StoppedMessageGenerationHandler'')]"

definition update_parsers :: "(string \<times> string) list" where
  "update_parsers = concat (map (\<lambda>(keys, value). map (\<lambda>k. (k, value)) keys) parser_table)"

lemma update_parsers_distinct: "distinct (map fst update_parsers)"
  by (simp add: update_parsers_def parser_table_def NEW_MESSAGE_UPDATES_def EDIT_MESSAGE_UPDATES_def
      DELETE_MESSAGES_UPDATES_def CALLBACK_QUERY_UPDATES_def USER_TYPING_UPDATES_def)

text \<open>The class of handlers for an update: a typing update goes to its handlers only when it stops
  a draft; \<open>None\<close> is \<open>type(None)\<close>, of which no handler is an instance.\<close>

definition handler_type :: "string \<Rightarrow> bool \<Rightarrow> string option" where
  "handler_type update_class stops_draft =
    (if update_class \<in> set USER_TYPING_UPDATES \<and> \<not> stops_draft then None
     else map_of update_parsers update_class)"


section \<open>Handlers and groups\<close>

text \<open>How a handler's check and its callback end. The exceptions of callbacks are numbers; an
  \<open>ErrorHandler\<close> names those it handles.\<close>

datatype outcome = Returned | Stop | Continue | Raised nat

datatype check_result = Matches | NoMatch | CheckRaised

datatype handler_class = Typed string | RawUpdate | ErrorsOf "nat list"

record handler =
  h_id :: nat
  h_class :: handler_class

type_synonym groups = "(int \<times> handler list) list"

fun append_to :: "int \<Rightarrow> handler \<Rightarrow> groups \<Rightarrow> groups" where
  "append_to g h [] = [(g, [h])]"
| "append_to g h ((k, hs) # gs) = (if k = g then (k, hs @ [h]) # gs else (k, hs) # append_to g h gs)"

text \<open>\<open>groups.setdefault(group, []).append(handler)\<close> on a copy, then sorted by group.\<close>

definition add_handler :: "handler \<Rightarrow> int \<Rightarrow> groups \<Rightarrow> groups" where
  "add_handler h g groups = sort_key fst (append_to g h groups)"

text \<open>\<open>remove_handler\<close>: an unknown group and a handler that is not in its group are
  \<open>ValueError\<close>s; a group that becomes empty goes.\<close>

definition remove_handler :: "handler \<Rightarrow> int \<Rightarrow> groups \<Rightarrow> groups res" where
  "remove_handler h g groups =
    (case map_of groups g of
       None \<Rightarrow> Inl ValueError
     | Some hs \<Rightarrow>
         if h \<notin> set hs then Inl ValueError
         else if remove1 h hs = [] then Inr (filter (\<lambda>(k, _). k \<noteq> g) groups)
         else Inr (map (\<lambda>(k, hs'). if k = g then (k, remove1 h hs) else (k, hs')) groups))"

definition groups_ok :: "groups \<Rightarrow> bool" where
  "groups_ok groups = (sorted (map fst groups) \<and> distinct (map fst groups) \<and> list_all (\<lambda>(_, hs). hs \<noteq> []) groups)"

definition handlers_in :: "groups \<Rightarrow> int \<Rightarrow> handler list" where
  "handlers_in groups g = (case map_of groups g of None \<Rightarrow> [] | Some hs \<Rightarrow> hs)"

lemma fst_append_to: "fst ` set (append_to g h gs) = insert g (fst ` set gs)"
proof (induction gs)
  case (Cons kv gs)
  then show ?case
    by (cases kv) (auto split: if_split_asm simp: insert_commute)
qed simp

lemma distinct_append_to: "distinct (map fst gs) \<Longrightarrow> distinct (map fst (append_to g h gs))"
  using fst_append_to [of g h] by (induction gs) auto

lemma map_of_append_to: "map_of (append_to g h gs) = (map_of gs)(g \<mapsto> handlers_in gs g @ [h])"
  by (induction gs) (auto simp: handlers_in_def fun_eq_iff)

lemma map_of_sort_key:
  assumes "distinct (map fst gs)"
  shows "map_of (sort_key fst gs) = map_of gs"
proof -
  have "distinct (map fst (sort_key fst gs))"
    using assms by (simp add: distinct_map inj_on_def)
  then show ?thesis
    using assms by (intro map_of_inject_set [THEN iffD2]) simp_all
qed

lemma nonempty_append_to: "list_all (\<lambda>(_, hs). hs \<noteq> []) gs \<Longrightarrow> list_all (\<lambda>(_, hs). hs \<noteq> []) (append_to g h gs)"
  by (induction gs) auto

lemma add_handler_ok:
  assumes "groups_ok gs"
  shows "groups_ok (add_handler h g gs) \<and> map_of (add_handler h g gs) = (map_of gs)(g \<mapsto> handlers_in gs g @ [h])"
proof -
  have d: "distinct (map fst (append_to g h gs))"
    using assms by (simp add: groups_ok_def distinct_append_to)
  have "distinct (map fst (sort_key fst (append_to g h gs)))"
    using d by (simp add: distinct_map inj_on_def)
  moreover have "list_all (\<lambda>(_, hs). hs \<noteq> []) (sort_key fst (append_to g h gs))"
    using assms nonempty_append_to [of gs g h] by (simp add: groups_ok_def list_all_iff)
  ultimately show ?thesis
    by (simp add: groups_ok_def add_handler_def map_of_sort_key [OF d] map_of_append_to)
qed

lemma map_of_replace:
  "map_of (map (\<lambda>(k, hs'). if k = g then (k, v) else (k, hs')) gs) k =
    (if k = g then map_option (\<lambda>_. v) (map_of gs k) else map_of gs k)"
  by (induction gs) auto

lemma remove_handler_ok:
  assumes "groups_ok gs" and "remove_handler h g gs = Inr gs'"
  shows "groups_ok gs' \<and> h \<in> set (handlers_in gs g) \<and>
    (\<forall>k. handlers_in gs' k = (if k = g then remove1 h (handlers_in gs g) else handlers_in gs k))"
proof -
  obtain hs where hs: "map_of gs g = Some hs" "h \<in> set hs"
    using assms(2) by (auto simp: remove_handler_def split: option.splits if_splits)
  show ?thesis
  proof (cases "remove1 h hs = []")
    case True
    then have gs': "gs' = filter (\<lambda>(k, _). k \<noteq> g) gs"
      using assms(2) hs by (simp add: remove_handler_def)
    have "map_of (filter (\<lambda>(k, _). k \<noteq> g) gs) k = (if k = g then None else map_of gs k)" for k
      by (induction gs) auto
    moreover have "sorted (map fst gs')" "distinct (map fst gs')"
      using assms(1) by (simp_all add: gs' groups_ok_def sorted_filter distinct_map_filter)
    ultimately show ?thesis
      using assms(1) hs True by (auto simp: groups_ok_def gs' handlers_in_def list_all_iff)
  next
    case False
    then have gs': "gs' = map (\<lambda>(k, hs'). if k = g then (k, remove1 h hs) else (k, hs')) gs"
      using assms(2) hs by (simp add: remove_handler_def)
    have "map fst gs' = map fst gs"
      by (auto simp: gs')
    moreover have "map_of gs' k = (if k = g then Some (remove1 h hs) else map_of gs k)" for k
      unfolding gs' map_of_replace by (simp add: hs(1))
    moreover have "list_all (\<lambda>(_, hs). hs \<noteq> []) gs'"
      using assms(1) False by (auto simp: groups_ok_def list_all_iff gs' split: if_split_asm)
    ultimately show ?thesis
      using assms(1) hs by (auto simp: groups_ok_def handlers_in_def)
  qed
qed

section \<open>Dispatching one update\<close>

text \<open>
  What the callbacks do, as a parameter: \<open>check\<close> and \<open>call\<close> for the update and its
  parsed form (\<open>raw\<close> says which of the two the handler gets), and \<open>call_error\<close> for an
  error handler. The log lists the calls in order.
\<close>

record dispatch_env =
  check :: "nat \<Rightarrow> bool \<Rightarrow> check_result"
  call :: "nat \<Rightarrow> bool \<Rightarrow> groups \<Rightarrow> outcome \<times> groups"
  call_error :: "nat \<Rightarrow> nat \<Rightarrow> nat \<Rightarrow> groups \<Rightarrow> outcome \<times> groups"

datatype log_entry =
    Called nat bool outcome
  | ErrorCalled nat nat outcome
  | LoggedException
  | LoggedUnhandled nat

text \<open>\<open>handle_update_handler_exception\<close>: one group of error handlers, then all groups that
  are registered now. The flags are \<open>handled\<close> and whether \<open>StopPropagation\<close> was raised.\<close>

fun error_group ::
  "dispatch_env \<Rightarrow> nat \<Rightarrow> nat \<Rightarrow> handler list \<Rightarrow> groups \<Rightarrow> bool \<Rightarrow> log_entry list \<times> groups \<times> bool \<times> bool" where
  "error_group env exc uh [] groups handled = ([], groups, handled, False)"
| "error_group env exc uh (h # hs) groups handled =
    (case h_class h of
       ErrorsOf excs \<Rightarrow>
         if exc \<notin> set excs then error_group env exc uh hs groups handled
         else let (out, groups) = call_error env (h_id h) exc uh groups; entry = ErrorCalled (h_id h) exc out in
           (case out of
              Stop \<Rightarrow> ([entry], groups, True, True)
            | Continue \<Rightarrow>
                let (log, groups, handled, stopped) = error_group env exc uh hs groups True
                in (entry # log, groups, handled, stopped)
            | Raised _ \<Rightarrow> ([entry, LoggedException], groups, handled, False)
            | Returned \<Rightarrow> ([entry], groups, True, False))
     | _ \<Rightarrow> error_group env exc uh hs groups handled)"

fun error_groups ::
  "dispatch_env \<Rightarrow> nat \<Rightarrow> nat \<Rightarrow> groups \<Rightarrow> groups \<Rightarrow> bool \<Rightarrow> log_entry list \<times> groups \<times> bool" where
  "error_groups env exc uh [] groups handled = ([], groups, handled)"
| "error_groups env exc uh ((_, hs) # gs) groups handled =
    (let (log, groups, handled, stopped) = error_group env exc uh hs groups handled in
     if stopped then (log, groups, handled)
     else let (log', groups, handled) = error_groups env exc uh gs groups handled in (log @ log', groups, handled))"

definition handle_update_handler_exception ::
  "dispatch_env \<Rightarrow> nat \<Rightarrow> nat \<Rightarrow> groups \<Rightarrow> log_entry list \<times> groups" where
  "handle_update_handler_exception env exc uh groups =
    (let (log, groups', handled) = error_groups env exc uh groups groups False in
     (log @ (if handled then [] else [LoggedUnhandled uh]), groups'))"

text \<open>Whether a handler takes the update, and in which form: parsed when it is of the update's
  class, raw when it is a raw handler; a check that raises is logged and skips it.\<close>

datatype taken = Skip | SkipLogged | Take bool

definition takes :: "dispatch_env \<Rightarrow> string option \<Rightarrow> handler \<Rightarrow> taken" where
  "takes env ht h =
    (case h_class h of
       ErrorsOf _ \<Rightarrow> Skip
     | Typed c \<Rightarrow> if ht \<noteq> Some c then Skip
         else (case check env (h_id h) False of Matches \<Rightarrow> Take False | NoMatch \<Rightarrow> Skip | CheckRaised \<Rightarrow> SkipLogged)
     | RawUpdate \<Rightarrow>
         (case check env (h_id h) True of Matches \<Rightarrow> Take True | NoMatch \<Rightarrow> Skip | CheckRaised \<Rightarrow> SkipLogged))"

text \<open>The loop over a group, and over the groups as they were when the update was taken up.\<close>

fun dispatch_group ::
  "dispatch_env \<Rightarrow> string option \<Rightarrow> handler list \<Rightarrow> groups \<Rightarrow> log_entry list \<times> groups \<times> bool" where
  "dispatch_group env ht [] groups = ([], groups, False)"
| "dispatch_group env ht (h # hs) groups =
    (case takes env ht h of
       Skip \<Rightarrow> dispatch_group env ht hs groups
     | SkipLogged \<Rightarrow>
         let (log, groups, stopped) = dispatch_group env ht hs groups in (LoggedException # log, groups, stopped)
     | Take raw \<Rightarrow>
         let (out, groups) = call env (h_id h) raw groups; entry = Called (h_id h) raw out in
         (case out of
            Stop \<Rightarrow> ([entry], groups, True)
          | Continue \<Rightarrow> let (log, groups, stopped) = dispatch_group env ht hs groups in (entry # log, groups, stopped)
          | Raised exc \<Rightarrow>
              let (log, groups) = handle_update_handler_exception env exc (h_id h) groups in (entry # log, groups, False)
          | Returned \<Rightarrow> ([entry], groups, False)))"

fun dispatch_groups :: "dispatch_env \<Rightarrow> string option \<Rightarrow> groups \<Rightarrow> groups \<Rightarrow> log_entry list \<times> groups \<times> bool" where
  "dispatch_groups env ht [] groups = ([], groups, False)"
| "dispatch_groups env ht ((_, hs) # gs) groups =
    (let (log, groups, stopped) = dispatch_group env ht hs groups in
     if stopped then (log, groups, True)
     else let (log', groups, stopped) = dispatch_groups env ht gs groups in (log @ log', groups, stopped))"

text \<open>The body of \<open>handler_worker\<close> for one packet. \<open>parsed\<close> is \<open>False\<close> when the
  parser raised, which is logged.\<close>

definition handle_packet_of ::
  "dispatch_env \<Rightarrow> string \<Rightarrow> bool \<Rightarrow> bool \<Rightarrow> groups \<Rightarrow> log_entry list \<times> groups" where
  "handle_packet_of env update_class stops_draft parsed groups =
    (if map_of update_parsers update_class \<noteq> None \<and> \<not> parsed then ([LoggedException], groups)
     else let (log, groups', _) = dispatch_groups env (handler_type update_class stops_draft) groups groups in (log, groups'))"


section \<open>The rules of propagation\<close>

text \<open>The calls of update handlers in a log.\<close>

fun is_call :: "log_entry \<Rightarrow> bool" where
  "is_call (Called _ _ _) = True"
| "is_call _ = False"

fun call_outcome :: "log_entry \<Rightarrow> outcome" where
  "call_outcome (Called _ _ out) = out"
| "call_outcome (ErrorCalled _ _ out) = out"
| "call_outcome _ = Returned"

definition calls :: "log_entry list \<Rightarrow> log_entry list" where
  "calls log = filter is_call log"

lemma log_calls_simps [simp]: "calls [] = []" "calls (a @ b) = calls a @ calls b"
  "calls (e # log) = (if is_call e then e # calls log else calls log)"
  by (simp_all add: calls_def)

lemma error_group_calls: "calls (fst (error_group env exc uh hs groups handled)) = []"
  by (induction env exc uh hs groups handled rule: error_group.induct)
    (auto simp: Let_def split: handler_class.split outcome.split prod.splits)

lemma error_groups_calls: "calls (fst (error_groups env exc uh gs groups handled)) = []"
proof (induction env exc uh gs groups handled rule: error_groups.induct)
  case (2 env exc uh g hs gs groups handled)
  show ?case
    using 2 error_group_calls [of env exc uh hs groups handled]
    by (auto simp: Let_def split: prod.splits)
qed simp

lemma handle_exception_calls [simp]: "calls (fst (handle_update_handler_exception env exc uh groups)) = []"
  using error_groups_calls [of env exc uh groups groups False]
  by (auto simp: handle_update_handler_exception_def split: prod.splits)

text \<open>One group: the calls are those of the first handlers that take the update, in their order;
  every call but the last continued, the group is exhausted when the last did too, and everything
  is stopped exactly when the last call stopped.\<close>

definition taking :: "dispatch_env \<Rightarrow> string option \<Rightarrow> handler list \<Rightarrow> handler list" where
  "taking env ht hs = filter (\<lambda>h. \<exists>raw. takes env ht h = Take raw) hs"

fun call_of :: "handler \<Rightarrow> log_entry \<Rightarrow> bool" where
  "call_of h (Called i raw out) = (i = h_id h)"
| "call_of h _ = False"

definition group_calls_ok :: "dispatch_env \<Rightarrow> string option \<Rightarrow> handler list \<Rightarrow> log_entry list \<Rightarrow> bool \<Rightarrow> bool" where
  "group_calls_ok env ht hs cs stopped =
    (list_all2 call_of (take (length cs) (taking env ht hs)) cs \<and>
     (\<forall>c \<in> set (butlast cs). call_outcome c = Continue) \<and>
     (cs = [] \<or> call_outcome (last cs) = Continue \<longrightarrow> length cs = length (taking env ht hs)) \<and>
     (stopped \<longleftrightarrow> cs \<noteq> [] \<and> call_outcome (last cs) = Stop))"

lemma group_calls_ok_Nil: "group_calls_ok env ht [] [] False"
  by (simp add: group_calls_ok_def taking_def)

lemma group_calls_ok_skip:
  "\<forall>raw. takes env ht h \<noteq> Take raw \<Longrightarrow> group_calls_ok env ht hs cs stopped \<Longrightarrow> group_calls_ok env ht (h # hs) cs stopped"
  by (auto simp: group_calls_ok_def taking_def)

lemma group_calls_ok_last:
  "takes env ht h = Take raw \<Longrightarrow> out \<noteq> Continue \<Longrightarrow> group_calls_ok env ht (h # hs) [Called (h_id h) raw out] (out = Stop)"
  by (simp add: group_calls_ok_def taking_def)

lemma group_calls_ok_continue:
  assumes "takes env ht h = Take raw" and "group_calls_ok env ht hs cs stopped"
  shows "group_calls_ok env ht (h # hs) (Called (h_id h) raw Continue # cs) stopped"
  using assms by (cases cs) (auto simp: group_calls_ok_def taking_def)

lemma dispatch_group_calls:
  "dispatch_group env ht hs groups = (log, groups', stopped) \<Longrightarrow> group_calls_ok env ht hs (calls log) stopped"
proof (induction hs arbitrary: groups log)
  case Nil
  then show ?case
    by (simp add: group_calls_ok_Nil)
next
  case (Cons h hs)
  show ?case
  proof (cases "takes env ht h")
    case Skip
    then show ?thesis
      using Cons by (auto intro!: group_calls_ok_skip)
  next
    case SkipLogged
    then show ?thesis
      using Cons by (auto intro!: group_calls_ok_skip split: prod.splits)
  next
    case (Take raw)
    obtain out groups1 where out: "call env (h_id h) raw groups = (out, groups1)"
      by fastforce
    show ?thesis
    proof (cases out)
      case Continue
      then show ?thesis
        using Cons Take out by (auto intro!: group_calls_ok_continue split: prod.splits)
    next
      case (Raised exc)
      obtain log2 groups2 where h: "handle_update_handler_exception env exc (h_id h) groups1 = (log2, groups2)"
        by fastforce
      then have "calls log2 = []"
        using handle_exception_calls [of env exc "h_id h" groups1] by simp
      then have "calls log = [Called (h_id h) raw out] \<and> \<not> stopped"
        using Cons.prems Take out h Raised by auto
      then show ?thesis
        using group_calls_ok_last [OF Take, of out] Raised by simp
    next
      case Returned
      then show ?thesis
        using Cons.prems Take out group_calls_ok_last [OF Take, of out hs] by auto
    next
      case Stop
      then show ?thesis
        using Cons.prems Take out group_calls_ok_last [OF Take, of out hs] by auto
    qed
  qed
qed

lemma dispatch_stopped_calls:
  "dispatch_groups env ht gs groups = (log, groups', stopped) \<Longrightarrow> stopped \<longrightarrow> calls log \<noteq> []"
proof (induction gs arbitrary: groups log)
  case (Cons ghs gs)
  obtain g hs where ghs: "ghs = (g, hs)"
    by fastforce
  obtain log1 groups1 stop1 where d: "dispatch_group env ht hs groups = (log1, groups1, stop1)"
    using prod_cases3 by blast
  show ?case
    using Cons d dispatch_group_calls [OF d] by (auto simp: ghs group_calls_ok_def split: if_splits prod.splits)
qed simp

text \<open>C4: An update is dispatched by the rules of propagation. The groups are visited in order; in
  each, the handlers that take the update are called in order, up to the first that does not
  continue, whether it returns or raises; a handler that stops ends the dispatch, and only then are
  groups left out. Registrations made meanwhile do not change which handlers are considered.\<close>

theorem dispatch_propagation:
  assumes "dispatch_groups env ht gs groups = (log, groups', stopped)"
  shows "\<exists>css. calls log = concat css \<and> length css \<le> length gs \<and> (\<not> stopped \<longrightarrow> length css = length gs) \<and>
    (\<forall>i < length css. group_calls_ok env ht (snd (gs ! i)) (css ! i) (stopped \<and> i + 1 = length css))"
  using assms
proof (induction gs arbitrary: groups log)
  case Nil
  then show ?case
    by (intro exI [of _ "[]"]) simp
next
  case (Cons ghs gs)
  obtain g hs where ghs: "ghs = (g, hs)"
    by fastforce
  obtain log1 groups1 stop1 where d: "dispatch_group env ht hs groups = (log1, groups1, stop1)"
    using prod_cases3 by blast
  note ok = dispatch_group_calls [OF d]
  show ?case
  proof (cases stop1)
    case True
    then show ?thesis
      using Cons.prems d ok by (intro exI [of _ "[calls log1]"]) (auto simp: ghs)
  next
    case False
    then obtain log2 where rest: "dispatch_groups env ht gs groups1 = (log2, groups', stopped)" "log = log1 @ log2"
      using Cons.prems d by (auto simp: ghs split: prod.splits)
    then obtain css where css: "calls log2 = concat css" "length css \<le> length gs" "\<not> stopped \<longrightarrow> length css = length gs"
      "\<forall>i < length css. group_calls_ok env ht (snd (gs ! i)) (css ! i) (stopped \<and> i + 1 = length css)"
      using Cons.IH by blast
    have "css \<noteq> []" if "stopped"
    proof
      assume "css = []"
      moreover have "stopped \<longrightarrow> calls log2 \<noteq> []"
        using dispatch_stopped_calls [OF rest(1)] .
      ultimately show False
        using css(1) that by simp
    qed
    then have "group_calls_ok env ht (snd ((ghs # gs) ! i)) ((calls log1 # css) ! i) (stopped \<and> i + 1 = length (calls log1 # css))"
      if "i < length (calls log1 # css)" for i
    proof (cases i)
      case 0
      then have "(stopped \<and> i + 1 = length (calls log1 # css)) = stop1"
        using False \<open>stopped \<Longrightarrow> css \<noteq> []\<close> by auto
      then show ?thesis
        using ok 0 by (simp add: ghs)
    qed (use that css(4) in \<open>simp add: ghs\<close>)
    then show ?thesis
      using css(1-3) rest(2) by (intro exI [of _ "calls log1 # css"]) auto
  qed
qed

text \<open>Registering and removing handlers keep the groups in order. The groups stay sorted and
  distinct, none is empty; adding appends to the handlers of its group and leaves the others;
  removing takes one handler out of its group, and fails exactly when it is not there; and removing
  a handler just added to a group that did not have it restores every group.\<close>

theorem handler_registration:
  assumes "groups_ok gs"
  shows "groups_ok (add_handler h g gs) \<and>
    handlers_in (add_handler h g gs) g = handlers_in gs g @ [h] \<and>
    (\<forall>k. k \<noteq> g \<longrightarrow> handlers_in (add_handler h g gs) k = handlers_in gs k) \<and>
    ((\<exists>e. remove_handler h g gs = Inl e) \<longleftrightarrow> h \<notin> set (handlers_in gs g)) \<and>
    (h \<notin> set (handlers_in gs g) \<longrightarrow> (\<exists>gs'. remove_handler h g (add_handler h g gs) = Inr gs' \<and> groups_ok gs' \<and>
      (\<forall>k. handlers_in gs' k = handlers_in gs k)))"
proof -
  have add: "groups_ok (add_handler h g gs)" "map_of (add_handler h g gs) = (map_of gs)(g \<mapsto> handlers_in gs g @ [h])"
    using add_handler_ok [OF assms] by simp_all
  have fails: "(\<exists>e. remove_handler h g gs = Inl e) \<longleftrightarrow> h \<notin> set (handlers_in gs g)"
    by (auto simp: remove_handler_def handlers_in_def split: option.splits)
  have "\<exists>gs'. remove_handler h g (add_handler h g gs) = Inr gs'"
    by (auto simp: remove_handler_def add(2))
  then obtain gs' where gs': "remove_handler h g (add_handler h g gs) = Inr gs'"
    by blast
  have "handlers_in gs' k = handlers_in gs k" if "h \<notin> set (handlers_in gs g)" for k
    using remove_handler_ok [OF add(1) gs'] that
    by (simp add: handlers_in_def add(2) remove1_append split: option.splits)
  then show ?thesis
    using add fails gs' remove_handler_ok [OF add(1) gs'] by (auto simp: handlers_in_def)
qed

definition sample_handler :: "nat \<Rightarrow> handler" where
  "sample_handler i = \<lparr>h_id = i, h_class = Typed ''MessageHandler''\<rparr>"

theorem handler_registration_witness:
  "handlers_in (add_handler (sample_handler 3) 0 [(0, [sample_handler 1]), (5, [sample_handler 2])]) 0 =
    [sample_handler 1, sample_handler 3]"
  using handler_registration [of "[(0, [sample_handler 1]), (5, [sample_handler 2])]" "sample_handler 3" 0]
  by (simp add: groups_ok_def handlers_in_def)

definition sample_env :: dispatch_env where
  "sample_env = \<lparr>check = (\<lambda>i raw. if i = 1 then NoMatch else Matches),
     call = (\<lambda>i raw gs. (if i = 2 then Continue else if i = 3 then Raised 7 else Returned, [])),
     call_error = (\<lambda>i exc uh gs. (Returned, gs))\<rparr>"

theorem dispatch_propagation_witness:
  "\<exists>css. dispatch_groups sample_env (Some ''MessageHandler'') [(0, map sample_handler [1, 2, 3, 4]), (1, [sample_handler 5])] [] =
      ([Called 2 False Continue, Called 3 False (Raised 7), LoggedUnhandled 3, Called 5 False Returned], [], False) \<and>
    concat css = [Called 2 False Continue, Called 3 False (Raised 7), Called 5 False Returned] \<and> length css = 2"
proof -
  have run: "dispatch_groups sample_env (Some ''MessageHandler'') [(0, map sample_handler [1, 2, 3, 4]), (1, [sample_handler 5])] [] =
      ([Called 2 False Continue, Called 3 False (Raised 7), LoggedUnhandled 3, Called 5 False Returned], [], False)"
    by (simp add: sample_env_def sample_handler_def takes_def handle_update_handler_exception_def)
  show ?thesis
    using dispatch_propagation [OF run] run by auto
qed


section \<open>The queue and its workers\<close>

text \<open>
  The states of the queue between \<open>start\<close> and the end of \<open>stop\<close>: the packets, where
  \<open>None\<close> is the sentinel that ends a worker, the number of workers running, whether updates
  are accepted, and, for the statement, the packets accepted and those a worker has taken.
\<close>

record 'p dispatch_queue =
  queue :: "'p option list"
  workers :: nat
  accepting :: bool
  stopping :: bool
  accepted :: "'p list"
  taken_up :: "'p list"

definition dispatcher_start :: "bool \<Rightarrow> nat \<Rightarrow> 'p dispatch_queue" where
  "dispatcher_start no_updates n = \<lparr>queue = [], workers = (if no_updates then 0 else n), accepting = (\<not> no_updates),
     stopping = False, accepted = [], taken_up = []\<rparr>"

definition enqueue :: "'p \<Rightarrow> 'p dispatch_queue \<Rightarrow> 'p dispatch_queue" where
  "enqueue p s = (if \<not> accepting s then s
     else s\<lparr>queue := queue s @ [Some p], accepted := accepted s @ [p]\<rparr>)"

text \<open>\<open>stop\<close> up to the wait: no more updates, one sentinel for each worker.\<close>

definition dispatcher_stop :: "'p dispatch_queue \<Rightarrow> 'p dispatch_queue" where
  "dispatcher_stop s = s\<lparr>accepting := False, stopping := True, queue := queue s @ replicate (workers s) None\<rparr>"

inductive dispatcher_step :: "'p dispatch_queue \<Rightarrow> 'p dispatch_queue \<Rightarrow> bool" where
  Enqueue: "dispatcher_step s (enqueue p s)"
| Work: "0 < workers s \<Longrightarrow> queue s = Some p # q \<Longrightarrow> dispatcher_step s (s\<lparr>queue := q, taken_up := taken_up s @ [p]\<rparr>)"
| Exit: "0 < workers s \<Longrightarrow> queue s = None # q \<Longrightarrow> dispatcher_step s (s\<lparr>queue := q, workers := workers s - 1\<rparr>)"
| Stop: "\<not> stopping s \<Longrightarrow> dispatcher_step s (dispatcher_stop s)"

inductive dispatcher_reachable :: "bool \<Rightarrow> nat \<Rightarrow> 'p dispatch_queue \<Rightarrow> bool" for no_updates n where
  Init: "dispatcher_reachable no_updates n (dispatcher_start no_updates n)"
| Step: "dispatcher_reachable no_updates n s \<Longrightarrow> dispatcher_step s s' \<Longrightarrow> dispatcher_reachable no_updates n s'"

definition queue_invariant :: "nat \<Rightarrow> 'p dispatch_queue \<Rightarrow> bool" where
  "queue_invariant n s =
    (\<exists>ps. queue s = map Some ps @ replicate (if stopping s then workers s else 0) None \<and>
      accepted s = taken_up s @ ps \<and> (stopping s \<longrightarrow> \<not> accepting s) \<and> (workers s < n \<longrightarrow> ps = []))"

inductive_cases dispatcher_stepE: "dispatcher_step s s'"

definition started_workers :: "bool \<Rightarrow> nat \<Rightarrow> nat" where
  "started_workers no_updates n = (if no_updates then 0 else n)"

lemma queue_invariant_step:
  assumes "dispatcher_step s s'" and "queue_invariant n s" and "workers s < n \<longrightarrow> stopping s"
  shows "queue_invariant n s' \<and> (workers s' < n \<longrightarrow> stopping s')"
proof -
  obtain ps where ps: "queue s = map Some ps @ replicate (if stopping s then workers s else 0) None"
      "accepted s = taken_up s @ ps" "stopping s \<longrightarrow> \<not> accepting s" "workers s < n \<longrightarrow> ps = []"
    using assms(2) by (auto simp: queue_invariant_def)
  from assms(1) consider (enqueue) p where "s' = enqueue p s"
    | (work) p q where "0 < workers s" "queue s = Some p # q" "s' = s\<lparr>queue := q, taken_up := taken_up s @ [p]\<rparr>"
    | (exit) q where "0 < workers s" "queue s = None # q" "s' = s\<lparr>queue := q, workers := workers s - 1\<rparr>"
    | (stop) "\<not> stopping s" "s' = dispatcher_stop s"
    by (rule dispatcher_stepE) auto
  then show ?thesis
  proof cases
    case (enqueue p)
    show ?thesis
    proof (cases "accepting s")
      case True
      then have "\<not> stopping s" "\<not> workers s < n"
        using ps(3) assms(3) by auto
      then show ?thesis
        using ps True enqueue by (auto simp: queue_invariant_def enqueue_def intro!: exI [of _ "ps @ [p]"])
    qed (use assms(2,3) enqueue in \<open>simp add: enqueue_def\<close>)
  next
    case (work p q)
    then obtain ps' where "ps = p # ps'" "q = map Some ps' @ replicate (if stopping s then workers s else 0) None"
      using ps(1) work by (cases ps; cases "workers s") (auto split: if_splits)
    then show ?thesis
      using ps work assms(3) by (auto simp: queue_invariant_def)
  next
    case (exit q)
    then have "ps = []" "stopping s" "q = replicate (workers s - 1) None"
      using ps(1) exit by (cases ps; cases "workers s"; auto split: if_splits)+
    then show ?thesis
      using ps exit by (auto simp: queue_invariant_def)
  next
    case stop
    then show ?thesis
      using ps stop assms(3) by (auto simp: queue_invariant_def dispatcher_stop_def)
  qed
qed

lemma queue_invariant_reachable:
  "dispatcher_reachable no_updates n s \<Longrightarrow>
    queue_invariant (started_workers no_updates n) s \<and> (workers s < started_workers no_updates n \<longrightarrow> stopping s)"
proof (induction rule: dispatcher_reachable.induct)
  case Init
  then show ?case
    by (simp add: queue_invariant_def dispatcher_start_def started_workers_def)
next
  case (Step s s')
  then show ?case
    using queue_invariant_step by blast
qed

text \<open>C12: No update is lost, repeated or reordered between the queue and the workers, and stopping
  drains it. In every reachable state the accepted updates are those taken up followed by those
  in the queue; while the stop waits for a worker the queue is not empty, so it cannot block; and
  when all workers are gone every accepted update has been taken up and the queue is empty.\<close>

theorem dispatcher_drains:
  assumes "dispatcher_reachable False n s" and "0 < n"
  shows "(\<exists>ps. accepted s = taken_up s @ ps \<and> ps = map the (filter (\<lambda>x. x \<noteq> None) (queue s))) \<and>
    (stopping s \<and> 0 < workers s \<longrightarrow> queue s \<noteq> []) \<and>
    (stopping s \<and> workers s = 0 \<longrightarrow> taken_up s = accepted s \<and> queue s = [])"
proof -
  obtain ps where ps: "queue s = map Some ps @ replicate (if stopping s then workers s else 0) None"
      "accepted s = taken_up s @ ps" "workers s < n \<longrightarrow> ps = []"
    using queue_invariant_reachable [OF assms(1)] by (auto simp: queue_invariant_def started_workers_def)
  have "map the (filter (\<lambda>x. x \<noteq> None) (queue s)) = ps"
    by (simp add: ps(1) filter_map o_def)
  then show ?thesis
    using ps assms(2) by auto
qed

theorem dispatcher_drains_witness:
  "\<exists>s :: nat dispatch_queue. dispatcher_reachable False 1 s \<and> stopping s \<and> workers s = 0 \<and> taken_up s = [7] \<and> queue s = []"
proof -
  let ?s0 = "dispatcher_start False 1 :: nat dispatch_queue"
  let ?s2 = "dispatcher_stop (enqueue 7 ?s0)"
  let ?s3 = "?s2\<lparr>queue := [None], taken_up := taken_up ?s2 @ [7]\<rparr>"
  let ?s4 = "?s3\<lparr>queue := [], workers := workers ?s3 - 1\<rparr>"
  note defs = dispatcher_start_def enqueue_def dispatcher_stop_def
  have "dispatcher_reachable False 1 (enqueue 7 ?s0)"
    by (rule Step [OF Init Enqueue])
  then have "dispatcher_reachable False 1 ?s2"
    by (rule Step [OF _ Stop]) (simp add: defs)
  then have "dispatcher_reachable False 1 ?s3"
    by (rule Step [OF _ Work]) (simp_all add: defs)
  then have s4: "dispatcher_reachable False 1 ?s4"
    by (rule Step [OF _ Exit]) (simp_all add: defs)
  have end_state: "stopping ?s4 \<and> workers ?s4 = 0 \<and> accepted ?s4 = [7]"
    by (simp add: defs)
  then have "taken_up ?s4 = [7] \<and> queue ?s4 = []"
    using dispatcher_drains [OF s4] by simp
  then show ?thesis
    using s4 end_state by blast
qed

end
