(* ===== verification/Updates.thy ===== *)
theory Updates
  imports Storage Dispatcher
begin

text \<open>
  Incoming updates: \<open>fetch_peers\<close> and \<open>_handle_updates\<close> of \<open>client.py\<close>, and
  \<open>methods/advanced/recover_gaps.py\<close>. The state is what these methods share: the tables of the
  storage, the dictionaries handed to the dispatcher and the dispatcher's queue. The lemmas show
  which peers can be resolved afterwards, that no cursor runs ahead of the queue, when the recovery ends
  and what it delivers. The answers of the server are parameters.
\<close>


section \<open>Peers of an answer\<close>

text \<open>Users and chats as the schema has them. A user or channel that is not \<open>min\<close> carries an
  access hash; \<open>NoPeer\<close> stands for \<open>UserEmpty\<close> and \<open>ChatEmpty\<close>.\<close>

record raw_user =
  u_min :: bool
  u_id :: int
  u_access_hash :: int
  u_bot :: bool
  u_phone :: "string option"
  u_username :: "string option"
  u_usernames :: "string list"

record raw_channel =
  c_min :: bool
  c_id :: int
  c_access_hash :: int
  c_monoforum :: bool
  c_broadcast :: bool
  c_forum :: bool
  c_username :: "string option"
  c_usernames :: "string list"

datatype raw_entity =
    User raw_user
  | Chat int
  | ChatForbidden int
  | Channel raw_channel
  | ChannelForbidden int int bool
  | Community bool int int
  | CommunityForbidden int int
  | NoPeer int

fun entity_id :: "raw_entity \<Rightarrow> int" where
  "entity_id (User u) = u_id u"
| "entity_id (Chat i) = i"
| "entity_id (ChatForbidden i) = i"
| "entity_id (Channel c) = c_id c"
| "entity_id (ChannelForbidden i _ _) = i"
| "entity_id (Community _ i _) = i"
| "entity_id (CommunityForbidden i _) = i"
| "entity_id (NoPeer i) = i"

fun entity_min :: "raw_entity \<Rightarrow> bool" where
  "entity_min (User u) = u_min u"
| "entity_min (Channel c) = c_min c"
| "entity_min (Community m _ _) = m"
| "entity_min _ = False"

text \<open>\<open>str.lower\<close> on ASCII, which user names are.\<close>

definition str_lower :: "string \<Rightarrow> string" where
  "str_lower = map (\<lambda>c. if 65 \<le> (of_char c :: nat) \<and> (of_char c :: nat) \<le> 90 then char_of (of_char c + 32 :: nat) else c)"

definition names_of :: "string option \<Rightarrow> string list \<Rightarrow> string list" where
  "names_of username usernames = (if truthy username then [str_lower (the username)] else map str_lower usernames)"

text \<open>One round of the loop: the tuple for the peers table and the user names. \<open>None\<close> is the
  \<open>continue\<close> of an unknown type.\<close>

fun parse_peer :: "raw_entity \<Rightarrow> (peer_tuple \<times> string list) option" where
  "parse_peer (User u) = Some ((u_id u, u_access_hash u, if u_bot u then ''bot'' else ''user'', u_phone u),
     names_of (u_username u) (u_usernames u))"
| "parse_peer (Chat i) = Some ((- i, 0, ''group'', None), [])"
| "parse_peer (ChatForbidden i) = Some ((- i, 0, ''group'', None), [])"
| "parse_peer (Channel c) = Some ((get_channel_id (c_id c), c_access_hash c,
     if c_monoforum c then ''direct'' else if c_broadcast c then ''channel'' else if c_forum c then ''forum'' else ''supergroup'', None),
     names_of (c_username c) (c_usernames c))"
| "parse_peer (ChannelForbidden i h broadcast) =
     Some ((get_channel_id i, h, if broadcast then ''channel'' else ''supergroup'', None), [])"
| "parse_peer (Community _ i h) = Some ((get_channel_id i, h, ''community'', None), [])"
| "parse_peer (CommunityForbidden i h) = Some ((get_channel_id i, h, ''community'', None), [])"
| "parse_peer (NoPeer _) = None"

definition parsed_entries :: "raw_entity list \<Rightarrow> (peer_tuple \<times> string list) list" where
  "parsed_entries peers = List.map_filter parse_peer (filter (\<lambda>p. \<not> entity_min p) peers)"

definition parsed_peers :: "raw_entity list \<Rightarrow> peer_tuple list" where
  "parsed_peers peers = map fst (parsed_entries peers)"

definition parsed_usernames :: "raw_entity list \<Rightarrow> (int \<times> string option list) list" where
  "parsed_usernames peers =
    map (\<lambda>(t, names). (fst t, map Some names)) (filter (\<lambda>(t, names). names \<noteq> []) (parsed_entries peers))"

text \<open>The tables of the storage, the dictionaries of the batches and the dispatcher. A packet
  refers to the dictionaries of its batch by their number: they are shared, and filled in later.\<close>

datatype update_kind = NewChannelMessage bool | OtherUpdate

record raw_update =
  up_kind :: update_kind
  up_number :: nat
  up_message_channel :: "int option"
  up_channel_id :: "int option"
  up_pts :: "int option"
  up_qts :: "int option"

datatype queued = Raw raw_update | NewMessage nat int int

type_synonym entity_dict = "int \<rightharpoonup> raw_entity"

record client_state =
  peer_rows :: "peer_row list"
  name_rows :: "(int \<times> string) list"
  state_rows :: "update_state list"
  dicts :: "(entity_dict \<times> entity_dict) list"
  dispatcher :: "(queued \<times> nat) dispatch_queue"

definition fetch_peers :: "int \<Rightarrow> raw_entity list \<Rightarrow> client_state \<Rightarrow> bool \<times> client_state" where
  "fetch_peers now peers s =
    (list_ex entity_min peers,
     s\<lparr>peer_rows := update_peers now (parsed_peers peers) (peer_rows s),
       name_rows := (if parsed_usernames peers = [] then name_rows s
                     else update_usernames (parsed_usernames peers) (name_rows s))\<rparr>)"

definition entity_dict_of :: "raw_entity list \<Rightarrow> entity_dict" where
  "entity_dict_of es = map_of (rev (map (\<lambda>e. (entity_id e, e)) es))"

text \<open>What resolving the identifier of an entity has to give.\<close>

fun input_peer_of :: "raw_entity \<Rightarrow> peer option" where
  "input_peer_of (User u) = Some (InputPeerUser (u_id u) (u_access_hash u))"
| "input_peer_of (Chat i) = Some (InputPeerChat i)"
| "input_peer_of (ChatForbidden i) = Some (InputPeerChat i)"
| "input_peer_of (Channel c) = Some (InputPeerChannel (c_id c) (c_access_hash c))"
| "input_peer_of (ChannelForbidden i h _) = Some (InputPeerChannel i h)"
| "input_peer_of (Community _ i h) = Some (InputPeerChannel i h)"
| "input_peer_of (CommunityForbidden i h) = Some (InputPeerChannel i h)"
| "input_peer_of (NoPeer _) = None"

definition marked_id :: "raw_entity \<Rightarrow> int option" where
  "marked_id e = map_option (\<lambda>(t, _). fst t) (parse_peer e)"

lemma get_channel_id_twice [simp]: "get_channel_id (get_channel_id i) = i"
  by (simp add: get_channel_id_def)

lemma parse_peer_resolves:
  "parse_peer e = Some ((i, h, ty, ph), names) \<Longrightarrow>
    get_input_peer i h ty = Inr (the (input_peer_of e)) \<and> input_peer_of e \<noteq> None \<and> marked_id e = Some i"
  by (cases e; clarsimp simp: get_input_peer_def marked_id_def)

lemma parsed_peers_append: "parsed_peers (xs @ ys) = parsed_peers xs @ parsed_peers ys"
  by (simp add: parsed_peers_def parsed_entries_def map_filter_def)

lemma parsed_peers_Cons:
  "parsed_peers (e # es) = (if entity_min e then parsed_peers es
     else (case parse_peer e of None \<Rightarrow> parsed_peers es | Some (t, _) \<Rightarrow> t # parsed_peers es))"
  by (simp add: parsed_peers_def parsed_entries_def map_filter_def split: option.splits)

lemma parsed_peers_ids:
  "i \<in> fst ` set (parsed_peers es) \<longleftrightarrow> (\<exists>e \<in> set es. \<not> entity_min e \<and> marked_id e = Some i)"
proof (induction es)
  case (Cons e es)
  then show ?case
    by (cases "entity_min e"; cases "parse_peer e") (auto simp: parsed_peers_Cons marked_id_def intro: rev_image_eqI)
qed (simp add: parsed_peers_def parsed_entries_def map_filter_def)

text \<open>What the rows say of an identifier after the entities of an answer have been stored.\<close>

lemma stored_entity_resolves:
  assumes "peer_table rows" "es = xs @ e # ys" "marked_id e = Some i" "\<not> entity_min e"
    and "\<forall>f \<in> set ys. \<not> entity_min f \<longrightarrow> marked_id f \<noteq> Some i"
  shows "get_peer_by_id i (update_peers now (parsed_peers es) rows) = Inr (the (input_peer_of e))"
proof -
  obtain h ty ph names where e: "parse_peer e = Some ((i, h, ty, ph), names)"
    using assms(3) by (auto simp: marked_id_def)
  have "i \<notin> fst ` set (parsed_peers ys)"
    using assms(5) by (auto simp: parsed_peers_ids)
  then have "map_of (rev (parsed_peers es)) i = Some (h, ty, ph)"
    by (simp add: assms(2,4) parsed_peers_append parsed_peers_Cons e map_add_def map_of_eq_None_iff [THEN iffD2])
  then show ?thesis
    using peers_last_write_wins [OF assms(1), of now "parsed_peers es"] parse_peer_resolves [OF e] by simp
qed

text \<open>C14: Every peer of an answer can be resolved afterwards. The last entity of the answer with a given marked
  identifier that is not \<open>min\<close> decides what the identifier resolves to: its input peer, of the
  right kind and with its access hash; a \<open>min\<close> entity changes nothing, and identifiers the answer does
  not mention resolve as before.\<close>

theorem fetch_peers_resolvable:
  assumes "peer_table (peer_rows s)" and "fetch_peers now es s = (is_min, s')"
  shows "peer_table (peer_rows s') \<and> is_min = (\<exists>e \<in> set es. entity_min e) \<and>
    (\<forall>xs e ys i. es = xs @ e # ys \<and> \<not> entity_min e \<and> marked_id e = Some i \<and>
      (\<forall>f \<in> set ys. \<not> entity_min f \<longrightarrow> marked_id f \<noteq> Some i) \<longrightarrow>
      get_peer_by_id i (peer_rows s') = Inr (the (input_peer_of e))) \<and>
    (\<forall>i. (\<forall>e \<in> set es. \<not> entity_min e \<longrightarrow> marked_id e \<noteq> Some i) \<longrightarrow>
      get_peer_by_id i (peer_rows s') = get_peer_by_id i (peer_rows s))"
proof -
  have rows: "peer_rows s' = update_peers now (parsed_peers es) (peer_rows s)" and m: "is_min = list_ex entity_min es"
    using assms(2) by (auto simp: fetch_peers_def)
  note stored = peers_last_write_wins [OF assms(1), of now "parsed_peers es", folded rows]
  have "get_peer_by_id i (peer_rows s') = Inr (the (input_peer_of e))"
    if "es = xs @ e # ys" "\<not> entity_min e" "marked_id e = Some i"
      "\<forall>f \<in> set ys. \<not> entity_min f \<longrightarrow> marked_id f \<noteq> Some i" for xs e ys i
    using stored_entity_resolves [OF assms(1) that(1,3,2,4)] by (simp add: rows)
  then show ?thesis
    using stored m parsed_peers_ids [of _ es] by (auto simp: list_ex_iff)
qed


definition sample_state :: client_state where
  "sample_state = \<lparr>peer_rows = [], name_rows = [],
     state_rows = [\<lparr>us_id = 0, us_pts = Some 10, us_qts = None, us_date = Some 7, us_seq = Some 1\<rparr>],
     dicts = [], dispatcher = dispatcher_start False 1\<rparr>"

definition sample_user :: "bool \<Rightarrow> int \<Rightarrow> raw_entity" where
  "sample_user m h = User \<lparr>u_min = m, u_id = 42, u_access_hash = h, u_bot = False, u_phone = None,
     u_username = Some ''Alice'', u_usernames = []\<rparr>"

theorem fetch_peers_resolvable_witness:
  "get_peer_by_id 42 (peer_rows (snd (fetch_peers 0 [sample_user False 1, sample_user False 5, sample_user True 9] sample_state))) =
    Inr (InputPeerUser 42 5)"
proof -
  have "peer_table (peer_rows sample_state)"
    by (simp add: sample_state_def peer_table_def)
  from fetch_peers_resolvable [OF this surjective_pairing, THEN conjunct2, THEN conjunct2, THEN conjunct1, rule_format,
      of "[sample_user False 1, sample_user False 5, sample_user True 9]" "[sample_user False 1]" "sample_user False 5" "[sample_user True 9]" 42 0]
  show ?thesis
    by (simp add: sample_user_def marked_id_def)
qed


section \<open>Handling updates\<close>

text \<open>What becomes of asking for the difference of a channel whose entities are \<open>min\<close>: the
  exceptions that are ignored, any other exception, an empty difference, or its users and chats.\<close>

datatype hydration = NotHydrated | HydrationFails py_error | HydrationEmpty | Hydrated "raw_entity list" "raw_entity list"

text \<open>The answers to \<open>GetDifference\<close>. \<open>DifferenceEmpty\<close> and \<open>DifferenceTooLong\<close> have no users
  (\<open>NoContents\<close>).\<close>

record difference_contents =
  d_users :: "raw_entity list"
  d_chats :: "raw_entity list"
  d_messages :: "nat list"
  d_others :: "raw_update list"

datatype short_reply = ShortFails py_error | NoContents | Contents difference_contents

record updates_env =
  clock :: int
  hydrate :: "raw_update \<Rightarrow> hydration"
  short_difference :: short_reply

datatype updates =
    Updates "raw_entity list" "raw_entity list" "raw_update list" int int
  | UpdateShortMessage int int int
  | UpdateShort raw_update
  | OtherUpdates

text \<open>\<open>a or b\<close> on optional integers: zero is false.\<close>

definition py_or :: "int option \<Rightarrow> int option \<Rightarrow> int option" where
  "py_or a b = (if a = None \<or> a = Some 0 then b else a)"

definition channel_of :: "raw_update \<Rightarrow> int option" where
  "channel_of u = py_or (up_message_channel u) (up_channel_id u)"

definition cursor_of :: "raw_update \<Rightarrow> update_state option" where
  "cursor_of u = (if up_pts u = None \<and> up_qts u = None then None
     else Some \<lparr>us_id = (case py_or (channel_of u) None of None \<Rightarrow> 0 | Some c \<Rightarrow> get_channel_id c),
                us_pts = up_pts u, us_qts = up_qts u, us_date = None, us_seq = None\<rparr>)"

definition store_state :: "update_state \<Rightarrow> client_state \<Rightarrow> client_state" where
  "store_state u s = s\<lparr>state_rows := sqlite_set_update_state [u] (state_rows s)\<rparr>"

definition enqueue_packet :: "queued \<Rightarrow> nat \<Rightarrow> client_state \<Rightarrow> client_state" where
  "enqueue_packet q ref s = s\<lparr>dispatcher := enqueue (q, ref) (dispatcher s)\<rparr>"

text \<open>The end of \<open>Client.invoke\<close>: the users and chats of the answer are stored.\<close>

definition fetch_answer :: "int \<Rightarrow> raw_entity list \<Rightarrow> raw_entity list \<Rightarrow> client_state \<Rightarrow> client_state" where
  "fetch_answer now users chats s = snd (fetch_peers now chats (snd (fetch_peers now users s)))"

definition new_dicts :: "raw_entity list \<Rightarrow> raw_entity list \<Rightarrow> client_state \<Rightarrow> nat \<times> client_state" where
  "new_dicts users chats s = (length (dicts s), s\<lparr>dicts := dicts s @ [(entity_dict_of users, entity_dict_of chats)]\<rparr>)"

definition extend_dicts :: "nat \<Rightarrow> raw_entity list \<Rightarrow> raw_entity list \<Rightarrow> client_state \<Rightarrow> client_state" where
  "extend_dicts ref users chats s = s\<lparr>dicts := (dicts s)[ref :=
     (fst (dicts s ! ref) ++ entity_dict_of users, snd (dicts s ! ref) ++ entity_dict_of chats)]\<rparr>"

text \<open>One round of the loop over the updates of a batch.\<close>

definition finish_update :: "nat \<Rightarrow> raw_update \<Rightarrow> client_state \<Rightarrow> client_state" where
  "finish_update ref u s = (let s = enqueue_packet (Raw u) ref s in
     case cursor_of u of None \<Rightarrow> s | Some c \<Rightarrow> store_state c s)"

definition handle_update :: "updates_env \<Rightarrow> bool \<Rightarrow> nat \<Rightarrow> raw_update \<Rightarrow> client_state \<Rightarrow> client_state \<times> py_error option" where
  "handle_update E is_min ref u s =
    (if up_kind u = NewChannelMessage False \<and> is_min then
       (case hydrate E u of
          HydrationFails e \<Rightarrow> (s, Some e)
        | Hydrated users chats \<Rightarrow>
            (finish_update ref u (extend_dicts ref users chats (fetch_answer (clock E) users chats s)), None)
        | _ \<Rightarrow> (finish_update ref u s, None))
     else (finish_update ref u s, None))"

fun handle_each :: "updates_env \<Rightarrow> bool \<Rightarrow> nat \<Rightarrow> raw_update list \<Rightarrow> client_state \<Rightarrow> client_state \<times> py_error option" where
  "handle_each E is_min ref [] s = (s, None)"
| "handle_each E is_min ref (u # us) s =
    (case handle_update E is_min ref u s of
       (s', Some e) \<Rightarrow> (s', Some e)
     | (s', None) \<Rightarrow> handle_each E is_min ref us s')"

definition enqueue_contents :: "difference_contents \<Rightarrow> int \<Rightarrow> int \<Rightarrow> nat \<Rightarrow> client_state \<Rightarrow> client_state" where
  "enqueue_contents c pts pts_count ref s =
    fold (\<lambda>u. enqueue_packet (Raw u) ref) (d_others c)
      (fold (\<lambda>m. enqueue_packet (NewMessage m pts pts_count) ref) (d_messages c) s)"

text \<open>\<open>_handle_updates\<close>. The result is the exception that ends it, if any.\<close>

fun handle_updates :: "updates_env \<Rightarrow> updates \<Rightarrow> client_state \<Rightarrow> client_state \<times> py_error option" where
  "handle_updates E (Updates users chats us date seq) s =
    (let (min_users, s) = fetch_peers (clock E) users s;
         (min_chats, s) = fetch_peers (clock E) chats s;
         (ref, s) = new_dicts users chats s in
     case handle_each E (min_users \<or> min_chats) ref us s of
       (s, Some e) \<Rightarrow> (s, Some e)
     | (s, None) \<Rightarrow> (store_state \<lparr>us_id = 0, us_pts = None, us_qts = None, us_date = Some date, us_seq = Some seq\<rparr> s, None))"
| "handle_updates E (UpdateShortMessage pts pts_count date) s =
    (case short_difference E of
       ShortFails e \<Rightarrow> (s, Some e)
     | NoContents \<Rightarrow> (s, Some AttributeError)
     | Contents c \<Rightarrow>
         let (ref, s) = new_dicts (d_users c) (d_chats c) (fetch_answer (clock E) (d_users c) (d_chats c) s) in
         (store_state \<lparr>us_id = 0, us_pts = Some pts, us_qts = None, us_date = Some date, us_seq = None\<rparr>
           (enqueue_contents c pts pts_count ref s), None))"
| "handle_updates E (UpdateShort u) s = (let (ref, s) = new_dicts [] [] s in (enqueue_packet (Raw u) ref s, None))"
| "handle_updates E OtherUpdates s = (s, None)"

lemma fetch_peers_keeps:
  "fetch_peers now es s = (m, s') \<Longrightarrow> state_rows s' = state_rows s \<and> dispatcher s' = dispatcher s \<and> dicts s' = dicts s"
  by (auto simp: fetch_peers_def)

lemma snd_fetch_peers [simp]:
  "state_rows (snd (fetch_peers now es s)) = state_rows s"
  "dispatcher (snd (fetch_peers now es s)) = dispatcher s"
  "dicts (snd (fetch_peers now es s)) = dicts s"
  by (simp_all add: fetch_peers_def)

lemma helper_keeps [simp]:
  "state_rows (fetch_answer now us cs s) = state_rows s" "dispatcher (fetch_answer now us cs s) = dispatcher s"
  "dicts (fetch_answer now us cs s) = dicts s"
  "state_rows (extend_dicts ref us cs s) = state_rows s" "dispatcher (extend_dicts ref us cs s) = dispatcher s"
  "state_rows (snd (new_dicts us cs s)) = state_rows s" "dispatcher (snd (new_dicts us cs s)) = dispatcher s"
  "fst (new_dicts us cs s) = length (dicts s)"
  "dispatcher (store_state u s) = dispatcher s"
  "state_rows (enqueue_packet q ref s) = state_rows s"
  by (simp_all add: fetch_answer_def extend_dicts_def new_dicts_def store_state_def enqueue_packet_def)

lemma state_of_store [simp]: "state_of (state_rows (store_state u s)) = spec_set u (state_of (state_rows s))"
  by (simp add: store_state_def sqlite_set_update_state_def state_of_upsert)

definition accepted_by :: "client_state \<Rightarrow> (queued \<times> nat) list" where
  "accepted_by s = accepted (dispatcher s)"

lemma accepted_simps [simp]:
  "accepted_by (enqueue_packet q ref s) = accepted_by s @ (if accepting (dispatcher s) then [(q, ref)] else [])"
  "accepting (dispatcher (enqueue_packet q ref s)) = accepting (dispatcher s)"
  "accepted_by (store_state u s) = accepted_by s"
  "accepted_by (fetch_answer now us cs s) = accepted_by s"
  "accepted_by (extend_dicts ref us cs s) = accepted_by s"
  "accepted_by (snd (new_dicts us cs s)) = accepted_by s"
  by (simp_all add: accepted_by_def enqueue_packet_def enqueue_def)

lemma finish_update_effect [simp]:
  "accepted_by (finish_update ref u s) = accepted_by s @ (if accepting (dispatcher s) then [(Raw u, ref)] else [])"
  "accepting (dispatcher (finish_update ref u s)) = accepting (dispatcher s)"
  "state_of (state_rows (finish_update ref u s)) =
    fold spec_set (case cursor_of u of None \<Rightarrow> [] | Some c \<Rightarrow> [c]) (state_of (state_rows s))"
  by (simp_all add: finish_update_def Let_def split: option.split)

definition cursors :: "raw_update list \<Rightarrow> update_state list" where
  "cursors us = List.map_filter cursor_of us"

lemma cursors_Cons [simp]: "cursors (u # us) = (case cursor_of u of None \<Rightarrow> [] | Some c \<Rightarrow> [c]) @ cursors us"
  and cursors_Nil [simp]: "cursors [] = []"
  by (simp_all add: cursors_def map_filter_def split: option.split)

lemma handle_update_effect:
  "handle_update E is_min ref u s = (s', r) \<Longrightarrow>
    (case r of Some e \<Rightarrow> s' = s
     | None \<Rightarrow> accepted_by s' = accepted_by s @ (if accepting (dispatcher s) then [(Raw u, ref)] else []) \<and>
         accepting (dispatcher s') = accepting (dispatcher s) \<and>
         state_of (state_rows s') = fold spec_set (case cursor_of u of None \<Rightarrow> [] | Some c \<Rightarrow> [c]) (state_of (state_rows s)))"
  unfolding handle_update_def by (auto split: if_splits hydration.splits)

lemma handle_each_effect:
  assumes "handle_each E is_min ref us s = (s', r)"
  obtains taken rest where "us = taken @ rest" "r = None \<longleftrightarrow> rest = []"
    "accepted_by s' = accepted_by s @ (if accepting (dispatcher s) then map (\<lambda>u. (Raw u, ref)) taken else [])"
    "state_of (state_rows s') = fold spec_set (cursors taken) (state_of (state_rows s))"
  using assms
proof (induction us arbitrary: s thesis)
  case (Cons u us)
  obtain s1 r1 where u: "handle_update E is_min ref u s = (s1, r1)"
    by fastforce
  show ?case
  proof (cases r1)
    case None
    then have rest: "handle_each E is_min ref us s1 = (s', r)"
      using Cons.prems(2) u by simp
    obtain taken ys where "us = taken @ ys" "r = None \<longleftrightarrow> ys = []"
        "accepted_by s' = accepted_by s1 @ (if accepting (dispatcher s1) then map (\<lambda>u. (Raw u, ref)) taken else [])"
        "state_of (state_rows s') = fold spec_set (cursors taken) (state_of (state_rows s1))"
      using Cons.IH [OF _ rest] by metis
    then show ?thesis
      using handle_update_effect [OF u] None by (intro Cons.prems(1) [of "u # taken" ys]) auto
  next
    case (Some e)
    then show ?thesis
      using Cons.prems(2) u handle_update_effect [OF u] by (intro Cons.prems(1) [of "[]" "u # us"]) auto
  qed
qed auto

text \<open>C7: No cursor runs ahead of the queue. However the handling of a batch ends, the updates enqueued
  are its first ones, in order, all with the dictionaries of the batch, and the stored states are
  the old ones with exactly the cursors of those updates merged in: an exception while a minimal
  channel update is completed leaves its cursor, and those behind it, to be recovered. Without an
  exception all are enqueued and the date and sequence number of the batch are stored. While the
  dispatcher does not accept updates nothing is enqueued, yet the same cursors are stored.\<close>

theorem cursors_follow_queue:
  assumes "handle_updates E (Updates users chats us date seq) s = (s', r)"
  shows "\<exists>taken rest. us = taken @ rest \<and> (r = None \<longleftrightarrow> rest = []) \<and>
    accepted (dispatcher s') = accepted (dispatcher s) @
      (if accepting (dispatcher s) then map (\<lambda>u. (Raw u, length (dicts s))) taken else []) \<and>
    state_of (state_rows s') = fold spec_set (cursors taken @
      (if r = None then [\<lparr>us_id = 0, us_pts = None, us_qts = None, us_date = Some date, us_seq = Some seq\<rparr>] else []))
      (state_of (state_rows s))"
proof -
  obtain m1 s1 where 1: "fetch_peers (clock E) users s = (m1, s1)"
    by fastforce
  obtain m2 s2 where 2: "fetch_peers (clock E) chats s1 = (m2, s2)"
    by fastforce
  obtain ref s3 where 3: "new_dicts users chats s2 = (ref, s3)"
    by fastforce
  obtain s4 r4 where 4: "handle_each E (m1 \<or> m2) ref us s3 = (s4, r4)"
    by fastforce
  have same: "ref = length (dicts s)" "dispatcher s3 = dispatcher s" "state_rows s3 = state_rows s"
    using helper_keeps(6-8) [of users chats s2, unfolded 3] fetch_peers_keeps [OF 1] fetch_peers_keeps [OF 2] by simp_all
  obtain taken rest where t: "us = taken @ rest" "r4 = None \<longleftrightarrow> rest = []"
      "accepted_by s4 = accepted_by s3 @ (if accepting (dispatcher s3) then map (\<lambda>u. (Raw u, ref)) taken else [])"
      "state_of (state_rows s4) = fold spec_set (cursors taken) (state_of (state_rows s3))"
    using handle_each_effect [OF 4] by metis
  have "r = r4 \<and> (case r4 of Some e \<Rightarrow> s' = s4 | None \<Rightarrow> s' = store_state
      \<lparr>us_id = 0, us_pts = None, us_qts = None, us_date = Some date, us_seq = Some seq\<rparr> s4)"
    using assms by (auto simp: 1 2 3 4 split: option.splits)
  then show ?thesis
    using t same by (intro exI [of _ taken] exI [of _ rest]) (auto simp: accepted_by_def split: option.splits)
qed


definition sample_update :: "nat \<Rightarrow> raw_update" where
  "sample_update m = \<lparr>up_kind = NewChannelMessage False, up_number = m, up_message_channel = Some 5, up_channel_id = None,
     up_pts = Some (int m), up_qts = None\<rparr>"

theorem cursors_follow_queue_witness:
  "\<exists>s' taken rest. handle_updates
      \<lparr>clock = 0, hydrate = (\<lambda>u. if up_number u = 2 then HydrationFails ConnectionError else NotHydrated), short_difference = NoContents\<rparr>
      (Updates [sample_user True 1] [] [sample_update 1, sample_update 2] 8 2) sample_state = (s', Some ConnectionError) \<and>
    [sample_update 1, sample_update 2] = taken @ rest \<and> rest \<noteq> [] \<and>
    accepted (dispatcher s') = map (\<lambda>u. (Raw u, 0)) taken \<and>
    state_of (state_rows s') = fold spec_set (cursors taken) (state_of (state_rows sample_state))"
proof -
  let ?E = "\<lparr>clock = 0, hydrate = (\<lambda>u. if up_number u = 2 then HydrationFails ConnectionError else NotHydrated), short_difference = NoContents\<rparr>"
  let ?u = "Updates [sample_user True 1] [] [sample_update 1, sample_update 2] 8 2"
  have "snd (handle_updates ?E ?u sample_state) = Some ConnectionError"
    by (simp add: fetch_peers_def sample_user_def new_dicts_def handle_update_def sample_update_def)
  then obtain s' where run: "handle_updates ?E ?u sample_state = (s', Some ConnectionError)"
    by (metis prod.collapse)
  then show ?thesis
    using cursors_follow_queue [OF run] by (auto simp: sample_state_def dispatcher_start_def)
qed


section \<open>Recovering gaps\<close>

text \<open>The differences of the common updates and of a channel. \<open>ChannelDifferenceTooLong\<close> carries
  the cursor of its dialog, which the schema leaves optional.\<close>

datatype difference =
    DifferenceEmpty int int
  | DifferenceTooLong int
  | Difference difference_contents int int int
  | DifferenceSlice difference_contents int int int
  | ChannelDifferenceEmpty int
  | ChannelDifferenceTooLong "int option" "raw_entity list" "raw_entity list"
  | ChannelDifference difference_contents int bool

text \<open>The outcome of one request: a difference, \<open>ChannelPrivate\<close> or \<open>ChannelInvalid\<close>
  (\<open>NotMember\<close>), a persistent timestamp that is outdated or invalid, or any other exception.\<close>

datatype gap_reply = Diff difference | NotMember | BadTimestamp | GapError py_error

type_synonym gap_server = "nat \<Rightarrow> int \<Rightarrow> int \<Rightarrow> int option \<Rightarrow> gap_reply"

fun diff_entities :: "difference \<Rightarrow> raw_entity list \<times> raw_entity list" where
  "diff_entities (Difference c _ _ _) = (d_users c, d_chats c)"
| "diff_entities (DifferenceSlice c _ _ _) = (d_users c, d_chats c)"
| "diff_entities (ChannelDifference c _ _) = (d_users c, d_chats c)"
| "diff_entities (ChannelDifferenceTooLong _ us cs) = (us, cs)"
| "diff_entities _ = ([], [])"

definition fetch_diff :: "int \<Rightarrow> difference \<Rightarrow> client_state \<Rightarrow> client_state" where
  "fetch_diff now d s = fetch_answer now (fst (diff_entities d)) (snd (diff_entities d)) s"

definition deliver_diff :: "difference_contents \<Rightarrow> int \<Rightarrow> client_state \<Rightarrow> client_state" where
  "deliver_diff c pts s = (let (ref, s) = new_dicts (d_users c) (d_chats c) s in enqueue_contents c pts (- 1) ref s)"

definition count_diff :: "difference_contents \<Rightarrow> nat \<times> nat \<Rightarrow> nat \<times> nat" where
  "count_diff c n = (fst n + length (d_messages c), snd n + length (d_others c))"

definition pts_state :: "int \<Rightarrow> int option \<Rightarrow> update_state" where
  "pts_state i pts = \<lparr>us_id = i, us_pts = pts, us_qts = None, us_date = None, us_seq = None\<rparr>"

definition full_state :: "int \<Rightarrow> int option \<Rightarrow> int \<Rightarrow> int \<Rightarrow> update_state" where
  "full_state i pts date seq = \<lparr>us_id = i, us_pts = pts, us_qts = None, us_date = Some date, us_seq = Some seq\<rparr>"

text \<open>How the loop over the differences of one state ends: the state was deleted, its update is to be
  stored, or an exception leaves the method.\<close>

datatype gap_end = StateDeleted | StateReached update_state | GapRaised py_error

text \<open>One round of \<open>while True\<close> on the answer to its request: how the loop ends, or the cursor and
  date it goes on with.\<close>

definition gap_round :: "int \<Rightarrow> int \<Rightarrow> int \<Rightarrow> int option \<Rightarrow> gap_reply \<Rightarrow> client_state \<Rightarrow> nat \<times> nat \<Rightarrow>
    (gap_end + int option \<times> int option) \<times> client_state \<times> nat \<times> nat" where
  "gap_round now i pts date reply s n = (case reply of
     GapError e \<Rightarrow> (Inl (GapRaised e), s, n)
   | NotMember \<Rightarrow> (Inl StateDeleted, s\<lparr>state_rows := sqlite_delete_update_state [i] (state_rows s)\<rparr>, n)
   | BadTimestamp \<Rightarrow> (Inr (Some pts, date), s, n)
   | Diff d \<Rightarrow> (let s = fetch_diff now d s in case d of
       DifferenceEmpty dt sq \<Rightarrow> (Inl (StateReached (full_state i None dt sq)), s, n)
     | DifferenceTooLong p \<Rightarrow> (Inr (Some p, date), store_state (pts_state i (Some p)) s, n)
     | Difference c p dt sq \<Rightarrow> (Inl (StateReached (full_state i (Some p) dt sq)), deliver_diff c p s, count_diff c n)
     | DifferenceSlice c p dt sq \<Rightarrow>
         (if p = pts then Inl (StateReached (full_state i (Some p) dt sq)) else Inr (Some p, Some dt),
          deliver_diff c p s, count_diff c n)
     | ChannelDifferenceEmpty p \<Rightarrow> (Inl (StateReached (pts_state i (Some p))), s, n)
     | ChannelDifferenceTooLong p us cs \<Rightarrow> (Inr (p, date), store_state (pts_state i p) s, n)
     | ChannelDifference c p final \<Rightarrow>
         (if final then Inl (StateReached (pts_state i (Some p))) else Inr (Some p, date),
          deliver_diff c p s, count_diff c n)))"

text \<open>The loop; \<open>k\<close> counts the requests. A cursor or date that is \<open>None\<close> cannot be serialised.\<close>

definition cannot_ask :: "int \<Rightarrow> int option \<Rightarrow> int option \<Rightarrow> bool" where
  "cannot_ask i pts date \<longleftrightarrow> pts = None \<or> ZERO_CHANNEL_ID \<le> i \<and> date = None"

partial_function (option) recover_one ::
  "int \<Rightarrow> gap_server \<Rightarrow> int \<Rightarrow> int option \<Rightarrow> int option \<Rightarrow> nat \<Rightarrow> client_state \<Rightarrow> nat \<times> nat \<Rightarrow>
    (gap_end \<times> nat \<times> client_state \<times> nat \<times> nat) option" where
  "recover_one now server i pts date k s n =
    (if cannot_ask i pts date then Some (GapRaised AttributeError, k, s, n)
     else (let R = gap_round now i (the pts) date (server k i (the pts) date) s n in
       case fst R of
         Inl r \<Rightarrow> Some (r, k + 1, snd R)
       | Inr q \<Rightarrow> recover_one now server i (fst q) (snd q) (k + 1) (fst (snd R)) (snd (snd R))))"

text \<open>The loop over the states. The result is the exception, or the two counters.\<close>

fun recover_states :: "int \<Rightarrow> gap_server \<Rightarrow> update_state list \<Rightarrow> nat \<Rightarrow> client_state \<Rightarrow> nat \<times> nat \<Rightarrow>
    (client_state \<times> (py_error + nat \<times> nat)) option" where
  "recover_states now server [] k s n = Some (s, Inr n)"
| "recover_states now server (st # sts) k s n =
    (if us_pts st = None then recover_states now server sts k s n
     else Option.bind (recover_one now server (us_id st) (us_pts st) (us_date st) k s n) (\<lambda>(r, k, s, n).
       case r of
         GapRaised e \<Rightarrow> Some (s, Inl e)
       | StateDeleted \<Rightarrow> recover_states now server sts k s n
       | StateReached u \<Rightarrow> recover_states now server sts k (store_state u s) n))"

definition recover_gaps :: "int \<Rightarrow> gap_server \<Rightarrow> int list option \<Rightarrow> client_state \<Rightarrow> (client_state \<times> (py_error + nat \<times> nat)) option" where
  "recover_gaps now server ids s = recover_states now server (sqlite_get_update_states ids (state_rows s)) 0 s (0, 0)"

text \<open>What one answer delivers, and the cursor it carries.\<close>

fun reply_items :: "gap_reply \<Rightarrow> queued list" where
  "reply_items (Diff (Difference c p _ _)) = map (\<lambda>m. NewMessage m p (- 1)) (d_messages c) @ map Raw (d_others c)"
| "reply_items (Diff (DifferenceSlice c p _ _)) = map (\<lambda>m. NewMessage m p (- 1)) (d_messages c) @ map Raw (d_others c)"
| "reply_items (Diff (ChannelDifference c p _)) = map (\<lambda>m. NewMessage m p (- 1)) (d_messages c) @ map Raw (d_others c)"
| "reply_items _ = []"


fun is_message :: "queued \<Rightarrow> bool" where
  "is_message (NewMessage _ _ _) = True"
| "is_message (Raw _) = False"

definition message_count :: "queued list \<Rightarrow> nat \<times> nat" where
  "message_count qs = (length (filter is_message qs), length (filter (\<lambda>q. \<not> is_message q) qs))"

definition stored_pts :: "client_state \<Rightarrow> int \<Rightarrow> int option" where
  "stored_pts s i = Option.bind (state_of (state_rows s) i) us_pts"




lemma enqueue_contents_effect [simp]:
  "map fst (accepted_by (enqueue_contents c p pc ref s)) = map fst (accepted_by s) @
    (if accepting (dispatcher s) then map (\<lambda>m. NewMessage m p pc) (d_messages c) @ map Raw (d_others c) else [])"
  "accepting (dispatcher (enqueue_contents c p pc ref s)) = accepting (dispatcher s)"
  "state_rows (enqueue_contents c p pc ref s) = state_rows s"
proof -
  have many: "map fst (accepted_by (fold (\<lambda>x. enqueue_packet (f x) ref) xs s)) = map fst (accepted_by s) @
        (if accepting (dispatcher s) then map f xs else []) \<and>
      accepting (dispatcher (fold (\<lambda>x. enqueue_packet (f x) ref) xs s)) = accepting (dispatcher s) \<and>
      state_rows (fold (\<lambda>x. enqueue_packet (f x) ref) xs s) = state_rows s" for f and xs :: "'x list" and s
    by (induction xs arbitrary: s) auto
  show "map fst (accepted_by (enqueue_contents c p pc ref s)) = map fst (accepted_by s) @
      (if accepting (dispatcher s) then map (\<lambda>m. NewMessage m p pc) (d_messages c) @ map Raw (d_others c) else [])"
    "accepting (dispatcher (enqueue_contents c p pc ref s)) = accepting (dispatcher s)"
    "state_rows (enqueue_contents c p pc ref s) = state_rows s"
    unfolding enqueue_contents_def using many [of Raw] many [of "\<lambda>m. NewMessage m p pc"] by simp_all
qed

lemma deliver_diff_effect [simp]:
  "map fst (accepted_by (deliver_diff c p s)) = map fst (accepted_by s) @
    (if accepting (dispatcher s) then map (\<lambda>m. NewMessage m p (- 1)) (d_messages c) @ map Raw (d_others c) else [])"
  "accepting (dispatcher (deliver_diff c p s)) = accepting (dispatcher s)"
  "state_rows (deliver_diff c p s) = state_rows s"
  by (simp_all add: deliver_diff_def case_prod_unfold)

lemma fetch_diff_keeps [simp]:
  "accepted_by (fetch_diff now d s) = accepted_by s" "dispatcher (fetch_diff now d s) = dispatcher s"
  "state_rows (fetch_diff now d s) = state_rows s"
  by (simp_all add: fetch_diff_def)

lemma stored_pts_simps [simp]:
  "stored_pts (store_state u s) i =
    (if i = us_id u then coalesce (us_pts u) (stored_pts s i) else stored_pts s i)"
  "stored_pts (fetch_diff now d s) i = stored_pts s i"
  "stored_pts (deliver_diff c p s) i = stored_pts s i"
  by (auto simp: stored_pts_def spec_set_def merge_update_state_def coalesce_def split: option.split)

lemma us_pts_simps [simp]:
  "us_pts (pts_state i p) = p" "us_pts (full_state i p d q) = p" "us_id (pts_state i p) = i" "us_id (full_state i p d q) = i"
  by (simp_all add: pts_state_def full_state_def)

lemma stored_pts_delete [simp]:
  "stored_pts (s\<lparr>state_rows := sqlite_delete_update_state is (state_rows s)\<rparr>) i =
    (if i \<in> set is then None else stored_pts s i)"
  by (simp add: stored_pts_def state_of_delete)

lemma accepted_by_rows [simp]: "accepted_by (s\<lparr>state_rows := rows\<rparr>) = accepted_by s"
  by (simp add: accepted_by_def)

lemma message_count_simps [simp]:
  "message_count [] = (0, 0)"
  "message_count (map (\<lambda>m. NewMessage m p c) ms @ map Raw us) = (length ms, length us)"
  by (simp_all add: message_count_def filter_map o_def)


text \<open>The cursor that the next request has to carry after an answer, if there is a next one, and its date.\<close>

fun next_pts :: "int \<Rightarrow> gap_reply \<Rightarrow> int option" where
  "next_pts pts BadTimestamp = Some pts"
| "next_pts pts (Diff (DifferenceTooLong p)) = Some p"
| "next_pts pts (Diff (DifferenceSlice _ p _ _)) = (if p = pts then None else Some p)"
| "next_pts pts (Diff (ChannelDifferenceTooLong p _ _)) = p"
| "next_pts pts (Diff (ChannelDifference _ p final)) = (if final then None else Some p)"
| "next_pts pts _ = None"











definition add_counts :: "nat \<times> nat \<Rightarrow> gap_reply list \<Rightarrow> nat \<times> nat" where
  "add_counts n rs = (fst n + fst (message_count (concat (map reply_items rs))),
     snd n + snd (message_count (concat (map reply_items rs))))"

lemma message_count_append: "message_count (xs @ ys) =
    (fst (message_count xs) + fst (message_count ys), snd (message_count xs) + snd (message_count ys))"
  by (simp add: message_count_def)

lemma add_counts_simps [simp]: "add_counts n [] = n" "add_counts (add_counts n rs) rs' = add_counts n (rs @ rs')"
  by (simp_all add: add_counts_def message_count_append)


lemmas recover_one_induct = recover_one.raw_induct [rotated, consumes 1, case_names round]






definition patient_server :: gap_server where
  "patient_server = (\<lambda>k i p d. if k < 2 then BadTimestamp
     else Diff (Difference \<lparr>d_users = [], d_chats = [], d_messages = [3, 4], d_others = [sample_update 1]\<rparr> 12 9 2))"



text \<open>A server that makes progress: after request \<open>N\<close> it no longer finds fault with the timestamp,
  and an answer that is not the last one advances the cursor, which never passes \<open>newest\<close>.\<close>

definition progressing :: "gap_server \<Rightarrow> (int \<Rightarrow> int) \<Rightarrow> nat \<Rightarrow> bool" where
  "progressing server newest N \<longleftrightarrow> (\<forall>k i p d q. next_pts p (server k i p d) = Some q \<longrightarrow>
    server k i p d = BadTimestamp \<and> k < N \<or> p < q \<and> q \<le> newest i)"

lemma gap_round_next:
  assumes "gap_round now i pts date reply s n = (Inr (p, d), s', n')"
  shows "p = next_pts pts reply"
proof (cases reply)
  case (Diff diff)
  then show ?thesis
    using assms by (cases diff) (auto simp: gap_round_def Let_def split: if_splits)
qed (use assms in \<open>auto simp: gap_round_def\<close>)

lemma recover_one_ends:
  assumes "progressing server newest N"
  shows "\<exists>res. recover_one now server i pts date k s n = Some res"
proof (induction "nat (newest i - the pts) + (N - k)" arbitrary: pts date k s n rule: less_induct)
  case less
  show ?case
  proof (cases "cannot_ask i pts date")
    case True
    then show ?thesis
      by (subst recover_one.simps) simp
  next
    case False
    let ?reply = "server k i (the pts) date"
    obtain r s1 n1 where R: "gap_round now i (the pts) date ?reply s n = (r, s1, n1)"
      by (metis prod_cases3)
    show ?thesis
    proof (cases r)
      case (Inl e)
      then show ?thesis
        using False R by (subst recover_one.simps) simp
    next
      case (Inr q)
      obtain p d where q: "q = (p, d)"
        by fastforce
      have next_p: "p = next_pts (the pts) ?reply"
        using gap_round_next R Inr q by blast
      have "\<exists>res. recover_one now server i p d (k + 1) s1 n1 = Some res"
      proof (cases p)
        case None
        then show ?thesis
          by (subst recover_one.simps) (simp add: cannot_ask_def)
      next
        case (Some p')
        then have "?reply = BadTimestamp \<and> k < N \<or> the pts < p' \<and> p' \<le> newest i"
          using assms next_p unfolding progressing_def by metis
        moreover have "?reply = BadTimestamp \<Longrightarrow> p' = the pts"
          using next_p Some by simp
        ultimately have "nat (newest i - the p) + (N - (k + 1)) < nat (newest i - the pts) + (N - k)"
          using Some by auto
        then show ?thesis
          by (rule less)
      qed
      then show ?thesis
        using False R Inr q by (subst recover_one.simps) simp
    qed
  qed
qed

lemma recover_states_ends:
  "progressing server newest N \<Longrightarrow> \<exists>res. recover_states now server sts k s n = Some res"
proof (induction sts arbitrary: k s n)
  case (Cons st sts)
  obtain e k1 s1 n1 where "recover_one now server (us_id st) (us_pts st) (us_date st) k s n = Some (e, k1, s1, n1)"
    using recover_one_ends [OF Cons.prems] by (metis prod_cases4)
  then show ?case
    using Cons by (simp split: gap_end.split)
qed simp

text \<open>C26: The recovery ends when the server makes progress: if every answer that is not a last one
  advances the cursor up to some bound, and the timestamp is refused only during the first requests, the method
  returns or raises, whatever states are stored.\<close>

theorem recovery_ends:
  assumes "progressing server newest N"
  shows "recover_gaps now server ids s \<noteq> None"
  using recover_states_ends [OF assms] by (simp add: recover_gaps_def)

theorem recovery_ends_witness:
  "progressing patient_server (\<lambda>_. 0) 2 \<and> recover_gaps 0 patient_server None sample_state \<noteq> None"
proof -
  have "progressing patient_server (\<lambda>_. 0) 2"
    by (simp add: progressing_def patient_server_def)
  then show ?thesis
    using recovery_ends by blast
qed

lemma recover_one_spins:
  assumes "recover_one now server i pts date k s n = Some res"
    and "\<not> cannot_ask i pts date" and "\<And>k' pts' s' n'. pts' \<noteq> None \<Longrightarrow>
      \<exists>p s'' n''. gap_round now i (the pts') date (server k' i (the pts') date) s' n' = (Inr (Some p, date), s'', n'')"
  shows False
  using assms
proof (induction rule: recover_one_induct)
  case (round rec now server i pts date k s n res)
  then obtain p s1 n1 where R: "gap_round now i (the pts) date (server k i (the pts) date) s n = (Inr (Some p, date), s1, n1)"
    by (metis cannot_ask_def)
  then have "rec now server i (Some p) date (k + 1) s1 n1 = Some res"
    using round(2,3) by simp
  moreover have "\<not> cannot_ask i (Some p) date"
    using round(3) by (simp add: cannot_ask_def)
  ultimately show False
    using round(1) round(4) by blast
qed

text \<open>Without progress the recovery never ends: a server that keeps refusing the timestamp, or that keeps
  sending a difference of a channel that is not final, is asked again at once and for ever, under the lock
  that \<open>handle_updates\<close> needs.\<close>

theorem recovery_spins:
  "recover_gaps now (\<lambda>k i p d. BadTimestamp) None
     (s\<lparr>state_rows := [\<lparr>us_id = 0, us_pts = Some p, us_qts = q, us_date = Some d, us_seq = sq\<rparr>]\<rparr>) = None \<and>
   recover_gaps now (\<lambda>k i p d. Diff (ChannelDifference c p False)) None
     (s\<lparr>state_rows := [\<lparr>us_id = ZERO_CHANNEL_ID - 1 - int m, us_pts = Some p, us_qts = q, us_date = Some d, us_seq = sq\<rparr>]\<rparr>) = None"
proof (intro conjI; unfold not_Some_eq [symmetric] not_ex; intro allI notI)
  fix res
  let ?s = "s\<lparr>state_rows := [\<lparr>us_id = 0, us_pts = Some p, us_qts = q, us_date = Some d, us_seq = sq\<rparr>]\<rparr>"
  assume "recover_gaps now (\<lambda>k i p d. BadTimestamp) None ?s = Some res"
  then obtain r where "recover_one now (\<lambda>k i p d. BadTimestamp) 0 (Some p) (Some d) 0 ?s (0, 0) = Some r"
    by (auto simp: recover_gaps_def sqlite_get_update_states_def Option.bind_eq_Some_conv)
  then show False
    by (rule recover_one_spins) (auto simp: cannot_ask_def gap_round_def)
next
  fix res
  let ?i = "ZERO_CHANNEL_ID - 1 - int m"
  let ?s = "s\<lparr>state_rows := [\<lparr>us_id = ?i, us_pts = Some p, us_qts = q, us_date = Some d, us_seq = sq\<rparr>]\<rparr>"
  assume "recover_gaps now (\<lambda>k i p d. Diff (ChannelDifference c p False)) None ?s = Some res"
  then obtain r where "recover_one now (\<lambda>k i p d. Diff (ChannelDifference c p False)) ?i (Some p) (Some d) 0 ?s (0, 0) = Some r"
    by (auto simp: recover_gaps_def sqlite_get_update_states_def Option.bind_eq_Some_conv)
  then show False
    by (rule recover_one_spins) (auto simp: cannot_ask_def gap_round_def)
qed

end
