(* ===== verification/Resolve.thy ===== *)
theory Resolve
  imports Updates
begin

text \<open>
  \<open>Client.invoke\<close> (\<open>methods/advanced/invoke.py\<close>) and \<open>resolve_peer\<close>
  (\<open>methods/advanced/resolve_peer.py\<close>), which turns an identifier, a user name, a link or a
  telephone number into an input peer: from the tables of the storage or else from the answer of
  the server to one request. Texts are ASCII; the answers of the server are a parameter.
\<close>

section \<open>Requests of the client\<close>

datatype 'q query =
    Bare 'q
  | InvokeWithBusinessConnection string "'q query"
  | InvokeWithReCaptcha string "'q query"
  | InvokeWithoutUpdates "'q query"
  | InvokeWithTakeout int "'q query"

record invoke_options =
  is_connected :: bool
  no_updates :: bool
  takeout_id :: "int option"
  recaptcha_token :: "string option"
  business_connection_id :: "string option"

definition wrap_query :: "invoke_options \<Rightarrow> 'q \<Rightarrow> 'q query" where
  "wrap_query opts q =
    (let q1 = (if truthy (business_connection_id opts)
           then InvokeWithBusinessConnection (the (business_connection_id opts)) (Bare q) else Bare q);
         q2 = (if truthy (recaptcha_token opts) then InvokeWithReCaptcha (the (recaptcha_token opts)) q1 else q1);
         q3 = (if no_updates opts then InvokeWithoutUpdates q2 else q2)
     in case takeout_id opts of None \<Rightarrow> q3 | Some i \<Rightarrow> if i = 0 then q3 else InvokeWithTakeout i q3)"

datatype resolve_error = PyError py_error | PeerIdInvalid | RpcError string

text \<open>What the code reads of an answer: \<open>users\<close> and \<open>chats\<close> where the object has them, and
  what is particular to it. The second component of the result are the requests made.\<close>

record 'a reply =
  r_users :: "raw_entity list"
  r_chats :: "raw_entity list"
  r_value :: 'a

definition client_invoke ::
  "int \<Rightarrow> ('q query \<Rightarrow> resolve_error + 'a reply) \<Rightarrow> invoke_options \<Rightarrow> 'q \<Rightarrow> client_state \<Rightarrow>
    (resolve_error + 'a) \<times> 'q query list \<times> client_state" where
  "client_invoke now server opts q s =
    (if \<not> is_connected opts then (Inl (PyError ConnectionError), [], s)
     else let wrapped = wrap_query opts q in
       case server wrapped of
         Inl e \<Rightarrow> (Inl e, [wrapped], s)
       | Inr r \<Rightarrow> (Inr (r_value r), [wrapped], snd (fetch_peers now (r_chats r) (snd (fetch_peers now (r_users r) s)))))"


section \<open>The forms of an identifier\<close>

datatype peer_arg = NoArg | IntArg int | StrArg string | OtherArg

definition is_space :: "char \<Rightarrow> bool" where
  "is_space c = ((of_char c :: nat) \<in> {9, 10, 11, 12, 13, 28, 29, 30, 31, 32})"

definition is_dec :: "char \<Rightarrow> bool" where
  "is_dec c = (48 \<le> (of_char c :: nat) \<and> (of_char c :: nat) \<le> 57)"

definition is_word :: "char \<Rightarrow> bool" where
  "is_word c = (is_dec c \<or> 65 \<le> (of_char c :: nat) \<and> (of_char c :: nat) \<le> 90 \<or>
     97 \<le> (of_char c :: nat) \<and> (of_char c :: nat) \<le> 122 \<or> c = CHR ''_'')"

definition strip_phone :: "string \<Rightarrow> string" where
  "strip_phone s = filter (\<lambda>c. c \<notin> set ''+()-'' \<and> \<not> is_space c) s"

definition isdigit :: "string \<Rightarrow> bool" where
  "isdigit s = (s \<noteq> [] \<and> list_all is_dec s)"

definition strip_username :: "string \<Rightarrow> string" where
  "strip_username s = filter (\<lambda>c. c \<notin> set ''@+'' \<and> \<not> is_space c) s"

fun drop_prefix :: "string \<Rightarrow> string \<Rightarrow> string option" where
  "drop_prefix [] s = Some s"
| "drop_prefix (p # ps) [] = None"
| "drop_prefix (p # ps) (c # s) = (if p = c then drop_prefix ps s else None)"

definition drop_optional :: "string \<Rightarrow> string \<Rightarrow> string" where
  "drop_optional p s = (case drop_prefix p s of None \<Rightarrow> s | Some r \<Rightarrow> r)"

definition drop_scheme :: "string \<Rightarrow> string" where
  "drop_scheme s = (case drop_prefix ''https://'' s of Some r \<Rightarrow> r | None \<Rightarrow> drop_optional ''http://'' s)"

definition drop_domain :: "string \<Rightarrow> string option" where
  "drop_domain s =
    (case drop_prefix ''t'' s of None \<Rightarrow> None | Some r \<Rightarrow>
       (case drop_prefix ''.'' (drop_optional ''elegram'' r) of None \<Rightarrow> None | Some r2 \<Rightarrow>
          (case (drop_prefix ''org/'' r2, drop_prefix ''me/'' r2, drop_prefix ''dog/'' r2) of
             (Some r3, _, _) \<Rightarrow> Some r3
           | (_, Some r3, _) \<Rightarrow> Some r3
           | (_, _, Some r3) \<Rightarrow> Some r3
           | _ \<Rightarrow> None)))"

text \<open>\<open>CHANNEL_MESSAGE_LINK_RE.match\<close>, with its group. The optional \<open>c/\<close> is given back when
  no name follows it, and the dot of the tail does not match a line feed, which may only come last.\<close>

definition link_tail :: "string \<Rightarrow> string option" where
  "link_tail s =
    (let name = takeWhile is_word s; rest = dropWhile is_word s in
     if name = [] \<or> CHR 0x0A \<in> set (butlast rest) then None else Some name)"

definition match_link :: "string \<Rightarrow> string option" where
  "match_link s =
    (case drop_domain (drop_optional ''www.'' (drop_scheme s)) of
       None \<Rightarrow> None
     | Some path \<Rightarrow>
         (case drop_prefix ''c/'' path of
            None \<Rightarrow> link_tail path
          | Some r \<Rightarrow> (case link_tail r of Some name \<Rightarrow> Some name | None \<Rightarrow> link_tail path)))"

text \<open>\<open>int()\<close> of a name: digits, with single underscores between them.\<close>

fun digit_groups :: "bool \<Rightarrow> string \<Rightarrow> bool" where
  "digit_groups after_digit [] = after_digit"
| "digit_groups after_digit (c # s) =
    (if is_dec c then digit_groups True s else c = CHR ''_'' \<and> after_digit \<and> digit_groups False s)"

definition int_of_name :: "string \<Rightarrow> int res" where
  "int_of_name s = (if digit_groups False s then Inr (int (dec_val (filter is_dec s))) else Inl ValueError)"


section \<open>Resolving\<close>

datatype request =
    GetUsers "int option"
  | GetChats "int option"
  | GetChannels "int option"
  | ResolvePhone string
  | ResolveUsername string

text \<open>The particular part of an answer: the users of \<open>GetUsers\<close>, the peer of the other two.\<close>

datatype value_part = Users "raw_entity list" | ResolvedPeer peer | NoValue

record resolve_env =
  env_clock :: rat
  env_options :: invoke_options
  env_server :: "request query \<Rightarrow> resolve_error + value_part reply"

datatype resolved = NoPeerAsked | SelfPeer | EmptyPeer | Resolved peer

type_synonym resolving = "(resolve_error + resolved) \<times> request query list \<times> client_state"

definition ask :: "resolve_env \<Rightarrow> request \<Rightarrow> client_state \<Rightarrow> (resolve_error + value_part) \<times> request query list \<times> client_state" where
  "ask env q s = client_invoke \<lfloor>env_clock env\<rfloor> (env_server env) (env_options env) q s"

text \<open>A lookup that has to succeed: its \<open>KeyError\<close> becomes \<open>missing\<close>.\<close>

definition found :: "(py_error \<Rightarrow> resolve_error) \<Rightarrow> peer res \<Rightarrow> resolve_error + resolved" where
  "found missing r = (case r of
     Inr p \<Rightarrow> Inr (Resolved p)
   | Inl (KeyError k) \<Rightarrow> Inl (missing (KeyError k))
   | Inl e \<Rightarrow> Inl (PyError e))"

text \<open>A lookup whose \<open>KeyError\<close> is handled by \<open>otherwise\<close>.\<close>

definition found_or :: "peer res \<Rightarrow> client_state \<Rightarrow> resolving \<Rightarrow> resolving" where
  "found_or r s otherwise = (case r of
     Inr p \<Rightarrow> (Inr (Resolved p), [], s)
   | Inl (KeyError _) \<Rightarrow> otherwise
   | Inl e \<Rightarrow> (Inl (PyError e), [], s))"

definition request_for :: "string \<Rightarrow> int \<Rightarrow> request" where
  "request_for ty i =
    (if ty = ''user'' then GetUsers (get_raw_peer_id (Inl i))
     else if ty = ''chat'' then GetChats (get_raw_peer_id (Inl i))
     else GetChannels (get_raw_peer_id (Inl i)))"

definition fetch_users :: "resolve_env \<Rightarrow> string \<Rightarrow> value_part \<Rightarrow> client_state \<Rightarrow> client_state" where
  "fetch_users env ty v s =
    (case v of Users us \<Rightarrow> if ty = ''user'' then snd (fetch_peers \<lfloor>env_clock env\<rfloor> us s) else s | _ \<Rightarrow> s)"

definition resolve_id :: "resolve_env \<Rightarrow> int \<Rightarrow> client_state \<Rightarrow> resolving" where
  "resolve_id env i s =
    found_or (get_peer_by_id i (peer_rows s)) s
      (case get_peer_type i of
         Inl e \<Rightarrow> (Inl (PyError e), [], s)
       | Inr ty \<Rightarrow>
           (case ask env (request_for ty i) s of
              (Inl e, qs, s1) \<Rightarrow> (Inl e, qs, s1)
            | (Inr v, qs, s1) \<Rightarrow>
                let s2 = fetch_users env ty v s1
                in (found (\<lambda>_. PeerIdInvalid) (get_peer_by_id i (peer_rows s2)), qs, s2)))"

text \<open>The peer the server names, from the tables as its answer has left them.\<close>

definition answered_peer :: "(resolve_error + value_part) \<times> request query list \<times> client_state \<Rightarrow> resolving" where
  "answered_peer = (\<lambda>(r, qs, s). (case r of
     Inl e \<Rightarrow> Inl e
   | Inr (ResolvedPeer p) \<Rightarrow> (case get_peer_id p of Inl e \<Rightarrow> Inl (PyError e) | Inr i \<Rightarrow> found PyError (get_peer_by_id i (peer_rows s)))
   | Inr _ \<Rightarrow> Inl (PyError AttributeError), qs, s))"

definition resolve_username :: "resolve_env \<Rightarrow> string \<Rightarrow> client_state \<Rightarrow> resolving" where
  "resolve_username env username s =
    (if username = [] then (Inl PeerIdInvalid, [], s)
     else found_or (get_peer_by_username (env_clock env) username (peer_rows s) (name_rows s)) s
       (answered_peer (ask env (ResolveUsername username) s)))"

definition resolve_text :: "resolve_env \<Rightarrow> string \<Rightarrow> client_state \<Rightarrow> resolving" where
  "resolve_text env t s =
    (let phone = strip_phone t in
     if isdigit phone then
       found_or (get_peer_by_phone_number phone (peer_rows s)) s (answered_peer (ask env (ResolvePhone phone) s))
     else case match_link (str_lower t) of
       Some name \<Rightarrow>
         (case int_of_name name of
            Inr n \<Rightarrow> (found (\<lambda>_. PeerIdInvalid) (get_peer_by_id (get_channel_id n) (peer_rows s)), [], s)
          | Inl _ \<Rightarrow> resolve_username env name s)
     | None \<Rightarrow> resolve_username env (strip_username (str_lower t)) s)"

definition resolve_peer :: "resolve_env \<Rightarrow> peer_arg \<Rightarrow> client_state \<Rightarrow> resolving" where
  "resolve_peer env a s =
    (if \<not> is_connected (env_options env) then (Inl (PyError ConnectionError), [], s)
     else case a of
       NoArg \<Rightarrow> (Inr NoPeerAsked, [], s)
     | StrArg t \<Rightarrow>
         if t \<in> {''self'', ''me''} then (Inr SelfPeer, [], s)
         else if t = ''empty'' then (Inr EmptyPeer, [], s)
         else resolve_text env t s
     | IntArg i \<Rightarrow> resolve_id env i s
     | OtherArg \<Rightarrow> (Inl PeerIdInvalid, [], s))"


section \<open>An identifier resolves to its peer\<close>

lemma one_of_three: "(if a then Inr x else if b then Inr y else if c then Inr z else Inl e) = Inr p \<Longrightarrow> p \<in> {x, y, z}"
  by (auto split: if_splits)

lemma get_input_peer_id: "get_input_peer i h ty = Inr p \<Longrightarrow> get_peer_id p = Inr i"
  by (auto simp: get_peer_id_def get_channel_id_def dest!: one_of_three [OF get_input_peer_def [symmetric, THEN trans]])

lemma get_peer_by_id_named:
  assumes "get_peer_by_id i rows = Inr p"
  shows "get_peer_id p = Inr i"
proof -
  obtain r where r: "find (\<lambda>r. p_id r = i) rows = Some r" "get_input_peer (p_id r) (p_access_hash r) (p_type r) = Inr p"
    using assms by (auto simp: get_peer_by_id_def split: option.splits)
  then have "p_id r = i"
    by (auto simp: find_Some_iff)
  then show ?thesis
    using get_input_peer_id r(2) by metis
qed

lemma found_or_simps [simp]:
  "found_or (Inr p) s alt = (Inr (Resolved p), [], s)"
  "found_or (Inl (KeyError k)) s alt = alt"
  by (simp_all add: found_or_def)

lemma found_or_other: "\<nexists>k. e = KeyError k \<Longrightarrow> found_or (Inl e) s alt = (Inl (PyError e), [], s)"
  by (cases e) (simp_all add: found_or_def)

lemma found_or_cases:
  assumes "found_or r s alt = (x, qs, s')"
  obtains (found) p where "r = Inr p" "x = Inr (Resolved p)" "qs = []" "s' = s"
    | (error) e where "r = Inl e" "\<nexists>k. e = KeyError k" "x = Inl (PyError e)" "qs = []" "s' = s"
    | (missing) k where "r = Inl (KeyError k)" "alt = (x, qs, s')"
proof (cases r)
  case (Inl e)
  show thesis
  proof (cases "\<exists>k. e = KeyError k")
    case True
    then show thesis
      using Inl assms missing by auto
  next
    case False
    then show thesis
      using Inl assms error found_or_other [OF False] by simp
  qed
qed (use assms found in simp)

lemma found_simps [simp]:
  "found m (Inr p) = Inr (Resolved p)"
  "found m (Inl (KeyError k)) = Inl (m (KeyError k))"
  by (simp_all add: found_def)

lemma found_Resolved [simp]: "found m r = Inr y \<longleftrightarrow> (\<exists>p. r = Inr p \<and> y = Resolved p)"
  by (auto simp: found_def split: sum.splits py_error.splits)

lemma fetch_peers_rows [simp]: "peer_rows (snd (fetch_peers now es s)) = update_peers now (parsed_peers es) (peer_rows s)"
  by (simp add: fetch_peers_def)

lemma parsed_peers_Nil: "parsed_peers [] = []"
  by (simp add: parsed_peers_def parsed_entries_def map_filter_def)

lemma update_peers_twice: "update_peers now ys (update_peers now xs rows) = update_peers now (xs @ ys) rows"
  by (simp add: update_peers_def)

text \<open>What an answer stores, over all that the code fetches of it.\<close>

definition answer_entities :: "string \<Rightarrow> value_part reply \<Rightarrow> raw_entity list" where
  "answer_entities ty r = r_users r @ r_chats r @ (case r_value r of Users us \<Rightarrow> if ty = ''user'' then us else [] | _ \<Rightarrow> [])"

definition sent :: "resolve_env \<Rightarrow> request \<Rightarrow> request query" where
  "sent env q = wrap_query (env_options env) q"

lemma resolve_id_cases:
  assumes "resolve_id env i s = (x, qs, s')" "is_connected (env_options env)"
  obtains (stored) p where "get_peer_by_id i (peer_rows s) = Inr p" "x = Inr (Resolved p)" "qs = []" "s' = s"
    | (failed) e where "x = Inl (PyError e)" "qs = []" "s' = s"
    | (refused) k ty e where "get_peer_by_id i (peer_rows s) = Inl (KeyError k)" "get_peer_type i = Inr ty"
        "env_server env (sent env (request_for ty i)) = Inl e" "x = Inl e" "qs = [sent env (request_for ty i)]" "s' = s"
    | (answered) k ty r where "get_peer_by_id i (peer_rows s) = Inl (KeyError k)" "get_peer_type i = Inr ty"
        "env_server env (sent env (request_for ty i)) = Inr r" "qs = [sent env (request_for ty i)]"
        "peer_rows s' = update_peers \<lfloor>env_clock env\<rfloor> (parsed_peers (answer_entities ty r)) (peer_rows s)"
        "x = found (\<lambda>_. PeerIdInvalid) (get_peer_by_id i (peer_rows s'))"
  using assms(1) unfolding resolve_id_def
proof (cases rule: found_or_cases)
  case (found p)
  then show ?thesis
    using stored by simp
next
  case (error e)
  then show ?thesis
    using failed by simp
next
  case (missing k)
  show ?thesis
  proof (cases "get_peer_type i")
    case (Inl e)
    then show ?thesis
      using missing(2) failed [of e] by auto
  next
    case (Inr ty)
    have asked: "ask env (request_for ty i) s = (case env_server env (sent env (request_for ty i)) of
        Inl e \<Rightarrow> (Inl e, [sent env (request_for ty i)], s)
      | Inr r \<Rightarrow> (Inr (r_value r), [sent env (request_for ty i)],
          snd (fetch_peers \<lfloor>env_clock env\<rfloor> (r_chats r) (snd (fetch_peers \<lfloor>env_clock env\<rfloor> (r_users r) s)))))"
      using assms(2) by (simp add: ask_def client_invoke_def sent_def Let_def split: sum.splits)
    show ?thesis
    proof (cases "env_server env (sent env (request_for ty i))")
      case (Inl e)
      then have "x = Inl e" "qs = [sent env (request_for ty i)]" "s' = s"
        using missing(2) by (simp_all add: \<open>get_peer_type i = Inr ty\<close> asked)
      then show ?thesis
        by (rule refused [OF missing(1) Inr Inl])
    next
      case (Inr r)
      let ?s = "snd (fetch_peers \<lfloor>env_clock env\<rfloor> (r_chats r) (snd (fetch_peers \<lfloor>env_clock env\<rfloor> (r_users r) s)))"
      let ?s2 = "fetch_users env ty (r_value r) ?s"
      have asked2: "ask env (request_for ty i) s = (Inr (r_value r), [sent env (request_for ty i)], ?s)"
        using asked Inr by simp
      have rows: "peer_rows ?s2 = update_peers \<lfloor>env_clock env\<rfloor> (parsed_peers (answer_entities ty r)) (peer_rows s)"
        by (simp add: fetch_users_def answer_entities_def update_peers_twice parsed_peers_append parsed_peers_Nil
            split: value_part.splits)
      have "(found (\<lambda>_. PeerIdInvalid) (get_peer_by_id i (peer_rows ?s2)), [sent env (request_for ty i)], ?s2) = (x, qs, s')"
        using missing(2) by (simp only: asked2 \<open>get_peer_type i = Inr ty\<close> sum.case prod.case Let_def)
      then show ?thesis
        using answered [OF missing(1) \<open>get_peer_type i = Inr ty\<close> Inr] rows by auto
    qed
  qed
qed

text \<open>The request by the range of the identifier, with its number written out.\<close>

lemma request_for_kind:
  assumes "get_peer_type i = Inr ty"
  shows "(ty = ''user'' \<longleftrightarrow> 0 < i) \<and> request_for ty i =
    (if 0 < i then GetUsers (Some i) else if - 999999999999 \<le> i then GetChats (Some (- i))
     else GetChannels (Some (- 1000000000000 - i)))"
  using assms by (auto simp: request_for_def get_peer_type_def peer_limits split: if_splits)

lemma answer_entities_user: "(ty = ''user'' \<longleftrightarrow> ty' = ''user'') \<Longrightarrow> answer_entities ty r = answer_entities ty' r"
  by (simp add: answer_entities_def split: value_part.split)

text \<open>C15: Resolving an identifier gives its own peer, at most one request later. A peer that is
  returned carries the identifier asked for. One that the tables have is returned as stored, and
  nothing is sent; otherwise the one request is that of the range of the identifier, wrapped as every request of the client:
  for a user with the identifier itself, for a basic group with its negative, and for anything
  below that among the channels, with what it lies below minus a million million. When the answer carries the entity, not `min`, the peer has the kind and the access hash of the
  last such entity; when the tables have no row afterwards the error is PeerIdInvalid. And
  resolving again at once gives the same peer without a request.\<close>

theorem resolve_peer_identifier:
  assumes "is_connected (env_options env)" and "peer_table (peer_rows s)"
    and "resolve_peer env (IntArg i) s = (x, qs, s')"
  shows "(\<forall>p. x = Inr (Resolved p) \<longrightarrow> get_peer_id p = Inr i \<and>
      resolve_peer env (IntArg i) s' = (x, [], s')) \<and>
    (\<forall>p. get_peer_by_id i (peer_rows s) = Inr p \<longrightarrow> x = Inr (Resolved p) \<and> qs = [] \<and> s' = s) \<and>
    (qs = [] \<and> s' = s \<or> (\<exists>q. qs = [sent env q] \<and>
      q = (if 0 < i then GetUsers (Some i) else if - 999999999999 \<le> i then GetChats (Some (- i))
           else GetChannels (Some (- 1000000000000 - i))) \<and>
      (\<forall>e. env_server env (sent env q) = Inl e \<longrightarrow> x = Inl e \<and> s' = s) \<and>
      (\<forall>r. env_server env (sent env q) = Inr r \<longrightarrow>
        (\<forall>xs e ys. answer_entities (if 0 < i then ''user'' else '''') r = xs @ e # ys \<and> \<not> entity_min e \<and> marked_id e = Some i \<and>
          (\<forall>f \<in> set ys. \<not> entity_min f \<longrightarrow> marked_id f \<noteq> Some i) \<longrightarrow> x = Inr (Resolved (the (input_peer_of e)))) \<and>
        (find (\<lambda>row. p_id row = i) (peer_rows s') = None \<longrightarrow> x = Inl PeerIdInvalid))))"
proof -
  have r: "resolve_id env i s = (x, qs, s')"
    using assms(1,3) by (simp add: resolve_peer_def)
  have again: "resolve_peer env (IntArg i) s' = (Inr (Resolved p), [], s')" if "get_peer_by_id i (peer_rows s') = Inr p" for p
    using assms(1) that by (simp add: resolve_peer_def resolve_id_def found_or_def)
  define Q where "Q = (if 0 < i then GetUsers (Some i) else if - 999999999999 \<le> i then GetChats (Some (- i))
      else GetChannels (Some (- 1000000000000 - i)))"
  from r assms(1) show ?thesis
  proof (cases rule: resolve_id_cases)
    case (stored p)
    then show ?thesis
      using again [of p] get_peer_by_id_named [of i "peer_rows s" p] by auto
  next
    case (failed e)
    then show ?thesis
      using r by (auto simp: resolve_id_def found_or_def)
  next
    case (refused k ty e)
    then show ?thesis
      using request_for_kind [OF refused(2), folded Q_def] unfolding Q_def [symmetric] by (intro conjI disjI2 exI [of _ Q]) simp_all
  next
    case (answered k ty r)
    note kind = request_for_kind [OF answered(2), folded Q_def]
    have entities: "answer_entities ty r = answer_entities (if 0 < i then ''user'' else '''') r"
      using kind by (intro answer_entities_user) auto
    have last: "x = Inr (Resolved (the (input_peer_of e)))"
      if "answer_entities ty r = xs @ e # ys" "\<not> entity_min e" "marked_id e = Some i"
        "\<forall>f \<in> set ys. \<not> entity_min f \<longrightarrow> marked_id f \<noteq> Some i" for xs e ys
      using stored_entity_resolves [OF assms(2) that(1,3,2,4)] answered(5,6) by simp
    have missing: "x = Inl PeerIdInvalid" if "find (\<lambda>row. p_id row = i) (peer_rows s') = None"
      using that answered(6) by (simp add: get_peer_by_id_def)
    have "get_peer_id p = Inr i \<and> resolve_peer env (IntArg i) s' = (x, [], s')" if "x = Inr (Resolved p)" for p
    proof -
      have "get_peer_by_id i (peer_rows s') = Inr p"
        using that answered(6) by simp
      then show ?thesis
        using again get_peer_by_id_named that by blast
    qed
    then show ?thesis
      using answered(1-4) last missing kind [THEN conjunct2]
      unfolding entities Q_def [symmetric] by (intro conjI disjI2 exI [of _ Q]) auto
  qed
qed


text \<open>A user that only the server knows.\<close>

definition lone_env :: resolve_env where
  "lone_env = \<lparr>env_clock = 0, env_options = \<lparr>is_connected = True, no_updates = True, takeout_id = None,
      recaptcha_token = None, business_connection_id = None\<rparr>,
    env_server = (\<lambda>q. case q of
        InvokeWithoutUpdates (Bare (GetUsers (Some i))) \<Rightarrow>
          Inr \<lparr>r_users = [], r_chats = [], r_value = Users [sample_user False 5]\<rparr>
      | _ \<Rightarrow> Inl (RpcError ''''))\<rparr>"

theorem resolve_peer_identifier_witness:
  "\<exists>s'. resolve_peer lone_env (IntArg 42) sample_state =
      (Inr (Resolved (InputPeerUser 42 5)), [InvokeWithoutUpdates (Bare (GetUsers (Some 42)))], s') \<and>
    resolve_peer lone_env (IntArg 42) s' = (Inr (Resolved (InputPeerUser 42 5)), [], s') \<and>
    get_peer_id (InputPeerUser 42 5) = Inr 42"
proof -
  obtain x qs s' where r: "resolve_peer lone_env (IntArg 42) sample_state = (x, qs, s')"
    by (metis prod_cases3)
  have "x = Inr (Resolved (InputPeerUser 42 5))" "qs = [InvokeWithoutUpdates (Bare (GetUsers (Some 42)))]"
    using r by (auto simp: resolve_peer_def resolve_id_def lone_env_def sample_state_def get_peer_by_id_def
        get_peer_type_def peer_limits request_for_def ask_def client_invoke_def wrap_query_def fetch_users_def
        fetch_peers_def sample_user_def parsed_peers_def parsed_entries_def map_filter_def update_peers_def
        replace_peer_def get_input_peer_def)
  moreover have "is_connected (env_options lone_env)" "peer_table (peer_rows sample_state)"
    by (simp_all add: lone_env_def sample_state_def peer_table_def)
  note resolve_peer_identifier [OF this r, THEN conjunct1, rule_format, OF calculation(1)]
  ultimately show ?thesis
    using r by auto
qed


section \<open>The forms of a name\<close>

lemma drop_prefix_append [simp]: "drop_prefix p (p @ s) = Some s"
  by (induction p) auto

definition link_bases :: "string list" where
  "link_bases = concat (map (\<lambda>scheme. concat (map (\<lambda>www. map (\<lambda>domain. scheme @ www @ domain)
     [''t.me/'', ''t.org/'', ''t.dog/'', ''telegram.me/'', ''telegram.org/'', ''telegram.dog/''])
     ['''', ''www.''])) ['''', ''http://'', ''https://''])"

text \<open>A name as the server gives them: small letters, digits and underscores, the first a letter.\<close>

definition user_name :: "string \<Rightarrow> bool" where
  "user_name n = (n \<noteq> [] \<and> 97 \<le> (of_char (hd n) :: nat) \<and> (of_char (hd n) :: nat) \<le> 122 \<and>
     list_all (\<lambda>c. is_dec c \<or> 97 \<le> (of_char c :: nat) \<and> (of_char c :: nat) \<le> 122 \<or> c = CHR ''_'') n)"

lemma link_base_matches: "base \<in> set link_bases \<Longrightarrow> match_link (base @ s) =
    (case drop_prefix ''c/'' s of None \<Rightarrow> link_tail s
     | Some r \<Rightarrow> (case link_tail r of Some name \<Rightarrow> Some name | None \<Rightarrow> link_tail s))"
  by (auto simp: link_bases_def match_link_def drop_scheme_def drop_optional_def drop_domain_def)


lemma drop_prefix_Some: "drop_prefix p s = Some r \<Longrightarrow> s = p @ r"
  by (induction p s rule: drop_prefix.induct) (auto split: if_splits)

lemma drop_prefix_None: "c \<in> set p \<Longrightarrow> c \<notin> set s \<Longrightarrow> drop_prefix p s = None"
  by (cases "drop_prefix p s") (auto dest: drop_prefix_Some)

definition name_char :: "char \<Rightarrow> bool" where
  "name_char c = (is_dec c \<or> 97 \<le> (of_char c :: nat) \<and> (of_char c :: nat) \<le> 122 \<or> c = CHR ''_'')"

lemma name_char_facts:
  assumes "name_char c"
  shows "is_word c" "c \<noteq> CHR ''/''" "c \<noteq> CHR ''.''" "c \<notin> set ''@+''" "\<not> is_space c"
    "(if 65 \<le> (of_char c :: nat) \<and> (of_char c :: nat) \<le> 90 then char_of (of_char c + 32 :: nat) else c) = c"
  using assms by (auto simp: name_char_def is_word_def is_dec_def is_space_def)

lemma user_name_chars: "user_name n \<Longrightarrow> c \<in> set n \<Longrightarrow> name_char c"
  by (auto simp: user_name_def list_all_iff name_char_def)

lemma str_lower_append: "str_lower (xs @ ys) = str_lower xs @ str_lower ys"
  by (simp add: str_lower_def)

lemma str_lower_name: "(\<And>c. c \<in> set n \<Longrightarrow> name_char c) \<Longrightarrow> str_lower n = n"
  by (induction n) (auto simp: str_lower_def name_char_facts(6))

lemma link_base_facts: "base \<in> set link_bases \<Longrightarrow> str_lower base = base \<and> CHR ''t'' \<in> set base \<and> CHR ''/'' \<in> set base"
  by (auto simp: link_bases_def str_lower_def)

lemma letter_not_phone: "c \<in> set t \<Longrightarrow> 97 \<le> (of_char c :: nat) \<Longrightarrow> (of_char c :: nat) \<le> 122 \<Longrightarrow> \<not> isdigit (strip_phone t)"
  by (auto simp: isdigit_def strip_phone_def list_all_iff is_dec_def is_space_def intro!: bexI [of _ c])

lemma link_tail_word: "n \<noteq> [] \<Longrightarrow> (\<And>c. c \<in> set n \<Longrightarrow> is_word c) \<Longrightarrow> rest = [] \<or> \<not> is_word (hd rest) \<Longrightarrow>
    CHR 0x0A \<notin> set rest \<Longrightarrow> link_tail (n @ rest) = Some n"
  using takeWhile_append2 [of n is_word rest] dropWhile_append2 [of n is_word rest]
  by (cases rest) (auto simp: link_tail_def Let_def takeWhile_eq_all_conv [THEN iffD2] dropWhile_eq_Nil_conv [THEN iffD2] dest: in_set_butlastD)

lemma drop_optional_set: "set (drop_optional p s) \<subseteq> set s"
  by (auto simp: drop_optional_def split: option.splits dest: drop_prefix_Some)

lemma no_dot_no_link:
  assumes "CHR ''/'' \<notin> set n" "CHR ''.'' \<notin> set n"
  shows "match_link n = None"
proof -
  have "drop_scheme n = n" "drop_optional ''www.'' n = n"
    using drop_prefix_None [OF _ assms(1), of "''https://''"] drop_prefix_None [OF _ assms(1), of "''http://''"]
      drop_prefix_None [OF _ assms(2), of "''www.''"] by (simp_all add: drop_scheme_def drop_optional_def)
  moreover have "drop_domain n = None"
  proof (cases "drop_prefix ''t'' n")
    case (Some m)
    then have "CHR ''.'' \<notin> set (drop_optional ''elegram'' m)"
      using assms(2) drop_prefix_Some [OF Some] drop_optional_set [of "''elegram''" m] by auto
    then show ?thesis
      using Some drop_prefix_None [of "CHR ''.''" "''.''"] by (simp add: drop_domain_def)
  qed (simp add: drop_domain_def)
  ultimately show ?thesis
    by (simp add: match_link_def)
qed

lemma nat_dec_is_dec: "c \<in> set (nat_dec k) \<Longrightarrow> is_dec c"
  using nat_dec_digits [of c k] by (simp add: is_dec_def)

lemma digit_groups_digits: "(\<And>c. c \<in> set ds \<Longrightarrow> is_dec c) \<Longrightarrow> digit_groups b ds = (b \<or> ds \<noteq> [])"
  by (induction ds arbitrary: b) auto

lemma int_of_nat_dec: "int_of_name (nat_dec k) = Inr (int k)"
  using nat_dec_not_Nil [of k] nat_dec_is_dec [of _ k] by (simp add: int_of_name_def digit_groups_digits filter_True)

lemma no_slash: "CHR ''/'' \<notin> set ''self''" "CHR ''/'' \<notin> set ''me''" "CHR ''/'' \<notin> set ''empty''"
  by simp_all

text \<open>All forms of a name mean the same peer. A user name, the name after an at sign, and each
  link to it (three domains, two spellings of the host, with or without the scheme and www) resolve
  alike: the same result, requests and rows. And a link to a message of a private
  channel resolves to the channel of its number, from the tables alone.\<close>

theorem resolve_peer_forms:
  assumes "user_name n" and "n \<notin> {''self'', ''me'', ''empty''}" and "base \<in> set link_bases"
    and "is_connected (env_options env)"
  shows "resolve_peer env (StrArg (base @ n)) s = resolve_peer env (StrArg n) s \<and>
    resolve_peer env (StrArg (CHR ''@'' # n)) s = resolve_peer env (StrArg n) s \<and>
    (\<forall>k t. t = [] \<or> hd t = CHR ''/'' \<and> str_lower t = t \<and> CHR 0x0A \<notin> set t \<longrightarrow>
      resolve_peer env (StrArg (base @ ''c/'' @ nat_dec k @ t)) s =
        (found (\<lambda>_. PeerIdInvalid) (get_peer_by_id (get_channel_id (int k)) (peer_rows s)), [], s))"
proof -
  note chars = user_name_chars [OF assms(1)]
  have hd: "n \<noteq> []" "97 \<le> (of_char (hd n) :: nat)" "(of_char (hd n) :: nat) \<le> 122"
    using assms(1) by (simp_all add: user_name_def)
  have absent: "CHR ''/'' \<notin> set n" "CHR ''.'' \<notin> set n" "CHR ''@'' \<notin> set n"
    using chars name_char_facts(2,3,4) by force+
  have not_phone: "\<not> isdigit (strip_phone t)" if "set n \<subseteq> set t" for t
    by (rule letter_not_phone [of "hd n"]) (use hd that hd_in_set [OF hd(1)] in auto)
  have lower: "str_lower n = n"
    by (rule str_lower_name) (rule chars)
  have not_int: "int_of_name n = Inl ValueError"
    using hd by (cases n) (auto simp: int_of_name_def is_dec_def)
  have strip: "strip_username n = n" "strip_username (CHR ''@'' # n) = n"
    using chars name_char_facts(4,5) by (auto simp: strip_username_def intro!: filter_True)
  have no_link: "match_link n = None"
    by (rule no_dot_no_link) (use absent in auto)
  have plain: "resolve_peer env (StrArg n) s = resolve_username env n s"
    using assms(2,4) not_phone [of n] by (simp add: resolve_peer_def resolve_text_def lower no_link strip)
  moreover have "resolve_peer env (StrArg (CHR ''@'' # n)) s = resolve_username env n s"
  proof -
    have "str_lower (CHR ''@'' # n) = CHR ''@'' # n"
      using lower by (simp add: str_lower_def)
    moreover have "match_link (CHR ''@'' # n) = None"
      by (rule no_dot_no_link) (use absent in auto)
    moreover have "\<not> isdigit (strip_phone (CHR ''@'' # n))"
      by (rule not_phone) auto
    ultimately show ?thesis
      using assms(4) by (simp add: resolve_peer_def resolve_text_def strip)
  qed
  moreover have "resolve_peer env (StrArg (base @ n)) s = resolve_username env n s"
  proof -
    have "str_lower (base @ n) = base @ n"
      using lower link_base_facts [OF assms(3)] by (simp add: str_lower_append)
    moreover have "match_link (base @ n) = Some n"
      using link_tail_word [of n "[]"] hd(1) chars name_char_facts(1) absent
        drop_prefix_None [of "CHR ''/''" "''c/''" n] by (simp add: link_base_matches [OF assms(3)])
    moreover have "base @ n \<notin> {''self'', ''me'', ''empty''}"
      using link_base_facts [OF assms(3)] no_slash by (metis (no_types, lifting) UnI1 empty_iff insertE set_append)
    ultimately show ?thesis
      using assms(4) not_phone [of "base @ n"] not_int by (simp add: resolve_peer_def resolve_text_def)
  qed
  moreover have "resolve_peer env (StrArg (base @ ''c/'' @ nat_dec k @ t)) s =
        (found (\<lambda>_. PeerIdInvalid) (get_peer_by_id (get_channel_id (int k)) (peer_rows s)), [], s)"
    if "t = [] \<or> hd t = CHR ''/'' \<and> str_lower t = t \<and> CHR 0x0A \<notin> set t" for k t
  proof -
    let ?x = "base @ ''c/'' @ nat_dec k @ t"
    have digit: "name_char c" if "c \<in> set (nat_dec k)" for c
      using nat_dec_is_dec [OF that] by (simp add: name_char_def)
    have "str_lower ?x = ?x"
      using that link_base_facts [OF assms(3)] str_lower_name [OF digit]
      by (auto simp: str_lower_append) (simp_all add: str_lower_def)
    moreover have "match_link ?x = Some (nat_dec k)"
    proof -
      have "link_tail (nat_dec k @ t) = Some (nat_dec k)"
        by (rule link_tail_word) (use that nat_dec_not_Nil digit name_char_facts(1) in \<open>auto simp: is_word_def is_dec_def\<close>)
      then show ?thesis
        using link_base_matches [OF assms(3), of "''c/'' @ nat_dec k @ t"] by simp
    qed
    moreover have "CHR ''/'' \<in> set ?x" "CHR ''t'' \<in> set ?x"
      using link_base_facts [OF assms(3)] by auto
    moreover have "?x \<notin> {''self'', ''me'', ''empty''}"
      using calculation(3) by (metis (no_types, lifting) insertE empty_iff no_slash)
    moreover have "\<not> isdigit (strip_phone ?x)"
      by (rule letter_not_phone [of "CHR ''t''"]) (use calculation(4) in auto)
    ultimately show ?thesis
      using assms(4) by (simp add: resolve_peer_def resolve_text_def int_of_nat_dec)
  qed
  ultimately show ?thesis
    by simp
qed


theorem resolve_peer_forms_witness:
  "resolve_peer lone_env (StrArg ''https://www.telegram.me/durov'') sample_state = resolve_peer lone_env (StrArg ''durov'') sample_state \<and>
    resolve_peer lone_env (StrArg ''@durov'') sample_state = resolve_peer lone_env (StrArg ''durov'') sample_state \<and>
    resolve_peer lone_env (StrArg ''https://www.telegram.me/c/12/345'') sample_state = (Inl PeerIdInvalid, [], sample_state)"
proof -
  have n: "user_name ''durov''" "''durov'' \<notin> {''self'', ''me'', ''empty''}"
    by (simp_all add: user_name_def)
  have base: "''https://www.telegram.me/'' \<in> set link_bases"
    by (simp add: link_bases_def)
  have on: "is_connected (env_options lone_env)"
    by (simp add: lone_env_def)
  note forms = resolve_peer_forms [OF n base on, of sample_state]
  have "nat_dec 12 = ''12''"
    by (simp add: nat_dec.simps char_of_def bit_simps)
  then show ?thesis
    using forms [THEN conjunct1] forms [THEN conjunct2, THEN conjunct1]
      forms [THEN conjunct2, THEN conjunct2, rule_format, of "''/345''" 12]
    by (simp add: str_lower_def get_peer_by_id_def sample_state_def)
qed

end
