(* ===== verification/Client_Dc.thy ===== *)
theory Client_Dc
  imports Storage
begin

text \<open>
  How the client finds and keeps the addresses and sessions of its data centres (\<open>client.py\<close>):
  \<open>get_dc_option\<close>, \<open>set_dc\<close>, \<open>_get_upload_fallback_session\<close> and \<open>get_session\<close>. A
  session is what the client sees of it: its number, its endpoint and its list of fallbacks. The
  answers of the server, the probes, the file of the endpoint cache and the success of a connection
  are parameters; what other tasks do to the client while \<open>get_session\<close> waits is an
  arbitrary change of its state.
\<close>

section \<open>Choosing an option\<close>

datatype dc_error = DcPy py_error | AuthBytesInvalid | SessionCleanupError | DcRpc string

type_synonym 'a dc_res = "dc_error + 'a"

definition lift_py :: "'a res \<Rightarrow> 'a dc_res" where
  "lift_py r = (case r of Inl e \<Rightarrow> Inl (DcPy e) | Inr x \<Rightarrow> Inr x)"

lemma lift_py_simps [simp]: "lift_py (Inr x) = Inr x" "lift_py (Inl e) = Inl (DcPy e)"
  by (simp_all add: lift_py_def)

record dc_config =
  cf_this_dc :: int
  cf_test_mode :: bool
  cf_options :: "dc_option list"

text \<open>Sessions are objects: the client holds their numbers, and the store what they are.\<close>

record dc_session =
  ds_endpoint :: endpoint
  ds_fallback :: "endpoint list"
  ds_key :: bytes

record dc_env =
  de_proxy :: bool
  de_ipv6 :: bool
  de_config :: "dc_config dc_res"
  de_probe :: probe
  de_cache :: "(string \<times> json) list res"

record dc_client =
  dc_row :: session_row
  dc_main :: "nat option"
  dc_store :: "nat \<Rightarrow> dc_session"
  dc_next :: nat
  dc_config :: "dc_config option"
  dc_sessions :: "int \<Rightarrow> nat option"
  dc_media :: "int \<Rightarrow> nat option"
  dc_business :: "string \<Rightarrow> int option"
  dc_cache_calls :: "(string option \<times> endpoint) list"

definition py_true :: "int option \<Rightarrow> bool" where
  "py_true v = (case v of None \<Rightarrow> False | Some i \<Rightarrow> i \<noteq> 0)"

definition test_mode :: "dc_client \<Rightarrow> bool" where
  "test_mode c = py_true (ses_test_mode (dc_row c))"

definition main_endpoint :: "dc_client \<Rightarrow> endpoint option dc_res" where
  "main_endpoint c = (case dc_main c of None \<Rightarrow> Inl (DcPy AttributeError) | Some n \<Rightarrow> Inr (Some (ds_endpoint (dc_store c n))))"

definition get_dc_option :: "dc_env \<Rightarrow> int option \<Rightarrow> bool \<Rightarrow> bool \<Rightarrow> bool \<Rightarrow> dc_client \<Rightarrow> dc_option dc_res \<times> dc_client" where
  "get_dc_option env dc media cdn ipv6 c =
    (case de_config env of
       Inl e \<Rightarrow> (Inl e, c)
     | Inr config \<Rightarrow>
         (let dc_id = (case dc of None \<Rightarrow> cf_this_dc config | Some i \<Rightarrow> i);
              options = filter (\<lambda>o1. opt_id o1 = dc_id \<and> opt_ipv6 o1 = ipv6) (cf_options config);
              cdn_options = filter opt_cdn options;
              is_media = (media \<or> cdn);
              media_options = filter opt_media_only options;
              prod_options = filter (\<lambda>o1. \<not> opt_media_only o1) options
          in (if options = [] then Inl (DcPy ValueError)
              else if cdn \<and> cdn_options \<noteq> [] then Inr (hd cdn_options)
              else if is_media \<and> media_options \<noteq> []
                then lift_py (select_dc_option (de_probe env) (dedupe_dc_options media_options) (de_proxy env) None)
              else if prod_options \<noteq> [] then
                (if \<not> is_media \<and> \<not> cdn \<and> \<not> test_mode c \<and> \<not> ipv6
                 then bind_res (if ses_dc_id (dc_row c) = Some dc_id then main_endpoint c else Inr None) (\<lambda>preferred.
                   bind_res (lift_py (static_dc_options dc_id)) (\<lambda>static.
                     lift_py (select_dc_option (de_probe env) (dedupe_dc_options (prod_options @ static)) (de_proxy env) preferred)))
                 else lift_py (select_dc_option (de_probe env) (dedupe_dc_options prod_options) (de_proxy env) None))
              else Inl (DcPy ValueError), c\<lparr>dc_config := Some config\<rparr>)))"

text \<open>The endpoint for the fallback session of an upload, if the server advertises another one.\<close>

definition upload_fallback_option :: "dc_env \<Rightarrow> int \<Rightarrow> endpoint \<Rightarrow> dc_client \<Rightarrow> endpoint option dc_res" where
  "upload_fallback_option env dc failed c =
    (case de_config env of
       Inl e \<Rightarrow> Inl e
     | Inr config \<Rightarrow> Inr
         (if cf_test_mode config \<noteq> test_mode c then None
          else map_option dc_option_endpoint (find (\<lambda>o1. opt_id o1 = dc \<and> opt_ipv6 o1 = de_ipv6 env \<and> \<not> opt_cdn o1 \<and>
            \<not> opt_media_only o1 \<and> dc_option_endpoint o1 \<noteq> failed) (cf_options config))))"


section \<open>Setting the data centre\<close>

text \<open>What \<open>restart\<close> does to the endpoints of a session: it tries the fallbacks in turn, keeps
  the one that connects and puts it first. \<open>reach\<close> says how each attempt ends: connected, with an error that
  goes on to the next endpoint, or with one that leaves the session at once (\<open>AuthKeyDuplicated\<close>,
  \<open>Unauthorized\<close>, and whatever is no network error). Without a fallback nothing is tried.\<close>

datatype connect_end = Connects | Unreachable | EndsAtOnce dc_error

fun try_endpoints :: "(nat \<Rightarrow> endpoint \<Rightarrow> connect_end) \<Rightarrow> nat \<Rightarrow> endpoint list \<Rightarrow> endpoint \<Rightarrow> dc_error option \<times> endpoint" where
  "try_endpoints reach i [] current = (Some (DcPy ConnectionError), current)"
| "try_endpoints reach i (ep # eps) current =
    (case reach i ep of
       Connects \<Rightarrow> (None, ep)
     | EndsAtOnce e \<Rightarrow> (Some e, ep)
     | Unreachable \<Rightarrow> try_endpoints reach (i + 1) eps ep)"

definition session_restart :: "(nat \<Rightarrow> endpoint \<Rightarrow> connect_end) \<Rightarrow> dc_session \<Rightarrow> dc_error option \<times> dc_session" where
  "session_restart reach ds =
    (case try_endpoints reach 0 (ds_fallback ds) (ds_endpoint ds) of
       (None, ep) \<Rightarrow> (None, ds\<lparr>ds_endpoint := ep, ds_fallback := dedup (ep # ds_fallback ds)\<rparr>)
     | (Some e, ep) \<Rightarrow> (Some e, ds\<lparr>ds_endpoint := ep\<rparr>))"

definition set_row :: "int \<Rightarrow> endpoint \<Rightarrow> dc_client \<Rightarrow> dc_client" where
  "set_row dc ep c = c\<lparr>dc_row := (dc_row c)\<lparr>ses_dc_id := Some dc, ses_server_address := Some (fst ep),
     ses_port := Some (snd ep)\<rparr>\<rparr>"

definition cache_call :: "string option \<Rightarrow> endpoint \<Rightarrow> dc_client \<Rightarrow> dc_client" where
  "cache_call key ep c = c\<lparr>dc_cache_calls := dc_cache_calls c @ [(key, ep)]\<rparr>"

text \<open>The configuration is asked for once.\<close>

definition known_config :: "dc_env \<Rightarrow> dc_client \<Rightarrow> dc_config dc_res \<times> dc_client" where
  "known_config env c =
    (case dc_config c of
       Some config \<Rightarrow> (Inr config, c)
     | None \<Rightarrow> (case de_config env of
         Inl e \<Rightarrow> (Inl e, c)
       | Inr config \<Rightarrow> (Inr config, c\<lparr>dc_config := Some config\<rparr>)))"

definition chosen_endpoint :: "dc_env \<Rightarrow> int \<Rightarrow> string option \<Rightarrow> int option \<Rightarrow> dc_client \<Rightarrow> endpoint dc_res \<times> dc_client" where
  "chosen_endpoint env dc address port c =
    (let port = (if address \<noteq> None \<and> port = None then Some (if test_mode c then 80 else 443) else port) in
     case (address, port) of
       (Some a, Some p) \<Rightarrow> (Inr (a, p), c)
     | _ \<Rightarrow>
         (case get_dc_option env (Some dc) False False (de_ipv6 env) c of
            (Inl e, c1) \<Rightarrow> (Inl e, c1)
          | (Inr o1, c1) \<Rightarrow> (Inr (if truthy address then the address else opt_ip_address o1,
              if py_true port then the port else opt_port o1), c1)))"

definition new_fallbacks :: "dc_env \<Rightarrow> int \<Rightarrow> bool \<Rightarrow> bool \<Rightarrow> endpoint \<Rightarrow> endpoint list \<Rightarrow> endpoint list" where
  "new_fallbacks env dc explicit test ep old =
    (if explicit then [ep]
     else if \<not> test \<and> \<not> de_ipv6 env
       then dedup (ep # (case get_dc_endpoints dc False of Inl _ \<Rightarrow> [] | Inr eps \<Rightarrow> eps))
     else old)"

definition put_session :: "nat \<Rightarrow> dc_session \<Rightarrow> dc_client \<Rightarrow> dc_client" where
  "put_session n ds c = c\<lparr>dc_store := (dc_store c)(n := ds)\<rparr>"

definition set_dc ::
  "dc_env \<Rightarrow> (nat \<Rightarrow> endpoint \<Rightarrow> connect_end) \<Rightarrow> int option \<Rightarrow> string option \<Rightarrow> int option \<Rightarrow> dc_client \<Rightarrow>
    dc_error option \<times> dc_client" where
  "set_dc env reach dc address port c =
    (case known_config env c of
       (Inl e, c1) \<Rightarrow> (Some e, c1)
     | (Inr config, c1) \<Rightarrow>
         (let dc_id = (if py_true dc then the dc else cf_this_dc config);
              explicit = (address \<noteq> None \<or> port \<noteq> None);
              test = test_mode c1
          in case chosen_endpoint env dc_id address port c1 of
               (Inl e, c2) \<Rightarrow> (Some e, c2)
             | (Inr ep, c2) \<Rightarrow>
                 (let key = (if \<not> explicit \<and> \<not> test \<and> \<not> de_ipv6 env \<and> \<not> de_proxy env
                        then Some (endpoint_cache_key dc_id test (de_ipv6 env) False False) else None);
                      c3 = set_row dc_id ep c2
                  in case dc_main c3 of
                       None \<Rightarrow> (Some (DcPy AttributeError), c3)
                     | Some n \<Rightarrow>
                         (let ds = dc_store c3 n in
                          if ds_endpoint ds = ep then (None, cache_call key ep c3)
                          else case session_restart reach (ds\<lparr>ds_endpoint := ep,
                              ds_fallback := new_fallbacks env dc_id explicit test ep (ds_fallback ds)\<rparr>) of
                            (Some e, ds2) \<Rightarrow> (Some e, put_session n ds2 c3)
                          | (None, ds2) \<Rightarrow>
                              (None, cache_call key (ds_endpoint ds2) (set_row dc_id (ds_endpoint ds2) (put_session n ds2 c3)))))))"


section \<open>Getting a session\<close>

record session_args =
  ga_dc :: "int option"
  ga_media :: bool
  ga_cdn :: bool
  ga_business :: "string option"
  ga_export :: bool
  ga_address :: "string option"
  ga_port :: "int option"
  ga_temporary :: bool
  ga_order :: bool
  ga_upload_fallback :: bool

text \<open>What a call meets: the data centre of a business connection, the outcome of creating a key, what
  other tasks do before the session is created and after, the attempts of its start, the results of
  exporting and importing the authorisation, and whether stopping the session fails.\<close>

record session_env = dc_env +
  se_business :: "string \<Rightarrow> int dc_res"
  se_create_key :: "int \<Rightarrow> endpoint list \<Rightarrow> bytes dc_res"
  se_before :: "dc_client \<Rightarrow> dc_client"
  se_after :: "dc_client \<Rightarrow> dc_client"
  se_reach :: "nat \<Rightarrow> endpoint \<Rightarrow> connect_end"
  se_export :: "nat \<Rightarrow> dc_error option"
  se_import :: "nat \<Rightarrow> dc_error option"
  se_stop_fails :: bool

text \<open>What a call does to sessions: it starts one it has made, for media or not, takes the key of one, and stops one.\<close>

datatype session_event = Start bool nat | KeyFrom nat | StopSession nat

definition table_of :: "bool \<Rightarrow> dc_client \<Rightarrow> int \<Rightarrow> nat option" where
  "table_of media c = (if media then dc_media c else dc_sessions c)"

definition set_table :: "bool \<Rightarrow> int \<Rightarrow> nat option \<Rightarrow> dc_client \<Rightarrow> dc_client" where
  "set_table media dc v c =
    (if media then c\<lparr>dc_media := (dc_media c)(dc := v)\<rparr> else c\<lparr>dc_sessions := (dc_sessions c)(dc := v)\<rparr>)"

text \<open>The data centre meant, and the port of an explicit address.\<close>

definition session_dc :: "'a session_env_scheme \<Rightarrow> session_args \<Rightarrow> dc_client \<Rightarrow> int option dc_res \<times> dc_client" where
  "session_dc env a c =
    (if truthy (ga_business a) then
       (case dc_business c (the (ga_business a)) of
          Some d \<Rightarrow> (Inr (Some d), c)
        | None \<Rightarrow> (case se_business env (the (ga_business a)) of
            Inl e \<Rightarrow> (Inl e, c)
          | Inr d \<Rightarrow> (Inr (Some d), c\<lparr>dc_business := (dc_business c)(the (ga_business a) := Some d)\<rparr>)))
     else (Inr (if py_true (ga_dc a) then ga_dc a else ses_dc_id (dc_row c)), c))"

definition session_port :: "session_args \<Rightarrow> dc_client \<Rightarrow> int option" where
  "session_port a c =
    (if ga_address a \<noteq> None \<and> ga_port a = None then Some (if test_mode c then 80 else 443) else ga_port a)"

definition session_endpoint ::
  "dc_env \<Rightarrow> session_args \<Rightarrow> int option \<Rightarrow> dc_client \<Rightarrow> endpoint dc_res \<times> dc_client" where
  "session_endpoint env a dc c =
    (let port = session_port a c in
     if truthy (ga_address a) \<and> py_true port then (Inr (the (ga_address a), the port), c)
     else case get_dc_option env dc (ga_media a) (ga_cdn a) (de_ipv6 env) c of
       (Inl e, c1) \<Rightarrow> (Inl e, c1)
     | (Inr o1, c1) \<Rightarrow> (Inr (if truthy (ga_address a) then the (ga_address a) else opt_ip_address o1,
         if py_true port then the port else opt_port o1), c1))"

text \<open>The fallbacks, with the key under which the endpoint is remembered.\<close>

definition session_fallbacks ::
  "dc_env \<Rightarrow> session_args \<Rightarrow> int \<Rightarrow> endpoint \<Rightarrow> dc_client \<Rightarrow> (endpoint list option \<times> string option) dc_res" where
  "session_fallbacks env a dc ep c =
    (let explicit = (ga_address a \<noteq> None \<or> ga_port a \<noteq> None) in
     if \<not> ga_media a \<and> \<not> ga_cdn a \<and> \<not> de_ipv6 env \<and> \<not> test_mode c \<and> (\<not> explicit \<or> ga_order a) then
       (let table = (case get_dc_endpoints dc False of Inl _ \<Rightarrow> [] | Inr eps \<Rightarrow> eps);
            known = (ep \<in> set table);
            static = (if explicit \<and> \<not> known then [] else table);
            key = (if \<not> de_proxy env \<and> known then Some (endpoint_cache_key dc False False False False) else None);
            fallbacks = dedup (ep # static)
        in bind_res (lift_py (if known
             then order_dc_endpoints (de_cache env) (de_probe env) fallbacks (de_proxy env) (Some ep) key
             else reorder_with_cached_endpoint (de_cache env) None fallbacks)) (\<lambda>ordered. Inr (Some ordered, key)))
     else Inr (None, None))"

definition first_endpoint :: "endpoint list option \<Rightarrow> endpoint \<Rightarrow> endpoint" where
  "first_endpoint fallbacks ep = (case fallbacks of None \<Rightarrow> ep | Some eps \<Rightarrow> hd eps)"

fun export_authorization :: "(nat \<Rightarrow> dc_error option) \<Rightarrow> (nat \<Rightarrow> dc_error option) \<Rightarrow> nat \<Rightarrow> nat \<Rightarrow> dc_error option" where
  "export_authorization export imp k 0 = Some AuthBytesInvalid"
| "export_authorization export imp k (Suc left) =
    (case export k of
       Some e \<Rightarrow> Some e
     | None \<Rightarrow> (case imp k of
         None \<Rightarrow> None
       | Some AuthBytesInvalid \<Rightarrow> export_authorization export imp (k + 1) left
       | Some e \<Rightarrow> Some e))"

type_synonym session_result = "nat dc_res \<times> dc_client \<times> session_event list"

text \<open>The \<open>except\<close> block: the session leaves the table if it is still the one there, and is stopped.\<close>

definition abandon :: "'a session_env_scheme \<Rightarrow> session_args \<Rightarrow> int \<Rightarrow> nat \<Rightarrow> dc_error \<Rightarrow> dc_client \<Rightarrow> session_event list \<Rightarrow> session_result" where
  "abandon env a dc n e c trail =
    (Inl (if se_stop_fails env \<and> ga_upload_fallback a then SessionCleanupError else e),
     if \<not> ga_temporary a \<and> table_of (ga_media a) c dc = Some n then set_table (ga_media a) dc None c else c,
     trail @ [StopSession n])"

text \<open>From the creation of the session on.\<close>

definition open_session ::
  "'a session_env_scheme \<Rightarrow> session_args \<Rightarrow> int \<Rightarrow> bool \<Rightarrow> dc_session \<Rightarrow> string option \<Rightarrow> dc_client \<Rightarrow> session_result" where
  "open_session env a dc current ds key c =
    (let n = dc_next c;
         c1 = put_session n ds (c\<lparr>dc_next := n + 1\<rparr>);
         c2 = (if ga_temporary a then c1 else set_table (ga_media a) dc (Some n) c1)
     in case session_restart (se_reach env) ds of
          (Some e, ds2) \<Rightarrow> abandon env a dc n e (se_after env (put_session n ds2 c2)) [Start (ga_media a) n]
        | (None, ds2) \<Rightarrow>
            (let c3 = cache_call key (ds_endpoint ds2) (se_after env (put_session n ds2 c2));
                 c4 = (if ga_temporary a \<and> current \<and> \<not> ga_media a \<and> \<not> ga_cdn a
                       then c3\<lparr>dc_row := (dc_row c3)\<lparr>ses_server_address := Some (fst (ds_endpoint ds2)),
                         ses_port := Some (snd (ds_endpoint ds2))\<rparr>\<rparr> else c3)
             in if \<not> current \<and> ga_export a then
                  (case export_authorization (se_export env) (se_import env) 0 3 of
                     None \<Rightarrow> (Inr n, c4, [Start (ga_media a) n])
                   | Some e \<Rightarrow> abandon env a dc n e c4 [Start (ga_media a) n])
                else (Inr n, c4, [Start (ga_media a) n])))"

text \<open>\<open>key_of\<close> gets the session of the same data centre whose key a media session shares.\<close>

definition get_session_with ::
  "(int \<Rightarrow> dc_client \<Rightarrow> session_result) \<Rightarrow> 'a session_env_scheme \<Rightarrow> session_args \<Rightarrow> dc_client \<Rightarrow> session_result" where
  "get_session_with main_session env a c =
    (case session_dc env a c of
       (Inl e, c1) \<Rightarrow> (Inl e, c1, [])
     | (Inr None, c1) \<Rightarrow> (Inl (DcPy TypeError), c1, [])
     | (Inr (Some dc), c1) \<Rightarrow>
         (let current = (ses_dc_id (dc_row c1) = Some dc) in
          if \<not> ga_temporary a \<and> current \<and> \<not> ga_media a then
            (case dc_main c1 of None \<Rightarrow> (Inl (DcPy ConnectionError), c1, []) | Some n \<Rightarrow> (Inr n, c1, []))
          else case (if ga_temporary a then None else table_of (ga_media a) c1 dc) of
            Some n \<Rightarrow> (Inr n, c1, [])
          | None \<Rightarrow>
              (case session_endpoint (dc_env.truncate env) a (Some dc) c1 of
                 (Inl e, c2) \<Rightarrow> (Inl e, c2, [])
               | (Inr ep, c2) \<Rightarrow>
                   (case session_fallbacks (dc_env.truncate env) a dc ep c2 of
                      Inl e \<Rightarrow> (Inl e, c2, [])
                    | Inr (fallbacks, key) \<Rightarrow>
                        (let ep1 = first_endpoint fallbacks ep;
                             eps = dedup (ep1 # (case fallbacks of None \<Rightarrow> [] | Some fs \<Rightarrow> fs));
                             (auth_key, c3, trail) =
                               (if ga_media a then
                                  (case main_session dc c2 of
                                     (Inl e, c3, trail) \<Rightarrow> (Inl e, c3, trail)
                                   | (Inr m, c3, trail) \<Rightarrow> (Inr (ds_key (dc_store c3 m)), c3, trail @ [KeyFrom m]))
                                else if \<not> current then (se_create_key env dc eps, c2, [])
                                else (case ses_auth_key (dc_row c2) of None \<Rightarrow> (Inl (DcPy TypeError), c2, []) | Some k \<Rightarrow> (Inr k, c2, [])))
                         in case auth_key of
                              Inl e \<Rightarrow> (Inl e, c3, trail)
                            | Inr k \<Rightarrow>
                                (let c4 = se_before env c3 in
                                 case (if ga_temporary a then None else table_of (ga_media a) c4 dc) of
                                   Some n \<Rightarrow> (Inr n, c4, trail)
                                 | None \<Rightarrow>
                                     (case open_session env a dc current
                                         \<lparr>ds_endpoint = ep1, ds_fallback = eps, ds_key = k\<rparr> key c4 of
                                        (r, c5, trail2) \<Rightarrow> (r, c5, trail @ trail2))))))))"

definition default_args :: "int \<Rightarrow> session_args" where
  "default_args dc = \<lparr>ga_dc = Some dc, ga_media = False, ga_cdn = False, ga_business = None, ga_export = True,
     ga_address = None, ga_port = None, ga_temporary = False, ga_order = False, ga_upload_fallback = False\<rparr>"

text \<open>The session of the same data centre that is not for media; it needs no other.\<close>

definition plain_session :: "'b session_env_scheme \<Rightarrow> int \<Rightarrow> dc_client \<Rightarrow> session_result" where
  "plain_session inner dc = get_session_with (\<lambda>_ c. (Inl (DcPy TypeError), c, [])) inner (default_args dc)"

definition get_session :: "'a session_env_scheme \<Rightarrow> 'b session_env_scheme \<Rightarrow> session_args \<Rightarrow> dc_client \<Rightarrow> session_result" where
  "get_session env inner a c = get_session_with (plain_session inner) env a c"


section \<open>The option fits\<close>

lemma select_member: "select_dc_option probe options proxy pref = Inr o1 \<Longrightarrow> o1 \<in> set options"
  using select_dc_option_choice [of options probe proxy pref] by (cases "options = []") (auto simp: select_dc_option_def)

lemma dedupe_loop_subset: "o1 \<in> set (dedupe_loop seen options) \<Longrightarrow> o1 \<in> set options"
  by (induction options arbitrary: seen) (auto split: if_splits)

lemma select_deduped:
  "lift_py (select_dc_option probe (dedupe_dc_options options) proxy pref) = Inr o1 \<Longrightarrow> o1 \<in> set options"
  by (auto simp: lift_py_def dedupe_dc_options_def split: sum.splits dest!: select_member dedupe_loop_subset)

lemma static_option_facts:
  assumes "lift_py (static_dc_options dc) = Inr static" "o1 \<in> set static"
  shows "opt_id o1 = dc \<and> \<not> opt_ipv6 o1 \<and> \<not> opt_media_only o1 \<and> \<not> opt_cdn o1 \<and>
    (\<exists>eps. get_dc_endpoints dc False = Inr eps \<and> dc_option_endpoint o1 \<in> set eps)"
  using assms
  by (auto simp: lift_py_def static_dc_options_def static_option_def dc_option_endpoint_def
      split: sum.splits py_error.splits)

lemma get_dc_option_fits:
  assumes "get_dc_option env dc media cdn ipv6 c = (Inr o1, c')"
  shows "\<exists>config. de_config env = Inr config \<and> c' = c\<lparr>dc_config := Some config\<rparr> \<and>
    opt_id o1 = (case dc of None \<Rightarrow> cf_this_dc config | Some i \<Rightarrow> i) \<and> opt_ipv6 o1 = ipv6 \<and>
    (o1 \<in> set (cf_options config) \<or>
     \<not> media \<and> \<not> cdn \<and> \<not> test_mode c \<and> \<not> ipv6 \<and>
       (\<exists>eps. get_dc_endpoints (opt_id o1) False = Inr eps \<and> dc_option_endpoint o1 \<in> set eps)) \<and>
    (\<not> media \<and> \<not> cdn \<longrightarrow> \<not> opt_media_only o1)"
proof -
  obtain config where config: "de_config env = Inr config"
    using assms by (auto simp: get_dc_option_def split: sum.splits)
  let ?dc = "case dc of None \<Rightarrow> cf_this_dc config | Some i \<Rightarrow> i"
  let ?options = "filter (\<lambda>o1. opt_id o1 = ?dc \<and> opt_ipv6 o1 = ipv6) (cf_options config)"
  have c': "c' = c\<lparr>dc_config := Some config\<rparr>"
    using assms by (simp add: get_dc_option_def config Let_def)
  have r: "fst (get_dc_option env dc media cdn ipv6 c) = Inr o1"
    using assms by simp
  let ?cdn = "filter opt_cdn ?options" and ?media = "filter opt_media_only ?options"
    and ?prod = "filter (\<lambda>o1. \<not> opt_media_only o1) ?options"
  have nonempty: "?options \<noteq> []"
    using r unfolding get_dc_option_def config by (auto simp: Let_def split: if_splits)
  note eq = r [unfolded get_dc_option_def config sum.case Let_def fst_conv, unfolded if_not_P [OF nonempty]]
  consider (cdn) "cdn" "o1 \<in> set ?options"
    | (media) "media \<or> cdn" "o1 \<in> set ?options"
    | (prod) "o1 \<in> set ?options" "\<not> opt_media_only o1"
    | (static) static where "\<not> media" "\<not> cdn" "\<not> test_mode c" "\<not> ipv6" "lift_py (static_dc_options ?dc) = Inr static" "o1 \<in> set static"
  proof (cases "cdn \<and> ?cdn \<noteq> []")
    case True
    then have "o1 = hd ?cdn"
      using eq by (simp only: if_P simp_thms sum.inject)
    then have "o1 \<in> set ?cdn"
      using True hd_in_set by blast
    then have "o1 \<in> set ?options"
      by simp
    then show thesis
      using that(1) True by blast
  next
    case no_cdn: False
    note eq = eq [unfolded if_not_P [OF no_cdn]]
    show thesis
    proof (cases "(media \<or> cdn) \<and> ?media \<noteq> []")
      case True
      then have "o1 \<in> set ?media"
        using eq [unfolded if_P [OF True]] select_deduped by blast
      then show thesis
        using that(2) True by simp
    next
      case no_media: False
      note eq = eq [unfolded if_not_P [OF no_media]]
      have prod: "?prod \<noteq> []"
        using eq by (auto split: if_splits)
      note eq = eq [unfolded if_P [OF prod]]
      show thesis
      proof (cases "\<not> (media \<or> cdn) \<and> \<not> cdn \<and> \<not> test_mode c \<and> \<not> ipv6")
        case True
        then obtain pref static where "lift_py (static_dc_options ?dc) = Inr static"
            "lift_py (select_dc_option (de_probe env) (dedupe_dc_options (?prod @ static)) (de_proxy env) pref) = Inr o1"
          using eq unfolding if_P [OF True] res_simps by blast
        then show thesis
          using that(3,4) True select_deduped by fastforce
      next
        case False
        then have "o1 \<in> set ?prod"
          using eq select_deduped unfolding if_not_P [OF False] by blast
        then show thesis
          using that(3) by simp
      qed
    qed
  qed
  then show ?thesis
    by cases (use config c' static_option_facts in \<open>auto\<close>)
qed


section \<open>Setting the data centre\<close>

lemma try_endpoints_member: "try_endpoints reach i eps cur = (None, ep) \<Longrightarrow> ep \<in> set eps"
  by (induction eps arbitrary: i cur) (auto split: connect_end.splits)

lemma session_restart_endpoint:
  assumes "session_restart reach ds = (None, ds2)"
  shows "ds_endpoint ds2 \<in> set (ds_fallback ds)"
proof -
  obtain err ep where t: "try_endpoints reach 0 (ds_fallback ds) (ds_endpoint ds) = (err, ep)"
    by (cases "try_endpoints reach 0 (ds_fallback ds) (ds_endpoint ds)")
  then have "err = None" "ds2 = ds\<lparr>ds_endpoint := ep, ds_fallback := dedup (ep # ds_fallback ds)\<rparr>"
    using assms by (cases err; simp add: session_restart_def)+
  then show ?thesis
    using try_endpoints_member t by simp
qed

lemma known_config_fields:
  assumes "known_config env c = (r, c1)"
  shows "dc_row c1 = dc_row c" "dc_main c1 = dc_main c" "dc_store c1 = dc_store c" "dc_sessions c1 = dc_sessions c"
    "dc_media c1 = dc_media c" "dc_cache_calls c1 = dc_cache_calls c"
  using assms by (auto simp: known_config_def split: option.splits sum.splits)

lemma get_dc_option_fields:
  assumes "get_dc_option env dc media cdn ipv6 c = (r, c1)"
  shows "\<exists>config. c1 = c\<lparr>dc_config := config\<rparr>"
proof (cases "de_config env")
  case (Inl e)
  then have "c1 = c\<lparr>dc_config := dc_config c\<rparr>"
    using assms by (simp add: get_dc_option_def)
  then show ?thesis ..
next
  case (Inr config)
  then have "c1 = c\<lparr>dc_config := Some config\<rparr>"
    using assms by (simp add: get_dc_option_def Let_def)
  then show ?thesis ..
qed

lemma chosen_endpoint_fields:
  assumes "chosen_endpoint env dc address port c = (r, c1)"
  shows "\<exists>config. c1 = c\<lparr>dc_config := config\<rparr>"
proof -
  have self: "\<exists>config. c = c\<lparr>dc_config := config\<rparr>"
    by (rule exI [of _ "dc_config c"]) simp
  show ?thesis
    using assms self
    by (auto simp: chosen_endpoint_def Let_def split: option.splits sum.splits prod.splits if_splits
        dest: get_dc_option_fields)
qed

definition set_dc_key :: "dc_env \<Rightarrow> int \<Rightarrow> bool \<Rightarrow> bool \<Rightarrow> string option" where
  "set_dc_key env dc explicit test = (if \<not> explicit \<and> \<not> test \<and> \<not> de_ipv6 env \<and> \<not> de_proxy env
     then Some (endpoint_cache_key dc False False False False) else None)"

lemma set_dc_cases:
  assumes "set_dc env reach dc address port c = (None, c')"
  obtains config d ep c2 n ds where
    "fst (known_config env c) = Inr config" "d = (if py_true dc then the dc else cf_this_dc config)"
    "fst (chosen_endpoint env d address port (snd (known_config env c))) = Inr ep"
    "dc_main c = Some n" "dc_main c' = Some n" "dc_store c' = (dc_store c)(n := ds)"
    "dc_row c' = (dc_row c)\<lparr>ses_dc_id := Some d, ses_server_address := Some (fst (ds_endpoint ds)),
       ses_port := Some (snd (ds_endpoint ds))\<rparr>"
    "dc_sessions c' = dc_sessions c" "dc_media c' = dc_media c"
    "dc_cache_calls c' = dc_cache_calls c @ [(set_dc_key env d (address \<noteq> None \<or> port \<noteq> None) (test_mode c), ds_endpoint ds)]"
    "ds_endpoint ds = ep \<or>
     ds_endpoint ds \<in> set (new_fallbacks env d (address \<noteq> None \<or> port \<noteq> None) (test_mode c) ep (ds_fallback (dc_store c n)))"
    "ds_endpoint (dc_store c n) = ep \<Longrightarrow> ds = dc_store c n"
    "ds_endpoint (dc_store c n) \<noteq> ep \<Longrightarrow> ds_endpoint ds \<in>
      set (new_fallbacks env d (address \<noteq> None \<or> port \<noteq> None) (test_mode c) ep (ds_fallback (dc_store c n)))"
proof -
  obtain config c1 where k: "known_config env c = (Inr config, c1)"
    using assms by (auto simp: set_dc_def split: prod.splits sum.splits)
  define d where "d = (if py_true dc then the dc else cf_this_dc config)"
  obtain ep c2 where e: "chosen_endpoint env d address port c1 = (Inr ep, c2)"
    using assms k by (auto simp: set_dc_def Let_def d_def split: prod.splits sum.splits)
  note f1 = known_config_fields [OF k]
  obtain cfg where c2: "c2 = c1\<lparr>dc_config := cfg\<rparr>"
    using chosen_endpoint_fields [OF e] by blast
  have test: "test_mode c1 = test_mode c"
    by (simp add: test_mode_def f1)
  let ?x = "address \<noteq> None \<or> port \<noteq> None"
  have key: "(if \<not> ?x \<and> \<not> test_mode c1 \<and> \<not> de_ipv6 env \<and> \<not> de_proxy env
      then Some (endpoint_cache_key d (test_mode c1) (de_ipv6 env) False False) else None) = set_dc_key env d ?x (test_mode c)"
    by (simp add: set_dc_key_def test)
  have main: "dc_main (set_row d ep c2) = dc_main c" "dc_store (set_row d ep c2) = dc_store c"
    by (simp_all add: set_row_def c2 f1)
  note r = assms [unfolded set_dc_def k prod.case sum.case Let_def, folded d_def, unfolded e prod.case sum.case key main]
  then obtain n where n: "dc_main c = Some n"
    by (cases "dc_main c") simp_all
  note r = r [unfolded n option.case]
  show thesis
  proof (cases "ds_endpoint (dc_store c n) = ep")
    case True
    then have c': "c' = cache_call (set_dc_key env d ?x (test_mode c)) ep (set_row d ep c2)"
      using r by simp
    show thesis
      by (rule that [of config d ep n "dc_store c n"])
        (use True k e n in \<open>simp_all add: d_def c' cache_call_def set_row_def c2 f1\<close>)
  next
    case False
    note r = r [unfolded if_not_P [OF False]]
    let ?ds = "(dc_store c n)\<lparr>ds_endpoint := ep, ds_fallback := new_fallbacks env d ?x (test_mode c1) ep (ds_fallback (dc_store c n))\<rparr>"
    obtain ds where ds: "session_restart reach ?ds = (None, ds)"
      using r by (auto split: prod.splits option.splits)
    have c': "c' = cache_call (set_dc_key env d ?x (test_mode c)) (ds_endpoint ds)
        (set_row d (ds_endpoint ds) (put_session n ds (set_row d ep c2)))"
      using r ds by simp
    show thesis
      by (rule that [of config d ep n ds])
        (use False k e n session_restart_endpoint [OF ds] in
          \<open>simp_all add: d_def c' cache_call_def set_row_def put_session_def c2 f1 test\<close>)
  qed
qed

text \<open>C17: After `set_dc` the storage names the endpoint the session is on. When it returns, the row has
  the data centre asked for and the address and port of the running session, nothing else of it
  has changed, and no other session has. An explicit address and port are used as given, an address alone
  with the port of the environment; without either, in the production environment over IPv4, the endpoint is one
  that the server or the built-in table has for that data centre. The endpoint cache is told
  once, and under a key only when the choice was automatic, in production, over IPv4 and without a proxy.\<close>

theorem set_dc_agrees:
  assumes "set_dc env reach dc address port c = (None, c')"
  shows "\<exists>config d n ep. fst (known_config env c) = Inr config \<and> d = (if py_true dc then the dc else cf_this_dc config) \<and>
    dc_main c = Some n \<and> dc_main c' = Some n \<and> ep = ds_endpoint (dc_store c' n) \<and>
    dc_row c' = (dc_row c)\<lparr>ses_dc_id := Some d, ses_server_address := Some (fst ep), ses_port := Some (snd ep)\<rparr> \<and>
    (\<forall>m. m \<noteq> n \<longrightarrow> dc_store c' m = dc_store c m) \<and> dc_sessions c' = dc_sessions c \<and> dc_media c' = dc_media c \<and>
    (\<forall>a. address = Some a \<longrightarrow> ep = (a, case port of Some p \<Rightarrow> p | None \<Rightarrow> if test_mode c then 80 else 443)) \<and>
    (address = None \<and> port = None \<and> \<not> test_mode c \<and> \<not> de_ipv6 env \<longrightarrow>
      (\<exists>fresh. de_config env = Inr fresh \<and> (\<exists>o1 \<in> set (cf_options fresh). opt_id o1 = d \<and> \<not> opt_ipv6 o1 \<and>
         \<not> opt_media_only o1 \<and> dc_option_endpoint o1 = ep)) \<or>
      (\<exists>eps. get_dc_endpoints d False = Inr eps \<and> ep \<in> set eps)) \<and>
    dc_cache_calls c' = dc_cache_calls c @
      [(if address = None \<and> port = None \<and> \<not> test_mode c \<and> \<not> de_ipv6 env \<and> \<not> de_proxy env
        then Some (endpoint_cache_key d False False False False) else None, ep)]"
  using assms
proof (rule set_dc_cases)
  fix config d ep n ds
  assume k: "fst (known_config env c) = Inr config" "d = (if py_true dc then the dc else cf_this_dc config)"
    and e: "fst (chosen_endpoint env d address port (snd (known_config env c))) = Inr ep"
    and n: "dc_main c = Some n" "dc_main c' = Some n" "dc_store c' = (dc_store c)(n := ds)"
    and row: "dc_row c' = (dc_row c)\<lparr>ses_dc_id := Some d, ses_server_address := Some (fst (ds_endpoint ds)),
       ses_port := Some (snd (ds_endpoint ds))\<rparr>"
    and tables: "dc_sessions c' = dc_sessions c" "dc_media c' = dc_media c"
    and calls: "dc_cache_calls c' = dc_cache_calls c @ [(set_dc_key env d (address \<noteq> None \<or> port \<noteq> None) (test_mode c), ds_endpoint ds)]"
    and ends: "ds_endpoint ds = ep \<or> ds_endpoint ds \<in>
      set (new_fallbacks env d (address \<noteq> None \<or> port \<noteq> None) (test_mode c) ep (ds_fallback (dc_store c n)))"
  let ?c1 = "snd (known_config env c)"
  have test: "test_mode ?c1 = test_mode c"
    using known_config_fields(1) [of env c "fst (known_config env c)" ?c1] by (simp add: test_mode_def)
  have explicit: "ds_endpoint ds = (a, case port of Some p \<Rightarrow> p | None \<Rightarrow> if test_mode c then 80 else 443)"
    if "address = Some a" for a
  proof -
    have "ep = (a, case port of Some p \<Rightarrow> p | None \<Rightarrow> if test_mode c then 80 else 443)"
      using e that by (auto simp: chosen_endpoint_def test split: option.splits)
    then show ?thesis
      using ends that by (simp add: new_fallbacks_def)
  qed
  have automatic: "(\<exists>fresh. de_config env = Inr fresh \<and> (\<exists>o1 \<in> set (cf_options fresh). opt_id o1 = d \<and> \<not> opt_ipv6 o1 \<and>
         \<not> opt_media_only o1 \<and> dc_option_endpoint o1 = ds_endpoint ds)) \<or>
      (\<exists>eps. get_dc_endpoints d False = Inr eps \<and> ds_endpoint ds \<in> set eps)"
    if auto: "address = None \<and> port = None \<and> \<not> test_mode c \<and> \<not> de_ipv6 env"
  proof -
    obtain o1 c2 where o1: "get_dc_option env (Some d) False False False ?c1 = (Inr o1, c2)" "ep = dc_option_endpoint o1"
      using e auto by (auto simp: chosen_endpoint_def dc_option_endpoint_def py_true_def split: prod.splits sum.splits)
    have "ds_endpoint ds = ep \<or> (\<exists>eps. get_dc_endpoints d False = Inr eps \<and> ds_endpoint ds \<in> set eps)"
      using ends auto by (auto simp: new_fallbacks_def split: sum.splits)
    then show ?thesis
      using get_dc_option_fits [OF o1(1)] o1(2) by auto
  qed
  have key: "set_dc_key env d (address \<noteq> None \<or> port \<noteq> None) (test_mode c) =
      (if address = None \<and> port = None \<and> \<not> test_mode c \<and> \<not> de_ipv6 env \<and> \<not> de_proxy env
        then Some (endpoint_cache_key d False False False False) else None)"
    by (simp add: set_dc_key_def)
  have st: "ds_endpoint ds = ds_endpoint (dc_store c' n)" "\<forall>m. m \<noteq> n \<longrightarrow> dc_store c' m = dc_store c m"
    using n(3) by simp_all
  show ?thesis
    by (intro exI conjI) (rule k(1), rule k(2), rule n(1), rule n(2), rule st(1), rule row, rule st(2), rule tables(1),
      rule tables(2), intro allI impI, rule explicit, assumption, intro impI, rule automatic, assumption, rule calls [unfolded key])
qed

definition sample_option :: "int \<Rightarrow> string \<Rightarrow> int \<Rightarrow> dc_option" where
  "sample_option dc a p = \<lparr>opt_id = dc, opt_ip_address = a, opt_port = p, opt_ipv6 = False, opt_media_only = False,
     opt_cdn = False, opt_static = False, opt_tcpo_only = False, opt_this_port_only = False\<rparr>"

definition sample_dc_env :: dc_env where
  "sample_dc_env = \<lparr>de_proxy = True, de_ipv6 = False,
     de_config = Inr \<lparr>cf_this_dc = 2, cf_test_mode = False, cf_options = [sample_option 2 ''new'' 443]\<rparr>,
     de_probe = (\<lambda>_ _. (True, 0)), de_cache = Inr []\<rparr>"

definition sample_client :: "int \<Rightarrow> dc_client" where
  "sample_client test = \<lparr>dc_row = created_row\<lparr>ses_dc_id := Some 1, ses_test_mode := Some test\<rparr>, dc_main = Some 0,
     dc_store = (\<lambda>_. \<lparr>ds_endpoint = (''old'', 443), ds_fallback = [(''old'', 443)], ds_key = []\<rparr>), dc_next = 1,
     dc_config = None, dc_sessions = (\<lambda>_. None), dc_media = (\<lambda>_. None), dc_business = (\<lambda>_. None), dc_cache_calls = []\<rparr>"

lemmas set_dc_eval = set_dc_def known_config_def chosen_endpoint_def get_dc_option_def sample_dc_env_def sample_client_def
  sample_option_def test_mode_def py_true_def Let_def created_row_def select_dc_option_def dedupe_dc_options_def
  dc_option_endpoint_def static_dc_options_def get_dc_endpoints_def get_dc_endpoint_def PROD_table_def PROD_FALLBACKS_def
  static_option_def main_endpoint_def session_restart_def new_fallbacks_def set_row_def put_session_def cache_call_def

theorem set_dc_agrees_witness:
  "\<exists>c'. set_dc sample_dc_env (\<lambda>_ _. Connects) None None None (sample_client 0) = (None, c') \<and>
    ses_server_address (dc_row c') = Some ''new'' \<and> ses_dc_id (dc_row c') = Some 2 \<and>
    ds_endpoint (dc_store c' 0) = (''new'', 443) \<and> dc_cache_calls c' = [(None, (''new'', 443))]"
proof -
  obtain c' where r: "set_dc sample_dc_env (\<lambda>_ _. Connects) None None None (sample_client 0) = (None, c')"
      "ds_endpoint (dc_store c' 0) = (''new'', 443)"
    by (simp add: set_dc_eval)
  then show ?thesis
    using set_dc_agrees [OF r(1)]
    by (auto simp: known_config_def sample_dc_env_def sample_client_def py_true_def)
qed

text \<open>Outside the production environment over IPv4, `set_dc` does not move the session. Without an
  explicit endpoint, in test mode or over IPv6, the list of fallbacks stays the old one, and it is
  this list that the restart tries: when `set_dc` returns, the session is where it was or on one of its old
  fallbacks, and the storage keeps that address under the new data centre.\<close>

theorem set_dc_stays:
  assumes "set_dc env reach dc None None c = (None, c')" and "test_mode c \<or> de_ipv6 env" and "dc_main c = Some n"
  shows "ds_endpoint (dc_store c' n) \<in> insert (ds_endpoint (dc_store c n)) (set (ds_fallback (dc_store c n))) \<and>
    ses_server_address (dc_row c') = Some (fst (ds_endpoint (dc_store c' n))) \<and>
    (\<exists>d. ses_dc_id (dc_row c') = Some d \<and> (py_true dc \<longrightarrow> d = the dc))"
  using assms(1)
proof (rule set_dc_cases)
  fix config d ep m ds
  assume "d = (if py_true dc then the dc else cf_this_dc config)" "dc_main c = Some m" "dc_store c' = (dc_store c)(m := ds)"
    "dc_row c' = (dc_row c)\<lparr>ses_dc_id := Some d, ses_server_address := Some (fst (ds_endpoint ds)),
       ses_port := Some (snd (ds_endpoint ds))\<rparr>"
    "ds_endpoint (dc_store c m) = ep \<Longrightarrow> ds = dc_store c m"
    "ds_endpoint (dc_store c m) \<noteq> ep \<Longrightarrow> ds_endpoint ds \<in> set (new_fallbacks env d ((None :: string option) \<noteq> None \<or> (None :: int option) \<noteq> None)
       (test_mode c) ep (ds_fallback (dc_store c m)))"
  then show ?thesis
    using assms(2,3) by (cases "ds_endpoint (dc_store c m) = ep") (auto simp: new_fallbacks_def)
qed

theorem set_dc_stays_witness:
  "\<exists>c'. set_dc sample_dc_env (\<lambda>_ _. Connects) (Some 2) None None (sample_client 1) = (None, c') \<and>
    ses_dc_id (dc_row c') = Some 2 \<and> ses_server_address (dc_row c') = Some ''old''"
proof -
  obtain c' where r: "set_dc sample_dc_env (\<lambda>_ _. Connects) (Some 2) None None (sample_client 1) = (None, c')"
    by (simp add: set_dc_eval)
  have "test_mode (sample_client 1)" "dc_main (sample_client 1) = Some 0"
    by (simp_all add: sample_client_def test_mode_def py_true_def)
  then show ?thesis
    using r set_dc_stays [OF r] by (auto simp: sample_client_def py_true_def)
qed


section \<open>Getting a session\<close>

definition numbered :: "dc_client \<Rightarrow> bool" where
  "numbered c = (\<forall>m d n. table_of m c d = Some n \<longrightarrow> n < dc_next c)"

text \<open>What other tasks may do: create sessions of their own and put them into the tables, remove
  entries and change everything else.\<close>

definition fair :: "(dc_client \<Rightarrow> dc_client) \<Rightarrow> bool" where
  "fair f = (\<forall>c. dc_next c \<le> dc_next (f c) \<and>
     (\<forall>m d n. table_of m (f c) d = Some n \<longrightarrow> table_of m c d = Some n \<or> dc_next c \<le> n \<and> n < dc_next (f c)))"

lemma fair_numbered: "fair f \<Longrightarrow> numbered c \<Longrightarrow> numbered (f c)"
  unfolding fair_def numbered_def by (meson order_less_le_trans)

definition same_tables :: "dc_client \<Rightarrow> dc_client \<Rightarrow> bool" where
  "same_tables c c' = (dc_next c' = dc_next c \<and> dc_sessions c' = dc_sessions c \<and> dc_media c' = dc_media c)"

lemma same_tables_table: "same_tables c c' \<Longrightarrow> table_of m c' d = table_of m c d \<and> dc_next c' = dc_next c"
  by (simp add: same_tables_def table_of_def)

lemma same_tables_numbered: "same_tables c c' \<Longrightarrow> numbered c' = numbered c"
  by (simp add: numbered_def same_tables_table)

lemma session_dc_tables: "session_dc env a c = (r, c1) \<Longrightarrow> same_tables c c1"
  by (auto simp: session_dc_def same_tables_def split: if_splits option.splits sum.splits)

lemma session_endpoint_tables: "session_endpoint env a dc c = (r, c1) \<Longrightarrow> same_tables c c1"
  by (auto simp: session_endpoint_def same_tables_def Let_def split: if_splits prod.splits sum.splits
      dest!: get_dc_option_fields)

text \<open>The contract of a call: every session it stops it had started, and no table holds it any more; every
  session it starts and does not stop is the result, or, in a call for a media session, one that is not for media and whose
  key was taken. Only such a call starts media sessions and takes a key, and of one session only.\<close>

definition in_custody :: "bool \<Rightarrow> dc_client \<Rightarrow> session_result \<Rightarrow> bool" where
  "in_custody media c = (\<lambda>(r, c', trail). numbered c' \<and> dc_next c \<le> dc_next c' \<and>
     (\<forall>n. StopSession n \<in> set trail \<longrightarrow> (\<exists>m. Start m n \<in> set trail) \<and> (\<exists>e. r = Inl e) \<and> (\<forall>m d. table_of m c' d \<noteq> Some n)) \<and>
     (\<forall>n. KeyFrom n \<in> set trail \<longrightarrow> media) \<and> (\<forall>n k. KeyFrom n \<in> set trail \<and> KeyFrom k \<in> set trail \<longrightarrow> n = k) \<and>
     (\<forall>m n. Start m n \<in> set trail \<longrightarrow> dc_next c \<le> n \<and> n < dc_next c' \<and> (m \<longrightarrow> media) \<and>
       (StopSession n \<in> set trail \<or> r = Inr n \<or> \<not> m \<and> KeyFrom n \<in> set trail)))"

lemma table_of_set [simp]: "table_of m (set_table m' d' v c) d = (if m = m' \<and> d = d' then v else table_of m c d)"
  by (auto simp: table_of_def set_table_def)

lemma put_session_tables [simp]: "table_of m (put_session n ds c) d = table_of m c d" "dc_next (put_session n ds c) = dc_next c"
  by (simp_all add: table_of_def put_session_def)

lemma cache_call_tables [simp]: "table_of m (cache_call k e c) d = table_of m c d" "dc_next (cache_call k e c) = dc_next c"
  by (simp_all add: table_of_def cache_call_def)

lemma set_table_next [simp]: "dc_next (set_table m d v c) = dc_next c"
  by (simp add: set_table_def)

lemma row_tables [simp]: "table_of m (c\<lparr>dc_row := r\<rparr>) d = table_of m c d" "table_of m (c\<lparr>dc_next := k\<rparr>) d = table_of m c d"
  by (simp_all add: table_of_def)

lemma abandon_custody:
  assumes "numbered c1" "dc_next c \<le> n" "n < dc_next c1"
    and "\<And>m d. table_of m c1 d = Some n \<Longrightarrow> \<not> ga_temporary a \<and> m = ga_media a \<and> d = dc"
  shows "in_custody (ga_media a) c (abandon env a dc n e c1 [Start (ga_media a) n])"
proof -
  have "table_of m (fst (snd (abandon env a dc n e c1 [Start (ga_media a) n]))) d \<noteq> Some n" for m d
    using assms(4) [of m d] assms(4) [of "ga_media a" dc]
    by (cases "table_of m c1 d = Some n") (auto simp: abandon_def)
  moreover have "numbered (fst (snd (abandon env a dc n e c1 [Start (ga_media a) n])))"
    using assms(1) by (auto simp: abandon_def numbered_def)
  ultimately show ?thesis
    using assms(2,3) by (simp add: in_custody_def abandon_def)
qed

lemma open_session_custody:
  assumes "fair (se_after env)" "numbered c"
  shows "in_custody (ga_media a) c (open_session env a dc current ds key c)"
proof -
  let ?n = "dc_next c"
  have own: "numbered (se_after env c2) \<and> ?n < dc_next (se_after env c2) \<and>
      (\<forall>m d. table_of m (se_after env c2) d = Some ?n \<longrightarrow> \<not> ga_temporary a \<and> m = ga_media a \<and> d = dc)"
    if c2: "c2 = put_session ?n ds2 (if ga_temporary a then put_session ?n ds (c\<lparr>dc_next := ?n + 1\<rparr>)
      else set_table (ga_media a) dc (Some ?n) (put_session ?n ds (c\<lparr>dc_next := ?n + 1\<rparr>)))" for c2 ds2
  proof -
    have next_c2: "dc_next c2 = ?n + 1"
      by (simp add: c2)
    have old: "table_of m c d \<noteq> Some ?n" for m d
      using assms(2) by (auto simp: numbered_def)
    have "numbered c2"
      using assms(2) next_c2 by (auto simp: numbered_def c2 split: if_splits) (metis less_SucI)+
    moreover have "\<not> ga_temporary a \<and> m = ga_media a \<and> d = dc" if "table_of m c2 d = Some ?n" for m d
      using that old by (auto simp: c2 split: if_splits)
    ultimately show ?thesis
      using fair_numbered [OF assms(1)] assms(1) next_c2 unfolding fair_def by (metis Suc_eq_plus1 Suc_le_eq not_less_eq_eq order_refl)
  qed
  obtain c2 where c2: "c2 = put_session ?n ds (c\<lparr>dc_next := ?n + 1\<rparr>)"
    by blast
  obtain err ds2 where ds2: "session_restart (se_reach env) ds = (err, ds2)"
    by (cases "session_restart (se_reach env) ds")
  define c3 where "c3 = se_after env (put_session ?n ds2 (if ga_temporary a then c2 else set_table (ga_media a) dc (Some ?n) c2))"
  have mine: "numbered c3" "?n < dc_next c3"
    "\<And>m d. table_of m c3 d = Some ?n \<Longrightarrow> \<not> ga_temporary a \<and> m = ga_media a \<and> d = dc"
    using own [of _ ds2, OF refl] unfolding c3_def c2 by blast+
  show ?thesis
  proof (cases err)
    case (Some e)
    then have "open_session env a dc current ds key c = abandon env a dc ?n e c3 [Start (ga_media a) ?n]"
      by (simp add: open_session_def Let_def ds2 c3_def c2)
    then show ?thesis
      using abandon_custody [OF mine(1) order_refl mine(2,3)] by simp
  next
    case None
    define c4 where "c4 = (let c3' = cache_call key (ds_endpoint ds2) c3 in
      if ga_temporary a \<and> current \<and> \<not> ga_media a \<and> \<not> ga_cdn a
      then c3'\<lparr>dc_row := (dc_row c3')\<lparr>ses_server_address := Some (fst (ds_endpoint ds2)),
        ses_port := Some (snd (ds_endpoint ds2))\<rparr>\<rparr> else c3')"
    have c4: "table_of m c4 d = table_of m c3 d" "dc_next c4 = dc_next c3" for m d
      by (simp_all add: c4_def Let_def)
    then have "numbered c4" "?n < dc_next c4"
      using mine(1,2) by (simp_all add: numbered_def)
    moreover have "open_session env a dc current ds key c =
        (if \<not> current \<and> ga_export a then
           (case export_authorization (se_export env) (se_import env) 0 3 of
              None \<Rightarrow> (Inr ?n, c4, [Start (ga_media a) ?n]) | Some e \<Rightarrow> abandon env a dc ?n e c4 [Start (ga_media a) ?n])
         else (Inr ?n, c4, [Start (ga_media a) ?n]))"
      by (simp only: open_session_def Let_def ds2 None prod.case option.case c4_def c3_def c2)
    moreover have "in_custody (ga_media a) c (abandon env a dc ?n e c4 [Start (ga_media a) ?n])" for e
      using calculation(1,2) mine(3) c4 by (intro abandon_custody) auto
    moreover have "in_custody (ga_media a) c (Inr ?n, c4, [Start (ga_media a) ?n])"
      using calculation(1,2) by (simp add: in_custody_def)
    ultimately show ?thesis
      by (auto split: option.splits)
  qed
qed

lemma no_session_custody: "numbered c' \<Longrightarrow> dc_next c \<le> dc_next c' \<Longrightarrow> in_custody media c (r, c', [])"
  by (simp add: in_custody_def)

lemma in_custody_next: "dc_next d = dc_next c \<Longrightarrow> in_custody media d = in_custody media c"
  by (simp add: in_custody_def)

lemma open_session_no_key:
  "open_session env a dc current ds key c = (r, c', trail) \<Longrightarrow> KeyFrom n \<notin> set trail"
  by (auto simp: open_session_def abandon_def Let_def split: prod.splits option.splits if_splits)

text \<open>What comes before the session is opened: the key, perhaps from a session started for it.\<close>

definition before_session :: "bool \<Rightarrow> dc_client \<Rightarrow> 'k dc_res \<times> dc_client \<times> session_event list \<Rightarrow> bool" where
  "before_session media c = (\<lambda>(r, c', trail). numbered c' \<and> dc_next c \<le> dc_next c' \<and>
     (\<forall>n. StopSession n \<in> set trail \<longrightarrow> (\<exists>m. Start m n \<in> set trail) \<and> (\<exists>e. r = Inl e) \<and> (\<forall>m d. table_of m c' d \<noteq> Some n)) \<and>
     (\<forall>n. KeyFrom n \<in> set trail \<longrightarrow> media) \<and> (\<forall>n k. KeyFrom n \<in> set trail \<and> KeyFrom k \<in> set trail \<longrightarrow> n = k) \<and>
     (\<forall>m n. Start m n \<in> set trail \<longrightarrow> dc_next c \<le> n \<and> n < dc_next c' \<and> \<not> m \<and>
       (StopSession n \<in> set trail \<or> KeyFrom n \<in> set trail)))"

lemma before_fails: "before_session media c (Inl e, c', trail) \<Longrightarrow> in_custody media c (Inl e, c', trail)"
  by (auto simp: before_session_def in_custody_def)

text \<open>The plain session of which the key is taken.\<close>

lemma custody_key:
  assumes "in_custody False c (Inr m, c', trail)"
  shows "before_session True c (Inr k, c', trail @ [KeyFrom m])"
  using assms by (auto simp: before_session_def in_custody_def)

lemma custody_no_key:
  assumes "in_custody False c (Inl e, c', trail)"
  shows "before_session True c (Inl e, c', trail)"
  using assms by (auto simp: before_session_def in_custody_def)

lemma before_then_open:
  assumes "before_session (ga_media a) c (Inr k, c3, trail)" "fair (se_before env)" "fair (se_after env)"
  shows "in_custody (ga_media a) c (case (if temporary then None else table_of m (se_before env c3) dc) of
      Some n \<Rightarrow> (Inr n, se_before env c3, trail)
    | None \<Rightarrow> (case open_session env a dc current ds key (se_before env c3) of (r, c5, trail2) \<Rightarrow> (r, c5, trail @ trail2)))"
proof -
  let ?c4 = "se_before env c3"
  have c4: "numbered ?c4" "dc_next c \<le> dc_next ?c4" "dc_next c3 \<le> dc_next ?c4"
    using assms(1) fair_numbered [OF assms(2)] assms(2) by (auto simp: before_session_def fair_def intro: le_trans)
  have stops: "StopSession n \<notin> set trail"
    and starts: "Start m n \<in> set trail \<Longrightarrow> dc_next c \<le> n \<and> n < dc_next ?c4 \<and> \<not> m \<and> KeyFrom n \<in> set trail"
    and keys: "KeyFrom n \<in> set trail \<Longrightarrow> ga_media a" "KeyFrom n \<in> set trail \<Longrightarrow> KeyFrom k \<in> set trail \<Longrightarrow> n = k" for n m k
    using assms(1) by (auto simp: before_session_def intro: less_le_trans [OF _ c4(3)])
  obtain r c5 trail2 where opened: "open_session env a dc current ds key ?c4 = (r, c5, trail2)"
    by (cases "open_session env a dc current ds key ?c4")
  have o: "in_custody (ga_media a) ?c4 (r, c5, trail2)"
    using open_session_custody [OF assms(3) c4(1), of a dc current ds key] opened by simp
  note no_key = open_session_no_key [OF opened]
  have "in_custody (ga_media a) c (r, c5, trail @ trail2)"
    unfolding in_custody_def prod.case
  proof (intro conjI allI impI)
    show "numbered c5" "dc_next c \<le> dc_next c5"
      using o c4(2) by (auto simp: in_custody_def)
    fix n
    show "\<exists>m. Start m n \<in> set (trail @ trail2)" "\<exists>e. r = Inl e" "table_of m c5 d \<noteq> Some n"
      if "StopSession n \<in> set (trail @ trail2)" for m d
      using o that stops [of n] by (auto simp: in_custody_def)
    show "ga_media a" if "KeyFrom n \<in> set (trail @ trail2)"
      using keys(1) no_key that by auto
    show "n = k" if "KeyFrom n \<in> set (trail @ trail2) \<and> KeyFrom k \<in> set (trail @ trail2)" for k
      using keys(2) no_key that by auto
  next
    fix m n
    have next_c5: "dc_next ?c4 \<le> dc_next c5"
      using o by (simp add: in_custody_def)
    assume "Start m n \<in> set (trail @ trail2)"
    then consider (old) "Start m n \<in> set trail" | (new) "Start m n \<in> set trail2"
      by auto
    then have "dc_next c \<le> n \<and> n < dc_next c5 \<and> (m \<longrightarrow> ga_media a) \<and>
        (StopSession n \<in> set (trail @ trail2) \<or> r = Inr n \<or> \<not> m \<and> KeyFrom n \<in> set (trail @ trail2))"
    proof cases
      case old
      then show ?thesis
        using starts [OF old] less_le_trans [OF _ next_c5] by simp
    next
      case new
      then have "dc_next ?c4 \<le> n" "n < dc_next c5" "m \<longrightarrow> ga_media a" "StopSession n \<in> set trail2 \<or> r = Inr n"
        using o no_key by (auto simp: in_custody_def)
      then show ?thesis
        using le_trans [OF c4(2)] by auto
    qed
    then show "dc_next c \<le> n" "n < dc_next c5" "m \<Longrightarrow> ga_media a"
        "StopSession n \<in> set (trail @ trail2) \<or> r = Inr n \<or> \<not> m \<and> KeyFrom n \<in> set (trail @ trail2)"
      by blast+
  qed
  moreover have "in_custody (ga_media a) c (Inr n, ?c4, trail)" for n
    using stops starts keys c4(1,2) by (auto simp: in_custody_def)
  ultimately show ?thesis
    using opened by (auto split: option.split)
qed

text \<open>A call is one of four: nothing is started; the session whose key is needed fails; another task has put a
  session there meanwhile; or the session is opened.\<close>

lemma get_session_with_custody:
  assumes main: "\<And>dc c. ga_media a \<Longrightarrow> numbered c \<Longrightarrow> in_custody False c (main_session dc c)"
    and fair: "fair (se_before env)" "fair (se_after env)" and "numbered c"
  shows "in_custody (ga_media a) c (get_session_with main_session env a c)"
proof -
  obtain d c1 where d: "session_dc env a c = (d, c1)"
    by (cases "session_dc env a c")
  note t1 = session_dc_tables [OF d]
  have c1: "numbered c1" "dc_next c1 = dc_next c"
    using assms(4) same_tables_numbered [OF t1] same_tables_table [OF t1] by auto
  then have idle: "in_custody (ga_media a) c (r, c1, [])" for r
    by (simp add: no_session_custody)
  show ?thesis
  proof (cases "\<exists>dc. d = Inr (Some dc)")
    case False
    then show ?thesis
      using idle by (auto simp: get_session_with_def d split: sum.splits option.splits)
  next
    case True
    then obtain dc where dc: "d = Inr (Some dc)"
      by blast
    let ?current = "ses_dc_id (dc_row c1) = Some dc"
    obtain e2 c2 where e2: "session_endpoint (dc_env.truncate env) a (Some dc) c1 = (e2, c2)"
      by (cases "session_endpoint (dc_env.truncate env) a (Some dc) c1")
    note e2' = e2 and t2 = session_endpoint_tables [OF e2]
    have c2: "numbered c2" "dc_next c2 = dc_next c"
      using c1 same_tables_numbered [OF t2] same_tables_table [OF t2] by auto
    then have idle2: "in_custody (ga_media a) c (r, c2, [])" for r
      by (simp add: no_session_custody)
    have body: "in_custody (ga_media a) c (case auth of (auth_key, c3, trail) \<Rightarrow> (case auth_key of
        Inl e \<Rightarrow> (Inl e, c3, trail)
      | Inr k \<Rightarrow> (case (if ga_temporary a then None else table_of (ga_media a) (se_before env c3) dc) of
          Some n \<Rightarrow> (Inr n, se_before env c3, trail)
        | None \<Rightarrow> (case open_session env a dc ?current (ds k) key (se_before env c3) of
            (r, c5, trail2) \<Rightarrow> (r, c5, trail @ trail2)))))"
      if "before_session (ga_media a) c auth" for auth :: "bytes dc_res \<times> dc_client \<times> session_event list" and ds key
    proof -
      obtain auth_key c3 trail where auth: "auth = (auth_key, c3, trail)"
        by (cases auth)
      show ?thesis
      proof (cases auth_key)
        case (Inl e)
        then show ?thesis
          using that auth before_fails by simp
      next
        case (Inr k)
        then show ?thesis
          using before_then_open [OF _ fair, of a c k c3 trail] that auth by simp
      qed
    qed
    have key_found: "before_session (ga_media a) c (if ga_media a then
          (case main_session dc c2 of
             (Inl e, c3, trail) \<Rightarrow> (Inl e, c3, trail)
           | (Inr m, c3, trail) \<Rightarrow> (Inr (ds_key (dc_store c3 m)), c3, trail @ [KeyFrom m]))
        else if \<not> ?current then (se_create_key env dc eps, c2, [])
        else (case ses_auth_key (dc_row c2) of None \<Rightarrow> (Inl (DcPy TypeError), c2, []) | Some k \<Rightarrow> (Inr k, c2, [])))" for eps
    proof (cases "ga_media a")
      case True
      obtain mr c3 trail where m: "main_session dc c2 = (mr, c3, trail)"
        by (cases "main_session dc c2")
      have "in_custody False c (mr, c3, trail)"
        using main [OF True c2(1), of dc] m in_custody_next [OF c2(2)] by simp
      then show ?thesis
        using m True custody_key custody_no_key by (cases mr) simp_all
    qed (use c2 in \<open>auto simp: before_session_def split: option.split\<close>)
    show ?thesis
    proof (cases "\<not> ga_temporary a \<and> ?current \<and> \<not> ga_media a")
      case True
      then show ?thesis
        using idle by (simp add: get_session_with_def d dc split: option.split)
    next
      case not_main: False
      show ?thesis
      proof (cases "if ga_temporary a then None else table_of (ga_media a) c1 dc")
        case (Some n)
        show ?thesis
          unfolding get_session_with_def d dc prod.case sum.case option.case Let_def if_not_P [OF not_main] Some option.case
          by (rule idle)
      next
        case no_entry: None
        show ?thesis
        proof (cases e2)
          case (Inl e)
          show ?thesis
            unfolding get_session_with_def d dc prod.case sum.case option.case Let_def if_not_P [OF not_main] no_entry option.case e2' Inl
            by (simp only: prod.case sum.case idle2)
        next
          case ep: (Inr ep)
          show ?thesis
          proof (cases "session_fallbacks (dc_env.truncate env) a dc ep c2")
            case (Inl e)
            show ?thesis
              unfolding get_session_with_def d dc prod.case sum.case option.case Let_def if_not_P [OF not_main] no_entry option.case e2' ep
              by (simp only: prod.case sum.case Inl idle2)
          next
            case (Inr fk)
            obtain fallbacks key where fk: "fk = (fallbacks, key)"
              by (cases fk)
            show ?thesis
              unfolding get_session_with_def d dc prod.case sum.case option.case Let_def if_not_P [OF not_main] no_entry option.case e2' ep
                prod.case sum.case Inr fk
              by (rule body [OF key_found])
          qed
        qed
      qed
    qed
  qed
qed


text \<open>C16: No session is lost or left behind by `get_session`. Whatever fails on the way, and whatever the
  other tasks do to the client meanwhile, a session that the call has started is either its result,
  or it has been stopped, the call has raised, and no table holds it any more. Only a call for a media
  session may leave another one running: the one session, not for media, that it got from an inner call
  and whose key it took. It stops nothing that it has not started, and only a call for a media session starts one for media.\<close>

theorem get_session_custody:
  assumes "numbered c" and "fair (se_before env)" and "fair (se_after env)"
    and "fair (se_before inner)" and "fair (se_after inner)"
    and "get_session env inner a c = (r, c', trail)"
  shows "numbered c' \<and>
    (\<forall>n. StopSession n \<in> set trail \<longrightarrow> (\<exists>m. Start m n \<in> set trail) \<and> (\<exists>e. r = Inl e) \<and> (\<forall>m d. table_of m c' d \<noteq> Some n)) \<and>
    (\<forall>n. KeyFrom n \<in> set trail \<longrightarrow> ga_media a) \<and> (\<forall>n k. KeyFrom n \<in> set trail \<and> KeyFrom k \<in> set trail \<longrightarrow> n = k) \<and>
    (\<forall>media n. Start media n \<in> set trail \<longrightarrow> dc_next c \<le> n \<and> (media \<longrightarrow> ga_media a) \<and>
      (StopSession n \<in> set trail \<or> r = Inr n \<or> \<not> media \<and> KeyFrom n \<in> set trail))"
proof -
  have "in_custody False c1 (plain_session inner dc c1)" if "numbered c1" for dc c1
    using get_session_with_custody [of "default_args dc" "\<lambda>_ c. (Inl (DcPy TypeError), c, [])" inner c1] assms(4,5) that
    by (simp add: plain_session_def default_args_def)
  then have "in_custody (ga_media a) c (get_session env inner a c)"
    unfolding get_session_def
    by (rule get_session_with_custody) (use assms(1-3) in \<open>auto\<close>)
  then show ?thesis
    using assms(6) by (auto simp: in_custody_def)
qed

definition sample_session_env :: "bool \<Rightarrow> session_env" where
  "sample_session_env up = dc_env.extend sample_dc_env \<lparr>se_business = (\<lambda>_. Inl (DcRpc [])),
     se_create_key = (\<lambda>_ _. Inr [7]), se_before = (\<lambda>c. c), se_after = (\<lambda>c. c), se_reach = (\<lambda>_ _. if up then Connects else Unreachable),
     se_export = (\<lambda>_. None), se_import = (\<lambda>_. None), se_stop_fails = False\<rparr>"

theorem get_session_custody_witness:
  "\<exists>c'. get_session (sample_session_env False) (sample_session_env True) (default_args 2) (sample_client 0) =
      (Inl (DcPy ConnectionError), c', [Start False 1, StopSession 1]) \<and> table_of False c' 2 = None"
proof -
  let ?e = "sample_session_env False" and ?i = "sample_session_env True"
  have fair: "fair (se_before ?e)" "fair (se_after ?e)" "fair (se_before ?i)" "fair (se_after ?i)"
    by (simp_all add: fair_def sample_session_env_def dc_env.extend_def)
  have start: "numbered (sample_client 0)"
    by (simp add: numbered_def sample_client_def table_of_def)
  obtain c' where r: "get_session ?e ?i (default_args 2) (sample_client 0) = (Inl (DcPy ConnectionError), c', [Start False 1, StopSession 1])"
      "table_of False c' 2 = None \<or> table_of False c' 2 = Some 1"
    by (simp add: get_session_def get_session_with_def default_args_def session_dc_def session_endpoint_def session_port_def
        session_fallbacks_def first_endpoint_def open_session_def abandon_def table_of_def set_table_def set_dc_eval
        sample_session_env_def dc_env.extend_def dc_env.truncate_def reorder_with_cached_endpoint_def cached_dc_endpoint_def)
  then show ?thesis
    using get_session_custody [OF start fair r(1)] by auto
qed

end
