(* ===== verification/Html.thy ===== *)
theory Html
  imports Unicode "HOL-Library.Multiset" "HOL-Library.Product_Lexorder"
begin

text \<open>
  The HTML of messages: \<open>parser/html.py\<close>. Parsing turns a text with tags into a message and
  its entities, unparsing writes them back. The tokens come from the \<open>HTMLParser\<close> of the standard
  library, of which the model has what such texts use: text, closing tags, and opening tags with
  attributes in double quotes; on anything else (comments, declarations, other quoting, capital
  letters in names) the lexer has no value. \<open>unescape\<close>, which knows the named characters of HTML,
  is a parameter. Offsets count UTF-16 code units.
\<close>

definition asc :: "string \<Rightarrow> pystr" where
  "asc s = map of_char s"

lemma asc_simps [simp]: "asc [] = []" "asc (c # s) = of_char c # asc s" "asc (s @ t) = asc s @ asc t"
  by (simp_all add: asc_def)

section \<open>Parsing\<close>

datatype raw_kind =
    RawBold
  | RawItalic
  | RawUnderline
  | RawStrike
  | RawBlockquote bool
  | RawCode
  | RawPre "pystr option"
  | RawSpoiler
  | RawMentionName int
  | RawEmail
  | RawTextUrl pystr
  | RawCustomEmoji int
  | RawFormattedDate int bool bool bool bool bool bool

record raw_entity =
  re_kind :: raw_kind
  re_offset :: nat
  re_length :: nat

type_synonym attrs = "(string \<times> pystr option) list"

text \<open>\<open>dict(attrs)\<close> keeps the last value of a name; \<open>get\<close> with a default.\<close>

definition attr_get :: "attrs \<Rightarrow> string \<Rightarrow> pystr option \<Rightarrow> pystr option" where
  "attr_get attrs k dflt = (case map_of (rev attrs) k of None \<Rightarrow> dflt | Some v \<Rightarrow> v)"

definition code_digit :: "nat \<Rightarrow> bool" where
  "code_digit c = (48 \<le> c \<and> c \<le> 57)"

text \<open>White space, as \<open>\s\<close> and \<open>int()\<close> know it.\<close>

definition code_space :: "nat \<Rightarrow> bool" where
  "code_space c =
    (9 \<le> c \<and> c \<le> 13 \<or> 28 \<le> c \<and> c \<le> 32 \<or> 0x2000 \<le> c \<and> c \<le> 0x200A \<or>
     c \<in> {0x85, 0xA0, 0x1680, 0x2028, 0x2029, 0x202F, 0x205F, 0x3000})"

fun code_groups :: "bool \<Rightarrow> pystr \<Rightarrow> bool" where
  "code_groups after_digit [] = after_digit"
| "code_groups after_digit (c # s) =
    (if code_digit c then code_groups True s else c = 95 \<and> after_digit \<and> code_groups False s)"

definition code_value :: "pystr \<Rightarrow> nat" where
  "code_value s = foldl (\<lambda>a c. a * 10 + (c - 48)) 0 (filter code_digit s)"

text \<open>\<open>int()\<close> of a text: white space around, a sign, and digits with single underscores between them.\<close>

definition int_of_text :: "pystr option \<Rightarrow> int res" where
  "int_of_text s = (case s of
     None \<Rightarrow> Inl TypeError
   | Some t \<Rightarrow>
       (let t1 = rev (dropWhile code_space (rev (dropWhile code_space t)));
            digits = (if t1 \<noteq> [] \<and> hd t1 \<in> {43, 45} then tl t1 else t1)
        in if code_groups False digits
           then Inr (if t1 \<noteq> [] \<and> hd t1 = 45 then - int (code_value digits) else int (code_value digits))
           else Inl ValueError))"

definition normalize_int64 :: "int \<Rightarrow> int" where
  "normalize_int64 v = (if v \<ge> 2 ^ 63 then v - 2 ^ 64 else v)"

fun drop_code_prefix :: "pystr \<Rightarrow> pystr \<Rightarrow> pystr option" where
  "drop_code_prefix [] s = Some s"
| "drop_code_prefix (p # ps) [] = None"
| "drop_code_prefix (p # ps) (c # s) = (if p = c then drop_code_prefix ps s else None)"

text \<open>\<open>tg://user\?id=(\d+)\<close>, matched at the beginning.\<close>

definition match_mention :: "pystr \<Rightarrow> int option" where
  "match_mention url =
    (case drop_code_prefix (asc ''tg://user?id='') url of
       None \<Rightarrow> None
     | Some r \<Rightarrow> if takeWhile code_digit r = [] then None else Some (int (code_value (takeWhile code_digit r))))"

text \<open>\<open>re.fullmatch(r"r|w?[dD]?[tT]?", ...)\<close>: at most one letter of each group, in this order.\<close>

definition date_format_ok :: "pystr \<Rightarrow> bool" where
  "date_format_ok f =
    (f = asc ''r'' \<or>
     (let f1 = (if f \<noteq> [] \<and> hd f = of_char (CHR ''w'') then tl f else f);
          f2 = (if f1 \<noteq> [] \<and> hd f1 \<in> set (asc ''dD'') then tl f1 else f1);
          f3 = (if f2 \<noteq> [] \<and> hd f2 \<in> set (asc ''tT'') then tl f2 else f2)
      in f3 = []))"

definition has :: "char \<Rightarrow> pystr \<Rightarrow> bool" where
  "has c f = (of_char c \<in> set f)"

definition formatted_date :: "int \<Rightarrow> pystr \<Rightarrow> raw_kind res" where
  "formatted_date date f =
    (if f = [] then Inr (RawFormattedDate date False False False False False False)
     else if \<not> date_format_ok f then Inl ValueError
     else if f = asc ''r'' then Inr (RawFormattedDate date True False False False False False)
     else Inr (RawFormattedDate date False
       (has CHR ''t'' f) (\<not> has CHR ''t'' f \<and> has CHR ''T'' f)
       (has CHR ''d'' f) (\<not> has CHR ''d'' f \<and> has CHR ''D'' f) (has CHR ''w'' f)))"

text \<open>The kind of entity an opening tag begins. \<open>None\<close> is the \<open>return\<close> of an unknown tag or of an
  emoji without a number.\<close>

definition tag_kind :: "string \<Rightarrow> attrs \<Rightarrow> raw_kind option res" where
  "tag_kind tag attrs =
    (if tag \<in> {''b'', ''strong''} then Inr (Some RawBold)
     else if tag \<in> {''i'', ''em''} then Inr (Some RawItalic)
     else if tag \<in> {''u'', ''ins''} then Inr (Some RawUnderline)
     else if tag \<in> {''s'', ''del'', ''strike''} then Inr (Some RawStrike)
     else if tag = ''blockquote'' then Inr (Some (RawBlockquote (''expandable'' \<in> fst ` set attrs)))
     else if tag = ''code'' then Inr (Some RawCode)
     else if tag = ''pre'' then Inr (Some (RawPre (attr_get attrs ''language'' (Some []))))
     else if tag \<in> {''spoiler'', ''tg-spoiler''} then Inr (Some RawSpoiler)
     else if tag = ''a'' then
       (case attr_get attrs ''href'' (Some []) of
          None \<Rightarrow> Inl TypeError
        | Some url \<Rightarrow> (case match_mention url of
            Some i \<Rightarrow> Inr (Some (RawMentionName i))
          | None \<Rightarrow> if drop_code_prefix (asc ''mailto:'') url \<noteq> None then Inr (Some RawEmail)
              else Inr (Some (RawTextUrl url))))
     else if tag \<in> {''emoji'', ''tg-emoji''} then
       (case int_of_text (attr_get attrs (if tag = ''tg-emoji'' then ''emoji-id'' else ''id'') None) of
          Inl _ \<Rightarrow> Inr None
        | Inr i \<Rightarrow> Inr (Some (RawCustomEmoji (normalize_int64 i))))
     else if tag = ''tg-time'' then
       bind_res (int_of_text (attr_get attrs ''unix'' None)) (\<lambda>date.
         bind_res (formatted_date date (case attr_get attrs ''format'' (Some []) of None \<Rightarrow> [] | Some f \<Rightarrow> f))
           (\<lambda>k. Inr (Some k)))
     else Inr None)"

text \<open>The state of the parser: the open entities are a stack for each tag.\<close>

record html_parser =
  hp_text :: pystr
  hp_entities :: "raw_entity list"
  hp_open :: "string \<Rightarrow> raw_entity list"

definition new_parser :: html_parser where
  "new_parser = \<lparr>hp_text = [], hp_entities = [], hp_open = (\<lambda>_. [])\<rparr>"

definition handle_starttag :: "string \<Rightarrow> attrs \<Rightarrow> html_parser \<Rightarrow> html_parser res" where
  "handle_starttag tag attrs p =
    bind_res (tag_kind tag attrs) (\<lambda>k. Inr (case k of
      None \<Rightarrow> p
    | Some kind \<Rightarrow> p\<lparr>hp_open := (hp_open p)(tag := hp_open p tag @
        [\<lparr>re_kind = kind, re_offset = length (hp_text p), re_length = 0\<rparr>])\<rparr>))"

definition grow :: "nat \<Rightarrow> raw_entity \<Rightarrow> raw_entity" where
  "grow n e = e\<lparr>re_length := re_length e + n\<rparr>"

definition handle_data :: "(pystr \<Rightarrow> pystr) \<Rightarrow> pystr \<Rightarrow> html_parser \<Rightarrow> html_parser" where
  "handle_data unescape data p =
    (let d = unescape data in
     p\<lparr>hp_open := (\<lambda>t. map (grow (length d)) (hp_open p t)), hp_text := hp_text p @ d\<rparr>)"

definition handle_endtag :: "string \<Rightarrow> html_parser \<Rightarrow> html_parser" where
  "handle_endtag tag p =
    (if hp_open p tag = [] then p
     else p\<lparr>hp_entities := hp_entities p @ [last (hp_open p tag)],
            hp_open := (hp_open p)(tag := butlast (hp_open p tag))\<rparr>)"

datatype html_event = StartTag string attrs | EndTag string | Data pystr

fun handle_event :: "(pystr \<Rightarrow> pystr) \<Rightarrow> html_event \<Rightarrow> html_parser \<Rightarrow> html_parser res" where
  "handle_event unescape (StartTag tag attrs) p = handle_starttag tag attrs p"
| "handle_event unescape (EndTag tag) p = Inr (handle_endtag tag p)"
| "handle_event unescape (Data d) p = Inr (handle_data unescape d p)"

fun handle_events :: "(pystr \<Rightarrow> pystr) \<Rightarrow> html_event list \<Rightarrow> html_parser \<Rightarrow> html_parser res" where
  "handle_events unescape [] p = Inr p"
| "handle_events unescape (ev # evs) p = bind_res (handle_event unescape ev p) (handle_events unescape evs)"

text \<open>A mention asks the client for the peer: it is dropped when that raises \<open>PeerIdInvalid\<close>
  (\<open>Inr False\<close>), and any other exception leaves. \<open>None\<close> is a parser without a client.\<close>

type_synonym mention_client = "(int \<Rightarrow> bool res) option"

fun keep_entity :: "mention_client \<Rightarrow> raw_entity \<Rightarrow> bool res" where
  "keep_entity None e = Inr True"
| "keep_entity (Some ask) e = (case re_kind e of RawMentionName i \<Rightarrow> ask i | _ \<Rightarrow> Inr True)"

fun kept_entities :: "mention_client \<Rightarrow> raw_entity list \<Rightarrow> raw_entity list res" where
  "kept_entities client [] = Inr []"
| "kept_entities client (e # es) =
    bind_res (keep_entity client e) (\<lambda>k. bind_res (kept_entities client es) (\<lambda>r. Inr (if k then e # r else r)))"

definition parser_result :: "mention_client \<Rightarrow> html_parser \<Rightarrow> (pystr \<times> raw_entity list) res" where
  "parser_result client p =
    bind_res (kept_entities client (hp_entities p)) (\<lambda>es.
      Inr (remove_surrogates (hp_text p), sort_key re_offset (filter (\<lambda>e. 0 < re_length e) es)))"


section \<open>Tokens\<close>

definition LT :: nat where "LT = 60"
definition GT :: nat where "GT = 62"
definition QUOTE :: nat where "QUOTE = 34"
definition SLASH :: nat where "SLASH = 47"

lemmas mark_defs = LT_def GT_def QUOTE_def SLASH_def

definition tag_letter :: "nat \<Rightarrow> bool" where
  "tag_letter c = (97 \<le> c \<and> c \<le> 122)"

definition name_code :: "nat \<Rightarrow> bool" where
  "name_code c = (tag_letter c \<or> code_digit c \<or> c = 45)"

text \<open>After the opening tag of one of these, \<open>HTMLParser\<close> reads what follows as it stands.\<close>

definition raw_text_tags :: "string set" where
  "raw_text_tags = {''script'', ''style'', ''textarea'', ''title'', ''iframe'', ''noembed'', ''noframes'',
     ''noscript'', ''xmp'', ''plaintext''}"

definition name_of :: "pystr \<Rightarrow> string" where
  "name_of s = map char_of s"

lemma dropWhile_shorter: "dropWhile P s = r \<Longrightarrow> length r \<le> length s"
  using length_dropWhile_le [of P s] by simp

text \<open>The attributes up to the closing \<open>>\<close>: a name after one space, with or without a value in
  double quotes, which \<open>HTMLParser\<close> unescapes.\<close>

definition attr_value :: "(pystr \<Rightarrow> pystr) \<Rightarrow> pystr \<Rightarrow> (pystr option \<times> pystr) option" where
  "attr_value unescape r =
    (case r of
       eq # q # v \<Rightarrow>
         if eq = 61 \<and> q = QUOTE then
           (case dropWhile (\<lambda>x. x \<noteq> QUOTE) v of
              [] \<Rightarrow> None
            | _ # r2 \<Rightarrow> Some (Some (unescape (takeWhile (\<lambda>x. x \<noteq> QUOTE) v)), r2))
         else Some (None, r)
     | _ \<Rightarrow> Some (None, r))"

lemma attr_value_shorter: "attr_value unescape r = Some (v, r2) \<Longrightarrow> length r2 \<le> length r"
  by (auto simp: attr_value_def split: list.splits if_splits dest!: dropWhile_shorter)

function lex_attrs :: "(pystr \<Rightarrow> pystr) \<Rightarrow> pystr \<Rightarrow> (attrs \<times> pystr) option" where
  "lex_attrs unescape [] = None"
| "lex_attrs unescape (c # s) =
    (if c = GT then Some ([], s)
     else if c \<noteq> 32 then None
     else
       (let name = takeWhile name_code s in
        if name = [] \<or> \<not> tag_letter (hd name) then None
        else case attr_value unescape (dropWhile name_code s) of
          None \<Rightarrow> None
        | Some (v, r) \<Rightarrow> map_option (\<lambda>(as, r2). ((name_of name, v) # as, r2)) (lex_attrs unescape r)))"
  by pat_completeness auto
termination
proof (relation "measure (length \<circ> snd)", simp)
  show "((unescape, r), unescape, c # s) \<in> measure (length \<circ> snd)"
    if "attr_value unescape (dropWhile name_code s) = Some p" "(v, r) = p"
    for unescape :: "pystr \<Rightarrow> pystr" and c s p v r
    using attr_value_shorter [of unescape "dropWhile name_code s" v r] length_dropWhile_le [of name_code s] that by simp
qed

text \<open>One token and the rest.\<close>

definition lex_token :: "(pystr \<Rightarrow> pystr) \<Rightarrow> pystr \<Rightarrow> (html_event \<times> pystr) option" where
  "lex_token unescape s =
    (if s = [] then None
     else if hd s \<noteq> LT then Some (Data (unescape (takeWhile (\<lambda>c. c \<noteq> LT) s)), dropWhile (\<lambda>c. c \<noteq> LT) s)
     else
       (let closing = (tl s \<noteq> [] \<and> hd (tl s) = SLASH);
            body = (if closing then tl (tl s) else tl s);
            name = takeWhile name_code body;
            r = dropWhile name_code body
        in if name = [] \<or> \<not> tag_letter (hd name) then None
           else if closing then (case r of c # r2 \<Rightarrow> if c = GT then Some (EndTag (name_of name), r2) else None | [] \<Rightarrow> None)
           else if name_of name \<in> raw_text_tags then None
           else map_option (\<lambda>(as, r2). (StartTag (name_of name) as, r2)) (lex_attrs unescape r)))"

fun lex_fuel :: "nat \<Rightarrow> (pystr \<Rightarrow> pystr) \<Rightarrow> pystr \<Rightarrow> html_event list option" where
  "lex_fuel n unescape [] = Some []"
| "lex_fuel 0 unescape (c # s) = None"
| "lex_fuel (Suc n) unescape (c # s) =
    (case lex_token unescape (c # s) of
       None \<Rightarrow> None
     | Some (ev, r) \<Rightarrow> map_option ((#) ev) (lex_fuel n unescape r))"

text \<open>Each token takes at least one character, so the length of the text is fuel enough.\<close>

definition lex :: "(pystr \<Rightarrow> pystr) \<Rightarrow> pystr \<Rightarrow> html_event list option" where
  "lex unescape s = lex_fuel (length s) unescape s"


section \<open>The whole parse\<close>

text \<open>\<open>\w\<close>: which characters past ASCII are letters or digits is a parameter.\<close>

definition html_word :: "(nat \<Rightarrow> bool) \<Rightarrow> nat \<Rightarrow> bool" where
  "html_word letter c =
    (if c < 128 then code_digit c \<or> tag_letter c \<or> 65 \<le> c \<and> c \<le> 90 \<or> c = 95 else letter c)"

text \<open>\<open>^\s*(<[\w<>=\s\"]*>)\s*\<close>: the group runs to the last \<open>>\<close> of the characters of the class.\<close>

definition strip_start :: "(nat \<Rightarrow> bool) \<Rightarrow> pystr \<Rightarrow> pystr" where
  "strip_start letter s =
    (let t = dropWhile code_space s in
     if t = [] \<or> hd t \<noteq> LT then s
     else
       (let run = takeWhile (\<lambda>c. html_word letter c \<or> c \<in> {LT, GT, 61, QUOTE} \<or> code_space c) (tl t);
            inner = rev (dropWhile (\<lambda>c. c \<noteq> GT) (rev run))
        in if inner = [] then s
           else LT # inner @ dropWhile code_space (drop (length inner) (tl t))))"

text \<open>\<open>\s*(</[\w</>]*>)\s*$\<close>, found at its leftmost place.\<close>

fun find_close :: "pystr \<Rightarrow> pystr option" where
  "find_close (a # b # s) = (if a = LT \<and> b = SLASH \<and> s \<noteq> [] then Some (a # b # s) else find_close (b # s))"
| "find_close _ = None"

definition strip_end :: "(nat \<Rightarrow> bool) \<Rightarrow> pystr \<Rightarrow> pystr" where
  "strip_end letter s =
    (let t = rev (dropWhile code_space (rev s)) in
     if t = [] \<or> last t \<noteq> GT then s
     else
       (let run = rev (takeWhile (\<lambda>c. html_word letter c \<or> c \<in> {LT, SLASH, GT}) (rev t)) in
        case find_close run of
          None \<Rightarrow> s
        | Some group1 \<Rightarrow>
            rev (dropWhile code_space (rev (take (length t - length group1) t))) @ group1))"

text \<open>\<open>None\<close> when the text is outside of what the lexer models.\<close>

definition html_parse ::
  "(nat \<Rightarrow> bool) \<Rightarrow> (pystr \<Rightarrow> pystr) \<Rightarrow> mention_client \<Rightarrow> pystr \<Rightarrow> (pystr \<times> raw_entity list) res option" where
  "html_parse letter unescape client s =
    map_option (\<lambda>evs. bind_res (handle_events unescape evs new_parser) (parser_result client))
      (lex unescape (add_surrogates (strip_end letter (strip_start letter s))))"


section \<open>Unparsing\<close>

datatype entity_type =
    BOLD
  | ITALIC
  | UNDERLINE
  | STRIKETHROUGH
  | PRE pystr
  | BLOCKQUOTE bool
  | CODE
  | SPOILER
  | TEXT_LINK pystr
  | TEXT_MENTION int
  | CUSTOM_EMOJI int
  | DATE_TIME int pystr
  | OTHER_TYPE string

record message_entity =
  me_type :: entity_type
  me_offset :: nat
  me_length :: nat

definition escape_char :: "nat \<Rightarrow> pystr" where
  "escape_char c =
    (if c = 38 then asc ''&amp;'' else if c = LT then asc ''&lt;'' else if c = GT then asc ''&gt;''
     else if c = QUOTE then asc ''&quot;'' else if c = 39 then asc ''&#x27;'' else [c])"

definition escape :: "pystr \<Rightarrow> pystr" where
  "escape s = concat (map escape_char s)"

definition attribute :: "string \<Rightarrow> pystr \<Rightarrow> pystr" where
  "attribute name v = 32 # asc name @ [61, QUOTE] @ v @ [QUOTE]"

definition open_tag :: "string \<Rightarrow> pystr \<Rightarrow> pystr" where
  "open_tag tag as = LT # asc tag @ as @ [GT]"

definition close_tag :: "string \<Rightarrow> pystr" where
  "close_tag tag = LT # SLASH # asc tag @ [GT]"

text \<open>The tag of an entity and its attributes.\<close>

fun tag_name :: "entity_type \<Rightarrow> string option" where
  "tag_name BOLD = Some ''b''"
| "tag_name ITALIC = Some ''i''"
| "tag_name UNDERLINE = Some ''u''"
| "tag_name STRIKETHROUGH = Some ''s''"
| "tag_name (PRE _) = Some ''pre''"
| "tag_name (BLOCKQUOTE _) = Some ''blockquote''"
| "tag_name CODE = Some ''code''"
| "tag_name SPOILER = Some ''spoiler''"
| "tag_name (TEXT_LINK _) = Some ''a''"
| "tag_name (TEXT_MENTION _) = Some ''a''"
| "tag_name (CUSTOM_EMOJI _) = Some ''tg-emoji''"
| "tag_name (DATE_TIME _ _) = Some ''tg-time''"
| "tag_name (OTHER_TYPE _) = None"

fun tag_attrs :: "entity_type \<Rightarrow> (string \<times> pystr option) list" where
  "tag_attrs (PRE language) = (if language = [] then [] else [(''language'', Some language)])"
| "tag_attrs (BLOCKQUOTE expandable) = (if expandable then [(''expandable'', None)] else [])"
| "tag_attrs (TEXT_LINK url) = [(''href'', Some url)]"
| "tag_attrs (TEXT_MENTION user) = [(''href'', Some (asc ''tg://user?id='' @ asc (int_dec user)))]"
| "tag_attrs (CUSTOM_EMOJI i) = [(''emoji-id'', Some (asc (int_dec i)))]"
| "tag_attrs (DATE_TIME t f) = (''unix'', Some (asc (int_dec t))) # (if f = [] then [] else [(''format'', Some f)])"
| "tag_attrs _ = []"

fun write_attr :: "string \<times> pystr option \<Rightarrow> pystr" where
  "write_attr (name, Some v) = attribute name v"
| "write_attr (name, None) = 32 # asc name"

definition parse_one :: "message_entity \<Rightarrow> ((pystr \<times> nat) \<times> (pystr \<times> nat)) option" where
  "parse_one e = map_option (\<lambda>tag.
     ((open_tag tag (concat (map write_attr (tag_attrs (me_type e)))), me_offset e),
      (close_tag tag, me_offset e + me_length e))) (tag_name (me_type e))"

text \<open>The tags with their offsets, in order: \<open>recursive\<close> and the loop over the first level in one, where
  \<open>end\<close> is the end of the entity around, if any.\<close>

function nest :: "nat option \<Rightarrow> message_entity list \<Rightarrow> (pystr \<times> nat) list \<times> message_entity list" where
  "nest lim [] = ([], [])"
| "nest lim (e # es) =
    (if \<not> (case lim of None \<Rightarrow> True | Some l \<Rightarrow> me_offset e < l) then ([], e # es)
     else case parse_one e of
       None \<Rightarrow> nest lim es
     | Some (start, fin) \<Rightarrow>
         (let (ps, rest) = nest (Some (snd fin)) es; (qs, rest2) = nest lim rest
          in (start # ps @ fin # qs, rest2)))"
  by pat_completeness auto

termination
proof (relation "measure (length \<circ> snd)", simp_all)
  have shorter: "nest_dom (lim, es) \<Longrightarrow> length (snd (nest lim es)) \<le> length es" for lim es
  proof (induction rule: nest.pinduct)
    case (2 lim e es)
    then show ?case
      by (auto simp: nest.psimps split: option.splits prod.splits) (force simp: le_SucI intro: le_trans)+
  qed (simp add: nest.psimps)
  show "length rest < Suc (length es)" if "(ps, rest) = nest (Some l) es" "nest_dom (Some l, es)" for es ps rest l
    using shorter [OF that(2)] that(1) by (cases "nest (Some l) es") auto
qed

fun insert_tags :: "(pystr \<times> nat) list \<Rightarrow> nat \<Rightarrow> pystr \<Rightarrow> pystr" where
  "insert_tags [] last_offset s = s"
| "insert_tags ((tag, off) # ps) last_offset s =
    insert_tags ps off (take off s @ tag @ escape (drop off (take last_offset s)) @ drop last_offset s)"

definition html_unparse :: "pystr \<Rightarrow> message_entity list \<Rightarrow> pystr" where
  "html_unparse s entities =
    (let s1 = add_surrogates s;
         es = sort_key (\<lambda>e. (me_offset e, - int (me_length e))) entities;
         ps = fst (nest None es)
     in remove_surrogates (if ps = [] then s1 else insert_tags (rev ps) (snd (last ps)) s1))"


section \<open>Reading five characters\<close>

text \<open>The five characters that \<open>escape\<close> writes, read back in one pass.\<close>

definition special_codes :: "nat list" where
  "special_codes = [38, LT, GT, QUOTE, 39]"

function unescape_five :: "pystr \<Rightarrow> pystr" where
  "unescape_five [] = []"
| "unescape_five (c # s) =
    (case find (\<lambda>x. drop_code_prefix (escape_char x) (c # s) \<noteq> None) special_codes of
       Some a \<Rightarrow> a # unescape_five (drop (length (escape_char a) - 1) s)
     | None \<Rightarrow> c # unescape_five s)"
  by pat_completeness auto
termination
  by (relation "measure length") auto

lemma drop_code_prefix_append [simp]: "drop_code_prefix p (p @ s) = Some s"
  by (induction p) auto

lemma escape_append [simp]: "escape [] = []" "escape (c # s) = escape_char c @ escape s" "escape (s @ t) = escape s @ escape t"
  by (simp_all add: escape_def)

lemma unescape_five_escape: "unescape_five (escape s) = s"
proof (induction s)
  case (Cons c s)
  show ?case
  proof (cases "c \<in> set special_codes")
    case True
    then show ?thesis
      using Cons by (auto simp: special_codes_def escape_char_def mark_defs)
  next
    case False
    then have "escape_char c = [c]" "c \<noteq> 38"
      by (auto simp: special_codes_def escape_char_def)
    then show ?thesis
      using Cons by (simp add: special_codes_def escape_char_def mark_defs)
  qed
qed simp

lemma unescape_five_plain: "38 \<notin> set s \<Longrightarrow> unescape_five s = s"
  by (induction s) (auto simp: special_codes_def escape_char_def mark_defs)

lemma char_of_eq:
  fixes n :: nat
  assumes "n < 256"
  shows "char_of n = c \<longleftrightarrow> n = of_char c" "c = char_of n \<longleftrightarrow> n = of_char c"
  using assms by (metis of_char_of mod_less char_of_char)+

lemmas html_eval = name_of_def char_of_eq mark_defs name_code_def tag_letter_def code_digit_def raw_text_tags_def
  strip_end_def strip_start_def html_word_def code_space_def add_surrogates_def surrogate_pair_def
  lex_def lex_token_def attr_value_def unescape_five_plain

lemmas parse_eval = html_parse_def html_eval handle_starttag_def handle_data_def handle_endtag_def new_parser_def
  parser_result_def tag_kind_def grow_def remove_surrogates_def high_surrogate_def low_surrogate_def

lemmas unparse_eval = html_unparse_def parse_one_def add_surrogates_def surrogate_pair_def open_tag_def close_tag_def
  escape_char_def mark_defs remove_surrogates_def high_surrogate_def low_surrogate_def


section \<open>The entities of a parse lie within its text\<close>

definition parser_ok :: "html_parser \<Rightarrow> bool" where
  "parser_ok p = ((\<forall>e \<in> set (hp_entities p). re_offset e + re_length e \<le> length (hp_text p)) \<and>
     (\<forall>t. \<forall>e \<in> set (hp_open p t). re_offset e + re_length e = length (hp_text p)))"

lemma grow_fields [simp]: "re_kind (grow n e) = re_kind e" "re_offset (grow n e) = re_offset e"
  "re_length (grow n e) = re_length e + n"
  by (simp_all add: grow_def)

lemma handle_event_ok:
  assumes "parser_ok p" "handle_event unescape ev p = Inr p'"
  shows "parser_ok p'"
proof (cases ev)
  case (StartTag tag attrs)
  then show ?thesis
    using assms by (auto simp: handle_starttag_def res_simps parser_ok_def split: option.splits if_splits)
next
  case (EndTag tag)
  then show ?thesis
    using assms by (fastforce simp: handle_endtag_def parser_ok_def dest: in_set_butlastD last_in_set split: if_splits)
next
  case (Data d)
  then show ?thesis
    using assms by (fastforce simp: handle_data_def Let_def parser_ok_def)
qed

lemma handle_events_ok: "handle_events unescape evs p = Inr p' \<Longrightarrow> parser_ok p \<Longrightarrow> parser_ok p'"
  by (induction evs arbitrary: p) (auto simp: res_simps dest: handle_event_ok)

lemma kept_entities_subset: "kept_entities client es = Inr r \<Longrightarrow> set r \<subseteq> set es"
  by (induction es arbitrary: r) (auto simp: res_simps split: if_splits)

text \<open>The entities of a parse lie within the text that the parser has made of the tokens, of which the message is the
  joined form, in the order of their offsets, and none is empty, whether the tags are nested properly or not.\<close>

lemma html_parse_within:
  assumes "html_parse letter unescape client s = Some (Inr (message, entities))"
    and "lex unescape (add_surrogates (strip_end letter (strip_start letter s))) = Some evs"
  shows "\<exists>p. handle_events unescape evs new_parser = Inr p \<and> message = remove_surrogates (hp_text p) \<and>
    sorted (map re_offset entities) \<and>
    (\<forall>e \<in> set entities. 0 < re_length e \<and> re_offset e + re_length e \<le> length (hp_text p))"
proof -
  obtain p es where e: "handle_events unescape evs new_parser = Inr p" "kept_entities client (hp_entities p) = Inr es"
      "message = remove_surrogates (hp_text p)" "entities = sort_key re_offset (filter (\<lambda>e. 0 < re_length e) es)"
    using assms by (auto simp: html_parse_def parser_result_def res_simps)
  have "parser_ok p"
    by (rule handle_events_ok [OF e(1)]) (simp add: parser_ok_def new_parser_def)
  then have "\<forall>e \<in> set entities. 0 < re_length e \<and> re_offset e + re_length e \<le> length (hp_text p)"
    using kept_entities_subset [OF e(2)] by (auto simp: e(4) parser_ok_def)
  then show ?thesis
    using e(1,3,4) by auto
qed

text \<open>Not every message survives. An angle bracket before the first tag or after the last one is written as it
  is, and read back as a tag that the text never had. A text that looks like an escaped character is
  unescaped twice. White space after a tag in the middle of the text is lost, if only tags and words come before it.
  And a character past the basic plane in an address stays a pair of surrogates.\<close>

lemma html_text_changes:
  "html_unparse (asc ''x<i>y b'') [\<lparr>me_type = BOLD, me_offset = 6, me_length = 1\<rparr>] = asc ''x<i>y <b>b</b>'' \<and>
   html_parse (\<lambda>_. False) unescape_five None (asc ''x<i>y <b>b</b>'') =
     Some (Inr (asc ''xy b'', [\<lparr>re_kind = RawBold, re_offset = 3, re_length = 1\<rparr>])) \<and>
   html_unparse (asc ''&lt;'') [\<lparr>me_type = BOLD, me_offset = 0, me_length = 4\<rparr>] = asc ''<b>&amp;lt;</b>'' \<and>
   html_parse (\<lambda>_. False) unescape_five None (asc ''<b>&amp;lt;</b>'') =
     Some (Inr (asc ''<'', [\<lparr>re_kind = RawBold, re_offset = 0, re_length = 1\<rparr>])) \<and>
   html_parse (\<lambda>_. False) unescape_five None (asc ''<b>foo<i> bar</i></b>'') =
     Some (Inr (asc ''foobar'', [\<lparr>re_kind = RawBold, re_offset = 0, re_length = 6\<rparr>,
       \<lparr>re_kind = RawItalic, re_offset = 3, re_length = 3\<rparr>])) \<and>
   html_parse (\<lambda>_. False) unescape_five None (asc ''<a href='' @ QUOTE # [0x1F600, QUOTE, GT, 120] @ asc ''</a>'') =
     Some (Inr (asc ''x'', [\<lparr>re_kind = RawTextUrl [0xD83D, 0xDE00], re_offset = 0, re_length = 1\<rparr>]))"
proof (intro conjI)
  show "html_unparse (asc ''x<i>y b'') [\<lparr>me_type = BOLD, me_offset = 6, me_length = 1\<rparr>] = asc ''x<i>y <b>b</b>''"
    by (simp add: unparse_eval)
  show "html_parse (\<lambda>_. False) unescape_five None (asc ''x<i>y <b>b</b>'') =
      Some (Inr (asc ''xy b'', [\<lparr>re_kind = RawBold, re_offset = 3, re_length = 1\<rparr>]))"
    by (simp add: parse_eval del: unescape_five.simps)
  show "html_unparse (asc ''&lt;'') [\<lparr>me_type = BOLD, me_offset = 0, me_length = 4\<rparr>] = asc ''<b>&amp;lt;</b>''"
    by (simp add: unparse_eval)
  show "html_parse (\<lambda>_. False) unescape_five None (asc ''<b>&amp;lt;</b>'') =
      Some (Inr (asc ''<'', [\<lparr>re_kind = RawBold, re_offset = 0, re_length = 1\<rparr>]))"
    by (simp add: parse_eval special_codes_def escape_char_def)
  show "html_parse (\<lambda>_. False) unescape_five None (asc ''<b>foo<i> bar</i></b>'') =
      Some (Inr (asc ''foobar'', [\<lparr>re_kind = RawBold, re_offset = 0, re_length = 6\<rparr>,
        \<lparr>re_kind = RawItalic, re_offset = 3, re_length = 3\<rparr>]))"
    by (simp add: parse_eval del: unescape_five.simps)
  show "html_parse (\<lambda>_. False) unescape_five None (asc ''<a href='' @ QUOTE # [0x1F600, QUOTE, GT, 120] @ asc ''</a>'') =
      Some (Inr (asc ''x'', [\<lparr>re_kind = RawTextUrl [0xD83D, 0xDE00], re_offset = 0, re_length = 1\<rparr>]))"
    by (simp add: parse_eval attr_get_def match_mention_def del: unescape_five.simps)
qed

end
