(* ===== verification/Html_Trip.thy ===== *)
theory Html_Trip
  imports Html
begin

text \<open>
  The round trip through \<open>parser/html.py\<close>: a message with properly nested entities, written by
  \<open>HTML.unparse\<close> and read by \<open>HTML.parse\<close>. The entities of such a message are described by a
  forest of texts and elements, in UTF-16 code units.
\<close>

section \<open>Nested entities\<close>

datatype node = is_txt: Txt pystr | Elem entity_type "node list"

fun nodes_text :: "node list \<Rightarrow> pystr" where
  "nodes_text [] = []"
| "nodes_text (Txt s # ns) = s @ nodes_text ns"
| "nodes_text (Elem ty cs # ns) = nodes_text cs @ nodes_text ns"

definition width :: "node list \<Rightarrow> nat" where
  "width ns = length (nodes_text ns)"

fun nodes_entities :: "nat \<Rightarrow> node list \<Rightarrow> message_entity list" where
  "nodes_entities off [] = []"
| "nodes_entities off (Txt s # ns) = nodes_entities (off + length s) ns"
| "nodes_entities off (Elem ty cs # ns) =
    \<lparr>me_type = ty, me_offset = off, me_length = width cs\<rparr> # nodes_entities off cs @ nodes_entities (off + width cs) ns"

text \<open>Every element has a tag and some text.\<close>

fun tagged :: "node list \<Rightarrow> bool" where
  "tagged [] = True"
| "tagged (Txt s # ns) = tagged ns"
| "tagged (Elem ty cs # ns) = (tag_name ty \<noteq> None \<and> 0 < width cs \<and> tagged cs \<and> tagged ns)"

definition start_tag :: "entity_type \<Rightarrow> pystr" where
  "start_tag ty = open_tag (the (tag_name ty)) (concat (map write_attr (tag_attrs ty)))"

definition end_tag :: "entity_type \<Rightarrow> pystr" where
  "end_tag ty = close_tag (the (tag_name ty))"

fun tag_pairs :: "nat \<Rightarrow> node list \<Rightarrow> (pystr \<times> nat) list" where
  "tag_pairs off [] = []"
| "tag_pairs off (Txt s # ns) = tag_pairs (off + length s) ns"
| "tag_pairs off (Elem ty cs # ns) =
    (start_tag ty, off) # tag_pairs off cs @ (end_tag ty, off + width cs) # tag_pairs (off + width cs) ns"

fun nodes_html :: "node list \<Rightarrow> pystr" where
  "nodes_html [] = []"
| "nodes_html (Txt s # ns) = escape s @ nodes_html ns"
| "nodes_html (Elem ty cs # ns) = start_tag ty @ nodes_html cs @ end_tag ty @ nodes_html ns"

lemma width_simps [simp]: "width [] = 0" "width (Txt s # ns) = length s + width ns"
  "width (Elem ty cs # ns) = width cs + width ns"
  by (simp_all add: width_def)

lemma nodes_entities_within:
  "tagged ns \<Longrightarrow> e \<in> set (nodes_entities off ns) \<Longrightarrow>
    off \<le> me_offset e \<and> me_offset e < off + width ns \<and> 0 < me_length e \<and> me_offset e + me_length e \<le> off + width ns"
  by (induction off ns arbitrary: e rule: nodes_entities.induct) fastforce+

text \<open>Entities that begin at a place or after it.\<close>

definition follows :: "nat \<Rightarrow> message_entity list \<Rightarrow> bool" where
  "follows b es = (\<forall>e \<in> set es. b \<le> me_offset e)"

lemma follows_nodes: "tagged ns \<Longrightarrow> follows b es \<Longrightarrow> b' \<le> off \<Longrightarrow> b' \<le> b \<Longrightarrow> follows b' (nodes_entities off ns @ es)"
  using nodes_entities_within [of ns _ off] by (fastforce simp: follows_def)

lemma nest_stop: "follows b es \<Longrightarrow> nest (Some b) es = ([], es)"
  by (cases es) (auto simp: follows_def)

lemma nest_elem:
  assumes "\<And>l. lim = Some l \<Longrightarrow> me_offset e < l" "parse_one e = Some (p, fin)"
    "nest (Some (snd fin)) es = (ps, rest)" "nest lim rest = (qs, rest2)"
  shows "nest lim (e # es) = (p # ps @ fin # qs, rest2)"
  using assms by (cases lim) auto

lemma parse_one_elem:
  "tag_name ty \<noteq> None \<Longrightarrow> parse_one \<lparr>me_type = ty, me_offset = off, me_length = n\<rparr> =
    Some ((start_tag ty, off), (end_tag ty, off + n))"
  by (auto simp: parse_one_def start_tag_def end_tag_def)

lemma nest_nodes:
  "tagged ns \<Longrightarrow> follows (off + width ns) rest \<Longrightarrow> (\<And>l. lim = Some l \<Longrightarrow> off + width ns \<le> l) \<Longrightarrow>
    nest lim rest = (qs, rest2) \<Longrightarrow> nest lim (nodes_entities off ns @ rest) = (tag_pairs off ns @ qs, rest2)"
proof (induction off ns arbitrary: rest lim qs rest2 rule: nodes_entities.induct)
  case (2 off s ns)
  have "nest lim (nodes_entities (off + length s) ns @ rest) = (tag_pairs (off + length s) ns @ qs, rest2)"
    using 2(2-5) by (intro 2(1)) (simp_all add: add.assoc)
  then show ?case
    by simp
next
  case (3 off ty cs ns)
  let ?fin = "off + width cs"
  let ?rest = "nodes_entities ?fin ns @ rest"
  have w: "tag_name ty \<noteq> None" "0 < width cs" "tagged cs" "tagged ns"
    using 3(3) by simp_all
  have after: "follows ?fin ?rest"
    by (rule follows_nodes [OF w(4) 3(4)]) simp_all
  have inner: "nest (Some ?fin) (nodes_entities off cs @ ?rest) = (tag_pairs off cs @ [], ?rest)"
    by (rule 3(1) [OF w(3) after _ nest_stop [OF after]]) simp
  have outer: "nest lim ?rest = (tag_pairs ?fin ns @ qs, rest2)"
  proof (rule 3(2) [OF w(4) _ _ 3(6)])
    show "follows (?fin + width ns) rest"
      using 3(4) by (simp add: add.assoc)
    show "?fin + width ns \<le> l" if "lim = Some l" for l
      using 3(5) [OF that] by (simp add: add.assoc)
  qed
  have before: "off < l" if "lim = Some l" for l
    using 3(5) [OF that] w(2) by simp
  have "nest lim (\<lparr>me_type = ty, me_offset = off, me_length = width cs\<rparr> # nodes_entities off cs @ ?rest) =
      ((start_tag ty, off) # (tag_pairs off cs @ []) @ (end_tag ty, ?fin) # (tag_pairs ?fin ns @ qs), rest2)"
    by (rule nest_elem [OF _ parse_one_elem [OF w(1)] _ outer]) (simp_all add: before inner)
  then show ?case
    by simp
qed simp

lemma nodes_entities_sorted:
  "tagged ns \<Longrightarrow> sorted (map (\<lambda>e. (me_offset e, - int (me_length e))) (nodes_entities off ns))"
proof (induction off ns rule: nodes_entities.induct)
  case (3 off ty cs ns)
  have w: "0 < width cs" "tagged cs" "tagged ns"
    using 3(3) by simp_all
  let ?cs = "nodes_entities off cs" and ?ns = "nodes_entities (off + width cs) ns"
  have cs: "off \<le> me_offset e" "me_offset e < off + width cs" "me_length e \<le> width cs" if "e \<in> set ?cs" for e
    using nodes_entities_within [OF w(2) that] by auto
  have ns: "off + width cs \<le> me_offset e" if "e \<in> set ?ns" for e
    using nodes_entities_within [OF w(3) that] by simp
  have "\<forall>e \<in> set ?ns. off < me_offset e"
    using ns w(1) by fastforce
  moreover have "\<forall>x \<in> set ?cs. \<forall>e \<in> set ?ns. me_offset x < me_offset e"
    using ns cs(2) by (blast intro: less_le_trans)
  ultimately show ?case
    using 3(1) [OF w(2)] 3(2) [OF w(3)] cs(1,3) by (simp add: sorted_append ball_Un)
qed simp_all

section \<open>Inserting the tags\<close>

definition between :: "nat \<Rightarrow> nat \<Rightarrow> pystr \<Rightarrow> pystr" where
  "between a b s = drop a (take b s)"

text \<open>The offset of the first tag, or where the text ends; and the tags with the escaped text after each.\<close>

fun first_off :: "(pystr \<times> nat) list \<Rightarrow> nat \<Rightarrow> nat" where
  "first_off [] b = b"
| "first_off ((tag, off) # ps) b = off"

fun weave :: "pystr \<Rightarrow> (pystr \<times> nat) list \<Rightarrow> nat \<Rightarrow> pystr" where
  "weave s [] b = []"
| "weave s ((tag, off) # ps) b = tag @ escape (between off (first_off ps b) s) @ weave s ps b"

fun ascending :: "(pystr \<times> nat) list \<Rightarrow> nat \<Rightarrow> bool" where
  "ascending [] b = True"
| "ascending ((tag, off) # ps) b = (off \<le> first_off ps b \<and> ascending ps b)"

lemma first_off_append [simp]: "first_off (ps @ qs) b = first_off ps (first_off qs b)"
  by (cases ps) auto

lemma ascending_append [simp]: "ascending (ps @ qs) b = (ascending ps (first_off qs b) \<and> ascending qs b)"
  by (induction ps) auto

lemma weave_append [simp]: "weave s (ps @ qs) b = weave s ps (first_off qs b) @ weave s qs b"
  by (induction ps) auto

lemma ascending_first: "ascending ps b \<Longrightarrow> first_off ps b \<le> b"
  by (induction ps b rule: ascending.induct) auto

lemma between_empty [simp]: "between a a s = []"
  by (simp add: between_def)

lemma between_parts: "length p = a \<Longrightarrow> b = a + length m \<Longrightarrow> between a b (p @ m @ q) = m"
  by (simp add: between_def)

lemma insert_tags_weave:
  "ascending ps b \<Longrightarrow> b \<le> length s \<Longrightarrow>
    insert_tags (rev ps) b (take b s @ tl') = take (first_off ps b) s @ weave s ps b @ tl'"
proof (induction ps arbitrary: b tl' rule: rev_induct)
  case (snoc p ps)
  obtain t off where p: "p = (t, off)"
    by (cases p)
  have le: "off \<le> b" "ascending ps off"
    using snoc(2) p by auto
  have "insert_tags (rev (ps @ [p])) b (take b s @ tl') =
      insert_tags (rev ps) off (take off s @ (t @ escape (between off b s) @ tl'))"
    using le(1) snoc(3) by (simp add: p between_def min_def)
  also have "... = take (first_off ps off) s @ weave s ps off @ t @ escape (between off b s) @ tl'"
    using snoc(1) [OF le(2)] le(1) snoc(3) by simp
  finally show ?case
    by (simp add: p)
qed simp

lemma between_split: "a \<le> m \<Longrightarrow> m \<le> b \<Longrightarrow> m \<le> length s \<Longrightarrow> between a b s = between a m s @ between m b s"
proof -
  assume le: "a \<le> m" "m \<le> b" "m \<le> length s"
  have "take b s = take m s @ drop m (take b s)"
    using le(2) by (metis append_take_drop_id min_def take_take)
  then have "between a b s = drop a (take m s @ drop m (take b s))"
    by (simp add: between_def)
  also have "... = between a m s @ between m b s"
    using le by (simp add: between_def)
  finally show ?thesis .
qed

definition woven :: "pystr \<Rightarrow> nat \<Rightarrow> (pystr \<times> nat) list \<Rightarrow> nat \<Rightarrow> pystr" where
  "woven s a ps b = escape (between a (first_off ps b) s) @ weave s ps b"

lemma first_off_nodes: "off + width ns \<le> b \<Longrightarrow> off \<le> first_off (tag_pairs off ns) b"
proof (induction off ns rule: tag_pairs.induct)
  case (2 off s ns)
  then have "off + length s \<le> first_off (tag_pairs (off + length s) ns) b"
    by (simp add: add.assoc)
  then show ?case
    by simp
qed simp_all

lemma ascending_nodes: "off + width ns \<le> b \<Longrightarrow> ascending (tag_pairs off ns) b"
proof (induction off ns arbitrary: b rule: tag_pairs.induct)
  case (3 off ty cs ns)
  then show ?case
    using first_off_nodes [of off cs "off + width cs"] first_off_nodes [of "off + width cs" ns b] by (simp add: add.assoc)
qed (simp_all add: add.assoc)

lemma woven_nodes:
  "s = pre @ nodes_text ns @ post \<Longrightarrow> length pre = off \<Longrightarrow> off + width ns \<le> first_off qs b \<Longrightarrow>
    first_off qs b \<le> length s \<Longrightarrow>
    woven s off (tag_pairs off ns @ qs) b = nodes_html ns @ woven s (off + width ns) qs b"
proof (induction off ns arbitrary: pre post qs rule: tag_pairs.induct)
  case (2 off t ns)
  let ?f = "first_off (tag_pairs (off + length t) ns @ qs) b"
  have "off + length t \<le> ?f"
    using 2(4) first_off_nodes [of "off + length t" ns "first_off qs b"] by (simp add: add.assoc)
  moreover have "between off (off + length t) s = t"
    using between_parts [OF 2(3), of "off + length t" t "nodes_text ns @ post"] 2(2) by simp
  ultimately have "between off ?f s = t @ between (off + length t) ?f s"
    using between_split [of off "off + length t" ?f s] 2(2,3) by simp
  moreover have "woven s (off + length t) (tag_pairs (off + length t) ns @ qs) b =
      nodes_html ns @ woven s (off + length t + width ns) qs b"
    using 2(2-5) by (intro 2(1) [of "pre @ t"]) (simp_all add: add.assoc)
  ultimately show ?case
    by (simp add: woven_def add.assoc)
next
  case (3 off ty cs ns)
  let ?fin = "off + width cs"
  let ?qs = "(end_tag ty, ?fin) # tag_pairs ?fin ns @ qs"
  have inner: "woven s off (tag_pairs off cs @ ?qs) b = nodes_html cs @ woven s ?fin ?qs b"
    using 3(3-6) by (intro 3(1) [of pre "nodes_text ns @ post"]) (simp_all add: width_def)
  have outer: "woven s ?fin (tag_pairs ?fin ns @ qs) b = nodes_html ns @ woven s (?fin + width ns) qs b"
    using 3(3-6) by (intro 3(2) [of "pre @ nodes_text cs" post]) (simp_all add: width_def add.assoc)
  have "woven s ?fin ?qs b = end_tag ty @ woven s ?fin (tag_pairs ?fin ns @ qs) b"
    by (simp add: woven_def)
  then have "woven s off (tag_pairs off cs @ ?qs) b = nodes_html cs @ end_tag ty @ nodes_html ns @ woven s (?fin + width ns) qs b"
    using inner outer by simp
  moreover have "woven s off (tag_pairs off (Elem ty cs # ns) @ qs) b = start_tag ty @ woven s off (tag_pairs off cs @ ?qs) b"
    by (simp add: woven_def)
  ultimately show ?case
    by (simp add: add.assoc)
qed simp

text \<open>The text before the first tag and after the last one is not escaped.\<close>

fun lead :: "node list \<Rightarrow> pystr" where
  "lead (Txt s # ns) = s @ lead ns"
| "lead _ = []"

fun trail :: "node list \<Rightarrow> pystr" where
  "trail [] = []"
| "trail (Txt s # ns) = (if list_all is_txt ns then s @ trail ns else trail ns)"
| "trail (Elem ty cs # ns) = trail ns"

lemma tag_pairs_empty: "tag_pairs off ns = [] \<longleftrightarrow> list_all is_txt ns"
  by (induction off ns rule: tag_pairs.induct) auto

lemma all_text: "list_all is_txt ns \<Longrightarrow> nodes_text ns = lead ns \<and> trail ns = lead ns \<and> nodes_html ns = escape (lead ns)"
  by (induction ns rule: lead.induct) auto

lemma lead_offset: "\<not> list_all is_txt ns \<Longrightarrow> first_off (tag_pairs off ns) b = off + length (lead ns)"
  by (induction off ns rule: tag_pairs.induct) (auto simp: add.assoc)

lemma lead_prefix: "take (length (lead ns)) (nodes_text ns) = lead ns"
  by (induction ns rule: lead.induct) auto

lemma trail_suffix: "\<exists>r. nodes_text ns = r @ trail ns"
proof (induction ns rule: trail.induct)
  case (2 s ns)
  then obtain r where r: "nodes_text ns = r @ trail ns"
    by blast
  show ?case
  proof (cases "list_all is_txt ns")
    case True
    then show ?thesis
      using all_text [OF True] by (intro exI [of _ "[]"]) simp
  next
    case False
    then show ?thesis
      using r by (intro exI [of _ "s @ r"]) simp
  qed
next
  case (3 ty cs ns)
  then obtain r where r: "nodes_text ns = r @ trail ns"
    by blast
  then show ?case
    by (intro exI [of _ "nodes_text cs @ r"]) simp
qed simp

lemma trail_offset: "\<not> list_all is_txt ns \<Longrightarrow> snd (last (tag_pairs off ns)) + length (trail ns) = off + width ns"
proof (induction off ns rule: tag_pairs.induct)
  case (3 off ty cs ns)
  show ?case
  proof (cases "list_all is_txt ns")
    case True
    then show ?thesis
      using tag_pairs_empty [of "off + width cs" ns] all_text [OF True] by (simp add: width_def)
  next
    case False
    then show ?thesis
      using tag_pairs_empty [of "off + width cs" ns] 3(2) by (simp add: add.assoc)
  qed
qed (auto simp: add.assoc)

lemma insert_nodes:
  assumes "\<not> list_all is_txt ns" "escape (lead ns) = lead ns" "escape (trail ns) = trail ns"
  shows "insert_tags (rev (tag_pairs 0 ns)) (snd (last (tag_pairs 0 ns))) (nodes_text ns) = nodes_html ns"
proof -
  let ?s = "nodes_text ns" and ?ps = "tag_pairs 0 ns" and ?n = "width ns"
  obtain ps' t off where ps: "?ps = ps' @ [(t, off)]"
    using assms(1) tag_pairs_empty [of 0 ns] by (metis rev_exhaust surj_pair)
  have asc: "ascending ps' off" "off \<le> ?n"
    using ascending_nodes [of 0 ns ?n] ps by simp_all
  obtain r where r: "?s = r @ trail ns"
    using trail_suffix by blast
  have "length r = off"
    using trail_offset [OF assms(1), of 0] ps r by (simp add: width_def)
  then have tail: "drop off ?s = trail ns" "between off ?n ?s = trail ns"
    using r by (simp_all add: between_def width_def)
  have head: "first_off ?ps b = length (lead ns)" for b
    using lead_offset [OF assms(1), of 0 b] by simp
  have "nodes_html ns = woven ?s 0 ?ps ?n"
    using woven_nodes [of ?s "[]" ns "[]" 0 "[]" ?n] by (simp add: width_def woven_def)
  also have "... = escape (lead ns) @ weave ?s ps' off @ t @ escape (trail ns)"
    using head tail by (simp add: woven_def between_def lead_prefix ps)
  finally have html: "nodes_html ns = lead ns @ weave ?s ?ps off @ trail ns"
    by (simp add: assms(2,3) ps)
  have "insert_tags (rev ?ps) off (take off ?s @ drop off ?s) = take (first_off ?ps off) ?s @ weave ?s ?ps off @ drop off ?s"
    using asc by (intro insert_tags_weave) (simp_all add: ps width_def)
  then have "insert_tags (rev ?ps) off ?s = nodes_html ns"
    unfolding append_take_drop_id unfolding head lead_prefix tail(1) html .
  moreover have "snd (last ?ps) = off"
    using ps by simp
  ultimately show ?thesis
    by (simp only:)
qed

section \<open>Tokens of the written text\<close>

text \<open>Texts in which nothing is left to unescape.\<close>

definition plain :: "pystr \<Rightarrow> bool" where
  "plain v = (\<forall>c \<in> set v. scalar c \<and> c < 0x10000 \<and> c \<noteq> QUOTE \<and> c \<noteq> 38)"

fun plain_attr :: "string \<times> pystr option \<Rightarrow> bool" where
  "plain_attr (name, v) =
    (name \<noteq> [] \<and> tag_letter (of_char (hd name)) \<and> list_all (\<lambda>c. name_code (of_char c)) name \<and>
     (case v of None \<Rightarrow> True | Some w \<Rightarrow> plain w))"

lemma name_of_asc [simp]: "name_of (asc s) = s"
  by (induction s) (simp_all add: name_of_def asc_def)

lemma takeWhile_name:
  "list_all (\<lambda>c. name_code (of_char c)) name \<Longrightarrow> r = [] \<or> \<not> name_code (hd r) \<Longrightarrow>
    takeWhile name_code (asc name @ r) = asc name \<and> dropWhile name_code (asc name @ r) = r"
proof (induction name)
  case Nil
  then show ?case
    by (cases r) auto
qed simp

lemma asc_facts: "asc s = [] \<longleftrightarrow> s = []" "s \<noteq> [] \<Longrightarrow> hd (asc s) = of_char (hd s)"
  by (cases s; simp)+

lemma not_names [simp]: "\<not> name_code 61" "\<not> name_code 32" "\<not> name_code GT" "\<not> name_code QUOTE"
  by (simp_all add: name_code_def tag_letter_def code_digit_def mark_defs)

lemma takeWhile_quote:
  "plain v \<Longrightarrow> takeWhile (\<lambda>x. x \<noteq> QUOTE) (v @ QUOTE # r) = v \<and> dropWhile (\<lambda>x. x \<noteq> QUOTE) (v @ QUOTE # r) = QUOTE # r"
  by (induction v) (auto simp: plain_def)

lemma lex_attrs_end: "lex_attrs u (GT # r) = Some ([], r)"
  by simp

lemma attr_value_written:
  "plain v \<Longrightarrow> u v = v \<Longrightarrow> attr_value u (61 # QUOTE # v @ QUOTE # r) = Some (Some v, r)"
  by (simp add: attr_value_def takeWhile_quote)

lemma attr_value_absent: "r \<noteq> [] \<Longrightarrow> hd r = GT \<or> hd r = 32 \<Longrightarrow> attr_value u r = Some (None, r)"
  by (auto simp: attr_value_def mark_defs split: list.splits)

lemma lex_attrs_value:
  assumes "plain_attr (name, Some v)" "u v = v"
  shows "lex_attrs u (attribute name v @ r) = map_option (\<lambda>(as, r2). ((name, Some v) # as, r2)) (lex_attrs u r)"
proof -
  have n: "name \<noteq> []" "tag_letter (of_char (hd name))" "list_all (\<lambda>c. name_code (of_char c)) name" "plain v"
    using assms(1) by simp_all
  have w: "takeWhile name_code (asc name @ 61 # QUOTE # v @ QUOTE # r) = asc name"
      "dropWhile name_code (asc name @ 61 # QUOTE # v @ QUOTE # r) = 61 # QUOTE # v @ QUOTE # r"
    using takeWhile_name [OF n(3), of "61 # QUOTE # v @ QUOTE # r"] by simp_all
  show ?thesis
    using n(1,2) by (simp add: attribute_def w asc_facts attr_value_written [of v u, OF n(4) assms(2)] GT_def)
qed

lemma lex_attrs_name:
  assumes "plain_attr (name, None)" "r \<noteq> []" "hd r = GT \<or> hd r = 32"
  shows "lex_attrs u ((32 # asc name) @ r) = map_option (\<lambda>(as, r2). ((name, None) # as, r2)) (lex_attrs u r)"
proof -
  have n: "name \<noteq> []" "tag_letter (of_char (hd name))" "list_all (\<lambda>c. name_code (of_char c)) name"
    using assms(1) by simp_all
  have w: "takeWhile name_code (asc name @ r) = asc name" "dropWhile name_code (asc name @ r) = r"
    using takeWhile_name [OF n(3), of r] assms(3) by auto
  show ?thesis
    using n(1,2) by (simp add: w asc_facts attr_value_absent [OF assms(2,3)] GT_def)
qed

lemma lex_attrs_written:
  assumes "\<forall>a \<in> set as. plain_attr a" "\<And>v. plain v \<Longrightarrow> u v = v"
  shows "lex_attrs u (concat (map write_attr as) @ GT # r) = Some (as, r)"
  using assms(1)
proof (induction as)
  case (Cons a as)
  let ?r = "concat (map write_attr as) @ GT # r"
  have rest: "?r \<noteq> []" "hd ?r = GT \<or> hd ?r = 32"
  proof -
    show "hd ?r = GT \<or> hd ?r = 32"
    proof (cases as)
      case (Cons b bs)
      then show ?thesis
        by (cases b rule: write_attr.cases) (simp_all add: attribute_def)
    qed simp
  qed simp
  obtain name v where a: "a = (name, v)"
    by (cases a)
  have IH: "lex_attrs u ?r = Some (as, r)"
    using Cons by simp
  show ?case
  proof (cases v)
    case None
    then show ?thesis
      using lex_attrs_name [of name ?r u] Cons(2) rest IH by (simp add: a)
  next
    case (Some w)
    then have "plain_attr (name, Some w)" "u w = w"
      using Cons(2) assms(2) a by auto
    then show ?thesis
      using lex_attrs_value [of name w u ?r] IH by (simp add: a Some)
  qed
qed simp

text \<open>The entities that keep their meaning when they are written.\<close>

fun plain_type :: "entity_type \<Rightarrow> bool" where
  "plain_type (PRE language) = plain language"
| "plain_type (TEXT_LINK url) =
    (plain url \<and> match_mention url = None \<and> drop_code_prefix (asc ''mailto:'') url = None)"
| "plain_type (TEXT_MENTION user) = (0 \<le> user)"
| "plain_type (DATE_TIME t f) = (f = [] \<or> plain f \<and> date_format_ok f)"
| "plain_type _ = True"

fun raw_of_type :: "entity_type \<Rightarrow> raw_kind option" where
  "raw_of_type BOLD = Some RawBold"
| "raw_of_type ITALIC = Some RawItalic"
| "raw_of_type UNDERLINE = Some RawUnderline"
| "raw_of_type STRIKETHROUGH = Some RawStrike"
| "raw_of_type (PRE language) = Some (RawPre (Some language))"
| "raw_of_type (BLOCKQUOTE expandable) = Some (RawBlockquote expandable)"
| "raw_of_type CODE = Some RawCode"
| "raw_of_type SPOILER = Some RawSpoiler"
| "raw_of_type (TEXT_LINK url) = Some (RawTextUrl url)"
| "raw_of_type (TEXT_MENTION user) = Some (RawMentionName user)"
| "raw_of_type (CUSTOM_EMOJI i) = Some (RawCustomEmoji (normalize_int64 i))"
| "raw_of_type (DATE_TIME t f) = Some (RawFormattedDate t (f = asc ''r'')
    (has CHR ''t'' f) (has CHR ''T'' f) (has CHR ''d'' f) (has CHR ''D'' f) (has CHR ''w'' f))"
| "raw_of_type (OTHER_TYPE _) = None"

lemma plain_asc_digits: "\<forall>c \<in> set s. c = CHR ''-'' \<or> 48 \<le> (of_char c :: nat) \<and> of_char c \<le> (57 :: nat) \<Longrightarrow> plain (asc s)"
  by (fastforce simp: plain_def asc_def scalar_def surrogate_def mark_defs)

lemma plain_int_dec: "plain (asc (int_dec i))"
  by (intro plain_asc_digits) (auto simp: int_dec_def dest: nat_dec_digits)

lemma plain_append: "plain (s @ t) \<longleftrightarrow> plain s \<and> plain t"
  by (auto simp: plain_def)

lemma code_digits_nat: "list_all code_digit (asc (nat_dec n))"
  using nat_dec_digits by (fastforce simp: list_all_iff asc_def code_digit_def)

lemma code_groups_digits: "list_all code_digit s \<Longrightarrow> code_groups b s = (b \<or> s \<noteq> [])"
  by (induction s arbitrary: b) auto

lemma code_value_nat: "code_value (asc (nat_dec n)) = n"
proof -
  have "foldl (\<lambda>a c. a * 10 + (c - 48)) k (asc s) = foldl (\<lambda>a c. a * 10 + (of_char c - 48)) k s" for k s
    by (induction s arbitrary: k) simp_all
  moreover have "filter code_digit (asc (nat_dec n)) = asc (nat_dec n)"
    using code_digits_nat [of n] by (simp add: list_all_iff)
  ultimately show ?thesis
    using dec_val_nat_dec [of n] by (simp add: code_value_def dec_val_def)
qed

lemma digits_not_marks:
  assumes "list_all code_digit s" "s \<noteq> []"
  shows "\<not> code_space (hd s)" "\<not> code_space (last s)" "hd s \<noteq> 45" "hd s \<noteq> 43"
proof -
  have "48 \<le> hd s \<and> hd s \<le> 57" "48 \<le> last s \<and> last s \<le> 57"
    using assms hd_in_set [of s] last_in_set [of s] by (auto simp: list_all_iff code_digit_def)
  then show "\<not> code_space (hd s)" "\<not> code_space (last s)" "hd s \<noteq> 45" "hd s \<noteq> 43"
    by (auto simp: code_space_def)
qed

lemma dropWhile_hd: "s \<noteq> [] \<Longrightarrow> \<not> P (hd s) \<Longrightarrow> dropWhile P s = s"
  by (cases s) auto

lemma int_of_text_digits:
  assumes "list_all code_digit s" "s \<noteq> []"
  shows "int_of_text (Some s) = Inr (int (code_value s))" "int_of_text (Some (45 # s)) = Inr (- int (code_value s))"
proof -
  have "dropWhile code_space (rev s) = rev s"
    using digits_not_marks(2) [OF assms] assms(2) by (intro dropWhile_hd) (simp_all add: hd_rev)
  moreover have "dropWhile code_space (rev (45 # s)) = rev (45 # s)"
    using digits_not_marks(2) [OF assms] assms(2) by (intro dropWhile_hd) (simp_all add: hd_append hd_rev)
  moreover have "dropWhile code_space s = s"
    using digits_not_marks(1) [OF assms] assms(2) by (intro dropWhile_hd)
  moreover have "\<not> code_space 45"
    by (simp add: code_space_def)
  ultimately show "int_of_text (Some s) = Inr (int (code_value s))" "int_of_text (Some (45 # s)) = Inr (- int (code_value s))"
    using digits_not_marks(3,4) [OF assms] assms(2) code_groups_digits [OF assms(1), of False]
    by (simp_all add: int_of_text_def)
qed

lemma int_of_text_dec: "int_of_text (Some (asc (int_dec i))) = Inr i"
  using int_of_text_digits [OF code_digits_nat [of "nat i"]] int_of_text_digits [OF code_digits_nat [of "nat (- i)"]]
  by (simp add: int_dec_def code_value_nat nat_dec_not_Nil asc_facts)

lemma match_mention_dec: "match_mention (asc ''tg://user?id='' @ asc (nat_dec n)) = Some (int n)"
proof -
  have "takeWhile code_digit (asc (nat_dec n)) = asc (nat_dec n)"
    using code_digits_nat [of n] by (simp add: list_all_iff)
  then show ?thesis
    by (simp only: match_mention_def drop_code_prefix_append option.case)
      (simp add: asc_facts nat_dec_not_Nil code_value_nat)
qed

lemma date_format_letters:
  "date_format_ok f \<Longrightarrow> has CHR ''t'' f \<Longrightarrow> \<not> has CHR ''T'' f"
  "date_format_ok f \<Longrightarrow> has CHR ''d'' f \<Longrightarrow> \<not> has CHR ''D'' f"
  by (cases f; cases "tl f"; cases "tl (tl f)"; auto simp: date_format_ok_def has_def Let_def split: if_splits)+

lemma formatted_date_plain: "plain_type (DATE_TIME t f) \<Longrightarrow> map_option Inr (raw_of_type (DATE_TIME t f)) = Some (formatted_date t f)"
  using date_format_letters [of f] by (auto simp: formatted_date_def has_def)

lemma tag_kind_link:
  assumes "plain_type ty" "tag_name ty = Some ''a''"
  shows "tag_kind ''a'' (tag_attrs ty) = Inr (raw_of_type ty)"
proof (cases ty)
  case (TEXT_MENTION user)
  then have "match_mention (asc ''tg://user?id='' @ asc (int_dec user)) = Some user"
    using assms(1) match_mention_dec [of "nat user"] by (simp add: int_dec_def del: asc_simps)
  then show ?thesis
    by (simp add: TEXT_MENTION tag_kind_def attr_get_def del: asc_simps)
next
  case (TEXT_LINK url)
  then show ?thesis
    using assms(1) by (simp add: tag_kind_def attr_get_def del: asc_simps)
qed (use assms(2) in simp_all)

lemma tag_kind_time:
  assumes "plain_type (DATE_TIME t f)"
  shows "tag_kind ''tg-time'' (tag_attrs (DATE_TIME t f)) = Inr (raw_of_type (DATE_TIME t f))"
proof -
  have "attr_get (tag_attrs (DATE_TIME t f)) ''unix'' None = Some (asc (int_dec t))"
      "attr_get (tag_attrs (DATE_TIME t f)) ''format'' (Some []) = Some f"
    by (simp_all add: attr_get_def)
  moreover have "map_option Inr (raw_of_type (DATE_TIME t f)) = Some (formatted_date t f)"
    by (rule formatted_date_plain [OF assms])
  then have "formatted_date t f = Inr (the (raw_of_type (DATE_TIME t f)))"
    by simp
  ultimately show ?thesis
    by (simp add: tag_kind_def int_of_text_dec del: tag_attrs.simps)
qed

lemma tag_kind_written:
  assumes "plain_type ty" "tag_name ty = Some tag"
  shows "tag_kind tag (tag_attrs ty) = Inr (raw_of_type ty)"
proof -
  have tag: "tag = the (tag_name ty)"
    using assms(2) by simp
  show ?thesis
  proof (cases ty)
    case (TEXT_LINK url)
    then show ?thesis
      using tag_kind_link [OF assms(1)] tag by simp
  next
    case (TEXT_MENTION user)
    then show ?thesis
      using tag_kind_link [OF assms(1)] tag by simp
  next
    case (DATE_TIME t f)
    then show ?thesis
      using tag_kind_time [of t f] assms(1) tag by simp
  next
    case (BLOCKQUOTE expandable)
    then show ?thesis
      by (cases expandable) (simp_all add: tag tag_kind_def)
  next
    case (OTHER_TYPE s)
    then show ?thesis
      using assms(2) by simp
  qed (simp_all add: tag tag_kind_def attr_get_def int_of_text_dec)
qed

text \<open>A tag is read as it was written.\<close>

definition stops :: "pystr \<Rightarrow> bool" where
  "stops s = (s = [] \<or> hd s = LT)"

lemma tag_names:
  assumes "tag_name ty = Some tag"
  shows "tag \<noteq> []" "tag_letter (of_char (hd tag))" "list_all (\<lambda>c. name_code (of_char c)) tag" "tag \<notin> raw_text_tags"
  using assms
  by (cases ty; auto simp: tag_letter_def name_code_def code_digit_def raw_text_tags_def)+

lemma plain_attrs:
  assumes "plain_type ty" "a \<in> set (tag_attrs ty)"
  shows "plain_attr a"
proof -
  have "plain (asc ''tg://user?id='')"
    by (simp add: plain_def scalar_def surrogate_def mark_defs)
  then show ?thesis
    using assms
    by (cases ty) (auto simp: tag_letter_def name_code_def code_digit_def plain_append plain_int_dec
        simp del: asc_simps split: if_splits)
qed

lemma lex_start_tag:
  assumes "plain_type ty" "tag_name ty = Some tag" "\<And>v. plain v \<Longrightarrow> u v = v"
  shows "lex_token u (start_tag ty @ r) = Some (StartTag tag (tag_attrs ty), r)"
proof -
  let ?as = "concat (map write_attr (tag_attrs ty))"
  let ?r = "?as @ GT # r"
  note n = tag_names [OF assms(2)]
  have "hd ?r = GT \<or> hd ?r = 32"
  proof (cases "tag_attrs ty")
    case (Cons b bs)
    then show ?thesis
      by (cases b rule: write_attr.cases) (simp_all add: attribute_def)
  qed simp
  then have w: "takeWhile name_code (asc tag @ ?r) = asc tag" "dropWhile name_code (asc tag @ ?r) = ?r"
    using takeWhile_name [OF n(3), of ?r] by auto
  have "hd (asc tag @ ?r) \<noteq> SLASH"
    using n(1,2) by (simp add: asc_facts hd_append tag_letter_def mark_defs)
  moreover have "lex_attrs u ?r = Some (tag_attrs ty, r)"
    using plain_attrs [OF assms(1)] assms(3) by (intro lex_attrs_written) blast+
  ultimately have "lex_token u (LT # asc tag @ ?r) = Some (StartTag tag (tag_attrs ty), r)"
    using n(1,2,4) by (simp add: lex_token_def Let_def w asc_facts)
  then show ?thesis
    by (simp add: start_tag_def open_tag_def assms(2))
qed

lemma lex_end_tag:
  assumes "tag_name ty = Some tag"
  shows "lex_token u (end_tag ty @ r) = Some (EndTag tag, r)"
proof -
  note n = tag_names [OF assms]
  have "takeWhile name_code (asc tag @ GT # r) = asc tag" "dropWhile name_code (asc tag @ GT # r) = GT # r"
    using takeWhile_name [OF n(3), of "GT # r"] by auto
  then have "lex_token u (LT # SLASH # asc tag @ GT # r) = Some (EndTag tag, r)"
    using n(1,2) by (simp add: lex_token_def Let_def asc_facts)
  then show ?thesis
    by (simp add: end_tag_def close_tag_def assms)
qed

lemma lex_text:
  assumes "s \<noteq> []" "LT \<notin> set s" "stops r"
  shows "lex_token u (s @ r) = Some (Data (u s), r)"
proof -
  have "takeWhile (\<lambda>c. c \<noteq> LT) (s @ r) = s" "dropWhile (\<lambda>c. c \<noteq> LT) (s @ r) = r"
    using assms(2,3) by (induction s) (cases r; auto simp: stops_def)+
  moreover have "hd (s @ r) \<noteq> LT"
    using assms(1,2) by (cases s) auto
  ultimately show ?thesis
    using assms(1) by (simp add: lex_token_def)
qed

text \<open>Enough fuel is as good as more.\<close>

lemma lex_attrs_shorter: "lex_attrs u s = Some (as, r) \<Longrightarrow> length r < length s"
proof (induction u s arbitrary: as r rule: lex_attrs.induct)
  case (2 u c s)
  show ?case
  proof (cases "c = GT")
    case True
    then show ?thesis
      using "2.prems" by auto
  next
    case False
    then have "c = 32" "takeWhile name_code s \<noteq> []" "tag_letter (hd (takeWhile name_code s))"
      using "2.prems" by (auto simp: Let_def split: if_splits)
    moreover from this obtain v r1 as' where r1: "attr_value u (dropWhile name_code s) = Some (v, r1)"
        "lex_attrs u r1 = Some (as', r)"
      using "2.prems" False by (auto split: option.splits)
    ultimately have "length r < length r1"
      using "2.IH" [OF False _ refl _ r1(1) refl r1(2)] by simp
    then show ?thesis
      using attr_value_shorter [OF r1(1)] length_dropWhile_le [of name_code s] by simp
  qed
qed simp

lemma lex_token_shorter: "lex_token u s = Some (ev, r) \<Longrightarrow> length r < length s"
proof -
  assume a: "lex_token u s = Some (ev, r)"
  then obtain c t where s: "s = c # t"
    by (cases s) (simp_all add: lex_token_def)
  show ?thesis
  proof (cases "c = LT")
    case False
    then have "r = dropWhile (\<lambda>c. c \<noteq> LT) t"
      using a by (auto simp: lex_token_def s)
    then show ?thesis
      by (simp add: s less_Suc_eq_le length_dropWhile_le)
  next
    case True
    let ?closing = "t \<noteq> [] \<and> hd t = SLASH"
    show ?thesis
    proof (cases ?closing)
      case c: True
      then have "dropWhile name_code (tl t) = GT # r"
        using a True by (auto simp: lex_token_def Let_def s split: if_splits list.splits)
      then show ?thesis
        using length_dropWhile_le [of name_code "tl t"] by (simp add: s)
    next
      case c: False
      then obtain as where "lex_attrs u (dropWhile name_code t) = Some (as, r)"
        using a True by (auto simp: lex_token_def Let_def s split: if_splits)
      then show ?thesis
        using lex_attrs_shorter [of u "dropWhile name_code t" as r] length_dropWhile_le [of name_code t] by (simp add: s)
    qed
  qed
qed

lemma lex_fuel_enough: "length s \<le> n \<Longrightarrow> lex_fuel n u s = lex u s"
proof (induction "length s" arbitrary: s n rule: less_induct)
  case less
  show ?case
  proof (cases s)
    case Nil
    then show ?thesis
      by (cases n) (simp_all add: lex_def)
  next
    case (Cons c s')
    then obtain m where m: "n = Suc m"
      using less(2) by (cases n) auto
    have "lex_fuel m u r = lex_fuel (length s') u r" if "lex_token u s = Some (ev, r)" for ev r
      using less(1) [of r m] less(1) [of r "length s'"] lex_token_shorter [OF that] less(2) Cons m by simp
    then show ?thesis
      by (auto simp: lex_def Cons m split: option.splits)
  qed
qed

lemma lex_step: "lex_token u s = Some (ev, r) \<Longrightarrow> lex u s = map_option ((#) ev) (lex u r)"
proof -
  assume t: "lex_token u s = Some (ev, r)"
  then obtain c s' where s: "s = c # s'"
    by (cases s) (simp_all add: lex_token_def)
  have "lex_fuel (length s') u r = lex u r"
    using lex_token_shorter [OF t] s by (intro lex_fuel_enough) simp
  then show ?thesis
    using t by (simp add: lex_def s)
qed

text \<open>A forest in normal form has no empty texts and no two texts in a row, and one that can be written has
  no ampersands and only entities that keep their meaning.\<close>

fun normal :: "node list \<Rightarrow> bool" where
  "normal [] = True"
| "normal (Txt s # ns) = (s \<noteq> [] \<and> (ns = [] \<or> \<not> is_txt (hd ns)) \<and> normal ns)"
| "normal (Elem ty cs # ns) = (normal cs \<and> normal ns)"

fun writable :: "node list \<Rightarrow> bool" where
  "writable [] = True"
| "writable (Txt s # ns) = (38 \<notin> set s \<and> writable ns)"
| "writable (Elem ty cs # ns) = (plain_type ty \<and> writable cs \<and> writable ns)"

fun node_events :: "node list \<Rightarrow> html_event list" where
  "node_events [] = []"
| "node_events (Txt s # ns) = Data s # node_events ns"
| "node_events (Elem ty cs # ns) =
    StartTag (the (tag_name ty)) (tag_attrs ty) # node_events cs @ EndTag (the (tag_name ty)) # node_events ns"

definition unescapes :: "(pystr \<Rightarrow> pystr) \<Rightarrow> bool" where
  "unescapes u = ((\<forall>s. u (escape s) = s) \<and> (\<forall>s. 38 \<notin> set s \<longrightarrow> u s = s))"

lemma unescapes_simps: "unescapes u \<Longrightarrow> u (escape s) = s" "unescapes u \<Longrightarrow> 38 \<notin> set s \<Longrightarrow> u s = s"
    "unescapes u \<Longrightarrow> plain s \<Longrightarrow> u s = s"
  by (auto simp: unescapes_def plain_def)

lemma escape_no_tag: "LT \<notin> set (escape s)" "s \<noteq> [] \<Longrightarrow> escape s \<noteq> []"
  by (induction s) (auto simp: escape_char_def mark_defs)

lemma stops_nodes: "stops rest \<Longrightarrow> ns = [] \<or> \<not> is_txt (hd ns) \<Longrightarrow> stops (nodes_html ns @ rest)"
  by (cases ns rule: nodes_html.cases) (auto simp: stops_def start_tag_def open_tag_def)

lemma lex_nodes:
  assumes "unescapes u"
  shows "tagged ns \<Longrightarrow> normal ns \<Longrightarrow> writable ns \<Longrightarrow> stops rest \<Longrightarrow>
    lex u (nodes_html ns @ rest) = map_option ((@) (node_events ns)) (lex u rest)"
proof (induction ns arbitrary: rest rule: nodes_html.induct)
  case 1
  then show ?case
    by (cases "lex u rest") simp_all
next
  case (2 s ns)
  have "lex_token u (escape s @ nodes_html ns @ rest) = Some (Data s, nodes_html ns @ rest)"
    using lex_text [OF escape_no_tag(2) escape_no_tag(1) stops_nodes, of s rest ns u] 2(3,5) unescapes_simps(1) [OF assms]
    by simp
  then show ?case
    using 2(1) [of rest] 2(2-5) lex_step by (simp add: option.map_comp o_def)
next
  case (3 ty cs ns)
  obtain tag where tag: "tag_name ty = Some tag"
    using 3(3) by auto
  let ?rest = "end_tag ty @ nodes_html ns @ rest"
  have "stops ?rest"
    by (simp add: stops_def end_tag_def close_tag_def)
  then have inner: "lex u (nodes_html cs @ ?rest) = map_option ((@) (node_events cs)) (lex u ?rest)"
    using 3(1) [of ?rest] 3(3-5) by simp
  have "lex u ?rest = map_option ((#) (EndTag tag)) (lex u (nodes_html ns @ rest))"
    by (rule lex_step [OF lex_end_tag [OF tag]])
  moreover have "lex u (start_tag ty @ nodes_html cs @ ?rest) = map_option ((#) (StartTag tag (tag_attrs ty))) (lex u (nodes_html cs @ ?rest))"
    using 3(5) unescapes_simps(3) [OF assms] by (intro lex_step lex_start_tag tag) simp_all
  ultimately show ?case
    using inner 3(2) [of rest] 3(3-6) by (simp add: tag option.map_comp o_def)
qed

section \<open>The entities read\<close>

definition raw_of :: "message_entity \<Rightarrow> raw_entity" where
  "raw_of e = \<lparr>re_kind = the (raw_of_type (me_type e)), re_offset = me_offset e, re_length = me_length e\<rparr>"

fun closed_order :: "nat \<Rightarrow> node list \<Rightarrow> message_entity list" where
  "closed_order off [] = []"
| "closed_order off (Txt s # ns) = closed_order (off + length s) ns"
| "closed_order off (Elem ty cs # ns) =
    closed_order off cs @ \<lparr>me_type = ty, me_offset = off, me_length = width cs\<rparr> # closed_order (off + width cs) ns"

lemma closed_order_mset: "mset (closed_order off ns) = mset (nodes_entities off ns)"
  by (induction off ns rule: closed_order.induct) simp_all

lemma grow_grow [simp]: "grow a (grow b e) = grow (b + a) e"
  by (cases e) (simp add: grow_def)

lemma grow_zero [simp]: "grow 0 e = e"
  by (simp add: grow_def)

lemma handle_events_append: "handle_events u (xs @ ys) p = bind_res (handle_events u xs p) (handle_events u ys)"
  by (induction xs arbitrary: p) (auto simp: bind_res_def split: sum.splits)

lemma handle_nodes:
  assumes "unescapes u"
  shows "tagged ns \<Longrightarrow> writable ns \<Longrightarrow> length (hp_text p) = off \<Longrightarrow>
    handle_events u (node_events ns) p = Inr \<lparr>hp_text = hp_text p @ nodes_text ns,
      hp_entities = hp_entities p @ map raw_of (closed_order off ns),
      hp_open = (\<lambda>t. map (grow (width ns)) (hp_open p t))\<rparr>"
proof (induction off ns arbitrary: p rule: closed_order.induct)
  case (1 off)
  have "map (grow 0) es = es" for es
    by (induction es) simp_all
  then show ?case
    by simp
next
  case (2 off s ns)
  have "handle_data u s p = \<lparr>hp_text = hp_text p @ s, hp_entities = hp_entities p, hp_open = (\<lambda>t. map (grow (length s)) (hp_open p t))\<rparr>"
    using unescapes_simps(2) [OF assms] 2(3) by (simp add: handle_data_def)
  then show ?case
    using 2 by (simp add: o_def)
next
  case (3 off ty cs ns)
  obtain tag k where tag: "tag_name ty = Some tag" and k: "raw_of_type ty = Some k"
    using 3(3) by (cases ty) auto
  let ?e = "\<lparr>re_kind = k, re_offset = off, re_length = 0\<rparr>"
  let ?p1 = "p\<lparr>hp_open := (hp_open p)(tag := hp_open p tag @ [?e])\<rparr>"
  let ?p2 = "\<lparr>hp_text = hp_text p @ nodes_text cs, hp_entities = hp_entities p @ map raw_of (closed_order off cs),
      hp_open = (\<lambda>t. map (grow (width cs)) (hp_open ?p1 t))\<rparr>"
  let ?p3 = "\<lparr>hp_text = hp_text p @ nodes_text cs,
      hp_entities = hp_entities p @ map raw_of (closed_order off cs) @ [grow (width cs) ?e],
      hp_open = (\<lambda>t. map (grow (width cs)) (hp_open p t))\<rparr>"
  have "handle_starttag tag (tag_attrs ty) p = Inr ?p1"
    using tag_kind_written [OF _ tag] 3(4,5) by (simp add: handle_starttag_def k)
  moreover have "handle_events u (node_events cs) ?p1 = Inr ?p2"
    using 3(1) [of ?p1] 3(3-5) by simp
  moreover have "handle_endtag tag ?p2 = ?p3"
    by (auto simp: handle_endtag_def map_butlast fun_eq_iff)
  moreover have "handle_events u (node_events ns) ?p3 = Inr \<lparr>hp_text = hp_text ?p3 @ nodes_text ns,
      hp_entities = hp_entities ?p3 @ map raw_of (closed_order (off + width cs) ns),
      hp_open = (\<lambda>t. map (grow (width ns)) (hp_open ?p3 t))\<rparr>"
    using 3(3-5) by (intro 3(2)) (simp_all add: width_def)
  ultimately show ?case
    by (simp add: tag handle_events_append o_def) (simp add: raw_of_def grow_def k)
qed

section \<open>Code units\<close>

fun units :: "node list \<Rightarrow> node list" where
  "units [] = []"
| "units (Txt s # ns) = Txt (add_surrogates s) # units ns"
| "units (Elem ty cs # ns) = Elem ty (units cs) # units ns"

lemma add_surrogates_append: "add_surrogates (s @ t) = add_surrogates s @ add_surrogates t"
  by (simp add: add_surrogates_def)

lemma add_surrogates_Cons: "add_surrogates (c # s) = surrogate_pair c @ add_surrogates s"
  by (simp add: add_surrogates_def)

lemma add_surrogates_empty [simp]: "add_surrogates s = [] \<longleftrightarrow> s = []" "add_surrogates [] = []"
  by (cases s; auto simp: add_surrogates_def surrogate_pair_def)+

lemma surrogate_pair_escape: "escape (surrogate_pair c) = add_surrogates (escape_char c)"
proof (cases "0x10000 \<le> c")
  case True
  then show ?thesis
    by (simp add: surrogate_pair_def escape_char_def add_surrogates_def mark_defs)
next
  case False
  then show ?thesis
    by (auto simp: surrogate_pair_def escape_char_def intro!: add_surrogates_bmp [symmetric])
qed

lemma add_surrogates_escape: "add_surrogates (escape s) = escape (add_surrogates s)"
  by (induction s) (simp_all add: add_surrogates_append add_surrogates_Cons surrogate_pair_escape)

lemma units_text: "nodes_text (units ns) = add_surrogates (nodes_text ns)"
  by (induction ns rule: units.induct) (simp_all add: add_surrogates_append)

lemma units_lead: "lead (units ns) = add_surrogates (lead ns)"
  by (induction ns rule: lead.induct) (simp_all add: add_surrogates_append)

lemma units_txt: "list_all is_txt (units ns) = list_all is_txt ns"
  by (induction ns rule: lead.induct) simp_all

lemma units_trail: "trail (units ns) = add_surrogates (trail ns)"
  by (induction ns rule: trail.induct) (simp_all add: add_surrogates_append units_txt)

lemma units_tagged: "tagged ns \<Longrightarrow> tagged (units ns)"
  by (induction ns rule: tagged.induct) (simp_all add: width_def units_text)

lemma units_normal: "normal ns \<Longrightarrow> normal (units ns)"
proof (induction ns rule: normal.induct)
  case (2 s ns)
  then show ?case
    by (cases ns rule: units.cases) auto
qed simp_all

lemma surrogate_pair_amp: "38 \<notin> set s \<Longrightarrow> 38 \<notin> set (add_surrogates s)"
  by (auto simp: add_surrogates_def surrogate_pair_def split: if_splits)

lemma units_writable: "writable ns \<Longrightarrow> writable (units ns)"
  by (induction ns rule: writable.induct) (simp_all add: surrogate_pair_amp)

text \<open>The tags stay as they are.\<close>

definition bmp_scalars :: "pystr \<Rightarrow> bool" where
  "bmp_scalars s = (\<forall>c \<in> set s. c < 0x10000 \<and> scalar c)"

lemma bmp_scalars_simps [simp]: "bmp_scalars []" "bmp_scalars (c # s) = (c < 0x10000 \<and> scalar c \<and> bmp_scalars s)"
    "bmp_scalars (s @ t) = (bmp_scalars s \<and> bmp_scalars t)"
  by (auto simp: bmp_scalars_def)

lemma bmp_asc [simp]: "bmp_scalars (asc s)"
proof (induction s)
  case (Cons c s)
  have "(of_char c :: nat) < 256"
    by (rule nat_of_char_less_256)
  then have "(of_char c :: nat) < 0x10000" "scalar (of_char c)"
    unfolding scalar_def surrogate_def by linarith+
  then show ?case
    using Cons by simp
qed simp

lemma bmp_marks [simp]: "scalar LT" "scalar GT" "scalar SLASH" "scalar QUOTE" "scalar 32" "scalar 61"
    "LT < 0x10000" "GT < 0x10000" "SLASH < 0x10000" "QUOTE < 0x10000"
  by (simp_all add: scalar_def surrogate_def mark_defs)

lemma bmp_attr: "plain_attr a \<Longrightarrow> bmp_scalars (write_attr a)"
proof (cases a rule: write_attr.cases)
  case (1 name v)
  moreover assume "plain_attr a"
  ultimately have "bmp_scalars v"
    by (auto simp: plain_def bmp_scalars_def)
  then show ?thesis
    using 1 by (simp add: attribute_def)
qed simp

lemma bmp_attrs: "(\<And>a. a \<in> set as \<Longrightarrow> plain_attr a) \<Longrightarrow> bmp_scalars (concat (map write_attr as))"
  by (induction as) (simp_all add: bmp_attr)

lemma bmp_tags: "plain_type ty \<Longrightarrow> bmp_scalars (start_tag ty)" "bmp_scalars (end_tag ty)"
  using bmp_attrs [of "tag_attrs ty", OF plain_attrs]
  by (simp_all add: start_tag_def open_tag_def end_tag_def close_tag_def)

lemma bmp_unchanged: "bmp_scalars s \<Longrightarrow> add_surrogates s = s"
  by (rule add_surrogates_bmp) (simp add: bmp_scalars_def)

lemma units_html: "writable ns \<Longrightarrow> nodes_html (units ns) = add_surrogates (nodes_html ns)"
  by (induction ns rule: nodes_html.induct)
    (simp_all add: add_surrogates_append add_surrogates_escape bmp_tags bmp_unchanged)

lemma scalar_escape: "\<forall>c \<in> set s. scalar c \<Longrightarrow> c \<in> set (escape s) \<Longrightarrow> scalar c"
proof (induction s)
  case (Cons x s)
  moreover have "c \<in> set (escape_char x) \<Longrightarrow> scalar c"
    using Cons(2) by (auto simp: escape_char_def scalar_def surrogate_def split: if_splits)
  ultimately show ?case
    by auto
qed simp

lemma scalar_html: "writable ns \<Longrightarrow> \<forall>c \<in> set (nodes_text ns). scalar c \<Longrightarrow> \<forall>c \<in> set (nodes_html ns). scalar c"
proof (induction ns rule: nodes_html.induct)
  case (2 s ns)
  then show ?case
    using scalar_escape [of s] by auto
next
  case (3 ty cs ns)
  then show ?case
    using bmp_tags [of ty] by (auto simp: bmp_scalars_def)
qed simp

section \<open>Writing and reading\<close>

lemma html_unparse_nodes:
  assumes "tagged ns" "writable ns" "\<forall>c \<in> set (nodes_text ns). scalar c"
    "escape (lead ns) = lead ns" "escape (trail ns) = trail ns"
  shows "html_unparse (nodes_text ns) (nodes_entities 0 (units ns)) = nodes_html ns"
proof -
  let ?ns = "units ns" and ?key = "\<lambda>e. (me_offset e, - int (me_length e))"
  have tagged: "tagged ?ns"
    by (rule units_tagged [OF assms(1)])
  have "nest None (nodes_entities 0 ?ns @ []) = (tag_pairs 0 ?ns @ [], [])"
    by (rule nest_nodes [OF tagged]) (simp_all add: follows_def)
  moreover have "sort_key ?key (nodes_entities 0 ?ns) = nodes_entities 0 ?ns"
    by (rule sort_key_id_if_sorted [OF nodes_entities_sorted [OF tagged]])
  ultimately have pairs: "html_unparse (nodes_text ns) (nodes_entities 0 ?ns) = remove_surrogates
      (if tag_pairs 0 ?ns = [] then nodes_text ?ns
       else insert_tags (rev (tag_pairs 0 ?ns)) (snd (last (tag_pairs 0 ?ns))) (nodes_text ?ns))"
    by (simp add: html_unparse_def Let_def units_text)
  have plain: "escape (lead ?ns) = lead ?ns" "escape (trail ?ns) = trail ?ns"
    using assms(4,5) by (simp_all add: units_lead units_trail flip: add_surrogates_escape)
  have "(if tag_pairs 0 ?ns = [] then nodes_text ?ns
       else insert_tags (rev (tag_pairs 0 ?ns)) (snd (last (tag_pairs 0 ?ns))) (nodes_text ?ns)) = nodes_html ?ns"
  proof (cases "list_all is_txt ?ns")
    case True
    then show ?thesis
      using all_text [OF True] plain(1) by (simp add: tag_pairs_empty)
  next
    case False
    then show ?thesis
      using insert_nodes [OF False plain] by (simp add: tag_pairs_empty)
  qed
  then show ?thesis
    using scalar_html [OF assms(2,3)] by (simp add: pairs units_html [OF assms(2)] remove_add_surrogates)
qed

lemma kept_all: "\<forall>e \<in> set es. keep_entity client e = Inr True \<Longrightarrow> kept_entities client es = Inr es"
  by (induction es) simp_all

text \<open>The tags of a forest are read as the forest.\<close>

lemma html_parse_nodes:
  assumes "unescapes unescape" "tagged ns" "normal ns" "writable ns" "\<forall>c \<in> set (nodes_text ns). scalar c"
    "strip_end letter (strip_start letter (nodes_html ns)) = nodes_html ns"
    "\<forall>e \<in> set (nodes_entities 0 (units ns)). keep_entity client (raw_of e) = Inr True"
  shows "\<exists>es. html_parse letter unescape client (nodes_html ns) = Some (Inr (nodes_text ns, es)) \<and>
    mset es = mset (map raw_of (nodes_entities 0 (units ns)))"
proof -
  let ?ns = "units ns"
  let ?raw = "map raw_of (closed_order 0 ?ns)"
  have "lex unescape (nodes_html ?ns @ []) = map_option ((@) (node_events ?ns)) (lex unescape [])"
    by (rule lex_nodes [OF assms(1) units_tagged [OF assms(2)] units_normal [OF assms(3)] units_writable [OF assms(4)]])
      (simp add: stops_def)
  then have events: "lex unescape (add_surrogates (nodes_html ns)) = Some (node_events ?ns)"
    by (simp add: units_html [OF assms(4)] lex_def)
  have handled: "handle_events unescape (node_events ?ns) new_parser =
      Inr \<lparr>hp_text = nodes_text ?ns, hp_entities = ?raw, hp_open = (\<lambda>_. [])\<rparr>"
    using handle_nodes [OF assms(1) units_tagged [OF assms(2)] units_writable [OF assms(4)], of new_parser 0]
    by (simp add: new_parser_def)
  have same: "set (closed_order 0 ?ns) = set (nodes_entities 0 ?ns)"
    using closed_order_mset [of 0 ?ns] by (metis set_mset_mset)
  have "kept_entities client ?raw = Inr ?raw"
    by (rule kept_all) (use assms(7) same in auto)
  moreover have "filter (\<lambda>e. 0 < re_length e) ?raw = ?raw"
    using nodes_entities_within [OF units_tagged [OF assms(2)], of _ 0] same
    by (auto simp: filter_id_conv raw_of_def)
  ultimately have "parser_result client \<lparr>hp_text = nodes_text ?ns, hp_entities = ?raw, hp_open = (\<lambda>_. [])\<rparr> =
      Inr (nodes_text ns, sort_key re_offset ?raw)"
    using assms(5) by (simp add: parser_result_def units_text remove_add_surrogates)
  then have "html_parse letter unescape client (nodes_html ns) = Some (Inr (nodes_text ns, sort_key re_offset ?raw))"
    using assms(6) by (simp add: html_parse_def events handled)
  moreover have "mset (sort_key re_offset ?raw) = mset (map raw_of (nodes_entities 0 ?ns))"
    using closed_order_mset [of 0 ?ns] by simp
  ultimately show ?thesis
    by blast
qed

text \<open>C25: A message with properly nested entities survives being written as HTML and read again. The text is
  the same, and the entities are the same up to their order: each with its kind, its place and its length in
  UTF-16 code units, whatever the characters are. It holds for entities of kinds that have a tag, with some text each, over texts of
  Unicode scalar values, where the code provides for them: no
  ampersand is in the text and nothing to escape before the first tag or after the last; languages, addresses and date formats have
  no quotes, no ampersands and no characters from 0x10000 on; addresses are neither \<open>mailto:\<close> nor
  \<open>tg://user\<close> links, which mean other entities; mentioned users have identifiers that are not negative; date
  formats are empty or valid; the client keeps every mention; and the written text loses nothing to the stripping of white
  space. The function \<open>html.unescape\<close> is any that undoes the escaping and leaves texts without ampersands alone.\<close>

theorem html_round_trip:
  assumes "unescapes unescape" "tagged ns" "normal ns" "writable ns" "\<forall>c \<in> set (nodes_text ns). scalar c"
    "escape (lead ns) = lead ns" "escape (trail ns) = trail ns"
    "s = nodes_text ns" "entities = nodes_entities 0 (units ns)"
    "strip_end letter (strip_start letter (html_unparse s entities)) = html_unparse s entities"
    "\<forall>e \<in> set entities. keep_entity client (raw_of e) = Inr True"
  shows "\<exists>es. html_parse letter unescape client (html_unparse s entities) = Some (Inr (s, es)) \<and>
    mset es = mset (map raw_of entities)"
proof -
  have html: "html_unparse s entities = nodes_html ns"
    unfolding assms(8,9) by (rule html_unparse_nodes [OF assms(2,4-7)])
  show ?thesis
    using html_parse_nodes [OF assms(1-5), of letter client] assms(10,11) unfolding html unfolding assms(8,9) by simp
qed

text \<open>A message with text to escape, a nested link over an emoji, and a custom emoji.\<close>

definition sample_message :: "node list" where
  "sample_message = [Elem BOLD [Txt (asc ''if a<b ''), Elem (TEXT_LINK (asc ''http://x.org'')) [Txt [0x1F600, 66]]],
     Txt (asc '' and''), Elem (CUSTOM_EMOJI 5368) [Txt [0x1F44D]]]"

lemma sample_ok: "tagged sample_message" "normal sample_message" "writable sample_message"
    "\<forall>c \<in> set (nodes_text sample_message). scalar c" "escape (lead sample_message) = lead sample_message"
    "escape (trail sample_message) = trail sample_message"
  by (simp_all add: sample_message_def width_def plain_def scalar_def surrogate_def match_mention_def mark_defs)

lemma sample_html: "html_unparse (nodes_text sample_message) (nodes_entities 0 (units sample_message)) =
    asc ''<b>if a&lt;b <a href='' @ QUOTE # asc ''http://x.org'' @ QUOTE # GT # [0x1F600, 66] @ asc ''</a></b> and<tg-emoji emoji-id='' @
    QUOTE # asc ''5368'' @ QUOTE # GT # [0x1F44D] @ asc ''</tg-emoji>''"
  unfolding html_unparse_nodes [OF sample_ok(1,3-6)]
  by (simp add: sample_message_def start_tag_def end_tag_def open_tag_def close_tag_def attribute_def escape_char_def
      mark_defs int_dec_def nat_dec.simps)

theorem html_round_trip_witness:
  "\<exists>es. html_parse (\<lambda>_. False) unescape_five None
      (html_unparse (nodes_text sample_message) (nodes_entities 0 (units sample_message))) =
      Some (Inr (nodes_text sample_message, es)) \<and>
    mset es = mset (map raw_of (nodes_entities 0 (units sample_message)))"
proof (rule html_round_trip [OF _ sample_ok refl refl])
  show "unescapes unescape_five"
    by (simp add: unescapes_def unescape_five_escape unescape_five_plain)
  let ?html = "html_unparse (nodes_text sample_message) (nodes_entities 0 (units sample_message))"
  show "strip_end (\<lambda>_. False) (strip_start (\<lambda>_. False) ?html) = ?html"
    unfolding sample_html by (simp add: html_eval)
qed simp

end
