(* ===== verification/Fake_Tls.thy ===== *)
theory Fake_Tls
  imports Framing Prime "HOL-Library.Multiset"
begin

text \<open>
  The greeting of a fake TLS proxy: \<open>crypto/faketls.py\<close> builds a ClientHello from a list of
  operations and authenticates it with the secret of the proxy, and \<open>tcp.py\<close> sends it and checks
  the answer. The random source \<open>secrets\<close> and HMAC-SHA256 are parameters; the curve loop may draw
  for ever, and \<open>None\<close> means that.
\<close>

section \<open>Random draws\<close>

record 'r secrets =
  token_bytes :: "nat \<Rightarrow> 'r \<Rightarrow> bytes \<times> 'r"
  randbits :: "nat \<Rightarrow> 'r \<Rightarrow> int \<times> 'r"
  randbelow :: "nat \<Rightarrow> 'r \<Rightarrow> nat \<times> 'r"

text \<open>GREASE values: the high half of each byte is random, the low one is \<open>a\<close>, and neighbours differ.\<close>

definition GREASE_SIZE :: nat where "GREASE_SIZE = 7"

definition part_grease :: "bytes \<Rightarrow> nat \<Rightarrow> bytes" where
  "part_grease grease i =
    (if grease ! i = grease ! (i - 1) then grease[i := grease ! i XOR 0x10] else grease)"

definition generate_grease :: "'r secrets \<Rightarrow> 'r \<Rightarrow> bytes \<times> 'r" where
  "generate_grease S r =
    (let (drawn, r1) = token_bytes S GREASE_SIZE r;
         grease = map (\<lambda>b. (b AND 0xF0) + 0x0A) drawn
     in (foldl part_grease grease [1, 3, 5], r1))"

text \<open>The x25519 key share.\<close>

definition CURVE25519_PRIME :: int where "CURVE25519_PRIME = 2 ^ 255 - 19"
definition CURVE25519_A :: int where "CURVE25519_A = 486662"

definition curve25519_y_squared :: "int \<Rightarrow> int" where
  "curve25519_y_squared x = ((x + CURVE25519_A) * x + 1) * x mod CURVE25519_PRIME"

definition curve25519_double_x :: "int \<Rightarrow> int" where
  "curve25519_double_x x =
    (let denominator = curve25519_y_squared x * 4 mod CURVE25519_PRIME;
         numerator = powmod (x * x - 1) 2 CURVE25519_PRIME
     in numerator * powmod denominator (CURVE25519_PRIME - 2) CURVE25519_PRIME mod CURVE25519_PRIME)"

partial_function (option) curve25519_candidate :: "'r secrets \<Rightarrow> 'r \<Rightarrow> (int \<times> 'r) option" where
  "curve25519_candidate S r =
    (let (drawn, r1) = token_bytes S 32 r;
         x = be_int (drawn[31 := drawn ! 31 AND 0x7F])
     in if powmod (curve25519_y_squared x) ((CURVE25519_PRIME - 1) div 2) CURVE25519_PRIME = 1 then Some (x, r1)
        else curve25519_candidate S r1)"

definition generate_curve25519_key :: "'r secrets \<Rightarrow> 'r \<Rightarrow> (bytes \<times> 'r) res option" where
  "generate_curve25519_key S r =
    (case curve25519_candidate S r of
       None \<Rightarrow> None
     | Some (x, r1) \<Rightarrow>
         Some (bind_res (to_bytes_le 32 False (curve25519_double_x (curve25519_double_x (curve25519_double_x x))))
           (\<lambda>k. Inr (k, r1))))"

text \<open>The ML-KEM-768 key share: pairs of coefficients in three bytes, and a seed.\<close>

definition ML_KEM_768_MODULUS :: int where "ML_KEM_768_MODULUS = 3329"

definition coefficient_pair :: "int \<Rightarrow> int \<Rightarrow> bytes" where
  "coefficient_pair first second =
    [of_int (first AND 0xFF), of_int (drop_bit 8 first OR push_bit 4 (second AND 0x0F)), of_int (drop_bit 4 second)]"

fun coefficient_pairs :: "nat \<Rightarrow> 'r secrets \<Rightarrow> 'r \<Rightarrow> bytes \<times> 'r" where
  "coefficient_pairs 0 S r = ([], r)"
| "coefficient_pairs (Suc n) S r =
    (let (a, r1) = randbits S 32 r; (b, r2) = randbits S 32 r1; (key, r3) = coefficient_pairs n S r2
     in (coefficient_pair (a mod ML_KEM_768_MODULUS) (b mod ML_KEM_768_MODULUS) @ key, r3))"

definition generate_ml_kem_768_key :: "'r secrets \<Rightarrow> 'r \<Rightarrow> bytes \<times> 'r" where
  "generate_ml_kem_768_key S r =
    (let (key, r1) = coefficient_pairs 384 S r; (seed, r2) = token_bytes S 32 r1 in (key @ seed, r2))"

definition swap_at :: "nat \<Rightarrow> nat \<Rightarrow> 'a list \<Rightarrow> 'a list" where
  "swap_at i j xs = xs[i := xs ! j, j := xs ! i]"

fun shuffle_from :: "nat list \<Rightarrow> 'r secrets \<Rightarrow> 'a list \<Rightarrow> 'r \<Rightarrow> 'a list \<times> 'r" where
  "shuffle_from [] S xs r = (xs, r)"
| "shuffle_from (i # is) S xs r =
    (let (k, r1) = randbelow S (length xs - i) r in shuffle_from is S (swap_at i (i + k) xs) r1)"

definition shuffled :: "'r secrets \<Rightarrow> 'a list \<Rightarrow> 'r \<Rightarrow> 'a list \<times> 'r" where
  "shuffled S parts r = shuffle_from [0..<length parts - 1] S parts r"


section \<open>Writing the greeting\<close>

datatype hello_op =
    STRING bytes
  | RANDOM nat
  | ZERO nat
  | DOMAIN
  | GREASE nat
  | BEGIN_SCOPE
  | END_SCOPE
  | KEY
  | ML_KEM_768_KEY
  | PERMUTATION "hello_op list list"
  | PADDING

definition PADDING_TARGET_OFFSET :: nat where "PADDING_TARGET_OFFSET = 513"

record 'r hello_writer =
  hw_out :: bytes
  hw_scopes :: "nat list"
  hw_rand :: 'r

definition then_opt :: "'a res option \<Rightarrow> ('a \<Rightarrow> 'b res option) \<Rightarrow> 'b res option" where
  "then_opt m f = (case m of None \<Rightarrow> None | Some (Inl e) \<Rightarrow> Some (Inl e) | Some (Inr x) \<Rightarrow> f x)"

lemma then_opt_simps [simp]: "then_opt None f = None" "then_opt (Some (Inl e)) f = Some (Inl e)"
  "then_opt (Some (Inr x)) f = f x"
  by (simp_all add: then_opt_def)

definition emit :: "bytes \<Rightarrow> 'r hello_writer \<Rightarrow> 'r hello_writer" where
  "emit b w = w\<lparr>hw_out := hw_out w @ b\<rparr>"

definition emit_drawn :: "bytes \<times> 'r \<Rightarrow> 'r hello_writer \<Rightarrow> 'r hello_writer" where
  "emit_drawn d w = (emit (fst d) w)\<lparr>hw_rand := snd d\<rparr>"

definition begin_scope :: "'r hello_writer \<Rightarrow> 'r hello_writer" where
  "begin_scope w = emit [0, 0] (w\<lparr>hw_scopes := hw_scopes w @ [length (hw_out w)]\<rparr>)"

definition close_scope :: "'r hello_writer \<Rightarrow> 'r hello_writer res" where
  "close_scope w =
    (if hw_scopes w = [] then Inl IndexError
     else
       (let start = last (hw_scopes w); size = int (length (hw_out w)) - int start - 2
        in bind_res (to_bytes_be 2 False size) (\<lambda>b.
             Inr (w\<lparr>hw_out := take start (hw_out w) @ b @ drop (start + 2) (hw_out w),
                    hw_scopes := butlast (hw_scopes w)\<rparr>))))"

definition write_padding :: "'r hello_writer \<Rightarrow> 'r hello_writer res" where
  "write_padding w =
    (let size = int PADDING_TARGET_OFFSET - int (length (hw_out w))
     in if size \<le> 0 then Inr w
        else close_scope (emit (replicate (nat size) 0) (begin_scope (emit [0x00, 0x15] w))))"

fun write_op :: "'r secrets \<Rightarrow> bytes \<Rightarrow> bytes \<Rightarrow> hello_op \<Rightarrow> 'r hello_writer \<Rightarrow> 'r hello_writer res option"
  and render_ops :: "'r secrets \<Rightarrow> bytes \<Rightarrow> bytes \<Rightarrow> hello_op list \<Rightarrow> 'r hello_writer \<Rightarrow> 'r hello_writer res option"
  and render_parts :: "'r secrets \<Rightarrow> bytes \<Rightarrow> bytes \<Rightarrow> hello_op list list \<Rightarrow> 'r \<Rightarrow> (bytes list \<times> 'r) res option"
where
  "write_op S grease domain (STRING b) w = Some (Inr (emit b w))"
| "write_op S grease domain (RANDOM n) w = Some (Inr (emit_drawn (token_bytes S n (hw_rand w)) w))"
| "write_op S grease domain (ZERO n) w = Some (Inr (emit (replicate n 0) w))"
| "write_op S grease domain DOMAIN w = Some (Inr (emit domain w))"
| "write_op S grease domain (GREASE i) w =
    Some (if i < length grease then Inr (emit [grease ! i, grease ! i] w) else Inl IndexError)"
| "write_op S grease domain BEGIN_SCOPE w = Some (Inr (begin_scope w))"
| "write_op S grease domain END_SCOPE w = Some (close_scope w)"
| "write_op S grease domain KEY w =
    then_opt (generate_curve25519_key S (hw_rand w)) (\<lambda>d. Some (Inr (emit_drawn d w)))"
| "write_op S grease domain ML_KEM_768_KEY w = Some (Inr (emit_drawn (generate_ml_kem_768_key S (hw_rand w)) w))"
| "write_op S grease domain (PERMUTATION parts) w =
    then_opt (render_parts S grease domain parts (hw_rand w)) (\<lambda>(rendered, r).
      (let (order, r1) = shuffled S rendered r in Some (Inr (emit_drawn (concat order, r1) w))))"
| "write_op S grease domain PADDING w = Some (write_padding w)"
| "render_ops S grease domain [] w = Some (Inr w)"
| "render_ops S grease domain (a # ops) w =
    then_opt (write_op S grease domain a w) (\<lambda>w1. render_ops S grease domain ops w1)"
| "render_parts S grease domain [] r = Some (Inr ([], r))"
| "render_parts S grease domain (part # parts) r =
    then_opt (render_ops S grease domain part \<lparr>hw_out = [], hw_scopes = [], hw_rand = r\<rparr>) (\<lambda>w.
      then_opt (render_parts S grease domain parts (hw_rand w)) (\<lambda>(bs, r1). Some (Inr (hw_out w # bs, r1))))"

definition extension_ops :: "nat \<Rightarrow> hello_op list list" where
  "extension_ops ech_payload_size =
    [[STRING [0x00, 0x00], BEGIN_SCOPE, BEGIN_SCOPE, STRING [0x00], BEGIN_SCOPE, DOMAIN, END_SCOPE, END_SCOPE, END_SCOPE],
     [STRING [0x00, 0x05, 0x00, 0x05, 0x01, 0x00, 0x00, 0x00, 0x00]],
     [STRING [0x00, 0x0a, 0x00, 0x0c, 0x00, 0x0a], GREASE 4, STRING [0x11, 0xec, 0x00, 0x1d, 0x00, 0x17, 0x00, 0x18]],
     [STRING [0x00, 0x0b, 0x00, 0x02, 0x01, 0x00]],
     [STRING [0x00, 0x0d, 0x00, 0x18, 0x00, 0x16, 0x09, 0x04, 0x09, 0x05, 0x09, 0x06, 0x04, 0x03, 0x08, 0x04,
              0x04, 0x01, 0x05, 0x03, 0x08, 0x05, 0x05, 0x01, 0x08, 0x06, 0x06, 0x01]],
     [STRING [0x00, 0x10, 0x00, 0x0e, 0x00, 0x0c, 0x02, 0x68, 0x32, 0x08, 0x68, 0x74, 0x74, 0x70, 0x2f, 0x31, 0x2e, 0x31]],
     [STRING [0x00, 0x12, 0x00, 0x00]],
     [STRING [0x00, 0x17, 0x00, 0x00]],
     [STRING [0x00, 0x1b, 0x00, 0x03, 0x02, 0x00, 0x02]],
     [STRING [0x00, 0x23, 0x00, 0x00]],
     [STRING [0x00, 0x2b, 0x00, 0x07, 0x06], GREASE 6, STRING [0x03, 0x04, 0x03, 0x03]],
     [STRING [0x00, 0x2d, 0x00, 0x02, 0x01, 0x01]],
     [STRING [0x00, 0x33, 0x04, 0xef, 0x04, 0xed], GREASE 4, STRING [0x00, 0x01, 0x00, 0x11, 0xec, 0x04, 0xc0],
      ML_KEM_768_KEY, KEY, STRING [0x00, 0x1d, 0x00, 0x20], KEY],
     [STRING [0x44, 0xcd, 0x00, 0x05, 0x00, 0x03, 0x02, 0x68, 0x32]],
     [STRING [0xfe, 0x0d], BEGIN_SCOPE, STRING [0x00, 0x00, 0x01, 0x00, 0x01], RANDOM 1, STRING [0x00, 0x20], KEY,
      BEGIN_SCOPE, RANDOM ech_payload_size, END_SCOPE, END_SCOPE],
     [STRING [0xff, 0x01, 0x00, 0x01, 0x00]]]"

definition client_hello_ops :: "nat \<Rightarrow> hello_op list" where
  "client_hello_ops ech_payload_size =
    [STRING [0x16, 0x03, 0x01], BEGIN_SCOPE, STRING [0x01, 0x00], BEGIN_SCOPE, STRING [0x03, 0x03], ZERO 32,
     STRING [0x20], RANDOM 32, STRING [0x00, 0x20], GREASE 0,
     STRING [0x13, 0x01, 0x13, 0x02, 0x13, 0x03, 0xc0, 0x2b, 0xc0, 0x2f, 0xc0, 0x2c, 0xc0, 0x30, 0xcc, 0xa9, 0xcc, 0xa8,
             0xc0, 0x13, 0xc0, 0x14, 0x00, 0x9c, 0x00, 0x9d, 0x00, 0x2f, 0x00, 0x35, 0x01, 0x00],
     BEGIN_SCOPE, GREASE 2, STRING [0x00, 0x00], PERMUTATION (extension_ops ech_payload_size), GREASE 3,
     STRING [0x00, 0x01, 0x00], PADDING, END_SCOPE, END_SCOPE, END_SCOPE]"

text \<open>The field for the random bytes: here the keyed hash of the greeting, with the clock in its last four bytes.\<close>

definition RANDOM_OFFSET :: nat where "RANDOM_OFFSET = 11"
definition RANDOM_SIZE :: nat where "RANDOM_SIZE = 32"

definition set_random :: "bytes \<Rightarrow> bytes \<Rightarrow> bytes" where
  "set_random field b = take RANDOM_OFFSET b @ field @ drop (RANDOM_OFFSET + RANDOM_SIZE) b"

record fake_tls_hello =
  fh_record :: bytes
  fh_random :: bytes

definition stamp :: "int \<Rightarrow> bytes \<Rightarrow> bytes" where
  "stamp unix_time digest = take 28 digest @ map2 (XOR) (drop 28 digest) (le_bytes 4 (unix_time mod 2 ^ 32))"

definition build_client_hello ::
  "(bytes \<Rightarrow> bytes \<Rightarrow> bytes) \<Rightarrow> 'r secrets \<Rightarrow> nat \<Rightarrow> pystr \<Rightarrow> bytes \<Rightarrow> int \<Rightarrow> 'r \<Rightarrow> fake_tls_hello res option"
where
  "build_client_hello hmac S ech_payload_size domain secret unix_time r =
    (let (grease, r1) = generate_grease S r
     in if \<not> list_all (\<lambda>c. c < 128) domain then Some (Inl ValueError)
        else then_opt
          (render_ops S grease (map of_nat domain) (client_hello_ops ech_payload_size) \<lparr>hw_out = [], hw_scopes = [], hw_rand = r1\<rparr>)
          (\<lambda>w. let digest = stamp unix_time (hmac secret (hw_out w))
                in Some (Inr \<lparr>fh_record = set_random digest (hw_out w), fh_random = digest\<rparr>)))"

definition server_hello_is_authentic :: "(bytes \<Rightarrow> bytes \<Rightarrow> bytes) \<Rightarrow> bytes \<Rightarrow> bytes \<Rightarrow> bytes \<Rightarrow> bool" where
  "server_hello_is_authentic hmac response secret client_random =
    (if length response < RANDOM_OFFSET + RANDOM_SIZE then False
     else
       (let server_random = py_slice RANDOM_OFFSET (RANDOM_OFFSET + RANDOM_SIZE) response;
            zeroed = set_random (replicate RANDOM_SIZE 0) response
        in hmac secret (client_random @ zeroed) = server_random))"


section \<open>The greeting on the connection: tcp.py\<close>

definition GREETING_RESPONSE_PREFIXES :: "bytes list" where
  "GREETING_RESPONSE_PREFIXES = [[0x16, 0x03, 0x03], CHANGE_CIPHER_SPEC @ APPLICATION_DATA_PREFIX]"

fun read_segments :: "bytes list \<Rightarrow> bytes \<Rightarrow> socket \<Rightarrow> (bytes \<times> socket) res" where
  "read_segments [] response s = Inr (response, s)"
| "read_segments (prefix # prefixes) response s =
    bind_res (recv_from_socket (int (length prefix) + 2) s) (\<lambda>(head, s1).
      case head of
        None \<Rightarrow> Inl OSError
      | Some h \<Rightarrow>
          if take (length prefix) h \<noteq> prefix then Inl OSError
          else bind_res (recv_from_socket (be_int (drop (length h - 2) h)) s1) (\<lambda>(body, s2).
            case body of
              None \<Rightarrow> Inl OSError
            | Some b \<Rightarrow> read_segments prefixes (response @ h @ b) s2))"

definition read_greeting_response :: "socket \<Rightarrow> (bytes \<times> socket) res" where
  "read_greeting_response s = read_segments GREETING_RESPONSE_PREFIXES [] s"

text \<open>What is sent, and the socket after a greeting that was answered.\<close>

definition greet_fake_tls_proxy ::
  "(bytes \<Rightarrow> bytes \<Rightarrow> bytes) \<Rightarrow> 'r secrets \<Rightarrow> nat \<Rightarrow> pystr \<Rightarrow> bytes \<Rightarrow> int \<Rightarrow> 'r \<Rightarrow> socket \<Rightarrow> (bytes \<times> socket res) res option"
where
  "greet_fake_tls_proxy hmac S ech_payload_size domain secret now r s =
    then_opt (build_client_hello hmac S ech_payload_size domain secret now r) (\<lambda>hello.
      Some (Inr (fh_record hello,
        bind_res (read_greeting_response s) (\<lambda>(response, s1).
          if server_hello_is_authentic hmac response secret (fh_random hello) then Inr s1 else Inl OSError))))"


section \<open>The draws\<close>

text \<open>What \<open>secrets\<close> promises.\<close>

definition secrets_ok :: "'r secrets \<Rightarrow> bool" where
  "secrets_ok S =
    ((\<forall>n r. length (fst (token_bytes S n r)) = n) \<and>
     (\<forall>n r. 0 \<le> fst (randbits S n r) \<and> fst (randbits S n r) < 2 ^ n) \<and>
     (\<forall>n r. 0 < n \<longrightarrow> fst (randbelow S n r) < n))"

lemma token_bytes_length: "secrets_ok S \<Longrightarrow> token_bytes S n r = (b, r') \<Longrightarrow> length b = n"
  unfolding secrets_ok_def by (metis fst_conv)

lemma randbelow_less: "secrets_ok S \<Longrightarrow> randbelow S n r = (k, r') \<Longrightarrow> 0 < n \<Longrightarrow> k < n"
  unfolding secrets_ok_def by (metis fst_conv)

lemma CURVE25519_PRIME_pos: "0 < CURVE25519_PRIME" "CURVE25519_PRIME < 256 ^ 32"
  by (simp_all add: CURVE25519_PRIME_def)

lemma curve25519_double_x_range: "0 \<le> curve25519_double_x x" "curve25519_double_x x < 256 ^ 32"
  unfolding curve25519_double_x_def Let_def
  by (rule pos_mod_sign [OF CURVE25519_PRIME_pos(1)],
      rule less_trans [OF pos_mod_bound [OF CURVE25519_PRIME_pos(1)] CURVE25519_PRIME_pos(2)])

lemma generate_curve25519_key_length:
  "curve25519_candidate S r \<noteq> None \<Longrightarrow> \<exists>k r'. generate_curve25519_key S r = Some (Inr (k, r')) \<and> length k = 32"
  using curve25519_double_x_range
  by (auto simp: generate_curve25519_key_def to_bytes_le_def fits_def simp del: le_bytes_numeral)

lemma coefficient_pairs_length: "coefficient_pairs n S r = (key, r') \<Longrightarrow> length key = 3 * n"
  by (induction n arbitrary: r key r') (auto simp: coefficient_pair_def split: prod.splits)

lemma generate_ml_kem_768_key_length:
  "secrets_ok S \<Longrightarrow> generate_ml_kem_768_key S r = (key, r') \<Longrightarrow> length key = 1184"
  using coefficient_pairs_length [of 384 S r] token_bytes_length
  by (fastforce simp: generate_ml_kem_768_key_def split: prod.splits)

text \<open>The shuffle is a permutation.\<close>

lemma swap_at_mset: "i < length xs \<Longrightarrow> j < length xs \<Longrightarrow> mset (swap_at i j xs) = mset xs"
  unfolding swap_at_def by (rule mset_swap)

lemma shuffle_from_mset:
  "secrets_ok S \<Longrightarrow> \<forall>i \<in> set is. i < length xs \<Longrightarrow> mset (fst (shuffle_from is S xs r)) = mset xs"
proof (induction "is" S xs r rule: shuffle_from.induct)
  case (2 i "is" S xs r)
  obtain k r1 where d: "randbelow S (length xs - i) r = (k, r1)"
    by fastforce
  have i: "i < length xs" "i + k < length xs"
    using 2(3) randbelow_less [OF 2(2) d] by auto
  have len: "length (swap_at i (i + k) xs) = length xs"
    by (simp add: swap_at_def)
  show ?case
    using 2(1) [OF d [symmetric] refl 2(2)] 2(3) swap_at_mset [OF i] by (simp add: d len)
qed simp

lemma shuffled_mset: "secrets_ok S \<Longrightarrow> shuffled S xs r = (ys, r') \<Longrightarrow> mset ys = mset xs"
proof -
  assume a: "secrets_ok S" "shuffled S xs r = (ys, r')"
  have "\<forall>i \<in> set [0..<length xs - 1]. i < length xs"
    by auto
  from shuffle_from_mset [OF a(1) this, of r] show ?thesis
    using a(2) by (simp add: shuffled_def)
qed

lemma mset_map_preimage: "mset ys = mset (map f xs) \<Longrightarrow> \<exists>zs. ys = map f zs \<and> mset zs = mset xs"
proof (induction ys arbitrary: xs)
  case (Cons y ys)
  have "y \<in> f ` set xs"
    using mset_eq_setD [OF Cons(2)] by auto
  then obtain x where x: "x \<in> set xs" "y = f x"
    by blast
  have xs: "mset xs = add_mset x (mset (remove1 x xs))"
    using x(1) by simp
  have "image_mset f (mset xs) = add_mset (f x) (image_mset f (mset (remove1 x xs)))"
    by (subst xs) (rule image_mset_add_mset)
  then have "mset ys = mset (map f (remove1 x xs))"
    using Cons(2) x(2) by (simp only: mset_map mset.simps(2) add_mset_add_mset_same_iff)
  then obtain zs where zs: "ys = map f zs" "mset zs = mset (remove1 x xs)"
    using Cons(1) by blast
  have "mset (x # zs) = mset xs"
    by (subst xs) (simp only: mset.simps(2) zs(2))
  then show ?case
    using x zs(1) by (intro exI [of _ "x # zs"]) simp
qed simp

text \<open>GREASE bytes.\<close>

definition is_grease :: "byte \<Rightarrow> bool" where
  "is_grease b = (b AND 0x0F = 0x0A)"

lemma grease_byte: "is_grease ((b AND 0xF0) + 0x0A)" for b :: byte
proof -
  have disjoint: "(b AND 0xF0) AND 0x0A = 0" "(b AND 0xF0) AND 0x0F = 0"
    by (simp_all add: and.assoc)
  then have "(b AND 0xF0) + 0x0A = (b AND 0xF0) OR 0x0A"
    using word_plus_and_or [of "b AND 0xF0" "0x0A"] by simp
  then show ?thesis
    by (simp add: is_grease_def bit.conj_disj_distrib2 disjoint(2))
qed

lemma grease_flip: "is_grease b \<longrightarrow> is_grease (b XOR 0x10) \<and> b XOR 0x10 \<noteq> b" for b :: byte
proof -
  have "(b XOR 0x10) AND 0x0F = b AND 0x0F"
    by (simp add: bit.conj_xor_distrib2)
  moreover have "b XOR 0x10 \<noteq> b"
  proof
    assume "b XOR 0x10 = b"
    then have "b XOR (b XOR 0x10) = b XOR b"
      by simp
    then show False
      by (simp flip: xor.assoc)
  qed
  ultimately show ?thesis
    by (simp add: is_grease_def)
qed

lemma part_grease_facts:
  assumes "\<forall>b \<in> set g. is_grease b" "0 < i" "i < length g"
  shows "\<forall>b \<in> set (part_grease g i). is_grease b" "length (part_grease g i) = length g"
    "part_grease g i ! i \<noteq> part_grease g i ! (i - 1)" "j \<noteq> i \<Longrightarrow> part_grease g i ! j = g ! j"
proof -
  have g: "is_grease (g ! i)"
    using assms by simp
  show "\<forall>b \<in> set (part_grease g i). is_grease b"
  proof
    fix b assume "b \<in> set (part_grease g i)"
    then have "b \<in> insert (g ! i XOR 0x10) (set g)"
      using set_update_subset_insert [of g i "g ! i XOR 0x10"] by (auto simp: part_grease_def split: if_splits)
    then show "is_grease b"
      using assms(1) grease_flip g by blast
  qed
  show "part_grease g i ! i \<noteq> part_grease g i ! (i - 1)"
    using assms(2,3) grease_flip [of "g ! i"] g by (auto simp: part_grease_def)
qed (simp_all add: part_grease_def)

lemma generate_grease_facts:
  assumes "secrets_ok S" "generate_grease S r = (g, r')"
  shows "length g = 7" "\<forall>b \<in> set g. is_grease b" "g ! 3 \<noteq> g ! 2"
proof -
  obtain drawn r1 where d: "token_bytes S 7 r = (drawn, r1)"
    by fastforce
  define g0 where "g0 = map (\<lambda>b. (b AND 0xF0) + 0x0A :: byte) drawn"
  have g0: "length g0 = 7" "\<forall>b \<in> set g0. is_grease b"
    using token_bytes_length [OF assms(1) d] grease_byte by (auto simp: g0_def)
  define g1 where "g1 = part_grease g0 1"
  define g3 where "g3 = part_grease g1 3"
  have g1: "length g1 = 7" "\<forall>b \<in> set g1. is_grease b"
    unfolding g1_def using part_grease_facts(1,2) [OF g0(2), of 1] g0(1) by simp_all
  have g3: "length g3 = 7" "\<forall>b \<in> set g3. is_grease b" "g3 ! 3 \<noteq> g3 ! 2"
    unfolding g3_def using part_grease_facts(1,2,3) [OF g1(2), of 3] g1(1) by simp_all
  have g: "g = part_grease g3 5"
    using assms(2) d by (simp add: generate_grease_def GREASE_SIZE_def g0_def g1_def g3_def)
  show "length g = 7" "\<forall>b \<in> set g. is_grease b"
    unfolding g using part_grease_facts(1,2) [OF g3(2), of 5] g3(1) by simp_all
  show "g ! 3 \<noteq> g ! 2"
    unfolding g using part_grease_facts(4) [OF g3(2), of 5] g3(1,3) by simp
qed


section \<open>What a list of operations writes\<close>

text \<open>\<open>writes S g d n ops Q\<close>: after at least \<open>n\<close> bytes the operations end without an
  exception, leave the bytes before and the scopes as they are, and append bytes that satisfy \<open>Q\<close>.\<close>

definition writes :: "'r secrets \<Rightarrow> bytes \<Rightarrow> bytes \<Rightarrow> nat \<Rightarrow> hello_op list \<Rightarrow> (bytes \<Rightarrow> bool) \<Rightarrow> bool" where
  "writes S g d n ops Q =
    (\<forall>out scopes r. n \<le> length out \<longrightarrow>
      (\<exists>c r'. render_ops S g d ops \<lparr>hw_out = out, hw_scopes = scopes, hw_rand = r\<rparr> =
        Some (Inr \<lparr>hw_out = out @ c, hw_scopes = scopes, hw_rand = r'\<rparr>) \<and> Q c))"

lemma render_ops_append:
  "render_ops S g d (xs @ ys) w = then_opt (render_ops S g d xs w) (render_ops S g d ys)"
  by (induction xs arbitrary: w) (auto simp: then_opt_def split: option.splits sum.splits)

lemma writes_Nil: "Q [] \<Longrightarrow> writes S g d n [] Q"
  by (auto simp: writes_def)

lemma writes_append:
  assumes "writes S g d n xs P" "\<And>c. P c \<Longrightarrow> writes S g d (n + length c) ys (\<lambda>e. Q (c @ e))"
  shows "writes S g d n (xs @ ys) Q"
  unfolding writes_def
proof (intro allI impI)
  fix out :: bytes and scopes :: "nat list" and r :: 'a
  assume n: "n \<le> length out"
  obtain c r' where c: "render_ops S g d xs \<lparr>hw_out = out, hw_scopes = scopes, hw_rand = r\<rparr> =
      Some (Inr \<lparr>hw_out = out @ c, hw_scopes = scopes, hw_rand = r'\<rparr>)" "P c"
    using assms(1) n unfolding writes_def by blast
  have len: "n + length c \<le> length (out @ c)"
    using n by simp
  obtain e r'' where e: "render_ops S g d ys \<lparr>hw_out = out @ c, hw_scopes = scopes, hw_rand = r'\<rparr> =
      Some (Inr \<lparr>hw_out = (out @ c) @ e, hw_scopes = scopes, hw_rand = r''\<rparr>)" "Q (c @ e)"
    using assms(2) [OF c(2)] len unfolding writes_def by blast
  show "\<exists>c r'. render_ops S g d (xs @ ys) \<lparr>hw_out = out, hw_scopes = scopes, hw_rand = r\<rparr> =
      Some (Inr \<lparr>hw_out = out @ c, hw_scopes = scopes, hw_rand = r'\<rparr>) \<and> Q c"
    using c(1) e by (intro exI [of _ "c @ e"] exI [of _ r'']) (simp add: render_ops_append)
qed

lemma writes_from_start:
  "writes S g d 0 ops Q \<Longrightarrow> \<exists>c r'. render_ops S g d ops \<lparr>hw_out = [], hw_scopes = [], hw_rand = r\<rparr> =
    Some (Inr \<lparr>hw_out = c, hw_scopes = [], hw_rand = r'\<rparr>) \<and> Q c"
  unfolding writes_def by (metis append_Nil le0)

lemma writes_Cons:
  "writes S g d n [a] P \<Longrightarrow> (\<And>c. P c \<Longrightarrow> writes S g d (n + length c) ops (\<lambda>e. Q (c @ e))) \<Longrightarrow>
    writes S g d n (a # ops) Q"
  using writes_append [of S g d n "[a]" P ops Q] by simp

lemma writes_conseq: "writes S g d n ops P \<Longrightarrow> (\<And>c. P c \<Longrightarrow> Q c) \<Longrightarrow> writes S g d n ops Q"
  unfolding writes_def by metis

lemma writes_String: "writes S g d n [STRING b] (\<lambda>c. c = b)"
  by (simp add: writes_def emit_def)

lemma writes_Zero: "writes S g d n [ZERO k] (\<lambda>c. c = replicate k 0)"
  by (simp add: writes_def emit_def)

lemma writes_Domain: "writes S g d n [DOMAIN] (\<lambda>c. c = d)"
  by (simp add: writes_def emit_def)

lemma writes_Grease: "i < length g \<Longrightarrow> writes S g d n [GREASE i] (\<lambda>c. c = [g ! i, g ! i])"
  by (simp add: writes_def emit_def)

lemma writes_Random: "secrets_ok S \<Longrightarrow> writes S g d n [RANDOM k] (\<lambda>c. length c = k)"
  by (auto simp: writes_def emit_drawn_def emit_def secrets_ok_def intro!: exI)

lemma writes_Ml_kem: "secrets_ok S \<Longrightarrow> writes S g d n [ML_KEM_768_KEY] (\<lambda>c. length c = 1184)"
  using generate_ml_kem_768_key_length
  by (fastforce simp: writes_def emit_drawn_def emit_def intro!: exI prod.collapse [symmetric])

definition curve_ends :: "'r secrets \<Rightarrow> bool" where
  "curve_ends S = (\<forall>r. curve25519_candidate S r \<noteq> None)"

lemma writes_Key: "curve_ends S \<Longrightarrow> writes S g d n [KEY] (\<lambda>c. length c = 32)"
  unfolding writes_def
proof (intro allI impI)
  fix out :: bytes and scopes :: "nat list" and r :: 'a
  assume "curve_ends S"
  then obtain k r' where "generate_curve25519_key S r = Some (Inr (k, r'))" "length k = 32"
    using generate_curve25519_key_length [of S r] by (auto simp: curve_ends_def)
  then show "\<exists>c r'. render_ops S g d [KEY] \<lparr>hw_out = out, hw_scopes = scopes, hw_rand = r\<rparr> =
      Some (Inr \<lparr>hw_out = out @ c, hw_scopes = scopes, hw_rand = r'\<rparr>) \<and> length c = 32"
    by (intro exI [of _ k] exI [of _ r']) (simp add: emit_drawn_def emit_def)
qed

text \<open>A scope writes the length of what is in it.\<close>

definition block :: "bytes \<Rightarrow> bytes" where
  "block c = be_bytes 2 (int (length c)) @ c"

lemma length_block [simp]: "length (block c) = length c + 2"
  by (simp add: block_def)

lemma close_scope_block:
  "length c < 65536 \<Longrightarrow> close_scope \<lparr>hw_out = out @ 0 # 0 # c, hw_scopes = scopes @ [length out], hw_rand = r\<rparr> =
    Inr \<lparr>hw_out = out @ block c, hw_scopes = scopes, hw_rand = r\<rparr>"
  by (simp add: close_scope_def to_bytes_be_def fits_def block_def Let_def)

lemma writes_scope:
  assumes "writes S g d (n + 2) body P" "\<And>c. P c \<Longrightarrow> length c < 65536"
  shows "writes S g d n (BEGIN_SCOPE # body @ [END_SCOPE]) (\<lambda>c. \<exists>b. c = block b \<and> P b)"
  unfolding writes_def
proof (intro allI impI)
  fix out :: bytes and scopes :: "nat list" and r :: 'a
  assume n: "n \<le> length out"
  have len: "n + 2 \<le> length (out @ [0, 0])"
    using n by simp
  obtain c r' where c: "render_ops S g d body \<lparr>hw_out = out @ [0, 0], hw_scopes = scopes @ [length out], hw_rand = r\<rparr> =
      Some (Inr \<lparr>hw_out = (out @ [0, 0]) @ c, hw_scopes = scopes @ [length out], hw_rand = r'\<rparr>)" "P c"
    using assms(1) len unfolding writes_def by blast
  show "\<exists>c r'. render_ops S g d (BEGIN_SCOPE # body @ [END_SCOPE]) \<lparr>hw_out = out, hw_scopes = scopes, hw_rand = r\<rparr> =
      Some (Inr \<lparr>hw_out = out @ c, hw_scopes = scopes, hw_rand = r'\<rparr>) \<and> (\<exists>b. c = block b \<and> P b)"
    using c close_scope_block [OF assms(2) [OF c(2)], of out scopes r']
    by (intro exI [of _ "block c"] exI [of _ r']) (auto simp: render_ops_append begin_scope_def emit_def)
qed

lemma writes_padding: "PADDING_TARGET_OFFSET \<le> n \<Longrightarrow> writes S g d n [PADDING] (\<lambda>c. c = [])"
  by (auto simp: writes_def write_padding_def)


section \<open>The extensions\<close>

definition extension :: "nat \<times> bytes \<Rightarrow> bytes" where
  "extension e = be_bytes 2 (int (fst e)) @ block (snd e)"

text \<open>The server name, and the types of the extensions with their lengths.\<close>

definition server_name :: "bytes \<Rightarrow> bytes" where
  "server_name d = block (0 # block d)"

definition extension_shape :: "nat \<Rightarrow> nat \<Rightarrow> (nat \<times> nat) list" where
  "extension_shape ech_payload_size domain_size =
    [(0x0000, domain_size + 5), (0x0005, 5), (0x000a, 12), (0x000b, 2), (0x000d, 24), (0x0010, 14), (0x0012, 0),
     (0x0017, 0), (0x001b, 3), (0x0023, 0), (0x002b, 7), (0x002d, 2), (0x0033, 1263), (0x44cd, 5),
     (0xfe0d, ech_payload_size + 42), (0xff01, 1)]"

definition has_shape :: "bytes \<Rightarrow> nat \<times> bytes \<Rightarrow> nat \<times> nat \<Rightarrow> bool" where
  "has_shape d e s = (fst e = fst s \<and> length (snd e) = snd s \<and> (fst e = 0 \<longrightarrow> snd e = server_name d))"

lemma writes_extension_const:
  "c = extension e \<Longrightarrow> has_shape d e s \<Longrightarrow> writes S g d n [STRING c] (\<lambda>c. \<exists>e. c = extension e \<and> has_shape d e s)"
  by (rule writes_conseq [OF writes_String]) blast

lemma be_bytes_2: "be_bytes 2 v = [of_int (v div 256), of_int v]"
  by (simp add: be_bytes_def)

lemma writes_server_name:
  assumes "length d < 65000"
  shows "writes S g d n [STRING [0, 0], BEGIN_SCOPE, BEGIN_SCOPE, STRING [0], BEGIN_SCOPE, DOMAIN, END_SCOPE, END_SCOPE, END_SCOPE]
    (\<lambda>c. \<exists>e. c = extension e \<and> has_shape d e (0, length d + 5))"
proof -
  let ?name = "STRING [0] # BEGIN_SCOPE # [DOMAIN] @ [END_SCOPE]"
  let ?list = "BEGIN_SCOPE # ?name @ [END_SCOPE]"
  have name: "writes S g d k ?name (\<lambda>c. c = 0 # block d)" for k
    by (rule writes_Cons [OF writes_String], rule writes_conseq [OF writes_scope [OF writes_Domain]]) (use assms in auto)
  have list: "writes S g d k ?list (\<lambda>c. c = server_name d)" for k
    by (rule writes_conseq [OF writes_scope [OF name]]) (use assms in \<open>auto simp: server_name_def\<close>)
  have "writes S g d n (STRING [0, 0] # BEGIN_SCOPE # ?list @ [END_SCOPE]) (\<lambda>c. c = [0, 0] @ block (server_name d))"
    by (rule writes_Cons [OF writes_String], rule writes_conseq [OF writes_scope [OF list]])
      (use assms in \<open>auto simp: server_name_def\<close>)
  then have "writes S g d n (STRING [0, 0] # BEGIN_SCOPE # ?list @ [END_SCOPE])
      (\<lambda>c. \<exists>e. c = extension e \<and> has_shape d e (0, length d + 5))"
    by (rule writes_conseq, intro exI [of _ "(0, server_name d)"])
      (simp add: extension_def has_shape_def be_bytes_2 server_name_def)
  then show ?thesis
    by simp
qed

lemma writes_groups:
  "length g = 7 \<Longrightarrow> writes S g d n [STRING [0x00, 0x0a, 0x00, 0x0c, 0x00, 0x0a], GREASE 4, STRING [0x11, 0xec, 0x00, 0x1d, 0x00, 0x17, 0x00, 0x18]]
    (\<lambda>c. \<exists>e. c = extension e \<and> has_shape d e (0x000a, 12))"
  by (rule writes_Cons [OF writes_String], rule writes_Cons [OF writes_Grease], simp, rule writes_conseq [OF writes_String])
    (auto simp: extension_def block_def be_bytes_2 has_shape_def
      intro!: exI [of _ "(10, [0, 10, g ! 4, g ! 4, 0x11, 0xec, 0x00, 0x1d, 0x00, 0x17, 0x00, 0x18])"])

lemma writes_versions:
  "length g = 7 \<Longrightarrow> writes S g d n [STRING [0x00, 0x2b, 0x00, 0x07, 0x06], GREASE 6, STRING [0x03, 0x04, 0x03, 0x03]]
    (\<lambda>c. \<exists>e. c = extension e \<and> has_shape d e (0x002b, 7))"
  by (rule writes_Cons [OF writes_String], rule writes_Cons [OF writes_Grease], simp, rule writes_conseq [OF writes_String])
    (auto simp: extension_def block_def be_bytes_2 has_shape_def
      intro!: exI [of _ "(43, [6, g ! 6, g ! 6, 3, 4, 3, 3])"])

lemma writes_key_shares:
  assumes "secrets_ok S" "curve_ends S" "length g = 7"
  shows "writes S g d n [STRING [0x00, 0x33, 0x04, 0xef, 0x04, 0xed], GREASE 4, STRING [0x00, 0x01, 0x00, 0x11, 0xec, 0x04, 0xc0],
      ML_KEM_768_KEY, KEY, STRING [0x00, 0x1d, 0x00, 0x20], KEY]
    (\<lambda>c. \<exists>e. c = extension e \<and> has_shape d e (0x0033, 1263))"
proof -
  have "writes S g d n [STRING [0x00, 0x33, 0x04, 0xef, 0x04, 0xed], GREASE 4, STRING [0x00, 0x01, 0x00, 0x11, 0xec, 0x04, 0xc0],
      ML_KEM_768_KEY, KEY, STRING [0x00, 0x1d, 0x00, 0x20], KEY]
    (\<lambda>c. \<exists>m k k'. length m = 1184 \<and> length k = 32 \<and> length k' = 32 \<and>
      c = [0x00, 0x33, 0x04, 0xef] @ [0x04, 0xed, g ! 4, g ! 4, 0x00, 0x01, 0x00, 0x11, 0xec, 0x04, 0xc0] @ m @ k @ [0x00, 0x1d, 0x00, 0x20] @ k')"
    by (rule writes_Cons [OF writes_String], rule writes_Cons [OF writes_Grease], use assms in simp,
        rule writes_Cons [OF writes_String], rule writes_Cons [OF writes_Ml_kem [OF assms(1)]],
        rule writes_Cons [OF writes_Key [OF assms(2)]], rule writes_Cons [OF writes_String],
        rule writes_conseq [OF writes_Key [OF assms(2)]]) auto
  then show ?thesis
  proof (rule writes_conseq)
    fix c
    assume "\<exists>m k k'. length m = 1184 \<and> length k = 32 \<and> length k' = 32 \<and>
      c = [0x00, 0x33, 0x04, 0xef] @ [0x04, 0xed, g ! 4, g ! 4, 0x00, 0x01, 0x00, 0x11, 0xec, 0x04, 0xc0] @ m @ k @ [0x00, 0x1d, 0x00, 0x20] @ k'"
    then obtain body where "c = [0x00, 0x33, 0x04, 0xef] @ body" "length body = 1263"
      by fastforce
    then show "\<exists>e. c = extension e \<and> has_shape d e (0x0033, 1263)"
      by (intro exI [of _ "(51, body)"]) (simp add: extension_def block_def be_bytes_2 has_shape_def)
  qed
qed

lemma writes_ech:
  assumes "secrets_ok S" "curve_ends S" "k < 65000"
  shows "writes S g d n [STRING [0xfe, 0x0d], BEGIN_SCOPE, STRING [0x00, 0x00, 0x01, 0x00, 0x01], RANDOM 1, STRING [0x00, 0x20], KEY,
      BEGIN_SCOPE, RANDOM k, END_SCOPE, END_SCOPE]
    (\<lambda>c. \<exists>e. c = extension e \<and> has_shape d e (0xfe0d, k + 42))"
proof -
  let ?body = "STRING [0x00, 0x00, 0x01, 0x00, 0x01] # RANDOM 1 # STRING [0x00, 0x20] # KEY # BEGIN_SCOPE # [RANDOM k] @ [END_SCOPE]"
  have body: "writes S g d j ?body (\<lambda>c. length c = k + 42)" for j
    by (rule writes_Cons [OF writes_String], rule writes_Cons [OF writes_Random [OF assms(1)]],
        rule writes_Cons [OF writes_String], rule writes_Cons [OF writes_Key [OF assms(2)]],
        rule writes_conseq [OF writes_scope [OF writes_Random [OF assms(1)]]]) (use assms(3) in auto)
  have "writes S g d n (STRING [0xfe, 0x0d] # BEGIN_SCOPE # ?body @ [END_SCOPE])
      (\<lambda>c. \<exists>b. c = [0xfe, 0x0d] @ block b \<and> length b = k + 42)"
    by (rule writes_Cons [OF writes_String], rule writes_conseq [OF writes_scope [OF body]]) (use assms(3) in auto)
  then have "writes S g d n (STRING [0xfe, 0x0d] # BEGIN_SCOPE # ?body @ [END_SCOPE])
      (\<lambda>c. \<exists>e. c = extension e \<and> has_shape d e (0xfe0d, k + 42))"
  proof (rule writes_conseq)
    fix c
    assume "\<exists>b. c = [0xfe, 0x0d] @ block b \<and> length b = k + 42"
    then obtain b where "c = [0xfe, 0x0d] @ block b" "length b = k + 42"
      by blast
    then show "\<exists>e. c = extension e \<and> has_shape d e (0xfe0d, k + 42)"
      by (intro exI [of _ "(0xfe0d, b)"]) (simp add: extension_def be_bytes_2 has_shape_def)
  qed
  then show ?thesis
    by simp
qed

lemma writes_const_extension:
  assumes "take 2 c = be_bytes 2 (int t)" "take 2 (drop 2 c) = be_bytes 2 (int k)" "length c = k + 4" "0 < t"
  shows "writes S g d n [STRING c] (\<lambda>c. \<exists>e. c = extension e \<and> has_shape d e (t, k))"
proof (rule writes_conseq [OF writes_String])
  fix c' assume "c' = c"
  moreover have "c = extension (t, drop 4 c)"
  proof -
    have "c = take 2 c @ take 2 (drop 2 c) @ drop 4 c"
      using append_take_drop_id [of 2 c] append_take_drop_id [of 2 "drop 2 c"] by simp
    then show ?thesis
      using assms(1-3) by (simp add: extension_def block_def)
  qed
  ultimately show "\<exists>e. c' = extension e \<and> has_shape d e (t, k)"
    using assms(3,4) by (intro exI [of _ "(t, drop 4 c)"]) (simp add: has_shape_def)
qed

lemma writes_extensions:
  assumes "secrets_ok S" "curve_ends S" "length g = 7" "length d < 65000" "k < 65000"
  shows "list_all2 (\<lambda>ops s. writes S g d 0 ops (\<lambda>c. \<exists>e. c = extension e \<and> has_shape d e s))
    (extension_ops k) (extension_shape k (length d))"
  unfolding extension_ops_def extension_shape_def list_all2_Cons list_all2_Nil
  by (intro conjI refl;
      ((rule writes_server_name [OF assms(4)] writes_groups [OF assms(3)] writes_versions [OF assms(3)]
          writes_key_shares [OF assms(1-3)] writes_ech [OF assms(1,2,5)])
       | (rule writes_const_extension; simp add: be_bytes_2)))

text \<open>The extensions in the order of the shuffle.\<close>

definition shaped :: "bytes \<Rightarrow> (nat \<times> bytes) list \<Rightarrow> (nat \<times> nat) list \<Rightarrow> bool" where
  "shaped d es shape = (\<exists>es'. mset es = mset es' \<and> list_all2 (has_shape d) es' shape)"

lemma render_parts_shape:
  "list_all2 (\<lambda>ops s. writes S g d 0 ops (\<lambda>c. \<exists>e. c = extension e \<and> has_shape d e s)) parts shape \<Longrightarrow>
    \<exists>es r'. render_parts S g d parts r = Some (Inr (map extension es, r')) \<and> list_all2 (has_shape d) es shape"
proof (induction parts shape arbitrary: r rule: list_all2_induct)
  case Nil
  then show ?case
    by (intro exI [of _ "[]"]) simp
next
  case (Cons ops parts s shape)
  have "\<exists>c r'. render_ops S g d ops \<lparr>hw_out = [], hw_scopes = [], hw_rand = r\<rparr> =
      Some (Inr \<lparr>hw_out = [] @ c, hw_scopes = [], hw_rand = r'\<rparr>) \<and> (\<exists>e. c = extension e \<and> has_shape d e s)"
    using Cons(1) unfolding writes_def by blast
  then obtain e r1 where e: "render_ops S g d ops \<lparr>hw_out = [], hw_scopes = [], hw_rand = r\<rparr> =
      Some (Inr \<lparr>hw_out = extension e, hw_scopes = [], hw_rand = r1\<rparr>)" "has_shape d e s"
    by auto
  obtain es r' where es: "render_parts S g d parts r1 = Some (Inr (map extension es, r'))" "list_all2 (has_shape d) es shape"
    using Cons(3) by blast
  show ?case
    using e es by (intro exI [of _ "e # es"] exI [of _ r']) simp
qed

lemma writes_permutation:
  assumes "secrets_ok S"
    "list_all2 (\<lambda>ops s. writes S g d 0 ops (\<lambda>c. \<exists>e. c = extension e \<and> has_shape d e s)) parts shape"
  shows "writes S g d n [PERMUTATION parts] (\<lambda>c. \<exists>es. c = concat (map extension es) \<and> shaped d es shape)"
  unfolding writes_def
proof (intro allI impI)
  fix out :: bytes and scopes :: "nat list" and r :: 'a
  obtain es r1 where es: "render_parts S g d parts r = Some (Inr (map extension es, r1))" "list_all2 (has_shape d) es shape"
    using render_parts_shape [OF assms(2)] by blast
  obtain order r2 where order: "shuffled S (map extension es) r1 = (order, r2)"
    by fastforce
  then obtain es' where es': "order = map extension es'" "mset es' = mset es"
    using shuffled_mset [OF assms(1) order] mset_map_preimage [of order extension es] by blast
  show "\<exists>c r'. render_ops S g d [PERMUTATION parts] \<lparr>hw_out = out, hw_scopes = scopes, hw_rand = r\<rparr> =
      Some (Inr \<lparr>hw_out = out @ c, hw_scopes = scopes, hw_rand = r'\<rparr>) \<and> (\<exists>es. c = concat (map extension es) \<and> shaped d es shape)"
    using es order es' by (intro exI [of _ "concat order"] exI [of _ r2]) (auto simp: emit_drawn_def emit_def shaped_def)
qed

lemma shaped_types: "shaped d es shape \<Longrightarrow> mset (map fst es) = mset (map fst shape)"
proof -
  assume "shaped d es shape"
  then obtain es' where es': "mset es = mset es'" "list_all2 (has_shape d) es' shape"
    by (auto simp: shaped_def)
  have "map fst es' = map fst shape"
    using es'(2) by (induction rule: list_all2_induct) (simp_all add: has_shape_def)
  then show ?thesis
    using es'(1) by (metis mset_map)
qed

lemma shaped_lengths: "shaped d es shape \<Longrightarrow> length (concat (map extension es)) = sum_list (map (\<lambda>s. snd s + 4) shape)"
proof -
  assume "shaped d es shape"
  then obtain es' where es': "mset es = mset es'" "list_all2 (has_shape d) es' shape"
    by (auto simp: shaped_def)
  have len: "length (concat (map extension xs)) = sum_mset (image_mset (\<lambda>e. length (snd e) + 4) (mset xs))" for xs
    by (induction xs) (simp_all add: extension_def)
  have "sum_mset (image_mset (\<lambda>e. length (snd e) + 4) (mset es')) = sum_list (map (\<lambda>s. snd s + 4) shape)"
    using es'(2) by (induction rule: list_all2_induct) (simp_all add: has_shape_def)
  then show ?thesis
    using es'(1) by (simp add: len)
qed

lemma shaped_member: "shaped d es shape \<Longrightarrow> e \<in> set es \<Longrightarrow> \<exists>s \<in> set shape. has_shape d e s"
proof -
  assume "shaped d es shape" and e: "e \<in> set es"
  then obtain es' where es': "mset es = mset es'" "list_all2 (has_shape d) es' shape"
    by (auto simp: shaped_def)
  then have "e \<in> set es'"
    using e mset_eq_setD by blast
  with es'(2) show ?thesis
    by (induction rule: list_all2_induct) auto
qed

section \<open>The whole greeting\<close>

definition SUITES :: bytes where
  "SUITES = [0x13, 0x01, 0x13, 0x02, 0x13, 0x03, 0xc0, 0x2b, 0xc0, 0x2f, 0xc0, 0x2c, 0xc0, 0x30, 0xcc, 0xa9, 0xcc, 0xa8,
             0xc0, 0x13, 0xc0, 0x14, 0x00, 0x9c, 0x00, 0x9d, 0x00, 0x2f, 0x00, 0x35]"

text \<open>A greeting with its random field, session identifier, GREASE suite and extensions.\<close>

definition hello_bytes :: "bytes \<Rightarrow> bytes \<Rightarrow> byte \<Rightarrow> (nat \<times> bytes) list \<Rightarrow> bytes" where
  "hello_bytes field session_id suite es =
    [0x16, 0x03, 0x01] @ block ([0x01, 0x00] @ block ([0x03, 0x03] @ field @ [0x20] @ session_id @ [0x00, 0x20, suite, suite] @
      SUITES @ [0x01, 0x00] @ block (concat (map extension es))))"

definition grease_type :: "byte \<Rightarrow> nat" where
  "grease_type b = 257 * unat b"

lemma grease_type_bytes: "be_bytes 2 (int (grease_type b)) = [b, b]"
proof -
  have "be_int [b, b] = int (grease_type b)"
    by (simp add: be_int_Cons grease_type_def)
  then show ?thesis
    using be_bytes_be_int [of "[b, b]"] by (simp add: numeral_2_eq_2)
qed

lemma extension_grease: "extension (grease_type b, []) = [b, b, 0, 0]" "extension (grease_type b, [0]) = [b, b, 0, 1, 0]"
  by (simp_all add: extension_def grease_type_bytes) (simp_all add: block_def be_bytes_2)

lemma shape_length: "sum_list (map (\<lambda>s. snd s + 4) (extension_shape k n)) = k + n + 1449"
  by (simp add: extension_shape_def)

definition all_extensions :: "bytes \<Rightarrow> (nat \<times> bytes) list \<Rightarrow> (nat \<times> bytes) list" where
  "all_extensions g es = (grease_type (g ! 2), []) # es @ [(grease_type (g ! 3), [0])]"

lemma length_all_extensions:
  "shaped d es (extension_shape k (length d)) \<Longrightarrow> length (concat (map extension (all_extensions g es))) = k + length d + 1458"
  using shaped_lengths [of d es] by (simp add: all_extensions_def extension_grease shape_length)

lemma writes_hello:
  assumes "secrets_ok S" "curve_ends S" "length g = 7" "k + length d < 60000"
  shows "writes S g d 0 (client_hello_ops k) (\<lambda>c. \<exists>session_id es. length session_id = 32 \<and>
    shaped d es (extension_shape k (length d)) \<and>
    c = hello_bytes (replicate 32 0) session_id (g ! 0) (all_extensions g es))"
proof -
  let ?shape = "extension_shape k (length d)"
  let ?exts = "\<lambda>es. concat (map extension (all_extensions g es))"
  let ?inner = "\<lambda>sid es. [0x03, 0x03] @ replicate 32 0 @ [0x20] @ sid @ [0x00, 0x20] @ [g ! 0, g ! 0] @ SUITES @ [0x01, 0x00] @ block (?exts es)"
  let ?b3 = "[GREASE 2, STRING [0x00, 0x00], PERMUTATION (extension_ops k), GREASE 3, STRING [0x00, 0x01, 0x00], PADDING]"
  let ?b2 = "STRING [0x03, 0x03] # ZERO 32 # STRING [0x20] # RANDOM 32 # STRING [0x00, 0x20] # GREASE 0 #
      STRING (SUITES @ [0x01, 0x00]) # BEGIN_SCOPE # ?b3 @ [END_SCOPE]"
  let ?b1 = "STRING [0x01, 0x00] # BEGIN_SCOPE # ?b2 @ [END_SCOPE]"
  have parts: "list_all2 (\<lambda>ops s. writes S g d 0 ops (\<lambda>c. \<exists>e. c = extension e \<and> has_shape d e s)) (extension_ops k) ?shape"
    by (rule writes_extensions) (use assms in auto)
  have grease: "writes S g d n [GREASE i] (\<lambda>c. c = [g ! i, g ! i])" if "i < 7" for n i
    using that assms(3) by (intro writes_Grease) simp
  have b3: "writes S g d n ?b3 (\<lambda>c. \<exists>es. shaped d es ?shape \<and> c = ?exts es)" for n
    by (rule writes_Cons [OF grease], simp, rule writes_Cons [OF writes_String],
        rule writes_Cons [OF writes_permutation [OF assms(1) parts]], rule writes_Cons [OF grease], simp,
        rule writes_Cons [OF writes_String], rule writes_conseq [OF writes_padding])
      (auto simp: PADDING_TARGET_OFFSET_def shaped_lengths shape_length all_extensions_def extension_grease)
  have b2: "writes S g d n ?b2 (\<lambda>c. \<exists>sid es. length sid = 32 \<and> shaped d es ?shape \<and> c = ?inner sid es)" for n
    by (rule writes_Cons [OF writes_String], rule writes_Cons [OF writes_Zero], rule writes_Cons [OF writes_String],
        rule writes_Cons [OF writes_Random [OF assms(1)]], rule writes_Cons [OF writes_String], rule writes_Cons [OF grease], simp,
        rule writes_Cons [OF writes_String], rule writes_conseq [OF writes_scope [OF b3]])
      (use assms(4) length_all_extensions in \<open>fastforce+\<close>)
  have b1: "writes S g d n ?b1 (\<lambda>c. \<exists>sid es. length sid = 32 \<and> shaped d es ?shape \<and> c = [0x01, 0x00] @ block (?inner sid es))" for n
    by (rule writes_Cons [OF writes_String], rule writes_conseq [OF writes_scope [OF b2]])
      (use assms(4) length_all_extensions in \<open>fastforce simp: SUITES_def\<close>)+
  have "writes S g d 0 (STRING [0x16, 0x03, 0x01] # BEGIN_SCOPE # ?b1 @ [END_SCOPE])
      (\<lambda>c. \<exists>sid es. length sid = 32 \<and> shaped d es ?shape \<and> c = [0x16, 0x03, 0x01] @ block ([0x01, 0x00] @ block (?inner sid es)))"
    by (rule writes_Cons [OF writes_String], rule writes_conseq [OF writes_scope [OF b1]])
      (use assms(4) length_all_extensions in \<open>fastforce simp: SUITES_def\<close>)+
  then show ?thesis
    by (simp add: client_hello_ops_def SUITES_def hello_bytes_def)
qed

text \<open>A reader of greetings that checks every length on its way, as a middlebox does.\<close>

fun parse_extensions :: "bytes \<Rightarrow> (nat \<times> bytes) list option" where
  "parse_extensions [] = Some []"
| "parse_extensions (a # b # c # d # r) =
    (let n = 256 * unat c + unat d
     in if length r < n then None
        else map_option ((#) (256 * unat a + unat b, take n r)) (parse_extensions (drop n r)))"
| "parse_extensions _ = None"

definition be_nat :: "nat \<Rightarrow> nat \<Rightarrow> bytes \<Rightarrow> nat" where
  "be_nat i j b = nat (be_int (py_slice i j b))"

definition parse_hello :: "bytes \<Rightarrow> (bytes \<times> (nat \<times> bytes) list) option" where
  "parse_hello b =
    (let tail = drop (RANDOM_OFFSET + RANDOM_SIZE) b;
         after_session = drop (1 + be_nat 0 1 tail) tail;
         after_suites = drop (2 + be_nat 0 2 after_session) after_session;
         rest = drop (1 + be_nat 0 1 after_suites) after_suites
     in if take 3 b = [0x16, 0x03, 0x01] \<and> length b = 5 + be_nat 3 5 b \<and> py_slice 5 6 b = [0x01] \<and>
           length b = 9 + be_nat 6 9 b \<and> py_slice 9 11 b = [0x03, 0x03] \<and> length rest = 2 + be_nat 0 2 rest
        then map_option (Pair (py_slice RANDOM_OFFSET (RANDOM_OFFSET + RANDOM_SIZE) b)) (parse_extensions (drop 2 rest))
        else None)"

lemma be_bytes_pair:
  assumes "n < 65536"
  shows "be_bytes 2 (int n) = [of_nat (n div 256), of_nat (n mod 256)]"
    "256 * unat (of_nat (n div 256) :: byte) + unat (of_nat (n mod 256) :: byte) = n"
proof -
  have "(of_nat n :: byte) = of_nat (256 * (n div 256) + n mod 256)"
    by simp
  also have "\<dots> = of_nat (n mod 256)"
  proof -
    have "(256 :: byte) = 0"
      by simp
    then show ?thesis
      by (simp only: of_nat_add of_nat_mult of_nat_numeral mult_zero_left add_0_left)
  qed
  finally have low: "(of_nat n :: byte) = of_nat (n mod 256)" .
  have "int n div 256 = int (n div 256)"
    by (simp add: zdiv_int)
  then have "be_bytes 2 (int n) = [of_nat (n div 256), of_nat n]"
    unfolding be_bytes_2 by (simp only: of_int_of_nat_eq)
  then show "be_bytes 2 (int n) = [of_nat (n div 256), of_nat (n mod 256)]"
    by (simp only: low)
  have "n div 256 < 256"
    using assms by (simp add: less_mult_imp_div_less)
  then show "256 * unat (of_nat (n div 256) :: byte) + unat (of_nat (n mod 256) :: byte) = n"
    by (simp add: unat_of_nat_byte)
qed

lemma parse_extension:
  assumes "fst e < 65536" "length (snd e) < 65536"
  shows "parse_extensions (extension e @ r) = map_option ((#) e) (parse_extensions r)"
  unfolding extension_def block_def be_bytes_pair(1) [OF assms(1)] be_bytes_pair(1) [OF assms(2)]
  using be_bytes_pair(2) [OF assms(1)] be_bytes_pair(2) [OF assms(2)] by simp

lemma parse_extensions_all:
  "\<forall>e \<in> set es. fst e < 65536 \<and> length (snd e) < 65536 \<Longrightarrow> parse_extensions (concat (map extension es)) = Some es"
  by (induction es) (simp_all add: parse_extension)

lemma be_int_bytes_2: "n < 65536 \<Longrightarrow> be_int (be_bytes 2 (int n)) = int n"
  by (simp add: be_int_be_bytes)

lemma be_nat_block: "length c < 65536 \<Longrightarrow> be_nat 0 2 (block c) = length c"
  by (simp add: be_nat_def py_slice_def block_def be_int_bytes_2)

lemma hello_bytes_parts:
  fixes field sid :: bytes and suite :: byte
  assumes "length field = 32" "length sid = 32" "length (concat (map extension es)) < 65000"
  defines "ext \<equiv> block (concat (map extension es))"
  defines "tail \<equiv> [0x20] @ sid @ [0x00, 0x20, suite, suite] @ SUITES @ [0x01, 0x00] @ ext"
  shows "\<exists>l2 l1. hello_bytes field sid suite es = [0x16, 0x03, 0x01] @ l1 @ [0x01, 0x00] @ l2 @ [0x03, 0x03] @ field @ tail \<and>
    length l1 = 2 \<and> length l2 = 2 \<and> be_int l1 = int (length tail) + 38 \<and> be_int (0 # l2) = int (length tail) + 34"
proof -
  let ?inner = "[0x03, 0x03] @ field @ tail"
  let ?l2 = "be_bytes 2 (int (length ?inner))"
  let ?l1 = "be_bytes 2 (int (length ([0x01, 0x00] @ block ?inner)))"
  have len: "length tail < 65400"
    using assms(2,3) by (simp add: tail_def ext_def SUITES_def)
  have "hello_bytes field sid suite es = [0x16, 0x03, 0x01] @ ?l1 @ [0x01, 0x00] @ ?l2 @ [0x03, 0x03] @ field @ tail"
    by (simp add: hello_bytes_def block_def tail_def ext_def)
  moreover have "be_int ?l1 = int (length tail) + 38"
    using len assms(1) be_int_bytes_2 [of "length ([0x01, 0x00] @ block ?inner)"] by simp
  moreover have "be_int ?l2 = int (length tail) + 34"
    using len assms(1) be_int_bytes_2 [of "length ?inner"] by simp
  moreover have "be_int (0 # ?l2) = be_int ?l2"
    by (simp add: be_int_Cons)
  ultimately show ?thesis
    by (intro exI [of _ ?l2] exI [of _ ?l1]) simp
qed

lemma set_random_hello:
  assumes "length field = 32" "length field' = 32"
  shows "set_random field' (hello_bytes field sid suite es) = hello_bytes field' sid suite es"
    "py_slice 11 43 (hello_bytes field sid suite es) = field"
proof -
  obtain p q where pq: "length p = 11" "\<And>f. length f = 32 \<Longrightarrow> hello_bytes f sid suite es = p @ f @ q"
  proof (rule that)
    let ?tail = "[0x20] @ sid @ [0x00, 0x20, suite, suite] @ SUITES @ [0x01, 0x00] @ block (concat (map extension es))"
    show "hello_bytes f sid suite es = ([0x16, 0x03, 0x01] @ be_bytes 2 (int (38 + length ?tail)) @ [0x01, 0x00] @
        be_bytes 2 (int (34 + length ?tail)) @ [0x03, 0x03]) @ f @ ?tail" if "length f = 32" for f
      using that by (simp add: hello_bytes_def block_def add.commute)
  qed simp
  show "set_random field' (hello_bytes field sid suite es) = hello_bytes field' sid suite es"
    "py_slice 11 43 (hello_bytes field sid suite es) = field"
    using assms pq by (simp_all add: set_random_def RANDOM_OFFSET_def RANDOM_SIZE_def py_slice_def)
qed

lemma parse_hello_bytes:
  assumes "length field = 32" "length sid = 32" "length (concat (map extension es)) < 65000"
    "\<forall>e \<in> set es. fst e < 65536 \<and> length (snd e) < 65536"
  shows "parse_hello (hello_bytes field sid suite es) = Some (field, es)"
proof -
  let ?ext = "block (concat (map extension es))"
  let ?tail = "[0x20] @ sid @ [0x00, 0x20, suite, suite] @ SUITES @ [0x01, 0x00] @ ?ext"
  obtain l2 l1 where h: "hello_bytes field sid suite es = [0x16, 0x03, 0x01] @ l1 @ [0x01, 0x00] @ l2 @ [0x03, 0x03] @ field @ ?tail"
      "length l1 = 2" "length l2 = 2" "be_int l1 = int (length ?tail) + 38" "be_int (0 # l2) = int (length ?tail) + 34"
    using hello_bytes_parts [OF assms(1-3), of suite] by blast
  let ?b = "hello_bytes field sid suite es"
  have tail: "drop (RANDOM_OFFSET + RANDOM_SIZE) ?b = ?tail"
    using h(2,3) assms(1) by (simp add: h(1) RANDOM_OFFSET_def RANDOM_SIZE_def)
  have session: "drop (1 + be_nat 0 1 ?tail) ?tail = [0x00, 0x20, suite, suite] @ SUITES @ [0x01, 0x00] @ ?ext"
    using assms(2) by (simp add: be_nat_def py_slice_def be_int_Cons)
  have suites: "drop (2 + be_nat 0 2 ([0x00, 0x20, suite, suite] @ SUITES @ [0x01, 0x00] @ ?ext))
      ([0x00, 0x20, suite, suite] @ SUITES @ [0x01, 0x00] @ ?ext) = [0x01, 0x00] @ ?ext"
    by (simp add: be_nat_def py_slice_def be_int_Cons SUITES_def)
  have rest: "drop (1 + be_nat 0 1 ([0x01, 0x00] @ ?ext)) ([0x01, 0x00] @ ?ext) = ?ext"
    by (simp add: be_nat_def py_slice_def be_int_Cons)
  have len: "length ?b = length ?tail + 43"
    using h(2,3) assms(1) by (simp add: h(1))
  have record_length: "be_nat 3 5 ?b = length ?tail + 38"
    using h(2,4) by (simp add: be_nat_def py_slice_def h(1))
  have hs_length: "be_nat 6 9 ?b = length ?tail + 34"
    using h(2,3,5) by (simp add: be_nat_def py_slice_def h(1))
  have marks: "take 3 ?b = [0x16, 0x03, 0x01]" "py_slice 5 6 ?b = [0x01]" "py_slice 9 11 ?b = [0x03, 0x03]"
      "py_slice RANDOM_OFFSET (RANDOM_OFFSET + RANDOM_SIZE) ?b = field"
    using h(2,3) assms(1) by (simp_all add: py_slice_def h(1) RANDOM_OFFSET_def RANDOM_SIZE_def)
  have ext_length: "length ?ext = 2 + be_nat 0 2 ?ext"
    using be_nat_block [of "concat (map extension es)"] assms(3) by simp
  have "drop 2 ?ext = concat (map extension es)"
    by (simp add: block_def)
  then have "parse_extensions (drop 2 ?ext) = Some es"
    using parse_extensions_all [OF assms(4)] by simp
  moreover have "parse_hello ?b = map_option (Pair field) (parse_extensions (drop 2 ?ext))"
    unfolding parse_hello_def tail session suites rest Let_def marks len record_length hs_length
    using ext_length by simp
  ultimately show ?thesis
    by simp
qed

text \<open>The outcome of a build, in one place.\<close>

lemma build_client_hello_bytes:
  assumes "secrets_ok S" "curve_ends S" "list_all (\<lambda>c. c < 128) domain" "k + length domain < 60000"
    "generate_grease S r = (g, r1)"
  shows "\<exists>sid es. length sid = 32 \<and> shaped (map of_nat domain) es (extension_shape k (length domain)) \<and>
    build_client_hello hmac S k domain secret t r =
      (let zeroed = hello_bytes (replicate 32 0) sid (g ! 0) (all_extensions g es);
           digest = stamp t (hmac secret zeroed)
       in Some (Inr \<lparr>fh_record = set_random digest zeroed, fh_random = digest\<rparr>))"
proof -
  let ?d = "map of_nat domain :: bytes"
  have g: "length g = 7"
    by (rule generate_grease_facts(1) [OF assms(1,5)])
  have "k + length ?d < 60000"
    using assms(4) by simp
  from writes_from_start [OF writes_hello [OF assms(1,2) g this], of r1] obtain sid es r' where
      "length sid = 32" "shaped ?d es (extension_shape k (length ?d))"
      "render_ops S g ?d (client_hello_ops k) \<lparr>hw_out = [], hw_scopes = [], hw_rand = r1\<rparr> =
        Some (Inr \<lparr>hw_out = hello_bytes (replicate 32 0) sid (g ! 0) (all_extensions g es), hw_scopes = [], hw_rand = r'\<rparr>)"
    by blast
  then show ?thesis
    using assms(3) by (intro exI [of _ sid] exI [of _ es]) (simp add: build_client_hello_def assms(5) Let_def)
qed

lemma length_stamp: "length digest = 32 \<Longrightarrow> length (stamp t digest) = 32"
  by (simp add: stamp_def)

lemma all_extensions_small:
  assumes "shaped d es (extension_shape k (length d))" "k + length d < 60000"
  shows "\<forall>e \<in> set (all_extensions g es). fst e < 65536 \<and> length (snd e) < 65536"
proof -
  have "fst e < 65536 \<and> length (snd e) < 65536" if "e \<in> set es" for e
    using shaped_member [OF assms(1) that] assms(2) by (auto simp: extension_shape_def has_shape_def)
  moreover have "grease_type b < 65536" for b
  proof -
    have "unat b \<le> 255"
      using unat_byte_lt [of b] by linarith
    then show ?thesis
      unfolding grease_type_def by linarith
  qed
  ultimately show ?thesis
    by (auto simp: all_extensions_def)
qed

lemma grease_type_new:
  assumes "is_grease b" "t \<in> set (map fst (extension_shape k n))"
  shows "grease_type b \<noteq> t"
proof
  assume "grease_type b = t"
  then have "257 * unat b \<in> {0, 5, 10, 11, 13, 16, 18, 23, 27, 35, 43, 45, 51, 17613, 65037, 65281}"
    using assms(2) by (auto simp: extension_shape_def grease_type_def)
  moreover have "257 * n \<noteq> m" if "m mod 257 \<noteq> 0" for n m :: nat
    using that by force
  from this [of 17613] this [of 65037] this [of 65281] have "257 * n \<noteq> 17613" "257 * n \<noteq> 65037" "257 * n \<noteq> 65281" for n :: nat
    by simp_all
  ultimately have "unat b = 0"
    by auto
  then have "b = 0"
    by (simp add: unat_eq_0)
  then show False
    using assms(1) by (simp add: is_grease_def)
qed

lemma grease_type_inj: "grease_type a = grease_type b \<longleftrightarrow> a = b"
  by (simp add: grease_type_def word_unat_eq_iff)

text \<open>C23: The greeting is a ClientHello that a strict reader accepts. For every draw, every domain of ASCII
  characters and every secret it is built without an exception, its nested lengths agree, no extension
  occurs twice, and, in whatever order the shuffle puts them, there are those of the list and two GREASE
  ones, with the domain as server name. Its length does depend on the domain: the padding is never written.\<close>

theorem client_hello_well_formed:
  assumes "secrets_ok S" "curve_ends S" "list_all (\<lambda>c. c < 128) domain" "ech_payload_size + length domain < 60000"
    "\<forall>x y. length (hmac x y) = 32"
  shows "\<exists>hello exts g g'. build_client_hello hmac S ech_payload_size domain secret unix_time r = Some (Inr hello) \<and>
    length (fh_record hello) = 1572 + ech_payload_size + length domain \<and>
    parse_hello (fh_record hello) = Some (fh_random hello, exts) \<and>
    distinct (map fst exts) \<and> is_grease g \<and> is_grease g' \<and>
    mset (map fst exts) = mset (grease_type g # grease_type g' # map fst (extension_shape ech_payload_size (length domain))) \<and>
    map_of exts 0 = Some (server_name (map of_nat domain))"
proof -
  let ?shape = "extension_shape ech_payload_size (length domain)" and ?d = "map of_nat domain :: bytes"
  obtain g r1 where g: "generate_grease S r = (g, r1)"
    by fastforce
  note gf = generate_grease_facts [OF assms(1) g]
  obtain sid es where h: "length sid = 32" "shaped ?d es ?shape" "build_client_hello hmac S ech_payload_size domain secret unix_time r =
      (let zeroed = hello_bytes (replicate 32 0) sid (g ! 0) (all_extensions g es);
           digest = stamp unix_time (hmac secret zeroed)
       in Some (Inr \<lparr>fh_record = set_random digest zeroed, fh_random = digest\<rparr>))"
    using build_client_hello_bytes [OF assms(1-4) g] by blast
  let ?exts = "all_extensions g es"
  define digest where "digest = stamp unix_time (hmac secret (hello_bytes (replicate 32 0) sid (g ! 0) ?exts))"
  let ?sent = "hello_bytes digest sid (g ! 0) ?exts"
  have digest: "length digest = 32"
    using assms(5) by (simp add: digest_def length_stamp)
  have built: "build_client_hello hmac S ech_payload_size domain secret unix_time r = Some (Inr \<lparr>fh_record = ?sent, fh_random = digest\<rparr>)"
    using h(3) set_random_hello(1) [of "replicate 32 0" digest sid "g ! 0" ?exts] digest
    by (simp add: Let_def flip: digest_def)
  have len: "length (concat (map extension ?exts)) = ech_payload_size + length domain + 1458"
    using length_all_extensions [of ?d es ech_payload_size g] h(2) by simp
  then have "length ?sent = 1572 + ech_payload_size + length domain"
    using digest h(1) by (simp add: hello_bytes_def SUITES_def)
  moreover have "parse_hello ?sent = Some (digest, ?exts)"
    using all_extensions_small [of ?d es ech_payload_size g] h(1,2) len assms(4) digest by (intro parse_hello_bytes) simp_all
  moreover have types: "mset (map fst es) = mset (map fst ?shape)"
    by (rule shaped_types [OF h(2)])
  moreover have "distinct (map fst ?exts)"
  proof -
    have "distinct (map fst es)" "set (map fst es) = set (map fst ?shape)"
      using types mset_eq_imp_distinct_iff [OF types] mset_eq_setD [OF types] by (auto simp: extension_shape_def)
    moreover have "is_grease (g ! 2)" "is_grease (g ! 3)"
      using gf(1,2) by simp_all
    ultimately show ?thesis
      using grease_type_new [of _ _ ech_payload_size "length domain"] gf(3) by (auto simp: all_extensions_def grease_type_inj)
  qed
  moreover have "map_of ?exts 0 = Some (server_name ?d)"
  proof -
    have "0 \<in> set (map fst es)"
      using mset_eq_setD [OF types] by (simp add: extension_shape_def)
    then obtain b where b: "(0, b) \<in> set es"
      by auto
    then have "b = server_name ?d"
      using shaped_member [OF h(2) b] by (auto simp: has_shape_def)
    moreover have "(0, b) \<in> set ?exts"
      using b by (simp add: all_extensions_def)
    ultimately show ?thesis
      using \<open>distinct (map fst ?exts)\<close> by simp
  qed
  moreover have "is_grease (g ! 2)" "is_grease (g ! 3)"
    using gf(1,2) by simp_all
  moreover have "mset (map fst ?exts) = mset (grease_type (g ! 2) # grease_type (g ! 3) # map fst ?shape)"
    using types by (simp add: all_extensions_def)
  ultimately show ?thesis
    by (intro exI [of _ "\<lparr>fh_record = ?sent, fh_random = digest\<rparr>"] exI [of _ ?exts] exI [of _ "g ! 2"] exI [of _ "g ! 3"])
      (simp add: built)
qed

text \<open>A source that always draws the same: zeros, and a point of the curve where a key is drawn.\<close>

definition SAMPLE_POINT :: bytes where
  "SAMPLE_POINT = [0x52, 0x61, 0x6a, 0xcc, 0x06, 0x2c, 0xc7, 0xb6, 0x60, 0x12, 0xf4, 0x63, 0xf4, 0x77, 0x89, 0x86, 0xe5, 0xbc, 0xbb, 0x79, 0xac, 0x5a, 0x0f, 0xf8, 0xbf, 0x3e, 0xcb, 0x8a, 0xb7, 0x8e, 0x84, 0x35]"

definition sample_secrets :: "unit secrets" where
  "sample_secrets = \<lparr>token_bytes = (\<lambda>n r. (if n = 32 then SAMPLE_POINT else replicate n 0, r)),
     randbits = (\<lambda>n r. (0, r)), randbelow = (\<lambda>n r. (0, r))\<rparr>"

lemma sample_secrets_ok: "secrets_ok sample_secrets"
  by (simp add: secrets_ok_def sample_secrets_def SAMPLE_POINT_def)

lemma sample_point_value: "be_int SAMPLE_POINT = 37261774834703522250675075601027907654398000228523387693950595818816438961205"
  by (simp add: SAMPLE_POINT_def be_int_Cons)

lemma sample_point_on_curve: "curve25519_y_squared (be_int SAMPLE_POINT) = CURVE25519_PRIME - 1"
  by (simp add: curve25519_y_squared_def CURVE25519_PRIME_def CURVE25519_A_def sample_point_value)

lemma minus_one_even_power:
  assumes "1 < p" "even n"
  shows "(p - 1) ^ n mod p = (1 :: int)"
proof -
  obtain k where n: "n = 2 * k"
    using assms(2) by blast
  have "(p - 1) ^ 2 = 1 + p * (p - 2)"
    by (simp add: power2_eq_square algebra_simps)
  then have "(p - 1) ^ 2 mod p = 1"
    using assms(1) by simp
  then show ?thesis
    using assms(1) by (metis n power_mod power_mult power_one mod_pos_pos_trivial zero_le_one)
qed

lemma sample_curve_ends: "curve_ends sample_secrets"
proof -
  let ?x = "be_int (SAMPLE_POINT[31 := SAMPLE_POINT ! 31 AND 0x7F])"
  have point: "SAMPLE_POINT[31 := SAMPLE_POINT ! 31 AND 0x7F] = SAMPLE_POINT"
    by (simp add: SAMPLE_POINT_def)
  have "powmod (CURVE25519_PRIME - 1) ((CURVE25519_PRIME - 1) div 2) CURVE25519_PRIME = 1"
    unfolding powmod
  proof (rule minus_one_even_power)
    show "1 < CURVE25519_PRIME" "even (nat ((CURVE25519_PRIME - 1) div 2))"
      by (simp_all add: CURVE25519_PRIME_def even_nat_iff)
  qed
  then have "powmod (curve25519_y_squared ?x) ((CURVE25519_PRIME - 1) div 2) CURVE25519_PRIME = 1"
    unfolding point sample_point_on_curve .
  then have "curve25519_candidate sample_secrets r = Some (?x, r)" for r
    by (subst curve25519_candidate.simps) (simp add: sample_secrets_def)
  then show ?thesis
    by (simp add: curve_ends_def)
qed

theorem client_hello_well_formed_witness:
  "\<exists>hello exts g g'. build_client_hello (\<lambda>_ _. replicate 32 7) sample_secrets 144 [97, 46, 98] [1] 5 () = Some (Inr hello) \<and>
    length (fh_record hello) = 1572 + 144 + length [97 :: nat, 46, 98] \<and>
    parse_hello (fh_record hello) = Some (fh_random hello, exts) \<and>
    distinct (map fst exts) \<and> is_grease g \<and> is_grease g' \<and>
    mset (map fst exts) = mset (grease_type g # grease_type g' # map fst (extension_shape 144 (length [97 :: nat, 46, 98]))) \<and>
    map_of exts 0 = Some (server_name (map of_nat [97 :: nat, 46, 98]))"
  by (rule client_hello_well_formed [OF sample_secrets_ok sample_curve_ends]) simp_all


section \<open>The answer of the proxy\<close>

text \<open>What a proxy sends that knows the secret: two segments, with the keyed hash as random field.\<close>

definition proxy_answer :: "(bytes \<Rightarrow> bytes \<Rightarrow> bytes) \<Rightarrow> bytes \<Rightarrow> bytes \<Rightarrow> bytes \<Rightarrow> bytes" where
  "proxy_answer hmac secret client_random flight =
    set_random (hmac secret (client_random @ set_random (replicate 32 0) flight)) flight"

lemma set_random_facts:
  assumes "43 \<le> length b" "length f = 32"
  shows "length (set_random f b) = length b" "set_random f' (set_random f b) = set_random f' b"
    "py_slice 11 43 (set_random f b) = f"
  using assms by (simp_all add: set_random_def RANDOM_OFFSET_def RANDOM_SIZE_def py_slice_def min_def)

lemma proxy_answer_accepted:
  assumes "43 \<le> length flight" "\<forall>x y. length (hmac x y) = 32"
  shows "server_hello_is_authentic hmac (proxy_answer hmac secret client_random flight) secret client_random"
  using set_random_facts [OF assms(1)] assms
  by (simp add: server_hello_is_authentic_def proxy_answer_def RANDOM_OFFSET_def RANDOM_SIZE_def)

lemma read_segment:
  assumes "healthy s" "sock_bytes s = prefix @ block body @ rest" "length body < 65536"
  shows "\<exists>s'. read_segments (prefix # prefixes) response s = read_segments prefixes (response @ prefix @ block body) s' \<and>
    healthy s' \<and> sock_bytes s' = rest"
proof -
  let ?l = "be_bytes 2 (int (length body))"
  have "sock_bytes s = (prefix @ ?l) @ body @ rest"
    using assms(2) by (simp add: block_def)
  then obtain s1 where s1: "recv_from_socket (int (length prefix) + 2) s = Inr (Some (prefix @ ?l), s1)" "healthy s1" "sock_bytes s1 = body @ rest"
    using socket_stream.recv_take [OF assms(1), of "prefix @ ?l" "body @ rest" "int (length prefix) + 2"] by auto
  have "be_int ?l = int (length body)"
    by (rule be_int_bytes_2 [OF assms(3)])
  then obtain s2 where s2: "recv_from_socket (be_int ?l) s1 = Inr (Some body, s2)" "healthy s2" "sock_bytes s2 = rest"
    using socket_stream.recv_take [OF s1(2,3), of "be_int ?l"] by auto
  show ?thesis
    using s1(1) s2 by (intro exI [of _ s2]) (simp add: block_def)
qed

lemma read_greeting_complete:
  assumes "healthy s" "sock_bytes s = [0x16, 0x03, 0x03] @ block b1 @ (CHANGE_CIPHER_SPEC @ APPLICATION_DATA_PREFIX) @ block b2 @ rest"
    "length b1 < 65536" "length b2 < 65536"
  shows "\<exists>s'. read_greeting_response s =
      Inr ([0x16, 0x03, 0x03] @ block b1 @ (CHANGE_CIPHER_SPEC @ APPLICATION_DATA_PREFIX) @ block b2, s') \<and>
    healthy s' \<and> sock_bytes s' = rest"
proof -
  obtain s1 where s1: "read_greeting_response s =
      read_segments [CHANGE_CIPHER_SPEC @ APPLICATION_DATA_PREFIX] ([0x16, 0x03, 0x03] @ block b1) s1" "healthy s1"
      "sock_bytes s1 = (CHANGE_CIPHER_SPEC @ APPLICATION_DATA_PREFIX) @ block b2 @ rest"
    using read_segment [OF assms(1,2,3), of "[CHANGE_CIPHER_SPEC @ APPLICATION_DATA_PREFIX]" "[]"]
    by (auto simp: read_greeting_response_def GREETING_RESPONSE_PREFIXES_def)
  show ?thesis
    using read_segment [OF s1(2,3) assms(4), of "[]" "[0x16, 0x03, 0x03] @ block b1"] s1(1) by auto
qed

lemma read_segments_sound:
  "read_segments prefixes response s = Inr (b, s') \<Longrightarrow> \<exists>read. b = response @ read \<and> sock_bytes s = read @ sock_bytes s'"
proof (induction prefixes response s rule: read_segments.induct)
  case (2 prefix prefixes response s)
  obtain h s1 body s2 where r: "recv_from_socket (int (length prefix) + 2) s = Inr (Some h, s1)"
      "recv_from_socket (be_int (drop (length h - 2) h)) s1 = Inr (Some body, s2)" "take (length prefix) h = prefix"
      "read_segments prefixes (response @ h @ body) s2 = Inr (b, s')"
    using 2(2) by (auto simp: res_simps split: option.splits if_splits)
  from 2(1) [OF r(1) refl refl _ r(2) refl refl r(4)] r(3)
  obtain read where "b = (response @ h @ body) @ read" "sock_bytes s2 = read @ sock_bytes s'"
    by auto
  then show ?case
    using recv_from_socket_Some [OF r(1)] recv_from_socket_Some [OF r(2)] by (intro exI [of _ "h @ body @ read"]) simp
qed simp

lemma xor_stamp:
  assumes "length digest = 32"
  shows "map2 (XOR) digest (stamp t digest) = replicate 28 0 @ le_bytes 4 (t mod 2 ^ 32)"
proof -
  have same: "map2 (XOR) x x = replicate (length x) 0" for x :: bytes
    by (induction x) simp_all
  have twice: "map2 (XOR) x (map2 (XOR) x y) = y" if "length x = length y" for x y :: bytes
    using that by (induction x y rule: list_induct2) (simp_all flip: xor.assoc)
  have "map2 (XOR) (take 28 digest @ drop 28 digest) (take 28 digest @ map2 (XOR) (drop 28 digest) (le_bytes 4 (t mod 2 ^ 32))) =
      map2 (XOR) (take 28 digest) (take 28 digest) @
      map2 (XOR) (drop 28 digest) (map2 (XOR) (drop 28 digest) (le_bytes 4 (t mod 2 ^ 32)))"
    using assms by (simp only: zip_append map_append)
  also have "\<dots> = replicate 28 0 @ le_bytes 4 (t mod 2 ^ 32)"
  proof -
    have "length (drop 28 digest) = length (le_bytes 4 (t mod 2 ^ 32))"
      using assms by (simp only: length_drop length_le_bytes)
    from twice [OF this] show ?thesis
      using assms by (simp only: same) simp
  qed
  finally show ?thesis
    by (simp only: stamp_def append_take_drop_id)
qed


lemma greeting_accepts:
  assumes "\<forall>x y. length (hmac x y) = 32"
    "build_client_hello hmac S ech_payload_size domain secret now r = Some (Inr hello)"
    "flight = [0x16, 0x03, 0x03] @ block hello_body @ CHANGE_CIPHER_SPEC @ APPLICATION_DATA_PREFIX @ block extra"
    "38 \<le> length hello_body" "length hello_body < 65536" "length extra < 65536"
    "healthy s" "sock_bytes s = proxy_answer hmac secret (fh_random hello) flight @ rest"
  shows "\<exists>s'. greet_fake_tls_proxy hmac S ech_payload_size domain secret now r s = Some (Inr (fh_record hello, Inr s')) \<and>
      healthy s' \<and> sock_bytes s' = rest"
proof -
  let ?digest = "hmac secret (fh_random hello @ set_random (replicate 32 0) flight)"
  let ?body = "take 6 hello_body @ ?digest @ drop 38 hello_body"
  let ?answer = "proxy_answer hmac secret (fh_random hello) flight"
  have len: "length ?body = length hello_body"
    using assms(1,4) by simp
  have "?answer = [0x16, 0x03, 0x03] @ be_bytes 2 (int (length hello_body)) @ ?body @ CHANGE_CIPHER_SPEC @ APPLICATION_DATA_PREFIX @ block extra"
    using assms(4) by (simp add: proxy_answer_def set_random_def RANDOM_OFFSET_def RANDOM_SIZE_def assms(3) block_def)
  then have answer: "?answer = [0x16, 0x03, 0x03] @ block ?body @ (CHANGE_CIPHER_SPEC @ APPLICATION_DATA_PREFIX) @ block extra"
    by (simp only: block_def [of ?body] len append_assoc)
  obtain s' where s': "read_greeting_response s = Inr (?answer, s')" "healthy s'" "sock_bytes s' = rest"
    using read_greeting_complete [OF assms(7), of ?body extra rest] assms(5,6,8) len
    by (simp only: answer append_assoc) auto
  have "43 \<le> length flight"
    using assms(4) by (simp add: assms(3))
  then have "greet_fake_tls_proxy hmac S ech_payload_size domain secret now r s = Some (Inr (fh_record hello, Inr s'))"
    using proxy_answer_accepted [of flight hmac secret "fh_random hello"] assms(1,2) s'(1)
    by (simp add: greet_fake_tls_proxy_def)
  then show ?thesis
    using s'(2,3) by blast
qed

text \<open>C24: A greeting that is answered by a proxy with the secret is accepted, however the answer is cut into
  pieces, and the stream is left exactly at the end of the answer, where the records begin. And the proxy
  can check the greeting: its random field, xored with the keyed hash of the greeting with that field zeroed, is zero
  but for the last four bytes, which are the clock of the client.\<close>

theorem greeting_answered:
  assumes "secrets_ok S" "curve_ends S" "list_all (\<lambda>c. c < 128) domain" "ech_payload_size + length domain < 60000"
    "\<forall>x y. length (hmac x y) = 32"
    "build_client_hello hmac S ech_payload_size domain secret now r = Some (Inr hello)"
    "flight = [0x16, 0x03, 0x03] @ block hello_body @ CHANGE_CIPHER_SPEC @ APPLICATION_DATA_PREFIX @ block extra"
    "38 \<le> length hello_body" "length hello_body < 65536" "length extra < 65536"
    "healthy s" "sock_bytes s = proxy_answer hmac secret (fh_random hello) flight @ rest"
  shows "\<exists>s'. greet_fake_tls_proxy hmac S ech_payload_size domain secret now r s = Some (Inr (fh_record hello, Inr s')) \<and>
      healthy s' \<and> sock_bytes s' = rest \<and>
      map2 (XOR) (hmac secret (set_random (replicate 32 0) (fh_record hello))) (fh_random hello) =
        replicate 28 0 @ le_bytes 4 (now mod 2 ^ 32)"
proof -
  obtain s' where s': "greet_fake_tls_proxy hmac S ech_payload_size domain secret now r s = Some (Inr (fh_record hello, Inr s'))"
      "healthy s'" "sock_bytes s' = rest"
    using greeting_accepts [OF assms(5-12)] by blast
  obtain g r1 where g: "generate_grease S r = (g, r1)"
    by fastforce
  obtain sid es where h: "length sid = 32" "build_client_hello hmac S ech_payload_size domain secret now r =
      (let zeroed = hello_bytes (replicate 32 0) sid (g ! 0) (all_extensions g es);
           digest = stamp now (hmac secret zeroed)
       in Some (Inr \<lparr>fh_record = set_random digest zeroed, fh_random = digest\<rparr>))"
    using build_client_hello_bytes [OF assms(1-4) g] by blast
  let ?zeroed = "hello_bytes (replicate 32 0) sid (g ! 0) (all_extensions g es)"
  have stamped: "length (stamp now (hmac secret ?zeroed)) = 32"
    using assms(5) by (simp add: length_stamp)
  have hello: "fh_record hello = set_random (stamp now (hmac secret ?zeroed)) ?zeroed" "fh_random hello = stamp now (hmac secret ?zeroed)"
    using h(2) assms(6) by (auto simp: Let_def)
  have "set_random (replicate 32 0) (fh_record hello) = ?zeroed"
    unfolding hello(1) using stamped by (simp add: set_random_hello(1))
  then have "map2 (XOR) (hmac secret (set_random (replicate 32 0) (fh_record hello))) (fh_random hello) =
      replicate 28 0 @ le_bytes 4 (now mod 2 ^ 32)"
    unfolding hello(2) using xor_stamp assms(5) by metis
  then show ?thesis
    using s' by blast
qed

text \<open>C33: A greeting is accepted only from who knows the secret: whenever it succeeds, the bytes that were read are
  the beginning of the stream, and their random field is the keyed hash of the client's random bytes and of these
  bytes with the field zeroed.\<close>

theorem greeting_sound:
  assumes "greet_fake_tls_proxy hmac S ech_payload_size domain secret now r s = Some (Inr (sent, Inr s'))"
  shows "\<exists>hello answer. build_client_hello hmac S ech_payload_size domain secret now r = Some (Inr hello) \<and>
    sent = fh_record hello \<and> sock_bytes s = answer @ sock_bytes s' \<and> 43 \<le> length answer \<and>
    py_slice 11 43 answer = hmac secret (fh_random hello @ set_random (replicate 32 0) answer)"
proof -
  obtain hello where hello: "build_client_hello hmac S ech_payload_size domain secret now r = Some (Inr hello)" "sent = fh_record hello"
      "bind_res (read_greeting_response s) (\<lambda>(response, s1).
        if server_hello_is_authentic hmac response secret (fh_random hello) then Inr s1 else Inl OSError) = Inr s'"
    using assms by (auto simp: greet_fake_tls_proxy_def then_opt_def split: option.splits sum.splits)
  then obtain answer where answer: "read_greeting_response s = Inr (answer, s')"
      "server_hello_is_authentic hmac answer secret (fh_random hello)"
    by (auto simp: res_simps split: if_splits)
  have "sock_bytes s = answer @ sock_bytes s'"
    using read_segments_sound [of _ "[]"] answer(1) by (fastforce simp: read_greeting_response_def)
  then show ?thesis
    using hello(1,2) answer(2)
    by (auto simp: server_hello_is_authentic_def RANDOM_OFFSET_def RANDOM_SIZE_def Let_def split: if_splits)
qed

text \<open>The answer of a proxy in two pieces, and what follows it.\<close>

definition sample_flight :: bytes where
  "sample_flight = [0x16, 0x03, 0x03] @ block (replicate 38 0) @ CHANGE_CIPHER_SPEC @ APPLICATION_DATA_PREFIX @ block [9]"

definition sample_socket :: socket where
  "sample_socket = (let a = proxy_answer (\<lambda>_ _. replicate 32 7) [1] [] sample_flight in [Arrived (take 20 a), Arrived (drop 20 a @ [1, 2])])"

lemma sample_socket_facts:
  "healthy sample_socket" "sock_bytes sample_socket = proxy_answer (\<lambda>_ _. replicate 32 7) [1] cr sample_flight @ [1, 2]"
  by (simp_all add: sample_socket_def healthy_def Let_def proxy_answer_def flip: append_assoc)

lemma sample_build: "\<exists>hello. build_client_hello (\<lambda>_ _. replicate 32 7) sample_secrets 144 [97] [1] 5 () = Some (Inr hello)"
proof -
  obtain g r1 where "generate_grease sample_secrets () = (g, r1)"
    by (rule prod.exhaust)
  from build_client_hello_bytes [OF sample_secrets_ok sample_curve_ends _ _ this, of "[97]" 144 "\<lambda>_ _. replicate 32 7" "[1]" 5] show ?thesis
    by (auto simp: Let_def)
qed

theorem greeting_answered_witness:
  "\<exists>(hello :: fake_tls_hello) s'. greet_fake_tls_proxy (\<lambda>_ _. replicate 32 7) sample_secrets 144 [97] [1] 5 () sample_socket =
      Some (Inr (fh_record hello, Inr s')) \<and> healthy s' \<and> sock_bytes s' = [1, 2] \<and>
    map2 (XOR) (replicate 32 7) (fh_random hello) = replicate 28 0 @ le_bytes 4 (5 mod 2 ^ 32)"
proof -
  obtain hello where hello: "build_client_hello (\<lambda>_ _. replicate 32 7) sample_secrets 144 [97] [1] 5 () = Some (Inr hello)"
    using sample_build by blast
  have "\<exists>s'. greet_fake_tls_proxy (\<lambda>_ _. replicate 32 7) sample_secrets 144 [97] [1] 5 () sample_socket =
        Some (Inr (fh_record hello, Inr s')) \<and> healthy s' \<and> sock_bytes s' = [1, 2] \<and>
      map2 (XOR) (replicate 32 7) (fh_random hello) = replicate 28 0 @ le_bytes 4 (5 mod 2 ^ 32)"
    by (rule greeting_answered [OF sample_secrets_ok sample_curve_ends _ _ _ hello sample_flight_def _ _ _ sample_socket_facts])
      simp_all
  then show ?thesis
    by blast
qed

theorem greeting_sound_witness:
  "\<exists>sent s' answer. greet_fake_tls_proxy (\<lambda>_ _. replicate 32 7) sample_secrets 144 [97] [1] 5 () sample_socket = Some (Inr (sent, Inr s')) \<and>
    sock_bytes sample_socket = answer @ sock_bytes s' \<and> 43 \<le> length answer \<and> py_slice 11 43 answer = replicate 32 7"
proof -
  obtain hello where hello: "build_client_hello (\<lambda>_ _. replicate 32 7) sample_secrets 144 [97] [1] 5 () = Some (Inr hello)"
    using sample_build by blast
  obtain s' where s': "greet_fake_tls_proxy (\<lambda>_ _. replicate 32 7) sample_secrets 144 [97] [1] 5 () sample_socket = Some (Inr (fh_record hello, Inr s'))"
    using greeting_accepts [OF _ hello sample_flight_def _ _ _ sample_socket_facts] by auto
  from greeting_sound [OF this] show ?thesis
    using s' by blast
qed

end
