(* ===== verification/Client_Life.thy ===== *)
theory Client_Life
  imports Session_Lifecycle
begin

text \<open>
  The life of a client: \<open>connect.py\<close>, \<open>disconnect.py\<close>, \<open>initialize.py\<close>,
  \<open>terminate.py\<close>, \<open>start.py\<close>, \<open>stop.py\<close>, \<open>restart.py\<close> and \<open>log_out.py\<close>. What
  they await is outside: a function of the call and of its number gives the outcome, and what happened meanwhile to the
  sessions, the dispatcher and the watchdog. An operation is a state transformer whose changes stay when
  it raises.
\<close>

section \<open>The state of a client\<close>

record life_session =
  ls_state :: SessionState
  ls_live :: bool

text \<open>Session objects are in a store; the tables of sessions hold their names. A dispatcher is live while a
  handler worker is not done, and a watchdog task, if there is one, may still run.\<close>

record resources =
  r_store :: "nat \<Rightarrow> life_session"
  r_main :: "nat option"
  r_media :: "(int \<times> nat) list"
  r_aux :: "(int \<times> nat) list"
  r_dispatcher :: bool
  r_watchdog :: "bool option"

datatype outside_call =
    LoadPlugins
  | OpenStorage
  | LoadSession
  | ReadStorage
  | GetSession
  | SetDc
  | Authorize
  | InitTakeout
  | UpdateState
  | GetMe
  | DispatcherStart
  | DispatcherStop
  | StopSession nat
  | CancelWatchdog
  | FinishTakeout
  | SaveStorage
  | CloseStorage
  | DeleteStorage
  | LogOut
  | CleanupWait

record client_life =
  cl_connected :: bool
  cl_initialized :: bool
  cl_storage :: bool
  cl_takeout :: bool
  cl_res :: resources
  cl_log :: "(outside_call \<times> resources) list"

text \<open>Exceptions: the \<open>ConnectionError\<close> of the guards, a \<open>SessionCleanupError\<close> with the names of
  its failures, a cancellation, and any other by its name.\<close>

datatype life_error = ConnectionRefused | CleanupError "string list" | Cancelled | Raised string

record answer =
  an_result :: "life_error + bool"
  an_change :: "resources \<Rightarrow> resources"

type_synonym life_env = "nat \<Rightarrow> outside_call \<Rightarrow> answer"
type_synonym 'a act = "client_life \<Rightarrow> (life_error + 'a) \<times> client_life"

definition return_act :: "'a \<Rightarrow> 'a act" where
  "return_act x c = (Inr x, c)"

definition raise_act :: "life_error \<Rightarrow> 'a act" where
  "raise_act e c = (Inl e, c)"

definition then_act :: "'a act \<Rightarrow> ('a \<Rightarrow> 'b act) \<Rightarrow> 'b act" where
  "then_act m f c = (case m c of (Inl e, c1) \<Rightarrow> (Inl e, c1) | (Inr x, c1) \<Rightarrow> f x c1)"

definition on_error :: "'a act \<Rightarrow> (life_error \<Rightarrow> 'a act) \<Rightarrow> 'a act" where
  "on_error m h c = (case m c of (Inl e, c1) \<Rightarrow> h e c1 | (Inr x, c1) \<Rightarrow> (Inr x, c1))"

definition update_act :: "(client_life \<Rightarrow> client_life) \<Rightarrow> unit act" where
  "update_act f c = (Inr (), f c)"

definition with_client :: "(client_life \<Rightarrow> 'a act) \<Rightarrow> 'a act" where
  "with_client f c = f c c"

text \<open>The log keeps the calls with the resources they found; its length numbers the calls.\<close>

definition outside :: "life_env \<Rightarrow> outside_call \<Rightarrow> bool act" where
  "outside E k c =
    (let a = E (length (cl_log c)) k
     in (an_result a, c\<lparr>cl_res := an_change a (cl_res c), cl_log := cl_log c @ [(k, cl_res c)]\<rparr>))"

text \<open>\<open>_finish_cleanup\<close>: the cleanup always runs to its end; a cancellation of the caller in the
  meantime takes precedence over its outcome.\<close>

definition finish_cleanup :: "life_env \<Rightarrow> 'a act \<Rightarrow> 'a act" where
  "finish_cleanup E m c =
    (let (r, c1) = m c; (w, c2) = outside E CleanupWait c1 in (if w = Inl Cancelled then Inl Cancelled else r, c2))"

text \<open>The common shape of the handlers: the cleanup runs, and the first exception is raised again unless the caller was
  cancelled during the cleanup.\<close>

definition roll_back :: "life_env \<Rightarrow> unit act \<Rightarrow> life_error \<Rightarrow> 'a act" where
  "roll_back E undo startup_error c =
    (let (r, c1) = finish_cleanup E undo c
     in (Inl (if r = Inl Cancelled then Cancelled else startup_error), c1))"


section \<open>Stopping the sessions\<close>

definition session_of :: "client_life \<Rightarrow> nat \<Rightarrow> life_session" where
  "session_of c i = r_store (cl_res c) i"

datatype cache = MediaCache | AuxCache

fun cache_name :: "cache \<Rightarrow> string" where
  "cache_name MediaCache = ''media''"
| "cache_name AuxCache = ''auxiliary''"

fun cache_of :: "cache \<Rightarrow> resources \<Rightarrow> (int \<times> nat) list" where
  "cache_of MediaCache r = r_media r"
| "cache_of AuxCache r = r_aux r"

fun set_cache :: "cache \<Rightarrow> (int \<times> nat) list \<Rightarrow> resources \<Rightarrow> resources" where
  "set_cache MediaCache t r = r\<lparr>r_media := t\<rparr>"
| "set_cache AuxCache t r = r\<lparr>r_aux := t\<rparr>"

definition pop_cache :: "cache \<Rightarrow> int \<Rightarrow> client_life \<Rightarrow> client_life" where
  "pop_cache k dc c = c\<lparr>cl_res := set_cache k (filter (\<lambda>(d, _). d \<noteq> dc) (cache_of k (cl_res c))) (cl_res c)\<rparr>"

definition label :: "cache \<Rightarrow> int \<Rightarrow> string" where
  "label k dc = cache_name k @ ''-'' @ int_dec dc"

fun stop_each :: "life_env \<Rightarrow> bool \<Rightarrow> cache \<Rightarrow> (int \<times> nat) list \<Rightarrow> string list \<Rightarrow> string list act" where
  "stop_each E only_active k [] failures c = (Inr failures, c)"
| "stop_each E only_active k ((dc, i) # items) failures c =
    (if only_active \<and> ls_state (session_of c i) \<in> {STOPPED, STOP_FAILED} then stop_each E only_active k items failures c
     else
       (case outside E (StopSession i) c of
          (Inl (CleanupError phases), c1) \<Rightarrow>
            stop_each E only_active k items (failures @ map (\<lambda>p. label k dc @ ''-'' @ p) phases) c1
        | (Inl _, c1) \<Rightarrow> stop_each E only_active k items (failures @ [label k dc]) c1
        | (Inr _, c1) \<Rightarrow>
            stop_each E only_active k items failures (if ls_live (session_of c1 i) then c1 else pop_cache k dc c1)))"

definition stop_cache :: "life_env \<Rightarrow> bool \<Rightarrow> cache \<Rightarrow> string list \<Rightarrow> string list act" where
  "stop_cache E only_active k failures = with_client (\<lambda>c. stop_each E only_active k (cache_of k (cl_res c)) failures)"

definition stop_auxiliary_sessions :: "life_env \<Rightarrow> bool \<Rightarrow> string list act" where
  "stop_auxiliary_sessions E only_active =
    then_act (stop_cache E only_active MediaCache []) (stop_cache E only_active AuxCache)"

definition live_workers :: "resources \<Rightarrow> bool" where
  "live_workers r =
    ((case r_main r of None \<Rightarrow> False | Some i \<Rightarrow> ls_live (r_store r i)) \<or>
     list_ex (\<lambda>(_, i). ls_live (r_store r i)) (r_media r @ r_aux r) \<or>
     r_dispatcher r \<or> r_watchdog r = Some True)"

definition retire :: "resources \<Rightarrow> resources" where
  "retire r =
    (let keep = filter (\<lambda>(_, i). ls_state (r_store r i) \<noteq> STOPPED)
     in r\<lparr>r_media := keep (r_media r), r_aux := keep (r_aux r)\<rparr>)"

definition stop_main :: "life_env \<Rightarrow> string list \<Rightarrow> string list act" where
  "stop_main E failures c =
    (case r_main (cl_res c) of
       None \<Rightarrow> (Inr failures, c)
     | Some i \<Rightarrow>
         (case outside E (StopSession i) c of
            (Inl (CleanupError phases), c1) \<Rightarrow> (Inr (failures @ phases), c1)
          | (Inl e, c1) \<Rightarrow> (Inl e, c1)
          | (Inr _, c1) \<Rightarrow> (Inr failures, c1)))"

definition disconnect_resources :: "life_env \<Rightarrow> unit act" where
  "disconnect_resources E =
    then_act (stop_auxiliary_sessions E True) (\<lambda>failures.
      then_act (stop_main E failures) (\<lambda>failures.
        with_client (\<lambda>c.
          if live_workers (cl_res c) then raise_act (CleanupError (failures @ [''workers'']))
          else then_act (outside E CloseStorage) (\<lambda>_.
            then_act (update_act (\<lambda>c. c\<lparr>cl_storage := False\<rparr>)) (\<lambda>_.
              if failures \<noteq> [] then raise_act (CleanupError failures)
              else update_act (\<lambda>c. c\<lparr>cl_res := (retire (cl_res c))\<lparr>r_main := None\<rparr>, cl_connected := False\<rparr>))))))"

definition disconnect :: "life_env \<Rightarrow> unit act" where
  "disconnect E = with_client (\<lambda>c.
    if \<not> cl_connected c then raise_act ConnectionRefused
    else if cl_initialized c then raise_act ConnectionRefused
    else finish_cleanup E (disconnect_resources E))"


section \<open>Connecting\<close>

definition set_main :: "nat \<Rightarrow> client_life \<Rightarrow> client_life" where
  "set_main i c = c\<lparr>cl_res := (cl_res c)\<lparr>r_main := Some i\<rparr>\<rparr>"

text \<open>The session that \<open>get_session\<close> returned has the name \<open>i\<close>; \<open>other_family\<close> says that its
  address is not of the family the client asks for. A missing address is a \<open>ValueError\<close>.\<close>

definition connect :: "life_env \<Rightarrow> nat \<Rightarrow> bool \<Rightarrow> bool act" where
  "connect E i other_family = with_client (\<lambda>c.
    if cl_connected c then raise_act ConnectionRefused
    else on_error
      (then_act (outside E OpenStorage) (\<lambda>_.
       then_act (update_act (\<lambda>c. c\<lparr>cl_storage := True\<rparr>)) (\<lambda>_.
       then_act (outside E LoadSession) (\<lambda>_.
       then_act (outside E ReadStorage) (\<lambda>has_address.
       if \<not> has_address then raise_act (Raised ''ValueError'')
       else then_act (outside E ReadStorage) (\<lambda>_.
       then_act (outside E GetSession) (\<lambda>_.
       then_act (update_act (\<lambda>c. (set_main i c)\<lparr>cl_connected := True\<rparr>)) (\<lambda>_.
       then_act (if other_family then then_act (outside E ReadStorage) (\<lambda>_. outside E SetDc) else return_act True) (\<lambda>_.
       outside E ReadStorage)))))))))
      (roll_back E (disconnect_resources E)))"


section \<open>Initialising and terminating\<close>

definition stop_dispatcher :: "life_env \<Rightarrow> string list act" where
  "stop_dispatcher E c =
    (case outside E DispatcherStop c of
       (Inl (CleanupError phases), c1) \<Rightarrow> (Inr (map ((@) ''dispatcher-'') phases), c1)
     | (Inl e, c1) \<Rightarrow> (Inl e, c1)
     | (Inr _, c1) \<Rightarrow> (Inr [], c1))"

definition set_watchdog :: "bool option \<Rightarrow> client_life \<Rightarrow> client_life" where
  "set_watchdog w c = c\<lparr>cl_res := (cl_res c)\<lparr>r_watchdog := w\<rparr>\<rparr>"

definition stop_watchdog :: "life_env \<Rightarrow> string list \<Rightarrow> string list act" where
  "stop_watchdog E failures c =
    (if r_watchdog (cl_res c) = None then (Inr failures, c)
     else
       (case outside E CancelWatchdog c of
          (Inl Cancelled, c1) \<Rightarrow> (Inr failures, set_watchdog None c1)
        | (Inl _, c1) \<Rightarrow> (Inr (failures @ [''watchdog'']), set_watchdog (Some False) c1)
        | (Inr _, c1) \<Rightarrow> (Inr failures, set_watchdog None c1)))"

definition terminate_resources :: "life_env \<Rightarrow> unit act" where
  "terminate_resources E =
    then_act (stop_dispatcher E) (\<lambda>failures.
      then_act (stop_auxiliary_sessions E False) (\<lambda>stopped.
        then_act (stop_watchdog E (failures @ stopped)) (\<lambda>failures.
          then_act (update_act (\<lambda>c. c\<lparr>cl_initialized := False\<rparr>)) (\<lambda>_.
            if failures \<noteq> [] then raise_act (CleanupError failures) else return_act ()))))"

definition initialize :: "life_env \<Rightarrow> bool \<Rightarrow> unit act" where
  "initialize E no_updates = with_client (\<lambda>c.
    if \<not> cl_connected c then raise_act ConnectionRefused
    else if cl_initialized c then raise_act ConnectionRefused
    else then_act (on_error (then_act (outside E DispatcherStart) (\<lambda>_. return_act ())) (roll_back E (terminate_resources E))) (\<lambda>_.
      update_act (\<lambda>c. (if no_updates then c else set_watchdog (Some True) c)\<lparr>cl_initialized := True\<rparr>)))"

definition terminate :: "life_env \<Rightarrow> unit act" where
  "terminate E = with_client (\<lambda>c.
    if \<not> cl_initialized c then raise_act ConnectionRefused
    else then_act (if cl_takeout c then outside E FinishTakeout else return_act True) (\<lambda>_.
      then_act (outside E SaveStorage) (\<lambda>_. finish_cleanup E (terminate_resources E))))"


section \<open>Starting and stopping\<close>

record life_options =
  lo_takeout :: bool
  lo_no_updates :: bool

definition start_connected :: "life_env \<Rightarrow> life_options \<Rightarrow> bool \<Rightarrow> unit act" where
  "start_connected E opts is_authorized =
    then_act (if is_authorized then return_act True else outside E Authorize) (\<lambda>_.
    then_act (if lo_takeout opts then outside E ReadStorage else return_act True) (\<lambda>is_bot.
    then_act (if lo_takeout opts \<and> \<not> is_bot
              then then_act (outside E InitTakeout) (\<lambda>_. update_act (\<lambda>c. c\<lparr>cl_takeout := True\<rparr>))
              else return_act ()) (\<lambda>_.
    then_act (outside E UpdateState) (\<lambda>_.
    then_act (outside E GetMe) (\<lambda>_. initialize E (lo_no_updates opts))))))"

definition start_client :: "life_env \<Rightarrow> life_options \<Rightarrow> nat \<Rightarrow> bool \<Rightarrow> unit act" where
  "start_client E opts i other_family =
    then_act (outside E LoadPlugins) (\<lambda>_.
    then_act (connect E i other_family) (\<lambda>is_authorized.
      on_error (start_connected E opts is_authorized) (roll_back E (disconnect E))))"

text \<open>\<open>stop\<close>: the failures of both halves are collected; other exceptions leave at once.\<close>

definition collect :: "('a list \<Rightarrow> 'a list) \<Rightarrow> (life_error \<Rightarrow> 'a list option) \<Rightarrow> unit act \<Rightarrow> 'a list \<Rightarrow> 'a list act" where
  "collect f phases m failures c =
    (case m c of
       (Inl e, c1) \<Rightarrow> (case phases e of Some ps \<Rightarrow> (Inr (failures @ f ps), c1) | None \<Rightarrow> (Inl e, c1))
     | (Inr _, c1) \<Rightarrow> (Inr failures, c1))"

fun cleanup_phases :: "life_error \<Rightarrow> string list option" where
  "cleanup_phases (CleanupError phases) = Some phases"
| "cleanup_phases _ = None"

definition stop_both :: "life_env \<Rightarrow> unit act" where
  "stop_both E =
    then_act (collect id cleanup_phases (terminate E) []) (\<lambda>failures.
      then_act (collect (map ((@) ''main-'')) cleanup_phases (disconnect E) failures) (\<lambda>failures.
        if failures \<noteq> [] then raise_act (CleanupError failures) else return_act ()))"

definition stop_client :: "life_env \<Rightarrow> unit act" where
  "stop_client E = finish_cleanup E (stop_both E)"

definition restart_client :: "life_env \<Rightarrow> life_options \<Rightarrow> nat \<Rightarrow> bool \<Rightarrow> unit act" where
  "restart_client E opts i other_family = then_act (stop_client E) (\<lambda>_. start_client E opts i other_family)"

definition log_out :: "life_env \<Rightarrow> bool act" where
  "log_out E =
    then_act (outside E LogOut) (\<lambda>_. then_act (stop_client E) (\<lambda>_.
      then_act (outside E DeleteStorage) (\<lambda>_. return_act True)))"


section \<open>What an operation ensures\<close>

text \<open>\<open>ensures m c Q R\<close>: from \<open>c\<close> the operation returns with \<open>Q\<close> or raises with \<open>R\<close>.\<close>

definition ensures ::
  "'a act \<Rightarrow> client_life \<Rightarrow> ('a \<Rightarrow> client_life \<Rightarrow> bool) \<Rightarrow> (life_error \<Rightarrow> client_life \<Rightarrow> bool) \<Rightarrow> bool" where
  "ensures m c Q R = (case m c of (Inl e, c1) \<Rightarrow> R e c1 | (Inr x, c1) \<Rightarrow> Q x c1)"

lemma ensures_return [simp]: "ensures (return_act x) c Q R = Q x c"
  by (simp add: ensures_def return_act_def)

lemma ensures_raise [simp]: "ensures (raise_act e) c Q R = R e c"
  by (simp add: ensures_def raise_act_def)

lemma ensures_update [simp]: "ensures (update_act f) c Q R = Q () (f c)"
  by (simp add: ensures_def update_act_def)

lemma ensures_with [simp]: "ensures (with_client g) c Q R = ensures (g c) c Q R"
  by (simp add: ensures_def with_client_def)

lemma ensures_then [simp]:
  "ensures (then_act m f) c Q R = ensures m c (\<lambda>x c1. ensures (f x) c1 Q R) R"
  by (simp add: ensures_def then_act_def split: prod.splits sum.splits)

lemma ensures_on_error [simp]:
  "ensures (on_error m h) c Q R = ensures m c Q (\<lambda>e c1. ensures (h e) c1 Q R)"
  by (simp add: ensures_def on_error_def split: prod.splits sum.splits)

lemma ensures_if [simp]:
  "ensures (if b then m else n) c Q R = (if b then ensures m c Q R else ensures n c Q R)"
  by simp

lemma ensures_weaken:
  assumes "ensures m c Q R"
    and "\<And>x c1. Q x c1 \<Longrightarrow> Q' x c1"
    and "\<And>e c1. R e c1 \<Longrightarrow> R' e c1"
  shows "ensures m c Q' R'"
  using assms by (simp add: ensures_def split: prod.splits sum.splits)

text \<open>The state after an outside call.\<close>

definition called :: "life_env \<Rightarrow> outside_call \<Rightarrow> client_life \<Rightarrow> client_life" where
  "called E k c =
    c\<lparr>cl_res := an_change (E (length (cl_log c)) k) (cl_res c), cl_log := cl_log c @ [(k, cl_res c)]\<rparr>"

abbreviation reply :: "life_env \<Rightarrow> outside_call \<Rightarrow> client_life \<Rightarrow> life_error + bool" where
  "reply E k c \<equiv> an_result (E (length (cl_log c)) k)"

lemma outside_eq: "outside E k c = (reply E k c, called E k c)"
  by (simp add: outside_def called_def Let_def)

lemma ensures_outside [simp]:
  "ensures (outside E k) c Q R =
    (case reply E k c of Inl e \<Rightarrow> R e (called E k c) | Inr x \<Rightarrow> Q x (called E k c))"
  by (simp add: ensures_def outside_eq split: sum.splits)

lemma called_keeps [simp]:
  "cl_connected (called E k c) = cl_connected c"
  "cl_initialized (called E k c) = cl_initialized c"
  "cl_storage (called E k c) = cl_storage c"
  "cl_takeout (called E k c) = cl_takeout c"
  "cl_log (called E k c) = cl_log c @ [(k, cl_res c)]"
  "cl_res (called E k c) = an_change (E (length (cl_log c)) k) (cl_res c)"
  by (simp_all add: called_def)

lemma ensures_finish_cleanup:
  assumes "ensures m c (\<lambda>x c1. Q x (called E CleanupWait c1) \<and> R Cancelled (called E CleanupWait c1))
    (\<lambda>e c1. R e (called E CleanupWait c1) \<and> R Cancelled (called E CleanupWait c1))"
  shows "ensures (finish_cleanup E m) c Q R"
  using assms by (auto simp: ensures_def finish_cleanup_def outside_eq Let_def split: prod.splits sum.splits)

lemma ensures_roll_back:
  assumes "ensures m c (\<lambda>_ c1. \<forall>e'. R e' (called E CleanupWait c1)) (\<lambda>_ c1. \<forall>e'. R e' (called E CleanupWait c1))"
  shows "ensures (roll_back E m e) c Q R"
  using assms by (auto simp: ensures_def roll_back_def finish_cleanup_def outside_eq Let_def split: prod.splits sum.splits)


section \<open>The invariant of a client\<close>

text \<open>An initialised client is connected, and the storage was never closed while a worker was live.\<close>

definition life_ok :: "client_life \<Rightarrow> bool" where
  "life_ok c \<longleftrightarrow> (cl_initialized c \<longrightarrow> cl_connected c) \<and>
    list_all (\<lambda>(k, r). k = CloseStorage \<longrightarrow> \<not> live_workers r) (cl_log c)"

text \<open>What stopping sessions leaves: the flags are as before, the invariant is kept.\<close>

definition same_flags :: "client_life \<Rightarrow> client_life \<Rightarrow> bool" where
  "same_flags c c1 \<longleftrightarrow> cl_connected c1 = cl_connected c \<and> cl_initialized c1 = cl_initialized c \<and>
     cl_storage c1 = cl_storage c \<and> cl_takeout c1 = cl_takeout c \<and> (life_ok c \<longrightarrow> life_ok c1)"

lemma same_flags_refl [simp]: "same_flags c c"
  by (simp add: same_flags_def)

lemma same_flags_trans [trans]: "same_flags a b \<Longrightarrow> same_flags b c \<Longrightarrow> same_flags a c"
  by (simp add: same_flags_def)

lemma same_flags_called: "k \<noteq> CloseStorage \<Longrightarrow> same_flags c (called E k c)"
  by (auto simp: same_flags_def life_ok_def)

lemma same_flags_res [simp]: "same_flags c (c\<lparr>cl_res := r\<rparr>)"
  by (simp add: same_flags_def life_ok_def)

lemma same_flags_pop [simp]: "same_flags c (pop_cache k dc c)"
  by (simp add: pop_cache_def)

lemma ensures_stop_each [simp]:
  "ensures (stop_each E active k [] fs) c Q R = Q fs c"
  "ensures (stop_each E active k ((dc, i) # items) fs) c Q R =
    (if active \<and> ls_state (session_of c i) \<in> {STOPPED, STOP_FAILED} then ensures (stop_each E active k items fs) c Q R
     else let c1 = called E (StopSession i) c in
       case reply E (StopSession i) c of
         Inl (CleanupError phases) \<Rightarrow>
           ensures (stop_each E active k items (fs @ map (\<lambda>p. label k dc @ ''-'' @ p) phases)) c1 Q R
       | Inl _ \<Rightarrow> ensures (stop_each E active k items (fs @ [label k dc])) c1 Q R
       | Inr _ \<Rightarrow> ensures (stop_each E active k items fs) (if ls_live (session_of c1 i) then c1 else pop_cache k dc c1) Q R)"
    (is "_ = ?rhs")
proof -
  show "ensures (stop_each E active k [] fs) c Q R = Q fs c"
    by (simp add: ensures_def)
  show "ensures (stop_each E active k ((dc, i) # items) fs) c Q R = ?rhs"
  proof (cases "active \<and> ls_state (session_of c i) \<in> {STOPPED, STOP_FAILED}")
    case True
    show ?thesis unfolding ensures_def stop_each.simps if_P [OF True] ..
  next
    case False
    then show ?thesis
      by (cases "reply E (StopSession i) c")
        (simp_all only: ensures_def stop_each.simps if_False outside_eq Let_def prod.case sum.case split: life_error.split, simp)
  qed
qed

declare stop_each.simps [simp del]

lemma stop_each_flags: "ensures (stop_each E active k items failures) c (\<lambda>_. same_flags c) (\<lambda>_ _. False)"
proof (induction items arbitrary: failures c)
  case Nil
  then show ?case by simp
next
  case (Cons item items)
  obtain dc i where item: "item = (dc, i)" by force
  have step: "ensures (stop_each E active k items fs) c1 (\<lambda>_. same_flags c) (\<lambda>_ _. False)" if "same_flags c c1" for fs c1
    by (rule ensures_weaken [OF Cons.IH]) (use that in \<open>auto intro: same_flags_trans\<close>)
  have stopped: "same_flags c (called E (StopSession i) c)"
    by (simp add: same_flags_called)
  have popped: "same_flags c (pop_cache k dc (called E (StopSession i) c))"
    by (rule same_flags_trans [OF stopped]) simp
  show ?case
  proof (cases "active \<and> ls_state (session_of c i) \<in> {STOPPED, STOP_FAILED}")
    case True
    show ?thesis unfolding item ensures_stop_each if_P [OF True] by (rule step) simp
  next
    case False
    show ?thesis unfolding item ensures_stop_each if_not_P [OF False]
      using stopped popped by (simp add: Let_def step split: sum.split life_error.split)
  qed
qed

lemma stop_cache_flags: "ensures (stop_cache E active k failures) c (\<lambda>_. same_flags c) (\<lambda>_ _. False)"
  by (simp add: stop_cache_def stop_each_flags)

lemma stop_auxiliary_flags: "ensures (stop_auxiliary_sessions E active) c (\<lambda>_. same_flags c) (\<lambda>_ _. False)"
proof -
  have "ensures (stop_cache E active AuxCache fs) c1 (\<lambda>_. same_flags c) (\<lambda>_ _. False)" if "same_flags c c1" for fs c1
    by (rule ensures_weaken [OF stop_cache_flags]) (use that in \<open>auto intro: same_flags_trans\<close>)
  then show ?thesis
    unfolding stop_auxiliary_sessions_def ensures_then by (rule ensures_weaken [OF stop_cache_flags]) simp_all
qed

lemma stop_main_flags: "ensures (stop_main E failures) c (\<lambda>_. same_flags c) (\<lambda>_. same_flags c)"
  using same_flags_called [of _ c E]
  by (simp add: ensures_def stop_main_def outside_eq split: option.splits sum.splits life_error.splits)

lemma life_ok_called [simp]: "k \<noteq> CloseStorage \<Longrightarrow> life_ok (called E k c) = life_ok c"
  by (auto simp: life_ok_def)

lemma life_ok_close: "life_ok c \<Longrightarrow> \<not> live_workers (cl_res c) \<Longrightarrow> life_ok (called E CloseStorage c)"
  by (simp add: life_ok_def)

lemma life_ok_update [simp]:
  "life_ok (c\<lparr>cl_res := r\<rparr>) = life_ok c"
  "life_ok (c\<lparr>cl_storage := b\<rparr>) = life_ok c"
  "life_ok (c\<lparr>cl_takeout := b\<rparr>) = life_ok c"
  by (simp_all add: life_ok_def)

text \<open>A client that is not initialised may change its connection freely.\<close>

definition idle_ok :: "client_life \<Rightarrow> bool" where
  "idle_ok c \<longleftrightarrow> life_ok c \<and> \<not> cl_initialized c"

lemma idle_ok_simps [simp]:
  "k \<noteq> CloseStorage \<Longrightarrow> idle_ok (called E k c) = idle_ok c"
  "idle_ok (c\<lparr>cl_res := r\<rparr>) = idle_ok c"
  "idle_ok (c\<lparr>cl_storage := b\<rparr>) = idle_ok c"
  "idle_ok (c\<lparr>cl_connected := b\<rparr>) = idle_ok c"
  by (auto simp: idle_ok_def life_ok_def)

lemma idle_ok_flags: "idle_ok c \<Longrightarrow> same_flags c c1 \<Longrightarrow> idle_ok c1"
  by (simp add: idle_ok_def same_flags_def)

lemma disconnect_resources_ok:
  assumes "idle_ok c"
  shows "ensures (disconnect_resources E) c (\<lambda>_ c1. idle_ok c1 \<and> \<not> cl_connected c1)
           (\<lambda>_ c1. idle_ok c1 \<and> cl_connected c1 = cl_connected c)"
proof -
  have close: "ensures (if live_workers (cl_res c2) then raise_act (CleanupError (fs @ [''workers'']))
      else then_act (outside E CloseStorage) (\<lambda>_.
        then_act (update_act (\<lambda>c. c\<lparr>cl_storage := False\<rparr>)) (\<lambda>_.
          if fs \<noteq> [] then raise_act (CleanupError fs)
          else update_act (\<lambda>c. c\<lparr>cl_res := (retire (cl_res c))\<lparr>r_main := None\<rparr>, cl_connected := False\<rparr>)))) c2
      (\<lambda>_ c1. idle_ok c1 \<and> \<not> cl_connected c1) (\<lambda>_ c1. idle_ok c1 \<and> cl_connected c1 = cl_connected c)"
    if "same_flags c c2" for c2 fs
  proof -
    have ok: "idle_ok c2" using assms that by (rule idle_ok_flags)
    then have "idle_ok (called E CloseStorage c2)" if "\<not> live_workers (cl_res c2)"
      using life_ok_close [of c2 E] that by (simp add: idle_ok_def)
    then show ?thesis
      using ok that by (simp add: same_flags_def split: sum.split)
  qed
  have main: "ensures (stop_main E fs) c1 (\<lambda>_. same_flags c) (\<lambda>_. same_flags c)" if "same_flags c c1" for c1 fs
    by (rule ensures_weaken [OF stop_main_flags]) (use that in \<open>auto intro: same_flags_trans\<close>)
  show ?thesis
    unfolding disconnect_resources_def ensures_then [of "stop_auxiliary_sessions E True"]
    apply (rule ensures_weaken [OF stop_auxiliary_flags])
     apply (subst ensures_then)
     apply (erule ensures_weaken [OF main])
      apply (simp only: ensures_with close)
    using assms apply (auto intro: idle_ok_flags simp: same_flags_def)
    done
qed

lemma stop_dispatcher_flags: "ensures (stop_dispatcher E) c (\<lambda>_. same_flags c) (\<lambda>_. same_flags c)"
  using same_flags_called [of DispatcherStop c E]
  by (simp add: ensures_def stop_dispatcher_def outside_eq split: sum.splits life_error.splits)

lemma stop_watchdog_flags: "ensures (stop_watchdog E fs) c (\<lambda>_. same_flags c) (\<lambda>_. same_flags c)"
proof -
  have called: "same_flags c (called E CancelWatchdog c)"
    by (simp add: same_flags_called)
  have "same_flags c (set_watchdog w (called E CancelWatchdog c))" for w
    using same_flags_trans [OF called same_flags_res] by (simp add: set_watchdog_def)
  then show ?thesis
    using called by (cases "reply E CancelWatchdog c")
      (simp_all add: ensures_def stop_watchdog_def outside_eq split: life_error.split)
qed

text \<open>Composition of steps that leave the flags alone.\<close>

lemma flags_then:
  assumes "ensures m c1 (\<lambda>_. same_flags c1) (\<lambda>_. same_flags c1)"
    and "same_flags c c1"
    and "\<And>x c2. same_flags c c2 \<Longrightarrow> ensures (f x) c2 Q R"
    and "\<And>e c2. same_flags c c2 \<Longrightarrow> R e c2"
  shows "ensures (then_act m f) c1 Q R"
  unfolding ensures_then
  by (rule ensures_weaken [OF assms(1)]) (use assms same_flags_trans [of c c1] in blast)+

lemma stop_auxiliary_flags': "ensures (stop_auxiliary_sessions E active) c (\<lambda>_. same_flags c) (\<lambda>_. same_flags c)"
  by (rule ensures_weaken [OF stop_auxiliary_flags]) simp_all

lemma idle_ok_uninitialized: "life_ok c \<Longrightarrow> idle_ok (c\<lparr>cl_initialized := False\<rparr>)"
  by (simp add: idle_ok_def life_ok_def)

lemma terminate_resources_ok:
  assumes "life_ok c"
  shows "ensures (terminate_resources E) c (\<lambda>_ c1. idle_ok c1 \<and> cl_connected c1 = cl_connected c)
           (\<lambda>_ c1. life_ok c1 \<and> cl_connected c1 = cl_connected c)"
proof -
  have last: "ensures (then_act (update_act (\<lambda>c. c\<lparr>cl_initialized := False\<rparr>)) (\<lambda>_.
        if fs \<noteq> [] then raise_act (CleanupError fs) else return_act ())) c1
      (\<lambda>_ c1. idle_ok c1 \<and> cl_connected c1 = cl_connected c) (\<lambda>_ c1. life_ok c1 \<and> cl_connected c1 = cl_connected c)"
    if "same_flags c c1" for c1 fs
    using assms that idle_ok_uninitialized [of c1] by (simp add: same_flags_def idle_ok_def)
  have raised: "life_ok c1 \<and> cl_connected c1 = cl_connected c" if "same_flags c c1" for c1
    using assms that by (simp add: same_flags_def)
  show ?thesis
    unfolding terminate_resources_def
    by (rule flags_then [OF stop_dispatcher_flags same_flags_refl],
        rule flags_then [OF stop_auxiliary_flags'], assumption,
        rule flags_then [OF stop_watchdog_flags], assumption)
      (simp_all only: last raised)
qed

text \<open>Every operation keeps the invariant, whether it returns or raises.\<close>

definition keeps :: "(client_life \<Rightarrow> bool) \<Rightarrow> 'a act \<Rightarrow> client_life \<Rightarrow> bool" where
  "keeps P m c \<longleftrightarrow> (P c \<longrightarrow> ensures m c (\<lambda>_. P) (\<lambda>_. P))"

abbreviation keeps_ok :: "'a act \<Rightarrow> client_life \<Rightarrow> bool" where
  "keeps_ok \<equiv> keeps life_ok"

lemma keepsI: "(P c \<Longrightarrow> ensures m c (\<lambda>_. P) (\<lambda>_. P)) \<Longrightarrow> keeps P m c"
  by (simp add: keeps_def)

lemma keeps_then: "keeps P m c \<Longrightarrow> (\<And>x c1. keeps P (f x) c1) \<Longrightarrow> keeps P (then_act m f) c"
  by (auto simp: keeps_def intro: ensures_weaken)

lemma keeps_on_error: "keeps P m c \<Longrightarrow> (\<And>e c1. keeps P (h e) c1) \<Longrightarrow> keeps P (on_error m h) c"
  by (auto simp: keeps_def intro: ensures_weaken)

lemma keeps_outside:
  "k \<noteq> CloseStorage \<Longrightarrow> keeps life_ok (outside E k) c"
  "k \<noteq> CloseStorage \<Longrightarrow> keeps idle_ok (outside E k) c"
  by (simp_all add: keeps_def split: sum.split)

lemma keeps_simple [simp]:
  "keeps P (return_act x) c"
  "keeps P (raise_act e) c"
  by (simp_all add: keeps_def)

lemma keeps_update: "(P c \<Longrightarrow> P (f c)) \<Longrightarrow> keeps P (update_act f) c"
  by (simp add: keeps_def)

lemma keeps_with: "keeps P (with_client f) c = keeps P (f c) c"
  by (simp add: keeps_def)

lemma keeps_finish: "keeps_ok m c \<Longrightarrow> keeps_ok (finish_cleanup E m) c"
  by (auto simp: keeps_def intro!: ensures_finish_cleanup elim!: ensures_weaken)

lemma keeps_roll_back:
  "keeps life_ok m c \<Longrightarrow> keeps life_ok (roll_back E m e) c"
  "keeps idle_ok m c \<Longrightarrow> keeps idle_ok (roll_back E m e) c"
  by (auto simp: keeps_def intro!: ensures_roll_back elim!: ensures_weaken)

lemma disconnect_keeps: "keeps_ok (disconnect E) c"
proof (rule keepsI)
  assume ok: "life_ok c"
  show "ensures (disconnect E) c (\<lambda>_. life_ok) (\<lambda>_. life_ok)"
  proof (cases "cl_initialized c")
    case True
    then show ?thesis using ok by (simp add: disconnect_def)
  next
    case False
    then have "idle_ok c" using ok by (simp add: idle_ok_def)
    then have "ensures (finish_cleanup E (disconnect_resources E)) c (\<lambda>_. life_ok) (\<lambda>_. life_ok)"
      by (intro ensures_finish_cleanup ensures_weaken [OF disconnect_resources_ok]) (auto simp: idle_ok_def)
    then show ?thesis using ok False by (simp add: disconnect_def)
  qed
qed

lemma disconnect_resources_keeps: "keeps idle_ok (disconnect_resources E) c"
  by (rule keepsI, rule ensures_weaken [OF disconnect_resources_ok]) simp_all

lemma terminate_resources_keeps: "keeps_ok (terminate_resources E) c"
  by (rule keepsI, rule ensures_weaken [OF terminate_resources_ok]) (simp_all add: idle_ok_def)

lemma connect_keeps: "keeps_ok (connect E i fam) c"
proof (rule keepsI)
  assume ok: "life_ok c"
  have "keeps idle_ok (connect E i fam) c"
    unfolding connect_def keeps_with
    by (auto intro!: keeps_on_error keeps_roll_back keeps_then keeps_outside keeps_update disconnect_resources_keeps
        simp: set_main_def)
  then have idle: "ensures (connect E i fam) c (\<lambda>_. idle_ok) (\<lambda>_. idle_ok)" if "idle_ok c"
    using that by (simp only: keeps_def)
  show "ensures (connect E i fam) c (\<lambda>_. life_ok) (\<lambda>_. life_ok)"
  proof (cases "cl_connected c")
    case True
    then show ?thesis using ok by (simp add: connect_def)
  next
    case False
    then have "idle_ok c" using ok by (auto simp: idle_ok_def life_ok_def)
    then show ?thesis by (rule ensures_weaken [OF idle]) (simp_all add: idle_ok_def)
  qed
qed

lemma initialize_keeps: "keeps_ok (initialize E silent) c"
proof (rule keepsI)
  assume ok: "life_ok c"
  have undone: "ensures (roll_back E (terminate_resources E) e) c1 (Q :: unit \<Rightarrow> client_life \<Rightarrow> bool) (\<lambda>_. life_ok)"
    if "life_ok c1" for e c1 Q
    by (intro ensures_roll_back ensures_weaken [OF terminate_resources_ok]) (use that in \<open>auto simp: idle_ok_def\<close>)
  have running: "life_ok (c1\<lparr>cl_initialized := True\<rparr>)" if "life_ok c1" "cl_connected c1" for c1
    using that by (simp add: life_ok_def)
  show "ensures (initialize E silent) c (\<lambda>_. life_ok) (\<lambda>_. life_ok)"
    using ok by (simp add: initialize_def set_watchdog_def undone running split: sum.split)
qed

lemma terminate_keeps: "keeps_ok (terminate E) c"
  unfolding terminate_def keeps_with
  by (auto intro!: keeps_then keeps_outside keeps_finish terminate_resources_keeps)

lemma start_keeps: "keeps_ok (start_client E opts i fam) c"
proof -
  have "keeps_ok (start_connected E opts b) c1" for b c1
    unfolding start_connected_def by (auto intro!: keeps_then keeps_outside keeps_update initialize_keeps)
  then show ?thesis
    unfolding start_client_def
    by (auto intro!: keeps_then keeps_on_error keeps_outside keeps_roll_back connect_keeps disconnect_keeps)
qed

lemma collect_keeps: "keeps_ok m c \<Longrightarrow> keeps_ok (collect f phases m fs) c"
  by (auto simp: keeps_def ensures_def collect_def split: prod.splits sum.splits option.splits)

lemma stop_keeps: "keeps_ok (stop_client E) c"
  unfolding stop_client_def stop_both_def
  by (auto intro!: keeps_finish keeps_then collect_keeps terminate_keeps disconnect_keeps)

text \<open>Any sequence of calls of the client, with anything outside happening between them.\<close>

datatype life_call =
    Connect nat bool
  | Disconnect
  | Initialize bool
  | Terminate
  | Start life_options nat bool
  | Stop
  | Restart life_options nat bool
  | LogOutCall
  | Meanwhile "resources \<Rightarrow> resources"

definition ignore :: "'a act \<Rightarrow> client_life \<Rightarrow> client_life" where
  "ignore m c = snd (m c)"

fun perform :: "life_env \<Rightarrow> life_call \<Rightarrow> client_life \<Rightarrow> client_life" where
  "perform E (Connect i fam) = ignore (connect E i fam)"
| "perform E Disconnect = ignore (disconnect E)"
| "perform E (Initialize silent) = ignore (initialize E silent)"
| "perform E Terminate = ignore (terminate E)"
| "perform E (Start opts i fam) = ignore (start_client E opts i fam)"
| "perform E Stop = ignore (stop_client E)"
| "perform E (Restart opts i fam) = ignore (restart_client E opts i fam)"
| "perform E LogOutCall = ignore (log_out E)"
| "perform E (Meanwhile f) = (\<lambda>c. c\<lparr>cl_res := f (cl_res c)\<rparr>)"

definition new_life :: "(nat \<Rightarrow> life_session) \<Rightarrow> client_life" where
  "new_life store =
    \<lparr>cl_connected = False, cl_initialized = False, cl_storage = False, cl_takeout = False,
     cl_res = \<lparr>r_store = store, r_main = None, r_media = [], r_aux = [], r_dispatcher = False, r_watchdog = None\<rparr>,
     cl_log = []\<rparr>"

lemma ignore_ok: "keeps_ok m c \<Longrightarrow> life_ok c \<Longrightarrow> life_ok (ignore m c)"
  by (cases "m c") (auto simp: keeps_def ensures_def ignore_def split: sum.splits)

lemma perform_ok: "life_ok c \<Longrightarrow> life_ok (perform E k c)"
proof (cases k)
  case (Connect i fam)
  assume "life_ok c"
  then show ?thesis using Connect by (simp add: ignore_ok connect_keeps)
next
  case (Restart opts i fam)
  have "keeps_ok (restart_client E opts i fam) c"
    unfolding restart_client_def by (intro keeps_then stop_keeps start_keeps)
  moreover assume "life_ok c"
  ultimately show ?thesis using Restart by (simp add: ignore_ok)
next
  case LogOutCall
  have "keeps_ok (log_out E) c"
    unfolding log_out_def by (intro keeps_then stop_keeps keeps_outside) simp_all
  moreover assume "life_ok c"
  ultimately show ?thesis using LogOutCall by (simp add: ignore_ok)
qed (simp_all add: ignore_ok disconnect_keeps initialize_keeps terminate_keeps start_keeps stop_keeps)

section \<open>Starting and stopping when closing succeeds\<close>

text \<open>A session that has stopped has no live worker, and no session failed to stop.\<close>

definition tidy :: "resources \<Rightarrow> bool" where
  "tidy r \<longleftrightarrow> (\<forall>i. ls_state (r_store r i) \<noteq> STOP_FAILED \<and> (ls_state (r_store r i) = STOPPED \<longrightarrow> \<not> ls_live (r_store r i)))"

text \<open>Calls that close something succeed and close just that; \<open>load_plugins\<close> does not wait, and the others may
  fail and do anything to the sessions as long as they stay tidy. Only \<open>start\<close> of the dispatcher makes it
  live.\<close>

fun calm_answer :: "outside_call \<Rightarrow> answer \<Rightarrow> bool" where
  "calm_answer (StopSession i) a \<longleftrightarrow> isl (an_result a) = False \<and>
     (\<forall>r. an_change a r = r\<lparr>r_store := (r_store r)(i := \<lparr>ls_state = STOPPED, ls_live = False\<rparr>)\<rparr>)"
| "calm_answer DispatcherStop a \<longleftrightarrow> isl (an_result a) = False \<and> (\<forall>r. an_change a r = r\<lparr>r_dispatcher := False\<rparr>)"
| "calm_answer CancelWatchdog a \<longleftrightarrow> (isl (an_result a) \<longrightarrow> an_result a = Inl Cancelled) \<and> (\<forall>r. an_change a r = r)"
| "calm_answer CloseStorage a \<longleftrightarrow> isl (an_result a) = False \<and> (\<forall>r. an_change a r = r)"
| "calm_answer CleanupWait a \<longleftrightarrow> (\<forall>r. an_change a r = r)"
| "calm_answer LoadPlugins a \<longleftrightarrow> (\<forall>r. an_change a r = r)"
| "calm_answer DispatcherStart a \<longleftrightarrow> (\<forall>r. (tidy r \<longrightarrow> tidy (an_change a r)) \<and> r_watchdog (an_change a r) = r_watchdog r)"
| "calm_answer _ a \<longleftrightarrow> (\<forall>r. (tidy r \<longrightarrow> tidy (an_change a r)) \<and> r_watchdog (an_change a r) = r_watchdog r \<and>
     r_dispatcher (an_change a r) = r_dispatcher r)"

definition calm :: "life_env \<Rightarrow> bool" where
  "calm E \<longleftrightarrow> (\<forall>n k. calm_answer k (E n k))"

definition at_rest :: "client_life \<Rightarrow> bool" where
  "at_rest c \<longleftrightarrow> \<not> cl_connected c \<and> \<not> cl_initialized c \<and> \<not> cl_storage c \<and> r_main (cl_res c) = None \<and>
     r_media (cl_res c) = [] \<and> r_aux (cl_res c) = [] \<and> \<not> r_dispatcher (cl_res c) \<and> r_watchdog (cl_res c) = None \<and>
     tidy (cl_res c)"

definition started :: "client_life \<Rightarrow> bool" where
  "started c \<longleftrightarrow> cl_connected c \<and> cl_initialized c \<and> tidy (cl_res c)"

text \<open>A client whose dispatcher and watchdog are not running.\<close>

definition no_tasks :: "client_life \<Rightarrow> bool" where
  "no_tasks c \<longleftrightarrow> \<not> cl_initialized c \<and> tidy (cl_res c) \<and> \<not> r_dispatcher (cl_res c) \<and> r_watchdog (cl_res c) = None"

text \<open>What stopping sessions does to the resources.\<close>

definition settles :: "client_life \<Rightarrow> client_life \<Rightarrow> bool" where
  "settles c c1 \<longleftrightarrow> same_flags c c1 \<and> tidy (cl_res c1) \<and> r_main (cl_res c1) = r_main (cl_res c) \<and>
     r_dispatcher (cl_res c1) = r_dispatcher (cl_res c) \<and> r_watchdog (cl_res c1) = r_watchdog (cl_res c) \<and>
     (\<forall>i. ls_state (session_of c i) = STOPPED \<longrightarrow> ls_state (session_of c1 i) = STOPPED) \<and>
     set (r_media (cl_res c1)) \<subseteq> set (r_media (cl_res c)) \<and> set (r_aux (cl_res c1)) \<subseteq> set (r_aux (cl_res c))"

lemma settles_refl: "tidy (cl_res c) \<Longrightarrow> settles c c"
  by (simp add: settles_def)

lemma settles_trans: "settles a b \<Longrightarrow> settles b c \<Longrightarrow> settles a c"
  by (auto simp: settles_def intro: same_flags_trans)

lemma settles_tidy: "settles c c1 \<Longrightarrow> tidy (cl_res c1)"
  by (simp add: settles_def)

lemma settles_stopped:
  "settles c c1 \<Longrightarrow> ls_state (session_of c i) = STOPPED \<Longrightarrow> ls_state (session_of c1 i) = STOPPED"
  by (simp add: settles_def)

lemma calm_stop:
  assumes "calm E" "tidy (cl_res c)"
  shows "\<exists>x. reply E (StopSession i) c = Inr x"
    and "settles c (called E (StopSession i) c)"
    and "ls_state (session_of (called E (StopSession i) c) i) = STOPPED"
proof -
  have answer: "calm_answer (StopSession i) (E (length (cl_log c)) (StopSession i))"
    using assms(1) by (simp add: calm_def)
  then show "\<exists>x. reply E (StopSession i) c = Inr x"
    by (cases "reply E (StopSession i) c") auto
  have change: "cl_res (called E (StopSession i) c) =
      (cl_res c)\<lparr>r_store := (r_store (cl_res c))(i := \<lparr>ls_state = STOPPED, ls_live = False\<rparr>)\<rparr>"
    using answer by simp
  show "settles c (called E (StopSession i) c)"
    unfolding settles_def session_of_def change
    using assms(2) same_flags_called [of "StopSession i" c E] by (simp add: tidy_def)
  show "ls_state (session_of (called E (StopSession i) c) i) = STOPPED"
    unfolding session_of_def change by simp
qed

lemma settles_pop: "tidy (cl_res c) \<Longrightarrow> settles c (pop_cache k dc c)"
  by (cases k) (auto simp: settles_def pop_cache_def tidy_def session_of_def)

lemma calm_stop_each:
  assumes "calm E" "tidy (cl_res c)"
  shows "ensures (stop_each E active k items fs) c
    (\<lambda>fs1 c1. fs1 = fs \<and> settles c c1 \<and> (\<forall>(d, i) \<in> set items. ls_state (session_of c1 i) = STOPPED)) (\<lambda>_ _. False)"
  using assms(2)
proof (induction items arbitrary: c)
  case Nil
  then show ?case by (simp add: settles_refl)
next
  case (Cons item items)
  obtain dc i where item: "item = (dc, i)" by force
  have step: "ensures (stop_each E active k items fs) c1
    (\<lambda>fs1 c2. fs1 = fs \<and> settles c c2 \<and> (\<forall>(d, i) \<in> set (item # items). ls_state (session_of c2 i) = STOPPED)) (\<lambda>_ _. False)"
    if c1: "settles c c1" "ls_state (session_of c1 i) = STOPPED" for c1
    by (rule ensures_weaken [OF Cons.IH [OF settles_tidy [OF c1(1)]]])
      (use c1 in \<open>auto simp: item intro: settles_trans settles_stopped\<close>)
  show ?case
  proof (cases "active \<and> ls_state (session_of c i) \<in> {STOPPED, STOP_FAILED}")
    case True
    then have "ls_state (session_of c i) = STOPPED"
      using Cons.prems by (auto simp: tidy_def session_of_def)
    then show ?thesis unfolding item ensures_stop_each if_P [OF True]
      using step [OF settles_refl [OF Cons.prems]] by (simp add: item)
  next
    case False
    note stopped = calm_stop [OF assms(1) Cons.prems, of i]
    have popped: "settles c (pop_cache k dc (called E (StopSession i) c))"
      "ls_state (session_of (pop_cache k dc (called E (StopSession i) c)) i) = STOPPED"
      using settles_pop [OF settles_tidy [OF stopped(2)]] stopped(2,3)
      by (blast intro: settles_trans, blast intro: settles_stopped)
    obtain x where x: "reply E (StopSession i) c = Inr x" using stopped(1) by blast
    show ?thesis unfolding item ensures_stop_each if_not_P [OF False]
      using step [OF stopped(2,3)] step [OF popped] by (simp add: x Let_def item)
  qed
qed


definition caches_stopped :: "client_life \<Rightarrow> bool" where
  "caches_stopped c \<longleftrightarrow>
    (\<forall>(d, i) \<in> set (r_media (cl_res c) @ r_aux (cl_res c)). ls_state (session_of c i) = STOPPED)"

lemma caches_stopped_settles: "settles c c1 \<Longrightarrow> caches_stopped c \<Longrightarrow> caches_stopped c1"
  by (fastforce simp: settles_def caches_stopped_def)

lemma calm_stop_auxiliary:
  assumes "calm E" "tidy (cl_res c)"
  shows "ensures (stop_auxiliary_sessions E active) c (\<lambda>fs c1. fs = [] \<and> settles c c1 \<and> caches_stopped c1) (\<lambda>_ _. False)"
proof -
  have aux: "ensures (stop_cache E active AuxCache []) c1
      (\<lambda>fs c2. fs = [] \<and> settles c c2 \<and> caches_stopped c2) (\<lambda>_ _. False)"
    if c1: "settles c c1" "\<forall>(d, i) \<in> set (r_media (cl_res c)). ls_state (session_of c1 i) = STOPPED" for c1
  proof -
    have all: "caches_stopped c2"
      if c2: "settles c1 c2" "\<forall>(d, i) \<in> set (r_aux (cl_res c1)). ls_state (session_of c2 i) = STOPPED" for c2
    proof -
      have "set (r_media (cl_res c2)) \<subseteq> set (r_media (cl_res c))" "set (r_aux (cl_res c2)) \<subseteq> set (r_aux (cl_res c1))"
        using c1(1) c2(1) by (auto simp: settles_def)
      then show ?thesis
        using c1(2) c2(2) settles_stopped [OF c2(1)] by (fastforce simp: caches_stopped_def)
    qed
    show ?thesis
      unfolding stop_cache_def ensures_with cache_of.simps
      by (rule ensures_weaken [OF calm_stop_each [OF assms(1) settles_tidy [OF c1(1)]]])
        (use all settles_trans [OF c1(1)] in blast)+
  qed
  show ?thesis
    unfolding stop_auxiliary_sessions_def ensures_then stop_cache_def [of E active MediaCache] ensures_with cache_of.simps
    by (rule ensures_weaken [OF calm_stop_each [OF assms]]) (use aux in auto)
qed

lemma stopped_not_live:
  assumes "tidy (cl_res c)" "caches_stopped c" "\<not> r_dispatcher (cl_res c)" "r_watchdog (cl_res c) = None"
    and "\<forall>i. r_main (cl_res c) = Some i \<longrightarrow> ls_state (session_of c i) = STOPPED"
  shows "\<not> live_workers (cl_res c)"
  using assms by (auto simp: live_workers_def tidy_def caches_stopped_def session_of_def list_ex_iff split: option.splits)

text \<open>Once everything has stopped, \<open>disconnect\<close> closes the storage and forgets the sessions.\<close>

lemma calm_disconnect_resources:
  assumes "calm E" "no_tasks c"
  shows "ensures (disconnect_resources E) c (\<lambda>_. at_rest) (\<lambda>_ _. False)"
proof -
  have tidy: "tidy (cl_res c)" using assms(2) by (simp add: no_tasks_def)
  let ?stopped = "\<lambda>c2. settles c c2 \<and> caches_stopped c2 \<and>
    (\<forall>i. r_main (cl_res c2) = Some i \<longrightarrow> ls_state (session_of c2 i) = STOPPED)"
  have main: "ensures (stop_main E fs) c1 (\<lambda>fs c2. fs = [] \<and> ?stopped c2) (\<lambda>_ _. False)"
    if fs: "fs = [] \<and> settles c c1 \<and> caches_stopped c1" for fs c1
  proof -
    from fs have c1: "settles c c1" "caches_stopped c1" and fs: "fs = []" by simp_all
    show ?thesis
    proof (cases "r_main (cl_res c1)")
      case None
      then show ?thesis using c1 fs by (simp add: ensures_def stop_main_def)
    next
      case (Some i)
      note stopped = calm_stop [OF assms(1) settles_tidy [OF c1(1)], of i]
      have "r_main (cl_res (called E (StopSession i) c1)) = Some i"
        using stopped(2) Some by (simp add: settles_def)
      then show ?thesis
        using Some stopped settles_trans [OF c1(1) stopped(2)] caches_stopped_settles [OF stopped(2) c1(2)]
        by (auto simp: fs ensures_def stop_main_def outside_eq)
    qed
  qed
  have close: "ensures (if live_workers (cl_res c2) then raise_act (CleanupError (fs @ [''workers'']))
      else then_act (outside E CloseStorage) (\<lambda>_.
        then_act (update_act (\<lambda>c. c\<lparr>cl_storage := False\<rparr>)) (\<lambda>_.
          if fs \<noteq> [] then raise_act (CleanupError fs)
          else update_act (\<lambda>c. c\<lparr>cl_res := (retire (cl_res c))\<lparr>r_main := None\<rparr>, cl_connected := False\<rparr>)))) c2
      (\<lambda>_. at_rest) (\<lambda>_ _. False)"
    if c2: "fs = [] \<and> ?stopped c2" for fs c2
  proof -
    have off: "tidy (cl_res c2)" "\<not> r_dispatcher (cl_res c2)" "r_watchdog (cl_res c2) = None" "\<not> cl_initialized c2"
      using c2 assms(2) by (auto simp: settles_def no_tasks_def same_flags_def)
    then have dead: "\<not> live_workers (cl_res c2)" using c2 by (intro stopped_not_live) auto
    have answer: "calm_answer CloseStorage (E (length (cl_log c2)) CloseStorage)"
      using assms(1) by (simp add: calm_def)
    then obtain x where x: "reply E CloseStorage c2 = Inr x"
      by (cases "reply E CloseStorage c2") auto
    have "r_media (retire (cl_res c2)) = []" "r_aux (retire (cl_res c2)) = []"
      using c2 by (auto simp: retire_def Let_def caches_stopped_def session_of_def filter_empty_conv)
    then show ?thesis
      using c2 off dead answer by (simp add: x at_rest_def) (simp add: retire_def tidy_def Let_def)
  qed
  show ?thesis
    unfolding disconnect_resources_def ensures_then [of "stop_auxiliary_sessions E True"]
    by (rule ensures_weaken [OF calm_stop_auxiliary [OF assms(1) tidy]], subst ensures_then,
        rule ensures_weaken [OF main], assumption, subst ensures_with, rule close, assumption, simp_all)
qed


text \<open>Rolling back a start-up and stopping the tasks.\<close>

lemma calm_wait:
  assumes "calm E"
  shows "cl_res (called E CleanupWait c) = cl_res c"
proof -
  have "calm_answer CleanupWait (E (length (cl_log c)) CleanupWait)"
    using assms by (simp add: calm_def)
  then show ?thesis by simp
qed

lemma calm_wait_simps [simp]:
  assumes "calm E"
  shows "at_rest (called E CleanupWait c) = at_rest c"
    and "no_tasks (called E CleanupWait c) = no_tasks c"
    and "started (called E CleanupWait c) = started c"
  using calm_wait [OF assms] by (simp_all add: at_rest_def no_tasks_def started_def del: called_keeps(6))

lemma calm_disconnect:
  assumes "calm E" "no_tasks c" "cl_connected c"
  shows "ensures (disconnect E) c (\<lambda>_. at_rest) (\<lambda>_. at_rest)"
  using assms by (simp add: disconnect_def no_tasks_def)
    (auto intro!: ensures_finish_cleanup ensures_weaken [OF calm_disconnect_resources] simp: no_tasks_def)

lemma calm_terminate_resources:
  assumes "calm E" "tidy (cl_res c)"
  shows "ensures (terminate_resources E) c (\<lambda>_ c1. no_tasks c1 \<and> cl_connected c1 = cl_connected c) (\<lambda>_ _. False)"
proof -
  have answer: "calm_answer k (E n k)" for n k
    using assms(1) by (simp add: calm_def)
  obtain x where x: "reply E DispatcherStop c = Inr x"
    using answer [of DispatcherStop "length (cl_log c)"] by (cases "reply E DispatcherStop c") auto
  define c1 where "c1 = called E DispatcherStop c"
  have c1: "tidy (cl_res c1)" "\<not> r_dispatcher (cl_res c1)" "cl_connected c1 = cl_connected c"
    using answer [of DispatcherStop] assms(2) by (simp_all add: c1_def tidy_def)
  have stopped: "ensures (stop_dispatcher E) c (\<lambda>fs c2. fs = [] \<and> c2 = c1) (\<lambda>_ _. False)"
    by (simp add: stop_dispatcher_def ensures_def outside_eq x c1_def)
  have watchdog: "ensures (stop_watchdog E fs) c2
      (\<lambda>fs c3. fs = [] \<and> tidy (cl_res c3) \<and> \<not> r_dispatcher (cl_res c3) \<and> r_watchdog (cl_res c3) = None \<and>
        cl_connected c3 = cl_connected c) (\<lambda>_ _. False)"
    if "fs = []" "settles c1 c2" for fs c2
  proof -
    have c2: "tidy (cl_res c2)" "\<not> r_dispatcher (cl_res c2)" "cl_connected c2 = cl_connected c"
      using that(2) c1 by (auto simp: settles_def same_flags_def)
    have "reply E CancelWatchdog c2 = Inl Cancelled \<or> (\<exists>y. reply E CancelWatchdog c2 = Inr y)"
      using answer [of CancelWatchdog "length (cl_log c2)"] by (cases "reply E CancelWatchdog c2") auto
    then show ?thesis
      using c2 that(1) answer [of CancelWatchdog]
      by (auto simp: ensures_def stop_watchdog_def outside_eq set_watchdog_def tidy_def)
  qed
  have auxiliary: "ensures (stop_auxiliary_sessions E False) c2 (\<lambda>fs c3. fs = [] \<and> settles c1 c3) (\<lambda>_ _. False)"
    if "fs = [] \<and> c2 = c1" for fs :: "string list" and c2
    using that by (auto intro: ensures_weaken [OF calm_stop_auxiliary [OF assms(1) c1(1)]])
  show ?thesis
    unfolding terminate_resources_def ensures_then
  proof (rule ensures_weaken [OF stopped])
    fix fs :: "string list" and c2
    assume fs: "fs = [] \<and> c2 = c1"
    show "ensures (stop_auxiliary_sessions E False) c2
      (\<lambda>x c1. ensures (stop_watchdog E (fs @ x)) c1
        (\<lambda>x c1. ensures (update_act (\<lambda>c. c\<lparr>cl_initialized := False\<rparr>)) c1
          (\<lambda>_ c1. ensures (if x \<noteq> [] then raise_act (CleanupError x) else return_act ()) c1
            (\<lambda>_ c1. no_tasks c1 \<and> cl_connected c1 = cl_connected c) (\<lambda>_ _. False)) (\<lambda>_ _. False)) (\<lambda>_ _. False)) (\<lambda>_ _. False)"
    proof (rule ensures_weaken [OF auxiliary [OF fs]])
      fix x :: "string list" and c3
      assume x: "x = [] \<and> settles c1 c3"
      show "ensures (stop_watchdog E (fs @ x)) c3
        (\<lambda>x c1. ensures (update_act (\<lambda>c. c\<lparr>cl_initialized := False\<rparr>)) c1
          (\<lambda>_ c1. ensures (if x \<noteq> [] then raise_act (CleanupError x) else return_act ()) c1
            (\<lambda>_ c1. no_tasks c1 \<and> cl_connected c1 = cl_connected c) (\<lambda>_ _. False)) (\<lambda>_ _. False)) (\<lambda>_ _. False)"
        by (rule ensures_weaken [OF watchdog]) (use fs x in \<open>auto simp: no_tasks_def\<close>)
    qed simp
  qed simp
qed

text \<open>Calls before the dispatcher starts leave the tasks off.\<close>

lemma calm_call [simp]:
  assumes "calm E" "k \<in> {OpenStorage, LoadSession, ReadStorage, GetSession, SetDc, Authorize, InitTakeout, UpdateState, GetMe}"
  shows "no_tasks c \<Longrightarrow> no_tasks (called E k c)"
proof -
  have "calm_answer k (E (length (cl_log c)) k)" using assms(1) by (simp add: calm_def)
  then show "no_tasks c \<Longrightarrow> no_tasks (called E k c)"
    using assms(2) by (auto simp: no_tasks_def)
qed

lemma no_tasks_update [simp]:
  "no_tasks (c\<lparr>cl_storage := b\<rparr>) = no_tasks c"
  "no_tasks (c\<lparr>cl_connected := b\<rparr>) = no_tasks c"
  "no_tasks (c\<lparr>cl_takeout := b\<rparr>) = no_tasks c"
  "no_tasks (set_main i c) = no_tasks c"
  by (simp_all add: no_tasks_def set_main_def tidy_def)

lemma calm_connect:
  assumes "calm E" "at_rest c"
  shows "ensures (connect E i fam) c (\<lambda>_ c1. no_tasks c1 \<and> cl_connected c1) (\<lambda>_. at_rest)"
proof -
  have undone: "ensures (roll_back E (disconnect_resources E) e) c1 (Q :: bool \<Rightarrow> client_life \<Rightarrow> bool) (\<lambda>_. at_rest)"
    if "no_tasks c1" for e c1 Q
    by (intro ensures_roll_back ensures_weaken [OF calm_disconnect_resources [OF assms(1) that]]) (use assms(1) in auto)
  have "no_tasks c" "\<not> cl_connected c" using assms(2) by (simp_all add: no_tasks_def at_rest_def)
  then show ?thesis
    using assms(1) by (simp add: connect_def undone split: sum.split)
qed

lemma calm_initialize:
  assumes "calm E" "no_tasks c" "cl_connected c"
  shows "ensures (initialize E silent) c (\<lambda>_. started) (\<lambda>_ c1. no_tasks c1 \<and> cl_connected c1)"
proof -
  have answer: "calm_answer DispatcherStart (E (length (cl_log c)) DispatcherStart)"
    using assms(1) by (simp add: calm_def)
  have tidy: "tidy (cl_res (called E DispatcherStart c))"
    using answer assms(2) by (simp add: no_tasks_def)
  have undone: "ensures (roll_back E (terminate_resources E) e) (called E DispatcherStart c) (Q :: unit \<Rightarrow> client_life \<Rightarrow> bool)
      (\<lambda>_ c1. no_tasks c1 \<and> cl_connected c1)" for e Q
    by (intro ensures_roll_back ensures_weaken [OF calm_terminate_resources [OF assms(1) tidy]]) (use assms in auto)
  show ?thesis
    using assms tidy by (simp add: initialize_def undone split: sum.split)
      (auto simp: no_tasks_def started_def set_watchdog_def tidy_def)
qed

lemma calm_start:
  assumes "calm E" "at_rest c"
  shows "ensures (start_client E opts i fam) c (\<lambda>_. started) (\<lambda>_. at_rest)"
proof -
  have undone: "ensures (roll_back E (disconnect E) e) c1 (Q :: unit \<Rightarrow> client_life \<Rightarrow> bool) (\<lambda>_. at_rest)"
    if "no_tasks c1" "cl_connected c1" for e c1 Q
    by (intro ensures_roll_back ensures_weaken [OF calm_disconnect [OF assms(1) that]]) (use assms(1) in auto)
  have "ensures (start_connected E opts b) c1 (\<lambda>_. started) (\<lambda>_ c1. no_tasks c1 \<and> cl_connected c1)"
    if "no_tasks c1 \<and> cl_connected c1" for b c1
    using that assms(1) by (simp add: start_connected_def calm_initialize split: sum.split)
  then have body: "ensures (start_connected E opts b) c1 (\<lambda>_. started)
      (\<lambda>e c2. ensures (roll_back E (disconnect E) e :: unit act) c2 (\<lambda>_. started) (\<lambda>_. at_rest))"
    if "no_tasks c1 \<and> cl_connected c1" for b c1
    by (rule ensures_weaken) (use that undone in auto)
  have "calm_answer LoadPlugins (E (length (cl_log c)) LoadPlugins)"
    using assms(1) by (simp add: calm_def)
  then have "at_rest (called E LoadPlugins c)"
    using assms(2) by (simp add: at_rest_def)
  then show ?thesis
    by (simp add: start_client_def split: sum.split)
      (auto intro: ensures_weaken [OF calm_connect [OF assms(1)]] body)
qed

text \<open>When nobody cancels \<open>stop\<close> and the storage can be saved.\<close>

definition willing :: "life_env \<Rightarrow> bool" where
  "willing E \<longleftrightarrow> (\<forall>n. an_result (E n CleanupWait) \<noteq> Inl Cancelled \<and>
     \<not> isl (an_result (E n FinishTakeout)) \<and> \<not> isl (an_result (E n SaveStorage)))"

lemma willing_finish:
  assumes "willing E" "ensures m c (\<lambda>x c1. Q x (called E CleanupWait c1)) (\<lambda>e c1. R e (called E CleanupWait c1))"
  shows "ensures (finish_cleanup E m) c Q R"
  using assms by (auto simp: ensures_def finish_cleanup_def outside_eq Let_def willing_def split: prod.splits sum.splits)

lemma started_call:
  assumes "calm E" "k \<in> {FinishTakeout, SaveStorage}" "started c"
  shows "started (called E k c)"
proof -
  have "calm_answer k (E (length (cl_log c)) k)" using assms(1) by (simp add: calm_def)
  then show ?thesis using assms(2,3) by (auto simp: started_def)
qed

lemma calm_terminate:
  assumes "calm E" "willing E" "started c"
  shows "ensures (terminate E) c (\<lambda>_ c1. no_tasks c1 \<and> cl_connected c1) (\<lambda>_ _. False)"
proof -
  have finish: "ensures (finish_cleanup E (terminate_resources E)) c1 (\<lambda>_ c1. no_tasks c1 \<and> cl_connected c1) (\<lambda>_ _. False)"
    if "started c1" for c1
    by (intro willing_finish [OF assms(2)] ensures_weaken [OF calm_terminate_resources [OF assms(1)]])
      (use that assms(1) in \<open>auto simp: started_def\<close>)
  have answers: "\<exists>x. an_result (E n FinishTakeout) = Inr x" "\<exists>x. an_result (E n SaveStorage) = Inr x" for n
    using assms(2) by (auto simp: willing_def isl_def) (metis sum.exhaust)+
  have save: "ensures (then_act (outside E SaveStorage) (\<lambda>_. finish_cleanup E (terminate_resources E))) c1
      (\<lambda>_ c1. no_tasks c1 \<and> cl_connected c1) (\<lambda>_ _. False)" if "started c1" for c1
    using answers(2) [of "length (cl_log c1)"] finish [OF started_call [OF assms(1) _ that]] by auto
  have "cl_initialized c" using assms(3) by (simp add: started_def)
  then show ?thesis
    unfolding terminate_def ensures_with ensures_then [of "if cl_takeout c then _ else _"]
    using answers(1) [of "length (cl_log c)"] save [OF assms(3)] save [OF started_call [OF assms(1) _ assms(3)]]
    by (auto simp del: ensures_then simp: ensures_then [of "if _ then _ else _"] ensures_then [of "return_act _"] ensures_then [of "outside E FinishTakeout"])
qed

lemma calm_stop_client:
  assumes "calm E" "willing E" "started c"
  shows "ensures (stop_client E) c (\<lambda>_. at_rest) (\<lambda>_ _. False)"
proof -
  have disconnected: "ensures (disconnect E) c1 (\<lambda>_. at_rest) (\<lambda>_ _. False)" if "no_tasks c1" "cl_connected c1" for c1
    using that by (simp add: disconnect_def no_tasks_def)
      (intro willing_finish [OF assms(2)] ensures_weaken [OF calm_disconnect_resources [OF assms(1)]], use assms(1) in \<open>auto simp: no_tasks_def\<close>)
  have collected: "ensures (collect f phases m fs) c1 (\<lambda>fs1 c2. fs1 = fs \<and> Q c2) (\<lambda>_ _. False)"
    if "ensures m c1 (\<lambda>_. Q) (\<lambda>_ _. False)" for f phases and m :: "unit act" and fs :: "string list" and c1 Q
    using that by (auto simp: ensures_def collect_def split: prod.splits sum.splits)
  show ?thesis
    unfolding stop_client_def stop_both_def
    apply (rule willing_finish [OF assms(2)])
    apply (simp only: ensures_then)
    apply (rule ensures_weaken [OF collected [OF calm_terminate [OF assms]]])
     apply (elim conjE)
     apply (rule ensures_weaken [OF collected [OF disconnected]])
    using assms(1) by auto
qed

text \<open>When the main session cannot be closed.\<close>

definition keeps_main :: "life_env \<Rightarrow> bool" where
  "keeps_main E \<longleftrightarrow> (\<forall>n k r. r_main (an_change (E n k) r) = r_main r)"

lemma keeps_main_called: "keeps_main E \<Longrightarrow> r_main (cl_res (called E k c)) = r_main (cl_res c)"
  by (simp add: keeps_main_def)

lemma pop_main: "r_main (cl_res (pop_cache k dc c)) = r_main (cl_res c)"
  by (cases k) (simp_all add: pop_cache_def)

lemma stop_each_main:
  assumes "keeps_main E" "r_main (cl_res c) = m"
  shows "ensures (stop_each E active k items fs) c (\<lambda>_ c1. r_main (cl_res c1) = m) (\<lambda>_ _. False)"
  using assms(2)
proof (induction items arbitrary: c fs)
  case Nil
  then show ?case by simp
next
  case (Cons item items)
  obtain dc i where item: "item = (dc, i)" by force
  show ?case
  proof (cases "active \<and> ls_state (session_of c i) \<in> {STOPPED, STOP_FAILED}")
    case True
    show ?thesis unfolding item ensures_stop_each if_P [OF True] by (rule Cons.IH [OF Cons.prems])
  next
    case False
    show ?thesis unfolding item ensures_stop_each if_not_P [OF False]
      using Cons.prems keeps_main_called [OF assms(1), of "StopSession i" c]
      by (simp add: Let_def Cons.IH pop_main del: called_keeps(6) split: sum.split life_error.split)
  qed
qed

lemma stop_auxiliary_main:
  assumes "keeps_main E" "r_main (cl_res c) = m"
  shows "ensures (stop_auxiliary_sessions E active) c (\<lambda>_ c1. r_main (cl_res c1) = m) (\<lambda>_ _. False)"
proof -
  have step: "ensures (stop_cache E active k fs) c1 (\<lambda>_ c1. r_main (cl_res c1) = m) (\<lambda>_ _. False)"
    if "r_main (cl_res c1) = m" for k fs c1
    using stop_each_main [OF assms(1) that] by (simp add: stop_cache_def)
  show ?thesis
    unfolding stop_auxiliary_sessions_def ensures_then
    by (rule ensures_weaken [OF step]) (use assms step in auto)
qed

lemma ensures_conj:
  "ensures m c Q R \<Longrightarrow> ensures m c Q' R' \<Longrightarrow> ensures m c (\<lambda>x c1. Q x c1 \<and> Q' x c1) (\<lambda>e c1. R e c1 \<and> R' e c1)"
  by (simp add: ensures_def split: prod.splits sum.splits)

definition cannot_close :: "life_env \<Rightarrow> nat \<Rightarrow> bool" where
  "cannot_close E i \<longleftrightarrow> (\<forall>n. \<exists>p ps. an_result (E n (StopSession i)) = Inl (CleanupError (p # ps)))"

lemma failed_disconnect_resources:
  assumes "cannot_close E i" "keeps_main E" "cl_connected c" "r_main (cl_res c) = Some i"
  shows "ensures (disconnect_resources E) c (\<lambda>_ _. False) (\<lambda>_ c1. cl_connected c1 \<and> r_main (cl_res c1) = Some i)"
proof -
  have main: "ensures (stop_main E fs) c1 (\<lambda>fs c2. fs \<noteq> [] \<and> cl_connected c2 \<and> r_main (cl_res c2) = Some i) (\<lambda>_ _. False)"
    if "same_flags c c1 \<and> r_main (cl_res c1) = Some i" for fs c1
  proof -
    obtain p ps where "reply E (StopSession i) c1 = Inl (CleanupError (p # ps))"
      using assms(1) unfolding cannot_close_def by blast
    then show ?thesis
      using that assms(3) keeps_main_called [OF assms(2), of "StopSession i" c1]
      by (simp add: ensures_def stop_main_def outside_eq same_flags_def del: called_keeps(6))
  qed
  have close: "ensures (if live_workers (cl_res c2) then raise_act (CleanupError (fs @ [''workers'']))
      else then_act (outside E CloseStorage) (\<lambda>_.
        then_act (update_act (\<lambda>c. c\<lparr>cl_storage := False\<rparr>)) (\<lambda>_.
          if fs \<noteq> [] then raise_act (CleanupError fs)
          else update_act (\<lambda>c. c\<lparr>cl_res := (retire (cl_res c))\<lparr>r_main := None\<rparr>, cl_connected := False\<rparr>)))) c2
      (\<lambda>_ _. False) (\<lambda>_ c1. cl_connected c1 \<and> r_main (cl_res c1) = Some i)"
    if "fs \<noteq> [] \<and> cl_connected c2 \<and> r_main (cl_res c2) = Some i" for fs c2
    using that keeps_main_called [OF assms(2), of CloseStorage c2] by (simp del: called_keeps(6) split: sum.split)
  show ?thesis
    unfolding disconnect_resources_def ensures_then [of "stop_auxiliary_sessions E True"]
    by (rule ensures_weaken [OF ensures_conj [OF stop_auxiliary_flags stop_auxiliary_main [OF assms(2,4)]]],
        subst ensures_then, rule ensures_weaken [OF main], assumption, subst ensures_with, rule close, assumption, simp_all)
qed


section \<open>Properties\<close>

text \<open>C20: Whatever the network, the disk and the workers do, after any sequence of connect, disconnect, initialize,
  terminate, start, stop, restart and log-out calls the client is connected whenever it is initialised, and the storage was
  only ever closed at a moment when no session, handler or watchdog worker was live.\<close>

theorem life_invariant:
  "life_ok (fold (perform E) calls (new_life store))"
proof -
  have "life_ok c \<Longrightarrow> life_ok (fold (perform E) calls c)" for c
    by (induction calls arbitrary: c) (simp_all add: perform_ok)
  then show ?thesis by (simp add: life_ok_def new_life_def)
qed

text \<open>An environment whose calls succeed but those of \<open>fails\<close>, for the witnesses.\<close>

definition demo_env :: "outside_call set \<Rightarrow> life_env" where
  "demo_env fails n k =
    \<lparr>an_result = (if k \<in> fails then Inl (Raised ''RPCError'') else Inr True),
     an_change = (case k of
        StopSession i \<Rightarrow> (\<lambda>r. r\<lparr>r_store := (r_store r)(i := \<lparr>ls_state = STOPPED, ls_live = False\<rparr>)\<rparr>)
      | GetSession \<Rightarrow> (\<lambda>r. r\<lparr>r_store := (r_store r)(0 := \<lparr>ls_state = STARTED, ls_live = True\<rparr>)\<rparr>)
      | DispatcherStart \<Rightarrow> (\<lambda>r. r\<lparr>r_dispatcher := True\<rparr>)
      | DispatcherStop \<Rightarrow> (\<lambda>r. r\<lparr>r_dispatcher := False\<rparr>)
      | _ \<Rightarrow> (\<lambda>r. r))\<rparr>"

definition demo_life :: client_life where
  "demo_life = new_life (\<lambda>_. \<lparr>ls_state = STOPPED, ls_live = False\<rparr>)"

definition demo_options :: life_options where
  "demo_options = \<lparr>lo_takeout = False, lo_no_updates = False\<rparr>"

lemma demo_calm: "fails \<subseteq> {GetMe, DispatcherStart} \<Longrightarrow> calm (demo_env fails)"
  unfolding calm_def
proof (intro allI)
  fix n k
  assume "fails \<subseteq> {GetMe, DispatcherStart}"
  then show "calm_answer k (demo_env fails n k)"
    by (cases k) (auto simp: demo_env_def tidy_def)
qed

lemma demo_at_rest: "at_rest demo_life"
  by (simp add: demo_life_def new_life_def at_rest_def tidy_def)

text \<open>C21: Starting is all or nothing. If what is closed does close, a client at rest that is started ends connected and
  initialised, or the call raises and the client is at rest again: not connected, no session, dispatcher or watchdog,
  and its storage is closed.\<close>

theorem start_all_or_nothing:
  assumes "calm E" "at_rest c"
  shows "case start_client E opts i other_family c of (Inl _, c1) \<Rightarrow> at_rest c1 | (Inr _, c1) \<Rightarrow> started c1"
  using calm_start [OF assms, of opts i other_family] by (simp add: ensures_def)

theorem start_all_or_nothing_witness:
  "calm (demo_env {DispatcherStart}) \<and> at_rest demo_life \<and>
   (case start_client (demo_env {DispatcherStart}) demo_options 0 False demo_life of
      (Inl _, c1) \<Rightarrow> at_rest c1 | (Inr _, c1) \<Rightarrow> started c1)"
  using start_all_or_nothing [OF demo_calm demo_at_rest, of "{DispatcherStart}" demo_options 0 False]
  by (simp add: demo_calm demo_at_rest)

text \<open>C34: Stopping undoes starting. If what is closed does close, nobody cancels and the storage can be saved, stopping a
  client that was started from rest succeeds and leaves it at rest, whatever sessions appeared in the meantime.\<close>

theorem stop_undoes_start:
  assumes "calm E" "willing E" "at_rest c"
    and "start_client E opts i other_family c = (Inr (), c1)"
  shows "\<exists>c2. stop_client E c1 = (Inr (), c2) \<and> at_rest c2"
proof -
  have "started c1"
    using calm_start [OF assms(1,3), of opts i other_family] assms(4) by (simp add: ensures_def)
  then show ?thesis
    using calm_stop_client [OF assms(1,2), of c1] by (cases "stop_client E c1") (auto simp: ensures_def split: sum.splits)
qed

lemma demo_willing: "willing (demo_env {})"
  by (simp add: willing_def demo_env_def)

lemma demo_start: "\<exists>c1. start_client (demo_env {}) demo_options 0 False demo_life = (Inr (), c1)"
  by (simp add: start_client_def connect_def start_connected_def initialize_def then_act_def with_client_def on_error_def
      outside_def update_act_def return_act_def demo_env_def demo_options_def demo_life_def new_life_def set_main_def
      set_watchdog_def Let_def)

theorem stop_undoes_start_witness:
  "\<exists>c1 c2. start_client (demo_env {}) demo_options 0 False demo_life = (Inr (), c1) \<and>
    stop_client (demo_env {}) c1 = (Inr (), c2) \<and> at_rest c2"
  using demo_start stop_undoes_start [OF demo_calm demo_willing demo_at_rest] by fastforce

text \<open>A client whose main session cannot be closed stays connected: \<open>disconnect\<close> raises and keeps the session,
  and connecting again is refused.\<close>

theorem failed_close_keeps_client:
  assumes "cannot_close E i" "keeps_main E" "cl_connected c" "r_main (cl_res c) = Some i"
  shows "\<exists>e c1. disconnect E c = (Inl e, c1) \<and> cl_connected c1 \<and> r_main (cl_res c1) = Some i \<and>
    connect E j other_family c1 = (Inl ConnectionRefused, c1)"
proof -
  have "ensures (finish_cleanup E (disconnect_resources E)) c (\<lambda>_ _. False) (\<lambda>_ c1. cl_connected c1 \<and> r_main (cl_res c1) = Some i)"
    by (rule ensures_finish_cleanup, rule ensures_weaken [OF failed_disconnect_resources [OF assms]])
      (use keeps_main_called [OF assms(2)] in simp_all)
  then have "ensures (disconnect E) c (\<lambda>_ _. False) (\<lambda>_ c1. cl_connected c1 \<and> r_main (cl_res c1) = Some i)"
    using assms(3,4) by (simp add: disconnect_def)
  moreover have "connect E j other_family c1 = (Inl ConnectionRefused, c1)" if "cl_connected c1" for c1
    using that by (simp add: connect_def with_client_def raise_act_def)
  ultimately show ?thesis
    by (cases "disconnect E c") (auto simp: ensures_def split: sum.splits)
qed

definition stuck_env :: life_env where
  "stuck_env n k =
    \<lparr>an_result = (if k = StopSession 0 then Inl (CleanupError [''close'']) else Inr True), an_change = (\<lambda>r. r)\<rparr>"

definition stuck_life :: client_life where
  "stuck_life = (set_main 0 demo_life)\<lparr>cl_connected := True, cl_storage := True\<rparr>"

theorem failed_close_keeps_client_witness:
  "\<exists>e c1. disconnect stuck_env stuck_life = (Inl e, c1) \<and> cl_connected c1 \<and> r_main (cl_res c1) = Some 0 \<and>
    connect stuck_env 1 False c1 = (Inl ConnectionRefused, c1)"
  by (rule failed_close_keeps_client)
    (simp_all add: cannot_close_def keeps_main_def stuck_env_def stuck_life_def set_main_def)

end
