(* ===== verification/Filters.thy ===== *)
theory Filters
  imports Html
begin

text \<open>
  \<open>pyrogram/filters.py\<close>: how filters combine, what of an update they look at, the filters by user, chat and
  topic, and \<open>command\<close>, whose regular expressions are spelled out as the matching they do. The filters that
  only test one attribute of a message are not here.
\<close>

section \<open>Combining filters\<close>

text \<open>Calling a filter gives an exception or an answer and may change the update, as \<open>command\<close> does.\<close>

type_synonym 's verdict = "'s \<Rightarrow> bool res \<times> 's"

datatype 's filter_expr =
    Base "'s verdict"
  | InvertFilter "'s filter_expr"
  | AndFilter "'s filter_expr" "'s filter_expr"
  | OrFilter "'s filter_expr" "'s filter_expr"

fun resolve_filter :: "'s filter_expr \<Rightarrow> 's verdict" where
  "resolve_filter (Base f) u = f u"
| "resolve_filter (InvertFilter a) u =
    (case resolve_filter a u of (Inl e, u1) \<Rightarrow> (Inl e, u1) | (Inr b, u1) \<Rightarrow> (Inr (\<not> b), u1))"
| "resolve_filter (AndFilter a b) u =
    (case resolve_filter a u of
       (Inl e, u1) \<Rightarrow> (Inl e, u1)
     | (Inr x, u1) \<Rightarrow> if \<not> x then (Inr False, u1) else resolve_filter b u1)"
| "resolve_filter (OrFilter a b) u =
    (case resolve_filter a u of
       (Inl e, u1) \<Rightarrow> (Inl e, u1)
     | (Inr x, u1) \<Rightarrow> if x then (Inr True, u1) else resolve_filter b u1)"

lemma and_or_laws:
  "resolve_filter (InvertFilter (AndFilter a b)) = resolve_filter (OrFilter (InvertFilter a) (InvertFilter b))"
  "resolve_filter (InvertFilter (OrFilter a b)) = resolve_filter (AndFilter (InvertFilter a) (InvertFilter b))"
  "resolve_filter (InvertFilter (InvertFilter a)) = resolve_filter a"
  "resolve_filter (AndFilter (AndFilter a b) c) = resolve_filter (AndFilter a (AndFilter b c))"
  "resolve_filter (OrFilter (OrFilter a b) c) = resolve_filter (OrFilter a (OrFilter b c))"
  by (auto intro!: ext split: prod.split sum.split)


section \<open>What an update is about\<close>

record tg_user =
  u_id :: int
  u_is_self :: bool
  u_is_bot :: bool
  u_username :: "pystr option"

datatype chat_type = CHAT_PRIVATE | CHAT_BOT | CHAT_GROUP | CHAT_SUPERGROUP | CHAT_CHANNEL | CHAT_FORUM | CHAT_DIRECT

record tg_chat =
  c_id :: int
  c_type :: chat_type
  c_username :: "pystr option"
  c_is_forum :: bool
  c_is_admin :: bool

record tg_message =
  m_from_user :: "tg_user option"
  m_chat :: "tg_chat option"
  m_sender_chat :: "tg_chat option"
  m_outgoing :: bool
  m_text :: "pystr option"
  m_caption :: "pystr option"
  m_business_connection_id :: "pystr option"
  m_topic_id :: "int option"
  m_command :: "pystr list option"

text \<open>The types that the filters tell apart, with the attributes they read; a type that is none of them is
  \<open>OtherUpdate\<close>, a raw update for instance.\<close>

datatype update =
    MessageUpdate tg_message
  | StoryUpdate "tg_user option" "tg_chat option" "tg_chat option" bool
  | CallbackQuery "tg_user option" "tg_chat option" "tg_message option"
  | ChatJoinRequest "tg_user option" "tg_chat option"
  | ChatMemberUpdated "tg_user option" "tg_chat option"
  | ChosenInlineResult "tg_user option"
  | InlineQuery "tg_user option"
  | PreCheckoutQuery "tg_user option"
  | PurchasedPaidMedia "tg_user option"
  | ShippingQuery "tg_user option"
  | ChatBoostUpdated "tg_user option option" "tg_chat option"
  | MessageGenerationStopped "tg_chat option"
  | MessageReactionCountUpdated "tg_chat option"
  | MessageReactionUpdated "tg_user option" "tg_chat option" "tg_chat option"
  | BusinessConnection "tg_user option"
  | ManagedBotUpdated "tg_user option"
  | UserUpdate tg_user
  | OtherUpdate

fun sender_of :: "update \<Rightarrow> tg_user option" where
  "sender_of (UserUpdate u) = Some u"
| "sender_of (BusinessConnection u) = u"
| "sender_of (ManagedBotUpdated u) = u"
| "sender_of (MessageReactionUpdated u _ _) = u"
| "sender_of (ChatBoostUpdated boost _) = (case boost of None \<Rightarrow> None | Some u \<Rightarrow> u)"
| "sender_of (CallbackQuery u _ _) = u"
| "sender_of (ChatJoinRequest u _) = u"
| "sender_of (ChatMemberUpdated u _) = u"
| "sender_of (ChosenInlineResult u) = u"
| "sender_of (InlineQuery u) = u"
| "sender_of (MessageUpdate m) = m_from_user m"
| "sender_of (PreCheckoutQuery u) = u"
| "sender_of (PurchasedPaidMedia u) = u"
| "sender_of (ShippingQuery u) = u"
| "sender_of (StoryUpdate u _ _ _) = u"
| "sender_of _ = None"

fun chat_of :: "update \<Rightarrow> tg_chat option" where
  "chat_of (CallbackQuery _ c _) = c"
| "chat_of (ChatBoostUpdated _ c) = c"
| "chat_of (ChatJoinRequest _ c) = c"
| "chat_of (ChatMemberUpdated _ c) = c"
| "chat_of (MessageUpdate m) = m_chat m"
| "chat_of (MessageGenerationStopped c) = c"
| "chat_of (MessageReactionCountUpdated c) = c"
| "chat_of (MessageReactionUpdated _ c _) = c"
| "chat_of (StoryUpdate _ c _ _) = c"
| "chat_of _ = None"

fun message_of :: "update \<Rightarrow> tg_message option" where
  "message_of (MessageUpdate m) = Some m"
| "message_of (CallbackQuery _ _ m) = m"
| "message_of _ = None"

fun sender_chat_of :: "update \<Rightarrow> tg_chat option" where
  "sender_chat_of (MessageUpdate m) = m_sender_chat m"
| "sender_chat_of (StoryUpdate _ _ c _) = c"
| "sender_chat_of (MessageReactionUpdated _ _ actor) = actor"
| "sender_chat_of u = (case message_of u of None \<Rightarrow> None | Some m \<Rightarrow> m_sender_chat m)"

fun is_outgoing :: "update \<Rightarrow> bool" where
  "is_outgoing (MessageUpdate m) = m_outgoing m"
| "is_outgoing (StoryUpdate _ _ _ out) = out"
| "is_outgoing _ = False"

definition ask :: "'a option \<Rightarrow> ('a \<Rightarrow> bool) \<Rightarrow> bool" where
  "ask x p = (case x of None \<Rightarrow> False | Some y \<Rightarrow> p y)"

definition me_filter :: "update \<Rightarrow> bool" where
  "me_filter u = (ask (sender_of u) u_is_self \<or> is_outgoing u)"

definition bot_filter :: "update \<Rightarrow> bool" where
  "bot_filter u = ask (sender_of u) u_is_bot"

definition sender_chat_filter :: "update \<Rightarrow> bool" where
  "sender_chat_filter u = (sender_chat_of u \<noteq> None)"

definition incoming_filter :: "update \<Rightarrow> bool" where
  "incoming_filter u = (\<not> is_outgoing u)"

definition outgoing_filter :: "update \<Rightarrow> bool" where
  "outgoing_filter u = is_outgoing u"

definition private_filter :: "update \<Rightarrow> bool" where
  "private_filter u = ask (chat_of u) (\<lambda>c. c_type c \<in> {CHAT_PRIVATE, CHAT_BOT})"

definition group_filter :: "update \<Rightarrow> bool" where
  "group_filter u = ask (chat_of u) (\<lambda>c. c_type c \<in> {CHAT_GROUP, CHAT_SUPERGROUP, CHAT_FORUM})"

definition channel_filter :: "update \<Rightarrow> bool" where
  "channel_filter u = ask (chat_of u) (\<lambda>c. c_type c = CHAT_CHANNEL)"

definition direct_filter :: "update \<Rightarrow> bool" where
  "direct_filter u = ask (chat_of u) (\<lambda>c. c_type c = CHAT_DIRECT)"

definition forum_filter :: "update \<Rightarrow> bool" where
  "forum_filter u = ask (chat_of u) c_is_forum"

definition admin_filter :: "update \<Rightarrow> bool" where
  "admin_filter u = ask (chat_of u) c_is_admin"

definition business_filter :: "update \<Rightarrow> bool" where
  "business_filter u = ask (message_of u) (\<lambda>m. truthy (m_business_connection_id m))"

text \<open>Every update that happens in a chat is in exactly one of the four groups of chats.\<close>

lemma chat_filters_partition:
  "chat_of u \<noteq> None \<longleftrightarrow> private_filter u \<or> group_filter u \<or> channel_filter u \<or> direct_filter u"
  "\<not> (private_filter u \<and> group_filter u)" "\<not> (channel_filter u \<and> (private_filter u \<or> group_filter u))"
  "\<not> (direct_filter u \<and> (private_filter u \<or> group_filter u \<or> channel_filter u))"
  by (auto simp: private_filter_def group_filter_def channel_filter_def direct_filter_def ask_def
      split: option.splits intro: chat_type.exhaust)


section \<open>Users, chats and topics\<close>

text \<open>An element of the container: a number or a name. \<open>lower\<close> is \<open>str.lower\<close>.\<close>

datatype peer_name = PeerId int | PeerName pystr

definition ME :: pystr where "ME = asc ''me''"
definition SELF :: pystr where "SELF = asc ''self''"
definition me_aliases :: "peer_name set" where "me_aliases = {PeerName ME, PeerName SELF}"

definition strip_at :: "pystr \<Rightarrow> pystr" where
  "strip_at s = rev (dropWhile (\<lambda>c. c = 64) (rev (dropWhile (\<lambda>c. c = 64) s)))"

fun stored_name :: "(pystr \<Rightarrow> pystr) \<Rightarrow> peer_name \<Rightarrow> peer_name" where
  "stored_name lower (PeerId i) = PeerId i"
| "stored_name lower (PeerName s) = (if PeerName s \<in> me_aliases then PeerName ME else PeerName (strip_at (lower s)))"

definition user_set :: "(pystr \<Rightarrow> pystr) \<Rightarrow> peer_name list \<Rightarrow> peer_name set" where
  "user_set lower users = stored_name lower ` set users"

definition named :: "(pystr \<Rightarrow> pystr) \<Rightarrow> peer_name set \<Rightarrow> int \<Rightarrow> pystr option \<Rightarrow> bool" where
  "named lower S i username = (PeerId i \<in> S \<or> truthy username \<and> PeerName (lower (the username)) \<in> S)"

definition user_filter :: "(pystr \<Rightarrow> pystr) \<Rightarrow> peer_name set \<Rightarrow> update \<Rightarrow> bool" where
  "user_filter lower S u =
    (case sender_of u of
       None \<Rightarrow> False
     | Some sender \<Rightarrow> S \<inter> me_aliases \<noteq> {} \<and> u_is_self sender \<or> named lower S (u_id sender) (u_username sender))"

definition chat_filter :: "(pystr \<Rightarrow> pystr) \<Rightarrow> peer_name set \<Rightarrow> update \<Rightarrow> bool" where
  "chat_filter lower S u =
    (case chat_of u of
       None \<Rightarrow> False
     | Some c \<Rightarrow> named lower S (c_id c) (c_username c) \<or>
         S \<inter> me_aliases \<noteq> {} \<and> ask (sender_of u) (\<lambda>sender. u_is_self sender \<and> c_id c = u_id sender))"

definition topic_filter :: "int set \<Rightarrow> update \<Rightarrow> bool" where
  "topic_filter S u = ask (message_of u) (\<lambda>m. ask (m_topic_id m) (\<lambda>t. t \<in> S))"

text \<open>A user is found by number, by user name in any spelling that lower-cases to the same, and the account
  itself by either alias.\<close>

lemma user_filter_finds:
  assumes "sender_of u = Some s"
  shows "PeerId (u_id s) \<in> set users \<Longrightarrow> user_filter lower (user_set lower users) u"
    and "PeerName n \<in> set users \<Longrightarrow> u_username s = Some name \<Longrightarrow> name \<noteq> [] \<Longrightarrow> PeerName n \<notin> me_aliases \<Longrightarrow>
      strip_at (lower n) = lower name \<Longrightarrow> user_filter lower (user_set lower users) u"
    and "PeerName n \<in> set users \<Longrightarrow> PeerName n \<in> me_aliases \<Longrightarrow> u_is_self s \<Longrightarrow> user_filter lower (user_set lower users) u"
  using assms by (force simp: user_filter_def user_set_def named_def truthy_def me_aliases_def image_iff)+


section \<open>Commands\<close>

text \<open>Two characters are the same to the regular expression: equal, or, where the case is ignored, equal but for
  it, which is the parameter \<open>fold\<close>. What is left of a text after a literal.\<close>

type_synonym same = "nat \<Rightarrow> nat \<Rightarrow> bool"

fun after_literal :: "same \<Rightarrow> pystr \<Rightarrow> pystr \<Rightarrow> pystr option" where
  "after_literal same [] s = Some s"
| "after_literal same (c # l) [] = None"
| "after_literal same (c # l) (d # s) = (if same c d then after_literal same l s else None)"

text \<open>\<open>(?:@?name)?\<close> after the command: what may be left, in the order in which the expression tries it.\<close>

definition after_name :: "same \<Rightarrow> pystr \<Rightarrow> pystr \<Rightarrow> pystr list" where
  "after_name same name r =
    (case after_literal same (64 # name) r of Some r2 \<Rightarrow> [r2] | None \<Rightarrow> []) @
    (case after_literal same name r of Some r2 \<Rightarrow> [r2] | None \<Rightarrow> []) @ [r]"

text \<open>\<open>^(?:command(?:@?name)?)(?:\s|$)\<close>\<close>

definition is_command :: "same \<Rightarrow> pystr \<Rightarrow> pystr \<Rightarrow> pystr \<Rightarrow> bool" where
  "is_command same cmd name s =
    (case after_literal same cmd s of
       None \<Rightarrow> False
     | Some r \<Rightarrow> list_ex (\<lambda>r2. r2 = [] \<or> code_space (hd r2)) (after_name same name r))"

text \<open>\<open>re.sub\<close> of \<open>command(?:@?name)?\s?\<close> by nothing, once: the command stands at the start.\<close>

definition without_command :: "same \<Rightarrow> pystr \<Rightarrow> pystr \<Rightarrow> pystr \<Rightarrow> pystr" where
  "without_command same cmd name s =
    (case after_literal same cmd s of
       None \<Rightarrow> s
     | Some r \<Rightarrow>
         (let r2 = hd (after_name same name r) in if r2 \<noteq> [] \<and> code_space (hd r2) then tl r2 else r2))"

definition BACKSLASH :: nat where "BACKSLASH = 92"
definition quote_mark :: "nat \<Rightarrow> bool" where "quote_mark c = (c = 34 \<or> c = 39)"

text \<open>\<open>(.*?)(?<!\\)\1\<close> after an opening mark: up to the next mark of its kind that has no backslash before
  it, on the same line.\<close>

fun quoted :: "nat \<Rightarrow> nat \<Rightarrow> pystr \<Rightarrow> (pystr \<times> pystr) option" where
  "quoted q previous [] = None"
| "quoted q previous (c # s) =
    (if c = q \<and> previous \<noteq> BACKSLASH then Some ([], s)
     else if c = 10 then None
     else map_option (\<lambda>(t, r). (c # t, r)) (quoted q c s))"

lemma quoted_shorter: "quoted q p s = Some (t, r) \<Longrightarrow> length r < length s"
  by (induction q p s arbitrary: t r rule: quoted.induct) (auto split: if_splits)

function find_arguments :: "pystr \<Rightarrow> pystr list" where
  "find_arguments [] = []"
| "find_arguments (c # s) =
    (case (if quote_mark c then quoted c c s else None) of
       Some (t, r) \<Rightarrow> t # find_arguments r
     | None \<Rightarrow>
         if code_space c then find_arguments s
         else (c # takeWhile (\<lambda>d. \<not> code_space d) s) # find_arguments (dropWhile (\<lambda>d. \<not> code_space d) s))"
  by pat_completeness auto
termination
  by (relation "measure length") (auto dest!: quoted_shorter simp: length_dropWhile_le less_Suc_eq_le split: if_splits)

fun unescape_quotes :: "pystr \<Rightarrow> pystr" where
  "unescape_quotes (c # d # s) =
    (if c = BACKSLASH \<and> quote_mark d then d # unescape_quotes s else c # unescape_quotes (d # s))"
| "unescape_quotes s = s"

fun first_command :: "same \<Rightarrow> pystr \<Rightarrow> pystr \<Rightarrow> pystr list \<Rightarrow> pystr list option" where
  "first_command same name s [] = None"
| "first_command same name s (cmd # cmds) =
    (if is_command same cmd name s
     then Some (cmd # map unescape_quotes (find_arguments (without_command same cmd name s)))
     else first_command same name s cmds)"

fun match_command :: "same \<Rightarrow> pystr \<Rightarrow> pystr list \<Rightarrow> pystr \<Rightarrow> pystr list \<Rightarrow> pystr list option" where
  "match_command same name cmds s [] = None"
| "match_command same name cmds s (p # ps) =
    (if take (length p) s = p
     then case first_command same name (drop (length p) s) cmds of
            Some c \<Rightarrow> Some c
          | None \<Rightarrow> match_command same name cmds s ps
     else match_command same name cmds s ps)"

text \<open>The prefixes and the commands are sets; a list of each is the order in which they come.\<close>

definition command_filter :: "same \<Rightarrow> pystr \<Rightarrow> pystr list \<Rightarrow> pystr list \<Rightarrow> tg_message verdict" where
  "command_filter same name prefixes commands m =
    (let t = (if truthy (m_text m) then m_text m else m_caption m) in
     if \<not> truthy t then (Inr False, m\<lparr>m_command := None\<rparr>)
     else case match_command same name commands (the t) prefixes of
            None \<Rightarrow> (Inr False, m\<lparr>m_command := None\<rparr>)
          | Some c \<Rightarrow> (Inr True, m\<lparr>m_command := Some c\<rparr>))"

text \<open>Arguments written in double quotes, with a backslash before each quotation mark.\<close>

definition escape_quotes :: "pystr \<Rightarrow> pystr" where
  "escape_quotes a = concat (map (\<lambda>c. if quote_mark c then [BACKSLASH, c] else [c]) a)"

definition quote_argument :: "pystr \<Rightarrow> pystr" where
  "quote_argument a = 34 # escape_quotes a @ [34]"

fun write_arguments :: "pystr list \<Rightarrow> pystr" where
  "write_arguments [] = []"
| "write_arguments (a # as) = 32 # quote_argument a @ write_arguments as"

definition argument_ok :: "pystr \<Rightarrow> bool" where
  "argument_ok a = (10 \<notin> set a \<and> (a = [] \<or> last a \<noteq> BACKSLASH))"

lemma escape_quotes_Cons:
  "escape_quotes [] = []"
  "escape_quotes (c # a) = (if quote_mark c then BACKSLASH # c # escape_quotes a else c # escape_quotes a)"
  by (simp_all add: escape_quotes_def)

lemma quoted_escaped:
  "10 \<notin> set a \<Longrightarrow> (if a = [] then p \<noteq> BACKSLASH else last a \<noteq> BACKSLASH) \<Longrightarrow>
    quoted 34 p (escape_quotes a @ 34 # s) = Some (escape_quotes a, s)"
  by (induction a arbitrary: p) (auto simp: escape_quotes_Cons quote_mark_def BACKSLASH_def split: if_splits)

lemma unescape_escaped: "a = [] \<or> last a \<noteq> BACKSLASH \<Longrightarrow> unescape_quotes (escape_quotes a) = a"
proof (induction a)
  case (Cons c a)
  have "unescape_quotes (c # escape_quotes a) = c # unescape_quotes (escape_quotes a)" if "\<not> quote_mark c"
  proof (cases a)
    case (Cons d b)
    then show ?thesis by (simp add: escape_quotes_Cons BACKSLASH_def quote_mark_def)
  qed (simp add: escape_quotes_Cons)
  then show ?case
    using Cons by (cases "a = []") (auto simp: escape_quotes_Cons)
qed (simp add: escape_quotes_def)

lemma find_written:
  "list_all argument_ok as \<Longrightarrow> find_arguments (write_arguments as) = map escape_quotes as"
proof (induction as)
  case (Cons a as)
  have "quoted 34 34 (escape_quotes a @ 34 # write_arguments as) = Some (escape_quotes a, write_arguments as)"
    using Cons.prems by (intro quoted_escaped) (auto simp: argument_ok_def BACKSLASH_def)
  then show ?case
    using Cons by (simp add: quote_argument_def quote_mark_def code_space_def)
qed simp

lemma find_after_space: "find_arguments (32 # s) = find_arguments s"
  by (simp add: code_space_def quote_mark_def)

declare find_arguments.simps [simp del]

lemma after_literal_self: "(\<And>c. same c c) \<Longrightarrow> after_literal same l (l @ s) = Some s"
  by (induction l) simp_all

text \<open>C36: A command written with its arguments in quotes is recognised, and the arguments are read back as they were,
  whatever quotation marks, backslashes and spaces they hold (but for a line break, and a backslash at the end).\<close>

theorem command_arguments_roundtrip:
  assumes "\<And>c. same c c" "\<not> same 64 32" "name = [] \<or> \<not> same (hd name) 32"
    and "list_all argument_ok as"
    and "m_text m = Some (prefix @ cmd @ write_arguments as)" "prefix @ cmd \<noteq> []"
  shows "command_filter same name [prefix] [cmd] m = (Inr True, m\<lparr>m_command := Some (cmd # as)\<rparr>)"
proof -
  let ?w = "write_arguments as"
  have cmd: "after_literal same cmd (cmd @ ?w) = Some ?w"
    using assms(1) by (rule after_literal_self)
  have w: "?w = [] \<or> hd ?w = 32"
    by (cases as) simp_all
  have at: "after_literal same (64 # name) ?w = None"
    using w assms(2) by (cases ?w) auto
  have "after_literal same name ?w = (if name = [] then Some ?w else None)"
    using w assms(3) by (cases name; cases ?w) simp_all
  then have names: "hd (after_name same name ?w) = ?w" "?w \<in> set (after_name same name ?w)"
    by (simp_all add: after_name_def at)
  have "is_command same cmd name (cmd @ ?w)"
  proof -
    have "?w = [] \<or> code_space (hd ?w)"
      using w by (elim disjE) (simp_all add: code_space_def)
    then show ?thesis
      unfolding is_command_def cmd option.case list_ex_iff using names(2) by blast
  qed
  moreover have "find_arguments (without_command same cmd name (cmd @ ?w)) = map escape_quotes as"
  proof -
    have "without_command same cmd name (cmd @ ?w) = (if ?w = [] then [] else tl ?w)"
      using w by (auto simp: without_command_def cmd names(1) code_space_def)
    moreover have "find_arguments (if ?w = [] then [] else tl ?w) = find_arguments ?w"
      by (cases as) (simp_all add: find_after_space)
    ultimately show ?thesis using find_written [OF assms(4)] by simp
  qed
  moreover have "map unescape_quotes (map escape_quotes as) = as"
    using assms(4) by (induction as) (auto simp: argument_ok_def unescape_escaped)
  ultimately show ?thesis
    using assms(5,6) by (cases "prefix = []") (simp_all add: command_filter_def)
qed

text \<open>Equality up to the case of Latin letters, and a message with a text.\<close>

definition lower_ascii :: "nat \<Rightarrow> nat" where
  "lower_ascii c = (if 65 \<le> c \<and> c \<le> 90 then c + 32 else c)"

definition same_ascii :: same where
  "same_ascii c d = (lower_ascii c = lower_ascii d)"

definition text_message :: "pystr \<Rightarrow> tg_message" where
  "text_message t =
    \<lparr>m_from_user = None, m_chat = None, m_sender_chat = None, m_outgoing = False, m_text = Some t, m_caption = None,
     m_business_connection_id = None, m_topic_id = None, m_command = None\<rparr>"

theorem command_arguments_roundtrip_witness:
  "command_filter same_ascii (asc ''bot'') [asc ''/''] [asc ''say'']
     (text_message (asc ''/'' @ asc ''say'' @ write_arguments [asc ''two words'', [34, 92, 39]])) =
   (Inr True, (text_message (asc ''/'' @ asc ''say'' @ write_arguments [asc ''two words'', [34, 92, 39]]))
      \<lparr>m_command := Some (asc ''say'' # [asc ''two words'', [34, 92, 39]])\<rparr>)"
  by (rule command_arguments_roundtrip)
    (simp_all add: same_ascii_def lower_ascii_def argument_ok_def asc_def BACKSLASH_def text_message_def)

text \<open>Every call of \<open>command\<close> first forgets the command of the message: when two of them are combined, the last one
  that is asked decides what a handler finds. A message that one command filter accepts and a negated one lets through
  reaches the handler without its command.\<close>

lemma command_forgotten:
  assumes "truthy (m_text m)" "take (length p) (the (m_text m)) = p"
    and "first_command same name (drop (length p) (the (m_text m))) [a] = Some c"
    and "first_command same name (drop (length p) (the (m_text m))) [b] = None"
  shows "resolve_filter (AndFilter (Base (command_filter same name [p] [a]))
      (InvertFilter (Base (command_filter same name [p] [b])))) m = (Inr True, m\<lparr>m_command := None\<rparr>)"
  using assms by (simp add: command_filter_def)

lemma command_forgotten_example:
  "resolve_filter (AndFilter (Base (command_filter same_ascii [] [asc ''/''] [asc ''say'']))
      (InvertFilter (Base (command_filter same_ascii [] [asc ''/''] [asc ''ban''])))) (text_message (asc ''/say hi'')) =
    (Inr True, text_message (asc ''/say hi''))"
  by (simp add: command_filter_def text_message_def asc_def is_command_def after_name_def same_ascii_def lower_ascii_def
      find_arguments.simps without_command_def code_space_def quote_mark_def)

end
