(* ===== verification/Utils.thy ===== *)
theory Utils
  imports File_Id
begin

text \<open>
  The helpers of \<open>pyrogram/utils\<close> that have a behaviour of their own: the bounded cache of
  \<open>cache.py\<close>, \<open>split_text\<close> of \<open>text.py\<close>, the identifiers of \<open>inline.py\<close>, the
  JSON values of \<open>json_values.py\<close>, the durations of \<open>amounts.py\<close>, and from
  \<open>file_ids.py\<close> the media of a file identifier and the thumbnail that travels inside a message.
\<close>

section \<open>The bounded cache\<close>

text \<open>An \<open>OrderedDict\<close> is the list of its items, the oldest first.\<close>

record ('k, 'v) bounded_cache =
  capacity :: nat
  items :: "('k \<times> 'v) list"

definition new_cache :: "int \<Rightarrow> ('k, 'v) bounded_cache res" where
  "new_cache n = (if n < 0 then Inl ValueError else Inr \<lparr>capacity = nat n, items = []\<rparr>)"

definition move_to_end :: "'k \<Rightarrow> ('k \<times> 'v) list \<Rightarrow> ('k \<times> 'v) list" where
  "move_to_end k xs = filter (\<lambda>x. fst x \<noteq> k) xs @ filter (\<lambda>x. fst x = k) xs"

definition put_item :: "'k \<Rightarrow> 'v \<Rightarrow> ('k \<times> 'v) list \<Rightarrow> ('k \<times> 'v) list" where
  "put_item k v xs = (if k \<in> fst ` set xs then map (\<lambda>(q, w). (q, if q = k then v else w)) xs else xs @ [(k, v)])"

definition cache_get :: "'k \<Rightarrow> 'v \<Rightarrow> ('k, 'v) bounded_cache \<Rightarrow> 'v \<times> ('k, 'v) bounded_cache" where
  "cache_get k missing c =
    (case map_of (items c) k of
       None \<Rightarrow> (missing, c)
     | Some v \<Rightarrow> (v, c\<lparr>items := move_to_end k (items c)\<rparr>))"

definition cache_set :: "'k \<Rightarrow> 'v \<Rightarrow> ('k, 'v) bounded_cache \<Rightarrow> ('k, 'v) bounded_cache" where
  "cache_set k v c =
    (let xs = move_to_end k (put_item k v (items c))
     in c\<lparr>items := (if length xs > capacity c then tl xs else xs)\<rparr>)"

datatype ('k, 'v) cache_op = Get 'k | Set 'k 'v

text \<open>A sequence of calls with what \<open>get\<close> returned, \<open>None\<close> where it found nothing.\<close>

fun run_cache :: "('k, 'v) cache_op list \<Rightarrow> ('k, 'v option) bounded_cache \<Rightarrow> 'v option list \<times> ('k, 'v option) bounded_cache" where
  "run_cache [] c = ([], c)"
| "run_cache (Get k # ops) c =
    (let (v, c1) = cache_get k None c; (vs, c2) = run_cache ops c1 in (v # vs, c2))"
| "run_cache (Set k v # ops) c = run_cache ops (cache_set k (Some v) c)"

text \<open>The specification keeps everything that was ever set in the order of its last use; only the \<open>n\<close> last
  used are in sight.\<close>

definition sight :: "nat \<Rightarrow> 'a list \<Rightarrow> 'a list" where
  "sight n h = drop (length h - n) h"

fun run_lru :: "nat \<Rightarrow> ('k, 'v) cache_op list \<Rightarrow> ('k \<times> 'v) list \<Rightarrow> 'v option list \<times> ('k \<times> 'v) list" where
  "run_lru n [] h = ([], h)"
| "run_lru n (Get k # ops) h =
    (case map_of (sight n h) k of
       None \<Rightarrow> (let (vs, h2) = run_lru n ops h in (None # vs, h2))
     | Some v \<Rightarrow> (let (vs, h2) = run_lru n ops (filter (\<lambda>x. fst x \<noteq> k) h @ [(k, v)]) in (Some v # vs, h2)))"
| "run_lru n (Set k v # ops) h = run_lru n ops (filter (\<lambda>x. fst x \<noteq> k) h @ [(k, v)])"

text \<open>Using a key once more.\<close>

abbreviation without :: "'k \<Rightarrow> ('k \<times> 'v) list \<Rightarrow> ('k \<times> 'v) list" where
  "without k xs \<equiv> filter (\<lambda>x. fst x \<noteq> k) xs"

lemma only_key: "distinct (map fst xs) \<Longrightarrow> map_of xs k = Some v \<Longrightarrow> filter (\<lambda>x. fst x = k) xs = [(k, v)]"
proof (induction xs)
  case (Cons x xs)
  obtain q w where x: "x = (q, w)" by force
  show ?case
  proof (cases "q = k")
    case True
    have "\<forall>y \<in> set xs. fst y \<noteq> k"
      using Cons.prems(1) True by (auto simp: x rev_image_eqI)
    then show ?thesis using True Cons.prems(2) by (simp add: x filter_empty_conv)
  next
    case False
    then show ?thesis using Cons by (simp add: x)
  qed
qed simp

lemma move_key: "distinct (map fst xs) \<Longrightarrow> map_of xs k = Some v \<Longrightarrow> move_to_end k xs = without k xs @ [(k, v)]"
  by (simp add: move_to_end_def only_key)

lemma move_put: "distinct (map fst xs) \<Longrightarrow> move_to_end k (put_item k v xs) = without k xs @ [(k, v)]"
proof (cases "k \<in> fst ` set xs")
  case True
  assume d: "distinct (map fst xs)"
  let ?ys = "map (\<lambda>(q, w). (q, if q = k then v else w)) xs"
  have keys: "map fst ?ys = map fst xs"
    by (induction xs) auto
  have others: "without k ?ys = without k xs"
    by (induction xs) auto
  have "map_of ?ys k = Some v"
    using True by (induction xs) auto
  then show ?thesis
    using True d keys move_key [of ?ys k v] by (simp only: put_item_def if_True others)
next
  case False
  then have "filter (\<lambda>x. fst x \<noteq> k) xs = xs" "filter (\<lambda>x. fst x = k) xs = []"
    by (force simp: filter_id_conv filter_empty_conv)+
  with False show ?thesis by (simp add: put_item_def move_to_end_def)
qed

lemma sight_length [simp]: "length (sight n h) = min n (length h)"
  by (simp add: sight_def)

lemma distinct_sight: "distinct (map fst h) \<Longrightarrow> distinct (map fst (sight n h))"
  by (simp add: sight_def drop_map [symmetric] distinct_drop)

text \<open>What is in sight after a use: the rest of what was, and the key.\<close>

lemma sight_use:
  assumes "distinct (map fst h)"
  shows "sight n (without k h @ [(k, v)]) =
    (let xs = without k (sight n h) @ [(k, v)] in if length xs > n then tl xs else xs)"
proof -
  define old where "old = take (length h - n) h"
  define s where "s = sight n h"
  have h: "h = old @ s" by (simp add: old_def s_def sight_def)
  have full: "length s = n \<or> old = []"
    by (auto simp: old_def s_def)
  have small: "length s \<le> n" by (simp add: s_def)
  have last: "sight n (xs @ ys) = ys" if "length ys = n \<or> xs = [] \<and> length ys \<le> n" for xs ys :: "('k \<times> 'v) list"
    using that by (auto simp: sight_def)
  have longer: "sight n (xs @ y # ys) = ys" if "length ys = n" for xs ys :: "('k \<times> 'v) list" and y
    using last [of ys "xs @ [y]"] that by simp
  show ?thesis
  proof (cases "k \<in> fst ` set s")
    case True
    then have "k \<notin> fst ` set old" using assms h by auto
    then have old: "without k old = old" by (force simp: filter_id_conv)
    obtain v0 where "map_of s k = Some v0" using True by (metis map_of_eq_None_iff not_None_eq)
    then have "filter (\<lambda>x. fst x = k) s = [(k, v0)]"
      using assms h by (intro only_key) simp_all
    then have "length (without k s) + 1 = length s"
      using sum_length_filter_compl [of "\<lambda>x. fst x \<noteq> k" s] by simp
    then have "length (without k s @ [(k, v)]) = length s" by simp
    then show ?thesis
      using full small last [of "without k s @ [(k, v)]" old] by (auto simp: h [symmetric] s_def [symmetric] Let_def) (simp_all add: h old)
  next
    case False
    then have s: "without k s = s" by (force simp: filter_id_conv)
    show ?thesis
    proof (cases "length s = n")
      case True
      have "sight n (without k old @ s @ [(k, v)]) = tl (s @ [(k, v)])"
        using True longer [of "tl (s @ [(k, v)])" "without k old" "hd (s @ [(k, v)])"] by simp
      then show ?thesis using True by (simp add: s_def [symmetric] s Let_def) (simp add: h s)
    next
      case False
      then have "old = []" "length s < n" using full small by auto
      then show ?thesis
        using last [of "s @ [(k, v)]" "[]"] by (simp add: s_def [symmetric] s Let_def) (simp add: h s)
    qed
  qed
qed

lemma distinct_use: "distinct (map fst h) \<Longrightarrow> distinct (map fst (without k h @ [(k, v)]))"
  by (induction h) auto

lemma map_of_Some_values: "map_of (map (\<lambda>(q, w). (q, Some w)) xs) k = map_option Some (map_of xs k)"
  by (induction xs) auto

text \<open>C35: The cache is a least-recently-used cache: whatever the sequence of calls, it returns what the specification
  does, which keeps everything ever set and shows the \<open>n\<close> keys used last, and holds just these.\<close>

theorem cache_is_lru:
  "run_cache ops \<lparr>capacity = n, items = []\<rparr> =
    (let (vs, h) = run_lru n ops [] in (vs, \<lparr>capacity = n, items = map (\<lambda>(q, w). (q, Some w)) (sight n h)\<rparr>))"
proof -
  have "run_cache ops \<lparr>capacity = n, items = map (\<lambda>(q, w). (q, Some w)) (sight n h)\<rparr> =
    (let (vs, h) = run_lru n ops h in (vs, \<lparr>capacity = n, items = map (\<lambda>(q, w). (q, Some w)) (sight n h)\<rparr>))"
    if "distinct (map fst h)" for h
    using that
  proof (induction ops arbitrary: h)
    case Nil
    then show ?case by simp
  next
    case (Cons op ops)
    let ?some = "map (\<lambda>(q, w). (q, Some w))"
    have dist: "distinct (map fst (?some xs))" if "distinct (map fst xs)" for xs :: "('k \<times> 'v) list"
    proof -
      have "map fst (?some xs) = map fst xs" by (induction xs) auto
      then show ?thesis using that by (simp only:)
    qed
    have some_without: "without k (?some xs) = ?some (without k xs)" for k :: 'k and xs :: "('k \<times> 'v) list"
      by (induction xs) auto
    show ?case
    proof (cases op)
      case (Get k)
      show ?thesis
      proof (cases "map_of (sight n h) k")
        case None
        then show ?thesis
          using Cons by (simp add: Get cache_get_def map_of_Some_values Let_def split: prod.splits)
      next
        case (Some v)
        have "(k, v) \<in> set (sight n h)" using Some by (rule map_of_SomeD)
        then have "length (without k (sight n h)) < length (sight n h)"
          by (rule length_filter_less) simp
        then have "length (without k (sight n h) @ [(k, v)]) \<le> n" by simp
        then have "move_to_end k (?some (sight n h)) = ?some (sight n (without k h @ [(k, v)]))"
          using move_key [OF dist [OF distinct_sight [OF Cons.prems]], of n k "Some v"] Some sight_use [OF Cons.prems, of n k v]
          by (simp add: map_of_Some_values some_without)
        then show ?thesis
          using Cons.IH [OF distinct_use [OF Cons.prems]] Some
          by (simp add: Get cache_get_def map_of_Some_values split: prod.splits)
      qed
    next
      case (Set k v)
      have "cache_set k (Some v) \<lparr>capacity = n, items = ?some (sight n h)\<rparr> =
          \<lparr>capacity = n, items = ?some (sight n (without k h @ [(k, v)]))\<rparr>"
        unfolding cache_set_def sight_use [OF Cons.prems]
        by (simp add: move_put [OF dist [OF distinct_sight [OF Cons.prems]]] some_without Let_def map_tl)
      then show ?thesis
        using Cons.IH [OF distinct_use [OF Cons.prems]] by (simp add: Set)
    qed
  qed
  from this [of "[]"] show ?thesis by (simp add: sight_def)
qed


section \<open>Splitting a text\<close>

text \<open>\<open>cut.rfind(c)\<close>, with \<open>-1\<close> when there is none.\<close>

fun rfind :: "nat \<Rightarrow> pystr \<Rightarrow> int" where
  "rfind c [] = - 1"
| "rfind c (x # xs) = (if rfind c xs \<ge> 0 then rfind c xs + 1 else if x = c then 0 else - 1)"

definition NEWLINE :: nat where "NEWLINE = 10"
definition SPACE :: nat where "SPACE = 32"

text \<open>One round of the loop: the chunk and what remains.\<close>

definition split_round :: "nat \<Rightarrow> pystr \<Rightarrow> pystr \<times> pystr" where
  "split_round max_length remaining =
    (let cut = take max_length remaining; last_newline = rfind NEWLINE cut; last_space = rfind SPACE cut
     in if last_newline > 0 then (take (nat last_newline) cut, drop (nat last_newline + 1) remaining)
        else if last_space > 0 \<and> last_space > int (length cut div 2)
        then (take (nat last_space) cut, drop (nat last_space + 1) remaining)
        else (cut, drop max_length remaining))"

partial_function (option) split_loop :: "nat \<Rightarrow> pystr \<Rightarrow> pystr list option" where
  "split_loop max_length remaining =
    (if remaining = [] then Some []
     else if length remaining \<le> max_length then Some [remaining]
     else
       (let (chunk, rest) = split_round max_length remaining
        in Option.bind (split_loop max_length rest) (\<lambda>chunks. Some (if chunk = [] then chunks else chunk # chunks))))"

definition split_text :: "nat \<Rightarrow> pystr \<Rightarrow> pystr list option" where
  "split_text max_length text = (if length text \<le> max_length then Some [text] else split_loop max_length text)"

text \<open>\<open>joins ps t\<close>: the pieces in a row give \<open>t\<close>, but for at most one newline or space after each.\<close>

fun joins :: "pystr list \<Rightarrow> pystr \<Rightarrow> bool" where
  "joins [] t \<longleftrightarrow> t = []"
| "joins (p # ps) t \<longleftrightarrow> take (length p) t = p \<and>
     (let r = drop (length p) t in joins ps r \<or> r \<noteq> [] \<and> hd r \<in> {NEWLINE, SPACE} \<and> joins ps (tl r))"

lemma rfind_bounds: "- 1 \<le> rfind c xs" "rfind c xs < int (length xs)"
  by (induction xs) auto

lemma rfind_nth: "rfind c xs \<ge> 0 \<Longrightarrow> xs ! nat (rfind c xs) = c"
  by (induction xs) (auto simp: nat_add_distrib split: if_splits)

lemma joins_cut:
  assumes "joins ps (drop (k + 1) t)" "k < length t" "t ! k \<in> {NEWLINE, SPACE}"
  shows "joins (take k t # ps) t"
proof -
  have "drop k t = t ! k # drop (k + 1) t" using assms(2) by (simp add: Cons_nth_drop_Suc)
  then show ?thesis using assms by (simp add: Let_def min_def)
qed

lemma split_round_pieces:
  assumes "0 < m" "m < length t" "split_round m t = (chunk, rest)"
  shows "chunk \<noteq> []" "length chunk \<le> m" "length rest < length t"
    and "joins ps rest \<Longrightarrow> joins (chunk # ps) t"
proof -
  define n where "n = rfind NEWLINE (take m t)"
  define s where "s = rfind SPACE (take m t)"
  have bounds: "n < int m" "s < int m"
    using rfind_bounds(2) [of NEWLINE "take m t"] rfind_bounds(2) [of SPACE "take m t"] assms(2) by (auto simp: n_def s_def)
  have at: "0 \<le> n \<Longrightarrow> t ! nat n = NEWLINE" "0 \<le> s \<Longrightarrow> t ! nat s = SPACE"
    using rfind_nth [of NEWLINE "take m t"] rfind_nth [of SPACE "take m t"] bounds by (auto simp: n_def s_def)
  have whole: "joins ps rest \<Longrightarrow> joins (take m t # ps) t" if "rest = drop m t"
    using that assms(2) by (simp add: min_def Let_def)
  consider (newline) "n > 0" "chunk = take (nat n) t" "rest = drop (nat n + 1) t"
    | (space) "s > 0" "chunk = take (nat s) t" "rest = drop (nat s + 1) t"
    | (none) "chunk = take m t" "rest = drop m t"
  proof -
    have cut: "take (nat n) (take m t) = take (nat n) t" "take (nat s) (take m t) = take (nat s) t"
      using bounds by (simp_all add: min_absorb1)
    have "split_round m t =
      (if n > 0 then (take (nat n) t, drop (nat n + 1) t)
       else if s > 0 \<and> s > int (length (take m t) div 2) then (take (nat s) t, drop (nat s + 1) t)
       else (take m t, drop m t))"
      unfolding split_round_def Let_def n_def [symmetric] s_def [symmetric] cut ..
    then show ?thesis using assms(3) that by (metis prod.inject)
  qed
  then have "chunk \<noteq> [] \<and> length chunk \<le> m \<and> length rest < length t \<and> (joins ps rest \<longrightarrow> joins (chunk # ps) t)"
  proof cases
    case newline
    have "nat n < length t" "t ! nat n \<in> {NEWLINE, SPACE}" using newline(1) bounds at assms(2) by auto
    then show ?thesis using newline bounds joins_cut [of ps "nat n" t] by (auto simp del: joins.simps)
  next
    case space
    have "nat s < length t" "t ! nat s \<in> {NEWLINE, SPACE}" using space(1) bounds at assms(2) by auto
    then show ?thesis using space bounds joins_cut [of ps "nat s" t] by (auto simp del: joins.simps)
  next
    case none
    then show ?thesis using assms(1,2) whole by (auto simp del: joins.simps)
  qed
  then show "chunk \<noteq> []" "length chunk \<le> m" "length rest < length t" "joins ps rest \<Longrightarrow> joins (chunk # ps) t"
    by (simp_all del: joins.simps)
qed

text \<open>Splitting a text ends for every positive length; it gives pieces that are not empty and no longer than asked
  for, and no character of the text is lost but a newline or a space after a piece.\<close>

theorem split_text_pieces:
  assumes "0 < m" "t \<noteq> []"
  shows "\<exists>ps. split_text m t = Some ps \<and> list_all (\<lambda>p. p \<noteq> [] \<and> length p \<le> m) ps \<and> joins ps t"
proof -
  have "\<exists>ps. split_loop m t = Some ps \<and> list_all (\<lambda>p. p \<noteq> [] \<and> length p \<le> m) ps \<and> joins ps t" for t
  proof (induction "length t" arbitrary: t rule: less_induct)
    case less
    consider (empty) "t = []" | (short) "t \<noteq> []" "length t \<le> m" | (long) "m < length t" by linarith
    then show ?case
    proof cases
      case long
      obtain chunk rest where r: "split_round m t = (chunk, rest)" by force
      note pieces = split_round_pieces [OF assms(1) long r]
      obtain ps where ps: "split_loop m rest = Some ps" "list_all (\<lambda>p. p \<noteq> [] \<and> length p \<le> m) ps" "joins ps rest"
        using less [OF pieces(3)] by blast
      have "split_loop m t = Some (chunk # ps)"
        using long pieces(1) r ps(1) by (subst split_loop.simps) auto
      then show ?thesis using pieces(1,2) ps(2) pieces(4) [OF ps(3)] by (intro exI [of _ "chunk # ps"]) (simp del: joins.simps)
    qed (subst split_loop.simps, simp add: Let_def)+
  qed
  then show ?thesis using assms(2) by (auto simp: split_text_def Let_def)
qed

lemma demo_split: "split_text 5 (map of_char ''one two three'') = Some [map of_char ''one'', map of_char ''two'', map of_char ''three'']"
  by (simp add: split_text_def split_loop.simps split_round_def NEWLINE_def SPACE_def Let_def)

theorem split_text_pieces_witness:
  "split_text 5 (map of_char ''one two three'') = Some [map of_char ''one'', map of_char ''two'', map of_char ''three''] \<and>
   (\<exists>ps. split_text 5 (map of_char ''one two three'') = Some ps \<and> list_all (\<lambda>p. p \<noteq> [] \<and> length p \<le> 5) ps \<and>
     joins ps (map of_char ''one two three''))"
  by (rule conjI [OF demo_split split_text_pieces]) simp_all

text \<open>With a length of zero the loop never ends.\<close>

lemma split_loop_zero: "split_loop n t = Some ps \<Longrightarrow> n = 0 \<longrightarrow> t = []"
  by (erule split_loop.raw_induct [rotated])
    (auto simp: split_round_def Let_def bind_eq_Some_conv split: if_splits, metis le_0_eq length_0_conv not_gr0)

lemma split_text_zero: "t \<noteq> [] \<Longrightarrow> split_text 0 t = None"
  using split_loop_zero [of 0 t] by (cases "split_loop 0 t") (auto simp: split_text_def)


section \<open>Identifiers of inline messages\<close>

datatype inline_message_id =
    InputBotInlineMessageID int int int
  | InputBotInlineMessageID64 int int int int

definition rstrip_pad :: "string \<Rightarrow> string" where
  "rstrip_pad s = rev (dropWhile (\<lambda>c. c = CHR ''='') (rev s))"

fun inline_fields :: "inline_message_id \<Rightarrow> fmt list \<times> int list" where
  "inline_fields (InputBotInlineMessageID dc i h) = ([Fi, Fq, Fq], [dc, i, h])"
| "inline_fields (InputBotInlineMessageID64 dc owner i h) = ([Fi, Fq, Fi, Fq], [dc, owner, i, h])"

definition pack_inline_message_id :: "inline_message_id \<Rightarrow> string res" where
  "pack_inline_message_id m =
    (let (fs, vs) = inline_fields m
     in bind_res (struct_pack fs (map Some vs)) (\<lambda>bs. Inr (rstrip_pad (urlsafe_b64encode bs))))"

definition unpack_inline_message_id :: "string \<Rightarrow> inline_message_id res" where
  "unpack_inline_message_id s =
    bind_res (urlsafe_b64decode (s @ replicate (pad_to 4 (length s)) CHR ''='')) (\<lambda>decoded.
      if length decoded = 20
      then bind_res (struct_unpack [Fi, Fq, Fq] decoded) (\<lambda>u. Inr (InputBotInlineMessageID (u ! 0) (u ! 1) (u ! 2)))
      else bind_res (struct_unpack [Fi, Fq, Fi, Fq] decoded) (\<lambda>u.
        Inr (InputBotInlineMessageID64 (u ! 0) (u ! 1) (u ! 2) (u ! 3))))"

lemma rstrip_pad_encode: "rstrip_pad (urlsafe_b64encode bs) = b64_encode bs"
proof -
  let ?pad = "\<lambda>c. c = CHR ''=''"
  have pads: "dropWhile ?pad (replicate k CHR ''='' @ es) = dropWhile ?pad es" for k es
    by (induction k) simp_all
  have idem: "dropWhile ?pad (rev (b64_encode bs)) = rev (b64_encode bs)"
    by (simp add: b64_encode_def strip_pad_def)
  show ?thesis
    unfolding rstrip_pad_def b64_repad [of bs, symmetric] by (simp add: pads idem)
qed

text \<open>The text of an inline message is read back as the same identifier.\<close>

theorem inline_message_id_roundtrip:
  assumes "pack_inline_message_id m = Inr s"
  shows "unpack_inline_message_id s = Inr m"
proof -
  obtain fs vs where f: "inline_fields m = (fs, vs)" by force
  obtain bs where bs: "struct_pack fs (map Some vs) = Inr bs" and s: "s = b64_encode bs"
    using assms by (auto simp: pack_inline_message_id_def f rstrip_pad_encode res_simps)
  have "urlsafe_b64decode (s @ replicate (pad_to 4 (length s)) CHR ''='') = Inr bs"
    using b64_decode_encode [of bs] by (simp add: s b64_decode_def)
  then show ?thesis
    using f struct_unpack_pack [OF bs] struct_pack_length [OF bs]
    by (cases m) (auto simp: unpack_inline_message_id_def res_simps)
qed

theorem inline_message_id_roundtrip_witness:
  "\<exists>s. pack_inline_message_id (InputBotInlineMessageID64 2 5000000000 17 (- 3)) = Inr s \<and>
     unpack_inline_message_id s = Inr (InputBotInlineMessageID64 2 5000000000 17 (- 3))"
proof -
  obtain s where s: "pack_inline_message_id (InputBotInlineMessageID64 2 5000000000 17 (- 3)) = Inr s"
    by (auto simp: pack_inline_message_id_def fits_def res_simps)
  from inline_message_id_roundtrip [OF s] s show ?thesis by blast
qed


section \<open>JSON values\<close>

text \<open>The Python values the code distinguishes; a dictionary has each key once.\<close>

datatype 'n py_json =
    PyNone
  | PyBool bool
  | PyNumber 'n
  | PyStr pystr
  | PyList "'n py_json list"
  | PyDict "(pystr \<times> 'n py_json) list"
  | PyOther

datatype 'n json_value =
    JsonNull
  | JsonBool bool
  | JsonNumber 'n
  | JsonString pystr
  | JsonArray "'n json_value list"
  | JsonObject "(pystr \<times> 'n json_value) list"
  | OtherValue

lemma map_res_cong [fundef_cong]: "xs = ys \<Longrightarrow> (\<And>x. x \<in> set ys \<Longrightarrow> f x = g x) \<Longrightarrow> map_res f xs = map_res g ys"
  by (induction xs arbitrary: ys) auto

lemma value_size: "(k, x) \<in> set kvs \<Longrightarrow> size (x :: 'n py_json) < Suc (size_list (size_prod (\<lambda>_. 0) size) kvs)"
  by (induction kvs) auto

lemma value_size': "(k, x) \<in> set kvs \<Longrightarrow> size (x :: 'n json_value) < Suc (size_list (size_prod (\<lambda>_. 0) size) kvs)"
  by (induction kvs) auto

fun obj_to_jsonvalue :: "'n py_json \<Rightarrow> 'n json_value res" where
  "obj_to_jsonvalue PyNone = Inr JsonNull"
| "obj_to_jsonvalue (PyBool b) = Inr (JsonBool b)"
| "obj_to_jsonvalue (PyNumber n) = Inr (JsonNumber n)"
| "obj_to_jsonvalue (PyStr s) = Inr (JsonString s)"
| "obj_to_jsonvalue (PyList xs) = bind_res (map_res obj_to_jsonvalue xs) (\<lambda>vs. Inr (JsonArray vs))"
| "obj_to_jsonvalue (PyDict kvs) =
    bind_res (map_res (\<lambda>(k, x). bind_res (obj_to_jsonvalue x) (\<lambda>v. Inr (k, v))) kvs) (\<lambda>vs. Inr (JsonObject vs))"
| "obj_to_jsonvalue PyOther = Inl TypeError"

text \<open>A dictionary comprehension keeps a key at its first place with its last value.\<close>

definition dict_of :: "(pystr \<times> 'v) list \<Rightarrow> (pystr \<times> 'v) list" where
  "dict_of kvs = fold (\<lambda>(k, v). put_item k v) kvs []"

fun jsonvalue_to_obj :: "'n json_value \<Rightarrow> 'n py_json res" where
  "jsonvalue_to_obj JsonNull = Inr PyNone"
| "jsonvalue_to_obj (JsonBool b) = Inr (PyBool b)"
| "jsonvalue_to_obj (JsonNumber n) = Inr (PyNumber n)"
| "jsonvalue_to_obj (JsonString s) = Inr (PyStr s)"
| "jsonvalue_to_obj (JsonArray vs) = bind_res (map_res jsonvalue_to_obj vs) (\<lambda>xs. Inr (PyList xs))"
| "jsonvalue_to_obj (JsonObject kvs) =
    bind_res (map_res (\<lambda>(k, v). bind_res (jsonvalue_to_obj v) (\<lambda>x. Inr (k, x))) kvs) (\<lambda>xs. Inr (PyDict (dict_of xs)))"
| "jsonvalue_to_obj OtherValue = Inl TypeError"

text \<open>A Python value: the keys of each dictionary are distinct.\<close>

fun dict_ok :: "'n py_json \<Rightarrow> bool" where
  "dict_ok (PyList xs) = list_all dict_ok xs"
| "dict_ok (PyDict kvs) = (distinct (map fst kvs) \<and> list_all (\<lambda>(k, x). dict_ok x) kvs)"
| "dict_ok _ = True"

lemma dict_of_distinct: "distinct (map fst kvs) \<Longrightarrow> dict_of kvs = kvs"
proof -
  have "distinct (map fst (acc @ kvs)) \<Longrightarrow> fold (\<lambda>(k, v). put_item k v) kvs acc = acc @ kvs" for acc
    by (induction kvs arbitrary: acc) (auto simp: put_item_def)
  from this [of "[]"] show "distinct (map fst kvs) \<Longrightarrow> dict_of kvs = kvs" by (simp add: dict_of_def)
qed

lemma map_res_back:
  "map_res f xs = Inr ys \<Longrightarrow> (\<And>x y. x \<in> set xs \<Longrightarrow> f x = Inr y \<Longrightarrow> g y = Inr x) \<Longrightarrow> map_res g ys = Inr xs"
  by (induction xs arbitrary: ys) (auto simp: res_simps)

lemma json_roundtrip:
  "dict_ok x \<Longrightarrow> obj_to_jsonvalue x = Inr v \<Longrightarrow> jsonvalue_to_obj v = Inr x"
proof (induction x arbitrary: v rule: obj_to_jsonvalue.induct)
  case (5 xs)
  then show ?case by (auto simp: res_simps list_all_iff dest!: map_res_back [where g = jsonvalue_to_obj])
next
  case (6 kvs)
  let ?f = "\<lambda>(k, x). bind_res (obj_to_jsonvalue x) (\<lambda>v. Inr (k, v))"
  let ?g = "\<lambda>(k, v). bind_res (jsonvalue_to_obj v) (\<lambda>x. Inr (k, x))"
  obtain vs where vs: "map_res ?f kvs = Inr vs" and v: "v = JsonObject vs"
    using 6(3) by (auto simp: res_simps)
  have "map_res ?g vs = Inr kvs"
  proof (rule map_res_back [OF vs])
    fix x y
    assume x: "x \<in> set kvs" and y: "?f x = Inr y"
    obtain k w where kw: "x = (k, w)" by force
    have "dict_ok w" using 6(2) x kw by (auto simp: list_all_iff)
    then show "?g y = Inr x"
      using 6(1) [OF x] kw y by (auto simp: res_simps)
  qed
  then show ?case using 6(2) by (simp add: v dict_of_distinct)
qed (auto simp: res_simps)


section \<open>Durations\<close>

definition get_premium_duration_month_count :: "int \<Rightarrow> int" where
  "get_premium_duration_month_count day_count = max 1 (day_count div 30)"

definition get_premium_duration_day_count :: "int \<Rightarrow> int" where
  "get_premium_duration_day_count month_count =
    (if month_count \<le> 0 \<or> month_count > 10000000 then 7
     else month_count * 30 + month_count div 3 + month_count div 12)"

lemma premium_months: "1 \<le> m \<Longrightarrow> m < 72 \<Longrightarrow> get_premium_duration_month_count (get_premium_duration_day_count m) = m"
  by (simp add: get_premium_duration_month_count_def get_premium_duration_day_count_def)



section \<open>Media from a file identifier\<close>

record input_media =
  im_photo :: bool
  im_id :: "int option"
  im_access_hash :: "int option"
  im_reference :: bytes
  im_spoiler :: "bool option"
  im_ttl :: "int option"
  im_live_photo :: "bool option"
  im_cover :: "int option"
  im_timestamp :: "int option"

text \<open>The media with, for a live photo, that of its video; an identifier that cannot be decoded is a
  \<open>ValueError\<close>, and \<open>None\<close> cannot be.\<close>

definition decode_for_media :: "string option \<Rightarrow> FileType option \<Rightarrow> file_id res" where
  "decode_for_media s expected =
    (case s of
       None \<Rightarrow> Inl ValueError
     | Some text \<Rightarrow>
         (case FileId_decode text of
            Inl _ \<Rightarrow> Inl ValueError
          | Inr f \<Rightarrow> if expected \<noteq> None \<and> Some (file_type f) \<noteq> expected then Inl ValueError else Inr f))"

definition document_media :: "file_id \<Rightarrow> int option \<Rightarrow> bool option \<Rightarrow> int option \<Rightarrow> int option \<Rightarrow> input_media" where
  "document_media f ttl_seconds has_spoiler video_cover video_start_timestamp =
    \<lparr>im_photo = False, im_id = media_id f, im_access_hash = access_hash f, im_reference = file_reference f,
     im_spoiler = has_spoiler, im_ttl = ttl_seconds, im_live_photo = None, im_cover = video_cover,
     im_timestamp = video_start_timestamp\<rparr>"

definition get_input_media_from_file_id ::
  "string \<Rightarrow> FileType option \<Rightarrow> int option \<Rightarrow> bool option \<Rightarrow> int option \<Rightarrow> int option \<Rightarrow> bool option \<Rightarrow> string option \<Rightarrow>
    (input_media \<times> input_media option) res" where
  "get_input_media_from_file_id s expected ttl_seconds has_spoiler video_cover video_start_timestamp live_photo live_video =
    bind_res (decode_for_media (Some s) expected) (\<lambda>f.
      if file_type f \<in> {FT_THUMBNAIL, FT_CHAT_PHOTO} then Inl ValueError
      else if file_type f \<in> PHOTO_TYPES then
        bind_res
          (if live_photo = Some True
           then bind_res (decode_for_media live_video (Some FT_VIDEO)) (\<lambda>v. Inr (Some (document_media v None has_spoiler None None)))
           else Inr None)
          (\<lambda>video. Inr (\<lparr>im_photo = True, im_id = media_id f, im_access_hash = access_hash f,
             im_reference = file_reference f, im_spoiler = has_spoiler, im_ttl = ttl_seconds,
             im_live_photo = live_photo, im_cover = None, im_timestamp = None\<rparr>, video))
      else if file_type f \<in> DOCUMENT_TYPES then
        Inr (document_media f ttl_seconds has_spoiler video_cover video_start_timestamp, None)
      else Inl ValueError)"

lemma photo_or_document: "t \<in> PHOTO_TYPES \<or> t \<in> DOCUMENT_TYPES"
  by (cases t) (simp_all add: PHOTO_TYPES_def DOCUMENT_TYPES_def FileTypes_def)

text \<open>What is returned names the file of the identifier, and its kind is that of the type.\<close>

lemma input_media_names_file:
  assumes "get_input_media_from_file_id s expected ttl sp cov ts live video = Inr (m, v)"
  shows "\<exists>f. FileId_decode s = Inr f \<and> im_id m = media_id f \<and> im_access_hash m = access_hash f \<and>
    im_reference m = file_reference f \<and> im_photo m = (file_type f \<in> PHOTO_TYPES) \<and>
    file_type f \<notin> {FT_THUMBNAIL, FT_CHAT_PHOTO} \<and> (expected \<noteq> None \<longrightarrow> expected = Some (file_type f)) \<and>
    (v \<noteq> None) = (file_type f \<in> PHOTO_TYPES \<and> live = Some True)"
proof -
  obtain f where f: "FileId_decode s = Inr f" "decode_for_media (Some s) expected = Inr f"
    "expected \<noteq> None \<longrightarrow> expected = Some (file_type f)"
    using assms by (auto simp: get_input_media_from_file_id_def decode_for_media_def res_simps split: sum.splits if_splits)
  then show ?thesis
    using assms photo_or_document [of "file_type f"]
    by (auto simp: get_input_media_from_file_id_def document_media_def res_simps split: if_splits)
qed


section \<open>The thumbnail inside a message\<close>

definition jpeg_header :: bytes where
  "jpeg_header = map of_nat [
    255, 216, 255, 224, 0, 16, 74, 70, 73, 70, 0, 1, 1, 0, 0, 1, 0, 1, 0, 0, 255, 219, 0, 67, 0, 40, 28, 30, 35, 30,
    25, 40, 35, 33, 35, 45, 43, 40, 48, 60, 100, 65, 60, 55, 55, 60, 123, 88, 93, 73, 100, 145, 128, 153, 150, 143,
    128, 140, 138, 160, 180, 230, 195, 160, 170, 218, 173, 138, 140, 200, 255, 203, 218, 238, 245, 255, 255, 255,
    155, 193, 255, 255, 255, 250, 255, 230, 253, 255, 248, 255, 219, 0, 67, 1, 43, 45, 45, 60, 53, 60, 118, 65, 65,
    118, 248, 165, 140, 165, 248, 248, 248, 248, 248, 248, 248, 248, 248, 248, 248, 248, 248, 248, 248, 248, 248,
    248, 248, 248, 248, 248, 248, 248, 248, 248, 248, 248, 248, 248, 248, 248, 248, 248, 248, 248, 248, 248, 248,
    248, 248, 248, 248, 248, 248, 248, 248, 248, 248, 248, 255, 192, 0, 17, 8, 0, 0, 0, 0, 3, 1, 34, 0, 2, 17, 1, 3,
    17, 1, 255, 196, 0, 31, 0, 0, 1, 5, 1, 1, 1, 1, 1, 1, 0, 0, 0, 0, 0, 0, 0, 0, 1, 2, 3, 4, 5, 6, 7, 8, 9, 10, 11,
    255, 196, 0, 181, 16, 0, 2, 1, 3, 3, 2, 4, 3, 5, 5, 4, 4, 0, 0, 1, 125, 1, 2, 3, 0, 4, 17, 5, 18, 33, 49, 65, 6,
    19, 81, 97, 7, 34, 113, 20, 50, 129, 145, 161, 8, 35, 66, 177, 193, 21, 82, 209, 240, 36, 51, 98, 114, 130, 9,
    10, 22, 23, 24, 25, 26, 37, 38, 39, 40, 41, 42, 52, 53, 54, 55, 56, 57, 58, 67, 68, 69, 70, 71, 72, 73, 74, 83,
    84, 85, 86, 87, 88, 89, 90, 99, 100, 101, 102, 103, 104, 105, 106, 115, 116, 117, 118, 119, 120, 121, 122, 131,
    132, 133, 134, 135, 136, 137, 138, 146, 147, 148, 149, 150, 151, 152, 153, 154, 162, 163, 164, 165, 166, 167,
    168, 169, 170, 178, 179, 180, 181, 182, 183, 184, 185, 186, 194, 195, 196, 197, 198, 199, 200, 201, 202, 210,
    211, 212, 213, 214, 215, 216, 217, 218, 225, 226, 227, 228, 229, 230, 231, 232, 233, 234, 241, 242, 243, 244,
    245, 246, 247, 248, 249, 250, 255, 196, 0, 31, 1, 0, 3, 1, 1, 1, 1, 1, 1, 1, 1, 1, 0, 0, 0, 0, 0, 0, 1, 2, 3, 4,
    5, 6, 7, 8, 9, 10, 11, 255, 196, 0, 181, 17, 0, 2, 1, 2, 4, 4, 3, 4, 7, 5, 4, 4, 0, 1, 2, 119, 0, 1, 2, 3, 17, 4,
    5, 33, 49, 6, 18, 65, 81, 7, 97, 113, 19, 34, 50, 129, 8, 20, 66, 145, 161, 177, 193, 9, 35, 51, 82, 240, 21, 98,
    114, 209, 10, 22, 36, 52, 225, 37, 241, 23, 24, 25, 26, 38, 39, 40, 41, 42, 53, 54, 55, 56, 57, 58, 67, 68, 69,
    70, 71, 72, 73, 74, 83, 84, 85, 86, 87, 88, 89, 90, 99, 100, 101, 102, 103, 104, 105, 106, 115, 116, 117, 118,
    119, 120, 121, 122, 130, 131, 132, 133, 134, 135, 136, 137, 138, 146, 147, 148, 149, 150, 151, 152, 153, 154,
    162, 163, 164, 165, 166, 167, 168, 169, 170, 178, 179, 180, 181, 182, 183, 184, 185, 186, 194, 195, 196, 197,
    198, 199, 200, 201, 202, 210, 211, 212, 213, 214, 215, 216, 217, 218, 226, 227, 228, 229, 230, 231, 232, 233,
    234, 242, 243, 244, 245, 246, 247, 248, 249, 250, 255, 218, 0, 12, 3, 1, 0, 2, 17, 3, 17, 0, 63, 0
    ]"

definition jpeg_footer :: bytes where "jpeg_footer = [0xff, 0xd9]"

definition expand_inline_bytes :: "bytes \<Rightarrow> bytes" where
  "expand_inline_bytes b =
    (if length b < 3 \<or> b ! 0 \<noteq> 1 then []
     else jpeg_header[164 := b ! 1, 166 := b ! 2] @ drop 3 b @ jpeg_footer)"

lemma jpeg_header_length: "length jpeg_header = 623"
  by (simp add: jpeg_header_def)

text \<open>The expanded picture has the size of the header and the footer more than the compressed one less its three
  leading bytes, and its height and width are the second and the third byte.\<close>

lemma expand_inline_bytes_layout:
  assumes "3 \<le> length b" "b ! 0 = 1"
  shows "length (expand_inline_bytes b) = 622 + length b"
    and "expand_inline_bytes b ! 164 = b ! 1" "expand_inline_bytes b ! 166 = b ! 2"
  using assms by (simp_all add: expand_inline_bytes_def nth_append jpeg_header_length jpeg_footer_def)

end
