(* ===== verification/Markdown.thy ===== *)
theory Markdown
  imports Html_Trip
begin

text \<open>
  \<open>parser/markdown.py\<close> and \<open>parser/parser.py\<close>: Markdown is rewritten to the tags of
  \<open>Html\<close> by replacements in the text, and entities are written as Markdown. Of the standard library,
  \<open>urlparse\<close> and \<open>parse_qs\<close> are the parameter \<open>link_parts\<close>: the host of a link and the first
  value of a query parameter, empty when there is none.
\<close>

section \<open>Lines\<close>

text \<open>\<open>str.splitlines\<close>: a carriage return and a line feed after it are one break; nothing follows the last
  break.\<close>

definition line_break :: "nat \<Rightarrow> bool" where
  "line_break c = (10 \<le> c \<and> c \<le> 13 \<or> 28 \<le> c \<and> c \<le> 30 \<or> c = 0x85 \<or> c = 0x2028 \<or> c = 0x2029)"

fun splitlines_from :: "pystr \<Rightarrow> pystr \<Rightarrow> pystr list" where
  "splitlines_from line [] = (if line = [] then [] else [line])"
| "splitlines_from line (c # s) =
    (if c = 13 \<and> s \<noteq> [] \<and> hd s = 10 then splitlines_from line s
     else if line_break c then line # splitlines_from [] s
     else splitlines_from (line @ [c]) s)"

definition splitlines :: "pystr \<Rightarrow> pystr list" where
  "splitlines s = splitlines_from [] s"

fun join_lines :: "pystr list \<Rightarrow> pystr" where
  "join_lines [] = []"
| "join_lines [l] = l"
| "join_lines (l # k # ls) = l @ 10 # join_lines (k # ls)"

definition startswith :: "pystr \<Rightarrow> pystr \<Rightarrow> bool" where
  "startswith s p = (take (length p) s = p)"

definition endswith :: "pystr \<Rightarrow> pystr \<Rightarrow> bool" where
  "endswith s p = (length p \<le> length s \<and> drop (length s - length p) s = p)"


section \<open>Quotations\<close>

definition BLOCKQUOTE_DELIM :: pystr where "BLOCKQUOTE_DELIM = asc ''>''"
definition BLOCKQUOTE_EXPANDABLE_DELIM :: pystr where "BLOCKQUOTE_EXPANDABLE_DELIM = asc ''**>''"
definition BLOCKQUOTE_EXPANDABLE_END_DELIM :: pystr where "BLOCKQUOTE_EXPANDABLE_END_DELIM = asc ''||''"

text \<open>\<open>None\<close> is a line that was merged into an earlier one; the queue holds the lines to be quoted.\<close>

record quotes =
  text_lines :: "pystr option list"
  to_quote :: "(nat \<times> pystr) list"
  html_escaped :: "nat list"
  inside_blockquote :: bool

definition create_blockquote :: "bool \<Rightarrow> quotes \<Rightarrow> quotes" where
  "create_blockquote expandable q =
    (case to_quote q of
       [] \<Rightarrow> q
     | (first, _) # others \<Rightarrow>
         q\<lparr>text_lines := fold (\<lambda>(i, _) ls. ls[i := None]) others
              ((text_lines q)[first := Some (asc ''<blockquote'' @ (if expandable then asc '' expandable'' else []) @
                 asc ''>'' @ join_lines (map snd (to_quote q)) @ asc ''</blockquote>'')]),
           to_quote := []\<rparr>)"

definition queue_line :: "bool \<Rightarrow> nat \<Rightarrow> pystr \<Rightarrow> quotes \<Rightarrow> quotes" where
  "queue_line strict i l q =
    q\<lparr>to_quote := to_quote q @ [(i, if strict then escape l else l)], html_escaped := html_escaped q @ [i]\<rparr>"

text \<open>The line after a mark and a space that may follow it; the mark is dropped by its length.\<close>

definition after_mark :: "pystr \<Rightarrow> pystr \<Rightarrow> pystr" where
  "after_mark mark l = drop (length mark + (if startswith l (mark @ [32]) then 1 else 0)) l"

definition expandable_line :: "bool \<Rightarrow> nat \<Rightarrow> quotes \<Rightarrow> quotes" where
  "expandable_line strict i q =
    (case text_lines q ! i of
       None \<Rightarrow> q
     | Some l \<Rightarrow>
         if startswith l BLOCKQUOTE_EXPANDABLE_DELIM \<and> \<not> inside_blockquote q then
           (queue_line strict i (after_mark BLOCKQUOTE_EXPANDABLE_DELIM l) q)\<lparr>inside_blockquote := True\<rparr>
         else if endswith l BLOCKQUOTE_EXPANDABLE_END_DELIM \<and> inside_blockquote q then
           (let unwrapped = (if startswith l BLOCKQUOTE_DELIM then after_mark BLOCKQUOTE_DELIM l else l)
            in create_blockquote True
                 ((queue_line strict i (take (length unwrapped - 2) unwrapped) q)\<lparr>inside_blockquote := False\<rparr>))
         else if inside_blockquote q then queue_line strict i (after_mark BLOCKQUOTE_DELIM l) q
         else q)"

definition quoted_line :: "bool \<Rightarrow> nat \<Rightarrow> quotes \<Rightarrow> quotes" where
  "quoted_line strict i q =
    (case text_lines q ! i of
       None \<Rightarrow> q
     | Some l \<Rightarrow>
         if startswith l BLOCKQUOTE_DELIM then queue_line strict i (after_mark BLOCKQUOTE_DELIM l) q
         else if to_quote q \<noteq> [] then create_blockquote False q
         else q)"

definition escape_line :: "quotes \<Rightarrow> nat \<Rightarrow> pystr option" where
  "escape_line q i = (if i \<in> set (html_escaped q) then text_lines q ! i else map_option escape (text_lines q ! i))"

definition escape_and_create_quotes :: "bool \<Rightarrow> pystr \<Rightarrow> pystr" where
  "escape_and_create_quotes strict s =
    (let ls = splitlines s;
         is = [0..<length ls];
         q0 = \<lparr>text_lines = map Some ls, to_quote = [], html_escaped = [], inside_blockquote = False\<rparr>;
         q1 = fold (expandable_line strict) is q0;
         q2 = create_blockquote False (fold (quoted_line strict) is q1);
         out = (if strict then map (escape_line q2) is else text_lines q2)
     in join_lines (map the (filter (\<lambda>l. l \<noteq> None) out)))"


section \<open>Delimiters and links\<close>

datatype delim = PRE_DELIM | CODE_DELIM | STRIKE_DELIM | UNDERLINE_DELIM | ITALIC_DELIM | BOLD_DELIM | SPOILER_DELIM

fun delim_text :: "delim \<Rightarrow> pystr" where
  "delim_text PRE_DELIM = [96, 96, 96]"
| "delim_text CODE_DELIM = [96]"
| "delim_text STRIKE_DELIM = [126, 126]"
| "delim_text UNDERLINE_DELIM = [45, 45]"
| "delim_text ITALIC_DELIM = [95, 95]"
| "delim_text BOLD_DELIM = [42, 42]"
| "delim_text SPOILER_DELIM = [124, 124]"

fun delim_tag :: "delim \<Rightarrow> string" where
  "delim_tag PRE_DELIM = ''pre''"
| "delim_tag CODE_DELIM = ''code''"
| "delim_tag STRIKE_DELIM = ''s''"
| "delim_tag UNDERLINE_DELIM = ''u''"
| "delim_tag ITALIC_DELIM = ''i''"
| "delim_tag BOLD_DELIM = ''b''"
| "delim_tag SPOILER_DELIM = ''spoiler''"

definition all_delims :: "delim list" where
  "all_delims = [PRE_DELIM, CODE_DELIM, STRIKE_DELIM, UNDERLINE_DELIM, ITALIC_DELIM, BOLD_DELIM, SPOILER_DELIM]"

definition fixed_width :: "delim \<Rightarrow> bool" where
  "fixed_width d = (d = CODE_DELIM \<or> d = PRE_DELIM)"

text \<open>A match of \<open>MARKDOWN_RE\<close>: a delimiter, or a link with its text and its address.\<close>

datatype md_match = Delim delim | Link bool pystr pystr

fun full_match :: "md_match \<Rightarrow> pystr" where
  "full_match (Delim d) = delim_text d"
| "full_match (Link bang t u) = (if bang then [33] else []) @ 91 # t @ [93, 40] @ u @ [41]"

text \<open>\<open>(.+?)end\<close> with an end of one or two characters: the shortest text of one line, not empty, before it.\<close>

fun lazy_until :: "pystr \<Rightarrow> pystr \<Rightarrow> (pystr \<times> pystr) option" where
  "lazy_until fin [] = None"
| "lazy_until fin (c # s) =
    (if c = 10 then None
     else if startswith s fin then Some ([c], drop (length fin) s)
     else map_option (\<lambda>(t, r). (c # t, r)) (lazy_until fin s))"

definition match_link :: "pystr \<Rightarrow> md_match option" where
  "match_link s =
    (let bang = (s \<noteq> [] \<and> hd s = 33); s1 = (if bang then tl s else s) in
     if s1 \<noteq> [] \<and> hd s1 = 91 then
       Option.bind (lazy_until [93, 40] (tl s1)) (\<lambda>(t, r).
         map_option (\<lambda>(u, _). Link bang t u) (lazy_until [41] r))
     else None)"

definition match_here :: "pystr \<Rightarrow> md_match option" where
  "match_here s =
    (case filter (\<lambda>d. startswith s (delim_text d)) all_delims of
       d # _ \<Rightarrow> Some (Delim d)
     | [] \<Rightarrow> match_link s)"

lemma match_here_pos: "match_here s = Some m \<Longrightarrow> 0 < length (full_match m)"
  by (cases m) (auto split: delim.splits simp: match_here_def intro: delim.exhaust, case_tac x1, simp_all)

text \<open>\<open>re.finditer\<close>: the matches with where they start.\<close>

fun finditer_from :: "nat \<Rightarrow> nat \<Rightarrow> pystr \<Rightarrow> (nat \<times> md_match) list" where
  "finditer_from pos skip [] = []"
| "finditer_from pos skip (c # s) =
    (if skip > 0 then finditer_from (pos + 1) (skip - 1) s
     else case match_here (c # s) of
       None \<Rightarrow> finditer_from (pos + 1) 0 s
     | Some m \<Rightarrow> (pos, m) # finditer_from (pos + 1) (length (full_match m) - 1) s)"

definition finditer :: "pystr \<Rightarrow> (nat \<times> md_match) list" where
  "finditer s = finditer_from 0 0 s"


section \<open>Rewriting\<close>

fun replace_first :: "pystr \<Rightarrow> pystr \<Rightarrow> pystr \<Rightarrow> pystr" where
  "replace_first old new [] = (if old = [] then new else [])"
| "replace_first old new (c # s) =
    (if startswith (c # s) old then new @ drop (length old) (c # s) else c # replace_first old new s)"

definition replace_once :: "pystr \<Rightarrow> pystr \<Rightarrow> pystr \<Rightarrow> nat \<Rightarrow> pystr" where
  "replace_once source old new start = take start source @ replace_first old new (drop start source)"

fun find_text :: "pystr \<Rightarrow> pystr \<Rightarrow> pystr option" where
  "find_text p [] = (if p = [] then Some [] else None)"
| "find_text p (c # s) = (if startswith (c # s) p then Some (c # s) else find_text p s)"

definition opening_tag :: "string \<Rightarrow> pystr" where "opening_tag tag = LT # asc tag @ [GT]"

record rewriting =
  rw_text :: pystr
  rw_open :: "delim set"
  rw_fixed :: bool

definition link_markup :: "(pystr \<Rightarrow> pystr \<times> (string \<Rightarrow> pystr)) \<Rightarrow> pystr \<Rightarrow> pystr \<Rightarrow> pystr option" where
  "link_markup link_parts t u =
    (let (host, param) = link_parts u in
     if host = asc ''time'' then
       Some (asc ''<tg-time unix='' @ [QUOTE] @ param ''unix'' @ [QUOTE] @
         (if param ''format'' = [] then [] else asc '' format='' @ [QUOTE] @ param ''format'' @ [QUOTE]) @
         [GT] @ t @ asc ''</tg-time>'')
     else if host = asc ''emoji'' then
       Some (asc ''<tg-emoji emoji-id='' @ [QUOTE] @ param ''id'' @ [QUOTE, GT] @ t @ asc ''</tg-emoji>'')
     else None)"

definition language_line :: "pystr \<Rightarrow> pystr" where
  "language_line s = (case find_text (delim_text PRE_DELIM) s of None \<Rightarrow> drop (length s - 1) s | Some r \<Rightarrow> r)"

definition rewrite_match ::
  "(pystr \<Rightarrow> pystr \<times> (string \<Rightarrow> pystr)) \<Rightarrow> nat \<times> md_match \<Rightarrow> rewriting \<Rightarrow> rewriting" where
  "rewrite_match link_parts = (\<lambda>(start, m) w.
    (let fixed = (case m of Delim d \<Rightarrow> (if fixed_width d then \<not> rw_fixed w else rw_fixed w) | _ \<Rightarrow> rw_fixed w);
         w1 = w\<lparr>rw_fixed := fixed\<rparr>
     in case m of
          Link bang t u \<Rightarrow>
            if fixed then w1
            else if \<not> bang then
              w1\<lparr>rw_text := replace_once (rw_text w) (full_match m)
                   (asc ''<a href='' @ [QUOTE] @ u @ [QUOTE, GT] @ t @ asc ''</a>'') start\<rparr>
            else (case link_markup link_parts t u of
                    None \<Rightarrow> w1
                  | Some markup \<Rightarrow> w1\<lparr>rw_text := replace_once (rw_text w) (full_match m) markup start\<rparr>)
        | Delim d \<Rightarrow>
            if fixed \<and> \<not> fixed_width d then w1
            else if d \<notin> rw_open w then
              (let w2 = w1\<lparr>rw_open := insert d (rw_open w)\<rparr> in
               if d = PRE_DELIM then
                 (let line = takeWhile (\<lambda>c. c \<noteq> 10) (language_line (rw_text w))
                  in w2\<lparr>rw_text := replace_once (rw_text w) line
                       (asc ''<pre language='' @ [QUOTE] @ drop 3 line @ [QUOTE, GT]) start\<rparr>)
               else w2\<lparr>rw_text := replace_once (rw_text w) (delim_text d) (opening_tag (delim_tag d)) start\<rparr>)
            else
              w1\<lparr>rw_open := rw_open w - {d},
                 rw_text := replace_once (rw_text w) (delim_text d) (close_tag (delim_tag d)) start\<rparr>))"

definition rewrite :: "(pystr \<Rightarrow> pystr \<times> (string \<Rightarrow> pystr)) \<Rightarrow> pystr \<Rightarrow> pystr" where
  "rewrite link_parts t =
    rw_text (fold (rewrite_match link_parts) (finditer t) \<lparr>rw_text = t, rw_open = {}, rw_fixed = False\<rparr>)"

definition markdown_html :: "(pystr \<Rightarrow> pystr \<times> (string \<Rightarrow> pystr)) \<Rightarrow> bool \<Rightarrow> pystr \<Rightarrow> pystr" where
  "markdown_html link_parts strict s = rewrite link_parts (escape_and_create_quotes strict s)"

definition markdown_parse ::
  "(pystr \<Rightarrow> pystr \<times> (string \<Rightarrow> pystr)) \<Rightarrow> (nat \<Rightarrow> bool) \<Rightarrow> (pystr \<Rightarrow> pystr) \<Rightarrow> mention_client \<Rightarrow> bool \<Rightarrow> pystr \<Rightarrow>
    (pystr \<times> raw_entity list) res option" where
  "markdown_parse link_parts letter unescape client strict s =
    html_parse letter unescape client (markdown_html link_parts strict s)"

text \<open>\<open>Parser.parse\<close>: the text is stripped, and a mode that is not given is that of the client.\<close>

datatype parse_mode = PARSE_DEFAULT | PARSE_MARKDOWN | PARSE_HTML | PARSE_DISABLED

definition strip_text :: "pystr \<Rightarrow> pystr" where
  "strip_text s = rev (dropWhile code_space (rev (dropWhile code_space s)))"

definition parser_parse ::
  "(pystr \<Rightarrow> pystr \<times> (string \<Rightarrow> pystr)) \<Rightarrow> (nat \<Rightarrow> bool) \<Rightarrow> (pystr \<Rightarrow> pystr) \<Rightarrow> mention_client \<Rightarrow> parse_mode \<Rightarrow>
    parse_mode option \<Rightarrow> pystr \<Rightarrow> (pystr \<times> raw_entity list option) res option" where
  "parser_parse link_parts letter unescape client client_mode mode s =
    (let t = strip_text s;
         entities = map_option (\<lambda>r. bind_res r (\<lambda>(x, es). Inr (x, Some es)))
     in case (case mode of None \<Rightarrow> client_mode | Some m \<Rightarrow> m) of
          PARSE_DEFAULT \<Rightarrow> entities (markdown_parse link_parts letter unescape client False t)
        | PARSE_MARKDOWN \<Rightarrow> entities (markdown_parse link_parts letter unescape client True t)
        | PARSE_HTML \<Rightarrow> entities (html_parse letter unescape client t)
        | PARSE_DISABLED \<Rightarrow> Some (Inr (t, None)))"


section \<open>Unparsing\<close>

fun split_lines :: "pystr \<Rightarrow> pystr list" where
  "split_lines [] = [[]]"
| "split_lines (c # s) = (if c = 10 then [] # split_lines s else (c # hd (split_lines s)) # tl (split_lines s))"

fun quote_tags :: "nat \<Rightarrow> nat \<Rightarrow> nat \<Rightarrow> pystr list \<Rightarrow> (pystr \<times> nat) list" where
  "quote_tags start fin last_length [] = []"
| "quote_tags start fin last_length (l # ls) =
    (if l = [] \<and> last_length = fin then quote_tags start fin last_length ls
     else (BLOCKQUOTE_DELIM @ [32], start + last_length) # ([], start + last_length + (last_length + length l)) #
       quote_tags start fin (last_length + length l + 1) ls)"

fun type_delims :: "entity_type \<Rightarrow> (pystr \<times> pystr) option" where
  "type_delims BOLD = Some (delim_text BOLD_DELIM, delim_text BOLD_DELIM)"
| "type_delims ITALIC = Some (delim_text ITALIC_DELIM, delim_text ITALIC_DELIM)"
| "type_delims UNDERLINE = Some (delim_text UNDERLINE_DELIM, delim_text UNDERLINE_DELIM)"
| "type_delims STRIKETHROUGH = Some (delim_text STRIKE_DELIM, delim_text STRIKE_DELIM)"
| "type_delims CODE = Some (delim_text CODE_DELIM, delim_text CODE_DELIM)"
| "type_delims (PRE language) = Some (delim_text PRE_DELIM @ language @ [10], 10 # delim_text PRE_DELIM)"
| "type_delims SPOILER = Some (delim_text SPOILER_DELIM, delim_text SPOILER_DELIM)"
| "type_delims (TEXT_LINK url) = Some (asc ''['', asc ''](''  @ url @ asc '')'')"
| "type_delims (TEXT_MENTION user) = Some (asc ''['', asc ''](tg://user?id='' @ asc (int_dec user) @ asc '')'')"
| "type_delims (CUSTOM_EMOJI i) = Some (asc ''!['', asc ''](tg://emoji?id='' @ asc (int_dec i) @ asc '')'')"
| "type_delims (DATE_TIME t f) = Some (asc ''!['', asc ''](tg://time?unix='' @ asc (int_dec t) @
     (if f = [] then [] else asc ''&format='' @ f) @ asc '')'')"
| "type_delims _ = None"

definition entity_tags :: "pystr \<Rightarrow> message_entity \<Rightarrow> (pystr \<times> nat) list" where
  "entity_tags s e =
    (let start = me_offset e; fin = start + me_length e in
     case me_type e of
       BLOCKQUOTE _ \<Rightarrow> quote_tags start fin 0 (split_lines (py_slice start fin s))
     | ty \<Rightarrow> (case type_delims ty of None \<Rightarrow> [] | Some (a, b) \<Rightarrow> [(a, start), (b, fin)]))"

definition insert_at :: "pystr \<times> nat \<Rightarrow> pystr \<Rightarrow> pystr" where
  "insert_at = (\<lambda>(tag, off) s. take off s @ tag @ drop off s)"

text \<open>The tags go in from the last offset to the first, and at the same offset from the last in the list.\<close>

definition markdown_unparse :: "pystr \<Rightarrow> message_entity list \<Rightarrow> pystr" where
  "markdown_unparse s entities =
    (let t = add_surrogates s;
         tags = sort_key snd (concat (map (entity_tags t) entities))
     in remove_surrogates (fold insert_at (rev tags) t))"


section \<open>Texts without quotations\<close>

lemma join_split:
  assumes "\<forall>c \<in> set s. line_break c \<longrightarrow> c = 10" "s \<noteq> []" "last s \<noteq> 10"
  shows "join_lines (splitlines_from l s) = l @ s \<and> splitlines_from l s \<noteq> []"
  using assms
proof (induction s arbitrary: l)
  case (Cons c s)
  have breaks: "line_break c \<Longrightarrow> c = 10" using Cons.prems(1) by (simp del: One_nat_def)
  have "line_break 13" by (simp add: line_break_def)
  then have c13: "c \<noteq> 13" using breaks by force
  show ?case
  proof (cases "s = []")
    case True
    then have "\<not> line_break c" using Cons.prems(3) breaks by auto
    then show ?thesis using True c13 by simp
  next
    case False
    then have "last s \<noteq> 10" using Cons.prems(3) by simp
    then have rest: "join_lines (splitlines_from l2 s) = l2 @ s" "splitlines_from l2 s \<noteq> []" for l2
      using Cons.IH [of l2] Cons.prems(1) False by simp_all
    show ?thesis
    proof (cases "line_break c")
      case True
      obtain k ks where k: "splitlines_from [] s = k # ks" using rest(2) [of "[]"] by (cases "splitlines_from [] s") auto
      have "c = 10" using breaks True .
      then show ?thesis using True c13 rest(1) [of "[]"] by (simp add: k)
    next
      case False
      then show ?thesis using c13 rest [of "l @ [c]"] by simp
    qed
  qed
qed simp

text \<open>No line is the beginning of a quotation.\<close>

definition no_quotes :: "pystr \<Rightarrow> bool" where
  "no_quotes s = ((\<forall>c \<in> set s. line_break c \<longrightarrow> c = 10) \<and> (s \<noteq> [] \<longrightarrow> last s \<noteq> 10) \<and>
     list_all (\<lambda>l. \<not> startswith l BLOCKQUOTE_DELIM \<and> \<not> startswith l BLOCKQUOTE_EXPANDABLE_DELIM) (splitlines s))"

lemma escape_join: "escape (join_lines ls) = join_lines (map escape ls)"
  by (induction ls rule: join_lines.induct) (simp_all add: escape_append, simp_all add: escape_def escape_char_def mark_defs)

lemma fold_same: "(\<And>i. i \<in> set is \<Longrightarrow> f i q = q) \<Longrightarrow> fold f is q = q"
  by (induction "is") simp_all

lemma no_quotes_kept:
  assumes "no_quotes s"
  shows "escape_and_create_quotes strict s = (if strict then escape s else s)"
proof -
  let ?ls = "splitlines s"
  let ?q = "\<lparr>text_lines = map Some ?ls, to_quote = [], html_escaped = [], inside_blockquote = False\<rparr>"
  have line: "\<not> startswith (?ls ! i) BLOCKQUOTE_DELIM \<and> \<not> startswith (?ls ! i) BLOCKQUOTE_EXPANDABLE_DELIM"
    if "i < length ?ls" for i
    using assms that by (simp add: no_quotes_def list_all_length)
  have "fold (expandable_line strict) [0..<length ?ls] ?q = ?q"
    by (rule fold_same) (use line in \<open>auto simp: expandable_line_def\<close>)
  moreover have "fold (quoted_line strict) [0..<length ?ls] ?q = ?q"
    by (rule fold_same) (use line in \<open>auto simp: quoted_line_def\<close>)
  moreover have "create_blockquote False ?q = ?q"
    by (simp add: create_blockquote_def)
  moreover have "map (escape_line ?q) [0..<length ?ls] = map (\<lambda>l. Some (escape l)) ?ls"
    by (rule nth_equalityI) (simp_all add: escape_line_def)
  ultimately have "escape_and_create_quotes strict s =
      join_lines (map the (filter (\<lambda>l. l \<noteq> None) (if strict then map (\<lambda>l. Some (escape l)) ?ls else map Some ?ls)))"
    unfolding escape_and_create_quotes_def Let_def by (simp only: quotes.select_convs)
  also have "... = join_lines (if strict then map escape ?ls else ?ls)"
    by (simp add: filter_map o_def)
  also have "join_lines ?ls = s"
    using assms join_split [of s "[]"] by (cases "s = []") (simp_all add: no_quotes_def splitlines_def)
  then have "join_lines (if strict then map escape ?ls else ?ls) = (if strict then escape s else s)"
    by (simp add: escape_join [symmetric])
  finally show ?thesis .
qed


text \<open>A line in the middle of an expandable quotation is cut by the length of the mark even when it has none; the
  last line is not.\<close>

lemma middle_line_cut:
  "escape_and_create_quotes False (asc ''**>a'' @ 10 # asc ''bc'' @ 10 # asc ''d||'') =
    asc ''<blockquote expandable>a'' @ 10 # asc ''c'' @ 10 # asc ''d</blockquote>''"
  by (simp add: escape_and_create_quotes_def splitlines_def line_break_def asc_def expandable_line_def quoted_line_def
      startswith_def endswith_def after_mark_def queue_line_def create_blockquote_def BLOCKQUOTE_DELIM_def
      BLOCKQUOTE_EXPANDABLE_DELIM_def BLOCKQUOTE_EXPANDABLE_END_DELIM_def Let_def)


section \<open>Delimiters are replaced by tags\<close>

datatype piece = Plain pystr | Mark delim

fun piece_text :: "piece \<Rightarrow> pystr" where
  "piece_text (Plain p) = p"
| "piece_text (Mark d) = delim_text d"

definition pieces_text :: "piece list \<Rightarrow> pystr" where
  "pieces_text ps = concat (map piece_text ps)"

fun pieces_html :: "delim set \<Rightarrow> piece list \<Rightarrow> pystr" where
  "pieces_html opened [] = []"
| "pieces_html opened (Plain p # ps) = p @ pieces_html opened ps"
| "pieces_html opened (Mark d # ps) =
    (if d \<in> opened then close_tag (delim_tag d) @ pieces_html (opened - {d}) ps
     else opening_tag (delim_tag d) @ pieces_html (insert d opened) ps)"

text \<open>Text without a character of a delimiter and without the bracket of a link.\<close>

definition markless :: "pystr \<Rightarrow> bool" where
  "markless p = (\<forall>c \<in> set p. c \<notin> {96, 126, 45, 95, 42, 124, 91})"

fun piece_ok :: "piece \<Rightarrow> bool" where
  "piece_ok (Plain p) = markless p"
| "piece_ok (Mark d) = (\<not> fixed_width d)"

fun marks :: "nat \<Rightarrow> piece list \<Rightarrow> (nat \<times> md_match) list" where
  "marks pos [] = []"
| "marks pos (Plain p # ps) = marks (pos + length p) ps"
| "marks pos (Mark d # ps) = (pos, Delim d) # marks (pos + length (delim_text d)) ps"

lemma pieces_text_simps [simp]:
  "pieces_text [] = []" "pieces_text (p # ps) = piece_text p @ pieces_text ps"
  by (simp_all add: pieces_text_def)

lemma no_bracket: "list_all piece_ok ps \<Longrightarrow> 91 \<notin> set (pieces_text ps)"
proof (induction ps)
  case (Cons p ps)
  then show ?case
  proof (cases p)
    case (Mark d)
    then show ?thesis using Cons by (cases d) auto
  qed (auto simp: markless_def)
qed simp

lemma match_plain: "c \<notin> {96, 126, 45, 95, 42, 124, 91} \<Longrightarrow> 91 \<notin> set s \<Longrightarrow> match_here (c # s) = None"
  by (cases s) (auto simp: match_here_def all_delims_def startswith_def match_link_def Let_def)

lemma match_mark: "\<not> fixed_width d \<Longrightarrow> match_here (delim_text d @ s) = Some (Delim d)"
  by (cases d) (simp_all add: match_here_def all_delims_def startswith_def fixed_width_def)

lemma finditer_plain:
  "markless p \<Longrightarrow> 91 \<notin> set s \<Longrightarrow> finditer_from pos 0 (p @ s) = finditer_from (pos + length p) 0 s"
proof (induction p arbitrary: pos)
  case (Cons c p)
  have "91 \<notin> set (p @ s)" using Cons.prems by (auto simp: markless_def)
  then have "match_here (c # p @ s) = None"
    using Cons.prems(1) by (intro match_plain) (auto simp: markless_def)
  then show ?case using Cons by (simp add: markless_def)
qed simp

lemma finditer_mark:
  "\<not> fixed_width d \<Longrightarrow> finditer_from pos 0 (delim_text d @ s) = (pos, Delim d) # finditer_from (pos + length (delim_text d)) 0 s"
  using match_mark [of d s] by (cases d) (simp_all add: fixed_width_def)

lemma finditer_pieces: "list_all piece_ok ps \<Longrightarrow> finditer_from pos 0 (pieces_text ps) = marks pos ps"
proof (induction ps arbitrary: pos)
  case (Cons p ps)
  then show ?case
    using no_bracket [of ps] by (cases p) (simp_all add: finditer_plain finditer_mark)
qed simp

lemma replace_first_skip:
  "old \<noteq> [] \<Longrightarrow> hd old \<notin> set x \<Longrightarrow> replace_first old new (x @ old @ r) = x @ new @ r"
proof (induction x)
  case Nil
  then show ?case by (cases old) (simp_all add: startswith_def)
next
  case (Cons c x)
  then show ?case by (cases old) (auto simp: startswith_def)
qed

lemma replace_mark:
  assumes "markless written" "start \<le> length written"
  shows "replace_once (written @ delim_text d @ r) (delim_text d) new start = written @ new @ r"
proof -
  have "hd (delim_text d) \<notin> set (drop start written)"
    using assms(1) in_set_dropD [of "hd (delim_text d)" start written] by (cases d) (auto simp: markless_def)
  then have "replace_first (delim_text d) new (drop start written @ delim_text d @ r) = drop start written @ new @ r"
    by (intro replace_first_skip) (cases d; simp)
  then show ?thesis using assms(2) by (simp add: replace_once_def)
qed

lemma markless_append [simp]: "markless (a @ b) = (markless a \<and> markless b)"
  by (auto simp: markless_def)

lemma tags_markless: "markless (opening_tag (delim_tag d))" "markless (close_tag (delim_tag d))"
  by (cases d; simp add: opening_tag_def close_tag_def markless_def asc_def mark_defs)+

lemma tags_longer: "length (delim_text d) \<le> length (opening_tag (delim_tag d))"
  "length (delim_text d) \<le> length (close_tag (delim_tag d))"
  by (cases d; simp add: opening_tag_def close_tag_def asc_def)+

lemma rewrite_pieces:
  "list_all piece_ok ps \<Longrightarrow> markless written \<Longrightarrow> pos \<le> length written \<Longrightarrow>
    rw_text (fold (rewrite_match link_parts) (marks pos ps)
      \<lparr>rw_text = written @ pieces_text ps, rw_open = opened, rw_fixed = False\<rparr>) = written @ pieces_html opened ps"
proof (induction ps arbitrary: written pos opened)
  case (Cons p ps)
  show ?case
  proof (cases p)
    case (Plain s)
    then show ?thesis using Cons.IH [of "written @ s" "pos + length s" opened] Cons.prems by simp
  next
    case (Mark d)
    have d: "\<not> fixed_width d" using Cons.prems Mark by simp
    let ?tag = "if d \<in> opened then close_tag (delim_tag d) else opening_tag (delim_tag d)"
    let ?opened = "if d \<in> opened then opened - {d} else insert d opened"
    have "rewrite_match link_parts (pos, Delim d)
        \<lparr>rw_text = written @ delim_text d @ pieces_text ps, rw_open = opened, rw_fixed = False\<rparr> =
      \<lparr>rw_text = written @ ?tag @ pieces_text ps, rw_open = ?opened, rw_fixed = False\<rparr>"
      using d replace_mark [OF Cons.prems(2,3)] by (auto simp: rewrite_match_def fixed_width_def Let_def)
    then show ?thesis
      using Cons.IH [of "written @ ?tag" "pos + length (delim_text d)" ?opened] Cons.prems tags_markless [of d] tags_longer [of d]
      by (simp add: Mark)
  qed
qed simp

lemma rewrite_text:
  assumes "list_all piece_ok ps"
  shows "rewrite link_parts (pieces_text ps) = pieces_html {} ps"
  using rewrite_pieces [OF assms, of "[]" 0 link_parts "{}"] finditer_pieces [OF assms, of 0]
  by (simp add: rewrite_def finditer_def markless_def)


section \<open>Nested entities\<close>

fun inline_delim :: "entity_type \<Rightarrow> delim option" where
  "inline_delim BOLD = Some BOLD_DELIM"
| "inline_delim ITALIC = Some ITALIC_DELIM"
| "inline_delim UNDERLINE = Some UNDERLINE_DELIM"
| "inline_delim STRIKETHROUGH = Some STRIKE_DELIM"
| "inline_delim SPOILER = Some SPOILER_DELIM"
| "inline_delim _ = None"

text \<open>The Markdown of a forest, and the pieces of its escaped form.\<close>

fun nodes_markdown :: "node list \<Rightarrow> pystr" where
  "nodes_markdown [] = []"
| "nodes_markdown (Txt s # ns) = s @ nodes_markdown ns"
| "nodes_markdown (Elem ty cs # ns) =
    delim_text (the (inline_delim ty)) @ nodes_markdown cs @ delim_text (the (inline_delim ty)) @ nodes_markdown ns"

fun nodes_pieces :: "node list \<Rightarrow> piece list" where
  "nodes_pieces [] = []"
| "nodes_pieces (Txt s # ns) = Plain (escape s) # nodes_pieces ns"
| "nodes_pieces (Elem ty cs # ns) =
    Mark (the (inline_delim ty)) # nodes_pieces cs @ Mark (the (inline_delim ty)) # nodes_pieces ns"

text \<open>The five kinds without parameters, none inside of its own, and no character of a delimiter in the texts.\<close>

fun simple_nodes :: "delim set \<Rightarrow> node list \<Rightarrow> bool" where
  "simple_nodes opened [] = True"
| "simple_nodes opened (Txt s # ns) = (markless s \<and> simple_nodes opened ns)"
| "simple_nodes opened (Elem ty cs # ns) =
    (case inline_delim ty of
       None \<Rightarrow> False
     | Some d \<Rightarrow> d \<notin> opened \<and> simple_nodes (insert d opened) cs \<and> simple_nodes opened ns)"

lemma markless_Cons: "markless (c # s) = (markless [c] \<and> markless s)"
  by (auto simp: markless_def)

lemma markless_char: "markless [c] \<Longrightarrow> markless (escape_char c)"
  by (cases "c \<in> {38, 60, 62, 34, 39}") (auto simp: escape_char_def asc_def mark_defs, simp_all add: markless_def)

lemma escape_markless: "markless s \<Longrightarrow> markless (escape s)"
proof (induction s)
  case (Cons c s)
  then have "markless [c]" "markless (escape s)" by (simp_all add: markless_Cons [of c s])
  then show ?case by (simp add: escape_def markless_char)
qed (simp add: escape_def)

lemma escape_delim: "escape (delim_text d) = delim_text d"
  by (cases d) (simp_all add: escape_def escape_char_def mark_defs)

lemma pieces_append [simp]: "pieces_text (ps @ qs) = pieces_text ps @ pieces_text qs"
  by (simp add: pieces_text_def)

lemma nodes_pieces_text: "pieces_text (nodes_pieces ns) = escape (nodes_markdown ns)"
  by (induction ns rule: nodes_markdown.induct) (simp_all add: escape_append escape_delim)

lemma inline_not_fixed: "inline_delim ty = Some d \<Longrightarrow> \<not> fixed_width d"
  by (cases ty) (auto simp: fixed_width_def)

lemma nodes_pieces_ok: "simple_nodes opened ns \<Longrightarrow> list_all piece_ok (nodes_pieces ns)"
  by (induction opened ns rule: simple_nodes.induct)
    (auto simp: escape_markless inline_not_fixed split: option.splits)

lemma inline_tags:
  "inline_delim ty = Some d \<Longrightarrow> opening_tag (delim_tag d) = start_tag ty \<and> close_tag (delim_tag d) = end_tag ty"
  by (cases ty) (auto simp: opening_tag_def start_tag_def end_tag_def open_tag_def)

lemma nodes_pieces_html:
  "simple_nodes opened ns \<Longrightarrow> pieces_html opened (nodes_pieces ns @ rest) = nodes_html ns @ pieces_html opened rest"
proof (induction opened ns arbitrary: rest rule: simple_nodes.induct)
  case (3 opened ty cs ns)
  then obtain d where d: "inline_delim ty = Some d" "d \<notin> opened" "simple_nodes (insert d opened) cs" "simple_nodes opened ns"
    by (auto split: option.splits)
  have "insert d opened - {d} = opened" using d(2) by simp
  then show ?case
    using d(1,2) 3(1) [OF d(1,3)] 3(2) [OF d(1,4)] inline_tags [OF d(1)] by simp
qed simp_all

lemma inline_entities:
  "simple_nodes opened ns \<Longrightarrow> e \<in> set (nodes_entities off (units ns)) \<Longrightarrow> inline_delim (me_type e) \<noteq> None"
  by (induction opened ns arbitrary: off rule: simple_nodes.induct) (auto split: option.splits)

lemma inline_kept: "inline_delim (me_type e) \<noteq> None \<Longrightarrow> keep_entity client (raw_of e) = Inr True"
  by (cases client; cases "me_type e") (simp_all add: raw_of_def)

text \<open>Reading strict Markdown gives the message it stands for: bold, italic, underlined, struck and hidden text,
  nested in any way but in itself, over any number of lines, comes back as the text without its delimiters and an
  entity for each pair, at its place in UTF-16 code units. Text with a character of a delimiter, an opening bracket,
  an ampersand or the mark of a quotation is not covered.\<close>

lemma parse_nodes:
  assumes "unescapes unescape" "tagged ns" "normal ns" "writable ns" "\<forall>c \<in> set (nodes_text ns). scalar c"
    "simple_nodes {} ns" "no_quotes (nodes_markdown ns)"
    "strip_end letter (strip_start letter (nodes_html ns)) = nodes_html ns"
  shows "\<exists>es. markdown_parse link_parts letter unescape client True (nodes_markdown ns) = Some (Inr (nodes_text ns, es)) \<and>
    mset es = mset (map raw_of (nodes_entities 0 (units ns)))"
proof -
  have "rewrite link_parts (pieces_text (nodes_pieces ns)) = nodes_html ns"
    using rewrite_text [OF nodes_pieces_ok [OF assms(6)]] nodes_pieces_html [OF assms(6), of "[]"] by simp
  then have "markdown_html link_parts True (nodes_markdown ns) = nodes_html ns"
    using no_quotes_kept [OF assms(7), of True] by (simp add: markdown_html_def nodes_pieces_text)
  then show ?thesis
    using html_parse_nodes [OF assms(1-5,8), of client] inline_kept [OF inline_entities [OF assms(6)]]
    unfolding markdown_parse_def by auto
qed

definition sample_markdown :: "node list" where
  "sample_markdown = [Txt (asc ''so ''), Elem BOLD [Txt (asc ''a<b ''), Elem ITALIC [Txt [0x1F600, 66]], Txt (asc ''!'')], Txt (asc ''.'')]"

lemma sample_markdown_text: "nodes_markdown sample_markdown = asc ''so **a<b __'' @ [0x1F600, 66] @ asc ''__!**.''"
  by (simp add: sample_markdown_def asc_def)

lemma sample_strip: "strip_end (\<lambda>_. False) (strip_start (\<lambda>_. False) (nodes_html sample_markdown)) = nodes_html sample_markdown"
  by (simp add: sample_markdown_def start_tag_def end_tag_def open_tag_def close_tag_def escape_char_def html_eval)

lemma sample_no_quotes: "no_quotes (nodes_markdown sample_markdown)"
  by (simp add: sample_markdown_def no_quotes_def asc_def line_break_def splitlines_def startswith_def
      BLOCKQUOTE_DELIM_def BLOCKQUOTE_EXPANDABLE_DELIM_def)

text \<open>The place where a replacement is looked for is counted in the original text, while the text has grown: an
  address that holds a delimiter takes the tag of a later one.\<close>

lemma link_address_rewritten:
  "markdown_html (\<lambda>_. ([], \<lambda>_. [])) False (asc ''[a](http://x__y) __b__'') =
    asc ''<a href='' @ [QUOTE] @ asc ''http://x<i>y'' @ [QUOTE] @ asc ''>a</a> </i>b__''"
proof -
  let ?t = "asc ''[a](http://x__y) __b__''"
  have "escape_and_create_quotes False ?t = ?t"
    by (subst no_quotes_kept) (simp_all add: no_quotes_def asc_def line_break_def splitlines_def startswith_def
        BLOCKQUOTE_DELIM_def BLOCKQUOTE_EXPANDABLE_DELIM_def)
  moreover have "finditer ?t = [(0, Link False (asc ''a'') (asc ''http://x__y'')), (17, Delim ITALIC_DELIM), (20, Delim ITALIC_DELIM)]"
    by (simp add: finditer_def asc_def match_here_def match_link_def all_delims_def startswith_def)
  moreover have "rw_text (fold (rewrite_match (\<lambda>_. ([], \<lambda>_. [])))
      [(0, Link False (asc ''a'') (asc ''http://x__y'')), (17, Delim ITALIC_DELIM), (20, Delim ITALIC_DELIM)]
      \<lparr>rw_text = ?t, rw_open = {}, rw_fixed = False\<rparr>) =
    asc ''<a href='' @ [QUOTE] @ asc ''http://x<i>y'' @ [QUOTE] @ asc ''>a</a> </i>b__''"
    by (simp add: rewrite_match_def fixed_width_def replace_once_def asc_def startswith_def mark_defs opening_tag_def close_tag_def)
  ultimately show ?thesis by (simp add: markdown_html_def rewrite_def)
qed


text \<open>A preformatted text on one line becomes the language of its own tag, which the closing delimiter breaks.\<close>

lemma one_line_pre:
  "markdown_html (\<lambda>_. ([], \<lambda>_. [])) False (asc ''```x```'') = asc ''<pre language='' @ [QUOTE] @ asc ''x</pre>'' @ [QUOTE, GT]"
proof -
  let ?t = "asc ''```x```''"
  have "escape_and_create_quotes False ?t = ?t"
    by (subst no_quotes_kept) (simp_all add: no_quotes_def asc_def line_break_def splitlines_def startswith_def
        BLOCKQUOTE_DELIM_def BLOCKQUOTE_EXPANDABLE_DELIM_def)
  moreover have "finditer ?t = [(0, Delim PRE_DELIM), (4, Delim PRE_DELIM)]"
    by (simp add: finditer_def asc_def match_here_def match_link_def all_delims_def startswith_def)
  moreover have "rw_text (fold (rewrite_match (\<lambda>_. ([], \<lambda>_. []))) [(0, Delim PRE_DELIM), (4, Delim PRE_DELIM)]
      \<lparr>rw_text = ?t, rw_open = {}, rw_fixed = False\<rparr>) = asc ''<pre language='' @ [QUOTE] @ asc ''x</pre>'' @ [QUOTE, GT]"
    by (simp add: rewrite_match_def fixed_width_def replace_once_def asc_def startswith_def mark_defs close_tag_def
        language_line_def Let_def)
  ultimately show ?thesis by (simp add: markdown_html_def rewrite_def)
qed


section \<open>Writing and reading\<close>

text \<open>The tags of a forest in the order of the entities, and in the order of the text.\<close>

fun listed_tags :: "nat \<Rightarrow> node list \<Rightarrow> (pystr \<times> nat) list" where
  "listed_tags off [] = []"
| "listed_tags off (Txt s # ns) = listed_tags (off + length s) ns"
| "listed_tags off (Elem ty cs # ns) =
    (let d = delim_text (the (inline_delim ty)) in
     (d, off) # (d, off + width cs) # listed_tags off cs @ listed_tags (off + width cs) ns)"

fun placed_tags :: "nat \<Rightarrow> node list \<Rightarrow> (pystr \<times> nat) list" where
  "placed_tags off [] = []"
| "placed_tags off (Txt s # ns) = placed_tags (off + length s) ns"
| "placed_tags off (Elem ty cs # ns) =
    (let d = delim_text (the (inline_delim ty)) in
     (d, off) # placed_tags off cs @ (d, off + width cs) # placed_tags (off + width cs) ns)"

text \<open>No entity ends where the one around it ends: there is text after it.\<close>

fun roomy :: "node list \<Rightarrow> bool" where
  "roomy [] = True"
| "roomy (Txt s # ns) = roomy ns"
| "roomy (Elem ty cs # ns) = (cs \<noteq> [] \<and> is_txt (last cs) \<and> roomy cs \<and> roomy ns)"

lemma entity_tags_listed:
  "simple_nodes opened ns \<Longrightarrow> concat (map (entity_tags t) (nodes_entities off ns)) = listed_tags off ns"
proof (induction opened ns arbitrary: off rule: simple_nodes.induct)
  case (3 opened ty cs ns)
  then obtain d where d: "inline_delim ty = Some d" "simple_nodes (insert d opened) cs" "simple_nodes opened ns"
    by (auto split: option.splits)
  have "entity_tags t \<lparr>me_type = ty, me_offset = off, me_length = width cs\<rparr> = [(delim_text d, off), (delim_text d, off + width cs)]"
    using d(1) by (cases ty) (auto simp: entity_tags_def Let_def)
  then show ?case using 3(1) [OF d(1,2)] 3(2) [OF d(1,3)] by (simp add: d(1) Let_def)
qed simp_all

lemma width_pos: "normal ns \<Longrightarrow> tagged ns \<Longrightarrow> ns \<noteq> [] \<Longrightarrow> 0 < width ns"
  by (cases ns rule: normal.cases) auto

lemma placed_within:
  "tagged ns \<Longrightarrow> p \<in> set (placed_tags off ns) \<Longrightarrow> off \<le> snd p \<and> snd p \<le> off + width ns"
  by (induction off ns arbitrary: p rule: placed_tags.induct) (fastforce simp: Let_def)+

lemma placed_before_end:
  "tagged ns \<Longrightarrow> normal ns \<Longrightarrow> ns \<noteq> [] \<Longrightarrow> is_txt (last ns) \<Longrightarrow> p \<in> set (placed_tags off ns) \<Longrightarrow> snd p < off + width ns"
proof (induction ns arbitrary: off)
  case (Cons n ns)
  show ?case
  proof (cases "ns = []")
    case True
    then show ?thesis using Cons.prems by (cases n) auto
  next
    case False
    have ns: "tagged ns" "normal ns" using Cons.prems by (cases n; simp)+
    have pos: "0 < width ns" using width_pos [OF ns(2,1) False] .
    have last: "is_txt (last ns)" using Cons.prems(4) False by simp
    show ?thesis
    proof (cases n)
      case (Txt s)
      then show ?thesis using Cons.IH [OF ns False last, of "off + length s"] Cons.prems(5) by simp
    next
      case (Elem ty cs)
      have cs: "tagged cs" using Cons.prems(1) Elem by simp
      consider "snd p = off" | "p \<in> set (placed_tags off cs)" | "snd p = off + width cs" | "p \<in> set (placed_tags (off + width cs) ns)"
        using Cons.prems(5) by (auto simp: Elem Let_def)
      then show ?thesis
      proof cases
        case 2
        then show ?thesis using placed_within [OF cs 2] pos Elem by simp
      next
        case 4
        then show ?thesis using Cons.IH [OF ns False last 4] Elem by simp
      qed (use pos Elem in simp_all)
    qed
  qed
qed simp

lemma insort_between:
  "(\<And>p. p \<in> set xs \<Longrightarrow> snd p < k) \<Longrightarrow> (\<And>p. p \<in> set ys \<Longrightarrow> k \<le> snd p) \<Longrightarrow>
    insort_key snd (d, k) (xs @ ys) = xs @ (d, k) # ys"
proof (induction xs)
  case Nil
  then show ?case by (cases ys) auto
next
  case (Cons x xs)
  have "\<not> k \<le> snd x" using Cons.prems(1) [of x] by simp
  then show ?case using Cons by simp
qed

lemma sorted_tags:
  "tagged ns \<Longrightarrow> normal ns \<Longrightarrow> roomy ns \<Longrightarrow> (\<And>p. p \<in> set rest \<Longrightarrow> off + width ns \<le> snd p) \<Longrightarrow>
    sort_key snd (listed_tags off ns @ rest) = placed_tags off ns @ sort_key snd rest"
proof (induction off ns arbitrary: rest rule: listed_tags.induct)
  case (2 off s ns)
  have "normal ns" using "2.prems"(2) by simp
  then show ?case using "2.IH" [of rest] "2.prems" by (simp add: add.assoc)
next
  case (3 off ty cs ns)
  let ?d = "delim_text (the (inline_delim ty))"
  have ok: "tagged cs" "tagged ns" "normal cs" "normal ns" "roomy cs" "roomy ns" "cs \<noteq> []" "is_txt (last cs)"
    using "3.prems"(1-3) by simp_all
  have sub: "sort_key snd (listed_tags (off + width cs) ns @ rest) = placed_tags (off + width cs) ns @ sort_key snd rest"
    using "3.IH"(2) [OF refl ok(2,4,6), of rest] "3.prems"(4) by (simp add: add.assoc)
  have late: "off + width cs \<le> snd p" if "p \<in> set (placed_tags (off + width cs) ns @ sort_key snd rest)" for p
    using that placed_within [OF ok(2), of p "off + width cs"] "3.prems"(4) [of p] by auto
  then have late': "off + width cs \<le> snd p" if "p \<in> set (listed_tags (off + width cs) ns @ rest)" for p
    using that by (metis set_sort sub)
  have inner: "sort_key snd (listed_tags off cs @ listed_tags (off + width cs) ns @ rest) =
      placed_tags off cs @ placed_tags (off + width cs) ns @ sort_key snd rest"
    using "3.IH"(1) [OF refl ok(1,3,5), of "listed_tags (off + width cs) ns @ rest", OF late'] unfolding sub .
  have "insort_key snd (?d, off + width cs) (placed_tags off cs @ placed_tags (off + width cs) ns @ sort_key snd rest) =
      placed_tags off cs @ (?d, off + width cs) # placed_tags (off + width cs) ns @ sort_key snd rest"
    using placed_before_end [OF ok(1,3,7,8)] late by (rule insort_between)
  moreover have "insort_key snd (?d, off) ([] @ placed_tags off cs @ (?d, off + width cs) # placed_tags (off + width cs) ns @ sort_key snd rest) =
      [] @ (?d, off) # placed_tags off cs @ (?d, off + width cs) # placed_tags (off + width cs) ns @ sort_key snd rest"
  proof (rule insort_between)
    fix p
    assume "p \<in> set (placed_tags off cs @ (?d, off + width cs) # placed_tags (off + width cs) ns @ sort_key snd rest)"
    then show "off \<le> snd p"
      using placed_within [OF ok(1), of p off] late [of p] by auto
  qed simp
  ultimately show ?case by (simp add: Let_def inner)
qed simp

lemma insert_placed:
  "length pre = off \<Longrightarrow>
    foldr insert_at (placed_tags off ns) (pre @ nodes_text ns @ post) = pre @ nodes_markdown ns @ post"
proof (induction off ns arbitrary: pre post rule: placed_tags.induct)
  case (2 off s ns)
  then show ?case using "2.IH" [of "pre @ s" post] by simp
next
  case (3 off ty cs ns)
  let ?d = "delim_text (the (inline_delim ty))"
  have "foldr insert_at (placed_tags (off + width cs) ns) (pre @ nodes_text cs @ nodes_text ns @ post) =
      pre @ nodes_text cs @ nodes_markdown ns @ post"
    using "3.IH"(2) [OF refl, of "pre @ nodes_text cs" post] 3(3) by (simp add: width_def)
  moreover have "insert_at (?d, off + width cs) (pre @ nodes_text cs @ nodes_markdown ns @ post) =
      pre @ nodes_text cs @ ?d @ nodes_markdown ns @ post"
    using 3(3) by (simp add: insert_at_def width_def)
  moreover have "foldr insert_at (placed_tags off cs) (pre @ nodes_text cs @ ?d @ nodes_markdown ns @ post) =
      pre @ nodes_markdown cs @ ?d @ nodes_markdown ns @ post"
    using "3.IH"(1) [OF refl 3(3)] by simp
  moreover have "insert_at (?d, off) (pre @ nodes_markdown cs @ ?d @ nodes_markdown ns @ post) =
      pre @ ?d @ nodes_markdown cs @ ?d @ nodes_markdown ns @ post"
    using 3(3) by (simp add: insert_at_def)
  ultimately show ?case by (simp add: Let_def)
qed simp

lemma delim_bmp: "bmp_scalars (delim_text d)"
  by (cases d) (simp_all add: scalar_def surrogate_def)

lemma units_markdown: "nodes_markdown (units ns) = add_surrogates (nodes_markdown ns)"
  by (induction ns rule: nodes_markdown.induct) (simp_all add: add_surrogates_append delim_bmp bmp_unchanged)

lemma markdown_scalar: "\<forall>c \<in> set (nodes_text ns). scalar c \<Longrightarrow> \<forall>c \<in> set (nodes_markdown ns). scalar c"
  by (induction ns rule: nodes_markdown.induct) (use delim_bmp in \<open>auto simp: bmp_scalars_def\<close>)

lemma surrogate_pair_codes: "c \<in> set (surrogate_pair x) \<Longrightarrow> c = x \<or> 0xD800 \<le> c"
  by (cases "0x10000 \<le> x") (simp_all add: surrogate_pair_def, elim disjE, simp_all)

lemma markless_pair: "markless [x] \<Longrightarrow> markless (surrogate_pair x)"
proof -
  assume x: "markless [x]"
  have "c \<notin> {96, 126, 45, 95, 42, 124, 91}" if "c \<in> set (surrogate_pair x)" for c
    using surrogate_pair_codes [OF that] x by (elim disjE) (simp_all add: markless_def)
  then show ?thesis unfolding markless_def by blast
qed

lemma markless_units: "markless s \<Longrightarrow> markless (add_surrogates s)"
proof (induction s)
  case (Cons c s)
  then show ?case using markless_Cons [of c s] by (simp add: add_surrogates_Cons markless_pair)
qed (simp add: markless_def)

lemma units_simple: "simple_nodes opened ns \<Longrightarrow> simple_nodes opened (units ns)"
  by (induction opened ns rule: simple_nodes.induct) (auto simp: markless_units split: option.splits)

lemma units_last: "ns \<noteq> [] \<Longrightarrow> units ns \<noteq> [] \<and> is_txt (last (units ns)) = is_txt (last ns)"
  by (induction ns rule: units.induct) auto

lemma units_roomy: "roomy ns \<Longrightarrow> roomy (units ns)"
  by (induction ns rule: roomy.induct) (simp_all add: units_last)

lemma markdown_unparse_nodes:
  assumes "tagged ns" "normal ns" "roomy ns" "simple_nodes {} ns" "\<forall>c \<in> set (nodes_text ns). scalar c"
  shows "markdown_unparse (nodes_text ns) (nodes_entities 0 (units ns)) = nodes_markdown ns"
proof -
  have "sort_key snd (listed_tags 0 (units ns) @ []) = placed_tags 0 (units ns) @ sort_key snd []"
    by (rule sorted_tags [OF units_tagged [OF assms(1)] units_normal [OF assms(2)] units_roomy [OF assms(3)]]) simp
  then have "markdown_unparse (nodes_text ns) (nodes_entities 0 (units ns)) = remove_surrogates (nodes_markdown (units ns))"
    using entity_tags_listed [OF units_simple [OF assms(4)], of "nodes_text (units ns)" 0] insert_placed [of "[]" 0 "units ns" "[]"]
    by (simp add: markdown_unparse_def Let_def units_text [symmetric] foldr_conv_fold)
  then show ?thesis
    using markdown_scalar [OF assms(5)] by (simp add: units_markdown remove_add_surrogates)
qed

text \<open>C22: A message with nested entities survives being written as Markdown and read again strictly: the same text,
  and the same entities up to their order, with their places in UTF-16 code units. It holds for forests of bold, italic,
  underlined, struck and spoiler entities with some text each, none of them inside of another of its own kind, and none ending
  where the one around it ends; for texts of Unicode scalar values without ampersands and without the characters
  of delimiters and the opening bracket; when what is written has no line break but the line feed, does not end with
  one, and has no line that begins as a quotation; and when the HTML that the forest stands for loses nothing to the
  stripping of white space at its ends. The function \<open>html.unescape\<close> is any that undoes the escaping and leaves
  texts without ampersands alone.\<close>

theorem markdown_round_trip:
  assumes "unescapes unescape" "tagged ns" "normal ns" "writable ns" "\<forall>c \<in> set (nodes_text ns). scalar c"
    "simple_nodes {} ns" "roomy ns" "s = nodes_text ns" "entities = nodes_entities 0 (units ns)"
    "no_quotes (markdown_unparse s entities)"
    "strip_end letter (strip_start letter (nodes_html ns)) = nodes_html ns"
  shows "\<exists>es. markdown_parse link_parts letter unescape client True (markdown_unparse s entities) = Some (Inr (s, es)) \<and>
    mset es = mset (map raw_of entities)"
  using parse_nodes [OF assms(1-6) _ assms(11)] assms(10) markdown_unparse_nodes [OF assms(2,3,7,6,5)]
  unfolding assms(8,9) by simp

theorem markdown_round_trip_witness:
  "\<exists>es. markdown_parse (\<lambda>_. ([], \<lambda>_. [])) (\<lambda>_. False) unescape_five None True
      (markdown_unparse (nodes_text sample_markdown) (nodes_entities 0 (units sample_markdown))) =
      Some (Inr (nodes_text sample_markdown, es)) \<and>
    mset es = mset (map raw_of (nodes_entities 0 (units sample_markdown)))"
proof (rule markdown_round_trip)
  have ok: "tagged sample_markdown" "normal sample_markdown" "roomy sample_markdown" "simple_nodes {} sample_markdown"
      "\<forall>c \<in> set (nodes_text sample_markdown). scalar c" "writable sample_markdown"
    by (simp_all add: sample_markdown_def width_def scalar_def surrogate_def asc_def mark_defs markless_def)
  then show "tagged sample_markdown" "normal sample_markdown" "roomy sample_markdown" "simple_nodes {} sample_markdown"
      "\<forall>c \<in> set (nodes_text sample_markdown). scalar c" "writable sample_markdown"
    by simp_all
  show "unescapes unescape_five"
    by (simp add: unescapes_def unescape_five_escape unescape_five_plain)
  show "strip_end (\<lambda>_. False) (strip_start (\<lambda>_. False) (nodes_html sample_markdown)) = nodes_html sample_markdown"
    by (rule sample_strip)
  show "no_quotes (markdown_unparse (nodes_text sample_markdown) (nodes_entities 0 (units sample_markdown)))"
    unfolding markdown_unparse_nodes [OF ok(1-5)] by (rule sample_no_quotes)
qed (rule refl)+

end
