(* ===== verification/Spec2Isabelle.thy ===== *)
theory Spec2Isabelle
  imports File_Id Obfuscation Session_Lifecycle Publication Endpoint_Cache Storage Rpc_Errors Srp Auth Downloads Uploads Resolve Client_Dc
    Html_Trip Fake_Tls Client_Life Filters Utils Markdown
begin

text \<open>
  A verification library for the core of the Telegram client under \<open>src/pyrogram\<close>: the
  bytes it exchanges, the connection and its encryption, the session that numbers, acknowledges
  and matches messages, the storage, and what happens to updates and files on their way to the
  application.

  \<^bold>\<open>How the program is put together.\<close> A \<open>Client\<close> (\<open>client.py\<close>) owns a storage, a
  dispatcher and one session per data centre. A session (\<open>session/session.py\<close>) dials an
  endpoint of its data centre (\<open>dc_options.py\<close>) through a connection
  (\<open>connection/connection.py\<close>), which picks a framing of the TCP stream, perhaps behind a
  proxy. Each packet is a message serialised by \<open>raw/core\<close> and encrypted by
  \<open>crypto/mtproto.py\<close> under a key that \<open>session/auth.py\<close> created. The session hands
  answers to the requests that wait for them and batches of updates to \<open>handle_updates\<close>,
  which stores the peers they carry, advances the update cursors and fills the dispatcher's
  queue; after a restart \<open>recover_gaps\<close> asks for what was missed. Handlers take the
  updates from the queue, and messages name files by the identifiers of \<open>file_id.py\<close>, which
  \<open>get_file\<close> downloads and \<open>save_file\<close> uploads. Requests go through
  \<open>invoke\<close> and name their peers by what \<open>resolve_peer\<close> makes of an identifier, a name or
  a link; texts carry their entities through the parsers of \<open>parser/\<close>.

  \<^bold>\<open>Conventions\<close> (\<open>Prelude\<close>). Bytes are 8-bit words and a \<open>bytes\<close> object is a
  list of them; Python's integers are \<open>int\<close>, and a number that is written in a fixed width
  raises \<open>struct.error\<close> or \<open>OverflowError\<close> outside its range, as in the code. An
  exception is the left side of \<open>'a res = exn + 'a\<close>, and \<open>bind_res\<close> sequences. Mutable
  objects are records passed along and returned. A slice is \<open>py_slice\<close>, with Python's
  treatment of bounds. The collections \<open>bytes_simps\<close>, \<open>res_simps\<close> and
  \<open>eval_simps\<close> hold the rules that carry the proofs and evaluate the witnesses.

  \<^bold>\<open>Theories, in the order of the layers.\<close>

  \<^item> \<open>Unicode\<close>, \<open>TL_Core\<close>: UTF-8 with replacement, the UTF-16 offsets of
    \<open>parser/utils.py\<close>, and the types of \<open>raw/core\<close>. The locale \<open>tl_codec\<close> is the
    contract of a type (what is written is read back and leaves the rest alone); vectors,
    containers and messages are proved once inside it and every type interprets it.
  \<^item> \<open>Base64\<close>, \<open>File_Id\<close>: the texts of \<open>file_id.py\<close>, with the round trip of
    every layout and the two places where it is not one.
  \<^item> \<open>Ciphers\<close>, \<open>Mtproto\<close>: the modes of \<open>crypto/aes.py\<close> over any block cipher
    (locale \<open>stream_cipher\<close>: a stream can be cut anywhere), and \<open>kdf\<close>,
    \<open>pack\<close>, \<open>unpack\<close> of \<open>crypto/mtproto.py\<close> with the numbering of
    \<open>session/internals\<close>.
  \<^item> \<open>Prime\<close>, \<open>Rsa\<close>, \<open>Srp\<close>, \<open>Auth\<close>: \<open>crypto/prime.py\<close>,
    \<open>crypto/rsa.py\<close>, \<open>utils/crypto.py\<close> and \<open>session/auth.py\<close>.
  \<^item> \<open>Framing\<close>, \<open>Transports\<close>, \<open>Proxy_Config\<close>, \<open>Obfuscation\<close>:
    \<open>connection/\<close>. The locale \<open>byte_stream\<close> is the contract of a \<open>recv\<close> (exactly
    the bytes asked for, in order, or \<open>None\<close>), interpreted on the socket, the fake TLS
    records and the ciphered streams; \<open>framing\<close> extends it with a \<open>send\<close> and a
    \<open>recv\<close> of packets and is interpreted on each of the framings, so that
    \<open>end_to_end\<close> is proved once.
  \<^item> \<open>Dc_Options\<close>, \<open>Endpoint_Cache\<close>: \<open>dc_options.py\<close>, the choice of an
    endpoint and the files of its cache.
  \<^item> \<open>Session_Packets\<close>, \<open>Session_Lifecycle\<close>, \<open>Publication\<close>:
    \<open>session/session.py\<close>, in three parts: what a received packet does, how a session
    starts, stops, restarts and retries, and the guarded publication. A run of received messages ends
    with the life of the session, at the first verdict that asks for a restart; what a restart forgets is
    \<open>restart_forgets_newer\<close>. A start goes through its endpoints with the owner's \<open>stop\<close> arriving at
    any of its waits, completed or still running.
  \<^item> \<open>Peers\<close>, \<open>Storage\<close>, \<open>Rpc_Errors\<close>: \<open>utils/peers.py\<close>,
    \<open>storage/\<close> and \<open>errors/rpc_error.py\<close>. A table is the list of its rows. The locale
    \<open>legacy_storage\<close> is the older interface of a storage of update states, and the adapter
    over it is shown to agree with the new interface both over the SQLite upserts and over storages that replace whole
    rows. A migration of an older file (one without the objects that later versions add, listed by version) either
    gets through with all of them or raises and leaves a file on which no later attempt succeeds.
  \<^item> \<open>Dispatcher\<close>, \<open>Updates\<close>, \<open>Downloads\<close>: \<open>dispatcher.py\<close>, the parts
    of \<open>client.py\<close> that handle updates and files, and \<open>recover_gaps.py\<close>. What a recovery must
    deliver is read off the server by the relation \<open>talks\<close>, which follows the protocol of differences without
    the client's code and has at most one outcome; a chunk of the content network is
    verified against the hashes given for its own offset.
  \<^item> \<open>Uploads\<close>: \<open>save_file.py\<close>. Its tasks (the producer, the workers, the watchdog, the
    owner) are steps between awaits on one state, and a run is any list of such steps.
  \<^item> \<open>Resolve\<close>, \<open>Client_Dc\<close>: \<open>invoke.py\<close> and \<open>resolve_peer.py\<close> over the
    tables of \<open>Storage\<close>, and how \<open>client.py\<close> moves between data centres and keeps its
    table of sessions; the trail of a call lists the sessions it started and stopped and where a key came from.
  \<^item> \<open>Fake_Tls\<close>: \<open>crypto/faketls.py\<close> and the greeting in \<open>tcp.py\<close>. The
    ClientHello is a list of operations; \<open>writes\<close> is what an operation adds to a hello, and
    the fields of the whole follow from those of its parts.
  \<^item> \<open>Client_Life\<close>: \<open>connect\<close>, \<open>disconnect\<close>, \<open>initialize\<close>,
    \<open>terminate\<close>, \<open>start\<close>, \<open>stop\<close>, \<open>restart\<close> and \<open>log_out\<close> of
    \<open>methods/auth\<close> and \<open>methods/utilities\<close>. An operation is a state transformer whose
    changes stay when it raises; \<open>ensures\<close> gives what holds after it on both ways out. The
    invariant holds for any behaviour of what is awaited; that start and stop are all or nothing
    needs that what is closed does close (\<open>calm\<close>).
  \<^item> \<open>Html\<close>, \<open>Html_Trip\<close>, \<open>Markdown\<close>: \<open>parser/\<close>. A message with
    nested entities is a forest (\<open>node\<close>), and survives being written and read as HTML and as
    Markdown, which the code rewrites to HTML first.
  \<^item> \<open>Filters\<close>: \<open>filters.py\<close>, how filters combine and what they look at, and the
    matching of \<open>command\<close> with its arguments.
  \<^item> \<open>Utils\<close>: the helpers of \<open>utils/\<close> with a behaviour of their own, among them the
    bounded cache, shown to be a least-recently-used cache.

  \<^bold>\<open>Parameters.\<close> What is not under \<open>src/\<close> is an argument: the block cipher, SHA-1,
  SHA-256, HMAC, PBKDF2, the random source and its draws; the classes that the schema compiler generates
  (\<open>auth_schema\<close>, the object table of \<open>TLObject_read\<close>, the table of exceptions); the
  answers of servers; the outcomes of system calls, of connections and of tasks, which may
  differ at every call; the readings of the clock; of the standard library \<open>html.unescape\<close>, the reading of a link
  and what letters there are past ASCII. Where a property needs something of them it
  is a named hypothesis, such as the inverse law of a block cipher, and a witness gives
  concrete functions for which it holds.

  \<^bold>\<open>Loops.\<close> Loops over data are structural or have a measure. A loop that may run for ever is a
  \<open>partial_function (option)\<close>, for which \<open>None\<close> means just that: the factorisation
  of \<open>Prime\<close> (shown to end for all draws), the draws of \<open>Srp\<close> and of the curve in
  \<open>Fake_Tls\<close>, the pieces of \<open>split_text\<close> (shown to end for every positive length), the chunks of
  \<open>Downloads\<close>, the recovery of \<open>Updates\<close> (shown to end when the server makes
  progress, and to run for ever against a server that does not). The attempts the code itself bounds (\<open>Auth\<close>,
  \<open>Session_Lifecycle\<close>) are counted down as the code counts them. The only fuel is that of the
  lexer of \<open>Html\<close>: the length of the text, of which each token takes at least one character
  (\<open>lex_fuel_enough\<close>).

  \<^bold>\<open>What is not modelled.\<close> The classes of \<open>types/\<close>, \<open>enums/\<close>,
  \<open>handlers/\<close> and most of \<open>methods/\<close> copy fields between generated objects and the
  application's; they have no state and their meaning is the schema's. \<open>compiler/\<close> and
  \<open>raw/\<close> outside \<open>raw/core\<close> are the generator and what it generates. Of \<open>filters.py\<close>,
  the filters that test one attribute of a message are left out, and of \<open>utils/\<close> what converts
  objects of the schema. Dialling through SOCKS and HTTP proxies and the web carrier rest on sockets
  and third-party packages. Logging and the textual forms of objects are left out everywhere.
\<close>

end
